(* ===== verification/Prelude.thy ===== *)
theory Prelude
  imports Main "HOL-Library.Char_ord" "HOL-Library.List_Lexorder" "HOL-Library.Code_Target_Nat"
begin

text \<open>
  The shared vocabulary of the development: the Python exceptions the code raises and
  catches, the result type of fallible code, Python strings as byte lists with the
  string operations the code uses, dictionaries as association lists in insertion order,
  and the generic lemmas on them that every component relies on.

  A Python \<open>str\<close> is modelled by its UTF-8 bytes (one \<open>char\<close> is one byte); a lone
  surrogate, which Python can hold but not encode, by its three-byte generalised form.
  ASCII text therefore has one \<open>char\<close> per Python character.
\<close>

section \<open>Exceptions and results\<close>

datatype pyexc =
    ValueError | JSONDecodeError | UnicodeEncodeError | UnicodeDecodeError
  | OSError | KeyError | TypeError | IndexError | AttributeError | RuntimeError
  | TimeoutExpired | CalledProcessError | UnsupportedFleetMode | PlanValidationError | ContractsMismatch

type_synonym 'a res = "pyexc + 'a"

text \<open>\<open>except ValueError\<close> also catches its subclasses.\<close>

definition is_value_error :: "pyexc \<Rightarrow> bool" where
  "is_value_error e \<longleftrightarrow>
     e \<in> {ValueError, JSONDecodeError, UnicodeEncodeError, UnicodeDecodeError, PlanValidationError}"

named_theorems res_simps \<open>unfolding of the result combinators\<close>
named_theorems row_simps \<open>effect of ledger operations on the rows\<close>

definition res_bind :: "'a res \<Rightarrow> ('a \<Rightarrow> 'b res) \<Rightarrow> 'b res" where
  [res_simps]: "res_bind m k = (case m of Inl e \<Rightarrow> Inl e | Inr a \<Rightarrow> k a)"

lemma res_bind_simps [simp]:
  "res_bind (Inl e) k = Inl e"
  "res_bind (Inr a) k = k a"
  by (simp_all add: res_bind_def)

lemma res_bind_Inr_iff:
  "res_bind m k = Inr b \<longleftrightarrow> (\<exists>a. m = Inr a \<and> k a = Inr b)"
  by (cases m) auto

text \<open>A list comprehension over a fallible function: the first exception wins.\<close>

fun res_map :: "('a \<Rightarrow> 'b res) \<Rightarrow> 'a list \<Rightarrow> 'b list res" where
  "res_map f [] = Inr []"
| "res_map f (x # xs) =
     res_bind (f x) (\<lambda>y. res_bind (res_map f xs) (\<lambda>ys. Inr (y # ys)))"

lemma res_map_append:
  "res_map f (xs @ ys) =
     res_bind (res_map f xs) (\<lambda>as. res_bind (res_map f ys) (\<lambda>bs. Inr (as @ bs)))"
proof (induction xs)
  case Nil
  show ?case by (cases "res_map f ys") auto
next
  case (Cons x xs)
  then show ?case
    by (cases "f x"; cases "res_map f xs"; cases "res_map f ys") auto
qed

lemma res_map_length: "res_map f xs = Inr ys \<Longrightarrow> length ys = length xs"
  by (induction xs arbitrary: ys) (auto simp: res_bind_Inr_iff)

lemma res_map_nth:
  "res_map f xs = Inr ys \<Longrightarrow> i < length xs \<Longrightarrow> f (xs ! i) = Inr (ys ! i)"
  by (induction xs arbitrary: ys i) (auto simp: res_bind_Inr_iff nth_Cons split: nat.splits)

text \<open>\<open>all(f(x) for x in xs)\<close> over a fallible test: it stops at the first \<open>False\<close> or exception.\<close>

fun res_all :: "('a \<Rightarrow> bool res) \<Rightarrow> 'a list \<Rightarrow> bool res" where
  "res_all f [] = Inr True"
| "res_all f (x # xs) = res_bind (f x) (\<lambda>b. if b then res_all f xs else Inr False)"

lemma res_all_True: "res_all f xs = Inr True \<longleftrightarrow> (\<forall>x \<in> set xs. f x = Inr True)"
  by (induction xs) (auto simp: res_bind_Inr_iff)

section \<open>Python strings\<close>

definition byte :: "char \<Rightarrow> nat" where
  "byte c = of_char c"

text \<open>
  For evaluation, tests on a byte are tests on the bits or on the character. The code
  equations marked so below only speed evaluation up.
\<close>

lemma byte_bits: "byte c = of_bool (digit0 c) + 2 * of_bool (digit1 c) + 4 * of_bool (digit2 c) + 8 * of_bool (digit3 c)
   + 16 * of_bool (digit4 c) + 32 * of_bool (digit5 c) + 64 * of_bool (digit6 c) + 128 * of_bool (digit7 c)"
  by (cases c) (simp add: byte_def of_char_Char)

lemma byte_range_code [code_unfold]:
  "byte c < 128 \<longleftrightarrow> \<not> digit7 c"
  "byte c < 32 \<longleftrightarrow> \<not> digit7 c \<and> \<not> digit6 c \<and> \<not> digit5 c"
  "128 \<le> byte c \<longleftrightarrow> digit7 c"
  by (auto simp: byte_bits of_bool_def)

lemma byte_eq_code [code_unfold]:
  "byte c = 9 \<longleftrightarrow> c = CHR 0x09" "byte c = 10 \<longleftrightarrow> c = CHR 0x0A" "byte c = 12 \<longleftrightarrow> c = CHR 0x0C"
  "byte c = 13 \<longleftrightarrow> c = CHR 0x0D" "byte c = 8 \<longleftrightarrow> c = CHR 0x08" "byte c = 32 \<longleftrightarrow> c = CHR 0x20"
  "byte c = 194 \<longleftrightarrow> c = CHR 0xC2" "byte c = 226 \<longleftrightarrow> c = CHR 0xE2"
  by (cases c, auto simp: byte_bits of_bool_def split: if_splits)+

definition printable :: "char \<Rightarrow> bool" where
  "printable c \<longleftrightarrow> \<not> digit7 c \<and> (digit6 c \<or> digit5 c)"

lemma digit7_byte: "digit7 c \<longleftrightarrow> 128 \<le> byte c"
  by (simp add: byte_range_code)

lemma printable_byte: "printable c \<longleftrightarrow> 32 \<le> byte c \<and> byte c < 128"
  by (auto simp: printable_def byte_bits of_bool_def)

text \<open>
  \<open>str.splitlines\<close> breaks after line feed, carriage return (and the pair), vertical tab,
  form feed, the separators 1C, 1D and 1E, NEL (U+0085) and the line and paragraph
  separators U+2028 and U+2029. \<open>line_break s\<close> is the number of bytes of the break at the
  head of \<open>s\<close>, 0 when there is none.
\<close>

definition ascii_break :: "char \<Rightarrow> bool" where
  "ascii_break c \<longleftrightarrow> byte c \<in> {10, 11, 12, 13, 28, 29, 30}"

fun line_break :: "string \<Rightarrow> nat" where
  "line_break [] = 0"
| "line_break (c # cs) =
     (if byte c = 13 then (case cs of [] \<Rightarrow> 1 | d # _ \<Rightarrow> if byte d = 10 then 2 else 1)
      else if ascii_break c then 1
      else if byte c = 194 then (case cs of [] \<Rightarrow> 0 | d # _ \<Rightarrow> if byte d = 133 then 2 else 0)
      else if byte c = 226 then
        (case cs of d # e # _ \<Rightarrow>
           if byte d = 128 \<and> (byte e = 168 \<or> byte e = 169) then 3 else 0
         | _ \<Rightarrow> 0)
      else 0)"

lemma line_break_code [code]:
  "line_break [] = 0"
  "line_break (c # cs) =
     (if printable c then 0
      else if byte c = 13 then (case cs of [] \<Rightarrow> 1 | d # _ \<Rightarrow> if byte d = 10 then 2 else 1)
      else if ascii_break c then 1
      else if byte c = 194 then (case cs of [] \<Rightarrow> 0 | d # _ \<Rightarrow> if byte d = 133 then 2 else 0)
      else if byte c = 226 then
        (case cs of d # e # _ \<Rightarrow>
           if byte d = 128 \<and> (byte e = 168 \<or> byte e = 169) then 3 else 0
         | _ \<Rightarrow> 0)
      else 0)"
  by (simp_all add: printable_byte ascii_break_def)

function splitlines_from :: "string \<Rightarrow> string \<Rightarrow> string list" where
  "splitlines_from acc [] = (if acc = [] then [] else [rev acc])"
| "splitlines_from acc (c # cs) =
     (if line_break (c # cs) = 0 then splitlines_from (c # acc) cs
      else rev acc # splitlines_from [] (drop (line_break (c # cs)) (c # cs)))"
  by pat_completeness auto
termination
  by (relation "measure (\<lambda>(acc, s). length s)") auto

declare splitlines_from.simps [simp del]

definition splitlines :: "string \<Rightarrow> string list" where
  "splitlines s = splitlines_from [] s"

text \<open>
  \<open>str.isspace\<close> on one character: \<open>space_len s\<close> is the number of bytes of the white space
  character at the head of \<open>s\<close> (the ASCII ones, NEL, the no-break space and the Unicode
  space separators), 0 when there is none.
\<close>

definition ascii_space :: "char \<Rightarrow> bool" where
  "ascii_space c \<longleftrightarrow> byte c \<in> {9, 10, 11, 12, 13, 28, 29, 30, 31, 32}"

fun space_len :: "string \<Rightarrow> nat" where
  "space_len [] = 0"
| "space_len (c # cs) =
     (if ascii_space c then 1
      else (case cs of
        [] \<Rightarrow> 0
      | d # r \<Rightarrow>
          if byte c = 194 then (if byte d = 133 \<or> byte d = 160 then 2 else 0)
          else (case r of
            [] \<Rightarrow> 0
          | e # _ \<Rightarrow>
              if (byte c = 225 \<and> byte d = 154 \<and> byte e = 128) \<or>
                 (byte c = 226 \<and> byte d = 128 \<and>
                   (128 \<le> byte e \<and> byte e \<le> 138 \<or> byte e \<in> {168, 169, 175})) \<or>
                 (byte c = 226 \<and> byte d = 129 \<and> byte e = 159) \<or>
                 (byte c = 227 \<and> byte d = 128 \<and> byte e = 128)
              then 3 else 0)))"

lemma ascii_space_code [code]:
  "ascii_space c \<longleftrightarrow> (if c = CHR '' '' then True else if printable c then False
     else byte c \<in> {9, 10, 11, 12, 13, 28, 29, 30, 31, 32})"
  by (auto simp: ascii_space_def printable_byte byte_eq_code(6) [symmetric])

lemma space_len_code [code]:
  "space_len [] = 0"
  "space_len (c # cs) =
     (if ascii_space c then 1
      else if \<not> digit7 c then 0
      else (case cs of
        [] \<Rightarrow> 0
      | d # r \<Rightarrow>
          if byte c = 194 then (if byte d = 133 \<or> byte d = 160 then 2 else 0)
          else (case r of
            [] \<Rightarrow> 0
          | e # _ \<Rightarrow>
              if (byte c = 225 \<and> byte d = 154 \<and> byte e = 128) \<or>
                 (byte c = 226 \<and> byte d = 128 \<and>
                   (128 \<le> byte e \<and> byte e \<le> 138 \<or> byte e \<in> {168, 169, 175})) \<or>
                 (byte c = 226 \<and> byte d = 129 \<and> byte e = 159) \<or>
                 (byte c = 227 \<and> byte d = 128 \<and> byte e = 128)
              then 3 else 0)))"
  by (rule space_len.simps(1)) (cases cs; cases "tl cs"; auto simp: digit7_byte)

lemma space_len_pos: "0 < space_len s \<Longrightarrow> s \<noteq> []"
  by (cases s) auto

text \<open>\<open>str.lstrip()\<close>, \<open>not line.strip()\<close>, \<open>str.strip()\<close>.\<close>

function lstrip :: "string \<Rightarrow> string" where
  "lstrip s = (if space_len s = 0 then s else lstrip (drop (space_len s) s))"
  by pat_completeness auto
termination
  by (relation "measure length") (auto dest: space_len_pos intro!: diff_less)

declare lstrip.simps [simp del]

definition blank :: "string \<Rightarrow> bool" where
  "blank s \<longleftrightarrow> lstrip s = []"

fun rstrip :: "string \<Rightarrow> string" where
  "rstrip [] = []"
| "rstrip (c # cs) = (if blank (c # cs) then [] else c # rstrip cs)"

definition strip :: "string \<Rightarrow> string" where
  "strip s = rstrip (lstrip s)"

lemma lstrip_nospace: "space_len s = 0 \<Longrightarrow> lstrip s = s"
  by (simp add: lstrip.simps)

lemma not_blank: "s \<noteq> [] \<Longrightarrow> space_len s = 0 \<Longrightarrow> \<not> blank s"
  by (simp add: blank_def lstrip_nospace)

text \<open>\<open>str.split()\<close>: the words between runs of white space.\<close>

fun split_ws_from :: "nat \<Rightarrow> string \<Rightarrow> string \<Rightarrow> string list" where
  "split_ws_from k acc [] = (if acc = [] then [] else [rev acc])"
| "split_ws_from (Suc k) acc (c # cs) = split_ws_from k acc cs"
| "split_ws_from 0 acc (c # cs) =
     (if space_len (c # cs) = 0 then split_ws_from 0 (c # acc) cs
      else (if acc = [] then [] else [rev acc]) @ split_ws_from (space_len (c # cs) - 1) [] cs)"

definition split_ws :: "string \<Rightarrow> string list" where
  "split_ws s = split_ws_from 0 [] s"

text \<open>\<open>s.strip(ch)\<close> for one ASCII character, and \<open>s.partition(ch)\<close> without its middle.\<close>

definition strip_char :: "char \<Rightarrow> string \<Rightarrow> string" where
  "strip_char c s = rev (dropWhile (\<lambda>x. x = c) (rev (dropWhile (\<lambda>x. x = c) s)))"

definition partition_at :: "char \<Rightarrow> string \<Rightarrow> string \<times> string" where
  "partition_at c s = (takeWhile (\<lambda>x. x \<noteq> c) s, tl (dropWhile (\<lambda>x. x \<noteq> c) s))"

text \<open>\<open>str.lower()\<close>, on ASCII letters.\<close>

definition lower_char :: "char \<Rightarrow> char" where
  "lower_char c = (if 65 \<le> byte c \<and> byte c \<le> 90 then char_of (byte c + 32) else c)"

definition lower :: "string \<Rightarrow> string" where
  "lower s = map lower_char s"

text \<open>\<open>len(s)\<close> counts characters: the bytes that do not continue one.\<close>

definition py_len :: "string \<Rightarrow> nat" where
  "py_len s = length (filter (\<lambda>c. \<not> (128 \<le> byte c \<and> byte c \<le> 191)) s)"

fun startswith :: "string \<Rightarrow> string \<Rightarrow> bool" where
  "startswith s [] = True"
| "startswith [] (p # ps) = False"
| "startswith (c # s) (p # ps) = (c = p \<and> startswith s ps)"

lemma startswith_iff: "startswith s p \<longleftrightarrow> (\<exists>r. s = p @ r)"
  by (induction s p rule: startswith.induct) auto

text \<open>\<open>pat in s\<close>.\<close>

fun contains :: "string \<Rightarrow> string \<Rightarrow> bool" where
  "contains pat [] = (pat = [])"
| "contains pat (x # xs) = (startswith (x # xs) pat \<or> contains pat xs)"

text \<open>\<open>s.split(sep)\<close> for a separator of one character.\<close>

fun split_on :: "char \<Rightarrow> string \<Rightarrow> string list" where
  "split_on c [] = [[]]"
| "split_on c (x # xs) =
     (if x = c then [] # split_on c xs
      else (case split_on c xs of [] \<Rightarrow> [[x]] | w # ws \<Rightarrow> (x # w) # ws))"

lemma split_on_nonempty [simp]: "split_on c s \<noteq> []"
  by (induction s) (auto split: list.splits)

text \<open>Strict UTF-8, as \<open>bytes.decode("utf-8")\<close> accepts it (no surrogates, no overlong forms).\<close>

definition cont_byte :: "char \<Rightarrow> bool" where
  "cont_byte c \<longleftrightarrow> 128 \<le> byte c \<and> byte c \<le> 191"

fun utf8_ok :: "string \<Rightarrow> bool" where
  "utf8_ok [] = True"
| "utf8_ok (c # cs) =
     (if byte c < 128 then utf8_ok cs
      else if 194 \<le> byte c \<and> byte c \<le> 223 then
        (case cs of d # r \<Rightarrow> cont_byte d \<and> utf8_ok r | _ \<Rightarrow> False)
      else if 224 \<le> byte c \<and> byte c \<le> 239 then
        (case cs of d # e # r \<Rightarrow>
           cont_byte d \<and> cont_byte e \<and> (byte c = 224 \<longrightarrow> 160 \<le> byte d) \<and>
           (byte c = 237 \<longrightarrow> byte d \<le> 159) \<and> utf8_ok r
         | _ \<Rightarrow> False)
      else if 240 \<le> byte c \<and> byte c \<le> 244 then
        (case cs of d # e # f # r \<Rightarrow>
           cont_byte d \<and> cont_byte e \<and> cont_byte f \<and> (byte c = 240 \<longrightarrow> 144 \<le> byte d) \<and>
           (byte c = 244 \<longrightarrow> byte d \<le> 143) \<and> utf8_ok r
         | _ \<Rightarrow> False)
      else False)"

definition encode :: "string \<Rightarrow> string res" where
  "encode s = (if utf8_ok s then Inr s else Inl UnicodeEncodeError)"

definition decode :: "string \<Rightarrow> string res" where
  "decode b = (if utf8_ok b then Inr b else Inl UnicodeDecodeError)"

lemma list_upto3_cases:
  obtains "xs = []" | d where "xs = [d]" | d e where "xs = [d, e]" | d e f r where "xs = d # e # f # r"
  by (cases xs; cases "tl xs"; cases "tl (tl xs)") auto

lemma utf8_ok_append: "utf8_ok a \<Longrightarrow> utf8_ok (a @ b) = utf8_ok b"
proof (induction a rule: utf8_ok.induct)
  case 1
  show ?case by simp
next
  case (2 c cs)
  consider "byte c < 128" | "194 \<le> byte c \<and> byte c \<le> 223"
    | "224 \<le> byte c \<and> byte c \<le> 239" | "240 \<le> byte c \<and> byte c \<le> 244"
    using "2.prems" by (auto split: if_splits)
  then show ?case
  proof cases
    case 1
    with 2 show ?thesis by simp
  next
    case 2
    with "2.prems" "2.IH"(2) show ?thesis by (cases cs) auto
  next
    case 3
    with "2.prems" "2.IH"(3) show ?thesis by (cases cs; cases "tl cs") auto
  next
    case 4
    with "2.prems" "2.IH"(4) show ?thesis by (cases cs; cases "tl cs"; cases "tl (tl cs)") auto
  qed
qed

lemma utf8_ok_concat: "(\<And>s. s \<in> set ss \<Longrightarrow> utf8_ok s) \<Longrightarrow> utf8_ok (concat ss)"
  by (induction ss) (auto simp: utf8_ok_append)

definition ascii :: "string \<Rightarrow> bool" where
  "ascii s \<longleftrightarrow> list_all (\<lambda>c. byte c < 128) s"

lemma ascii_utf8_ok: "ascii s \<Longrightarrow> utf8_ok s"
  by (induction s) (auto simp: ascii_def)

section \<open>Where a text breaks into lines\<close>

fun has_break :: "string \<Rightarrow> bool" where
  "has_break [] = False"
| "has_break (c # cs) = (line_break (c # cs) \<noteq> 0 \<or> has_break cs)"

lemma line_break_append_ascii:
  assumes "r = [] \<or> (byte (hd r) < 128 \<and> byte (hd r) \<noteq> 10)"
  shows "c # cs \<noteq> [] \<Longrightarrow> line_break ((c # cs) @ r) = line_break (c # cs)"
  using assms by (cases cs rule: list_upto3_cases; cases r) (auto split: list.splits)

lemma has_break_append:
  assumes "r = [] \<or> (byte (hd r) < 128 \<and> byte (hd r) \<noteq> 10)"
  shows "has_break (s @ r) = (has_break s \<or> has_break r)"
proof (induction s)
  case Nil
  show ?case by simp
next
  case (Cons c s)
  then show ?case using line_break_append_ascii [OF assms, of c s]
    by (simp del: line_break.simps)
qed

lemma line_break_before_newline:
  assumes "byte n = 10" and "line_break (c # cs) = 0"
  shows "line_break (c # cs @ n # r) = 0"
  using assms by (cases cs rule: list_upto3_cases; cases r)
    (auto simp: ascii_break_def split: if_splits)

lemma line_break_newline_rest:
  assumes "byte n = 10"
  shows "line_break (c # cs @ n # r) = line_break (c # cs @ [n])"
  using assms by (cases cs rule: list_upto3_cases; cases r) auto

lemma line_break_newline_zero:
  assumes "byte n = 10" and "line_break (c # cs @ [n]) = 0"
  shows "line_break (c # cs) = 0"
  using assms by (cases cs rule: list_upto3_cases) (auto split: if_splits)

lemma line_break_newline_cases:
  assumes "byte n = 10" and "line_break (c # cs @ [n]) \<noteq> 0"
  shows "(cs = [] \<and> byte c = 13) \<or> line_break (c # cs @ [n]) = line_break (c # cs)"
  using assms by (cases cs rule: list_upto3_cases) auto

lemma line_break_le: "line_break (c # cs) \<le> Suc (length cs)"
  by (cases cs rule: list_upto3_cases) auto

lemma splitlines_from_line:
  assumes "\<not> has_break s" and n: "byte n = 10"
  shows "splitlines_from acc (s @ n # r) = rev (rev s @ acc) # splitlines_from [] r"
  using assms(1)
proof (induction s arbitrary: acc)
  case Nil
  show ?case using n by (simp add: splitlines_from.simps ascii_break_def)
next
  case (Cons c s)
  then have "line_break (c # s @ n # r) = 0"
    by (intro line_break_before_newline [OF n]) auto
  with Cons show ?case by (simp add: splitlines_from.simps del: line_break.simps)
qed

text \<open>
  A text that ends in a newline can be extended without disturbing the lines before: the
  break at its end is complete.
\<close>

lemma splitlines_from_append:
  assumes n: "byte n = 10"
  shows "splitlines_from acc (s @ n # r) = splitlines_from acc (s @ [n]) @ splitlines_from [] r"
proof (induction acc s rule: splitlines_from.induct)
  case (1 acc)
  show ?case using n by (simp add: splitlines_from.simps ascii_break_def)
next
  case (2 acc c cs)
  note same = line_break_newline_rest [OF n, of c cs r]
  show ?case
  proof (cases "line_break (c # cs @ [n]) = 0")
    case True
    then have "line_break (c # cs) = 0"
      by (rule line_break_newline_zero [OF n])
    with 2(1) same True show ?thesis
      by (simp add: splitlines_from.simps del: line_break.simps)
  next
    case False
    from line_break_newline_cases [OF n False] show ?thesis
    proof
      assume "cs = [] \<and> byte c = 13"
      with n show ?thesis by (simp add: splitlines_from.simps)
    next
      assume eq: "line_break (c # cs @ [n]) = line_break (c # cs)"
      have "drop (line_break (c # cs)) (c # cs @ ys) = drop (line_break (c # cs)) (c # cs) @ ys" for ys
        using line_break_le [of c cs] drop_append [of "line_break (c # cs)" "c # cs" ys]
        by (simp del: line_break.simps)
      with 2(2) False eq same show ?thesis
        by (simp add: splitlines_from.simps del: line_break.simps)
    qed
  qed
qed

lemma splitlines_newline_append:
  "byte n = 10 \<Longrightarrow> splitlines (s @ n # r) = splitlines (s @ [n]) @ splitlines r"
  unfolding splitlines_def by (rule splitlines_from_append)

lemma splitlines_one_line:
  "\<not> has_break s \<Longrightarrow> byte n = 10 \<Longrightarrow> splitlines (s @ [n]) = [s]"
  by (simp add: splitlines_def splitlines_from_line splitlines_from.simps(1))

section \<open>Dictionaries in insertion order\<close>

text \<open>
  \<open>dict_set d k v\<close> is \<open>d[k] = v\<close>: a known key keeps its place, a new one goes to the end.
  \<open>map_of d k\<close> is \<open>d.get(k)\<close>.
\<close>

fun dict_set :: "('k \<times> 'v) list \<Rightarrow> 'k \<Rightarrow> 'v \<Rightarrow> ('k \<times> 'v) list" where
  "dict_set [] k v = [(k, v)]"
| "dict_set ((k', v') # d) k v =
     (if k' = k then (k, v) # d else (k', v') # dict_set d k v)"

lemma map_of_dict_set [simp]: "map_of (dict_set d k v) = (map_of d)(k \<mapsto> v)"
  by (induction d k v rule: dict_set.induct) auto

lemma keys_dict_set [simp]: "fst ` set (dict_set d k v) = insert k (fst ` set d)"
  by (induction d k v rule: dict_set.induct) auto

lemma distinct_dict_set:
  "distinct (map fst d) \<Longrightarrow> distinct (map fst (dict_set d k v))"
proof (induction d k v rule: dict_set.induct)
  case (1 k v)
  show ?case by simp
next
  case (2 k' v' d k v)
  have "k' \<in> set (map fst (dict_set d k v)) \<longleftrightarrow> k' \<in> insert k (set (map fst d))"
    using keys_dict_set [of d k v] by (simp only: set_map)
  with 2 show ?case by auto
qed

lemma dict_set_new: "k \<notin> fst ` set d \<Longrightarrow> dict_set d k v = d @ [(k, v)]"
  by (induction d k v rule: dict_set.induct) auto

definition dict_of :: "('k \<times> 'v) list \<Rightarrow> ('k \<times> 'v) list" where
  "dict_of kvs = foldl (\<lambda>d (k, v). dict_set d k v) [] kvs"

lemma dict_of_distinct_aux:
  "distinct (map fst (d @ kvs)) \<Longrightarrow> foldl (\<lambda>d (k, v). dict_set d k v) d kvs = d @ kvs"
proof (induction kvs arbitrary: d)
  case Nil
  show ?case by simp
next
  case (Cons kv kvs)
  obtain k v where kv: "kv = (k, v)" by (cases kv)
  from Cons.prems kv have "k \<notin> fst ` set d" by auto
  then have "dict_set d k v = d @ [kv]" by (simp add: dict_set_new kv)
  with Cons.IH [of "d @ [kv]"] Cons.prems kv show ?case by simp
qed

lemma dict_of_distinct: "distinct (map fst kvs) \<Longrightarrow> dict_of kvs = kvs"
  using dict_of_distinct_aux [of "[]" kvs] by (simp add: dict_of_def)

definition lookup_default :: "'v \<Rightarrow> ('k \<times> 'v) list \<Rightarrow> 'k \<Rightarrow> 'v" where
  "lookup_default v0 d k = (case map_of d k of None \<Rightarrow> v0 | Some v \<Rightarrow> v)"

text \<open>\<open>d.setdefault(k, []).append(x)\<close>: the grouping idiom.\<close>

definition dict_append :: "('k \<times> 'v list) list \<Rightarrow> 'k \<Rightarrow> 'v \<Rightarrow> ('k \<times> 'v list) list" where
  "dict_append d k x = dict_set d k (lookup_default [] d k @ [x])"

section \<open>Lists\<close>

text \<open>\<open>xs.remove(x)\<close> is \<open>remove1\<close>; the last element that satisfies a test, walking back.\<close>

definition find_last :: "('a \<Rightarrow> bool) \<Rightarrow> 'a list \<Rightarrow> 'a option" where
  "find_last P xs = find P (rev xs)"

lemma find_last_snoc: "find_last P (xs @ [x]) = (if P x then Some x else find_last P xs)"
  by (simp add: find_last_def)

lemma find_last_Nil [simp]: "find_last P [] = None"
  by (simp add: find_last_def)

lemma find_last_Some: "find_last P xs = Some x \<Longrightarrow> x \<in> set xs \<and> P x"
  by (induction xs rule: rev_induct) (auto simp: find_last_snoc split: if_splits)

lemma find_last_None: "find_last P xs = None \<longleftrightarrow> (\<forall>x \<in> set xs. \<not> P x)"
  by (induction xs rule: rev_induct) (auto simp: find_last_snoc)

end
