(* ===== verification/Json_Roundtrip.thy ===== *)
theory Json_Roundtrip
  imports Json
begin

text \<open>
  The round trip of the JSON codec: what \<open>dumps\<close> writes, with any separators Python can be
  asked for, \<open>loads\<close> reads back. Reading back makes \<open>dumps\<close> injective, which is what the
  digest of a ledger row rests on.
\<close>

section \<open>Digits and integers\<close>

lemma byte_char_of [simp]: "byte (char_of n) = n mod 256"
  by (simp add: byte_def)

lemma byte_inject [simp]: "byte c = byte d \<longleftrightarrow> c = d"
  by (simp add: byte_def)

lemma byte_less_256 [simp]: "byte c < 256"
  unfolding byte_def by (metis of_char_of mod_less_divisor char_of_char zero_less_numeral)

lemma digit_is_digit: "d < 10 \<Longrightarrow> is_digit (digit d) \<and> digit_val (digit d) = d"
  by (simp add: digit_def is_digit_def digit_val_def)

lemma show_nat_digits: "list_all is_digit (show_nat n) \<and> show_nat n \<noteq> []"
proof (induction n rule: show_nat.induct)
  case (1 n)
  then show ?case by (subst (1 2) show_nat.simps) (auto simp: digit_is_digit)
qed

lemma read_nat_snoc: "read_nat (s @ [c]) = 10 * read_nat s + digit_val c"
  by (simp add: read_nat_def)

lemma read_show_nat: "read_nat (show_nat n) = n"
proof (induction n rule: show_nat.induct)
  case (1 n)
  show ?case
  proof (cases "n < 10")
    case True
    then show ?thesis by (subst show_nat.simps) (simp add: read_nat_def digit_is_digit)
  next
    case False
    with 1 show ?thesis by (subst show_nat.simps) (simp add: read_nat_snoc digit_is_digit)
  qed
qed

lemma digit_zero: "d < 10 \<Longrightarrow> digit d = CHR ''0'' \<longleftrightarrow> d = 0"
proof -
  assume "d < 10"
  then have "byte (digit d) = 48 + d" by (simp add: digit_def)
  moreover have "byte CHR ''0'' = 48" by (simp add: byte_def)
  ultimately show ?thesis by (metis add.right_neutral add_left_cancel byte_inject)
qed

lemma show_nat_leading: "hd (show_nat n) = CHR ''0'' \<Longrightarrow> n = 0"
proof (induction n rule: show_nat.induct)
  case (1 n)
  show ?case
  proof (cases "n < 10")
    case True
    with 1(2) show ?thesis by (subst (asm) show_nat.simps) (simp add: digit_zero)
  next
    case False
    then have "show_nat n = show_nat (n div 10) @ [digit (n mod 10)]"
      by (subst show_nat.simps) simp
    with 1(2) show_nat_digits have "hd (show_nat (n div 10)) = CHR ''0''" by simp
    with 1(1) False show ?thesis by auto
  qed
qed

lemma nat_tok_show: "nat_tok (show_nat n)"
proof -
  have "hd (show_nat n) = CHR ''0'' \<Longrightarrow> tl (show_nat n) = []"
    by (drule show_nat_leading) (simp add: show_nat.simps)
  with show_nat_digits show ?thesis by (simp add: nat_tok_def)
qed

lemma minus_not_digit [simp]: "\<not> is_digit CHR ''-''"
  by (simp add: is_digit_def byte_def)

lemma show_nat_hd: "is_digit (hd (show_nat n))"
  using show_nat_digits [of n] by (cases "show_nat n") auto

lemma drop_minus_show: "drop_minus (show_int i) = show_nat (nat \<bar>i\<bar>)"
proof (cases "i < 0")
  case False
  then obtain c cs where c: "show_nat (nat i) = c # cs" "is_digit c"
    using show_nat_digits [of "nat i"] by (cases "show_nat (nat i)") auto
  then have "c \<noteq> CHR ''-''" by auto
  with False c show ?thesis by (simp add: drop_minus_def show_int_def)
qed (simp add: drop_minus_def show_int_def)

lemma read_show_int: "read_int (show_int i) = i"
proof (cases "i < 0")
  case False
  then obtain c cs where c: "show_nat (nat i) = c # cs" "is_digit c"
    using show_nat_digits [of "nat i"] by (cases "show_nat (nat i)") auto
  then have "c \<noteq> CHR ''-''" by auto
  with False c read_show_nat [of "nat i"] show ?thesis by (simp add: read_int_def show_int_def)
qed (simp add: read_int_def show_int_def read_show_nat)

section \<open>Tokens\<close>

lemma is_digit_tok: "is_digit c \<Longrightarrow> is_tok c"
  by (simp add: is_tok_def)

lemma is_tok_not:
  "is_tok c \<Longrightarrow> \<not> is_ws c \<and> c \<noteq> CHR 0x22 \<and> c \<noteq> CHR ''['' \<and> c \<noteq> CHR '']'' \<and>
     c \<noteq> CHR ''{'' \<and> c \<noteq> CHR ''}'' \<and> c \<noteq> CHR '',''"
  by (auto simp: is_tok_def is_digit_def is_ws_def byte_def)

definition delim :: "string \<Rightarrow> bool" where
  "delim r \<longleftrightarrow> r = [] \<or> \<not> is_tok (hd r)"

lemma take_tok: "list_all is_tok t \<Longrightarrow> delim r \<Longrightarrow> takeWhile is_tok (t @ r) = t"
  and drop_tok: "list_all is_tok t \<Longrightarrow> delim r \<Longrightarrow> dropWhile is_tok (t @ r) = r"
  by (cases r; induction t; auto simp: delim_def)+

text \<open>
  The well-formed values: float texts that read back as themselves, keys of an object all
  different.
\<close>

fun json_ok :: "json \<Rightarrow> bool" where
  "json_ok (JFloat t) = (scalar t = Some (JFloat t) \<and> list_all is_tok t)"
| "json_ok (JList xs) = list_all json_ok xs"
| "json_ok (JObj kvs) = (distinct (map fst kvs) \<and> list_all (\<lambda>(k, v). json_ok v) kvs)"
| "json_ok _ = True"

definition is_scalar :: "json \<Rightarrow> bool" where
  "is_scalar j = (case j of JStr _ \<Rightarrow> False | JList _ \<Rightarrow> False | JObj _ \<Rightarrow> False | _ \<Rightarrow> True)"

lemma word_toks:
  "list_all is_tok ''null''" "list_all is_tok ''true''" "list_all is_tok ''false''"
  by (simp_all add: is_tok_def is_digit_def byte_def)

lemma show_int_not_word:
  "show_int i \<noteq> ''null''" "show_int i \<noteq> ''true''" "show_int i \<noteq> ''false''"
proof -
  obtain c cs where c: "show_nat (nat i) = c # cs" "is_digit c"
    using show_nat_digits [of "nat i"] by (cases "show_nat (nat i)") auto
  have "\<not> is_digit CHR ''n''" "\<not> is_digit CHR ''t''" "\<not> is_digit CHR ''f''"
    by (simp_all add: is_digit_def byte_def)
  with c show "show_int i \<noteq> ''null''" "show_int i \<noteq> ''true''" "show_int i \<noteq> ''false''"
    by (auto simp: show_int_def)
qed

lemma scalar_dumps:
  assumes "json_ok j" and "is_scalar j"
  shows "scalar (dumps is ks j) = Some j \<and> list_all is_tok (dumps is ks j)"
proof (cases j)
  case (JBool b)
  then show ?thesis
    by (cases b) (simp_all add: scalar_def is_tok_def is_digit_def byte_def)
next
  case (JInt i)
  have "list_all is_tok (show_nat n)" for n
    using show_nat_digits [of n] is_digit_tok by (auto simp: list_all_iff)
  moreover have "is_tok CHR ''-''" by (simp add: is_tok_def)
  ultimately show ?thesis
    using JInt show_int_not_word [of i] nat_tok_show [of "nat \<bar>i\<bar>"]
    by (simp add: scalar_def drop_minus_show read_show_int) (simp add: show_int_def)
next
  case JNull
  then show ?thesis by (simp add: scalar_def is_tok_def is_digit_def byte_def)
qed (use assms in \<open>auto simp: is_scalar_def\<close>)

lemma scalar_nonempty: "scalar t = Some j \<Longrightarrow> t \<noteq> []"
  by (auto simp: scalar_def nat_tok_def drop_minus_def float_tok_def)

section \<open>Strings\<close>

lemma hex_val_digit: "d < 16 \<Longrightarrow> hex_val (hex_digit d) = Some d"
  by (auto simp: hex_digit_def hex_val_def is_digit_def)

lemma read_str_esc_control:
  assumes c: "byte c < 32" and e: "esc c = [CHR 0x5C, CHR ''u'', CHR ''0'', CHR ''0'',
      hex_digit (byte c div 16), hex_digit (byte c mod 16)]"
  shows "unescape (tl (esc c) @ r) = Some ([c], r)"
proof -
  have "hex_val CHR ''0'' = Some 0"
    by (simp add: hex_val_def is_digit_def byte_def)
  moreover have "hex_val (hex_digit (byte c div 16)) = Some (byte c div 16)"
    and "hex_val (hex_digit (byte c mod 16)) = Some (byte c mod 16)"
    using c by (simp_all add: hex_val_digit)
  ultimately have "hex4 (CHR ''0'' # CHR ''0'' # hex_digit (byte c div 16) #
      hex_digit (byte c mod 16) # r) = Some (byte c, r)"
    by simp
  moreover have "utf8 (byte c) = [c]"
    using c by (simp add: utf8_def byte_def)
  ultimately show ?thesis
    using c by (simp add: e unescape_u_def)
qed

lemma byte_controls:
  "byte c = 10 \<longleftrightarrow> c = CHR 0x0A" "byte c = 13 \<longleftrightarrow> c = CHR 0x0D" "byte c = 9 \<longleftrightarrow> c = CHR 0x09"
  "byte c = 12 \<longleftrightarrow> c = CHR 0x0C" "byte c = 8 \<longleftrightarrow> c = CHR 0x08"
  by (simp_all flip: byte_inject) (simp_all add: byte_def)

lemma unescape_esc: "esc c \<noteq> [c] \<Longrightarrow> hd (esc c) = CHR 0x5C \<and> unescape (tl (esc c) @ r) = Some ([c], r)"
proof -
  assume ne: "esc c \<noteq> [c]"
  consider "c = CHR 0x22" | "c = CHR 0x5C" | "byte c = 10" | "byte c = 13" | "byte c = 9"
    | "byte c = 12" | "byte c = 8"
    | "esc c = [CHR 0x5C, CHR ''u'', CHR ''0'', CHR ''0'', hex_digit (byte c div 16), hex_digit (byte c mod 16)]"
      "byte c < 32"
    using ne by (auto simp: esc_def split: if_splits)
  then show ?thesis
  proof cases
    case 8
    with read_str_esc_control [of c r] show ?thesis by simp
  qed (simp_all add: esc_def byte_controls)
qed

lemma esc_same: "esc c = [c] \<Longrightarrow> c \<noteq> CHR 0x22 \<and> c \<noteq> CHR 0x5C \<and> \<not> byte c < 32"
  by (auto simp: esc_def split: if_splits)

lemma esc_nonempty: "esc c \<noteq> []"
  by (simp add: esc_def)

lemma read_str_esc:
  "read_str (esc c @ r) = (case read_str r of None \<Rightarrow> None | Some (s, r') \<Rightarrow> Some (c # s, r'))"
proof (cases "esc c = [c]")
  case True
  with esc_same [OF True] show ?thesis by (simp add: read_str.simps(2) [of c])
next
  case False
  from unescape_esc [OF False, of r] obtain e where "esc c = CHR 0x5C # e"
    and "unescape (e @ r) = Some ([c], r)"
    using esc_nonempty [of c] by (cases "esc c") auto
  then show ?thesis by (simp add: read_str.simps split: option.split)
qed

lemma read_str_show: "read_str (concat (map esc s) @ CHR 0x22 # r) = Some (s, r)"
  by (induction s) (simp_all add: read_str_esc read_str.simps(2) [of "CHR 0x22"])

section \<open>Values\<close>

definition seps_ok :: "string \<Rightarrow> string \<Rightarrow> bool" where
  "seps_ok is ks \<longleftrightarrow> (\<exists>w. is = CHR '','' # w \<and> list_all is_ws w) \<and>
     (\<exists>w. ks = CHR '':'' # w \<and> list_all is_ws w)"

lemma skip_ws: "list_all is_ws w \<Longrightarrow> skip (w @ s) = skip s"
  by (induction w) (auto simp: skip_def)

lemma skip_start: "s \<noteq> [] \<Longrightarrow> \<not> is_ws (hd s) \<Longrightarrow> skip s = s"
  by (cases s) (auto simp: skip_def)

definition starts_value :: "string \<Rightarrow> bool" where
  "starts_value s \<longleftrightarrow> s \<noteq> [] \<and> \<not> is_ws (hd s) \<and> hd s \<noteq> CHR '']'' \<and> hd s \<noteq> CHR ''}''"

lemma starts_value_append: "starts_value s \<Longrightarrow> starts_value (s @ r)"
  by (auto simp: starts_value_def)

lemma not_ws [simp]: "\<not> is_ws CHR 0x22" "\<not> is_ws CHR ''[''" "\<not> is_ws CHR ''{''"
   "\<not> is_ws CHR '']''" "\<not> is_ws CHR ''}''" "\<not> is_ws CHR '',''" "\<not> is_ws CHR '':''"
  by (simp_all add: is_ws_def byte_def)

lemma dumps_starts: "json_ok j \<Longrightarrow> starts_value (dumps is ks j)"
proof (cases "is_scalar j")
  case True
  assume "json_ok j"
  from scalar_dumps [OF this True, of "is" ks] scalar_nonempty obtain c t
    where "dumps is ks j = c # t" "is_tok c" by (cases "dumps is ks j") fastforce+
  then show ?thesis using is_tok_not [of c] by (auto simp: starts_value_def)
next
  case False
  then show ?thesis
    by (cases j) (auto simp: is_scalar_def starts_value_def show_str_def)
qed

text \<open>
  A printer \<open>q\<close> writes a value so that it reads back. The two lemmas on elements and members leave the
  printer open, and the white space after the separators and before the closing bracket.
\<close>

definition reads :: "(json \<Rightarrow> string) \<Rightarrow> json \<Rightarrow> bool" where
  "reads q j \<longleftrightarrow> (\<forall>n r. delim r \<longrightarrow> 2 * length (q j) \<le> n \<longrightarrow> read_val n (q j @ r) = Some (j, r))"

definition reads_well :: "(json \<Rightarrow> string) \<Rightarrow> json \<Rightarrow> bool" where
  "reads_well q j \<longleftrightarrow> reads q j \<and> starts_value (q j)"

lemma delim_simps [simp]: "delim []" "delim (CHR '']'' # r)" "delim (CHR ''}'' # r)" "delim (CHR '','' # r)"
  by (simp_all add: delim_def is_tok_def is_digit_def byte_def)

lemma ws_delim: "list_all is_ws e \<Longrightarrow> delim r \<Longrightarrow> delim (e @ r)"
  by (cases e) (auto simp: delim_def dest: is_tok_not)

lemma read_elems_texts:
  assumes w: "list_all is_ws w" and e: "list_all is_ws e" and ne: "xs \<noteq> []"
    and xs: "\<And>x. x \<in> set xs \<Longrightarrow> reads_well q x"
    and n: "2 * length (joins (CHR '','' # w) (map q xs)) + 1 \<le> n"
  shows "read_elems n (joins (CHR '','' # w) (map q xs) @ e @ CHR '']'' # r) = Some (xs, r)"
  using ne xs n
proof (induction xs arbitrary: n)
  case (Cons x xs)
  obtain m where m: "n = Suc m" using Cons.prems(3) by (cases n) auto
  have x: "reads q x" using Cons.prems(2) by (simp add: reads_well_def)
  show ?case
  proof (cases xs)
    case Nil
    with x Cons.prems(3) m have "read_val m (q x @ e @ CHR '']'' # r) = Some (x, e @ CHR '']'' # r)"
      by (simp add: reads_def ws_delim [OF e])
    with Nil m show ?thesis by (simp add: skip_ws [OF e] skip_start)
  next
    case (Cons y ys)
    let ?rest = "joins (CHR '','' # w) (map q xs) @ e @ CHR '']'' # r"
    have js: "joins (CHR '','' # w) (map q (x # xs)) = q x @ CHR '','' # w @ joins (CHR '','' # w) (map q xs)"
      using Cons by simp
    have v: "read_val m (q x @ CHR '','' # w @ ?rest) = Some (x, CHR '','' # w @ ?rest)"
      using x Cons.prems(3) m js by (simp add: reads_def)
    have st: "starts_value ?rest"
      using Cons.prems(2) [of y] Cons starts_value_append
      by (cases ys) (simp_all add: reads_well_def append.assoc del: append_assoc)
    then have sk: "skip (w @ ?rest) = ?rest"
      by (simp add: skip_ws [OF w] skip_start starts_value_def)
    have "read_elems m ?rest = Some (xs, r)"
      using Cons.IH [of m] Cons.prems(2,3) Cons m js by simp
    with v sk js m show ?thesis by (simp add: skip_start)
  qed
qed simp

lemma read_members_texts:
  assumes w: "list_all is_ws w" and u: "list_all is_ws u" and e: "list_all is_ws e" and ne: "kvs \<noteq> []"
    and kvs: "\<And>k v. (k, v) \<in> set kvs \<Longrightarrow> reads_well q v"
    and n: "2 * length (joins (CHR '','' # w) (map (\<lambda>(k, v). show_str k @ CHR '':'' # u @ q v) kvs)) + 1 \<le> n"
  shows "read_members n (joins (CHR '','' # w) (map (\<lambda>(k, v). show_str k @ CHR '':'' # u @ q v) kvs) @ e @ CHR ''}'' # r)
    = Some (kvs, r)"
  using ne kvs n
proof (induction kvs arbitrary: n)
  case (Cons kv kvs)
  obtain k v where kv: "kv = (k, v)" by (cases kv)
  obtain m where m: "n = Suc m" using Cons.prems(3) by (cases n) auto
  have v: "reads q v" "starts_value (q v)" using Cons.prems(2) [of k v] kv by (auto simp: reads_well_def)
  let ?d = "\<lambda>(k, v). show_str k @ CHR '':'' # u @ q v"
  let ?js = "joins (CHR '','' # w) (map ?d kvs)"
  have key: "read_str (tl (show_str k @ s)) = Some (k, s)" for s
    by (simp add: show_str_def read_str_show)
  have skv: "skip (u @ q v @ s) = q v @ s" for s
    using v(2) by (simp add: skip_ws [OF u] skip_start starts_value_def)
  have hd1: "startswith (show_str k @ s) [CHR 0x22]" for s by (simp add: show_str_def)
  show ?case
  proof (cases kvs)
    case Nil
    with v(1) Cons.prems(3) m kv have "read_val m (q v @ e @ CHR ''}'' # r) = Some (v, e @ CHR ''}'' # r)"
      by (simp add: reads_def ws_delim [OF e])
    with Nil m kv key hd1 skv show ?thesis by (simp add: skip_ws [OF e] skip_start)
  next
    case (Cons kv' kvs')
    let ?rest = "?js @ e @ CHR ''}'' # r"
    have js: "joins (CHR '','' # w) (map ?d (kv # kvs)) = show_str k @ CHR '':'' # u @ q v @ CHR '','' # w @ ?js"
      using Cons kv by simp
    have len: "2 * length (q v) \<le> m"
      using Cons.prems(3) m js by (simp del: list.map)
    have val: "read_val m (q v @ CHR '','' # w @ ?rest) = Some (v, CHR '','' # w @ ?rest)"
      using v(1) len by (simp add: reads_def)
    have "starts_value ?rest"
      using Cons by (cases kvs'; cases kv') (simp_all add: starts_value_def show_str_def)
    then have sk: "skip (w @ ?rest) = ?rest"
      by (simp add: skip_ws [OF w] skip_start starts_value_def)
    have "read_members m ?rest = Some (kvs, r)"
    proof (rule Cons.IH)
      show "2 * length ?js + 1 \<le> m"
        using Cons.prems(3) m js by (simp del: list.map)
    qed (use Cons Cons.prems(2) in auto)
    with val sk js m kv key hd1 skv show ?thesis by (simp add: skip_start del: list.map)
  qed
qed simp

lemma scalar_reads_text:
  assumes "json_ok j" and "is_scalar j" and "q j = dumps is ks j"
  shows "reads q j"
proof -
  from scalar_dumps [OF assms(1,2), of "is" ks] have t: "scalar (dumps is ks j) = Some j"
    and l: "list_all is_tok (dumps is ks j)" by auto
  then obtain c cs where c: "dumps is ks j = c # cs" "is_tok c"
    using scalar_nonempty by (cases "dumps is ks j") fastforce+
  show ?thesis
    unfolding reads_def assms(3)
  proof (intro allI impI)
    fix n r assume r: "delim r" and n: "2 * length (dumps is ks j) \<le> n"
    obtain m where "n = Suc m" using n c by (cases n) auto
    with is_tok_not [OF c(2)] take_tok [OF l r] drop_tok [OF l r] t c(1)
    show "read_val n (dumps is ks j @ r) = Some (j, r)" by simp
  qed
qed

lemma str_reads_text: "q (JStr s) = show_str s \<Longrightarrow> reads q (JStr s)"
  unfolding reads_def
proof (intro allI impI)
  fix n r assume q: "q (JStr s) = show_str s" and "2 * length (q (JStr s)) \<le> n"
  then obtain m where "n = Suc m" by (cases n) (auto simp: show_str_def)
  with q show "read_val n (q (JStr s) @ r) = Some (JStr s, r)"
    by (simp add: show_str_def read_str_show)
qed

lemma not_bracket: "starts_value s \<Longrightarrow> \<not> startswith (skip (s @ r)) '']'' \<and> \<not> startswith (skip (s @ r)) ''}''"
  by (cases s) (auto simp: starts_value_def skip_start)

lemma joins_start: "xs \<noteq> [] \<Longrightarrow> starts_value (hd xs) \<Longrightarrow> starts_value (joins is xs)"
  by (cases xs; cases "tl xs") (auto simp: starts_value_append)

text \<open>A bracketed sequence of elements or members reads back, whatever white space it is laid out with.\<close>

lemma list_reads_text:
  assumes q: "q (JList xs) = (if xs = [] then ''[]'' else CHR ''['' # b @ joins (CHR '','' # w) (map p xs) @ e @ '']'')"
    and ws: "list_all is_ws w" "list_all is_ws b" "list_all is_ws e" and xs: "\<And>x. x \<in> set xs \<Longrightarrow> reads_well p x"
  shows "reads q (JList xs)"
  unfolding reads_def
proof (intro allI impI)
  fix n r assume n: "2 * length (q (JList xs)) \<le> n"
  then obtain m where m: "n = Suc m" using q by (cases n) (auto split: if_splits)
  show "read_val n (q (JList xs) @ r) = Some (JList xs, r)"
  proof (cases "xs = []")
    case True
    with m q show ?thesis by (simp add: skip_start)
  next
    case False
    let ?j = "joins (CHR '','' # w) (map p xs)"
    have j: "starts_value ?j" using False xs by (intro joins_start) (auto simp: hd_map reads_well_def)
    have "read_elems m (?j @ e @ CHR '']'' # r) = Some (xs, r)"
      using n m q False by (intro read_elems_texts [OF ws(1,3) False xs]) simp_all
    moreover from j have "skip (b @ ?j @ s) = ?j @ s" for s by (simp add: skip_ws [OF ws(2)] skip_start starts_value_def)
    moreover note not_bracket [OF j, of "e @ CHR '']'' # r"] 
    ultimately show ?thesis using m q False j by (simp add: skip_start starts_value_def)
  qed
qed

lemma obj_reads_text:
  assumes q: "q (JObj kvs) = (if kvs = [] then ''{}'' else
      CHR ''{'' # b @ joins (CHR '','' # w) (map (\<lambda>(k, v). show_str k @ CHR '':'' # u @ p v) kvs) @ e @ ''}'')"
    and ws: "list_all is_ws w" "list_all is_ws u" "list_all is_ws b" "list_all is_ws e"
    and kvs: "\<And>k v. (k, v) \<in> set kvs \<Longrightarrow> reads_well p v" and d: "distinct (map fst kvs)"
  shows "reads q (JObj kvs)"
  unfolding reads_def
proof (intro allI impI)
  fix n r assume n: "2 * length (q (JObj kvs)) \<le> n"
  then obtain m where m: "n = Suc m" using q by (cases n) (auto split: if_splits)
  show "read_val n (q (JObj kvs) @ r) = Some (JObj kvs, r)"
  proof (cases "kvs = []")
    case True
    with m q show ?thesis by (simp add: skip_start)
  next
    case False
    let ?j = "joins (CHR '','' # w) (map (\<lambda>(k, v). show_str k @ CHR '':'' # u @ p v) kvs)"
    have j: "starts_value ?j"
      using False by (intro joins_start) (auto simp: hd_map starts_value_def show_str_def split: prod.split)
    have "read_members m (?j @ e @ CHR ''}'' # r) = Some (kvs, r)"
      using n m q False by (intro read_members_texts [OF ws(1,2,4) False kvs]) simp_all
    moreover from j have "skip (b @ ?j @ s) = ?j @ s" for s by (simp add: skip_ws [OF ws(3)] skip_start starts_value_def)
    moreover note not_bracket [OF j, of "e @ CHR ''}'' # r"]
    ultimately show ?thesis using m q False j d by (simp add: skip_start starts_value_def dict_of_distinct)
  qed
qed

theorem reads_dumps: "seps_ok is ks \<Longrightarrow> json_ok j \<Longrightarrow> reads (dumps is ks) j"
proof (induction j)
  case (JList xs)
  obtain w where w: "is = CHR '','' # w" "list_all is_ws w" using JList.prems(1) by (auto simp: seps_ok_def)
  have "reads_well (dumps is ks) x" if "x \<in> set xs" for x
    using JList that dumps_starts by (auto simp: list_all_iff reads_well_def)
  then show ?case by (intro list_reads_text [where b = "[]" and e = "[]" and p = "dumps is ks", OF _ w(2)]) (simp_all add: w(1))
next
  case (JObj kvs)
  obtain w u where w: "is = CHR '','' # w" "list_all is_ws w" and u: "ks = CHR '':'' # u" "list_all is_ws u"
    using JObj.prems(1) by (auto simp: seps_ok_def)
  have "reads_well (dumps is ks) v" if "(k, v) \<in> set kvs" for k v
    using JObj that dumps_starts by (force simp: list_all_iff reads_well_def)
  then show ?case using JObj.prems(2)
    by (intro obj_reads_text [where b = "[]" and e = "[]" and p = "dumps is ks", OF _ w(2) u(2)]) (simp_all add: w(1) u(1))
qed (simp_all add: scalar_reads_text [of _ _ "is" ks] str_reads_text is_scalar_def)

theorem loads_dumps:
  assumes "seps_ok is ks" and "json_ok j"
  shows "loads (dumps is ks j) = Inr j"
proof -
  let ?t = "dumps is ks j"
  have "read_val (2 * length ?t + 2) ?t = Some (j, [])"
    using reads_dumps [OF assms] unfolding reads_def
    by (metis append_Nil2 delim_simps(1) le_add1)
  moreover have "skip ?t = ?t"
    using dumps_starts [OF assms(2)] by (simp add: skip_start starts_value_def)
  ultimately show ?thesis
    by (simp add: loads_def skip_def del: read_val.simps)
qed

corollary dumps_inject:
  assumes "seps_ok is ks" and "json_ok i" and "json_ok j" and "dumps is ks i = dumps is ks j"
  shows "i = j"
  using loads_dumps [OF assms(1,2)] loads_dumps [OF assms(1,3)] assms(4)
  by (metis sum.inject(2))

end
