(* ===== verification/Json_Canonical.thy ===== *)
theory Json_Canonical
  imports Json_Roundtrip "HOL-Library.Multiset"
begin

text \<open>
  What the ledger needs of the JSON text it writes: that a document whose strings are
  encodable and free of the separators \<open>splitlines\<close> breaks at is one line of valid UTF-8
  (\<open>piece_dumps\<close>), and that the canonical text (sorted keys, compact separators) is
  injective up to the order of the keys (\<open>canonical_inject\<close>).
\<close>

section \<open>Encodability and line structure of the written text\<close>

fun json_strings :: "json \<Rightarrow> string list" where
  "json_strings (JStr s) = [s]"
| "json_strings (JList xs) = concat (map json_strings xs)"
| "json_strings (JObj kvs) = concat (map (\<lambda>(k, v). k # json_strings v) kvs)"
| "json_strings _ = []"

text \<open>The three code points that \<open>splitlines\<close> breaks at and \<open>dumps\<close> does not escape.\<close>

fun sep_at :: "string \<Rightarrow> bool" where
  "sep_at (c # d # r) =
     (byte c = 194 \<and> byte d = 133 \<or>
      byte c = 226 \<and> byte d = 128 \<and> r \<noteq> [] \<and> (byte (hd r) = 168 \<or> byte (hd r) = 169))"
| "sep_at _ = False"

fun has_sep :: "string \<Rightarrow> bool" where
  "has_sep [] = False"
| "has_sep (c # cs) = (sep_at (c # cs) \<or> has_sep cs)"

lemma esc_high: "128 \<le> byte c \<Longrightarrow> esc c = [c]"
proof -
  assume "128 \<le> byte c"
  then have "c \<noteq> CHR 0x22 \<and> c \<noteq> CHR 0x5C" by (auto simp: byte_def)
  with \<open>128 \<le> byte c\<close> show ?thesis by (simp add: esc_def)
qed

lemma hex_digit_byte: "d < 16 \<Longrightarrow> 48 \<le> byte (hex_digit d) \<and> byte (hex_digit d) < 128"
  by (auto simp: hex_digit_def)

definition plain_ascii :: "char \<Rightarrow> bool" where
  "plain_ascii c \<longleftrightarrow> 32 \<le> byte c \<and> byte c < 128"

lemma esc_low: "byte c < 128 \<Longrightarrow> list_all plain_ascii (esc c)"
proof -
  assume c: "byte c < 128"
  have "byte c < 32 \<Longrightarrow> plain_ascii (hex_digit (byte c div 16)) \<and> plain_ascii (hex_digit (byte c mod 16))"
    using hex_digit_byte [of "byte c div 16"] hex_digit_byte [of "byte c mod 16"]
    by (auto simp: plain_ascii_def less_mult_imp_div_less)
  moreover have "plain_ascii CHR 0x22" "plain_ascii CHR 0x5C" "plain_ascii CHR ''n''"
    "plain_ascii CHR ''r''" "plain_ascii CHR ''t''" "plain_ascii CHR ''f''"
    "plain_ascii CHR ''b''" "plain_ascii CHR ''u''" "plain_ascii CHR ''0''"
    by (simp_all add: plain_ascii_def byte_def)
  ultimately show ?thesis using c by (simp add: esc_def) (simp add: plain_ascii_def)
qed

lemma plain_no_break: "list_all plain_ascii s \<Longrightarrow> \<not> has_break s"
  by (induction s) (auto simp: plain_ascii_def ascii_break_def)

lemma plain_ascii_all: "list_all plain_ascii s \<Longrightarrow> ascii s"
  by (auto simp: plain_ascii_def ascii_def list_all_iff)

lemma plain_hd: "list_all plain_ascii s \<Longrightarrow> s \<noteq> [] \<Longrightarrow> byte (hd s) < 128 \<and> byte (hd s) \<noteq> 10"
  by (cases s) (auto simp: plain_ascii_def)

lemma utf8_ok_esc: "utf8_ok s \<Longrightarrow> utf8_ok (concat (map esc s))"
proof (induction s rule: utf8_ok.induct)
  case 1
  show ?case by simp
next
  case (2 c cs)
  show ?case
  proof (cases "byte c < 128")
    case True
    with 2 have "utf8_ok (concat (map esc cs))" by simp
    moreover have "utf8_ok (esc c)"
      using esc_low [OF True] by (intro ascii_utf8_ok plain_ascii_all)
    ultimately show ?thesis by (simp add: utf8_ok_append)
  next
    case False
    then have c: "esc c = [c]" by (intro esc_high) simp
    have k: "cont_byte d \<Longrightarrow> esc d = [d]" for d by (intro esc_high) (simp add: cont_byte_def)
    consider "194 \<le> byte c \<and> byte c \<le> 223" | "224 \<le> byte c \<and> byte c \<le> 239"
      | "240 \<le> byte c \<and> byte c \<le> 244"
      using "2.prems" False by (auto split: if_splits)
    then show ?thesis
    proof cases
      case 1
      with "2.prems" "2.IH"(2) k c show ?thesis by (cases cs) auto
    next
      case 2
      with "2.prems" "2.IH"(3) k c show ?thesis by (cases cs rule: list_upto3_cases) auto
    next
      case 3
      with "2.prems" "2.IH"(4) k c show ?thesis by (cases cs rule: list_upto3_cases) auto
    qed
  qed
qed

lemma has_break_esc: "\<not> has_sep s \<Longrightarrow> \<not> has_break (concat (map esc s))"
proof (induction s)
  case (Cons c s)
  let ?r = "concat (map esc s)"
  have r: "\<not> has_break ?r" using Cons by simp
  show ?case
  proof (cases "byte c < 128")
    case True
    have "\<not> has_break (t @ ?r)" if "list_all plain_ascii t" for t
      using that r by (induction t) (auto simp: plain_ascii_def ascii_break_def)
    with esc_low [OF True] show ?thesis by simp
  next
    case False
    then have c: "esc c = [c]" by (intro esc_high) simp
    have low: "byte d < 128 \<Longrightarrow> \<exists>e t. esc d = e # t \<and> byte e < 128" for d
      using esc_low [of d] esc_nonempty [of d] by (cases "esc d") (auto simp: plain_ascii_def)
    have high: "\<not> byte d < 128 \<Longrightarrow> esc d = [d]" for d by (intro esc_high) simp
    have "line_break (c # ?r) = 0"
    proof (cases s)
      case Nil
      with False show ?thesis by (simp add: ascii_break_def)
    next
      case (Cons d s')
      show ?thesis
      proof (cases "byte d < 128")
        case True
        with low [OF True] False Cons show ?thesis by (auto simp: ascii_break_def split: list.splits)
      next
        case d: False
        show ?thesis
        proof (cases s')
          case Nil
          with False d high Cons Cons.prems show ?thesis by (auto simp: ascii_break_def)
        next
          case (Cons e s'')
          with \<open>s = d # s'\<close> False d high [of d] high [of e] low [of e] Cons.prems show ?thesis
            by (cases "byte e < 128") (auto simp: ascii_break_def)
        qed
      qed
    qed
    with r c show ?thesis by (simp del: line_break.simps)
  qed
qed simp

text \<open>A string that can be encoded and holds no line separator.\<close>

definition safe_str :: "string \<Rightarrow> bool" where
  "safe_str s \<longleftrightarrow> utf8_ok s \<and> \<not> has_sep s"

lemma ascii_no_sep: "ascii s \<Longrightarrow> \<not> has_sep s"
proof (induction s)
  case (Cons c s)
  then show ?case by (cases s) (auto simp: ascii_def)
qed simp

lemma ascii_safe: "ascii s \<Longrightarrow> safe_str s"
  by (simp add: safe_str_def ascii_utf8_ok ascii_no_sep)

text \<open>A piece of a line: encodable, on one line, and starting with a printable character.\<close>

definition piece :: "string \<Rightarrow> bool" where
  "piece s \<longleftrightarrow> \<not> has_break s \<and> utf8_ok s \<and> s \<noteq> [] \<and> plain_ascii (hd s)"

lemma piece_append: "piece a \<Longrightarrow> piece b \<Longrightarrow> piece (a @ b)"
  by (auto simp: piece_def has_break_append plain_ascii_def utf8_ok_append)

lemma piece_plain: "list_all plain_ascii s \<Longrightarrow> s \<noteq> [] \<Longrightarrow> piece s"
  using plain_no_break [of s] plain_ascii_all [of s] ascii_utf8_ok [of s]
  by (cases s) (auto simp: piece_def)

lemma plain_chars:
  "plain_ascii CHR 0x22" "plain_ascii CHR ''[''" "plain_ascii CHR '']''" "plain_ascii CHR ''{''"
  "plain_ascii CHR ''}''" "plain_ascii CHR '',''" "plain_ascii CHR '':''" "plain_ascii CHR '' ''"
  by (simp_all add: plain_ascii_def byte_def)

lemma piece_chars:
  "piece [CHR 0x22]" "piece ''[''" "piece '']''" "piece ''{''" "piece ''}''"
  by (simp_all add: piece_plain plain_chars)

lemma piece_show_str:
  assumes "safe_str s"
  shows "piece (show_str s)"
proof -
  have q: "byte CHR 0x22 = 34" by (simp add: byte_def)
  have b: "\<not> has_break (concat (map esc s) @ [CHR 0x22])"
    using assms has_break_esc [of s] q
    by (simp add: safe_str_def has_break_append ascii_break_def)
  have u: "utf8_ok (concat (map esc s) @ [CHR 0x22])"
    using assms utf8_ok_esc [of s] q by (simp add: safe_str_def utf8_ok_append)
  show ?thesis
    using b u by (simp add: piece_def show_str_def plain_chars q ascii_break_def)
qed

lemma piece_joins:
  assumes "list_all plain_ascii is" and "is \<noteq> []"
  shows "xs \<noteq> [] \<Longrightarrow> list_all piece xs \<Longrightarrow> piece (joins is xs)"
  using piece_plain [OF assms]
  by (induction "is" xs rule: joins.induct) (auto simp: piece_append)

lemma tok_plain: "is_tok c \<Longrightarrow> plain_ascii c"
  by (auto simp: is_tok_def plain_ascii_def is_digit_def byte_def)

definition line_seps :: "string \<Rightarrow> string \<Rightarrow> bool" where
  "line_seps is ks \<longleftrightarrow> seps_ok is ks \<and> list_all plain_ascii is \<and> list_all plain_ascii ks"

theorem piece_dumps:
  assumes "line_seps is ks"
  shows "json_ok j \<Longrightarrow> list_all safe_str (json_strings j) \<Longrightarrow> piece (dumps is ks j)"
proof (induction j)
  case (JStr s)
  then show ?case by (simp add: piece_show_str)
next
  case (JList xs)
  from assms have "is \<noteq> []" "list_all plain_ascii is" by (auto simp: line_seps_def seps_ok_def)
  moreover have "list_all piece (map (dumps is ks) xs)"
    using JList by (auto simp: list_all_iff)
  ultimately have "xs \<noteq> [] \<Longrightarrow> piece (joins is (map (dumps is ks) xs))"
    by (intro piece_joins) auto
  then show ?case
    using piece_append [OF piece_chars(2) piece_append [OF _ piece_chars(3)]]
      piece_append [OF piece_chars(2,3)] by (cases "xs = []") auto
next
  case (JObj kvs)
  let ?d = "\<lambda>(k, v). show_str k @ ks @ dumps is ks v"
  from assms have i: "is \<noteq> []" "list_all plain_ascii is" and k: "piece ks"
    by (auto simp: line_seps_def seps_ok_def intro!: piece_plain)
  have "piece (?d (k, v))" if "(k, v) \<in> set kvs" for k v
  proof -
    have "piece (dumps is ks v)"
      using JObj that by (fastforce simp: list_all_iff)
    moreover have "piece (show_str k)"
      using JObj.prems(2) that by (intro piece_show_str) (fastforce simp: list_all_iff)
    ultimately show ?thesis using k by (simp add: piece_append)
  qed
  then have "kvs \<noteq> [] \<Longrightarrow> piece (joins is (map ?d kvs))"
    by (intro piece_joins [OF i(2,1)]) (auto simp: list_all_iff)
  then show ?case
    using piece_append [OF piece_chars(4) piece_append [OF _ piece_chars(5)]]
      piece_append [OF piece_chars(4,5)] by (cases "kvs = []") auto
next
  case (JFloat t)
  then have "t \<noteq> []" "list_all plain_ascii t"
    using scalar_nonempty [of t] tok_plain by (auto simp: list_all_iff)
  then show ?case by (simp add: piece_plain)
next
  case (JInt i)
  have "list_all is_tok (dumps is ks (JInt i)) \<and> dumps is ks (JInt i) \<noteq> []"
    using scalar_dumps [of "JInt i" "is" ks] scalar_nonempty by (fastforce simp: is_scalar_def)
  then show ?case using tok_plain by (intro piece_plain) (auto simp: list_all_iff)
next
  case (JBool b)
  show ?case by (intro piece_plain) (auto simp: plain_ascii_def byte_def)
next
  case JNull
  show ?case by (intro piece_plain) (auto simp: plain_ascii_def byte_def)
qed

section \<open>The canonical text\<close>

definition canonical_json :: "json \<Rightarrow> string" where
  "canonical_json j = dumps '','' '':'' (sort_keys j)"

lemma seps_canonical: "line_seps '','' '':''" and seps_default: "line_seps '', '' '': ''"
  by (simp_all add: line_seps_def seps_ok_def plain_chars is_ws_def byte_def)

lemma distinct_fst_sort: "distinct (map fst (sort_key fst xs)) = distinct (map fst xs)"
  by (rule mset_eq_imp_distinct_iff) simp

lemma sort_keys_ok: "json_ok j \<Longrightarrow> json_ok (sort_keys j)"
proof (induction j)
  case (JList xs)
  then show ?case by (auto simp: list_all_iff)
next
  case (JObj kvs)
  have keys: "map fst (map (\<lambda>(k, v). (k, sort_keys v)) kvs) = map fst kvs" by (induction kvs) auto
  from JObj.prems have d: "distinct (map fst kvs)" by simp
  have "distinct (map fst (sort_key fst (map (\<lambda>(k, v). (k, sort_keys v)) kvs)))"
    unfolding distinct_fst_sort keys by (rule d)
  moreover have "json_ok (sort_keys v)" if "(k, v) \<in> set kvs" for k v
    using JObj.IH [OF that] JObj.prems that by (auto simp: list_all_iff)
  ultimately show ?case by (auto simp: list_all_iff)
qed auto

theorem canonical_inject:
  assumes "json_ok i" and "json_ok j" and "canonical_json i = canonical_json j"
  shows "sort_keys i = sort_keys j"
  using assms seps_canonical unfolding canonical_json_def line_seps_def
  by (intro dumps_inject [of "'',''" "'':''"]) (auto simp: sort_keys_ok)

lemma sort_keys_strings: "set (json_strings (sort_keys j)) = set (json_strings j)"
  by (induction j) (force simp: case_prod_beta)+

section \<open>What the reader returns is well-formed\<close>

lemma dict_set_ok:
  "distinct (map fst d) \<and> list_all (\<lambda>(k, v). json_ok v) d \<Longrightarrow> json_ok v \<Longrightarrow>
   distinct (map fst (dict_set d k v)) \<and> list_all (\<lambda>(k, v). json_ok v) (dict_set d k v)"
  using distinct_dict_set [of d k v]
  by (induction d k v rule: dict_set.induct) (auto simp: distinct_dict_set)

lemma dict_of_ok_aux:
  "distinct (map fst d) \<and> list_all (\<lambda>(k, v). json_ok v) d \<Longrightarrow>
   list_all (\<lambda>(k, v). json_ok v) kvs \<Longrightarrow>
   distinct (map fst (foldl (\<lambda>d (k, v). dict_set d k v) d kvs)) \<and>
   list_all (\<lambda>(k, v). json_ok v) (foldl (\<lambda>d (k, v). dict_set d k v) d kvs)"
proof (induction kvs arbitrary: d)
  case (Cons kv kvs)
  obtain k v where "kv = (k, v)" by (cases kv)
  with Cons.prems Cons.IH [of "dict_set d k v"] dict_set_ok [of d v k] show ?case by simp
qed simp

lemma dict_of_ok: "list_all (\<lambda>(k, v). json_ok v) kvs \<Longrightarrow> json_ok (JObj (dict_of kvs))"
  using dict_of_ok_aux [of "[]" kvs] by (simp add: dict_of_def)

lemma scalar_json_ok: "scalar (takeWhile is_tok s) = Some j \<Longrightarrow> json_ok j"
  by (auto simp: scalar_def list_all_iff dest: set_takeWhileD split: if_splits)

lemma empty_obj_ok: "json_ok (JObj [])"
  by simp

lemma read_json_ok:
  "read_val f s = Some (j, r) \<Longrightarrow> json_ok j"
  "read_elems f s = Some (xs, r) \<Longrightarrow> list_all json_ok xs"
  "read_members f s = Some (kvs, r) \<Longrightarrow> list_all (\<lambda>(k, v). json_ok v) kvs"
proof (induction f s and f s and f s arbitrary: j r and xs r and kvs r
    rule: read_val_read_elems_read_members.induct)
  case (2 f s)
  then show ?case
    using scalar_json_ok [of s j] scalar_json_ok [of "[]"]
    by (cases s) (auto simp: dict_of_ok empty_obj_ok simp del: json_ok.simps(3) split: if_splits)
next
  case (4 f s)
  then show ?case by (auto split: option.splits if_splits)
next
  case (6 f s)
  then show ?case by (auto split: option.splits if_splits)
qed auto

lemma loads_json_ok: "loads s = Inr j \<Longrightarrow> json_ok j"
  by (auto simp: loads_def dest: read_json_ok(1) simp del: read_val.simps split: option.splits if_splits)

end
