(* ===== verification/Attest.thy ===== *)
theory Attest
  imports Json_Canonical
begin

text \<open>
  Commit attribution: \<open>peers/attest.py\<close> and \<open>peers/spine/authorship.py\<close>. The \<open>git\<close> program
  is not part of the repository, so it is a parameter: a function from the argument list
  (after \<open>git -C repo\<close>) to the exit code and the standard output, or to the exception
  \<open>subprocess.run\<close> raises (an argument holding a NUL is a \<open>ValueError\<close>, a missing program an
  \<open>OSError\<close>). A command that writes also changes the repository, a value of the type
  \<open>'w\<close> that is threaded explicitly; read commands leave it alone.
\<close>

section \<open>The git program\<close>

type_synonym proc = "int \<times> string"
type_synonym git = "string list \<Rightarrow> proc res"
type_synonym 'w gitw = "'w \<Rightarrow> string list \<Rightarrow> proc res \<times> 'w"

definition git_at :: "'w gitw \<Rightarrow> 'w \<Rightarrow> git" where
  "git_at g w args = fst (g w args)"

definition nl :: char where
  "nl = char_of (10 :: nat)"

lemma byte_nl [simp]: "byte nl = 10"
  by (simp add: nl_def byte_def)

section \<open>Reading attributions\<close>

definition notes_ref :: string where
  "notes_ref = ''--ref=peers-attest''"

definition commits_between :: "git \<Rightarrow> string option \<Rightarrow> string option \<Rightarrow> string list res" where
  "commits_between g since until =
     (case (since, until) of
        (Some (s # ss), Some (u # us)) \<Rightarrow>
          res_bind (g [''rev-list'', ''--reverse'', (s # ss) @ ''..'' @ (u # us)])
            (\<lambda>(rc, out).
               Inr (if rc \<noteq> 0 then [] else map strip (filter (\<lambda>l. \<not> blank l) (splitlines out))))
      | _ \<Rightarrow> Inr [])"

definition commits_in_range :: "git \<Rightarrow> string option \<Rightarrow> string list res" where
  "commits_in_range g since = commits_between g since (Some ''HEAD'')"

definition attested_peer :: "git \<Rightarrow> string \<Rightarrow> string option res" where
  "attested_peer g sha =
     res_bind (g [''notes'', notes_ref, ''show'', sha])
       (\<lambda>(rc, out).
          if rc \<noteq> 0 then Inr None
          else (let v = strip out in Inr (if v = [] then None else Some v)))"

definition is_ancestor :: "git \<Rightarrow> string option \<Rightarrow> string \<Rightarrow> bool res" where
  "is_ancestor g sha head =
     (case sha of
        Some (c # cs) \<Rightarrow>
          res_bind (g [''merge-base'', ''--is-ancestor'', c # cs, head]) (\<lambda>(rc, _). Inr (rc = 0))
      | _ \<Rightarrow> Inr False)"

definition reachable_attested_peer :: "git \<Rightarrow> string option \<Rightarrow> string option res" where
  "reachable_attested_peer g sha =
     res_bind (is_ancestor g sha ''HEAD'')
       (\<lambda>b. if \<not> b then Inr None
            else (case sha of None \<Rightarrow> Inr None | Some s \<Rightarrow> attested_peer g s))"

definition resolve_author :: "git \<Rightarrow> string \<Rightarrow> string option res" where
  "resolve_author g sha = attested_peer g sha"

fun collect_peers :: "git \<Rightarrow> string list \<Rightarrow> string set \<Rightarrow> string set res" where
  "collect_peers g [] out = Inr out"
| "collect_peers g (sha # shas) out =
     res_bind (attested_peer g sha)
       (\<lambda>p. collect_peers g shas (case p of None \<Rightarrow> out | Some q \<Rightarrow> insert q out))"

definition attested_authors_of_file :: "git \<Rightarrow> string \<Rightarrow> string set res" where
  "attested_authors_of_file g path =
     res_bind (g [''log'', ''--format=%H'', ''HEAD'', ''--'', path])
       (\<lambda>(rc, out). if rc \<noteq> 0 then Inr {} else collect_peers g (split_ws out) {})"

definition blame_sha :: "string \<Rightarrow> string option" where
  "blame_sha out =
     (let sha = strip (takeWhile (\<lambda>c. c \<noteq> CHR '' '') out)
      in if length sha \<noteq> 40 \<or> \<not> list_all (\<lambda>c. c \<in> set ''0123456789abcdef'') sha then None
         else if sha = replicate 40 CHR ''0'' then None
         else Some sha)"

fun attested_line_author_peers :: "git \<Rightarrow> string \<Rightarrow> int list \<Rightarrow> string set \<Rightarrow> string set res" where
  "attested_line_author_peers g path [] out = Inr out"
| "attested_line_author_peers g path (ln # lns) out =
     (if ln < 1 then attested_line_author_peers g path lns out
      else res_bind
        (g [''blame'', ''-L'', show_int ln @ '','' @ show_int ln, ''--porcelain'', ''HEAD'', ''--'', path])
        (\<lambda>(rc, txt).
           if rc \<noteq> 0 \<or> txt = [] then attested_line_author_peers g path lns out
           else (case blame_sha txt of
               None \<Rightarrow> attested_line_author_peers g path lns out
             | Some sha \<Rightarrow>
                 res_bind (attested_peer g sha)
                   (\<lambda>p. attested_line_author_peers g path lns
                          (case p of None \<Rightarrow> out | Some q \<Rightarrow> insert q out)))))"

section \<open>Reviews\<close>

text \<open>
  The marker expression matches a line \<open>peers-review:\<close> followed by at least one character;
  its group, stripped, is the rest of the line, stripped.
\<close>

definition review_prefix :: string where
  "review_prefix = ''peers-review:''"

definition review_marks :: "string \<Rightarrow> string list" where
  "review_marks body =
     map (\<lambda>l. strip (drop (length review_prefix) l))
       (filter (\<lambda>l. startswith l review_prefix \<and> length review_prefix < length l)
         (split_on nl body))"

datatype exclude = NoPeer | OnePeer string | PeerSet "string list"

fun excluded :: "exclude \<Rightarrow> string list" where
  "excluded NoPeer = []"
| "excluded (OnePeer p) = [p]"
| "excluded (PeerSet ps) = ps"

definition record_parts :: "string \<Rightarrow> string \<times> string" where
  "record_parts r = (let (s, body) = partition_at CHR 0x1F (strip_char nl r) in (strip s, body))"

fun search_reviews :: "git \<Rightarrow> string \<Rightarrow> string list \<Rightarrow> string list \<Rightarrow> string option res" where
  "search_reviews g artifact ex [] = Inr None"
| "search_reviews g artifact ex (r # rs) =
     (case record_parts r of (sha, body) \<Rightarrow>
        if sha = [] \<or> artifact \<notin> set (review_marks body) then search_reviews g artifact ex rs
        else res_bind (attested_peer g sha)
          (\<lambda>p. case p of
             None \<Rightarrow> search_reviews g artifact ex rs
           | Some q \<Rightarrow> if q \<in> set ex then search_reviews g artifact ex rs else Inr (Some q)))"

definition log_args :: "string list" where
  "log_args = [''log'', ''--format=%H%x1f%B%x1e'', ''HEAD'']"

definition find_review_commit :: "git \<Rightarrow> string \<Rightarrow> exclude \<Rightarrow> string option res" where
  "find_review_commit g artifact ex =
     res_bind (g log_args)
       (\<lambda>(rc, out). if rc \<noteq> 0 then Inr None
          else search_reviews g artifact (excluded ex) (split_on CHR 0x1E out))"

section \<open>Writing attributions\<close>

definition add_args :: "string \<Rightarrow> string \<Rightarrow> string list" where
  "add_args peer sha = [''notes'', notes_ref, ''add'', ''-f'', ''-m'', peer, sha]"

fun write_notes :: "'w gitw \<Rightarrow> string \<Rightarrow> string list \<Rightarrow> 'w \<Rightarrow> unit res \<times> 'w" where
  "write_notes g peer [] w = (Inr (), w)"
| "write_notes g peer (sha # shas) w =
     (case g w (add_args peer sha) of
        (Inl e, w') \<Rightarrow> (Inl e, w')
      | (Inr _, w') \<Rightarrow> write_notes g peer shas w')"

definition attest_commits ::
  "'w gitw \<Rightarrow> string \<Rightarrow> string option \<Rightarrow> string option \<Rightarrow> 'w \<Rightarrow> string list res \<times> 'w" where
  "attest_commits g peer since head w =
     (case commits_between (git_at g w) since head of
        Inl e \<Rightarrow> (Inl e, w)
      | Inr shas \<Rightarrow>
          (case write_notes g peer shas w of
             (Inl e, w') \<Rightarrow> (Inl e, w')
           | (Inr _, w') \<Rightarrow> (Inr shas, w')))"

section \<open>What the searches return\<close>

lemma attested_peer_Some:
  "attested_peer g sha = Inr (Some p) \<Longrightarrow> p \<noteq> [] \<and> (\<exists>out. g [''notes'', notes_ref, ''show'', sha] = Inr (0, out) \<and> p = strip out)"
  by (auto simp: attested_peer_def res_bind_Inr_iff Let_def split: if_splits)

text \<open>A record of the log that makes \<open>q\<close> a reviewer of the artifact.\<close>

definition reviews :: "git \<Rightarrow> string \<Rightarrow> string list \<Rightarrow> string \<Rightarrow> string \<Rightarrow> bool" where
  "reviews g artifact ex r q \<longleftrightarrow>
     (case record_parts r of (sha, body) \<Rightarrow>
        sha \<noteq> [] \<and> artifact \<in> set (review_marks body) \<and>
        attested_peer g sha = Inr (Some q) \<and> q \<notin> set ex)"

lemma search_reviews_Some:
  "search_reviews g a ex rs = Inr (Some q) \<Longrightarrow>
   \<exists>xs r ys. rs = xs @ r # ys \<and> reviews g a ex r q \<and> (\<forall>x \<in> set xs. \<forall>p. \<not> reviews g a ex x p)"
proof (induction rs)
  case (Cons r rs)
  obtain sha body where rp: "record_parts r = (sha, body)" by (cases "record_parts r")
  show ?case
  proof (cases "\<exists>p. reviews g a ex r p")
    case True
    then obtain p where p: "reviews g a ex r p" by blast
    with rp Cons.prems have "q = p" by (auto simp: reviews_def)
    with p show ?thesis by (intro exI [of _ "[]"] exI [of _ r] exI [of _ rs]) simp
  next
    case False
    with rp Cons.prems have "search_reviews g a ex rs = Inr (Some q)"
      by (auto simp: reviews_def res_bind_Inr_iff split: if_splits option.splits)
    then obtain xs x ys where "rs = xs @ x # ys" "reviews g a ex x q" "\<forall>x \<in> set xs. \<forall>p. \<not> reviews g a ex x p"
      using Cons.IH by blast
    with False show ?thesis by (intro exI [of _ "r # xs"]) auto
  qed
qed simp

lemma search_reviews_None:
  "search_reviews g a ex rs = Inr None \<Longrightarrow> r \<in> set rs \<Longrightarrow> \<not> reviews g a ex r q"
proof (induction rs)
  case (Cons x rs)
  obtain sha body where rp: "record_parts x = (sha, body)" by (cases "record_parts x")
  with Cons show ?case
    by (auto simp: reviews_def res_bind_Inr_iff split: if_splits option.splits)
qed simp

lemma record_parts_empty: "record_parts [] = ([], [])"
  by (simp add: record_parts_def partition_at_def strip_char_def strip_def lstrip_nospace)

text \<open>
  the reviewer \<open>find_review_commit\<close> returns is the substrate-attested peer of the newest
  commit in the log of \<open>HEAD\<close> that carries the review marker of exactly this artifact and is
  not by an excluded peer; free text never names a reviewer, and nobody excluded is returned.
\<close>

theorem find_review_sound:
  assumes "find_review_commit g artifact ex = Inr (Some q)"
  shows "\<exists>out xs r ys. g log_args = Inr (0, out) \<and> split_on CHR 0x1E out = xs @ r # ys \<and>
           reviews g artifact (excluded ex) r q \<and>
           (\<forall>x \<in> set xs. \<forall>p. \<not> reviews g artifact (excluded ex) x p)"
  using assms search_reviews_Some
  by (fastforce simp: find_review_commit_def res_bind_Inr_iff split: if_splits)

definition sample_log :: git where
  "sample_log args =
     (if args = log_args then
        Inr (0, ''ab'' @ [CHR 0x1F] @ ''peers-review: f.py '' @ [nl, CHR 0x1E])
      else if args = [''notes'', notes_ref, ''show'', ''ab''] then Inr (0, ''codex'' @ [nl])
      else Inr (128, []))"

lemma sample_review: "find_review_commit sample_log ''f.py'' (OnePeer ''claude'') = Inr (Some ''codex'')"
  by code_simp

theorem find_review_sound_witness:
  "\<exists>out xs r ys. sample_log log_args = Inr (0, out) \<and> split_on CHR 0x1E out = xs @ r # ys \<and>
     reviews sample_log ''f.py'' (excluded (OnePeer ''claude'')) r ''codex'' \<and>
     (\<forall>x \<in> set xs. \<forall>p. \<not> reviews sample_log ''f.py'' (excluded (OnePeer ''claude'')) x p)"
  by (rule find_review_sound [OF sample_review])

section \<open>Attestation heals forged notes\<close>

definition plain_name :: "string \<Rightarrow> bool" where
  "plain_name p \<longleftrightarrow> p \<noteq> [] \<and> list_all (\<lambda>c. 33 \<le> byte c \<and> byte c < 127) p"

lemma space_len_plain: "33 \<le> byte c \<Longrightarrow> byte c < 127 \<Longrightarrow> space_len (c # cs) = 0"
  by (auto simp: ascii_space_def split: list.splits)

lemma rstrip_plain: "list_all (\<lambda>c. 33 \<le> byte c \<and> byte c < 127) p \<Longrightarrow> rstrip (p @ [nl]) = p"
proof (induction p)
  case Nil
  have "lstrip [nl] = []" by (subst lstrip.simps) (simp add: ascii_space_def lstrip_nospace)
  then show ?case by (simp add: blank_def)
next
  case (Cons c p)
  then have "\<not> blank (c # p @ [nl])"
    by (intro not_blank) (simp_all add: space_len_plain del: space_len.simps)
  with Cons show ?case by simp
qed

lemma strip_plain: "plain_name p \<Longrightarrow> strip (p @ [nl]) = p"
proof -
  assume p: "plain_name p"
  then have "space_len (p @ [nl]) = 0"
    by (cases p) (auto simp: plain_name_def space_len_plain simp del: space_len.simps)
  with p show ?thesis by (simp add: strip_def lstrip_nospace rstrip_plain plain_name_def)
qed

text \<open>
  What \<open>git notes add -f -m peer sha\<close> does, as documented: it succeeds, \<open>notes show\<close> of that
  commit then prints the message and a newline, and no other note changes.
\<close>

definition notes_law :: "'w gitw \<Rightarrow> string \<Rightarrow> string set \<Rightarrow> bool" where
  "notes_law g peer shas \<longleftrightarrow>
     (\<forall>w. \<forall>s \<in> shas. \<exists>out w'. g w (add_args peer s) = (Inr (0, out), w') \<and>
        git_at g w' [''notes'', notes_ref, ''show'', s] = Inr (0, peer @ [nl]) \<and>
        (\<forall>t. t \<noteq> s \<longrightarrow> git_at g w' [''notes'', notes_ref, ''show'', t] =
                         git_at g w [''notes'', notes_ref, ''show'', t]))"

lemma write_notes_effect:
  assumes "plain_name peer" and "notes_law g peer S"
  shows "set shas \<subseteq> S \<Longrightarrow> \<exists>w'. write_notes g peer shas w = (Inr (), w') \<and>
    (\<forall>s. attested_peer (git_at g w') s =
         (if s \<in> set shas then Inr (Some peer) else attested_peer (git_at g w) s))"
proof (induction shas arbitrary: w)
  case (Cons s shas)
  then have "s \<in> S" by simp
  with assms(2) obtain out w1 where w1: "g w (add_args peer s) = (Inr (0, out), w1)"
    and own: "git_at g w1 [''notes'', notes_ref, ''show'', s] = Inr (0, peer @ [nl])"
    and others: "\<And>t. t \<noteq> s \<Longrightarrow> git_at g w1 [''notes'', notes_ref, ''show'', t] =
                         git_at g w [''notes'', notes_ref, ''show'', t]"
    unfolding notes_law_def by blast
  have "attested_peer (git_at g w1) s = Inr (Some peer)"
    using own assms(1) strip_plain [OF assms(1)]
    by (simp add: attested_peer_def plain_name_def)
  moreover have "attested_peer (git_at g w1) t = attested_peer (git_at g w) t" if "t \<noteq> s" for t
    using others [OF that] by (simp add: attested_peer_def)
  moreover obtain w' where "write_notes g peer shas w1 = (Inr (), w')"
    and "\<forall>s. attested_peer (git_at g w') s =
         (if s \<in> set shas then Inr (Some peer) else attested_peer (git_at g w1) s)"
    using Cons.IH [of w1] Cons.prems by auto
  ultimately show ?case using w1 by auto
qed auto

text \<open>
  after a tick the substrate owns the attribution of every commit the tick produced: whatever
  notes the agent planted, \<open>attest_commits\<close> returns the commits of \<open>(since, head]\<close>, each of them
  reads back as the observed peer, and no note outside the range is touched.
\<close>

theorem attest_commits_heals:
  assumes "plain_name peer" and "commits_between (git_at g w) since head = Inr shas"
    and "notes_law g peer (set shas)"
  shows "\<exists>w'. attest_commits g peer since head w = (Inr shas, w') \<and>
    (\<forall>s. attested_peer (git_at g w') s =
         (if s \<in> set shas then Inr (Some peer) else attested_peer (git_at g w) s))"
  using write_notes_effect [OF assms(1,3) subset_refl, of w] assms(2)
  by (auto simp: attest_commits_def)

text \<open>A repository with three commits whose state is its notes.\<close>

definition sample_notes :: "(string \<times> string) list gitw" where
  "sample_notes w args =
     (case args of
        [a, b, c, d, e, p, s] \<Rightarrow> if [a, b, c, d, e] = [''notes'', notes_ref, ''add'', ''-f'', ''-m'']
                                then (Inr (0, []), (s, p @ [nl]) # w) else (Inr (1, []), w)
      | [a, b, c, s] \<Rightarrow>
          (case map_of w s of Some t \<Rightarrow> (Inr (0, t), w) | None \<Rightarrow> (Inr (1, []), w))
      | [a, b, c] \<Rightarrow> (if c = ''a..c'' then Inr (0, ''b'' @ [nl] @ ''c'' @ [nl]) else Inr (128, []), w)
      | _ \<Rightarrow> (Inr (1, []), w))"

lemma sample_notes_law: "notes_law sample_notes p S"
  by (auto simp: notes_law_def sample_notes_def add_args_def git_at_def split: option.splits)

lemma sample_range: "commits_between (git_at sample_notes [(''b'', ''codex'' @ [nl])]) (Some ''a'') (Some ''c'') = Inr [''b'', ''c'']"
  by code_simp

theorem attest_commits_heals_witness:
  "\<exists>w'. attest_commits sample_notes ''claude'' (Some ''a'') (Some ''c'') [(''b'', ''codex'' @ [nl])] = (Inr [''b'', ''c''], w') \<and>
    (\<forall>s. attested_peer (git_at sample_notes w') s =
         (if s \<in> set [''b'', ''c''] then Inr (Some ''claude'')
          else attested_peer (git_at sample_notes [(''b'', ''codex'' @ [nl])]) s))"
  by (rule attest_commits_heals [OF _ sample_range sample_notes_law])
    (simp add: plain_name_def byte_def)

end
