(* ===== verification/Ledger.thy ===== *)
theory Ledger
  imports Attest
begin

text \<open>
  The run ledger, \<open>peers/spine/ledger.py\<close>: an append-only, hash-chained log of JSON lines.
  A ledger file is its bytes, or \<open>None\<close> when it does not exist; the path of the class is the
  one file the operations work on. \<open>sha256\<close> (\<open>hashlib\<close>) is the parameter \<open>H\<close>, from the
  encoded text to the hexadecimal digest. The reader is byte-exact: decoding, \<open>splitlines\<close>,
  blank lines, \<open>json.loads\<close> and the validation of each row are those of the code.

  \<open>entry\<close> is \<open>LedgerEntry\<close>. \<open>event\<close>, \<open>status\<close> and \<open>subject\<close> are validated strings; the other
  fields are whatever JSON value the row holds. A field that is \<open>None\<close> in Python is \<open>JNull\<close>.
\<close>

section \<open>Entries\<close>

record entry =
  le_event :: string
  le_status :: string
  le_v :: json
  le_prev :: json
  le_mode_run :: json
  le_author :: json
  le_subject :: "string option"
  le_witness :: json
  le_independence :: bool
  le_entry_sha :: json

type_synonym ledger_file = "string option"
type_synonym hash = "string \<Rightarrow> string"

definition hashed_fields :: "string list" where
  "hashed_fields =
     [''prev'', ''event'', ''mode_run'', ''author'', ''subject'', ''status'', ''witness'', ''independence'']"

definition hashed_values :: "raw \<Rightarrow> json" where
  "hashed_values d = JList (map (jget d) hashed_fields)"

definition compute_entry_sha :: "hash \<Rightarrow> raw \<Rightarrow> string res" where
  "compute_entry_sha H d =
     res_bind (encode (canonical_json (hashed_values d))) (\<lambda>b. Inr (H b))"

definition required_str :: "raw \<Rightarrow> string \<Rightarrow> string res" where
  "required_str d k =
     (case map_of d k of
        None \<Rightarrow> Inl ValueError
      | Some j \<Rightarrow> (case j of JStr s \<Rightarrow> Inr s | _ \<Rightarrow> Inl ValueError))"

definition optional_str :: "raw \<Rightarrow> string \<Rightarrow> string option res" where
  "optional_str d k =
     (case jget d k of JNull \<Rightarrow> Inr None | JStr s \<Rightarrow> Inr (Some s) | _ \<Rightarrow> Inl ValueError)"

definition entry_from_raw :: "raw \<Rightarrow> entry res" where
  "entry_from_raw d =
     res_bind (required_str d ''event'') (\<lambda>event.
     res_bind (required_str d ''status'') (\<lambda>status.
     res_bind (optional_str d ''subject'') (\<lambda>subject.
       Inr \<lparr>le_event = event, le_status = status, le_v = jget_default d ''v'' (JInt 1),
            le_prev = jget d ''prev'', le_mode_run = jget d ''mode_run'',
            le_author = jget d ''author'', le_subject = subject,
            le_witness = jget d ''witness'',
            le_independence = truthy (jget_default d ''independence'' (JBool False)),
            le_entry_sha = jget_default d ''entry_sha'' (JStr [])\<rparr>)))"

section \<open>Reading\<close>

fun parse_rows :: "string list \<Rightarrow> raw list res" where
  "parse_rows [] = Inr []"
| "parse_rows (l # ls) =
     (if blank l then parse_rows ls
      else res_bind (loads l) (\<lambda>j.
        case j of
          JObj d \<Rightarrow> res_bind (parse_rows ls) (\<lambda>ds. Inr (d # ds))
        | _ \<Rightarrow> Inl ValueError))"

definition read_raw :: "ledger_file \<Rightarrow> raw list res" where
  "read_raw f =
     (case f of
        None \<Rightarrow> Inr []
      | Some b \<Rightarrow> res_bind (decode b) (\<lambda>t. parse_rows (splitlines t)))"

definition read :: "ledger_file \<Rightarrow> entry list res" where
  "read f = res_bind (read_raw f) (res_map entry_from_raw)"

fun verify_rows :: "hash \<Rightarrow> json \<Rightarrow> raw list \<Rightarrow> bool res" where
  "verify_rows H prev [] = Inr True"
| "verify_rows H prev (d # ds) =
     (case entry_from_raw d of
        Inl e \<Rightarrow> if is_value_error e then Inr False else Inl e
      | Inr _ \<Rightarrow>
          res_bind (compute_entry_sha H d) (\<lambda>sha.
            if JStr sha \<noteq> jget_default d ''entry_sha'' (JStr []) then Inr False
            else if jget d ''prev'' \<noteq> prev then Inr False
            else verify_rows H (JStr sha) ds))"

definition verify :: "hash \<Rightarrow> ledger_file \<Rightarrow> bool res" where
  "verify H f =
     (case read_raw f of
        Inl e \<Rightarrow> if is_value_error e \<or> e = OSError then Inr False else Inl e
      | Inr ds \<Rightarrow> verify_rows H JNull ds)"

section \<open>Writing\<close>

text \<open>The walk from the end of the file; the lines come reversed.\<close>

fun last_sha_lines :: "string list \<Rightarrow> json" where
  "last_sha_lines [] = JNull"
| "last_sha_lines (l # ls) =
     (if blank l then last_sha_lines ls
      else (case loads l of
        Inr (JObj d) \<Rightarrow>
          (case entry_from_raw d of
             Inl _ \<Rightarrow> last_sha_lines ls
           | Inr e \<Rightarrow> if truthy (le_entry_sha e) then le_entry_sha e else last_sha_lines ls)
      | _ \<Rightarrow> last_sha_lines ls))"

definition last_entry_sha :: "ledger_file \<Rightarrow> json res" where
  "last_entry_sha f =
     (case f of
        None \<Rightarrow> Inr JNull
      | Some b \<Rightarrow> res_bind (decode b) (\<lambda>t. Inr (last_sha_lines (rev (splitlines t)))))"

definition serialize :: "raw \<Rightarrow> string" where
  "serialize d = dumps '', '' '': '' (JObj d)"

definition trailing_newline_missing :: "ledger_file \<Rightarrow> bool" where
  "trailing_newline_missing f =
     (case f of None \<Rightarrow> False | Some b \<Rightarrow> b \<noteq> [] \<and> last b \<noteq> nl)"

text \<open>\<open>open(..., "a").write(text)\<close> on a regular file.\<close>

definition append_text :: "ledger_file \<Rightarrow> string \<Rightarrow> unit res \<times> ledger_file" where
  "append_text f t =
     (case encode t of
        Inl e \<Rightarrow> (Inl e, Some (case f of None \<Rightarrow> [] | Some b \<Rightarrow> b))
      | Inr bs \<Rightarrow> (Inr (), Some ((case f of None \<Rightarrow> [] | Some b \<Rightarrow> b) @ bs)))"

text \<open>The payload dict before \<open>prev\<close> and \<open>entry_sha\<close> are filled in.\<close>

definition payload :: "entry \<Rightarrow> raw" where
  "payload p =
     [(''v'', le_v p), (''event'', JStr (le_event p)), (''mode_run'', le_mode_run p),
      (''author'', le_author p), (''subject'', ostr (le_subject p)),
      (''status'', JStr (le_status p)), (''witness'', le_witness p),
      (''independence'', JBool (le_independence p))]"

definition build_and_append :: "hash \<Rightarrow> ledger_file \<Rightarrow> entry \<Rightarrow> entry res \<times> ledger_file" where
  "build_and_append H f p =
     (case last_entry_sha f of
        Inl e \<Rightarrow> (Inl e, f)
      | Inr prev \<Rightarrow>
          (let d = dict_set (payload p) ''prev'' prev in
           case compute_entry_sha H d of
             Inl e \<Rightarrow> (Inl e, f)
           | Inr sha \<Rightarrow>
               (let line = serialize (dict_set d ''entry_sha'' (JStr sha)) @ [nl];
                    line = (if trailing_newline_missing f then nl # line else line)
                in case append_text f line of
                     (Inl e, f') \<Rightarrow> (Inl e, f')
                   | (Inr _, f') \<Rightarrow> (Inr (p\<lparr>le_prev := prev, le_entry_sha := JStr sha\<rparr>), f'))))"

definition make_entry ::
  "string \<Rightarrow> string \<Rightarrow> string option \<Rightarrow> json \<Rightarrow> string option \<Rightarrow> string option \<Rightarrow> bool \<Rightarrow> entry" where
  "make_entry event status subject witness author mode_run independence =
     \<lparr>le_event = event, le_status = status, le_v = JInt 1, le_prev = JNull,
      le_mode_run = ostr mode_run, le_author = ostr author, le_subject = subject,
      le_witness = witness, le_independence = independence, le_entry_sha = JStr []\<rparr>"

definition append ::
  "hash \<Rightarrow> ledger_file \<Rightarrow> string \<Rightarrow> string \<Rightarrow> string option \<Rightarrow> json \<Rightarrow> string option \<Rightarrow> string option \<Rightarrow> bool
   \<Rightarrow> entry res \<times> ledger_file" where
  "append H f event status subject witness author mode_run independence =
     (if author \<noteq> None then (Inl ValueError, f)
      else build_and_append H f
        (make_entry event status subject witness None mode_run independence))"

definition attest_witness :: "json \<Rightarrow> string \<Rightarrow> bool \<Rightarrow> json" where
  "attest_witness witness sha independence =
     (if independence then JObj (dict_set (obj_or_empty witness) ''attest_sha'' (JStr sha))
      else witness)"

definition append_attested ::
  "hash \<Rightarrow> git \<Rightarrow> ledger_file \<Rightarrow> string \<Rightarrow> string \<Rightarrow> string \<Rightarrow> string option \<Rightarrow> json \<Rightarrow> string option \<Rightarrow> bool
   \<Rightarrow> entry res \<times> ledger_file" where
  "append_attested H g f sha event status subject witness mode_run independence =
     (case resolve_author g sha of
        Inl e \<Rightarrow> (Inl e, f)
      | Inr author \<Rightarrow>
          build_and_append H f
            (make_entry event status subject (attest_witness witness sha independence)
               author mode_run independence))"

section \<open>Rows and the bytes that hold them\<close>

definition safe_json :: "json \<Rightarrow> bool" where
  "safe_json j \<longleftrightarrow> json_ok j \<and> list_all safe_str (json_strings j)"

lemma parse_rows_append:
  "parse_rows (as @ bs) =
     res_bind (parse_rows as) (\<lambda>xs. res_bind (parse_rows bs) (\<lambda>ys. Inr (xs @ ys)))"
proof (induction as)
  case Nil
  show ?case by (cases "parse_rows bs") auto
next
  case (Cons l as)
  show ?case
  proof (cases "loads l")
    case (Inr j)
    with Cons show ?thesis
      by (cases j; cases "parse_rows as"; cases "parse_rows bs") auto
  qed (use Cons in simp)
qed

lemma splitlines_trailing_newline:
  "splitlines_from acc (s @ [nl]) = splitlines_from acc s \<or>
   splitlines_from acc (s @ [nl]) = splitlines_from acc s @ [[]]"
proof (induction acc s rule: splitlines_from.induct)
  case (1 acc)
  show ?case by (simp add: splitlines_from.simps ascii_break_def)
next
  case (2 acc c cs)
  show ?case
  proof (cases "line_break (c # cs @ [nl]) = 0")
    case True
    then have "line_break (c # cs) = 0" by (rule line_break_newline_zero [OF byte_nl])
    with 2(1) True show ?thesis
      by (simp add: splitlines_from.simps del: line_break.simps)
  next
    case False
    from line_break_newline_cases [OF byte_nl False] show ?thesis
    proof
      assume "cs = [] \<and> byte c = 13"
      then show ?thesis by (simp add: splitlines_from.simps)
    next
      assume eq: "line_break (c # cs @ [nl]) = line_break (c # cs)"
      have "drop (line_break (c # cs)) (c # cs @ [nl]) = drop (line_break (c # cs)) (c # cs) @ [nl]"
        using line_break_le [of c cs] drop_append [of "line_break (c # cs)" "c # cs" "[nl]"]
        by (simp del: line_break.simps)
      with 2(2) False eq show ?thesis
        by (simp add: splitlines_from.simps del: line_break.simps)
    qed
  qed
qed

lemma blank_Nil: "blank []"
  by (simp add: blank_def lstrip_nospace)

lemma parse_trailing_newline:
  "parse_rows (splitlines (s @ [nl])) = parse_rows (splitlines s)"
proof -
  have "parse_rows (ls @ [[]]) = parse_rows ls" for ls
    by (cases "parse_rows ls") (simp_all add: parse_rows_append blank_Nil)
  with splitlines_trailing_newline [of "[]" s] show ?thesis
    unfolding splitlines_def by auto
qed

lemma serialize_line:
  assumes "safe_json (JObj d)"
  shows "\<not> has_break (serialize d)" and "utf8_ok (serialize d)" and "\<not> blank (serialize d)"
    and "loads (serialize d) = Inr (JObj d)"
proof -
  have p: "piece (serialize d)"
    using assms piece_dumps [OF seps_default] unfolding safe_json_def serialize_def by blast
  then show "\<not> has_break (serialize d)" "utf8_ok (serialize d)" by (simp_all add: piece_def)
  have "serialize d = CHR ''{'' # tl (serialize d)" by (simp add: serialize_def)
  moreover have "space_len (CHR ''{'' # cs) = 0" for cs
    by (rule space_len_plain) (simp_all add: byte_def)
  ultimately show "\<not> blank (serialize d)"
    by (metis list.distinct(1) not_blank)
  show "loads (serialize d) = Inr (JObj d)"
    using assms loads_dumps seps_default unfolding safe_json_def serialize_def line_seps_def by blast
qed

definition added_line :: "ledger_file \<Rightarrow> raw \<Rightarrow> string" where
  "added_line f d =
     (if trailing_newline_missing f then nl # serialize d @ [nl] else serialize d @ [nl])"

definition file_text :: "ledger_file \<Rightarrow> string" where
  "file_text f = (case f of None \<Rightarrow> [] | Some b \<Rightarrow> b)"

lemma parse_one_line:
  assumes "safe_json (JObj d)"
  shows "parse_rows (splitlines (serialize d @ [nl])) = Inr [d]"
  using serialize_line [OF assms] splitlines_one_line [of "serialize d" nl] by simp

lemma read_raw_text: "read_raw f = res_bind (decode (file_text f)) (\<lambda>t. parse_rows (splitlines t))"
  by (cases f) (simp_all add: read_raw_def file_text_def decode_def splitlines_def splitlines_from.simps)

lemma utf8_added: "safe_json (JObj d) \<Longrightarrow> utf8_ok (added_line f d)"
proof -
  assume "safe_json (JObj d)"
  then have "utf8_ok (serialize d @ [nl])"
    using serialize_line(2) by (simp add: utf8_ok_append)
  then show ?thesis by (simp add: added_line_def)
qed

lemma read_raw_added:
  assumes "safe_json (JObj d)" and "read_raw f = Inr ds"
  shows "read_raw (Some (file_text f @ added_line f d)) = Inr (ds @ [d])"
proof -
  let ?t = "file_text f"
  from assms(2) have u: "utf8_ok ?t" and ds: "parse_rows (splitlines ?t) = Inr ds"
    by (auto simp: read_raw_text decode_def split: if_splits)
  have "parse_rows (splitlines (?t @ added_line f d)) = Inr (ds @ [d])"
  proof (cases "?t = []")
    case True
    then have "added_line f d = serialize d @ [nl]"
      by (cases f) (auto simp: added_line_def trailing_newline_missing_def file_text_def)
    with True ds parse_one_line [OF assms(1)] show ?thesis
      by (simp add: splitlines_def splitlines_from.simps)
  next
    case False
    then obtain b where f: "f = Some b" and b: "?t = b" by (cases f) (auto simp: file_text_def)
    show ?thesis
    proof (cases "last ?t = nl")
      case True
      then obtain s where s: "?t = s @ [nl]" using False by (metis append_butlast_last_id)
      have "added_line f d = serialize d @ [nl]"
        using True b by (simp add: f added_line_def trailing_newline_missing_def)
      then have "splitlines (?t @ added_line f d) = splitlines ?t @ splitlines (serialize d @ [nl])"
        using splitlines_newline_append [OF byte_nl, of s "serialize d @ [nl]"] s by simp
      with ds parse_one_line [OF assms(1)] show ?thesis by (simp add: parse_rows_append)
    next
      case last: False
      have "added_line f d = nl # serialize d @ [nl]"
        using last False b by (simp add: f added_line_def trailing_newline_missing_def)
      then have "splitlines (?t @ added_line f d) =
          splitlines (?t @ [nl]) @ splitlines (serialize d @ [nl])"
        using splitlines_newline_append [OF byte_nl, of ?t "serialize d @ [nl]"] by simp
      with ds parse_one_line [OF assms(1)] show ?thesis
        by (simp add: parse_rows_append parse_trailing_newline)
    qed
  qed
  with u utf8_added [OF assms(1), of f] show ?thesis
    by (simp add: read_raw_def decode_def utf8_ok_append)
qed

section \<open>The chain\<close>

definition tip :: "json \<Rightarrow> raw list \<Rightarrow> json" where
  "tip prev ds = (if ds = [] then prev else jget_default (last ds) ''entry_sha'' (JStr []))"

lemma verify_rows_Cons:
  "verify_rows H prev (d # ds) = Inr True \<longleftrightarrow>
     (\<exists>e sha. entry_from_raw d = Inr e \<and> compute_entry_sha H d = Inr sha \<and>
        jget_default d ''entry_sha'' (JStr []) = JStr sha \<and> jget d ''prev'' = prev \<and>
        verify_rows H (JStr sha) ds = Inr True)"
  by (auto simp: res_bind_Inr_iff split: sum.splits if_splits)

lemma verify_rows_snoc:
  "verify_rows H prev ds = Inr True \<Longrightarrow>
   verify_rows H prev (ds @ [d]) = verify_rows H (tip prev ds) [d]"
proof (induction ds arbitrary: prev)
  case (Cons x ds)
  then obtain e sha where x: "entry_from_raw x = Inr e" "compute_entry_sha H x = Inr sha"
      "jget_default x ''entry_sha'' (JStr []) = JStr sha" "jget x ''prev'' = prev"
    and ds: "verify_rows H (JStr sha) ds = Inr True"
    unfolding verify_rows_Cons by blast
  have "tip (JStr sha) ds = tip prev (x # ds)" using x(3) by (simp add: tip_def)
  with x Cons.IH [OF ds] show ?case by simp
qed (simp add: tip_def)

lemma verify_rows_prefix:
  "verify_rows H prev (ds @ [d]) = Inr True \<Longrightarrow> verify_rows H prev ds = Inr True"
  by (induction ds arbitrary: prev) (auto simp: res_bind_Inr_iff split: sum.splits if_splits)

lemma verify_rows_read: "verify_rows H prev ds = Inr True \<Longrightarrow> \<exists>es. res_map entry_from_raw ds = Inr es"
proof (induction ds arbitrary: prev)
  case (Cons d ds)
  then show ?case unfolding verify_rows_Cons by (auto simp: res_bind_Inr_iff)
qed simp

text \<open>A hexadecimal digest: not empty, ASCII.\<close>

definition digest_law :: "hash \<Rightarrow> bool" where
  "digest_law H \<longleftrightarrow> (\<forall>b. H b \<noteq> [] \<and> ascii (H b))"

lemma compute_entry_sha_Inr: "compute_entry_sha H d = Inr sha \<Longrightarrow> \<exists>b. sha = H b"
  by (auto simp: compute_entry_sha_def res_bind_Inr_iff)

lemma entry_sha_field: "entry_from_raw d = Inr e \<Longrightarrow> le_entry_sha e = jget_default d ''entry_sha'' (JStr [])"
  by (auto simp: entry_from_raw_def res_bind_Inr_iff)

lemma parse_one:
  assumes "\<not> blank l" and "parse_rows [l] = Inr ys"
  shows "\<exists>d. ys = [d] \<and> loads l = Inr (JObj d)"
proof (cases "loads l")
  case (Inr j)
  with assms show ?thesis by (cases j) auto
qed (use assms in simp)

lemma last_sha_tip:
  assumes "digest_law H"
  shows "parse_rows ls = Inr ds \<Longrightarrow> verify_rows H JNull ds = Inr True \<Longrightarrow>
    last_sha_lines (rev ls) = tip JNull ds"
proof (induction ls arbitrary: ds rule: rev_induct)
  case Nil
  then show ?case by (simp add: tip_def)
next
  case (snoc l ls)
  show ?case
  proof (cases "blank l")
    case True
    with snoc.prems(1) have "parse_rows ls = Inr ds"
      by (auto simp: parse_rows_append res_bind_Inr_iff)
    with snoc True show ?thesis by simp
  next
    case False
    with snoc.prems(1) obtain xs d where l: "loads l = Inr (JObj d)" and ds: "ds = xs @ [d]"
      using parse_one [OF False] by (auto simp: parse_rows_append res_bind_Inr_iff)
    with snoc.prems(2) have "verify_rows H (tip JNull xs) [d] = Inr True"
      using verify_rows_prefix [of H JNull xs d] verify_rows_snoc [of H JNull xs d] by simp
    then obtain e sha where d: "entry_from_raw d = Inr e" "compute_entry_sha H d = Inr sha"
        "jget_default d ''entry_sha'' (JStr []) = JStr sha"
      unfolding verify_rows_Cons by blast
    have "sha \<noteq> []"
      using compute_entry_sha_Inr [OF d(2)] assms by (auto simp: digest_law_def)
    with False l d entry_sha_field [OF d(1)] ds show ?thesis
      by (simp add: tip_def)
  qed
qed

lemma tip_digest:
  assumes "digest_law H"
  shows "verify_rows H JNull ds = Inr True \<Longrightarrow> safe_json (tip JNull ds)"
proof (induction ds rule: rev_induct)
  case (snoc d ds)
  then have "verify_rows H (tip JNull ds) [d] = Inr True"
    using verify_rows_prefix [of H JNull ds d] verify_rows_snoc [of H JNull ds d] by simp
  then obtain e sha where "compute_entry_sha H d = Inr sha"
      "jget_default d ''entry_sha'' (JStr []) = JStr sha"
    unfolding verify_rows_Cons by blast
  then show ?case using assms compute_entry_sha_Inr [of H d sha]
    by (auto simp: tip_def digest_law_def safe_json_def ascii_safe)
qed (simp add: tip_def safe_json_def)

section \<open>Appending keeps the ledger readable and verified\<close>

lemma payload_full:
  "dict_set (dict_set (payload p) ''prev'' prev) ''entry_sha'' sha =
     payload p @ [(''prev'', prev), (''entry_sha'', sha)]"
  and payload_prev: "dict_set (payload p) ''prev'' prev = payload p @ [(''prev'', prev)]"
  by (simp_all add: payload_def)

lemma payload_entry:
  "entry_from_raw (payload p @ [(''prev'', prev), (''entry_sha'', sha)]) =
     Inr (p\<lparr>le_prev := prev, le_entry_sha := sha\<rparr>)"
  by (cases p; cases "le_subject p")
    (simp_all add: payload_def entry_from_raw_def required_str_def optional_str_def jget_def
      jget_default_def lookup_default_def)

lemma hashed_payload:
  "hashed_values (payload p @ [(''prev'', prev), (''entry_sha'', sha)]) =
   hashed_values (payload p @ [(''prev'', prev)])"
  "hashed_values (payload p @ [(''prev'', prev)]) =
     JList [prev, JStr (le_event p), le_mode_run p, le_author p, ostr (le_subject p),
            JStr (le_status p), le_witness p, JBool (le_independence p)]"
  by (simp_all add: hashed_values_def hashed_fields_def payload_def jget_def lookup_default_def)

definition safe_entry :: "entry \<Rightarrow> bool" where
  "safe_entry p \<longleftrightarrow> safe_json (JObj (payload p))"

lemma ascii_keys:
  "safe_str ''v''" "safe_str ''event''" "safe_str ''mode_run''" "safe_str ''author''"
  "safe_str ''subject''" "safe_str ''status''" "safe_str ''witness''" "safe_str ''independence''"
  "safe_str ''prev''" "safe_str ''entry_sha''"
  by (rule ascii_safe, simp add: ascii_def byte_def)+

lemma safe_full:
  assumes "safe_entry p" and "safe_json prev" and "safe_str sha"
  shows "safe_json (JObj (payload p @ [(''prev'', prev), (''entry_sha'', JStr sha)]))"
    and "safe_json (hashed_values (payload p @ [(''prev'', prev)]))"
  using assms unfolding hashed_payload(2)
  by (simp_all add: safe_entry_def safe_json_def payload_def ascii_keys)

lemma compute_payload:
  assumes "safe_entry p" and "safe_json prev"
  shows "\<exists>b. compute_entry_sha H (payload p @ [(''prev'', prev)]) = Inr (H b)"
proof -
  let ?v = "hashed_values (payload p @ [(''prev'', prev)])"
  have "safe_json ?v"
    using safe_full(2) [OF assms, of "[]"] ascii_safe [of "[]"] by (simp add: ascii_def)
  then have "piece (canonical_json ?v)"
    unfolding canonical_json_def safe_json_def
    using piece_dumps [OF seps_canonical sort_keys_ok, of ?v] sort_keys_strings [of ?v]
    by (simp add: list_all_iff)
  then show ?thesis by (auto simp: compute_entry_sha_def encode_def piece_def)
qed

definition chained_row :: "hash \<Rightarrow> entry \<Rightarrow> json \<Rightarrow> raw" where
  "chained_row H p prev =
     payload p @ [(''prev'', prev),
       (''entry_sha'', JStr (H (canonical_json (hashed_values (payload p @ [(''prev'', prev)])))))]"

lemma chained_row_fields:
  "jget_default (chained_row H p prev) ''entry_sha'' (JStr []) =
     JStr (H (canonical_json (hashed_values (chained_row H p prev))))"
  "jget (chained_row H p prev) ''prev'' = prev"
  by (simp_all add: chained_row_def payload_def jget_def jget_default_def lookup_default_def
      hashed_values_def hashed_fields_def)

text \<open>One append, whatever the file holds: the line it adds and the entry it returns.\<close>

lemma build_and_append_line:
  assumes H: "digest_law H" and p: "safe_entry p"
    and prev: "last_entry_sha f = Inr prev" and sp: "safe_json prev"
  shows "\<exists>e. build_and_append H f p = (Inr e, Some (file_text f @ added_line f (chained_row H p prev))) \<and>
    entry_from_raw (chained_row H p prev) = Inr e \<and>
    e = p\<lparr>le_prev := prev, le_entry_sha := le_entry_sha e\<rparr> \<and> (\<exists>b. le_entry_sha e = JStr (H b))"
    and "safe_json (JObj (chained_row H p prev))"
    and "compute_entry_sha H (chained_row H p prev) =
      Inr (H (canonical_json (hashed_values (chained_row H p prev))))"
proof -
  let ?d = "chained_row H p prev"
  obtain b where sha: "compute_entry_sha H (payload p @ [(''prev'', prev)]) = Inr (H b)"
    and b: "b = canonical_json (hashed_values (payload p @ [(''prev'', prev)]))"
    using compute_payload [OF p sp, of H]
    by (auto simp: compute_entry_sha_def encode_def res_bind_Inr_iff split: if_splits)
  have d: "?d = payload p @ [(''prev'', prev), (''entry_sha'', JStr (H b))]"
    by (simp add: chained_row_def b)
  have hb: "safe_str (H b)" using H by (auto simp: digest_law_def ascii_safe)
  show sd: "safe_json (JObj ?d)" unfolding d by (rule safe_full(1) [OF p sp hb])
  show "compute_entry_sha H ?d = Inr (H (canonical_json (hashed_values ?d)))"
    using sha b by (simp add: compute_entry_sha_def d hashed_payload(1))
  have app: "append_text f (added_line f ?d) = (Inr (), Some (file_text f @ added_line f ?d))"
    using utf8_added [OF sd, of f] by (simp add: append_text_def encode_def file_text_def)
  have full: "dict_set (payload p @ [(''prev'', prev)]) ''entry_sha'' (JStr (H b)) = ?d"
    using payload_full [of p prev] by (simp add: d payload_prev)
  define e where "e = p\<lparr>le_prev := prev, le_entry_sha := JStr (H b)\<rparr>"
  have "build_and_append H f p = (Inr e, Some (file_text f @ added_line f ?d))"
    using prev sha app
    by (simp add: build_and_append_def payload_prev full e_def added_line_def Let_def)
  moreover have "entry_from_raw ?d = Inr e" unfolding d e_def by (rule payload_entry)
  moreover have "e = p\<lparr>le_prev := prev, le_entry_sha := le_entry_sha e\<rparr>" "\<exists>b. le_entry_sha e = JStr (H b)"
    by (auto simp: e_def)
  ultimately show "\<exists>e. build_and_append H f p = (Inr e, Some (file_text f @ added_line f ?d)) \<and>
    entry_from_raw ?d = Inr e \<and> e = p\<lparr>le_prev := prev, le_entry_sha := le_entry_sha e\<rparr> \<and>
    (\<exists>b. le_entry_sha e = JStr (H b))" by blast
qed

theorem build_and_append_ok:
  assumes H: "digest_law H" and p: "safe_entry p"
    and raw: "read_raw f = Inr ds" and ver: "verify_rows H JNull ds = Inr True"
  shows "\<exists>e d f'. build_and_append H f p = (Inr e, f') \<and> read_raw f' = Inr (ds @ [d]) \<and>
    entry_from_raw d = Inr e \<and> verify_rows H JNull (ds @ [d]) = Inr True \<and>
    e = p\<lparr>le_prev := tip JNull ds, le_entry_sha := le_entry_sha e\<rparr> \<and> (\<exists>b. le_entry_sha e = JStr (H b))"
proof -
  let ?prev = "tip JNull ds" and ?d = "chained_row H p (tip JNull ds)"
  have prev: "last_entry_sha f = Inr ?prev"
    using raw last_sha_tip [OF H _ ver]
    by (cases f) (auto simp: last_entry_sha_def read_raw_def tip_def res_bind_Inr_iff)
  note line = build_and_append_line [OF H p prev tip_digest [OF H ver]]
  from line(1) obtain e where e: "entry_from_raw ?d = Inr e"
    "e = p\<lparr>le_prev := ?prev, le_entry_sha := le_entry_sha e\<rparr>" "\<exists>b. le_entry_sha e = JStr (H b)"
    "build_and_append H f p = (Inr e, Some (file_text f @ added_line f ?d))" by blast
  moreover have "verify_rows H JNull (ds @ [?d]) = Inr True"
    using e(1) line(3) by (simp add: verify_rows_snoc [OF ver] chained_row_fields)
  ultimately show ?thesis using read_raw_added [OF line(2) raw] by blast
qed

section \<open>The ledger as its clients see it\<close>

lemma verify_True: "verify H f = Inr True \<longleftrightarrow> (\<exists>ds. read_raw f = Inr ds \<and> verify_rows H JNull ds = Inr True)"
  by (auto simp: verify_def split: sum.splits)

definition last_sha :: "entry list \<Rightarrow> json" where
  "last_sha es = (if es = [] then JNull else le_entry_sha (last es))"

lemma res_map_snoc: "res_map f xs = Inr ys \<Longrightarrow> f x = Inr y \<Longrightarrow> res_map f (xs @ [x]) = Inr (ys @ [y])"
  by (simp add: res_map_append)

lemma last_sha_read:
  assumes "res_map entry_from_raw ds = Inr es"
  shows "last_sha es = tip JNull ds"
proof (cases ds rule: rev_cases)
  case Nil
  with assms show ?thesis by (simp add: last_sha_def tip_def)
next
  case (snoc xs d)
  with assms obtain e es' where "entry_from_raw d = Inr e" "es = es' @ [e]"
    by (auto simp: res_map_append res_bind_Inr_iff)
  with snoc show ?thesis by (simp add: last_sha_def tip_def entry_sha_field)
qed

theorem build_and_append_reads:
  assumes "digest_law H" and "safe_entry p" and "verify H f = Inr True"
  shows "\<exists>rows e f'. read f = Inr rows \<and> build_and_append H f p = (Inr e, f') \<and>
    read f' = Inr (rows @ [e]) \<and> verify H f' = Inr True \<and>
    e = p\<lparr>le_prev := last_sha rows, le_entry_sha := le_entry_sha e\<rparr> \<and> (\<exists>b. le_entry_sha e = JStr (H b))"
proof -
  from assms(3) obtain ds where ds: "read_raw f = Inr ds" "verify_rows H JNull ds = Inr True"
    unfolding verify_True by blast
  from verify_rows_read [OF ds(2)] obtain rows where rows: "res_map entry_from_raw ds = Inr rows" ..
  from build_and_append_ok [OF assms(1,2) ds] obtain e d f' where
    "build_and_append H f p = (Inr e, f')" "read_raw f' = Inr (ds @ [d])" "entry_from_raw d = Inr e"
    "verify_rows H JNull (ds @ [d]) = Inr True"
    "e = p\<lparr>le_prev := tip JNull ds, le_entry_sha := le_entry_sha e\<rparr>" "\<exists>b. le_entry_sha e = JStr (H b)"
    by blast
  then show ?thesis using ds rows res_map_snoc [OF rows, of d e] last_sha_read [OF rows]
    by (auto simp: read_def verify_True)
qed


definition zero_hash :: hash where
  "zero_hash b = ''00''"

lemma zero_digest_law: "digest_law zero_hash"
  by (simp add: digest_law_def zero_hash_def ascii_def byte_def)

lemma sample_safe_entry: "safe_entry (make_entry ''run-start'' ''ok'' None (JObj [(''kind'', JStr ''op-config'')]) None (Some ''r1'') False)"
  unfolding safe_entry_def safe_json_def by code_simp

lemma empty_verifies: "verify H None = Inr True"
  by (simp add: verify_def read_raw_def)


text \<open>Ledgers for the examples: rows written one after the other, all with the same digest.\<close>

definition write_rows :: "entry list \<Rightarrow> ledger_file" where
  "write_rows ps = foldl (\<lambda>f p. snd (build_and_append zero_hash f p)) None ps"

fun zero_chain :: "json \<Rightarrow> entry list \<Rightarrow> entry list" where
  "zero_chain prev [] = []"
| "zero_chain prev (p # ps) =
     p\<lparr>le_prev := prev, le_entry_sha := JStr ''00''\<rparr> # zero_chain (JStr ''00'') ps"

lemma zero_chain_snoc:
  "zero_chain prev (ps @ [p]) =
     zero_chain prev ps @ [p\<lparr>le_prev := (if ps = [] then prev else JStr ''00''), le_entry_sha := JStr ''00''\<rparr>]"
  by (induction ps arbitrary: prev) auto

lemma zero_chain_last: "ps \<noteq> [] \<Longrightarrow> zero_chain prev ps \<noteq> [] \<and> le_entry_sha (last (zero_chain prev ps)) = JStr ''00''"
  by (cases ps rule: rev_cases) (auto simp: zero_chain_snoc)

lemma read_write_rows:
  "list_all safe_entry ps \<Longrightarrow> read (write_rows ps) = Inr (zero_chain JNull ps) \<and> verify zero_hash (write_rows ps) = Inr True"
proof (induction ps rule: rev_induct)
  case Nil
  show ?case by (simp add: write_rows_def empty_verifies read_def read_raw_def)
next
  case (snoc p ps)
  then have "safe_entry p" "verify zero_hash (write_rows ps) = Inr True" "read (write_rows ps) = Inr (zero_chain JNull ps)"
    by simp_all
  from build_and_append_reads [OF zero_digest_law this(1,2)] this(3) obtain e f' where
    e: "build_and_append zero_hash (write_rows ps) p = (Inr e, f')" "read f' = Inr (zero_chain JNull ps @ [e])"
      "verify zero_hash f' = Inr True"
      "e = p\<lparr>le_prev := last_sha (zero_chain JNull ps), le_entry_sha := le_entry_sha e\<rparr>" "le_entry_sha e = JStr ''00''"
    by (auto simp: zero_hash_def)
  have "last_sha (zero_chain JNull ps) = (if ps = [] then JNull else JStr ''00'')"
    using zero_chain_last [of ps JNull] by (auto simp: last_sha_def)
  with e(4,5) have "zero_chain JNull (ps @ [p]) = zero_chain JNull ps @ [e]" by (simp add: zero_chain_snoc)
  with e(1-3) show ?case by (simp add: write_rows_def)
qed

lemma append_attested_ok:
  assumes "digest_law H" and "resolve_author g sha = Inr who" and "verify H f = Inr True"
    and "safe_entry (make_entry event status subject (attest_witness witness sha ind) who m ind)"
  shows "\<exists>e f'. append_attested H g f sha event status subject witness m ind = (Inr e, f')"
  using build_and_append_reads [OF assms(1,4,3)] assms(2) by (auto simp: append_attested_def)

section \<open>Tamper evidence\<close>

lemma jget_ok: "json_ok (JObj d) \<Longrightarrow> json_ok (jget d k)"
  by (auto simp: jget_def lookup_default_def list_all_iff dest!: map_of_SomeD split: option.splits)

lemma hashed_ok: "json_ok (JObj d) \<Longrightarrow> json_ok (hashed_values d)"
  by (simp add: hashed_values_def list_all_iff jget_ok del: json_ok.simps(3))

lemma parse_rows_ok: "parse_rows ls = Inr ds \<Longrightarrow> d \<in> set ds \<Longrightarrow> json_ok (JObj d)"
proof (induction ls arbitrary: ds)
  case (Cons l ls)
  show ?case
  proof (cases "blank l")
    case False
    with Cons.prems(1) obtain j where "loads l = Inr j" by (auto simp: res_bind_Inr_iff)
    with False Cons.prems(1) obtain x xs where
      "loads l = Inr (JObj x)" "parse_rows ls = Inr xs" "ds = x # xs"
      by (cases j) (auto simp: res_bind_Inr_iff)
    with Cons show ?thesis by (auto dest: loads_json_ok simp del: json_ok.simps(3))
  qed (use Cons in simp)
qed simp

lemma read_raw_ok: "read_raw f = Inr ds \<Longrightarrow> d \<in> set ds \<Longrightarrow> json_ok (JObj d)"
  by (auto simp: read_raw_text res_bind_Inr_iff dest: parse_rows_ok simp del: json_ok.simps(3))

lemma verify_rows_last:
  assumes "verify_rows H JNull (ds @ [d]) = Inr True"
  shows "verify_rows H JNull ds = Inr True \<and> jget d ''prev'' = tip JNull ds \<and>
    tip JNull (ds @ [d]) = JStr (H (canonical_json (hashed_values d)))"
proof -
  note pre = verify_rows_prefix [OF assms]
  from assms have "verify_rows H (tip JNull ds) [d] = Inr True"
    by (simp add: verify_rows_snoc [OF pre])
  then obtain sha where "compute_entry_sha H d = Inr sha"
      "jget_default d ''entry_sha'' (JStr []) = JStr sha" "jget d ''prev'' = tip JNull ds"
    unfolding verify_rows_Cons by blast
  with pre show ?thesis
    by (auto simp: tip_def compute_entry_sha_def encode_def res_bind_Inr_iff split: if_splits)
qed

lemma tip_flat: "verify_rows H JNull ds = Inr True \<Longrightarrow> sort_keys (tip JNull ds) = tip JNull ds"
  by (cases ds rule: rev_cases) (use verify_rows_last in \<open>auto simp: tip_def\<close>)

text \<open>The text whose digest a row carries.\<close>

definition hashed_text :: "raw \<Rightarrow> string" where
  "hashed_text d = canonical_json (hashed_values d)"

lemma same_tip_same_rows:
  assumes "\<And>d e. d \<in> set ds \<Longrightarrow> e \<in> set es \<Longrightarrow> H (hashed_text d) = H (hashed_text e) \<Longrightarrow> hashed_text d = hashed_text e"
    and "verify_rows H JNull ds = Inr True" and "verify_rows H JNull es = Inr True"
    and "\<And>d. d \<in> set (ds @ es) \<Longrightarrow> json_ok (JObj d)" and "tip JNull ds = tip JNull es"
  shows "map (\<lambda>d. sort_keys (hashed_values d)) ds = map (\<lambda>d. sort_keys (hashed_values d)) es"
  using assms
proof (induction ds arbitrary: es rule: rev_induct)
  case Nil
  then show ?case by (cases es rule: rev_cases) (use verify_rows_last in \<open>auto simp: tip_def\<close>)
next
  case (snoc d ds)
  note d = verify_rows_last [OF snoc.prems(2)]
  obtain es' e where es: "es = es' @ [e]"
    using snoc.prems(5) d by (cases es rule: rev_cases) (auto simp: tip_def)
  note e = verify_rows_last [OF snoc.prems(3) [unfolded es]]
  have "hashed_text d = hashed_text e"
    using d e snoc.prems(5) es by (intro snoc.prems(1)) (auto simp: hashed_text_def)
  then have same: "sort_keys (hashed_values d) = sort_keys (hashed_values e)"
    using snoc.prems(4) es by (intro canonical_inject hashed_ok) (auto simp: hashed_text_def simp del: json_ok.simps(3))
  then have "sort_keys (jget d ''prev'') = sort_keys (jget e ''prev'')"
    by (simp add: hashed_values_def hashed_fields_def)
  then have "tip JNull ds = tip JNull es'"
    using d e tip_flat by metis
  then have "map (\<lambda>d. sort_keys (hashed_values d)) ds = map (\<lambda>d. sort_keys (hashed_values d)) es'"
    using d e snoc.prems(1,4) es by (intro snoc.IH) (auto simp del: json_ok.simps(3))
  with same es show ?case by simp
qed

text \<open>
  C1: the chain is tamper-evident: two ledgers that verify and end in the same digest have the
  same number of rows and agree on every hashed field of every row (up to the order of JSON
  keys), or the two ledgers contain a collision: a row of the one and a row of the other whose
  hashed texts differ and have the same digest. Flipping a flag, dropping, reordering or
  inserting rows is therefore visible in the last digest.
\<close>

theorem tip_determines_ledger:
  assumes "verify H f = Inr True" and "verify H f' = Inr True"
    and "read_raw f = Inr ds" and "read_raw f' = Inr ds'" and "tip JNull ds = tip JNull ds'"
  shows "map (\<lambda>d. sort_keys (hashed_values d)) ds = map (\<lambda>d. sort_keys (hashed_values d)) ds' \<or>
    (\<exists>d \<in> set ds. \<exists>d' \<in> set ds'. hashed_text d \<noteq> hashed_text d' \<and> H (hashed_text d) = H (hashed_text d'))"
proof (rule disjCI)
  assume "\<not> (\<exists>d \<in> set ds. \<exists>d' \<in> set ds'. hashed_text d \<noteq> hashed_text d' \<and> H (hashed_text d) = H (hashed_text d'))"
  then have "\<And>d e. d \<in> set ds \<Longrightarrow> e \<in> set ds' \<Longrightarrow> H (hashed_text d) = H (hashed_text e) \<Longrightarrow> hashed_text d = hashed_text e"
    by blast
  then show "map (\<lambda>d. sort_keys (hashed_values d)) ds = map (\<lambda>d. sort_keys (hashed_values d)) ds'"
    using assms read_raw_ok
    by (intro same_tip_same_rows [of ds ds' H]) (auto simp: verify_True simp del: json_ok.simps(3))
qed

definition sample_text :: string where
  "sample_text = [CHR ''{''] @ show_str ''event'' @ '':'' @ show_str ''stop'' @ '','' @ show_str ''status'' @ '':'' @
     show_str ''dry'' @ '','' @ show_str ''entry_sha'' @ '':'' @ show_str ''00'' @ [CHR ''}'']"

definition sample_raw :: raw where
  "sample_raw = [(''event'', JStr ''stop''), (''status'', JStr ''dry''), (''entry_sha'', JStr ''00'')]"

lemma sample_read: "read_raw (Some sample_text) = Inr [sample_raw]"
  "verify zero_hash (Some sample_text) = Inr True"
  by code_simp+

theorem tip_determines_ledger_witness:
  "map (\<lambda>d. sort_keys (hashed_values d)) [sample_raw] = map (\<lambda>d. sort_keys (hashed_values d)) [sample_raw] \<or>
    (\<exists>d \<in> set [sample_raw]. \<exists>d' \<in> set [sample_raw].
       hashed_text d \<noteq> hashed_text d' \<and> zero_hash (hashed_text d) = zero_hash (hashed_text d'))"
  by (rule tip_determines_ledger [OF sample_read(2,2,1,1) refl])

section \<open>Authorship and durability\<close>

lemma append_text_prefix: "append_text f t = (r, f') \<Longrightarrow> \<exists>s. file_text f' = file_text f @ s"
  by (auto simp: append_text_def file_text_def split: sum.splits option.splits)

lemma build_cases:
  assumes "build_and_append H f p = (r, f')"
  shows "(\<exists>s. file_text f' = file_text f @ s) \<and> (\<forall>e. r = Inr e \<longrightarrow> (\<exists>pv sha. e = p\<lparr>le_prev := pv, le_entry_sha := sha\<rparr>))"
proof (cases "last_entry_sha f")
  case (Inl e)
  with assms show ?thesis by (auto simp: build_and_append_def)
next
  case (Inr pv)
  let ?d = "dict_set (payload p) ''prev'' pv"
  show ?thesis
  proof (cases "compute_entry_sha H ?d")
    case (Inl e)
    with assms \<open>last_entry_sha f = Inr pv\<close> show ?thesis by (auto simp: build_and_append_def Let_def)
  next
    case (Inr sha)
    then obtain t r' where "append_text f t = (r', f')"
      and "r' = Inr () \<Longrightarrow> r = Inr (p\<lparr>le_prev := pv, le_entry_sha := JStr sha\<rparr>)"
      and "\<And>x. r' = Inl x \<Longrightarrow> r = Inl x"
      using assms \<open>last_entry_sha f = Inr pv\<close>
      by (auto simp: build_and_append_def Let_def split: prod.splits sum.splits)
    then show ?thesis by (cases r') (auto dest: append_text_prefix)
  qed
qed


definition author_sample_git :: git where
  "author_sample_git args = (if last args = ''c1'' then Inr (0, ''codex'' @ [nl]) else Inr (1, []))"

lemma author_sample:
  "\<exists>e f'. append_attested zero_hash author_sample_git None ''c1'' ''confirmed-work'' ''ok'' None JNull None True
     = (Inr e, f')"
proof -
  let ?r = "append_attested zero_hash author_sample_git None ''c1'' ''confirmed-work'' ''ok'' None JNull None True"
  have "isl (fst ?r) = False" by code_simp
  then show ?thesis by (cases ?r; cases "fst ?r") auto
qed


text \<open>
  no operation of the ledger rewrites history: whatever the outcome, an exception included, the
  bytes of the file after an append are the bytes before it followed by new ones.
\<close>

theorem append_only:
  "\<exists>s. file_text (snd (build_and_append H f p)) = file_text f @ s"
  using build_cases [of H f p] by (cases "build_and_append H f p") auto

section \<open>A torn last line\<close>

lemma last_sha_torn:
  "loads l = Inl e \<Longrightarrow> last_sha_lines (l # ls) = last_sha_lines ls"
  by simp

lemma splitlines_no_break:
  "\<not> has_break s \<Longrightarrow> s \<noteq> [] \<Longrightarrow> splitlines s = [s]"
proof -
  have "\<not> has_break s \<Longrightarrow> splitlines_from acc s = (if s = [] \<and> acc = [] then [] else [rev acc @ s])" for acc
    by (induction s arbitrary: acc) (auto simp: splitlines_from.simps simp del: line_break.simps)
  then show "\<not> has_break s \<Longrightarrow> s \<noteq> [] \<Longrightarrow> splitlines s = [s]" by (simp add: splitlines_def)
qed

definition whole_lines :: "string \<Rightarrow> bool" where
  "whole_lines b \<longleftrightarrow> b = [] \<or> last b = nl"

lemma splitlines_whole:
  assumes "whole_lines b"
  shows "splitlines (b @ r) = splitlines b @ splitlines r"
proof (cases "b = []")
  case True
  then show ?thesis by (simp add: splitlines_def splitlines_from.simps)
next
  case False
  with assms obtain s where "b = s @ [nl]"
    by (metis append_butlast_last_id whole_lines_def)
  then show ?thesis using splitlines_newline_append [OF byte_nl, of s r] by simp
qed

lemma last_break: "s \<noteq> [] \<Longrightarrow> last s = nl \<Longrightarrow> has_break s"
  by (induction s) (auto simp: ascii_break_def split: if_splits)

text \<open>
  after a crash in the middle of an append the chain can still be extended: a torn, unparseable
  last line is skipped when the previous digest is looked up, the new row starts on a line of its
  own and is linked to the last complete row, while \<open>read\<close> and \<open>verify\<close> keep rejecting the file.
\<close>

theorem append_after_torn_line:
  assumes "digest_law H" and "safe_entry p" and "whole_lines b" and "verify H (Some b) = Inr True"
    and "utf8_ok t" and "\<not> has_break t" and "\<not> blank t" and "loads t = Inl JSONDecodeError"
  shows "\<exists>rows e d f'. read (Some b) = Inr rows \<and> build_and_append H (Some (b @ t)) p = (Inr e, Some f') \<and>
    splitlines f' = splitlines b @ [t, serialize d] \<and> entry_from_raw d = Inr e \<and>
    le_prev e = last_sha rows \<and>
    read (Some f') = Inl JSONDecodeError \<and> verify H (Some f') = Inr False"
proof -
  from assms(4) obtain ds where raw: "read_raw (Some b) = Inr ds" and ver: "verify_rows H JNull ds = Inr True"
    unfolding verify_True by blast
  from raw have ub: "utf8_ok b" and ds: "parse_rows (splitlines b) = Inr ds"
    by (auto simp: read_raw_def decode_def split: if_splits)
  from verify_rows_read [OF ver] obtain rows where rows: "res_map entry_from_raw ds = Inr rows" ..
  let ?prev = "tip JNull ds"
  have t: "t \<noteq> []" using assms(7) blank_Nil by auto
  have lt: "splitlines t = [t]" by (rule splitlines_no_break [OF assms(6) t])
  have lbt: "splitlines (b @ t) = splitlines b @ [t]" using splitlines_whole [OF assms(3)] lt by simp
  have prev: "last_entry_sha (Some (b @ t)) = Inr ?prev"
    using last_sha_tip [OF assms(1) ds ver] lbt ub assms(5,7,8)
    by (simp add: last_entry_sha_def decode_def utf8_ok_append)
  note line = build_and_append_line [OF assms(1,2) prev tip_digest [OF assms(1) ver]]
  let ?d = "chained_row H p ?prev"
  from line(1) obtain e where e: "entry_from_raw ?d = Inr e" "le_prev e = ?prev"
    "build_and_append H (Some (b @ t)) p = (Inr e, Some ((b @ t) @ added_line (Some (b @ t)) ?d))"
    by (auto simp: file_text_def)
  have "last t \<noteq> nl" using assms(6) t last_break [of t] by blast
  with t have added: "added_line (Some (b @ t)) ?d = nl # serialize ?d @ [nl]"
    by (simp add: added_line_def trailing_newline_missing_def)
  define f' where "f' = b @ t @ nl # serialize ?d @ [nl]"
  have uf: "utf8_ok f'"
    using serialize_line(2) [OF line(2)] ub assms(5) by (simp add: f'_def utf8_ok_append)
  have "splitlines (t @ nl # serialize ?d @ [nl]) = [t, serialize ?d]"
    using splitlines_newline_append [OF byte_nl, of t "serialize ?d @ [nl]"]
      splitlines_one_line [OF assms(6) byte_nl]
      splitlines_one_line [OF serialize_line(1) [OF line(2)] byte_nl] by simp
  then have lf: "splitlines f' = splitlines b @ [t, serialize ?d]"
    using splitlines_whole [OF assms(3)] by (simp add: f'_def)
  then have bad: "read_raw (Some f') = Inl JSONDecodeError"
    using uf ds assms(7,8) by (simp add: read_raw_def decode_def parse_rows_append)
  have "read (Some b) = Inr rows" using raw rows by (simp add: read_def)
  then show ?thesis using e added lf bad last_sha_read [OF rows]
    by (auto simp: f'_def read_def verify_def is_value_error_def)
qed

lemma torn_sample:
  "whole_lines (sample_text @ [nl])" "verify zero_hash (Some (sample_text @ [nl])) = Inr True"
  "utf8_ok ''{ab''" "\<not> has_break ''{ab''" "\<not> blank ''{ab''" "loads ''{ab'' = Inl JSONDecodeError"
  by code_simp+

theorem append_after_torn_line_witness:
  "\<exists>rows e d f'. read (Some (sample_text @ [nl])) = Inr rows \<and>
    build_and_append zero_hash (Some ((sample_text @ [nl]) @ ''{ab'')) (make_entry ''run-start'' ''ok'' None (JObj [(''kind'', JStr ''op-config'')]) None (Some ''r1'') False) = (Inr e, Some f') \<and>
    splitlines f' = splitlines (sample_text @ [nl]) @ [''{ab'', serialize d] \<and> entry_from_raw d = Inr e \<and>
    le_prev e = last_sha rows \<and>
    read (Some f') = Inl JSONDecodeError \<and> verify zero_hash (Some f') = Inr False"
  by (rule append_after_torn_line [OF zero_digest_law sample_safe_entry torn_sample])

section \<open>Where the ledger falls short of its contract\<close>

text \<open>
  C8: the file is written with \<open>ensure_ascii=False\<close> and read with \<open>splitlines\<close>, which also breaks
  at U+2028: a row whose subject holds that character is appended without an error, and from then
  on the ledger can neither be read nor verified.
\<close>

definition separator_subject :: string where
  "separator_subject = [char_of (226 :: nat), char_of (128 :: nat), char_of (168 :: nat)]"

theorem line_separator_breaks_ledger:
  "\<exists>e f'. append zero_hash None ''finding'' ''ok'' (Some separator_subject) JNull None None False = (Inr e, f') \<and>
     read f' = Inl JSONDecodeError \<and> verify zero_hash f' = Inr False"
proof -
  let ?r = "append zero_hash None ''finding'' ''ok'' (Some separator_subject) JNull None None False"
  have "isl (fst ?r) = False" "read (snd ?r) = Inl JSONDecodeError" "verify zero_hash (snd ?r) = Inr False"
    by code_simp+
  then show ?thesis by (cases ?r; cases "fst ?r") auto
qed

text \<open>
  C9: \<open>verify\<close> promises \<open>False\<close> for a corrupt ledger, but a row holding an escaped lone surrogate
  parses and cannot be encoded again, so recomputing its digest raises out of \<open>verify\<close>.
\<close>

definition surrogate_text :: string where
  "surrogate_text = [CHR ''{''] @ show_str ''event'' @ '':'' @ show_str ''stop'' @ '','' @ show_str ''status'' @
     '':'' @ [CHR 0x22, CHR 0x5C] @ ''ud800'' @ [CHR 0x22, CHR ''}'']"

theorem verify_raises_on_surrogate:
  "verify H (Some surrogate_text) = Inl UnicodeEncodeError"
proof -
  define d where "d = [(''event'', JStr ''stop''), (''status'', JStr [CHR 0xED, CHR 0xA0, CHR 0x80])]"
  have "read_raw (Some surrogate_text) = Inr [d]" unfolding d_def by code_simp
  moreover have "\<not> isl (entry_from_raw d)" unfolding d_def by code_simp
  moreover have "\<not> utf8_ok (canonical_json (hashed_values d))" unfolding d_def by code_simp
  ultimately show ?thesis
    by (cases "entry_from_raw d") (simp_all add: verify_def compute_entry_sha_def encode_def)
qed

end
