(* ===== verification/OpConfig.thy ===== *)
theory OpConfig
  imports Ledger
begin

text \<open>
  The operator's intake, \<open>peers/spine/op_config.py\<close>: the closed set of keys, the validation of
  each value, the digest of the canonical configuration and the \<open>run-start\<close> row that anchors a
  ledger to it. A configuration document is a JSON value; \<open>JInt\<close> is a Python \<open>int\<close> that is not
  a \<open>bool\<close>, which is the test the code makes.
\<close>

section \<open>The configuration\<close>

definition allowed_modes :: "string list" where
  "allowed_modes = [''develop'', ''find-bugs:reproduce'', ''research'', ''bring-up'']"

definition allowed_keys :: "string list" where
  "allowed_keys = [''mode'', ''landing'', ''evolve_features'', ''budget'', ''dry_n'']"

definition deny_keys :: "string list" where
  "deny_keys =
     [''goal'', ''charter'', ''objective'', ''task'',
      ''disable_gate'', ''skip_gate'', ''relax_gate'', ''gate'', ''gates'',
      ''trust_marker'', ''proof_oracle'', ''oracle'',
      ''allow_unattested'', ''override'', ''no_verify'']"

definition allowed_budget_keys :: "string list" where
  "allowed_budget_keys = [''max_rounds'', ''max_tokens'']"

record budget =
  bu_max_rounds :: int
  bu_max_tokens :: "int option"

record op_config =
  oc_mode :: string
  oc_landing :: string
  oc_evolve_features :: bool
  oc_budget :: budget
  oc_dry_n :: int

definition keys_within :: "raw \<Rightarrow> string list \<Rightarrow> bool" where
  "keys_within d ks \<longleftrightarrow> list_all (\<lambda>(k, v). k \<in> set ks) d"

definition positive_int :: "json \<Rightarrow> int res" where
  "positive_int j = (case j of JInt i \<Rightarrow> if i < 1 then Inl ValueError else Inr i | _ \<Rightarrow> Inl ValueError)"

definition budget_from_dict :: "json \<Rightarrow> budget res" where
  "budget_from_dict j =
     (case j of
        JObj d \<Rightarrow>
          if \<not> keys_within d allowed_budget_keys then Inl ValueError
          else res_bind (positive_int (jget_default d ''max_rounds'' (JInt 12))) (\<lambda>rounds.
            let t = jget_default d ''max_tokens'' JNull in
            if t = JNull then Inr \<lparr>bu_max_rounds = rounds, bu_max_tokens = None\<rparr>
            else res_bind (positive_int t) (\<lambda>tokens.
              Inr \<lparr>bu_max_rounds = rounds, bu_max_tokens = Some tokens\<rparr>))
      | _ \<Rightarrow> Inl ValueError)"

definition known_mode :: "raw \<Rightarrow> string res" where
  "known_mode d =
     (case map_of d ''mode'' of
        None \<Rightarrow> Inl ValueError
      | Some j \<Rightarrow> (case j of JStr m \<Rightarrow> if m \<in> set allowed_modes then Inr m else Inl ValueError
                 | _ \<Rightarrow> Inl ValueError))"

definition nonempty_str :: "json \<Rightarrow> string res" where
  "nonempty_str j = (case j of JStr s \<Rightarrow> if s = [] then Inl ValueError else Inr s | _ \<Rightarrow> Inl ValueError)"

definition bool_of :: "json \<Rightarrow> bool res" where
  "bool_of j = (case j of JBool b \<Rightarrow> Inr b | _ \<Rightarrow> Inl ValueError)"

definition op_config_from_dict :: "json \<Rightarrow> op_config res" where
  "op_config_from_dict j =
     (case j of
        JObj d \<Rightarrow>
          if \<not> list_all (\<lambda>(k, v). k \<notin> set deny_keys) d then Inl ValueError
          else if \<not> keys_within d allowed_keys then Inl ValueError
          else
            res_bind (known_mode d) (\<lambda>mode.
            res_bind (nonempty_str (jget_default d ''landing'' (JStr ''branch-pr''))) (\<lambda>landing.
            res_bind (bool_of (jget_default d ''evolve_features'' (JBool False))) (\<lambda>evolve.
            res_bind (budget_from_dict (jget_default d ''budget'' (JObj []))) (\<lambda>budget.
            res_bind (positive_int (jget_default d ''dry_n'' (JInt 3))) (\<lambda>dry_n.
              Inr \<lparr>oc_mode = mode, oc_landing = landing, oc_evolve_features = evolve,
                   oc_budget = budget, oc_dry_n = dry_n\<rparr>)))))
      | _ \<Rightarrow> Inl ValueError)"

section \<open>Its digest and its row\<close>

definition oint :: "int option \<Rightarrow> json" where
  "oint x = (case x of None \<Rightarrow> JNull | Some i \<Rightarrow> JInt i)"

definition op_config_to_dict :: "op_config \<Rightarrow> json" where
  "op_config_to_dict cfg =
     JObj [(''mode'', JStr (oc_mode cfg)), (''landing'', JStr (oc_landing cfg)),
           (''evolve_features'', JBool (oc_evolve_features cfg)),
           (''budget'', JObj [(''max_rounds'', JInt (bu_max_rounds (oc_budget cfg))),
                              (''max_tokens'', oint (bu_max_tokens (oc_budget cfg)))]),
           (''dry_n'', JInt (oc_dry_n cfg))]"

definition op_config_digest :: "hash \<Rightarrow> op_config \<Rightarrow> string" where
  "op_config_digest H cfg = H (ascii_text (canonical_json (op_config_to_dict cfg)))"

definition op_config_witness :: "hash \<Rightarrow> op_config \<Rightarrow> json" where
  "op_config_witness H cfg =
     JObj [(''kind'', JStr ''op-config''), (''mode'', JStr (oc_mode cfg)),
           (''landing'', JStr (oc_landing cfg)), (''dry_n'', JInt (oc_dry_n cfg)),
           (''sha256'', JStr (op_config_digest H cfg))]"

definition load_op_config :: "hash \<Rightarrow> op_config \<Rightarrow> ledger_file \<Rightarrow> string \<Rightarrow> entry res \<times> ledger_file" where
  "load_op_config H cfg f mode_run =
     (case read f of
        Inl e \<Rightarrow> (Inl e, f)
      | Inr rows \<Rightarrow>
          if rows \<noteq> [] then (Inl ValueError, f)
          else append H f ''run-start'' ''ok'' None (op_config_witness H cfg) None (Some mode_run) False)"

section \<open>What validation guarantees\<close>

lemma positive_int_Inr: "positive_int j = Inr i \<longleftrightarrow> j = JInt i \<and> 1 \<le> i"
  by (auto simp: positive_int_def split: json.splits if_splits)

lemma nonempty_str_Inr: "nonempty_str j = Inr s \<longleftrightarrow> j = JStr s \<and> s \<noteq> []"
  by (auto simp: nonempty_str_def split: json.splits if_splits)

lemma known_mode_Inr: "known_mode d = Inr m \<longleftrightarrow> map_of d ''mode'' = Some (JStr m) \<and> m \<in> set allowed_modes"
  by (auto simp: known_mode_def split: option.splits json.splits if_splits)

lemma budget_from_dict_Inr:
  "budget_from_dict j = Inr b \<Longrightarrow> 1 \<le> bu_max_rounds b \<and> (\<forall>t. bu_max_tokens b = Some t \<longrightarrow> 1 \<le> t)"
  by (auto simp: budget_from_dict_def res_bind_Inr_iff positive_int_Inr Let_def split: json.splits if_splits)

text \<open>
  an accepted intake can only choose how a run behaves: it is a mapping without any goal,
  charter or gate-relaxation key and without an unknown key, names a known mode, and its round
  budget, token budget and dry threshold are at least one.
\<close>

theorem op_config_closed:
  assumes "op_config_from_dict j = Inr cfg"
  shows "(\<exists>d. j = JObj d \<and> (\<forall>k v. (k, v) \<in> set d \<longrightarrow> k \<in> set allowed_keys \<and> k \<notin> set deny_keys) \<and>
           map_of d ''mode'' = Some (JStr (oc_mode cfg))) \<and>
    oc_mode cfg \<in> set allowed_modes \<and> oc_landing cfg \<noteq> [] \<and>
    1 \<le> bu_max_rounds (oc_budget cfg) \<and> (\<forall>t. bu_max_tokens (oc_budget cfg) = Some t \<longrightarrow> 1 \<le> t) \<and>
    1 \<le> oc_dry_n cfg"
  using assms budget_from_dict_Inr
  by (fastforce simp: op_config_from_dict_def res_bind_Inr_iff positive_int_Inr nonempty_str_Inr
      known_mode_Inr keys_within_def list_all_iff split: json.splits if_splits)

definition sample_intake :: json where
  "sample_intake = JObj [(''mode'', JStr ''develop''), (''budget'', JObj [(''max_rounds'', JInt 4)])]"

definition sample_config :: op_config where
  "sample_config = \<lparr>oc_mode = ''develop'', oc_landing = ''branch-pr'', oc_evolve_features = False,
     oc_budget = \<lparr>bu_max_rounds = 4, bu_max_tokens = None\<rparr>, oc_dry_n = 3\<rparr>"

lemma sample_intake_ok: "op_config_from_dict sample_intake = Inr sample_config"
  by code_simp

theorem op_config_closed_witness:
  "oc_mode sample_config \<in> set allowed_modes \<and> 1 \<le> oc_dry_n sample_config"
  using op_config_closed [OF sample_intake_ok] by blast

end
