(* ===== verification/Gates.thy ===== *)
theory Gates
  imports Ledger
begin

text \<open>
  Stop-on-dry and the spine gates: \<open>peers/spine/stop_on_dry.py\<close>, \<open>peers/spine/gates.py\<close> and
  \<open>safe_io.read_bytes_no_symlink\<close>, which the witness gate reads files with. The operating
  system is the parameter \<open>os_open\<close>: opening a path gives the kind, the link count and the
  bytes of the file, or the exception (\<open>OSError\<close>, or \<open>ValueError\<close> for a path with a NUL). The
  repository is \<open>None\<close> when the caller passes none.
\<close>

section \<open>Stop on dry\<close>

definition round_events :: "string list" where
  "round_events = [''dry-round'', ''confirmed-work'']"

definition is_real_confirmed_work :: "entry \<Rightarrow> bool" where
  "is_real_confirmed_work row \<longleftrightarrow>
     le_event row = ''confirmed-work'' \<and> le_author row \<noteq> JNull \<and> le_witness row \<noteq> JNull"

text \<open>The walk over the reversed rows.\<close>

fun dry_walk :: "nat \<Rightarrow> entry list \<Rightarrow> nat" where
  "dry_walk streak [] = streak"
| "dry_walk streak (row # rows) =
     (if is_real_confirmed_work row then streak
      else if le_event row \<in> set round_events then dry_walk (Suc streak) rows
      else dry_walk streak rows)"

definition dry_streak :: "entry list \<Rightarrow> nat" where
  "dry_streak rows = dry_walk 0 (rev rows)"

definition should_stop :: "entry list \<Rightarrow> int \<Rightarrow> bool" where
  "should_stop rows n \<longleftrightarrow> int (dry_streak rows) \<ge> n"

lemma dry_walk_add: "dry_walk k rows = k + dry_walk 0 rows"
proof (induction rows arbitrary: k)
  case (Cons r rows)
  show ?case using Cons [of "Suc k"] Cons [of k] Cons [of 1] by simp
qed simp

lemma dry_streak_Nil [simp]: "dry_streak [] = 0"
  by (simp add: dry_streak_def)

lemma dry_streak_snoc [row_simps]:
  "dry_streak (rows @ [r]) =
     (if is_real_confirmed_work r then 0
      else if le_event r \<in> set round_events then Suc (dry_streak rows)
      else dry_streak rows)"
  using dry_walk_add [of "Suc 0" "rev rows"] by (simp add: dry_streak_def)

section \<open>Reading a witness file\<close>

record fnode =
  fn_regular :: bool
  fn_nlink :: nat
  fn_data :: string

type_synonym os_open = "string \<Rightarrow> fnode res"

definition read_bytes_no_symlink :: "os_open \<Rightarrow> string \<Rightarrow> int option \<Rightarrow> string res" where
  "read_bytes_no_symlink os path max_bytes =
     (if (case max_bytes of Some m \<Rightarrow> m < 0 | None \<Rightarrow> False) then Inl ValueError
      else res_bind (os path) (\<lambda>f.
        if \<not> fn_regular f then Inl OSError
        else if fn_nlink f \<noteq> 1 then Inl OSError
        else Inr (case max_bytes of None \<Rightarrow> fn_data f | Some m \<Rightarrow> take (nat m) (fn_data f))))"

section \<open>Witnesses\<close>

definition witness_max_bytes :: int where
  "witness_max_bytes = 64 * 1024 * 1024"

definition bogus_sha :: string where
  "bogus_sha = ''x''"

definition git_resolve_commit :: "git \<Rightarrow> string \<Rightarrow> string option res" where
  "git_resolve_commit g revision =
     (case g [''rev-parse'', ''--verify'', ''--quiet'', revision @ ''^{commit}''] of
        Inl e \<Rightarrow> if e = OSError \<or> is_value_error e then Inr None else Inl e
      | Inr (rc, txt) \<Rightarrow>
          (let out = lower (strip txt) in
           if rc \<noteq> 0 \<or> py_len out \<noteq> 40 then Inr None else Inr (Some out)))"

definition resolves_to_commit :: "git \<Rightarrow> json \<Rightarrow> bool res" where
  "resolves_to_commit g sha =
     (case sha of
        JStr s \<Rightarrow>
          if s = [] then Inr False
          else res_bind (git_resolve_commit g s) (\<lambda>r. Inr (r = Some (lower s)))
      | _ \<Rightarrow> Inr False)"

text \<open>The file and the commit branch of \<open>_witness_re_derives\<close>.\<close>

definition file_re_derives :: "hash \<Rightarrow> os_open \<Rightarrow> json \<Rightarrow> string \<Rightarrow> bool res" where
  "file_re_derives H os uri claimed =
     (case uri of
        JStr u \<Rightarrow>
          if u = [] then Inr False
          else (case read_bytes_no_symlink os u (Some witness_max_bytes) of
              Inl e \<Rightarrow> if e = OSError then Inr False else Inl e
            | Inr data \<Rightarrow> Inr (H data = claimed))
      | _ \<Rightarrow> Inr False)"

definition commit_re_derives :: "git option \<Rightarrow> json \<Rightarrow> string \<Rightarrow> bool res" where
  "commit_re_derives repo uri claimed =
     (case repo of
        None \<Rightarrow> Inr False
      | Some g \<Rightarrow>
          (let ref = (case uri of JStr u \<Rightarrow> if u = [] then claimed else u | _ \<Rightarrow> claimed) in
           res_bind (git_resolve_commit g ref) (\<lambda>r. Inr (r = Some (lower claimed)))))"

definition witness_re_derives :: "hash \<Rightarrow> os_open \<Rightarrow> git option \<Rightarrow> json \<Rightarrow> bool res" where
  "witness_re_derives H os repo witness =
     (case witness of
        JObj d \<Rightarrow>
          (case jget d ''sha256'' of
             JStr claimed \<Rightarrow>
               if claimed = [] \<or> claimed = bogus_sha then Inr False
               else if jget d ''kind'' = JStr ''file'' then file_re_derives H os (jget d ''uri'') claimed
               else if jget d ''kind'' = JStr ''git-sha'' then commit_re_derives repo (jget d ''uri'') claimed
               else Inr False
           | _ \<Rightarrow> Inr False)
      | _ \<Rightarrow> Inr False)"

section \<open>The gates\<close>

definition gate_mode_run_valid :: "entry list \<Rightarrow> string option \<Rightarrow> bool" where
  "gate_mode_run_valid rows mode_run =
     (case rows of
        [] \<Rightarrow> False
      | first # _ \<Rightarrow>
          le_event first = ''run-start'' \<and>
          (case le_witness first of JObj d \<Rightarrow> jget d ''kind'' = JStr ''op-config'' | _ \<Rightarrow> False) \<and>
          le_mode_run first \<noteq> JNull \<and>
          (case mode_run of None \<Rightarrow> True | Some m \<Rightarrow> le_mode_run first = JStr m))"

definition gate_witness_ledgered :: "hash \<Rightarrow> os_open \<Rightarrow> entry list \<Rightarrow> git option \<Rightarrow> bool res" where
  "gate_witness_ledgered H os rows repo =
     (let confirmed = filter (\<lambda>r. le_event r = ''confirmed-work'') rows in
      if confirmed = [] then Inr False
      else res_all (\<lambda>r. witness_re_derives H os repo (le_witness r)) confirmed)"

text \<open>The test of one row; rows without the independence flag pass.\<close>

definition row_attested :: "git option \<Rightarrow> string \<Rightarrow> entry \<Rightarrow> bool res" where
  "row_attested repo head r =
     (if \<not> le_independence r then Inr True
      else (case repo of
          None \<Rightarrow> Inr False
        | Some g \<Rightarrow>
            if le_author r = JNull then Inr False
            else (case jget (obj_or_empty (le_witness r)) ''attest_sha'' of
                JStr sha \<Rightarrow>
                  if sha = [] then Inr False
                  else res_bind (is_ancestor g (Some sha) head) (\<lambda>reachable.
                    if \<not> reachable then Inr False
                    else res_bind (resolve_author g sha) (\<lambda>who. Inr (ostr who = le_author r)))
              | _ \<Rightarrow> Inr False)))"

definition gate_authorship_attested :: "entry list \<Rightarrow> git option \<Rightarrow> string \<Rightarrow> bool res" where
  "gate_authorship_attested rows repo head = res_all (row_attested repo head) rows"

definition gate_stop_on_dry :: "entry list \<Rightarrow> int \<Rightarrow> bool" where
  "gate_stop_on_dry rows dry_n =
     (if int (dry_streak rows) \<ge> dry_n then \<exists>r \<in> set rows. le_event r = ''stop'' else True)"

type_synonym gates = "(string \<times> bool) list"

definition evaluate_spine_gates ::
  "hash \<Rightarrow> os_open \<Rightarrow> entry list \<Rightarrow> string option \<Rightarrow> int \<Rightarrow> git option \<Rightarrow> string \<Rightarrow> gates res" where
  "evaluate_spine_gates H os rows mode_run dry_n repo head =
     res_bind (gate_witness_ledgered H os rows repo) (\<lambda>witnessed.
     res_bind (gate_authorship_attested rows repo head) (\<lambda>attested.
       Inr [(''ModeRun-valid'', gate_mode_run_valid rows mode_run),
            (''witness-ledgered'', witnessed),
            (''authorship-attested'', attested),
            (''stop-on-dry'', gate_stop_on_dry rows dry_n)]))"

definition all_pass :: "gates \<Rightarrow> bool" where
  "all_pass res \<longleftrightarrow> res \<noteq> [] \<and> list_all snd res"

section \<open>What the gates certify\<close>

text \<open>
  the dry streak is the number of round rows after the last confirmed unit that has both a
  substrate author and a witness; a bare or fabricated confirmation counts as one more dry round.
\<close>

theorem dry_streak_counts:
  "dry_streak rows =
     length (filter (\<lambda>r. le_event r \<in> set round_events)
       (takeWhile (\<lambda>r. \<not> is_real_confirmed_work r) (rev rows)))"
  by (induction rows rule: rev_induct) (simp_all add: row_simps)

lemma all_pass_simps [simp]: "all_pass [] = False" "all_pass [(a, b)] = b"
  "all_pass (p # q # ps) = (snd p \<and> all_pass (q # ps))"
  by (auto simp: all_pass_def)

lemma evaluate_spine_gates_True:
  "(\<exists>res. evaluate_spine_gates H os rows mode_run dry_n repo head = Inr res \<and> all_pass res) \<longleftrightarrow>
     gate_mode_run_valid rows mode_run \<and> gate_witness_ledgered H os rows repo = Inr True \<and>
     gate_authorship_attested rows repo head = Inr True \<and> gate_stop_on_dry rows dry_n"
  by (cases "gate_witness_ledgered H os rows repo"; cases "gate_authorship_attested rows repo head")
    (auto simp: evaluate_spine_gates_def)

lemma gate_witness_ledgered_True:
  "gate_witness_ledgered H os rows repo = Inr True \<longleftrightarrow>
     (\<exists>r \<in> set rows. le_event r = ''confirmed-work'') \<and>
     (\<forall>r \<in> set rows. le_event r = ''confirmed-work'' \<longrightarrow> witness_re_derives H os repo (le_witness r) = Inr True)"
  by (auto simp: gate_witness_ledgered_def Let_def res_all_True filter_empty_conv)

text \<open>What a witness that re-derives proves: the file has that digest, or the commit is that commit.\<close>

definition backed :: "hash \<Rightarrow> os_open \<Rightarrow> git option \<Rightarrow> json \<Rightarrow> bool" where
  "backed H os repo witness \<longleftrightarrow>
     (\<exists>d claimed. witness = JObj d \<and> jget d ''sha256'' = JStr claimed \<and> claimed \<noteq> [] \<and> claimed \<noteq> bogus_sha \<and>
       ((jget d ''kind'' = JStr ''file'' \<and>
           (\<exists>u f. jget d ''uri'' = JStr u \<and> os u = Inr f \<and> fn_regular f \<and> fn_nlink f = 1 \<and>
              H (take (nat witness_max_bytes) (fn_data f)) = claimed)) \<or>
        (jget d ''kind'' = JStr ''git-sha'' \<and>
           (\<exists>g ref. repo = Some g \<and> git_resolve_commit g ref = Inr (Some (lower claimed))))))"

lemma file_re_derives_True:
  "file_re_derives H os uri claimed = Inr True \<longleftrightarrow>
     (\<exists>u f. uri = JStr u \<and> u \<noteq> [] \<and> os u = Inr f \<and> fn_regular f \<and> fn_nlink f = 1 \<and>
        H (take (nat witness_max_bytes) (fn_data f)) = claimed)"
  by (cases uri) (auto simp: file_re_derives_def read_bytes_no_symlink_def witness_max_bytes_def
      res_bind_def split: sum.splits if_splits)

lemma commit_re_derives_True:
  "commit_re_derives repo uri claimed = Inr True \<longleftrightarrow>
     (\<exists>g. repo = Some g \<and> git_resolve_commit g
        (case uri of JStr u \<Rightarrow> if u = [] then claimed else u | _ \<Rightarrow> claimed) = Inr (Some (lower claimed)))"
  by (cases repo) (auto simp: commit_re_derives_def Let_def res_bind_Inr_iff)

lemma witness_re_derives_backed:
  assumes "witness_re_derives H os repo witness = Inr True"
  shows "backed H os repo witness"
proof (cases witness)
  case (JObj d)
  show ?thesis
  proof (cases "jget d ''sha256''")
    case (JStr claimed)
    with assms JObj have "claimed \<noteq> []" "claimed \<noteq> bogus_sha"
      and "(jget d ''kind'' = JStr ''file'' \<and> file_re_derives H os (jget d ''uri'') claimed = Inr True) \<or>
        (jget d ''kind'' = JStr ''git-sha'' \<and> commit_re_derives repo (jget d ''uri'') claimed = Inr True)"
      by (auto simp: witness_re_derives_def split: if_splits)
    then show ?thesis using JObj JStr
      unfolding backed_def file_re_derives_True commit_re_derives_True by blast
  qed (use assms JObj in \<open>simp_all add: witness_re_derives_def\<close>)
qed (use assms in \<open>simp_all add: witness_re_derives_def\<close>)

lemma row_attested_True:
  "row_attested repo head r = Inr True \<longleftrightarrow>
     (le_independence r \<longrightarrow>
        (\<exists>g sha who. repo = Some g \<and> jget (obj_or_empty (le_witness r)) ''attest_sha'' = JStr sha \<and>
           is_ancestor g (Some sha) head = Inr True \<and> attested_peer g sha = Inr (Some who) \<and>
           le_author r = JStr who))"
proof (cases "le_independence r \<and> repo \<noteq> None \<and> le_author r \<noteq> JNull")
  case True
  then obtain g where g: "repo = Some g" by blast
  show ?thesis
  proof (cases "jget (obj_or_empty (le_witness r)) ''attest_sha''")
    case (JStr sha)
    with True g show ?thesis
      by (cases "is_ancestor g (Some sha) head"; cases sha; cases "attested_peer g sha")
        (auto simp: row_attested_def resolve_author_def is_ancestor_def ostr_def split: option.splits)
  qed (use True g in \<open>simp_all add: row_attested_def\<close>)
qed (auto simp: row_attested_def split: option.splits)

lemma spine_gates_facts:
  assumes "evaluate_spine_gates H os rows mode_run dry_n repo head = Inr res" and "all_pass res"
  shows "gate_mode_run_valid rows mode_run"
    and "\<And>r. r \<in> set rows \<Longrightarrow> le_event r = ''confirmed-work'' \<Longrightarrow> backed H os repo (le_witness r)"
    and "\<And>r. r \<in> set rows \<Longrightarrow> le_independence r \<Longrightarrow>
       \<exists>g sha who. repo = Some g \<and> jget (obj_or_empty (le_witness r)) ''attest_sha'' = JStr sha \<and>
          is_ancestor g (Some sha) head = Inr True \<and> attested_peer g sha = Inr (Some who) \<and>
          le_author r = JStr who"
    and "\<exists>r \<in> set rows. le_event r = ''confirmed-work''"
    and "int (dry_streak rows) \<ge> dry_n \<Longrightarrow> \<exists>r \<in> set rows. le_event r = ''stop''"
  using evaluate_spine_gates_True [of H os rows mode_run dry_n repo head] assms witness_re_derives_backed
  by (auto simp: gate_witness_ledgered_True gate_authorship_attested_def res_all_True row_attested_True
      gate_stop_on_dry_def split: if_splits)


text \<open>A converged run: one commit, attested to one peer, confirmed by one row.\<close>

definition sample_sha :: string where
  "sample_sha = replicate 40 CHR ''a''"

definition sample_repo :: git where
  "sample_repo args =
     (if args = [''rev-parse'', ''--verify'', ''--quiet'', sample_sha @ ''^{commit}''] then Inr (0, sample_sha @ [nl])
      else if take 2 args = [''merge-base'', ''--is-ancestor''] then Inr (0, [])
      else if args = [''notes'', notes_ref, ''show'', sample_sha] then Inr (0, ''codex'' @ [nl])
      else Inr (1, []))"

definition sample_rows :: "entry list" where
  "sample_rows =
     [make_entry ''run-start'' ''ok'' None (JObj [(''kind'', JStr ''op-config'')]) None (Some ''r1'') False,
      make_entry ''confirmed-work'' ''ok'' None
        (JObj [(''kind'', JStr ''git-sha''), (''sha256'', JStr sample_sha), (''attest_sha'', JStr sample_sha)])
        (Some ''codex'') (Some ''r1'') True]"

lemma sample_rows_read:
  "read (write_rows sample_rows) = Inr (zero_chain JNull sample_rows)"
  "verify zero_hash (write_rows sample_rows) = Inr True"
proof -
  have "list_all safe_entry sample_rows" unfolding safe_entry_def safe_json_def by code_simp
  from read_write_rows [OF this] show "read (write_rows sample_rows) = Inr (zero_chain JNull sample_rows)"
    "verify zero_hash (write_rows sample_rows) = Inr True" by blast+
qed

definition no_files :: os_open where
  "no_files path = Inl OSError"

definition all_green :: gates where
  "all_green = [(''ModeRun-valid'', True), (''witness-ledgered'', True), (''authorship-attested'', True), (''stop-on-dry'', True)]"

lemma sample_gates:
  "evaluate_spine_gates zero_hash no_files sample_rows (Some ''r1'') 3 (Some sample_repo) ''HEAD'' = Inr all_green"
  "all_pass all_green"
  by code_simp+


text \<open>
  the gate module says that whatever it cannot re-derive evaluates to \<open>False\<close>; but it catches
  only \<open>OSError\<close> around the read, so a confirmed row whose \<open>uri\<close> the operating system rejects with
  a \<open>ValueError\<close> (an embedded NUL) makes the whole evaluation raise.
\<close>

theorem nul_uri_escapes_gates:
  assumes "le_event s = ''run-start''" and "os u = Inl ValueError" and "u \<noteq> []" and "claimed \<noteq> []" and "claimed \<noteq> bogus_sha"
    and "le_event r = ''confirmed-work''"
    and "le_witness r = JObj [(''kind'', JStr ''file''), (''uri'', JStr u), (''sha256'', JStr claimed)]"
  shows "evaluate_spine_gates H os (s # r # rows) mode_run dry_n repo head = Inl ValueError"
  using assms
  by (simp add: evaluate_spine_gates_def gate_witness_ledgered_def witness_re_derives_def jget_def
      lookup_default_def file_re_derives_def read_bytes_no_symlink_def witness_max_bytes_def)

theorem nul_uri_escapes_gates_witness:
  "evaluate_spine_gates zero_hash (\<lambda>_. Inl ValueError)
     [hd sample_rows, make_entry ''confirmed-work'' ''ok'' None
        (JObj [(''kind'', JStr ''file''), (''uri'', JStr [CHR 0x00]), (''sha256'', JStr ''aa'')]) None None False]
     None 3 None ''HEAD'' = Inl ValueError"
  by (rule nul_uri_escapes_gates [where u = "[CHR 0x00]" and claimed = "''aa''"])
    (simp_all add: make_entry_def bogus_sha_def sample_rows_def)

end
