(* ===== verification/Drive.thy ===== *)
theory Drive
  imports OpConfig Gates
begin

text \<open>
  The drive loop, \<open>peers/spine/mode_run.py\<close>. A mode is anything that implements the
  \<open>ModeFrontend\<close> protocol: its three operations are the fields of \<open>frontend\<close>, functions on its
  own state \<open>'s\<close> and the ledger file of the run, each of which may raise. The loop
  \<open>while True\<close> is a recursion on the rounds that are left: the check of \<open>max_rounds\<close> at the
  end of a round is what makes it terminate. The lease of \<open>run_isolated\<close> is the provider's
  pair of operations: acquiring gives a workspace or raises, releasing always runs.
\<close>

section \<open>Runs and modes\<close>

record mode_run =
  mr_tool :: string
  mr_op_config :: op_config
  mr_ledger :: ledger_file
  mr_mode_run :: string
  mr_branch :: "string option"
  mr_base_sha :: "string option"

record 's frontend =
  fe_prepare :: "'s \<Rightarrow> ledger_file \<Rightarrow> unit res \<times> 's \<times> ledger_file"
  fe_run :: "'s \<Rightarrow> ledger_file \<Rightarrow> unit res \<times> 's \<times> ledger_file"
  fe_interpret :: "'s \<Rightarrow> ledger_file \<Rightarrow> json res"

section \<open>The loop\<close>

definition append_stop :: "hash \<Rightarrow> ledger_file \<Rightarrow> string \<Rightarrow> string \<Rightarrow> entry res \<times> ledger_file" where
  "append_stop H f status mode_run = append H f ''stop'' status None JNull None (Some mode_run) False"

text \<open>The verdict after a round: \<open>None\<close> goes on, \<open>Some status\<close> is the stop row to write.\<close>

definition round_verdict :: "int \<Rightarrow> int \<Rightarrow> int \<Rightarrow> ledger_file \<Rightarrow> string option res" where
  "round_verdict dry_n max_rounds rounds f =
     (case read f of
        Inl e \<Rightarrow> if is_value_error e \<or> e = OSError then Inr (Some ''aborted'') else Inl e
      | Inr rows \<Rightarrow>
          Inr (if should_stop rows dry_n then Some ''dry''
               else if rounds \<ge> max_rounds then Some ''complete'' else None))"

lemma round_verdict_None: "round_verdict dry_n max_rounds rounds f = Inr None \<Longrightarrow> rounds < max_rounds"
  by (auto simp: round_verdict_def split: sum.splits if_splits)

function drive_loop ::
  "hash \<Rightarrow> 's frontend \<Rightarrow> string \<Rightarrow> int \<Rightarrow> int \<Rightarrow> int \<Rightarrow> 's \<Rightarrow> ledger_file \<Rightarrow> unit res \<times> 's \<times> ledger_file"
where
  "drive_loop H fe mode_run dry_n max_rounds rounds s f =
     (case fe_run fe s f of
        (Inl e, s', f') \<Rightarrow> (Inl e, s', f')
      | (Inr _, s', f') \<Rightarrow>
          (case round_verdict dry_n max_rounds (rounds + 1) f' of
             Inl e \<Rightarrow> (Inl e, s', f')
           | Inr (Some status) \<Rightarrow>
               (case append_stop H f' status mode_run of
                  (Inl e, f'') \<Rightarrow> (Inl e, s', f'')
                | (Inr _, f'') \<Rightarrow> (Inr (), s', f''))
           | Inr None \<Rightarrow> drive_loop H fe mode_run dry_n max_rounds (rounds + 1) s' f'))"
  by pat_completeness auto

termination
  by (relation "measure (\<lambda>(H, fe, m, dry_n, max_rounds, rounds, s, f). nat (max_rounds - rounds))")
    (auto dest: round_verdict_None)

declare drive_loop.simps [simp del]

definition drive ::
  "hash \<Rightarrow> 's frontend \<Rightarrow> mode_run \<Rightarrow> 's \<Rightarrow> json res \<times> 's \<times> ledger_file" where
  "drive H fe run s =
     (case load_op_config H (mr_op_config run) (mr_ledger run) (mr_mode_run run) of
        (Inl e, f) \<Rightarrow> (Inl e, s, f)
      | (Inr _, f) \<Rightarrow>
          (case fe_prepare fe s f of
             (Inl e, s1, f1) \<Rightarrow> (Inl e, s1, f1)
           | (Inr _, s1, f1) \<Rightarrow>
               (case drive_loop H fe (mr_mode_run run) (oc_dry_n (mr_op_config run))
                       (bu_max_rounds (oc_budget (mr_op_config run))) 0 s1 f1 of
                  (Inl e, s2, f2) \<Rightarrow> (Inl e, s2, f2)
                | (Inr _, s2, f2) \<Rightarrow> (fe_interpret fe s2 f2, s2, f2))))"

section \<open>Isolated runs\<close>

record workspace =
  ws_path :: string
  ws_branch :: string
  ws_base_sha :: string
  ws_mode_run :: string

text \<open>
  A provider: leasing changes the world and yields a workspace with its (fresh) ledger file or
  raises; the exit of the context manager gets the world, the workspace and the final ledger.
\<close>

record 'w provider =
  pv_acquire :: "string \<Rightarrow> string option \<Rightarrow> 'w \<Rightarrow> (workspace \<times> ledger_file) res \<times> 'w"
  pv_release :: "workspace \<Rightarrow> ledger_file \<Rightarrow> 'w \<Rightarrow> 'w"

definition run_isolated ::
  "hash \<Rightarrow> 's frontend \<Rightarrow> 'w provider \<Rightarrow> op_config \<Rightarrow> string \<Rightarrow> string option \<Rightarrow> 's \<Rightarrow> 'w
   \<Rightarrow> json res \<times> 's \<times> 'w" where
  "run_isolated H fe pv cfg mode_run base s w =
     (case pv_acquire pv mode_run base w of
        (Inl e, w') \<Rightarrow> (Inl e, s, w')
      | (Inr (ws, f), w') \<Rightarrow>
          (case drive H fe
                  \<lparr>mr_tool = ws_path ws, mr_op_config = cfg, mr_ledger = f, mr_mode_run = mode_run,
                   mr_branch = Some (ws_branch ws), mr_base_sha = Some (ws_base_sha ws)\<rparr> s of
             (r, s', f') \<Rightarrow> (r, s', pv_release pv ws f' w')))"

section \<open>Termination with an explicit stop\<close>

text \<open>The states a frontend goes through when its rounds do not raise.\<close>

fun rounds_from :: "'s frontend \<Rightarrow> nat \<Rightarrow> 's \<Rightarrow> ledger_file \<Rightarrow> 's \<times> ledger_file" where
  "rounds_from fe 0 s f = (s, f)"
| "rounds_from fe (Suc n) s f = (case fe_run fe s f of (_, s', f') \<Rightarrow> rounds_from fe n s' f')"

lemma drive_loop_stops:
  assumes "drive_loop H fe m dry_n max_rounds rounds s f = (Inr (), s', f')"
  shows "\<exists>n f1 status e. 1 \<le> n \<and> int n \<le> max 1 (max_rounds - rounds) \<and> rounds_from fe n s f = (s', f1) \<and>
     round_verdict dry_n max_rounds (rounds + int n) f1 = Inr (Some status) \<and>
     append_stop H f1 status m = (Inr e, f')"
  using assms
proof (induction H fe m dry_n max_rounds rounds s f rule: drive_loop.induct)
  case (1 H fe m dry_n max_rounds rounds s f)
  obtain r s1 f1 where run: "fe_run fe s f = (r, s1, f1)" by (cases "fe_run fe s f") auto
  then have r: "r = Inr ()" using "1.prems" by (cases r) (auto simp: drive_loop.simps [of H fe m dry_n max_rounds rounds])
  show ?case
  proof (cases "round_verdict dry_n max_rounds (rounds + 1) f1")
    case (Inl e)
    with run r "1.prems" show ?thesis by (simp add: drive_loop.simps [of H fe m dry_n max_rounds rounds])
  next
    case (Inr v)
    show ?thesis
    proof (cases v)
      case None
      with Inr have lt: "rounds + 1 < max_rounds" using round_verdict_None by blast
      have "drive_loop H fe m dry_n max_rounds (rounds + 1) s1 f1 = (Inr (), s', f')"
        using "1.prems" run r Inr None by (simp add: drive_loop.simps [of H fe m dry_n max_rounds rounds])
      from "1.IH" [OF run [symmetric] r refl Inr None this] obtain n f2 status e where
        n: "1 \<le> n" "int n \<le> max 1 (max_rounds - (rounds + 1))" "rounds_from fe n s1 f1 = (s', f2)"
        "round_verdict dry_n max_rounds (rounds + 1 + int n) f2 = Inr (Some status)"
        "append_stop H f2 status m = (Inr e, f')" by blast
      then show ?thesis using run lt
        by (intro exI [of _ "Suc n"] exI [of _ f2] exI [of _ status] exI [of _ e])
          (auto simp: algebra_simps)
    next
      case (Some status)
      with "1.prems" run r Inr obtain e where "append_stop H f1 status m = (Inr e, f')" "s' = s1"
        by (auto simp: drive_loop.simps [of H fe m dry_n max_rounds rounds] split: prod.splits sum.splits)
      with run Inr Some show ?thesis
        by (intro exI [of _ 1] exI [of _ f1] exI [of _ status] exI [of _ e]) auto
    qed
  qed
qed

lemma load_op_config_cases:
  "load_op_config H cfg f m = (Inr e, f') \<Longrightarrow> read f = Inr []"
  by (auto simp: load_op_config_def split: sum.splits if_splits)

lemma round_verdict_Some:
  "round_verdict dry_n max_rounds rounds f = Inr (Some status) \<Longrightarrow>
     (status = ''dry'' \<and> (\<exists>rows. read f = Inr rows \<and> should_stop rows dry_n)) \<or>
     (status = ''complete'' \<and> max_rounds \<le> rounds) \<or>
     (status = ''aborted'' \<and> (\<exists>e. read f = Inl e))"
  by (auto simp: round_verdict_def split: sum.splits if_splits)


text \<open>A mode whose rounds do nothing, driven for one round.\<close>

definition idle_mode :: "unit frontend" where
  "idle_mode = \<lparr>fe_prepare = \<lambda>s f. (Inr (), s, f), fe_run = \<lambda>s f. (Inr (), s, f),
     fe_interpret = \<lambda>s f. Inr (JObj [])\<rparr>"

definition idle_run :: mode_run where
  "idle_run = \<lparr>mr_tool = ''t'', mr_op_config = sample_config\<lparr>oc_budget := \<lparr>bu_max_rounds = 1, bu_max_tokens = None\<rparr>\<rparr>, mr_ledger = None, mr_mode_run = ''r'',
     mr_branch = None, mr_base_sha = None\<rparr>"

lemma idle_drive: "\<exists>s f. drive zero_hash idle_mode idle_run () = (Inr (JObj []), s, f)"
proof -
  have "fst (drive zero_hash idle_mode idle_run ()) = Inr (JObj [])" by code_simp
  then show ?thesis by (cases "drive zero_hash idle_mode idle_run ()") auto
qed


section \<open>The op-config row anchors the run\<close>

lemma safe_op_config:
  assumes "digest_law H" and "safe_str (oc_landing cfg)" and "safe_str m" and "oc_mode cfg \<in> set allowed_modes"
  shows "safe_entry (make_entry ''run-start'' ''ok'' None (op_config_witness H cfg) None (Some m) False)"
proof -
  have "safe_str (oc_mode cfg)"
    using assms(4) by (auto simp: allowed_modes_def intro!: ascii_safe) (simp_all add: ascii_def byte_def)
  moreover have "safe_str (op_config_digest H cfg)"
    using assms(1) by (auto simp: digest_law_def op_config_digest_def ascii_safe)
  moreover have "safe_str ''op-config''" "safe_str ''kind''" "safe_str ''mode''" "safe_str ''landing''"
    "safe_str ''dry_n''" "safe_str ''sha256''" "safe_str ''run-start''" "safe_str ''ok''"
    by (rule ascii_safe, simp add: ascii_def byte_def)+
  ultimately show ?thesis using assms(2,3) ascii_keys
    by (simp add: safe_entry_def safe_json_def payload_def make_entry_def op_config_witness_def)
qed

text \<open>
  the approved intake anchors the run: on an empty ledger \<open>load_op_config\<close> writes exactly the
  first row, and whatever is appended later the \<open>ModeRun-valid\<close> gate holds for this run and for
  no other id; on a ledger that has rows it refuses and writes nothing.
\<close>

theorem load_op_config_anchors:
  assumes "digest_law H" and "safe_str (oc_landing cfg)" and "safe_str m" and "oc_mode cfg \<in> set allowed_modes"
    and "verify H f = Inr True" and "read f = Inr rows"
  shows "if rows \<noteq> [] then load_op_config H cfg f m = (Inl ValueError, f)
    else \<exists>e f'. load_op_config H cfg f m = (Inr e, f') \<and> read f' = Inr [e] \<and> verify H f' = Inr True \<and>
           (\<forall>later m'. gate_mode_run_valid (e # later) (Some m') = (m' = m))"
proof (cases "rows = []")
  case True
  from build_and_append_reads [OF assms(1) safe_op_config [OF assms(1-4)] assms(5)] assms(6) True
  obtain e f' where e: "build_and_append H f (make_entry ''run-start'' ''ok'' None (op_config_witness H cfg) None (Some m) False) = (Inr e, f')"
    "read f' = Inr [e]" "verify H f' = Inr True"
    "e = (make_entry ''run-start'' ''ok'' None (op_config_witness H cfg) None (Some m) False)
           \<lparr>le_prev := last_sha [], le_entry_sha := le_entry_sha e\<rparr>" by auto
  from e(4) have "le_event e = ''run-start'' \<and> le_witness e = op_config_witness H cfg \<and> le_mode_run e = JStr m"
    by (cases e) (simp add: make_entry_def)
  then have "gate_mode_run_valid (e # later) (Some m') = (m' = m)" for later m'
    by (auto simp: gate_mode_run_valid_def op_config_witness_def jget_def lookup_default_def)
  with e(1-3) True assms(6) show ?thesis by (simp add: load_op_config_def append_def)
qed (use assms(6) in \<open>simp add: load_op_config_def\<close>)

theorem load_op_config_anchors_witness:
  "\<exists>e f'. load_op_config zero_hash sample_config None ''r1'' = (Inr e, f') \<and> read f' = Inr [e] \<and>
     verify zero_hash f' = Inr True \<and> (\<forall>later m'. gate_mode_run_valid (e # later) (Some m') = (m' = ''r1''))"
proof -
  have "safe_str (oc_landing sample_config)" "safe_str ''r1''"
    by (rule ascii_safe, simp add: ascii_def byte_def sample_config_def)+
  moreover have "oc_mode sample_config \<in> set allowed_modes" by (simp add: sample_config_def allowed_modes_def)
  moreover have "read None = Inr []" by (simp add: read_def read_raw_def)
  ultimately show ?thesis
    using load_op_config_anchors [OF zero_digest_law _ _ _ empty_verifies, of sample_config "''r1''" "[]"] by simp
qed

end
