(* ===== verification/Converge.thy ===== *)
theory Converge
  imports Drive
begin

text \<open>
  Convergence and propagation: \<open>peers/spine/propagate.py\<close> (with \<open>PropagationResult\<close> of
  \<open>peers/spine/worktree.py\<close>). The repository is read through \<open>git\<close>; the two commands that write
  into the consumer's worktree (\<open>fetch\<close> and \<open>update-ref\<close>) change the consumer's git state
  \<open>'w\<close>. The ledger of the producer and the ledger of the consumer are files.
\<close>

definition is_converged :: "hash \<Rightarrow> os_open \<Rightarrow> entry list \<Rightarrow> string option \<Rightarrow> git \<Rightarrow> string \<Rightarrow> bool res" where
  "is_converged H os rows mode_run g head =
     res_bind (evaluate_spine_gates H os rows mode_run 3 (Some g) head) (\<lambda>gates.
       Inr (all_pass gates \<and> (\<exists>r \<in> set rows. le_event r = ''confirmed-work'' \<and> le_independence r)))"

text \<open>The digest a row ships: \<open>witness.get("sha256") or witness.get("uri")\<close>, a 40 character string.\<close>

definition shipped_sha :: "entry \<Rightarrow> string option" where
  "shipped_sha r =
     (if le_event r \<noteq> ''confirmed-work'' then None
      else (case le_witness r of
          JObj d \<Rightarrow>
            if jget d ''kind'' \<noteq> JStr ''git-sha'' then None
            else (case (if truthy (jget d ''sha256'') then jget d ''sha256'' else jget d ''uri'') of
                JStr s \<Rightarrow> if py_len s = 40 then Some (lower s) else None
              | _ \<Rightarrow> None)
        | _ \<Rightarrow> None))"

fun first_shipped :: "entry list \<Rightarrow> string option" where
  "first_shipped [] = None"
| "first_shipped (r # rs) = (case shipped_sha r of Some s \<Rightarrow> Some s | None \<Rightarrow> first_shipped rs)"

definition converged_commit :: "entry list \<Rightarrow> string option" where
  "converged_commit rows = first_shipped (rev rows)"

record propagation =
  pr_ok :: bool
  pr_witness :: json
  pr_reason :: string
  pr_artifact :: "string option"

definition refused :: "string \<Rightarrow> propagation" where
  "refused reason = \<lparr>pr_ok = False, pr_witness = JNull, pr_reason = reason, pr_artifact = None\<rparr>"

text \<open>
  The state of the consumer: its git state and its ledger file. \<open>branch\<close> of the producer may be
  \<open>None\<close>; \<open>fetch\<close> with \<open>None\<close> in its argument list is a \<open>TypeError\<close>.
\<close>

record 'w consumer =
  co_git :: 'w
  co_ledger :: ledger_file

definition head_of :: "string option \<Rightarrow> string" where
  "head_of branch = (case branch of None \<Rightarrow> ''HEAD'' | Some b \<Rightarrow> if b = [] then ''HEAD'' else b)"

definition propagated_ref :: "string \<Rightarrow> string" where
  "propagated_ref from_run = ''refs/propagated/'' @ from_run"

definition propagation_witness :: "string \<Rightarrow> string \<Rightarrow> string \<Rightarrow> string \<Rightarrow> json" where
  "propagation_witness converged from_run to_run branch =
     JObj [(''kind'', JStr ''git-sha''), (''uri'', JStr converged), (''sha256'', JStr converged),
           (''from_run'', JStr from_run), (''to_run'', JStr to_run), (''artifact'', JStr branch)]"

definition propagate_branch ::
  "hash \<Rightarrow> os_open \<Rightarrow> git \<Rightarrow> string \<Rightarrow> mode_run \<Rightarrow> 'w gitw \<Rightarrow> string \<Rightarrow> 'w consumer
   \<Rightarrow> propagation res \<times> 'w consumer" where
  "propagate_branch H os g repo_path producer cg consumer_run c =
     (case read (mr_ledger producer) of
        Inl e \<Rightarrow> (Inl e, c)
      | Inr rows \<Rightarrow>
     (case is_converged H os rows (Some (mr_mode_run producer)) g (head_of (mr_branch producer)) of
        Inl e \<Rightarrow> (Inl e, c)
      | Inr False \<Rightarrow> (Inr (refused ''not-converged''), c)
      | Inr True \<Rightarrow>
     (case converged_commit rows of
        None \<Rightarrow> (Inr (refused ''no-artifact''), c)
      | Some converged \<Rightarrow>
          if py_len converged \<noteq> 40 then (Inr (refused ''no-artifact''), c)
          else
     (case resolve_author g converged of
        Inl e \<Rightarrow> (Inl e, c)
      | Inr None \<Rightarrow> (Inr (refused ''unattested-tip''), c)
      | Inr (Some author) \<Rightarrow>
     (case mr_branch producer of
        None \<Rightarrow> (Inl TypeError, c)
      | Some branch \<Rightarrow>
     (case cg (co_git c) [''fetch'', repo_path, branch] of
        (Inl e, w) \<Rightarrow> (Inl e, c\<lparr>co_git := w\<rparr>)
      | (Inr (rc, _), w) \<Rightarrow>
          if rc \<noteq> 0 then (Inr (refused ''move-failed''), c\<lparr>co_git := w\<rparr>)
          else
     (case cg w [''update-ref'', propagated_ref (mr_mode_run producer), converged] of
        (Inl e, w') \<Rightarrow> (Inl e, c\<lparr>co_git := w'\<rparr>)
      | (Inr (rc, _), w') \<Rightarrow>
          if rc \<noteq> 0 then (Inr (refused ''move-failed''), c\<lparr>co_git := w'\<rparr>)
          else
            (let witness = propagation_witness converged (mr_mode_run producer) consumer_run branch
             in case append_attested H g (co_ledger c) converged ''propagation'' ''ok'' (Some branch)
                       witness (Some consumer_run) True of
                  (Inl e, f) \<Rightarrow> (Inl e, c\<lparr>co_git := w', co_ledger := f\<rparr>)
                | (Inr _, f) \<Rightarrow>
                    (Inr \<lparr>pr_ok = True, pr_witness = witness, pr_reason = [], pr_artifact = Some branch\<rparr>,
                     c\<lparr>co_git := w', co_ledger := f\<rparr>)))))))))"

section \<open>What convergence means\<close>

lemma is_converged_True:
  "is_converged H os rows m g head = Inr True \<longleftrightarrow>
     (\<exists>gates. evaluate_spine_gates H os rows m 3 (Some g) head = Inr gates \<and> all_pass gates) \<and>
     (\<exists>r \<in> set rows. le_event r = ''confirmed-work'' \<and> le_independence r)"
  by (auto simp: is_converged_def res_bind_Inr_iff)

lemma first_shipped_Some: "first_shipped rs = Some s \<Longrightarrow> \<exists>r \<in> set rs. shipped_sha r = Some s"
  by (induction rs) (auto split: option.splits)

lemma converged_commit_Some: "converged_commit rows = Some s \<Longrightarrow> \<exists>r \<in> set rows. shipped_sha r = Some s"
  using first_shipped_Some [of "rev rows" s] by (simp add: converged_commit_def)

lemma shipped_sha_Some:
  "shipped_sha r = Some s \<Longrightarrow> le_event r = ''confirmed-work'' \<and>
     (\<exists>d t. le_witness r = JObj d \<and> jget d ''kind'' = JStr ''git-sha'' \<and> s = lower t \<and> py_len t = 40 \<and>
        (jget d ''sha256'' = JStr t \<or> \<not> truthy (jget d ''sha256'') \<and> jget d ''uri'' = JStr t))"
  by (auto simp: shipped_sha_def split: if_splits json.splits)

text \<open>
  C35: a converged run has, in its ledger, a confirmed unit of independent work whose witness is
  backed and whose author is the peer the substrate attested for a commit reachable from the tip
  of the run; and the commit it ships is the one that a backed, confirmed row names: it resolves
  in the repository to exactly itself.
\<close>

theorem converged_means_attested_work:
  assumes "is_converged H os rows m g head = Inr True"
  shows "(\<exists>r \<in> set rows. \<exists>sha who. le_event r = ''confirmed-work'' \<and> le_independence r \<and>
            backed H os (Some g) (le_witness r) \<and>
            jget (obj_or_empty (le_witness r)) ''attest_sha'' = JStr sha \<and>
            is_ancestor g (Some sha) head = Inr True \<and> attested_peer g sha = Inr (Some who) \<and>
            le_author r = JStr who) \<and>
    (\<forall>c. converged_commit rows = Some c \<longrightarrow>
       (\<exists>r \<in> set rows. \<exists>ref. le_event r = ''confirmed-work'' \<and> shipped_sha r = Some c \<and>
          git_resolve_commit g ref = Inr (Some c)))"
proof -
  from assms obtain gates where ev: "evaluate_spine_gates H os rows m 3 (Some g) head = Inr gates" "all_pass gates"
    and ind: "\<exists>r \<in> set rows. le_event r = ''confirmed-work'' \<and> le_independence r"
    unfolding is_converged_True by blast
  note gate = spine_gates_facts [OF ev]
  from ind gate(2,3) have "\<exists>r \<in> set rows. \<exists>sha who. le_event r = ''confirmed-work'' \<and> le_independence r \<and>
            backed H os (Some g) (le_witness r) \<and>
            jget (obj_or_empty (le_witness r)) ''attest_sha'' = JStr sha \<and>
            is_ancestor g (Some sha) head = Inr True \<and> attested_peer g sha = Inr (Some who) \<and>
            le_author r = JStr who" by (metis option.inject)
  moreover have "\<exists>r \<in> set rows. \<exists>ref. le_event r = ''confirmed-work'' \<and> shipped_sha r = Some c \<and>
          git_resolve_commit g ref = Inr (Some c)" if "converged_commit rows = Some c" for c
  proof -
    from converged_commit_Some [OF that] obtain r where r: "r \<in> set rows" "shipped_sha r = Some c" by blast
    from shipped_sha_Some [OF r(2)] obtain d t where d: "le_event r = ''confirmed-work''" "le_witness r = JObj d"
      "jget d ''kind'' = JStr ''git-sha''" "c = lower t" "py_len t = 40"
      "jget d ''sha256'' = JStr t \<or> \<not> truthy (jget d ''sha256'')" by blast
    from gate(2) r(1) d(1) have "backed H os (Some g) (le_witness r)" by blast
    then obtain ref claimed where "jget d ''sha256'' = JStr claimed" "claimed \<noteq> []"
        "git_resolve_commit g ref = Inr (Some (lower claimed))"
      using d(2,3) by (auto simp: backed_def)
    with d r show ?thesis by auto
  qed
  ultimately show ?thesis by blast
qed

lemma sample_converged: "is_converged zero_hash no_files sample_rows (Some ''r1'') sample_repo ''HEAD'' = Inr True"
  by code_simp

theorem converged_means_attested_work_witness:
  "\<exists>r \<in> set sample_rows. \<exists>sha who. le_event r = ''confirmed-work'' \<and> le_independence r \<and>
     jget (obj_or_empty (le_witness r)) ''attest_sha'' = JStr sha \<and>
     attested_peer sample_repo sha = Inr (Some who) \<and> le_author r = JStr who"
  using converged_means_attested_work [OF sample_converged] by blast

section \<open>What propagation moves\<close>

lemma append_attested_Inr:
  "append_attested H g f sha event status subject witness m ind = (Inr e, f') \<Longrightarrow>
     \<exists>who. resolve_author g sha = Inr who \<and> le_event e = event \<and> le_status e = status \<and>
       le_subject e = subject \<and> le_author e = ostr who \<and> le_witness e = attest_witness witness sha ind \<and>
       le_independence e = ind \<and> le_mode_run e = ostr m \<and> (\<exists>t. file_text f' = file_text f @ t)"
  by (auto simp: append_attested_def make_entry_def dest!: build_cases split: sum.splits)

lemma propagate_outcome:
  assumes "propagate_branch H os g repo_path p cg to_run c = (Inr pr, c')"
  shows "if pr_ok pr then
     (\<exists>rows sha who branch w1 o1 o2 e.
        read (mr_ledger p) = Inr rows \<and>
        is_converged H os rows (Some (mr_mode_run p)) g (head_of (mr_branch p)) = Inr True \<and>
        converged_commit rows = Some sha \<and> attested_peer g sha = Inr (Some who) \<and>
        mr_branch p = Some branch \<and>
        cg (co_git c) [''fetch'', repo_path, branch] = (Inr (0, o1), w1) \<and>
        cg w1 [''update-ref'', propagated_ref (mr_mode_run p), sha] = (Inr (0, o2), co_git c') \<and>
        append_attested H g (co_ledger c) sha ''propagation'' ''ok'' (Some branch)
          (propagation_witness sha (mr_mode_run p) to_run branch) (Some to_run) True = (Inr e, co_ledger c'))
     else co_ledger c' = co_ledger c \<and> (pr_reason pr \<noteq> ''move-failed'' \<longrightarrow> c' = c)"
proof (cases "read (mr_ledger p)")
  case (Inl e)
  with assms show ?thesis by (simp add: propagate_branch_def)
next
  case (Inr rows)
  note r = this
  let ?conv = "is_converged H os rows (Some (mr_mode_run p)) g (head_of (mr_branch p))"
  consider "?conv = Inr True" "\<exists>sha who branch. converged_commit rows = Some sha \<and> py_len sha = 40 \<and>
      resolve_author g sha = Inr (Some who) \<and> mr_branch p = Some branch" | "c' = c" "\<not> pr_ok pr"
    using assms r
    by (auto simp: propagate_branch_def refused_def split: sum.splits bool.splits option.splits if_splits)
  then show ?thesis
  proof cases
    case 1
    then obtain sha who branch where sha: "converged_commit rows = Some sha" "py_len sha = 40"
      "resolve_author g sha = Inr (Some who)" "mr_branch p = Some branch" by blast
    obtain a1 w1 where f: "cg (co_git c) [''fetch'', repo_path, branch] = (a1, w1)" by fastforce
    obtain a2 w2 where u: "cg w1 [''update-ref'', propagated_ref (mr_mode_run p), sha] = (a2, w2)" by fastforce
    obtain a3 f3 where a: "append_attested H g (co_ledger c) sha ''propagation'' ''ok'' (Some branch)
        (propagation_witness sha (mr_mode_run p) to_run branch) (Some to_run) True = (a3, f3)" by fastforce
    from assms r 1(1) sha f u a show ?thesis
      by (cases a1; cases a2; cases a3)
        (auto simp: propagate_branch_def refused_def Let_def resolve_author_def split: if_splits prod.splits)
  qed simp
qed

text \<open>
  propagation is gated: it reports success only for a converged producer, after pinning exactly
  the commit the producer's ledger names in the consumer's \<open>refs/propagated\<close> ref, and the row it
  adds to the consumer's ledger carries the producer's attested author as independent work; in
  every other case the consumer's ledger is untouched, and nothing at all is written unless git
  itself refused the move.
\<close>

theorem propagate_only_converged:
  assumes "propagate_branch H os g repo_path p cg to_run c = (Inr pr, c')"
  shows "if pr_ok pr then
     (\<exists>rows sha who w1 out (e :: entry). read (mr_ledger p) = Inr rows \<and>
        is_converged H os rows (Some (mr_mode_run p)) g (head_of (mr_branch p)) = Inr True \<and>
        converged_commit rows = Some sha \<and> attested_peer g sha = Inr (Some who) \<and>
        cg w1 [''update-ref'', propagated_ref (mr_mode_run p), sha] = (Inr (0, out), co_git c') \<and>
        le_event e = ''propagation'' \<and> le_author e = JStr who \<and> le_independence e \<and>
        (\<exists>t. file_text (co_ledger c') = file_text (co_ledger c) @ t) \<and>
        jget (obj_or_empty (le_witness e)) ''sha256'' = JStr sha \<and>
        jget (obj_or_empty (le_witness e)) ''attest_sha'' = JStr sha)
     else co_ledger c' = co_ledger c \<and> (pr_reason pr \<noteq> ''move-failed'' \<longrightarrow> c' = c)"
proof (cases "pr_ok pr")
  case True
  from propagate_outcome [OF assms] True obtain rows sha who branch w1 o1 o2 e where
    p: "read (mr_ledger p) = Inr rows"
      "is_converged H os rows (Some (mr_mode_run p)) g (head_of (mr_branch p)) = Inr True"
      "converged_commit rows = Some sha" "attested_peer g sha = Inr (Some who)"
      "cg w1 [''update-ref'', propagated_ref (mr_mode_run p), sha] = (Inr (0, o2), co_git c')"
    and a: "append_attested H g (co_ledger c) sha ''propagation'' ''ok'' (Some branch)
          (propagation_witness sha (mr_mode_run p) to_run branch) (Some to_run) True = (Inr e, co_ledger c')"
    by auto
  from append_attested_Inr [OF a] p(4) have "le_event e = ''propagation'' \<and> le_author e = JStr who \<and>
      le_independence e \<and> (\<exists>t. file_text (co_ledger c') = file_text (co_ledger c) @ t) \<and>
      jget (obj_or_empty (le_witness e)) ''sha256'' = JStr sha \<and>
      jget (obj_or_empty (le_witness e)) ''attest_sha'' = JStr sha"
    by (auto simp: resolve_author_def attest_witness_def propagation_witness_def obj_or_empty_def
        jget_def lookup_default_def)
  with p show ?thesis unfolding if_P [OF True] by blast
next
  case False
  with propagate_outcome [OF assms] show ?thesis by simp
qed

text \<open>A producer with the sample run on its ledger.\<close>

definition sample_producer :: mode_run where
  "sample_producer = \<lparr>mr_tool = ''t'', mr_op_config = sample_config, mr_ledger = write_rows sample_rows,
     mr_mode_run = ''r1'', mr_branch = Some ''peers/run/r1'', mr_base_sha = Some sample_sha\<rparr>"

definition log_git :: "string list list gitw" where
  "log_git w args = (Inr (0, []), w @ [args])"

lemma sample_consumer_row:
  "safe_entry (make_entry ''propagation'' ''ok'' (Some ''peers/run/r1'')
     (attest_witness (propagation_witness sample_sha ''r1'' ''r2'' ''peers/run/r1'') sample_sha True)
     (Some ''codex'') (Some ''r2'') True)"
  unfolding safe_entry_def safe_json_def by code_simp

lemma sample_propagation:
  "\<exists>pr c'. propagate_branch zero_hash no_files sample_repo ''/repo'' sample_producer log_git ''r2''
     \<lparr>co_git = [], co_ledger = None\<rparr> = (Inr pr, c') \<and> pr_ok pr"
proof -
  let ?rows = "zero_chain JNull sample_rows"
  have facts: "is_converged zero_hash no_files ?rows (Some ''r1'') sample_repo (head_of (Some ''peers/run/r1'')) = Inr True"
    "converged_commit ?rows = Some sample_sha" "py_len sample_sha = 40"
    "resolve_author sample_repo sample_sha = Inr (Some ''codex'')" by code_simp+
  from append_attested_ok [OF zero_digest_law facts(4) empty_verifies sample_consumer_row] obtain e f where
    "append_attested zero_hash sample_repo None sample_sha ''propagation'' ''ok'' (Some ''peers/run/r1'')
       (propagation_witness sample_sha ''r1'' ''r2'' ''peers/run/r1'') (Some ''r2'') True = (Inr e, f)" by blast
  with facts show ?thesis
    by (simp add: propagate_branch_def sample_producer_def sample_rows_read log_git_def Let_def)
qed

theorem propagate_only_converged_witness:
  "\<exists>c' rows sha. read (mr_ledger sample_producer) = Inr rows \<and> converged_commit rows = Some sha \<and>
     (\<exists>w1 out. log_git w1 [''update-ref'', propagated_ref ''r1'', sha] = (Inr (0, out), co_git (c' :: string list list consumer)))"
proof -
  from sample_propagation obtain pr c' where
    p: "propagate_branch zero_hash no_files sample_repo ''/repo'' sample_producer log_git ''r2''
          \<lparr>co_git = [], co_ledger = None\<rparr> = (Inr pr, c')" "pr_ok pr" by blast
  have "mr_mode_run sample_producer = ''r1''" by (simp add: sample_producer_def)
  with propagate_only_converged [OF p(1)] p(2) show ?thesis by (simp only: if_True) metis
qed

end
