(* ===== verification/SelfHosting.thy ===== *)
theory SelfHosting
  imports Ledger
begin

text \<open>
  The self-hosting detector, \<open>peers/spine/self_hosting.py\<close>: the predicate that keeps a change to
  the program's own gates from being merged without a human. What it asks of the outside is the
  record \<open>probes\<close>: \<open>git\<close> in a directory, whether a directory exists, and the parsed
  \<open>pyproject.toml\<close> of a directory; each may raise. \<open>PurePosixPath\<close> is modelled for relative
  paths: the parts between slashes without the empty ones and the single dots.
\<close>

section \<open>Paths\<close>

definition slash :: char where
  "slash = CHR ''/''"

definition posix_parts :: "string \<Rightarrow> string list" where
  "posix_parts s = filter (\<lambda>x. x \<noteq> [] \<and> x \<noteq> ''.'') (split_on slash s)"

definition posix_name :: "string \<Rightarrow> string" where
  "posix_name s = (if posix_parts s = [] then [] else last (posix_parts s))"

definition as_posix :: "string list \<Rightarrow> string" where
  "as_posix parts = (if parts = [] then ''.'' else joins [slash] parts)"

definition unify_slashes :: "string \<Rightarrow> string" where
  "unify_slashes s = map (\<lambda>c. if c = CHR 0x5C then slash else c) s"

text \<open>The search for a backslash followed by a digit.\<close>

fun octal_escape :: "string \<Rightarrow> bool" where
  "octal_escape (c # d # r) = (c = CHR 0x5C \<and> is_digit d \<or> octal_escape (d # r))"
| "octal_escape _ = False"

definition control_char :: "char \<Rightarrow> bool" where
  "control_char c \<longleftrightarrow> byte c < 32 \<or> byte c = 127"

definition normalize :: "string \<Rightarrow> string option" where
  "normalize p =
     (if p = [] then None
      else if hd p = CHR 0x22 then None
      else if octal_escape p then None
      else if \<not> list_all (\<lambda>c. \<not> control_char c) p then None
      else (let q = unify_slashes p in
        if startswith q [slash] then None
        else if ''..'' \<in> set (posix_parts q) then None
        else Some (as_posix (posix_parts q))))"

section \<open>The governance surface\<close>

definition governance_dir_prefixes :: "string list" where
  "governance_dir_prefixes = [''src/peers/spine/'', ''.peers/'']"

definition governance_files :: "string list" where
  "governance_files =
     [''src/peers/attest.py'', ''src/peers/op_config.py'', ''src/peers/async_gate_runner.py'',
      ''src/peers/anti_cheat_guard.py'', ''src/peers/safe_io.py'', ''src/peers/structured_halt.py'',
      ''src/peers/goals.py'', ''src/peers/goal_engine.py'', ''src/peers/goal_reload.py'',
      ''src/peers/driver_gate_pipeline.py'', ''src/peers/driver_tick_hooks.py'',
      ''src/peers/driver_soft_reviews.py'', ''pyproject.toml'', ''setup.cfg'']"

definition governance_basenames :: "string list" where
  "governance_basenames = [''goals.yaml'', ''checks.sha256'', ''.gitattributes'']"

definition governance_segments :: "string list" where
  "governance_segments = [''checks'']"

definition rstrip_slash :: "string \<Rightarrow> string" where
  "rstrip_slash s = rev (dropWhile (\<lambda>c. c = slash) (rev s))"

definition path_matches :: "string \<Rightarrow> bool" where
  "path_matches rel \<longleftrightarrow>
     list_ex (\<lambda>pre. rel = rstrip_slash pre \<or> startswith rel pre) governance_dir_prefixes \<or>
     list_ex (\<lambda>f. rel = f \<or> posix_name rel = posix_name f) governance_files \<or>
     posix_name rel \<in> set governance_basenames \<or>
     list_ex (\<lambda>seg. seg \<in> set governance_segments) (split_on slash rel)"

section \<open>The identity of a repository\<close>

record probes =
  pb_git :: "string \<Rightarrow> git"
  pb_is_dir :: "string \<Rightarrow> bool res"
  pb_pyproject :: "string \<Rightarrow> raw res"
  pb_peers_root :: string

definition common_dir :: "probes \<Rightarrow> string \<Rightarrow> string option res" where
  "common_dir pb p =
     (case pb_git pb p [''rev-parse'', ''--path-format=absolute'', ''--git-common-dir''] of
        Inl e \<Rightarrow> if e = OSError \<or> e = TimeoutExpired then Inr None else Inl e
      | Inr (rc, txt) \<Rightarrow>
          Inr (if rc \<noteq> 0 then None else (let out = strip txt in if out = [] then None else Some out)))"

definition peers_common_dir :: "probes \<Rightarrow> string option res" where
  "peers_common_dir pb = common_dir pb (pb_peers_root pb)"

definition names_peers :: "raw \<Rightarrow> bool" where
  "names_peers meta \<longleftrightarrow>
     (case jget meta ''project'' of JObj d \<Rightarrow> jget d ''name'' = JStr ''peers'' | _ \<Rightarrow> False) \<or>
     (case jget meta ''tool'' of
        JObj t \<Rightarrow> (case jget t ''poetry'' of JObj d \<Rightarrow> jget d ''name'' = JStr ''peers'' | _ \<Rightarrow> False)
      | _ \<Rightarrow> False) \<or>
     jget meta ''name'' = JStr ''peers''"

definition caught_by_sentinel :: "pyexc \<Rightarrow> bool" where
  "caught_by_sentinel e \<longleftrightarrow> e = OSError \<or> is_value_error e"

definition has_peers_sentinel :: "probes \<Rightarrow> string \<Rightarrow> bool res" where
  "has_peers_sentinel pb p =
     (case res_bind (pb_is_dir pb (p @ ''/src/peers/spine'')) (\<lambda>b.
            if \<not> b then Inr False
            else res_bind (pb_pyproject pb (p @ ''/pyproject.toml'')) (\<lambda>meta. Inr (names_peers meta))) of
        Inl e \<Rightarrow> if caught_by_sentinel e then Inr False else Inl e
      | Inr b \<Rightarrow> Inr b)"

definition repo_identity :: "probes \<Rightarrow> string \<Rightarrow> (string option \<times> bool) res" where
  "repo_identity pb p =
     res_bind (common_dir pb p) (\<lambda>c. res_bind (has_peers_sentinel pb p) (\<lambda>s. Inr (c, s)))"

section \<open>The decision\<close>

datatype sh_reason =
    Trusted | UndeterminablePeersIdentity | UndeterminableTarget | TargetIsPeers
  | UndeterminableDiff | EmptyDiff | UnnormalizablePath string | GovernanceTouch string | DetectionError

text \<open>Layer 1: \<open>Some reason\<close> flags the target, \<open>None\<close> goes on.\<close>

definition target_layer :: "probes \<Rightarrow> string option \<Rightarrow> sh_reason option res" where
  "target_layer pb target =
     (case target of
        None \<Rightarrow> Inr None
      | Some t \<Rightarrow>
          res_bind (repo_identity pb t) (\<lambda>(tgt_common, tgt_sentinel).
          res_bind (peers_common_dir pb) (\<lambda>peers_common.
            Inr (if peers_common = None \<and> \<not> tgt_sentinel then Some UndeterminablePeersIdentity
                 else if tgt_common = None \<and> \<not> tgt_sentinel then Some UndeterminableTarget
                 else if tgt_common \<noteq> None \<and> peers_common \<noteq> None \<and> tgt_common = peers_common
                   then Some TargetIsPeers
                 else if tgt_sentinel then Some TargetIsPeers
                 else None))))"

fun paths_layer :: "string list \<Rightarrow> sh_reason option" where
  "paths_layer [] = None"
| "paths_layer (raw # ps) =
     (case normalize raw of
        None \<Rightarrow> Some (UnnormalizablePath raw)
      | Some rel \<Rightarrow> if path_matches rel then Some (GovernanceTouch rel) else paths_layer ps)"

definition is_self_hosting :: "probes \<Rightarrow> string list option \<Rightarrow> string option \<Rightarrow> bool \<times> sh_reason" where
  "is_self_hosting pb changed target =
     (case target_layer pb target of
        Inl e \<Rightarrow> (True, DetectionError)
      | Inr (Some why) \<Rightarrow> (True, why)
      | Inr None \<Rightarrow>
          (case changed of
             None \<Rightarrow> (True, UndeterminableDiff)
           | Some [] \<Rightarrow> (True, EmptyDiff)
           | Some ps \<Rightarrow>
               (case paths_layer ps of Some why \<Rightarrow> (True, why) | None \<Rightarrow> (False, Trusted))))"

section \<open>Only a trusted change passes\<close>

lemma paths_layer_None:
  "paths_layer ps = None \<longleftrightarrow> (\<forall>p \<in> set ps. \<exists>rel. normalize p = Some rel \<and> \<not> path_matches rel)"
  by (induction ps) (auto split: option.splits)

lemma split_on_no_sep: "c \<notin> set s \<Longrightarrow> split_on c s = [s]"
  by (induction s) auto

lemma split_on_cons: "c \<notin> set s \<Longrightarrow> split_on c (s @ c # r) = s # split_on c r"
  by (induction s) auto

lemma split_on_joins:
  "xs \<noteq> [] \<Longrightarrow> (\<And>x. x \<in> set xs \<Longrightarrow> c \<notin> set x) \<Longrightarrow> split_on c (joins [c] xs) = xs"
  by (induction "[c]" xs rule: joins.induct) (auto simp: split_on_no_sep split_on_cons)

lemma split_on_parts: "x \<in> set (split_on c s) \<Longrightarrow> c \<notin> set x"
  by (induction s arbitrary: x) (auto split: if_splits list.splits)

lemma posix_parts_clean: "x \<in> set (posix_parts s) \<Longrightarrow> slash \<notin> set x \<and> x \<noteq> [] \<and> x \<noteq> ''.''"
  by (auto simp: posix_parts_def dest: split_on_parts)

lemma split_as_posix: "posix_parts s \<noteq> [] \<Longrightarrow> split_on slash (as_posix (posix_parts s)) = posix_parts s"
  using posix_parts_clean by (simp add: as_posix_def split_on_joins)

lemma posix_parts_as_posix: "posix_parts (as_posix (posix_parts s)) = posix_parts s"
proof (cases "posix_parts s = []")
  case True
  then show ?thesis by (simp add: as_posix_def posix_parts_def slash_def)
next
  case False
  have "filter (\<lambda>x. x \<noteq> [] \<and> x \<noteq> ''.'') (posix_parts s) = posix_parts s"
    using posix_parts_clean by (simp add: filter_id_conv)
  then show ?thesis using split_as_posix [OF False] by (simp add: posix_parts_def [of "as_posix _"])
qed

lemma joins_take: "xs \<noteq> [] \<Longrightarrow> ys \<noteq> [] \<Longrightarrow> joins sep (xs @ ys) = joins sep xs @ sep @ joins sep ys"
  by (induction sep xs rule: joins.induct) (auto simp: neq_Nil_conv)

lemma under_prefix:
  assumes "take n parts = pre" and "pre \<noteq> []"
  shows "as_posix parts = joins [slash] pre \<or> startswith (as_posix parts) (joins [slash] pre @ [slash])"
proof -
  from assms have p: "parts = pre @ drop n parts" by (metis append_take_drop_id)
  show ?thesis
  proof (cases "drop n parts = []")
    case True
    with p assms(2) show ?thesis by (simp add: as_posix_def)
  next
    case False
    then have "joins [slash] parts = joins [slash] pre @ [slash] @ joins [slash] (drop n parts)"
      using joins_take [OF assms(2) False] p by metis
    moreover have "parts \<noteq> []" using p assms(2) by auto
    ultimately show ?thesis by (auto simp: as_posix_def startswith_iff)
  qed
qed

lemma not_matching_parts:
  assumes "normalize p = Some rel" and "\<not> path_matches rel"
  shows "posix_parts rel = posix_parts (unify_slashes p) \<and> ''..'' \<notin> set (posix_parts rel) \<and>
    take 3 (posix_parts rel) \<noteq> [''src'', ''peers'', ''spine''] \<and> take 1 (posix_parts rel) \<noteq> [''.peers''] \<and>
    ''checks'' \<notin> set (posix_parts rel) \<and> posix_name rel \<notin> set governance_basenames \<and>
    (\<forall>f \<in> set governance_files. posix_name rel \<noteq> posix_name f)"
proof -
  define ps where "ps = posix_parts (unify_slashes p)"
  from assms(1) have rel: "rel = as_posix ps" and dd: "''..'' \<notin> set ps"
    by (auto simp: normalize_def ps_def Let_def split: if_splits)
  have parts: "posix_parts rel = ps" unfolding rel ps_def by (rule posix_parts_as_posix)
  have "take 3 ps \<noteq> [''src'', ''peers'', ''spine'']"
    using assms(2) under_prefix [of 3 ps "[''src'', ''peers'', ''spine'']"] rel
    by (auto simp: path_matches_def governance_dir_prefixes_def rstrip_slash_def slash_def)
  moreover have "take 1 ps \<noteq> [''.peers'']"
    using assms(2) under_prefix [of 1 ps "[''.peers'']"] rel
    by (auto simp: path_matches_def governance_dir_prefixes_def rstrip_slash_def slash_def)
  moreover have "''checks'' \<notin> set ps"
  proof
    assume c: "''checks'' \<in> set ps"
    then have "split_on slash rel = ps"
      using split_as_posix [of "unify_slashes p"] rel ps_def by force
    with c assms(2) show False
      by (auto simp: path_matches_def governance_segments_def list_ex_iff)
  qed
  ultimately show ?thesis using assms(2) dd parts
    by (auto simp: path_matches_def list_ex_iff ps_def)
qed

text \<open>
  C21: the detector fails safe: it answers \<open>False\<close> only when the target, if any, was positively told
  apart from the program's own repository (its git directory is known and differs, no sentinel),
  the diff is known and not empty, and no changed path, however it is spelled (backslashes,
  doubled or dotted segments), lies under the spine or \<open>.peers\<close>, has a \<open>checks\<close> segment, climbs
  with \<open>..\<close>, or is named like a governance file.
\<close>

theorem trusted_change_is_harmless:
  assumes "is_self_hosting pb changed target = (False, why)"
  shows "(\<forall>t. target = Some t \<longrightarrow> (\<exists>c c'. common_dir pb t = Inr (Some c) \<and>
            peers_common_dir pb = Inr (Some c') \<and> c \<noteq> c' \<and> has_peers_sentinel pb t = Inr False)) \<and>
    (\<exists>ps. changed = Some ps \<and> ps \<noteq> [] \<and>
       (\<forall>p \<in> set ps. let parts = posix_parts (unify_slashes p) in
          ''..'' \<notin> set parts \<and> take 3 parts \<noteq> [''src'', ''peers'', ''spine''] \<and> take 1 parts \<noteq> [''.peers''] \<and>
          ''checks'' \<notin> set parts \<and>
          (parts \<noteq> [] \<longrightarrow> last parts \<notin> set governance_basenames \<and>
             (\<forall>f \<in> set governance_files. last parts \<noteq> posix_name f))))"
proof
  from assms have t: "target_layer pb target = Inr None"
    by (auto simp: is_self_hosting_def split: sum.splits option.splits)
  then show "\<forall>t. target = Some t \<longrightarrow> (\<exists>c c'. common_dir pb t = Inr (Some c) \<and>
      peers_common_dir pb = Inr (Some c') \<and> c \<noteq> c' \<and> has_peers_sentinel pb t = Inr False)"
    by (fastforce simp: target_layer_def repo_identity_def res_bind_Inr_iff split: if_splits)
next
  from assms obtain ps where ps: "changed = Some ps" "ps \<noteq> []" "paths_layer ps = None"
    by (auto simp: is_self_hosting_def split: sum.splits option.splits list.splits)
  have "let parts = posix_parts (unify_slashes p) in
          ''..'' \<notin> set parts \<and> take 3 parts \<noteq> [''src'', ''peers'', ''spine''] \<and> take 1 parts \<noteq> [''.peers''] \<and>
          ''checks'' \<notin> set parts \<and>
          (parts \<noteq> [] \<longrightarrow> last parts \<notin> set governance_basenames \<and>
             (\<forall>f \<in> set governance_files. last parts \<noteq> posix_name f))" if "p \<in> set ps" for p
  proof -
    from ps(3) that obtain rel where rel: "normalize p = Some rel" "\<not> path_matches rel"
      unfolding paths_layer_None by blast
    from not_matching_parts [OF rel] show ?thesis by (auto simp: Let_def posix_name_def [of rel] simp del: take_Suc)
  qed
  with ps(1,2) show "\<exists>ps. changed = Some ps \<and> ps \<noteq> [] \<and>
       (\<forall>p \<in> set ps. let parts = posix_parts (unify_slashes p) in
          ''..'' \<notin> set parts \<and> take 3 parts \<noteq> [''src'', ''peers'', ''spine''] \<and> take 1 parts \<noteq> [''.peers''] \<and>
          ''checks'' \<notin> set parts \<and>
          (parts \<noteq> [] \<longrightarrow> last parts \<notin> set governance_basenames \<and>
             (\<forall>f \<in> set governance_files. last parts \<noteq> posix_name f)))" by blast
qed

definition sample_probes :: probes where
  "sample_probes = \<lparr>pb_git = \<lambda>p args. Inr (0, p @ ''/.git'' @ [nl]), pb_is_dir = \<lambda>p. Inr False,
     pb_pyproject = \<lambda>p. Inl OSError, pb_peers_root = ''/peers''\<rparr>"

lemma sample_trusted: "is_self_hosting sample_probes (Some [''lib/a.py'']) (Some ''/tool'') = (False, Trusted)"
  by code_simp

theorem trusted_change_is_harmless_witness:
  "\<exists>c c'. common_dir sample_probes ''/tool'' = Inr (Some c) \<and> peers_common_dir sample_probes = Inr (Some c') \<and> c \<noteq> c'"
  using trusted_change_is_harmless [OF sample_trusted] by blast

end
