(* ===== verification/Landing.thy ===== *)
theory Landing
  imports Converge SelfHosting
begin

text \<open>
  Landing: \<open>peers/spine/landing.py\<close> decides whether a run may be merged without a human,
  \<open>peers/spine/auto_merge.py\<close> does it. The git state of the repository is \<open>'w\<close>; \<open>land\<close> reads
  the ledger twice and appends to it at the end, so it gets the three states the file has at
  those moments; the injected \<open>recheck\<close> (a lease and a test run) may change the git state, and
  so may another process just before the final \<open>update-ref\<close>, which the parameter \<open>race\<close> stands
  for. Every exception inside \<open>land\<close> becomes a refusal, as the code's last handler has it.
\<close>

section \<open>The landing contract\<close>

record landing_contract =
  lc_branch :: "string option"
  lc_mergeable :: bool
  lc_landing_mode :: string
  lc_mode_run :: string
  lc_gates :: gates
  lc_head_sha :: "string option"
  lc_self_hosting :: bool

definition to_witness :: "landing_contract \<Rightarrow> json" where
  "to_witness c =
     JObj [(''kind'', JStr ''url''), (''uri'', ostr (lc_branch c)), (''landing'', JStr (lc_landing_mode c)),
       (''contract'', JObj
          [(''mergeable'', JBool (lc_mergeable c)),
           (''gates'', JObj (map (\<lambda>(k, b). (k, JBool b)) (lc_gates c))),
           (''head_sha'', ostr (lc_head_sha c)), (''self_hosting'', JBool (lc_self_hosting c)),
           (''landing_mode'', JStr (lc_landing_mode c)), (''mode_run'', JStr (lc_mode_run c))])]"

definition auto_merge :: string where
  "auto_merge = ''auto-merge''"

definition build_landing_contract ::
  "hash \<Rightarrow> os_open \<Rightarrow> entry list \<Rightarrow> git \<Rightarrow> string \<Rightarrow> string option \<Rightarrow> string option \<Rightarrow> string \<Rightarrow> bool \<Rightarrow> int
   \<Rightarrow> landing_contract res" where
  "build_landing_contract H os rows g mode_run branch head_sha landing_mode self_hosting dry_n =
     res_bind (evaluate_spine_gates H os rows (Some mode_run) dry_n (Some g) (head_of branch)) (\<lambda>gates.
     res_bind (resolves_to_commit g (ostr head_sha)) (\<lambda>head_ok.
       (let mergeable = all_pass gates \<and> head_ok;
            mode = (if landing_mode = auto_merge \<and> mergeable \<and> \<not> self_hosting then auto_merge else ''branch-pr'')
        in Inr \<lparr>lc_branch = branch, lc_mergeable = mergeable, lc_landing_mode = mode, lc_mode_run = mode_run,
               lc_gates = gates, lc_head_sha = head_sha, lc_self_hosting = self_hosting\<rparr>)))"

text \<open>
  auto-merge is a conjunction and nothing else: the contract says \<open>auto-merge\<close> exactly when
  the operator asked for it, all spine gates pass, the head is a commit that resolves to itself,
  and the run is not self-hosting; in every other case it says \<open>branch-pr\<close>.
\<close>

theorem auto_merge_iff:
  assumes "build_landing_contract H os rows g m branch head_sha requested self_hosting dry_n = Inr c"
  shows "(lc_landing_mode c = auto_merge \<longleftrightarrow>
       requested = auto_merge \<and> \<not> self_hosting \<and>
       evaluate_spine_gates H os rows (Some m) dry_n (Some g) (head_of branch) = Inr (lc_gates c) \<and>
       all_pass (lc_gates c) \<and>
       (\<exists>s. head_sha = Some s \<and> s \<noteq> [] \<and> git_resolve_commit g s = Inr (Some (lower s)))) \<and>
    (lc_landing_mode c \<noteq> auto_merge \<longrightarrow> lc_landing_mode c = ''branch-pr'')"
  using assms
  by (cases head_sha)
    (auto simp: build_landing_contract_def res_bind_Inr_iff Let_def auto_merge_def resolves_to_commit_def
      split: if_splits)

lemma sample_contract:
  "\<exists>c. build_landing_contract zero_hash no_files sample_rows sample_repo ''r1'' (Some ''b'') (Some sample_sha)
     auto_merge False 3 = Inr c \<and> lc_landing_mode c = auto_merge"
proof -
  let ?r = "build_landing_contract zero_hash no_files sample_rows sample_repo ''r1'' (Some ''b'') (Some sample_sha)
     auto_merge False 3"
  have "(case ?r of Inr c \<Rightarrow> lc_landing_mode c = auto_merge | Inl _ \<Rightarrow> False)" by code_simp
  then show ?thesis by (cases ?r) auto
qed

theorem auto_merge_iff_witness:
  "\<exists>c :: landing_contract. lc_landing_mode c = auto_merge \<and> all_pass (lc_gates c)"
proof -
  from sample_contract obtain c where
    "build_landing_contract zero_hash no_files sample_rows sample_repo ''r1'' (Some ''b'') (Some sample_sha)
       auto_merge False 3 = Inr c" "lc_landing_mode c = auto_merge" by blast
  with auto_merge_iff [OF this(1)] show ?thesis by blast
qed

section \<open>The merge\<close>

datatype land_reason =
    NoReason | NotAutoMerge | NoIsolatedBranch | BadTargetRef | NoConvergedCommit | UnattestedConverged
  | ConvergedMoved | RecheckFailed | UndeterminableBase | SelfHosting | MergeConflict | LandError pyexc

record landing_result =
  lr_landed :: bool
  lr_merged_sha :: "string option"
  lr_target_ref :: "string option"
  lr_reason :: land_reason

definition not_landed :: "land_reason \<Rightarrow> landing_result" where
  "not_landed why = \<lparr>lr_landed = False, lr_merged_sha = None, lr_target_ref = None, lr_reason = why\<rparr>"

definition changed_paths :: "git \<Rightarrow> string \<Rightarrow> string \<Rightarrow> string list option res" where
  "changed_paths g base commit =
     res_bind (g [''diff'', ''--name-only'', ''--no-renames'', ''-z'', base @ ''..'' @ commit])
       (\<lambda>(rc, out). Inr (if rc \<noteq> 0 then None
                         else Some (filter (\<lambda>p. p \<noteq> []) (split_on CHR 0x00 out))))"

definition heads_prefix :: string where
  "heads_prefix = ''refs/heads/''"

definition canonical_branch_ref :: "git \<Rightarrow> string \<Rightarrow> string option res" where
  "canonical_branch_ref g target_ref =
     (if target_ref = [] \<or> target_ref = ''HEAD'' \<or> startswith target_ref ''-'' \<or>
         startswith target_ref ''refs/heads/refs/'' \<or> startswith target_ref ''refs/remotes/'' \<or>
         startswith target_ref ''refs/tags/'' then Inr None
      else
        (let name = (if startswith target_ref heads_prefix then drop (length heads_prefix) target_ref
                     else target_ref) in
         if slash \<in> set name \<and> hd (split_on slash name) = ''refs'' then Inr None
         else
           (let full = heads_prefix @ name in
            res_bind (g [''rev-parse'', ''--verify'', ''--quiet'', full])
              (\<lambda>(rc, out). Inr (if rc \<noteq> 0 \<or> py_len (strip out) \<noteq> 40 then None else Some full)))))"

text \<open>Steps 1 to 3: the decision and the fresh recheck, without the test run. \<open>Inl\<close> is a refusal.\<close>

definition land_checks ::
  "hash \<Rightarrow> os_open \<Rightarrow> git \<Rightarrow> mode_run \<Rightarrow> string \<Rightarrow> ledger_file \<Rightarrow> ledger_file
   \<Rightarrow> (land_reason + string \<times> string \<times> string) res" where
  "land_checks H os g run target_ref f1 f2 =
     res_bind (read f1) (\<lambda>rows.
     res_bind (build_landing_contract H os rows g (mr_mode_run run)
         (Some (case mr_branch run of None \<Rightarrow> [] | Some b \<Rightarrow> b)) (converged_commit rows)
         (oc_landing (mr_op_config run)) False 3) (\<lambda>lc.
     if lc_landing_mode lc \<noteq> auto_merge then Inr (Inl NotAutoMerge)
     else if mr_branch run = None then Inr (Inl NoIsolatedBranch)
     else
     res_bind (canonical_branch_ref g target_ref) (\<lambda>ref.
     case ref of None \<Rightarrow> Inr (Inl BadTargetRef) | Some branch_ref \<Rightarrow>
     (case converged_commit rows of None \<Rightarrow> Inr (Inl NoConvergedCommit) | Some converged \<Rightarrow>
     res_bind (resolves_to_commit g (JStr converged)) (\<lambda>ok.
     if \<not> ok then Inr (Inl NoConvergedCommit)
     else
     res_bind (resolve_author g converged) (\<lambda>who.
     case who of None \<Rightarrow> Inr (Inl UnattestedConverged) | Some author \<Rightarrow>
     res_bind (read f2) (\<lambda>rows2.
     if converged_commit rows2 \<noteq> Some converged then Inr (Inl ConvergedMoved)
     else
     res_bind (resolve_author g converged) (\<lambda>who2.
     if who2 = None then Inr (Inl UnattestedConverged)
     else
     res_bind (evaluate_spine_gates H os rows2 (Some (mr_mode_run run)) 3 (Some g) (head_of (mr_branch run)))
       (\<lambda>gates. if \<not> all_pass gates then Inr (Inl RecheckFailed)
                else Inr (Inr (branch_ref, converged, author)))))))))))"

text \<open>Step 4 and the reads of step 5: the base, the diff, the current tip and its ancestry.\<close>

definition land_merge_checks ::
  "git \<Rightarrow> probes \<Rightarrow> string \<Rightarrow> mode_run \<Rightarrow> string \<Rightarrow> string \<Rightarrow> (land_reason + string) res" where
  "land_merge_checks g pb repo_path run branch_ref converged =
     (case mr_base_sha run of
        None \<Rightarrow> Inr (Inl UndeterminableBase)
      | Some base \<Rightarrow>
     if base = [] then Inr (Inl UndeterminableBase)
     else
     res_bind (resolves_to_commit g (JStr base)) (\<lambda>ok.
     if \<not> ok then Inr (Inl UndeterminableBase)
     else
     res_bind (changed_paths g base converged) (\<lambda>changed.
     if fst (is_self_hosting pb changed (Some repo_path)) then Inr (Inl SelfHosting)
     else
     res_bind (g [''rev-parse'', ''--verify'', ''--quiet'', branch_ref]) (\<lambda>(rc, out).
     if rc \<noteq> 0 \<or> py_len (strip out) \<noteq> 40 then Inr (Inl MergeConflict)
     else
     res_bind (g [''merge-base'', ''--is-ancestor'', strip out, converged]) (\<lambda>(rc', _).
     if rc' \<noteq> 0 then Inr (Inl MergeConflict)
     else Inr (Inr (strip out)))))))"

definition landed_witness :: "string \<Rightarrow> string \<Rightarrow> string option \<Rightarrow> json" where
  "landed_witness converged branch_ref branch =
     JObj [(''kind'', JStr ''git-sha''), (''uri'', JStr converged), (''sha256'', JStr converged),
           (''target_ref'', JStr branch_ref), (''from_branch'', ostr branch)]"

definition land ::
  "hash \<Rightarrow> os_open \<Rightarrow> 'w gitw \<Rightarrow> probes \<Rightarrow> string \<Rightarrow> ('w \<Rightarrow> string \<Rightarrow> bool res \<times> 'w) \<Rightarrow> ('w \<Rightarrow> 'w)
   \<Rightarrow> mode_run \<Rightarrow> string \<Rightarrow> ledger_file \<Rightarrow> ledger_file \<Rightarrow> ledger_file \<Rightarrow> 'w
   \<Rightarrow> landing_result \<times> 'w \<times> ledger_file" where
  "land H os g pb repo_path recheck race run target_ref f1 f2 f3 w =
     (case land_checks H os (git_at g w) run target_ref f1 f2 of
        Inl e \<Rightarrow> (not_landed (LandError e), w, f3)
      | Inr (Inl why) \<Rightarrow> (not_landed why, w, f3)
      | Inr (Inr (branch_ref, converged, author)) \<Rightarrow>
     (case recheck w converged of
        (Inl e, w1) \<Rightarrow> (not_landed (LandError e), w1, f3)
      | (Inr False, w1) \<Rightarrow> (not_landed RecheckFailed, w1, f3)
      | (Inr True, w1) \<Rightarrow>
     (case land_merge_checks (git_at g w1) pb repo_path run branch_ref converged of
        Inl e \<Rightarrow> (not_landed (LandError e), w1, f3)
      | Inr (Inl why) \<Rightarrow> (not_landed why, w1, f3)
      | Inr (Inr old_sha) \<Rightarrow>
     (case g (race w1) [''update-ref'', branch_ref, converged, old_sha] of
        (Inl e, w2) \<Rightarrow> (not_landed (LandError e), w2, f3)
      | (Inr (rc, _), w2) \<Rightarrow>
          if rc \<noteq> 0 then (not_landed MergeConflict, w2, f3)
          else
     (case append_attested H (git_at g w2) f3 converged ''landed'' ''ok'' (Some branch_ref)
             (landed_witness converged branch_ref (mr_branch run)) (Some (mr_mode_run run)) True of
        (Inl e, f4) \<Rightarrow> (not_landed (LandError e), w2, f4)
      | (Inr _, f4) \<Rightarrow>
          (\<lparr>lr_landed = True, lr_merged_sha = Some converged, lr_target_ref = Some branch_ref,
            lr_reason = NoReason\<rparr>, w2, f4))))))"

section \<open>What a landing certifies\<close>

lemma land_checks_Inr:
  assumes "land_checks H os g run target f1 f2 = Inr (Inr (ref, c, who))"
  shows "\<exists>rows rows2 gates. read f1 = Inr rows \<and> read f2 = Inr rows2 \<and>
    oc_landing (mr_op_config run) = auto_merge \<and> mr_branch run \<noteq> None \<and>
    converged_commit rows = Some c \<and> converged_commit rows2 = Some c \<and>
    git_resolve_commit g c = Inr (Some (lower c)) \<and> attested_peer g c = Inr (Some who) \<and>
    evaluate_spine_gates H os rows2 (Some (mr_mode_run run)) 3 (Some g) (head_of (mr_branch run)) = Inr gates \<and>
    all_pass gates \<and> canonical_branch_ref g target = Inr (Some ref)"
  using assms
  by (auto simp: land_checks_def res_bind_Inr_iff build_landing_contract_def Let_def auto_merge_def
      resolves_to_commit_def resolve_author_def split: if_splits option.splits)

lemma land_merge_checks_Inr:
  assumes "land_merge_checks g pb repo run ref c = Inr (Inr old)"
  shows "\<exists>base ps why out. mr_base_sha run = Some base \<and> changed_paths g base c = Inr ps \<and>
    is_self_hosting pb ps (Some repo) = (False, why) \<and> py_len old = 40 \<and>
    g [''merge-base'', ''--is-ancestor'', old, c] = Inr (0, out)"
proof -
  from assms obtain base ps out where *: "mr_base_sha run = Some base" "changed_paths g base c = Inr ps"
    "\<not> fst (is_self_hosting pb ps (Some repo))" "py_len old = 40"
    "g [''merge-base'', ''--is-ancestor'', old, c] = Inr (0, out)"
    by (auto simp: land_merge_checks_def res_bind_Inr_iff split: if_splits option.splits)
  then show ?thesis by (cases "is_self_hosting pb ps (Some repo)") auto
qed

text \<open>
  C5: nothing lands by accident: when \<open>land\<close> reports success the operator had asked for auto-merge,
  the ledger as read again just before the merge passed every gate and names the same commit as
  at the decision, that commit resolves to itself and is attested, the injected test run passed
  on it, the diff against the recorded base is not self-hosting, the old tip of the target is an
  ancestor of it, the compare-and-swap of exactly that branch from the old tip to that commit
  succeeded, and the row written carries the attested author.
\<close>

theorem landed_only_when_certified:
  assumes "land H os g pb repo recheck race run target f1 f2 f3 w = (res, w', f')" and "lr_landed res"
  shows "\<exists>rows rows2 gates c who ref w1 base ps why old out (e :: entry).
    read f1 = Inr rows \<and> read f2 = Inr rows2 \<and> oc_landing (mr_op_config run) = auto_merge \<and>
    converged_commit rows = Some c \<and> converged_commit rows2 = Some c \<and>
    git_resolve_commit (git_at g w) c = Inr (Some (lower c)) \<and> attested_peer (git_at g w) c = Inr (Some who) \<and>
    evaluate_spine_gates H os rows2 (Some (mr_mode_run run)) 3 (Some (git_at g w)) (head_of (mr_branch run)) = Inr gates \<and>
    all_pass gates \<and> recheck w c = (Inr True, w1) \<and>
    mr_base_sha run = Some base \<and> changed_paths (git_at g w1) base c = Inr ps \<and>
    is_self_hosting pb ps (Some repo) = (False, why) \<and>
    git_at g w1 [''merge-base'', ''--is-ancestor'', old, c] = Inr (0, out) \<and>
    (\<exists>o2. g (race w1) [''update-ref'', ref, c, old] = (Inr (0, o2), w')) \<and>
    append_attested H (git_at g w') f3 c ''landed'' ''ok'' (Some ref) (landed_witness c ref (mr_branch run))
      (Some (mr_mode_run run)) True = (Inr e, f') \<and>
    lr_merged_sha res = Some c \<and> lr_target_ref res = Some ref"
proof -
  from assms obtain ref c who w1 old o2 e where
    1: "land_checks H os (git_at g w) run target f1 f2 = Inr (Inr (ref, c, who))"
    and 2: "recheck w c = (Inr True, w1)"
    and 3: "land_merge_checks (git_at g w1) pb repo run ref c = Inr (Inr old)"
    and 4: "g (race w1) [''update-ref'', ref, c, old] = (Inr (0, o2), w')"
    and 5: "append_attested H (git_at g w') f3 c ''landed'' ''ok'' (Some ref) (landed_witness c ref (mr_branch run))
      (Some (mr_mode_run run)) True = (Inr e, f')"
    and 6: "lr_merged_sha res = Some c" "lr_target_ref res = Some ref"
    by (auto simp: land_def not_landed_def split: sum.splits prod.splits bool.splits if_splits)
  from land_checks_Inr [OF 1] land_merge_checks_Inr [OF 3] 2 4 5 6 show ?thesis by blast
qed

text \<open>
  The documented behaviour of \<open>git update-ref ref new old\<close>: it succeeds exactly on a branch
  whose value is \<open>old\<close>, and then sets it; otherwise no ref changes. \<open>tips\<close> reads the refs.
\<close>

definition cas_law :: "'w gitw \<Rightarrow> ('w \<Rightarrow> string \<Rightarrow> string option) \<Rightarrow> bool" where
  "cas_law g tips \<longleftrightarrow>
     (\<forall>w ref new old r w'. g w [''update-ref'', ref, new, old] = (r, w') \<longrightarrow>
        tips w' = (if \<exists>out. r = Inr (0, out) then (tips w)(ref \<mapsto> new) else tips w) \<and>
        ((\<exists>out. r = Inr (0, out)) \<longrightarrow> tips w ref = Some old))"

text \<open>
  a refusal leaves the refs alone, and a landing moves exactly one branch by a fast-forward: if
  the test run and the other writers move no ref themselves, then after a refusal that is not
  an exception every ref is what it was, and after a landing only the target branch differs, it
  held an ancestor of the landed commit, and it holds that commit now.
\<close>

theorem land_moves_one_branch:
  assumes "cas_law g tips" and "\<And>w c. tips (snd (recheck w c)) = tips w" and "\<And>w. tips (race w) = tips w"
    and "land H os g pb repo recheck race run target f1 f2 f3 w = (res, w', f')"
  shows "(if lr_landed res then
       (\<exists>ref c old out w1. lr_target_ref res = Some ref \<and> lr_merged_sha res = Some c \<and>
          tips w ref = Some old \<and> git_at g w1 [''merge-base'', ''--is-ancestor'', old, c] = Inr (0, out) \<and>
          tips w' = (tips w)(ref \<mapsto> c))
     else (\<forall>x. lr_reason res \<noteq> LandError x) \<longrightarrow> tips w' = tips w)"
proof (cases "lr_landed res")
  case True
  from landed_only_when_certified [OF assms(4) True] obtain c ref w1 old out o2 where
    "recheck w c = (Inr True, w1)" "git_at g w1 [''merge-base'', ''--is-ancestor'', old, c] = Inr (0, out)"
    "g (race w1) [''update-ref'', ref, c, old] = (Inr (0, o2), w')"
    "lr_merged_sha res = Some c" "lr_target_ref res = Some ref" by blast
  moreover from this assms(1) have "tips w' = (tips (race w1))(ref \<mapsto> c)" "tips (race w1) ref = Some old"
    unfolding cas_law_def by metis+
  moreover have "tips (race w1) = tips w" using assms(2) [of w c] assms(3) calculation(1) by simp
  ultimately show ?thesis using True by auto
next
  case False
  have rec: "recheck w c = (r, w1) \<Longrightarrow> tips w1 = tips w" for r w1 c
    using assms(2) [of w c] by simp
  have upd: "g (race w1) [''update-ref'', ref, c, old] = (Inr (rc, out), w2) \<Longrightarrow> rc \<noteq> 0 \<Longrightarrow> tips w2 = tips w1"
    for w1 ref c old rc out w2
    using assms(1,3) unfolding cas_law_def by (metis Inr_inject prod.inject)
  have "tips w' = tips w" if "\<forall>x. lr_reason res \<noteq> LandError x"
    using assms(4) False that
    by (auto simp: land_def not_landed_def rec upd split: sum.splits prod.splits bool.splits if_splits)
  with False show ?thesis by auto
qed

section \<open>A repository to land on\<close>

definition old_tip :: string where
  "old_tip = replicate 40 CHR ''b''"

text \<open>The state is the list of refs; \<open>update-ref\<close> compares and swaps.\<close>

definition land_git :: "(string \<times> string) list gitw" where
  "land_git w args =
     (case args of
        [cmd, ref, new, old] \<Rightarrow>
          if cmd = ''update-ref'' then
            (if map_of w ref = Some old then (Inr (0, []), dict_set w ref new) else (Inr (1, []), w))
          else if cmd = ''rev-parse'' then
            (case map_of w old of
               Some v \<Rightarrow> (Inr (0, v @ [nl]), w)
             | None \<Rightarrow> (sample_repo args, w))
          else (sample_repo args, w)
      | _ \<Rightarrow> if take 1 args = [''diff''] then (Inr (0, ''lib/a.py'' @ [CHR 0x00]), w) else (sample_repo args, w))"

lemma land_git_cas: "cas_law land_git map_of"
  by (auto simp: cas_law_def land_git_def split: if_splits)

definition land_run :: "ledger_file \<Rightarrow> mode_run" where
  "land_run f = \<lparr>mr_tool = ''t'', mr_op_config = sample_config\<lparr>oc_landing := auto_merge\<rparr>, mr_ledger = f,
     mr_mode_run = ''r1'', mr_branch = Some ''peers/run/r1'', mr_base_sha = Some sample_sha\<rparr>"

definition main_ref :: string where
  "main_ref = ''refs/heads/main''"

definition sample_landing :: "ledger_file \<Rightarrow> landing_result \<times> (string \<times> string) list \<times> ledger_file" where
  "sample_landing f =
     land zero_hash no_files land_git sample_probes ''/tool'' (\<lambda>w c. (Inr True, w)) (\<lambda>w. w) (land_run f) ''main''
       f f f [(main_ref, old_tip)]"

text \<open>The steps of the sample landing, for a ledger with the given rows.\<close>

lemma sample_land_steps:
  assumes "read f = Inr rows"
    and "converged_commit rows = Some sample_sha"
    and "evaluate_spine_gates zero_hash no_files rows (Some ''r1'') 3 (Some (git_at land_git [(main_ref, old_tip)])) ''peers/run/r1'' = Inr all_green"
  shows "sample_landing f =
    (case append_attested zero_hash (git_at land_git [(main_ref, sample_sha)]) f sample_sha ''landed'' ''ok'' (Some main_ref)
        (landed_witness sample_sha main_ref (Some ''peers/run/r1'')) (Some ''r1'') True of
       (Inl e, f') \<Rightarrow> (not_landed (LandError e), [(main_ref, sample_sha)], f')
     | (Inr _, f') \<Rightarrow> (\<lparr>lr_landed = True, lr_merged_sha = Some sample_sha, lr_target_ref = Some main_ref,
                       lr_reason = NoReason\<rparr>, [(main_ref, sample_sha)], f'))"
proof -
  let ?g = "git_at land_git [(main_ref, old_tip)]"
  have facts: "resolves_to_commit ?g (JStr sample_sha) = Inr True" "canonical_branch_ref ?g ''main'' = Inr (Some main_ref)"
    "resolve_author ?g sample_sha = Inr (Some ''codex'')" "all_pass all_green"
    "head_of (Some ''peers/run/r1'') = ''peers/run/r1''"
    "land_merge_checks ?g sample_probes ''/tool'' (land_run None) main_ref sample_sha = Inr (Inr old_tip)"
    "land_git [(main_ref, old_tip)] [''update-ref'', main_ref, sample_sha, old_tip] = (Inr (0, []), [(main_ref, sample_sha)])"
    by code_simp+
  have run: "land_merge_checks ?g sample_probes ''/tool'' (land_run f) main_ref sample_sha = Inr (Inr old_tip)"
    using facts(6) by (simp add: land_merge_checks_def land_run_def)
  have "land_checks zero_hash no_files ?g (land_run f) ''main'' f f = Inr (Inr (main_ref, sample_sha, ''codex''))"
    using assms facts(1-5)
    by (simp add: land_checks_def land_run_def build_landing_contract_def Let_def)
  then show ?thesis
    using run facts(7)
    by (simp add: sample_landing_def land_def land_run_def [of f] split: sum.splits prod.splits)
qed

lemma sample_lands: "\<exists>res w f. sample_landing (write_rows sample_rows) = (res, w, f) \<and> lr_landed res"
proof -
  have facts: "converged_commit (zero_chain JNull sample_rows) = Some sample_sha"
    "evaluate_spine_gates zero_hash no_files (zero_chain JNull sample_rows) (Some ''r1'') 3
       (Some (git_at land_git [(main_ref, old_tip)])) ''peers/run/r1'' = Inr all_green"
    "resolve_author (git_at land_git [(main_ref, sample_sha)]) sample_sha = Inr (Some ''codex'')" by code_simp+
  have "safe_entry (make_entry ''landed'' ''ok'' (Some main_ref)
      (attest_witness (landed_witness sample_sha main_ref (Some ''peers/run/r1'')) sample_sha True)
      (Some ''codex'') (Some ''r1'') True)"
    unfolding safe_entry_def safe_json_def by code_simp
  from append_attested_ok [OF zero_digest_law facts(3) sample_rows_read(2) this] obtain e f where
    "append_attested zero_hash (git_at land_git [(main_ref, sample_sha)]) (write_rows sample_rows) sample_sha ''landed'' ''ok''
      (Some main_ref) (landed_witness sample_sha main_ref (Some ''peers/run/r1'')) (Some ''r1'') True = (Inr e, f)" by blast
  with sample_land_steps [OF sample_rows_read(1) facts(1,2)] show ?thesis by auto
qed

theorem landed_only_when_certified_witness:
  "\<exists>rows c who. read (write_rows sample_rows) = Inr rows \<and> converged_commit rows = Some c \<and>
     attested_peer (git_at land_git [(main_ref, old_tip)]) c = Inr (Some who)"
proof -
  from sample_lands obtain res w f where "sample_landing (write_rows sample_rows) = (res, w, f)" "lr_landed res" by blast
  from landed_only_when_certified [OF this(1) [unfolded sample_landing_def] this(2)] show ?thesis by blast
qed

theorem land_moves_one_branch_witness:
  "\<exists>res w f ref c. sample_landing (write_rows sample_rows) = (res, w, f) \<and> lr_target_ref res = Some ref \<and>
     map_of w = (map_of [(main_ref, old_tip)])(ref \<mapsto> c)"
proof -
  from sample_lands obtain res w f where l: "sample_landing (write_rows sample_rows) = (res, w, f)" "lr_landed res" by blast
  from land_moves_one_branch [OF land_git_cas _ _ l(1) [unfolded sample_landing_def]] l show ?thesis
    by auto
qed

section \<open>Where the merge falls short of its contract\<close>

text \<open>
  C23: \<open>land\<close> promises that any error means no merge, but its handler also catches an exception
  raised after the compare-and-swap: with a last ledger row whose \<open>entry_sha\<close> is a lone
  surrogate, every check passes, the branch is moved, the \<open>landed\<close> row cannot be encoded, and
  the result says \<open>landed=False\<close>.
\<close>

definition poisoned_ledger :: ledger_file where
  "poisoned_ledger =
     Some (serialize [(''event'', JStr ''run-start''), (''status'', JStr ''ok''), (''mode_run'', JStr ''r1''),
             (''witness'', JObj [(''kind'', JStr ''op-config'')])] @ [nl] @
           serialize [(''event'', JStr ''confirmed-work''), (''status'', JStr ''ok''), (''author'', JStr ''codex''),
             (''independence'', JBool True),
             (''witness'', JObj [(''kind'', JStr ''git-sha''), (''sha256'', JStr sample_sha), (''attest_sha'', JStr sample_sha)])] @ [nl] @
           [CHR ''{''] @ show_str ''event'' @ '':'' @ show_str ''note'' @ '','' @ show_str ''status'' @ '':'' @ show_str ''ok'' @
           '','' @ show_str ''entry_sha'' @ '':'' @ [CHR 0x22, CHR 0x5C] @ ''ud800'' @ [CHR 0x22, CHR ''}'', nl])"

definition lone_surrogate :: json where
  "lone_surrogate = JStr [CHR 0xED, CHR 0xA0, CHR 0x80]"

definition poisoned_rows :: "entry list" where
  "poisoned_rows =
     [(make_entry ''run-start'' ''ok'' None (JObj [(''kind'', JStr ''op-config'')]) None (Some ''r1'') False),
      (make_entry ''confirmed-work'' ''ok'' None
        (JObj [(''kind'', JStr ''git-sha''), (''sha256'', JStr sample_sha), (''attest_sha'', JStr sample_sha)])
        (Some ''codex'') None True),
      (make_entry ''note'' ''ok'' None JNull None None False)\<lparr>le_entry_sha := lone_surrogate\<rparr>]"

theorem land_error_after_merge:
  "\<exists>res w f. sample_landing poisoned_ledger = (res, w, f) \<and> \<not> lr_landed res \<and>
     lr_reason res = LandError UnicodeEncodeError \<and> map_of w main_ref = Some sample_sha"
proof -
  have rd: "read poisoned_ledger = Inr poisoned_rows" by code_simp
  have "converged_commit poisoned_rows = Some sample_sha"
    "evaluate_spine_gates zero_hash no_files poisoned_rows (Some ''r1'') 3
       (Some (git_at land_git [(main_ref, old_tip)])) ''peers/run/r1'' = Inr all_green" by code_simp+
  note steps = sample_land_steps [OF rd this]
  have "last_entry_sha poisoned_ledger = Inr lone_surrogate" by code_simp
  moreover have "resolve_author (git_at land_git [(main_ref, sample_sha)]) sample_sha = Inr (Some ''codex'')" by code_simp
  moreover have "compute_entry_sha zero_hash (dict_set (payload (make_entry ''landed'' ''ok'' (Some main_ref)
      (attest_witness (landed_witness sample_sha main_ref (Some ''peers/run/r1'')) sample_sha True)
      (Some ''codex'') (Some ''r1'') True)) ''prev'' lone_surrogate) = Inl UnicodeEncodeError" by code_simp
  ultimately have "\<exists>f. append_attested zero_hash (git_at land_git [(main_ref, sample_sha)]) poisoned_ledger sample_sha ''landed'' ''ok''
      (Some main_ref) (landed_witness sample_sha main_ref (Some ''peers/run/r1'')) (Some ''r1'') True = (Inl UnicodeEncodeError, f)"
    by (simp add: append_attested_def build_and_append_def Let_def)
  with steps show ?thesis by (auto simp: not_landed_def)
qed

section \<open>The tighten-only advisory\<close>

text \<open>The gate keys of a source text: lines that open with a quoted name and a colon.\<close>

definition key_char :: "char \<Rightarrow> bool" where
  "key_char c \<longleftrightarrow> is_digit c \<or> 65 \<le> byte c \<and> byte c \<le> 90 \<or> 97 \<le> byte c \<and> byte c \<le> 122
     \<or> c = CHR ''_'' \<or> c = CHR ''-''"

definition gate_key_of_line :: "string \<Rightarrow> string option" where
  "gate_key_of_line l =
     (case lstrip l of
        [] \<Rightarrow> None
      | q # r \<Rightarrow>
          (let k = takeWhile key_char r in
           if q = CHR 0x22 \<and> k \<noteq> [] \<and> startswith (dropWhile key_char r) [CHR 0x22, CHR '':''] then Some k else None))"

definition gate_keys :: "string \<Rightarrow> string list" where
  "gate_keys src = List.map_filter gate_key_of_line (split_on nl src)"

definition gate_keys_at :: "git \<Rightarrow> string \<Rightarrow> string list option res" where
  "gate_keys_at g revision =
     res_bind (g [''show'', revision @ '':src/peers/spine/gates.py''])
       (\<lambda>(rc, out). Inr (if rc \<noteq> 0 then None else Some (gate_keys out)))"

record advisory =
  ad_weakens :: bool
  ad_removed :: "string list"
  ad_reason :: string

definition undeterminable :: advisory where
  "undeterminable = \<lparr>ad_weakens = True, ad_removed = [], ad_reason = ''undeterminable''\<rparr>"

definition tighten_only_advisory :: "git \<Rightarrow> string \<Rightarrow> string \<Rightarrow> advisory" where
  "tighten_only_advisory g base head =
     (case res_bind (gate_keys_at g base) (\<lambda>b. res_bind (gate_keys_at g head) (\<lambda>a. Inr (b, a))) of
        Inl e \<Rightarrow> undeterminable
      | Inr (Some before, Some after) \<Rightarrow>
          (let removed = sorted_list_of_set (set before - set after) in
           \<lparr>ad_weakens = removed \<noteq> [], ad_removed = removed,
            ad_reason = (if removed \<noteq> [] then ''gate-removed'' else [])\<rparr>)
      | Inr _ \<Rightarrow> undeterminable)"

text \<open>
  the advisory clears a change only when the gate source could be read on both sides and every
  gate registered before is still registered; the gates it lists are exactly the removed ones.
\<close>

theorem advisory_fails_safe:
  "(\<not> ad_weakens (tighten_only_advisory g base head) \<longrightarrow>
      (\<exists>before after. gate_keys_at g base = Inr (Some before) \<and> gate_keys_at g head = Inr (Some after) \<and>
         set before \<subseteq> set after)) \<and>
   (\<forall>before after. gate_keys_at g base = Inr (Some before) \<and> gate_keys_at g head = Inr (Some after) \<longrightarrow>
      set (ad_removed (tighten_only_advisory g base head)) = set before - set after)"
  by (cases "gate_keys_at g base"; cases "gate_keys_at g head")
    (auto simp: tighten_only_advisory_def undeterminable_def Let_def
      split: option.splits)

definition sample_sources :: git where
  "sample_sources args = Inr (0, ''x'' @ [nl] @ ''  '' @ show_str ''stop-on-dry'' @ '': 1,'')"

theorem advisory_fails_safe_witness:
  "gate_keys_at sample_sources ''a'' = Inr (Some [''stop-on-dry'']) \<and>
   set (ad_removed (tighten_only_advisory sample_sources ''a'' ''b'')) = {}"
proof -
  have k: "gate_keys_at sample_sources ''a'' = Inr (Some [''stop-on-dry''])"
    "gate_keys_at sample_sources ''b'' = Inr (Some [''stop-on-dry''])" by code_simp+
  with advisory_fails_safe [of sample_sources "''a''" "''b''"] show ?thesis by auto
qed

end
