(* ===== verification/Kahn.thy ===== *)
theory Kahn
  imports Prelude
begin

text \<open>
  The topological drain of \<open>peers/fleet/program.py\<close> (check 3 of the validator): nodes of
  in-degree 0 are popped from the end of a queue, the in-degree of their successors is
  decremented, and the graph is acyclic exactly when every node was drained. The in-degrees
  and the adjacency lists are dicts; the loop needs no fuel, since each round pops one node and
  every node pushed takes a positive in-degree to 0.
\<close>

section \<open>The loop\<close>

fun relax :: "'a list \<Rightarrow> ('a \<times> int) list \<Rightarrow> 'a list \<Rightarrow> ('a \<times> int) list \<times> 'a list" where
  "relax [] indegree queue = (indegree, queue)"
| "relax (nxt # ns) indegree queue =
     (let i = lookup_default 0 indegree nxt - 1 in
      relax ns (dict_set indegree nxt i) (if i = 0 then queue @ [nxt] else queue))"

definition positives :: "('a \<times> int) list \<Rightarrow> nat" where
  "positives d = length (filter (\<lambda>(k, i). 0 < i) d)"

lemma positives_set:
  "positives (dict_set d k i) + (if 0 < lookup_default 0 d k then 1 else 0) =
   positives d + (if 0 < i then 1 else 0)"
  by (induction d k i rule: dict_set.induct) (auto simp: positives_def lookup_default_def)

lemma relax_measure:
  "relax ns d q = (d', q') \<Longrightarrow> positives d' + length q' \<le> positives d + length q"
proof (induction ns arbitrary: d q)
  case (Cons n ns)
  let ?i = "lookup_default 0 d n - 1"
  from Cons.prems have "relax ns (dict_set d n ?i) (if ?i = 0 then q @ [n] else q) = (d', q')"
    by (simp add: Let_def)
  from Cons.IH [OF this] positives_set [of d n ?i] show ?case by (auto split: if_splits)
qed simp

function kahn :: "('a \<Rightarrow> 'a list) \<Rightarrow> ('a \<times> int) list \<Rightarrow> 'a list \<Rightarrow> nat \<Rightarrow> ('a \<times> int) list \<times> nat" where
  "kahn adj indegree queue drained =
     (if queue = [] then (indegree, drained)
      else (case relax (adj (last queue)) indegree (butlast queue) of
              (indegree', queue') \<Rightarrow> kahn adj indegree' queue' (drained + 1)))"
  by pat_completeness auto
termination
  apply (relation "measure (\<lambda>(adj, d, q, n). positives d + length q)")
   apply simp
  apply clarsimp
  apply (drule sym)
  apply (drule relax_measure)
  apply (case_tac queue rule: rev_cases)
   apply auto
  done

declare kahn.simps [simp del]

section \<open>Drained means acyclic\<close>

lemma relax_effect:
  assumes "relax ns d q = (d', q')" and "\<And>v. int (count_list ns v) \<le> lookup_default 0 d v"
    and "distinct q" and "set q \<inter> set ns = {}"
  shows "(\<forall>v. lookup_default 0 d' v = lookup_default 0 d v - int (count_list ns v)) \<and>
    distinct q' \<and> set q' = set q \<union> {v \<in> set ns. lookup_default 0 d v = int (count_list ns v)}"
  using assms
proof (induction ns arbitrary: d q)
  case (Cons n ns)
  let ?i = "lookup_default 0 d n - 1"
  let ?d = "dict_set d n ?i" and ?q = "if ?i = 0 then q @ [n] else q"
  have look: "lookup_default 0 ?d v = (if v = n then ?i else lookup_default 0 d v)" for v
    by (simp add: lookup_default_def)
  have run: "relax ns ?d ?q = (d', q')" using Cons.prems(1) by (simp add: Let_def)
  have le: "int (count_list ns v) \<le> lookup_default 0 ?d v" for v
    using Cons.prems(2) [of v] look [of v] by (auto split: if_splits)
  have notin: "n \<notin> set ns" if "?i = 0"
    using that Cons.prems(2) [of n] by (simp add: count_list_0_iff [symmetric])
  have "(\<forall>v. lookup_default 0 d' v = lookup_default 0 ?d v - int (count_list ns v)) \<and>
    distinct q' \<and> set q' = set ?q \<union> {v \<in> set ns. lookup_default 0 ?d v = int (count_list ns v)}"
    using Cons.prems(3,4) notin by (intro Cons.IH [OF run le]) auto
  moreover have "set ?q \<union> {v \<in> set ns. lookup_default 0 ?d v = int (count_list ns v)} =
    set q \<union> {v \<in> set (n # ns). lookup_default 0 d v = int (count_list (n # ns) v)}"
    using notin look by (auto simp: count_list_0_iff)
  ultimately show ?case using look by auto
qed auto

text \<open>
  The loop invariant: \<open>D\<close> is the list of drained nodes in order, the in-degrees count the edges
  from nodes not yet drained, the queue is the set of undrained nodes of in-degree 0, and every
  drained node was preceded by all its predecessors.
\<close>

definition topo :: "'a set \<Rightarrow> ('a \<Rightarrow> 'a list) \<Rightarrow> 'a list \<Rightarrow> bool" where
  "topo V adj D \<longleftrightarrow> (\<forall>xs v ys. D = xs @ v # ys \<longrightarrow> (\<forall>u \<in> V. v \<in> set (adj u) \<longrightarrow> u \<in> set xs))"

definition kahn_inv :: "'a set \<Rightarrow> ('a \<Rightarrow> 'a list) \<Rightarrow> ('a \<times> int) list \<Rightarrow> 'a list \<Rightarrow> 'a list \<Rightarrow> bool" where
  "kahn_inv V adj d q D \<longleftrightarrow>
     distinct D \<and> set D \<subseteq> V \<and> distinct q \<and>
     set q = {v \<in> V - set D. lookup_default 0 d v = 0} \<and>
     (\<forall>v. lookup_default 0 d v = (\<Sum>u \<in> V - set D. int (count_list (adj u) v))) \<and>
     topo V adj D"

lemma topo_snoc:
  assumes "topo V adj D" and "\<And>u. u \<in> V \<Longrightarrow> v \<in> set (adj u) \<Longrightarrow> u \<in> set D"
  shows "topo V adj (D @ [v])"
  unfolding topo_def
proof (intro allI impI ballI)
  fix xs w ys u
  assume "D @ [v] = xs @ w # ys" and u: "u \<in> V" "w \<in> set (adj u)"
  then show "u \<in> set xs"
  proof (cases ys rule: rev_cases)
    case Nil
    with \<open>D @ [v] = xs @ w # ys\<close> u assms(2) show ?thesis by simp
  next
    case (snoc zs z)
    with \<open>D @ [v] = xs @ w # ys\<close> have "D = xs @ w # zs" by simp
    with u assms(1) show ?thesis unfolding topo_def by blast
  qed
qed

text \<open>
  One step, whichever node of the queue is taken: the stack of the validator takes the last,
  the queue of the plan parser the first.
\<close>

lemma drain_step:
  assumes "finite V" and inv: "kahn_inv V adj d q D" and adj: "\<And>u. u \<in> V \<Longrightarrow> set (adj u) \<subseteq> V"
    and nq: "n \<in> set q" and d0: "distinct q0" and qs: "set q0 = set q - {n}"
    and run: "relax (adj n) d q0 = (d', q')"
  shows "kahn_inv V adj d' q' (D @ [n])"
proof -
  from inv have qset: "set q = {v \<in> V - set D. lookup_default 0 d v = 0}" and dq: "distinct q"
    unfolding kahn_inv_def by blast+
  have n: "n \<in> V" "n \<notin> set D" "lookup_default 0 d n = 0"
    using qset nq by auto
  have deg: "lookup_default 0 d v = (\<Sum>u \<in> V - set D. int (count_list (adj u) v))" for v
    using inv unfolding kahn_inv_def by blast
  have sum: "lookup_default 0 d v = int (count_list (adj n) v) + (\<Sum>u \<in> V - set (D @ [n]). int (count_list (adj u) v))" for v
  proof -
    have "V - set D - {n} = V - set (D @ [n])" by auto
    moreover have "(\<Sum>u \<in> V - set D. int (count_list (adj u) v)) =
        int (count_list (adj n) v) + (\<Sum>u \<in> V - set D - {n}. int (count_list (adj u) v))"
      using n \<open>finite V\<close> by (intro sum.remove) auto
    ultimately show ?thesis using deg [of v] by (simp only:)
  qed
  have pos: "0 \<le> (\<Sum>u \<in> V - set (D @ [n]). int (count_list (adj u) v))" for v
    by (intro sum_nonneg) simp
  have q_zero: "v \<in> set q \<Longrightarrow> count_list (adj u) v = 0" if "u \<in> V - set D" for u v
  proof -
    assume "v \<in> set q"
    then have "lookup_default 0 d v = 0" using inv unfolding kahn_inv_def by auto
    then have "(\<Sum>u \<in> V - set D. int (count_list (adj u) v)) = 0" using deg by simp
    then show ?thesis using that \<open>finite V\<close> by (subst (asm) sum_nonneg_eq_0_iff) auto
  qed
  have eff: "(\<forall>v. lookup_default 0 d' v = lookup_default 0 d v - int (count_list (adj n) v)) \<and>
    distinct q' \<and> set q' = set q0 \<union> {v \<in> set (adj n). lookup_default 0 d v = int (count_list (adj n) v)}"
  proof (rule relax_effect [OF run])
    show "int (count_list (adj n) v) \<le> lookup_default 0 d v" for v using sum [of v] pos [of v] by simp
    show "distinct q0" by (rule d0)
    show "set q0 \<inter> set (adj n) = {}" using q_zero [of n] n qs by (fastforce simp: count_list_0_iff)
  qed
  have d': "lookup_default 0 d' v = (\<Sum>u \<in> V - set (D @ [n]). int (count_list (adj u) v))" for v
    using eff sum [of v] by simp
  have "set q' = {v \<in> V - set (D @ [n]). lookup_default 0 d' v = 0}"
  proof (intro equalityI subsetI)
    fix v assume "v \<in> set q'"
    with eff consider "v \<in> set q0" | "v \<in> set (adj n)" "lookup_default 0 d v = int (count_list (adj n) v)" by blast
    then show "v \<in> {v \<in> V - set (D @ [n]). lookup_default 0 d' v = 0}"
    proof cases
      case 1
      then have v: "v \<in> set q" "v \<noteq> n" using qs by auto
      then have "lookup_default 0 d' v = 0"
        using eff q_zero [of n v] n inv unfolding kahn_inv_def by auto
      with v inv show ?thesis unfolding kahn_inv_def by auto
    next
      case 2
      have "v \<notin> set D"
      proof
        assume "v \<in> set D"
        then obtain xs ys where "D = xs @ v # ys" by (meson split_list)
        then have "n \<in> set xs" using inv n(1) 2(1) unfolding kahn_inv_def topo_def by blast
        with \<open>D = xs @ v # ys\<close> n(2) show False by simp
      qed
      moreover have "v \<noteq> n" using 2(1) q_zero [of n n] n nq by (auto simp: count_list_0_iff)
      ultimately show ?thesis using 2 adj [OF n(1)] eff by auto
    qed
  next
    fix v assume v: "v \<in> {v \<in> V - set (D @ [n]). lookup_default 0 d' v = 0}"
    then have e: "lookup_default 0 d v = int (count_list (adj n) v)" using eff by auto
    show "v \<in> set q'"
    proof (cases "v \<in> set (adj n)")
      case False
      then have "lookup_default 0 d v = 0" using e by (simp add: count_list_0_iff)
      then have "v \<in> set q" using v inv unfolding kahn_inv_def by auto
      with v qs eff show ?thesis by auto
    qed (use e eff in auto)
  qed
  moreover have "topo V adj (D @ [n])"
  proof (rule topo_snoc)
    show "topo V adj D" using inv unfolding kahn_inv_def by blast
    fix u assume "u \<in> V" "n \<in> set (adj u)"
    then show "u \<in> set D" using q_zero [of u n] nq by (auto simp: count_list_0_iff)
  qed
  ultimately show ?thesis using inv n eff d' unfolding kahn_inv_def by auto
qed

lemma kahn_step:
  assumes "finite V" and "kahn_inv V adj d q D" and "q \<noteq> []" and "\<And>u. u \<in> V \<Longrightarrow> set (adj u) \<subseteq> V"
    and "relax (adj (last q)) d (butlast q) = (d', q')"
  shows "kahn_inv V adj d' q' (D @ [last q])"
proof (rule drain_step [OF assms(1,2,4) _ _ _ assms(5)])
  have "distinct q" using assms(2) unfolding kahn_inv_def by blast
  with assms(3) show "distinct (butlast q)" "set (butlast q) = set q - {last q}" "last q \<in> set q"
    by (cases q rule: rev_cases; auto)+
qed

lemma kahn_result:
  assumes "finite V"
  shows "(\<And>u. u \<in> V \<Longrightarrow> set (adj u) \<subseteq> V) \<Longrightarrow> kahn_inv V adj d q D \<Longrightarrow> kahn adj d q (length D) = (d', n) \<Longrightarrow>
    \<exists>D'. kahn_inv V adj d' [] D' \<and> n = length D'"
proof (induction adj d q "length D" arbitrary: D rule: kahn.induct)
  case (1 adj d q)
  show ?case
  proof (cases "q = []")
    case True
    with "1.prems" have "d' = d" "n = length D" by (simp_all add: kahn.simps [of adj d "[]"])
    with "1.prems"(2) True show ?thesis by blast
  next
    case False
    obtain d1 q1 where r: "relax (adj (last q)) d (butlast q) = (d1, q1)" by fastforce
    have "kahn adj d1 q1 (length (D @ [last q])) = (d', n)"
      using "1.prems"(3) r False by (simp add: kahn.simps [of adj d q])
    moreover have "kahn_inv V adj d1 q1 (D @ [last q])"
      by (rule kahn_step [OF assms "1.prems"(2) False "1.prems"(1) r])
    ultimately show ?thesis using "1.hyps" [OF False r [symmetric] _ "1.prems"(1), of "D @ [last q]"] by simp
  qed
qed

definition edges_of :: "'a set \<Rightarrow> ('a \<Rightarrow> 'a list) \<Rightarrow> ('a \<times> 'a) set" where
  "edges_of V adj = {(u, v). u \<in> V \<and> v \<in> set (adj u)}"

lemma takeWhile_upto: "v \<notin> set xs \<Longrightarrow> takeWhile (\<lambda>x. x \<noteq> v) (xs @ v # ys) = xs"
  by (induction xs) auto

lemma topo_acyclic:
  assumes "topo V adj D" and "set D = V" and "distinct D" and "\<And>u. u \<in> V \<Longrightarrow> set (adj u) \<subseteq> V"
  shows "acyclic (edges_of V adj)"
proof -
  define idx where "idx v = length (takeWhile (\<lambda>x. x \<noteq> v) D)" for v
  have "edges_of V adj \<subseteq> measure idx"
  proof (clarsimp simp: edges_of_def)
    fix u v assume u: "u \<in> V" "v \<in> set (adj u)"
    then have "v \<in> set D" using assms(2,4) by blast
    then obtain xs ys where D: "D = xs @ v # ys" by (meson split_list)
    with assms(1) u have "u \<in> set xs" unfolding topo_def by blast
    then obtain as bs where xs: "xs = as @ u # bs" by (meson split_list)
    have "v \<notin> set xs" "u \<notin> set as" using assms(3) D xs by auto
    then have "idx v = length xs" "idx u = length as"
      unfolding idx_def D using takeWhile_upto [of v xs ys] takeWhile_upto [of u as "bs @ v # ys"] xs by simp_all
    then show "idx u < idx v" using xs by simp
  qed
  then show ?thesis by (meson acyclic_subset wf_acyclic wf_measure)
qed

lemma drained_all_iff:
  assumes "finite V" and "\<And>u. u \<in> V \<Longrightarrow> set (adj u) \<subseteq> V" and "kahn_inv V adj d [] D"
  shows "length D = card V \<longleftrightarrow> acyclic (edges_of V adj)"
proof
  assume "length D = card V"
  then have "set D = V" using assms(1,3) unfolding kahn_inv_def by (metis card_subset_eq distinct_card)
  with assms show "acyclic (edges_of V adj)" using topo_acyclic unfolding kahn_inv_def by blast
next
  assume ac: "acyclic (edges_of V adj)"
  have "edges_of V adj \<subseteq> V \<times> V" using assms(2) by (auto simp: edges_of_def)
  then have wf: "wf (edges_of V adj)"
    using assms(1) ac by (meson finite_SigmaI finite_acyclic_wf finite_subset)
  have "V - set D = {}"
  proof (rule ccontr)
    assume "V - set D \<noteq> {}"
    then obtain v where v: "v \<in> V - set D" and min: "\<And>u. (u, v) \<in> edges_of V adj \<Longrightarrow> u \<notin> V - set D"
      using wf wfE_min [of "edges_of V adj" _ "V - set D"] by (metis equals0I)
    have "lookup_default 0 d v = (\<Sum>u \<in> V - set D. int (count_list (adj u) v))" "lookup_default 0 d v \<noteq> 0"
      using assms(3) v unfolding kahn_inv_def by auto
    then obtain u where "u \<in> V - set D" "count_list (adj u) v \<noteq> 0"
      by (metis (no_types, lifting) of_nat_0 sum.neutral)
    with min [of u] show False by (auto simp: edges_of_def count_list_0_iff)
  qed
  then have "set D = V" using assms(3) unfolding kahn_inv_def by blast
  then show "length D = card V" using assms(3) unfolding kahn_inv_def by (metis distinct_card)
qed

text \<open>The answer of the loop, from in-degrees that count the edges and the queue of the sources.\<close>

theorem kahn_correct:
  assumes "finite V" and "\<And>u. u \<in> V \<Longrightarrow> set (adj u) \<subseteq> V"
    and "\<And>v. lookup_default 0 d v = (\<Sum>u \<in> V. int (count_list (adj u) v))"
    and "distinct q" and "set q = {v \<in> V. lookup_default 0 d v = 0}"
    and "kahn adj d q 0 = (d', n)"
  shows "n = card V \<longleftrightarrow> acyclic (edges_of V adj)"
proof -
  have inv: "kahn_inv V adj d q []" using assms by (auto simp: kahn_inv_def topo_def)
  have "kahn adj d q (length []) = (d', n)" using assms(6) by simp
  from kahn_result [OF assms(1) assms(2) inv this] obtain D where
    D: "kahn_inv V adj d' [] D" "n = length D" by auto
  show ?thesis unfolding D(2) by (rule drained_all_iff [OF assms(1) assms(2) D(1)])
qed

section \<open>The queue of the plan parser\<close>

text \<open>The same loop with \<open>popleft\<close>; it only counts the nodes visited and keeps the in-degrees.\<close>

function drain :: "('a \<Rightarrow> 'a list) \<Rightarrow> ('a \<times> int) list \<Rightarrow> 'a list \<Rightarrow> nat \<Rightarrow> ('a \<times> int) list \<times> nat" where
  "drain adj indegree [] visited = (indegree, visited)"
| "drain adj indegree (sid # queue) visited =
     (case relax (adj sid) indegree queue of
        (indegree', queue') \<Rightarrow> drain adj indegree' queue' (visited + 1))"
  by pat_completeness auto
termination
  apply (relation "measure (\<lambda>(adj, d, q, n). positives d + length q)")
   apply simp
  apply clarsimp
  apply (drule sym)
  apply (drule relax_measure)
  apply simp
  done

declare drain.simps [simp del]

lemma drain_result:
  assumes "finite V"
  shows "(\<And>u. u \<in> V \<Longrightarrow> set (adj u) \<subseteq> V) \<Longrightarrow> kahn_inv V adj d q D \<Longrightarrow> drain adj d q (length D) = (d', n) \<Longrightarrow>
    \<exists>D'. kahn_inv V adj d' [] D' \<and> n = length D'"
proof (induction adj d q "length D" arbitrary: D rule: drain.induct)
  case (1 adj d)
  then have "d' = d" "n = length D" by (simp_all add: drain.simps)
  with "1.prems"(2) show ?case by blast
next
  case (2 adj d sid q)
  obtain d1 q1 where r: "relax (adj sid) d q = (d1, q1)" by fastforce
  have "drain adj d1 q1 (length (D @ [sid])) = (d', n)"
    using "2.prems"(3) r by (simp add: drain.simps)
  moreover have "kahn_inv V adj d1 q1 (D @ [sid])"
  proof (rule drain_step [OF assms "2.prems"(2,1) _ _ _ r])
    have "distinct (sid # q)" using "2.prems"(2) unfolding kahn_inv_def by blast
    then show "distinct q" "set q = set (sid # q) - {sid}" by auto
    show "sid \<in> set (sid # q)" unfolding list.set by (rule insertI1)
  qed
  ultimately show ?case using "2.hyps" [OF r [symmetric] _ "2.prems"(1), of "D @ [sid]"] by simp
qed

theorem drain_correct:
  assumes "finite V" and "\<And>u. u \<in> V \<Longrightarrow> set (adj u) \<subseteq> V"
    and "\<And>v. lookup_default 0 d v = (\<Sum>u \<in> V. int (count_list (adj u) v))"
    and "distinct q" and "set q = {v \<in> V. lookup_default 0 d v = 0}"
    and "drain adj d q 0 = (d', n)"
  shows "n = card V \<longleftrightarrow> acyclic (edges_of V adj)"
proof -
  have inv: "kahn_inv V adj d q []" using assms by (auto simp: kahn_inv_def topo_def)
  have "drain adj d q (length []) = (d', n)" using assms(6) by simp
  from drain_result [OF assms(1) assms(2) inv this] obtain D where
    D: "kahn_inv V adj d' [] D" "n = length D" by auto
  show ?thesis unfolding D(2) by (rule drained_all_iff [OF assms(1) assms(2) D(1)])
qed

end
