(* ===== verification/Program.thy ===== *)
theory Program
  imports Kahn OpConfig
begin

text \<open>
  The fleet's program and its validator: \<open>peers/fleet/program.py\<close>, with \<open>workspace_names\<close> of
  \<open>peers/spine/worktree.py\<close>. What the validator asks of the machine is the record \<open>machine\<close>:
  whether a path is a directory, the path it resolves to, and the exit of
  \<open>git rev-parse --git-dir\<close> there. Python iterates the set of known ids in some order; the model
  takes the order in which the ids were recorded, and the theorem shows that the verdict only
  depends on the graph.
\<close>

section \<open>Run names\<close>

definition run_branch_prefix :: string where
  "run_branch_prefix = ''peers/run/''"

definition single_path_component :: "string \<Rightarrow> bool" where
  "single_path_component name \<longleftrightarrow>
     name \<noteq> [] \<and> name \<noteq> ''.'' \<and> name \<noteq> ''..'' \<and> CHR ''/'' \<notin> set name"

definition workspace_names :: "string \<Rightarrow> string \<Rightarrow> (string \<times> string) res" where
  "workspace_names base_root run_id =
     (if \<not> single_path_component run_id then Inl ValueError
      else if run_id \<in> {''.'', ''..''} \<or> CHR ''/'' \<in> set run_id \<or> CHR 0x5C \<in> set run_id then Inl ValueError
      else Inr (base_root @ ''/'' @ run_id, run_branch_prefix @ run_id))"

definition safe_run_id :: "string \<Rightarrow> bool" where
  "safe_run_id rid \<longleftrightarrow> rid \<noteq> [] \<and> rid \<noteq> ''.'' \<and> rid \<noteq> ''..'' \<and> CHR ''/'' \<notin> set rid \<and> CHR 0x5C \<notin> set rid"

lemma workspace_names_Inr:
  "workspace_names base rid = Inr (w, b) \<longleftrightarrow>
     safe_run_id rid \<and> w = base @ ''/'' @ rid \<and> b = run_branch_prefix @ rid"
  by (auto simp: workspace_names_def single_path_component_def safe_run_id_def)

lemma workspace_names_Inl: "workspace_names base rid = Inl e \<longleftrightarrow> \<not> safe_run_id rid \<and> e = ValueError"
  by (auto simp: workspace_names_def single_path_component_def safe_run_id_def)

section \<open>Programs\<close>

definition mode_artifacts :: "(string \<times> string) list" where
  "mode_artifacts =
     [(''develop'', ''git-sha''), (''research'', ''file''), (''find-bugs:reproduce'', ''finding''),
      (''bring-up'', ''git-sha'')]"

definition propagatable_artifact :: string where
  "propagatable_artifact = ''git-sha''"

definition artifact_of :: "string \<Rightarrow> string option" where
  "artifact_of mode = map_of mode_artifacts mode"

record spec =
  sp_tool :: string
  sp_mode :: string
  sp_op_config :: "op_config option"
  sp_run_id :: string
  sp_depends_on :: "string list"
  sp_affinity :: "string option"
  sp_writable :: bool
  sp_requires_artifact :: "string option"

definition spec_branch :: "spec \<Rightarrow> string option res" where
  "spec_branch s =
     (if \<not> sp_writable s then Inr None
      else res_bind (workspace_names ''/'' (sp_run_id s)) (\<lambda>(_, b). Inr (Some b)))"

record machine =
  ma_is_dir :: "string \<Rightarrow> bool"
  ma_resolve :: "string \<Rightarrow> string"
  ma_git_dir :: "string \<Rightarrow> proc res"

definition is_git_repo :: "machine \<Rightarrow> string \<Rightarrow> bool res" where
  "is_git_repo m path =
     (case ma_git_dir m path of
        Inl e \<Rightarrow> if e = OSError \<or> e = TimeoutExpired then Inr False else Inl e
      | Inr (rc, _) \<Rightarrow> Inr (rc = 0))"

section \<open>The validator\<close>

datatype program_error =
    UnknownMode string string
  | ModeDisagrees string "string option" string
  | EmptyRunId
  | UnsafeRunId string
  | DuplicateRunId string
  | UnknownDep string string
  | CycleAmong "string list"
  | MissingToolRoot string string
  | NotGitRepo string string
  | BranchCollision string string "string list"
  | CannotEmit string string

text \<open>Check 0.\<close>

definition mode_errors :: "spec \<Rightarrow> program_error list" where
  "mode_errors s =
     (if sp_mode s \<notin> set allowed_modes then [UnknownMode (sp_mode s) (sp_run_id s)] else []) @
     (let oc = map_option oc_mode (sp_op_config s) in
      if oc \<noteq> Some (sp_mode s) then [ModeDisagrees (sp_mode s) oc (sp_run_id s)] else [])"

text \<open>Check 1: the errors and the map from ids to specs; the first spec of an id wins.\<close>

fun collect_ids :: "spec list \<Rightarrow> (string \<times> spec) list \<Rightarrow> program_error list \<times> (string \<times> spec) list" where
  "collect_ids [] idm = ([], idm)"
| "collect_ids (s # ss) idm =
     (let rid = sp_run_id s in
      if rid = [] then (case collect_ids ss idm of (es, m) \<Rightarrow> (EmptyRunId # es, m))
      else (case workspace_names ''/'' rid of
          Inl _ \<Rightarrow> (case collect_ids ss idm of (es, m) \<Rightarrow> (UnsafeRunId rid # es, m))
        | Inr _ \<Rightarrow>
            if map_of idm rid \<noteq> None then (case collect_ids ss idm of (es, m) \<Rightarrow> (DuplicateRunId rid # es, m))
            else collect_ids ss (dict_set idm rid s)))"

text \<open>Check 2.\<close>

definition dep_errors :: "string list \<Rightarrow> spec \<Rightarrow> program_error list" where
  "dep_errors known s =
     (if sp_run_id s = [] then []
      else map (\<lambda>dep. UnknownDep dep (sp_run_id s)) (filter (\<lambda>dep. dep \<notin> set known) (sp_depends_on s)))"

text \<open>Check 3: the pairs of the nested loop, the two dicts, and the drain.\<close>

definition dep_edges :: "(string \<times> spec) list \<Rightarrow> (string \<times> string) list" where
  "dep_edges idm =
     concat (map (\<lambda>(rid, s). map (\<lambda>dep. (dep, rid)) (filter (\<lambda>dep. dep \<in> fst ` set idm) (sp_depends_on s))) idm)"

fun build_graph ::
  "(string \<times> string) list \<Rightarrow> (string \<times> string list) list \<Rightarrow> (string \<times> int) list
   \<Rightarrow> (string \<times> string list) list \<times> (string \<times> int) list" where
  "build_graph [] adj indegree = (adj, indegree)"
| "build_graph ((dep, rid) # es) adj indegree =
     build_graph es (dict_append adj dep rid) (dict_set indegree rid (lookup_default 0 indegree rid + 1))"

definition cycle_errors :: "(string \<times> spec) list \<Rightarrow> program_error list" where
  "cycle_errors idm =
     (let known = map fst idm;
          (adj, indegree) = build_graph (dep_edges idm) (map (\<lambda>rid. (rid, [])) known) (map (\<lambda>rid. (rid, 0)) known);
          (indegree', drained) =
            kahn (lookup_default [] adj) indegree (filter (\<lambda>rid. lookup_default 0 indegree rid = 0) known) 0
      in if drained \<noteq> length known
         then [CycleAmong (sort (filter (\<lambda>rid. 0 < lookup_default 0 indegree' rid) known))] else [])"

text \<open>Check 4.\<close>

definition tool_errors :: "machine \<Rightarrow> spec \<Rightarrow> program_error list res" where
  "tool_errors m s =
     (if \<not> ma_is_dir m (sp_tool s) then Inr [MissingToolRoot (sp_tool s) (sp_run_id s)]
      else res_bind (is_git_repo m (ma_resolve m (sp_tool s))) (\<lambda>b.
        Inr (if b then [] else [NotGitRepo (sp_tool s) (sp_run_id s)])))"

text \<open>Check 5.\<close>

fun group_branches ::
  "machine \<Rightarrow> spec list \<Rightarrow> ((string \<times> string) \<times> string list) list \<Rightarrow> ((string \<times> string) \<times> string list) list" where
  "group_branches m [] groups = groups"
| "group_branches m (s # ss) groups =
     (if \<not> sp_writable s \<or> sp_run_id s = [] then group_branches m ss groups
      else (case workspace_names ''/'' (sp_run_id s) of
          Inl _ \<Rightarrow> group_branches m ss groups
        | Inr (_, b) \<Rightarrow> group_branches m ss (dict_append groups (ma_resolve m (sp_tool s), b) (sp_run_id s))))"

definition collision_errors :: "machine \<Rightarrow> spec list \<Rightarrow> program_error list" where
  "collision_errors m specs =
     map (\<lambda>((tool, b), ids). BranchCollision b tool ids)
       (filter (\<lambda>(_, ids). 2 \<le> length ids) (group_branches m specs []))"

text \<open>Check 6.\<close>

definition cross_tool :: "machine \<Rightarrow> spec \<Rightarrow> spec \<Rightarrow> bool" where
  "cross_tool m s p \<longleftrightarrow> ma_resolve m (sp_tool s) \<noteq> ma_resolve m (sp_tool p)"

definition can_emit :: "spec \<Rightarrow> spec \<Rightarrow> bool" where
  "can_emit s p \<longleftrightarrow>
     artifact_of (sp_mode p) = Some propagatable_artifact \<and>
     (sp_requires_artifact s = None \<or> sp_requires_artifact s = artifact_of (sp_mode p))"

definition artifact_errors :: "machine \<Rightarrow> (string \<times> spec) list \<Rightarrow> spec \<Rightarrow> program_error list" where
  "artifact_errors m idm s =
     (if sp_run_id s = [] then []
      else concat (map (\<lambda>dep. case map_of idm dep of
               None \<Rightarrow> []
             | Some p \<Rightarrow> if cross_tool m s p \<and> \<not> can_emit s p then [CannotEmit dep (sp_run_id s)] else [])
             (sp_depends_on s)))"

definition validate_program :: "machine \<Rightarrow> spec list \<Rightarrow> (bool \<times> program_error list) res" where
  "validate_program m specs =
     (let (id_errors, idm) = collect_ids specs [] in
      res_bind (res_map (tool_errors m) specs) (\<lambda>tools.
        let errors = concat (map mode_errors specs) @ id_errors @
              concat (map (dep_errors (map fst idm)) specs) @ cycle_errors idm @ concat tools @
              collision_errors m specs @ concat (map (artifact_errors m idm) specs)
        in Inr (errors = [], errors)))"

section \<open>What the validator accepts\<close>

definition dep_relation :: "spec list \<Rightarrow> (string \<times> string) set" where
  "dep_relation specs = {(dep, sp_run_id s) | dep s. s \<in> set specs \<and> dep \<in> set (sp_depends_on s)}"

definition valid_spec :: "machine \<Rightarrow> spec list \<Rightarrow> spec \<Rightarrow> bool" where
  "valid_spec m specs s \<longleftrightarrow>
     sp_mode s \<in> set allowed_modes \<and> map_option oc_mode (sp_op_config s) = Some (sp_mode s) \<and>
     safe_run_id (sp_run_id s) \<and> set (sp_depends_on s) \<subseteq> sp_run_id ` set specs \<and>
     ma_is_dir m (sp_tool s) \<and> is_git_repo m (ma_resolve m (sp_tool s)) = Inr True \<and>
     (\<forall>p \<in> set specs. sp_run_id p \<in> set (sp_depends_on s) \<and> cross_tool m s p \<longrightarrow> can_emit s p)"

definition valid_program :: "machine \<Rightarrow> spec list \<Rightarrow> bool" where
  "valid_program m specs \<longleftrightarrow>
     distinct (map sp_run_id specs) \<and> (\<forall>s \<in> set specs. valid_spec m specs s) \<and> acyclic (dep_relation specs)"

lemma collect_ids_ok:
  "fst (collect_ids ss idm) = [] \<longleftrightarrow>
     (\<forall>s \<in> set ss. safe_run_id (sp_run_id s)) \<and> distinct (map sp_run_id ss) \<and>
     (\<forall>s \<in> set ss. map_of idm (sp_run_id s) = None)"
proof (induction ss idm rule: collect_ids.induct)
  case (2 s ss idm)
  show ?case
  proof (cases "safe_run_id (sp_run_id s) \<and> map_of idm (sp_run_id s) = None")
    case True
    then obtain b where w: "workspace_names ''/'' (sp_run_id s) = Inr b"
      by (cases "workspace_names ''/'' (sp_run_id s)") (auto simp: workspace_names_Inl)
    have "sp_run_id s \<noteq> []" using True by (simp add: safe_run_id_def)
    with 2(4) [OF refl _ w] w True show ?thesis by (auto simp: Let_def image_iff)
  next
    case False
    then consider "sp_run_id s = []" | "sp_run_id s \<noteq> []" "\<not> safe_run_id (sp_run_id s)"
      | "sp_run_id s \<noteq> []" "safe_run_id (sp_run_id s)" "map_of idm (sp_run_id s) \<noteq> None" by metis
    then have "fst (collect_ids (s # ss) idm) \<noteq> []"
    proof cases
      case 2
      then have "workspace_names ''/'' (sp_run_id s) = Inl ValueError" by (simp add: workspace_names_Inl)
      with 2 show ?thesis by (simp add: Let_def split: prod.splits)
    next
      case 3
      then obtain b where "workspace_names ''/'' (sp_run_id s) = Inr b"
        by (cases "workspace_names ''/'' (sp_run_id s)") (auto simp: workspace_names_Inl)
      with 3 show ?thesis by (auto simp: Let_def split: prod.splits)
    qed (simp add: Let_def split: prod.splits)
    with False show ?thesis by (simp del: collect_ids.simps)
  qed
qed simp

lemma collect_ids_map:
  "fst (collect_ids ss idm) = [] \<Longrightarrow> snd (collect_ids ss idm) = idm @ map (\<lambda>s. (sp_run_id s, s)) ss"
proof (induction ss idm rule: collect_ids.induct)
  case (2 s ss idm)
  from "2.prems" have ok: "safe_run_id (sp_run_id s)" "map_of idm (sp_run_id s) = None"
    unfolding collect_ids_ok by auto
  then obtain b where w: "workspace_names ''/'' (sp_run_id s) = Inr b"
    by (cases "workspace_names ''/'' (sp_run_id s)") (auto simp: workspace_names_Inl)
  have ne: "sp_run_id s \<noteq> []" using ok by (simp add: safe_run_id_def)
  have "dict_set idm (sp_run_id s) s = idm @ [(sp_run_id s, s)]"
    using ok(2) by (intro dict_set_new) (auto simp: map_of_eq_None_iff)
  with 2(4) [OF refl ne w] w ok ne "2.prems" show ?case by (auto simp: Let_def)
qed simp

lemma build_graph_effect:
  "build_graph es adj ind = (adj', ind') \<Longrightarrow>
     lookup_default [] adj' u = lookup_default [] adj u @ map snd (filter (\<lambda>e. fst e = u) es) \<and>
     lookup_default 0 ind' v = lookup_default 0 ind v + int (length (filter (\<lambda>e. snd e = v) es))"
proof (induction es adj ind rule: build_graph.induct)
  case (2 dep rid es adj ind)
  then show ?case by (auto simp: dict_append_def lookup_default_def)
qed simp

lemma sum_edges:
  assumes "finite V"
  shows "fst ` set es \<subseteq> V \<Longrightarrow>
    (\<Sum>u \<in> V. int (count_list (map snd (filter (\<lambda>e. fst e = u) es)) v)) = int (length (filter (\<lambda>e. snd e = v) es))"
proof (induction es)
  case (Cons e es)
  have "(\<Sum>u \<in> V. int (count_list (map snd (filter (\<lambda>e. fst e = u) (e # es))) v)) =
    (\<Sum>u \<in> V. (if u = fst e then (if snd e = v then 1 else 0) else 0)) +
    (\<Sum>u \<in> V. int (count_list (map snd (filter (\<lambda>e. fst e = u) es)) v))"
    unfolding sum.distrib [symmetric] by (intro sum.cong) auto
  with Cons assms show ?case by simp
qed simp

lemma cycle_errors_ok:
  assumes "distinct (map fst idm)"
  shows "cycle_errors idm = [] \<longleftrightarrow> acyclic (set (dep_edges idm))"
proof -
  let ?known = "map fst idm" and ?V = "fst ` set idm" and ?es = "dep_edges idm"
  obtain adj ind where g: "build_graph ?es (map (\<lambda>rid. (rid, [])) ?known) (map (\<lambda>rid. (rid, 0)) ?known) = (adj, ind)"
    by fastforce
  have zero: "lookup_default [] (map (\<lambda>rid. (rid, [])) ?known) u = []" "lookup_default 0 (map (\<lambda>rid. (rid, 0)) ?known) v = (0 :: int)" for u v
    by (auto simp: lookup_default_def split: option.splits dest!: map_of_SomeD)
  have adj: "lookup_default [] adj u = map snd (filter (\<lambda>e. fst e = u) ?es)"
    and ind: "lookup_default 0 ind v = int (length (filter (\<lambda>e. snd e = v) ?es))" for u v
    using build_graph_effect [OF g, of u v] zero by auto
  obtain ind' n where k: "kahn (lookup_default [] adj) ind (filter (\<lambda>rid. lookup_default 0 ind rid = 0) ?known) 0 = (ind', n)"
    by fastforce
  have ends: "fst ` set ?es \<subseteq> ?V" "snd ` set ?es \<subseteq> ?V" by (force simp: dep_edges_def)+
  have "n = card ?V \<longleftrightarrow> acyclic (edges_of ?V (lookup_default [] adj))"
  proof (rule kahn_correct [OF _ _ _ _ _ k])
    show "lookup_default 0 ind v = (\<Sum>u \<in> ?V. int (count_list (lookup_default [] adj u) v))" for v
      using sum_edges [OF _ ends(1), of v] by (simp add: adj ind)
    show "set (lookup_default [] adj u) \<subseteq> ?V" for u using ends(2) by (auto simp: adj)
    show "distinct (filter (\<lambda>rid. lookup_default 0 ind rid = 0) ?known)" using assms by (rule distinct_filter)
  qed auto
  moreover have "edges_of ?V (lookup_default [] adj) = set ?es"
  proof -
    have "v \<in> set (lookup_default [] adj u) \<longleftrightarrow> (u, v) \<in> set ?es" for u v
      unfolding adj by force
    moreover have "(u, v) \<in> set ?es \<Longrightarrow> u \<in> ?V" for u v using ends(1) by (metis fst_conv image_subset_iff)
    ultimately show ?thesis unfolding edges_of_def by (intro set_eqI) (auto simp del: image_iff)
  qed
  moreover have "card ?V = length ?known" using assms distinct_card [of ?known] by simp
  ultimately show ?thesis using g k by (simp add: cycle_errors_def Let_def split: if_splits)
qed

lemma dict_set_members: "x \<in> set (dict_set d k v) \<Longrightarrow> x \<in> set d \<or> x = (k, v)"
  by (induction d k v rule: dict_set.induct) (auto split: if_splits)

definition single_groups :: "string set \<Rightarrow> ((string \<times> string) \<times> string list) list \<Rightarrow> bool" where
  "single_groups S groups \<longleftrightarrow>
     (\<forall>t b ids. ((t, b), ids) \<in> set groups \<longrightarrow>
        length ids \<le> 1 \<and> (\<forall>i \<in> set ids. b = run_branch_prefix @ i \<and> i \<notin> S))"

lemma single_groups_add:
  assumes "single_groups (insert rid S) groups" and "rid \<notin> S"
  shows "single_groups S (dict_append groups (t, run_branch_prefix @ rid) rid)"
proof -
  let ?key = "(t, run_branch_prefix @ rid)"
  have "lookup_default [] groups ?key = []"
  proof (cases "map_of groups ?key")
    case (Some ids)
    then have "(?key, ids) \<in> set groups" by (rule map_of_SomeD)
    with assms(1) have "\<forall>i \<in> set ids. run_branch_prefix @ rid = run_branch_prefix @ i \<and> i \<noteq> rid"
      unfolding single_groups_def by blast
    with Some show ?thesis by (cases ids) (auto simp: lookup_default_def)
  qed (simp add: lookup_default_def)
  then have "dict_append groups ?key rid = dict_set groups ?key [rid]" by (simp add: dict_append_def)
  with assms show ?thesis
    unfolding single_groups_def by (fastforce dest!: dict_set_members)
qed

lemma single_groups_mono: "single_groups (insert r S) groups \<Longrightarrow> single_groups S groups"
  unfolding single_groups_def by blast

lemma group_branches_single:
  "single_groups (sp_run_id ` set ss) groups \<Longrightarrow> distinct (map sp_run_id ss) \<Longrightarrow>
   single_groups {} (group_branches m ss groups)"
proof (induction m ss groups rule: group_branches.induct)
  case (2 m s ss groups)
  have less: "single_groups (sp_run_id ` set ss) groups"
    using "2.prems"(1) single_groups_mono [of "sp_run_id s"] by simp
  show ?case
  proof (cases "\<not> sp_writable s \<or> sp_run_id s = []")
    case True
    with 2 less show ?thesis by simp
  next
    case False
    show ?thesis
    proof (cases "workspace_names ''/'' (sp_run_id s)")
      case (Inl e)
      with False 2 less show ?thesis by simp
    next
      case (Inr wb)
      obtain w b where wb: "wb = (w, b)" by (cases wb)
      with Inr have b: "b = run_branch_prefix @ sp_run_id s" by (simp add: workspace_names_Inr)
      have "single_groups (sp_run_id ` set ss)
          (dict_append groups (ma_resolve m (sp_tool s), run_branch_prefix @ sp_run_id s) (sp_run_id s))"
        using "2.prems" by (intro single_groups_add) simp_all
      with "2.IH"(3) [OF False Inr wb [symmetric]] "2.prems"(2) False Inr wb b show ?thesis by simp
    qed
  qed
qed (simp add: single_groups_def)

lemma collision_errors_ok: "distinct (map sp_run_id specs) \<Longrightarrow> collision_errors m specs = []"
  using group_branches_single [of specs "[]" m]
  by (fastforce simp: collision_errors_def filter_empty_conv single_groups_def)

lemma tool_errors_ok:
  "tool_errors m s = Inr [] \<longleftrightarrow> ma_is_dir m (sp_tool s) \<and> is_git_repo m (ma_resolve m (sp_tool s)) = Inr True"
  by (auto simp: tool_errors_def res_bind_Inr_iff split: if_splits)

lemma res_map_all_nil: "res_map f xs = Inr ys \<Longrightarrow> concat ys = [] \<longleftrightarrow> (\<forall>x \<in> set xs. f x = Inr [])"
  by (induction xs arbitrary: ys) (auto simp: res_bind_Inr_iff)

text \<open>With distinct ids the recorded map is every spec under its id.\<close>

definition id_map :: "spec list \<Rightarrow> (string \<times> spec) list" where
  "id_map specs = map (\<lambda>s. (sp_run_id s, s)) specs"

lemma id_map_keys [simp]: "map fst (id_map specs) = map sp_run_id specs" "fst ` set (id_map specs) = sp_run_id ` set specs"
  by (auto simp: id_map_def image_image)

lemma map_of_id_map:
  "distinct (map sp_run_id specs) \<Longrightarrow> map_of (id_map specs) dep = Some p \<longleftrightarrow> p \<in> set specs \<and> sp_run_id p = dep"
  unfolding id_map_def by (subst map_of_eq_Some_iff) (auto simp: comp_def)

lemma mode_errors_ok:
  "mode_errors s = [] \<longleftrightarrow> sp_mode s \<in> set allowed_modes \<and> map_option oc_mode (sp_op_config s) = Some (sp_mode s)"
  by (auto simp: mode_errors_def Let_def)

lemma dep_errors_ok:
  "sp_run_id s \<noteq> [] \<Longrightarrow> dep_errors known s = [] \<longleftrightarrow> set (sp_depends_on s) \<subseteq> set known"
  by (auto simp: dep_errors_def filter_empty_conv)

lemma cycle_errors_relation:
  assumes d: "distinct (map sp_run_id specs)"
    and deps: "\<forall>s \<in> set specs. set (sp_depends_on s) \<subseteq> sp_run_id ` set specs"
  shows "cycle_errors (id_map specs) = [] \<longleftrightarrow> acyclic (dep_relation specs)"
proof -
  have "set (dep_edges (id_map specs)) = dep_relation specs"
    using deps by (force simp: dep_edges_def dep_relation_def id_map_def image_image)
  then show ?thesis using cycle_errors_ok [of "id_map specs"] d by simp
qed

lemma artifact_errors_ok:
  assumes "distinct (map sp_run_id specs)" "sp_run_id s \<noteq> []"
  shows "artifact_errors m (id_map specs) s = [] \<longleftrightarrow>
    (\<forall>p \<in> set specs. sp_run_id p \<in> set (sp_depends_on s) \<and> cross_tool m s p \<longrightarrow> can_emit s p)"
proof -
  have "artifact_errors m (id_map specs) s = [] \<longleftrightarrow>
      (\<forall>dep \<in> set (sp_depends_on s). \<forall>p. map_of (id_map specs) dep = Some p \<longrightarrow> cross_tool m s p \<longrightarrow> can_emit s p)"
    using assms(2) by (auto simp: artifact_errors_def split: option.splits)
  then show ?thesis unfolding map_of_id_map [OF assms(1)] by blast
qed

lemma validate_program_valid:
  assumes "validate_program m specs = Inr (ok, errors)"
  shows "ok = valid_program m specs \<and> (ok \<longleftrightarrow> errors = [])"
proof -
  let ?c = "collect_ids specs []"
  from assms obtain tools where tools: "res_map (tool_errors m) specs = Inr tools"
    and ok: "ok \<longleftrightarrow> errors = []" and errors: "errors = concat (map mode_errors specs) @ fst ?c @
        concat (map (dep_errors (map fst (snd ?c))) specs) @ cycle_errors (snd ?c) @ concat tools @
        collision_errors m specs @ concat (map (artifact_errors m (snd ?c)) specs)"
    by (auto simp: validate_program_def Let_def res_bind_Inr_iff split: prod.splits)
  have "errors = [] \<longleftrightarrow> valid_program m specs"
  proof (cases "fst ?c = []")
    case False
    then have "\<not> (distinct (map sp_run_id specs) \<and> (\<forall>s \<in> set specs. safe_run_id (sp_run_id s)))"
      unfolding collect_ids_ok by auto
    with False errors show ?thesis by (auto simp: valid_program_def valid_spec_def)
  next
    case True
    have idm: "snd ?c = id_map specs" using collect_ids_map [OF True] by (simp add: id_map_def)
    from True have d: "distinct (map sp_run_id specs)" and safe: "\<forall>s \<in> set specs. safe_run_id (sp_run_id s)"
      unfolding collect_ids_ok by auto
    have ne: "s \<in> set specs \<Longrightarrow> sp_run_id s \<noteq> []" for s using safe by (auto simp: safe_run_id_def)
    have deps: "concat (map (dep_errors (map fst (id_map specs))) specs) = [] \<longleftrightarrow>
        (\<forall>s \<in> set specs. set (sp_depends_on s) \<subseteq> sp_run_id ` set specs)"
      using ne by (simp add: dep_errors_ok)
    have arts: "concat (map (artifact_errors m (id_map specs)) specs) = [] \<longleftrightarrow> (\<forall>s \<in> set specs. \<forall>p \<in> set specs.
        sp_run_id p \<in> set (sp_depends_on s) \<and> cross_tool m s p \<longrightarrow> can_emit s p)"
      using ne by (simp add: artifact_errors_ok [OF d])
    have roots: "concat tools = [] \<longleftrightarrow> (\<forall>s \<in> set specs. ma_is_dir m (sp_tool s) \<and>
        is_git_repo m (ma_resolve m (sp_tool s)) = Inr True)"
      using res_map_all_nil [OF tools] by (simp add: tool_errors_ok)
    show ?thesis
      unfolding errors append_is_Nil_conv idm roots deps arts collision_errors_ok [OF d]
      using True d safe by (auto simp: cycle_errors_relation mode_errors_ok valid_program_def valid_spec_def)
  qed
  with ok show ?thesis by simp
qed

text \<open>
  C22: the verdict of the validator is exact: when its probes of the tool roots return, it accepts a
  program if and only if every spec has a known mode that its op-config agrees with, a safe id no
  other spec has, dependencies that exist, a tool that is a git repository, and can consume what
  its cross-tool producers emit, and the dependency relation has no cycle.
\<close>

theorem validate_program_exact:
  assumes "validate_program m specs = Inr (ok, errors)"
  shows "ok = valid_program m specs \<and> (ok \<longleftrightarrow> errors = [])"
  by (rule validate_program_valid [OF assms])

definition sample_machine :: machine where
  "sample_machine = \<lparr>ma_is_dir = \<lambda>p. True, ma_resolve = \<lambda>p. p, ma_git_dir = \<lambda>p. Inr (0, [])\<rparr>"

definition sample_spec :: "string \<Rightarrow> string list \<Rightarrow> spec" where
  "sample_spec rid deps = \<lparr>sp_tool = ''/tool'', sp_mode = ''develop'', sp_op_config = Some sample_config,
     sp_run_id = rid, sp_depends_on = deps, sp_affinity = None, sp_writable = True, sp_requires_artifact = None\<rparr>"

lemma sample_valid: "validate_program sample_machine [sample_spec ''a'' [], sample_spec ''b'' [''a'']] = Inr (True, [])"
  by code_simp

theorem validate_program_exact_witness:
  "valid_program sample_machine [sample_spec ''a'' [], sample_spec ''b'' [''a'']]"
  using validate_program_exact [OF sample_valid] by simp

end
