(* ===== verification/Effects.thy ===== *)
theory Effects
  imports Prelude
begin

text \<open>
  State and exceptions: the shape of every method that reads and writes the state of its
  component and may raise. What a method wrote before it raised stays written, as in Python.
\<close>

type_synonym ('s, 'a) act = "'s \<Rightarrow> 'a res \<times> 's"

definition ret :: "'a \<Rightarrow> ('s, 'a) act" where
  "ret a s = (Inr a, s)"

definition raise_exc :: "pyexc \<Rightarrow> ('s, 'a) act" where
  "raise_exc e s = (Inl e, s)"

definition act_bind :: "('s, 'a) act \<Rightarrow> ('a \<Rightarrow> ('s, 'b) act) \<Rightarrow> ('s, 'b) act" where
  "act_bind m k s = (case m s of (Inl e, s') \<Rightarrow> (Inl e, s') | (Inr a, s') \<Rightarrow> k a s')"

definition act_res :: "'a res \<Rightarrow> ('s, 'a) act" where
  "act_res r s = (r, s)"

text \<open>\<open>try\<close>: the outcome as a value, for the handler to look at.\<close>

definition act_catch :: "('s, 'a) act \<Rightarrow> ('s, 'a res) act" where
  "act_catch m s = (case m s of (r, s') \<Rightarrow> (Inr r, s'))"

text \<open>\<open>try\<close> with a handler for some exceptions.\<close>

definition act_except :: "('s, 'a) act \<Rightarrow> (pyexc \<Rightarrow> bool) \<Rightarrow> ('s, 'a) act \<Rightarrow> ('s, 'a) act" where
  "act_except m caught h s =
     (case m s of
        (Inl e, s') \<Rightarrow> if caught e then h s' else (Inl e, s')
      | (Inr a, s') \<Rightarrow> (Inr a, s'))"

lemma act_returns: "\<not> isl (fst x) \<Longrightarrow> x = (Inr (projr (fst x)), snd x)"
  by (cases x; cases "fst x") simp_all

text \<open>A loop that carries a value, and one that carries none.\<close>

fun fold_act :: "('x \<Rightarrow> 'b \<Rightarrow> ('s, 'b) act) \<Rightarrow> 'x list \<Rightarrow> 'b \<Rightarrow> ('s, 'b) act" where
  "fold_act f [] b = ret b"
| "fold_act f (x # xs) b = act_bind (f x b) (\<lambda>b'. fold_act f xs b')"

definition each_act :: "('x \<Rightarrow> ('s, unit) act) \<Rightarrow> 'x list \<Rightarrow> ('s, unit) act" where
  "each_act f xs = fold_act (\<lambda>x _. f x) xs ()"

lemma ret_iff [simp]: "ret a s = (r, s') \<longleftrightarrow> r = Inr a \<and> s' = s"
  by (auto simp: ret_def)

lemma raise_iff [simp]: "raise_exc e s = (r, s') \<longleftrightarrow> r = Inl e \<and> s' = s"
  by (auto simp: raise_exc_def)

lemma act_res_iff [simp]: "act_res q s = (r, s') \<longleftrightarrow> r = q \<and> s' = s"
  by (auto simp: act_res_def)

lemma act_catch_iff: "act_catch m s = (r, s') \<longleftrightarrow> (\<exists>q. r = Inr q \<and> m s = (q, s'))"
  by (auto simp: act_catch_def split: prod.splits)

lemma act_bind_Inr:
  "act_bind m k s = (Inr b, s') \<longleftrightarrow> (\<exists>a s1. m s = (Inr a, s1) \<and> k a s1 = (Inr b, s'))"
  by (auto simp: act_bind_def split: prod.splits sum.splits)

lemma act_bind_eq:
  "act_bind m k s = (r, s') \<longleftrightarrow>
     (\<exists>e. m s = (Inl e, s') \<and> r = Inl e) \<or> (\<exists>a s1. m s = (Inr a, s1) \<and> k a s1 = (r, s'))"
  by (auto simp: act_bind_def split: prod.splits sum.splits)

lemma act_bind_step:
  "m s = (Inr a, s1) \<Longrightarrow> act_bind m k s = k a s1"
  "m s = (Inl e, s1) \<Longrightarrow> act_bind m k s = (Inl e, s1)"
  by (simp_all add: act_bind_def)

lemma each_act_simps [simp]:
  "each_act f [] = ret ()"
  "each_act f (x # xs) = act_bind (f x) (\<lambda>_. each_act f xs)"
  by (simp_all add: each_act_def fun_eq_iff act_bind_def split: prod.splits sum.splits)

lemma act_bind_assoc: "act_bind (act_bind m k) l = act_bind m (\<lambda>a. act_bind (k a) l)"
  by (simp add: act_bind_def fun_eq_iff split: prod.splits sum.splits)

lemma fold_act_append: "fold_act f (xs @ ys) b = act_bind (fold_act f xs b) (fold_act f ys)"
proof (induction xs arbitrary: b)
  case Nil
  show ?case by (simp add: fun_eq_iff act_bind_def ret_def)
next
  case (Cons x xs)
  have "fold_act f (xs @ ys) = (\<lambda>b. act_bind (fold_act f xs b) (fold_act f ys))"
    using Cons.IH by (simp add: fun_eq_iff)
  then show ?case by (simp add: act_bind_assoc)
qed

text \<open>What every step of a loop keeps, the loop keeps, also when a step raises.\<close>

lemma fold_act_keeps:
  assumes "\<And>x b s r s'. x \<in> set xs \<Longrightarrow> I s \<Longrightarrow> f x b s = (r, s') \<Longrightarrow> I s'"
    and "I s" and "fold_act f xs b s = (r, s')"
  shows "I s'"
  using assms
proof (induction xs arbitrary: b s)
  case (Cons x xs)
  from Cons.prems(3) show ?case
    unfolding fold_act.simps act_bind_eq
    using Cons.prems(1,2) Cons.IH by (auto intro: Cons.prems(1)) (metis list.set_intros)
qed simp

text \<open>An invariant of the carried value and the state, for a loop that returns.\<close>

lemma fold_act_invariant:
  assumes "\<And>x b s b' s'. x \<in> set xs \<Longrightarrow> I b s \<Longrightarrow> f x b s = (Inr b', s') \<Longrightarrow> I b' s'"
    and "I b s" and "fold_act f xs b s = (Inr b', s')"
  shows "I b' s'"
  using assms
proof (induction xs arbitrary: b s)
  case (Cons x xs)
  from Cons.prems(3) obtain b1 s1 where 1: "f x b s = (Inr b1, s1)" "fold_act f xs b1 s1 = (Inr b', s')"
    by (auto simp: act_bind_Inr)
  from Cons.prems(1) [OF _ Cons.prems(2) 1(1)] have "I b1 s1" by simp
  from Cons.IH [OF _ this 1(2)] Cons.prems(1) show ?case by (metis list.set_intros(2))
qed simp

text \<open>The rows of a store: the last index with a property.\<close>

fun last_index :: "('a \<Rightarrow> bool) \<Rightarrow> 'a list \<Rightarrow> nat option" where
  "last_index P [] = None"
| "last_index P (x # xs) =
     (case last_index P xs of Some i \<Rightarrow> Some (Suc i) | None \<Rightarrow> if P x then Some 0 else None)"

lemma last_index_less: "last_index P xs = Some i \<Longrightarrow> i < length xs \<and> P (xs ! i)"
  by (induction xs arbitrary: i) (auto split: option.splits if_splits)

lemma last_index_snoc: "last_index P (xs @ [x]) = (if P x then Some (length xs) else last_index P xs)"
  by (induction xs) (auto split: option.splits)

lemma last_index_None: "last_index P xs = None \<longleftrightarrow> (\<forall>x \<in> set xs. \<not> P x)"
  by (induction xs) (auto split: option.splits)

lemma last_index_last: "last_index P xs = Some i \<Longrightarrow> i < j \<Longrightarrow> j < length xs \<Longrightarrow> \<not> P (xs ! j)"
proof (induction xs arbitrary: i j)
  case (Cons x xs)
  show ?case
  proof (cases "last_index P xs")
    case None
    with Cons.prems show ?thesis by (auto simp: last_index_None nth_Cons split: if_splits nat.splits)
  next
    case (Some k)
    with Cons show ?thesis by (cases j) auto
  qed
qed simp

end
