(* ===== verification/FleetLedger.thy ===== *)
theory FleetLedger
  imports Ledger Effects
begin

text \<open>
  The fleet ledger, \<open>peers/fleet/fleet_ledger.py\<close>: run statuses, slots, start intents and
  propagation edges as rows of a \<open>RunLedger\<close>. Every method is an action on the ledger file. A
  value read from a witness stays a JSON value; one that becomes a dictionary or set key goes
  through \<open>hash_key\<close>, which raises for a list or an object, as hashing does. (A float key is
  its literal: \<open>1.0\<close> and \<open>1\<close>, which Python identifies, are two keys here.)
\<close>

section \<open>What a row store promises\<close>

text \<open>The row that was written has the content of the row that was asked for.\<close>

definition same_content :: "entry \<Rightarrow> entry \<Rightarrow> bool" where
  "same_content p e \<longleftrightarrow> e = p\<lparr>le_prev := le_prev e, le_entry_sha := le_entry_sha e\<rparr>"

lemma same_content_fields:
  assumes "same_content p e"
  shows "le_event e = le_event p" "le_status e = le_status p" "le_subject e = le_subject p"
    "le_witness e = le_witness p" "le_author e = le_author p" "le_independence e = le_independence p"
    "le_mode_run e = le_mode_run p"
  by (subst assms [unfolded same_content_def], simp)+

locale row_store =
  fixes rows_of :: "'f \<Rightarrow> entry list res"
    and add :: "'f \<Rightarrow> entry \<Rightarrow> entry res \<times> 'f"
    and good :: "'f \<Rightarrow> bool"
    and writable :: "entry \<Rightarrow> bool"
  assumes readable: "good f \<Longrightarrow> \<exists>rows. rows_of f = Inr rows"
    and added: "good f \<Longrightarrow> rows_of f = Inr rows \<Longrightarrow> writable p \<Longrightarrow>
      \<exists>e f'. add f p = (Inr e, f') \<and> good f' \<and> rows_of f' = Inr (rows @ [e]) \<and> same_content p e"
begin

lemma added_row:
  assumes "good f" and "rows_of f = Inr rows" and "writable p" and "add f p = (r, f')"
  shows "\<exists>e. r = Inr e \<and> good f' \<and> rows_of f' = Inr (rows @ [e]) \<and> same_content p e"
  using added [OF assms(1-3)] assms(4) by auto

text \<open>A reader that looks for the last row of a kind sees a new row of that kind at once.\<close>

lemma last_after_add:
  assumes "good f" and "rows_of f = Inr rows" and "writable p" and "add f p = (r, f')"
    and "\<And>e. same_content p e \<Longrightarrow> P e = P p"
  shows "\<exists>e rows'. rows_of f' = Inr rows' \<and> same_content p e \<and>
    find_last P rows' = (if P p then Some e else find_last P rows)"
  using added_row [OF assms(1-4)] assms(5) by (auto simp: find_last_snoc)

end

text \<open>The run ledger is such a store: a verified file takes every safe row.\<close>

definition sound_file :: "hash \<Rightarrow> ledger_file \<Rightarrow> bool" where
  "sound_file H f \<longleftrightarrow> digest_law H \<and> verify H f = Inr True"

interpretation store: row_store read "build_and_append H" "sound_file H" safe_entry for H :: hash
proof
  fix f
  assume "sound_file H f"
  then show "\<exists>rows. read f = Inr rows"
    by (auto simp: sound_file_def verify_True read_def dest!: verify_rows_read)
next
  fix f rows p
  assume f: "sound_file H f" and rows: "read f = Inr rows" and p: "safe_entry p"
  from f have "digest_law H" "verify H f = Inr True" by (auto simp: sound_file_def)
  from build_and_append_reads [OF this(1) p this(2)] rows this(1)
  show "\<exists>e f'. build_and_append H f p = (Inr e, f') \<and> sound_file H f' \<and> read f' = Inr (rows @ [e]) \<and> same_content p e"
    by (auto simp: sound_file_def same_content_def)
qed

section \<open>Writing\<close>

definition fl_append ::
  "hash \<Rightarrow> string \<Rightarrow> string \<Rightarrow> string option \<Rightarrow> json \<Rightarrow> string option \<Rightarrow> (ledger_file, unit) act" where
  "fl_append H event status subject witness mode_run f =
     (case append H f event status subject witness None mode_run False of
        (r, f') \<Rightarrow> (res_bind r (\<lambda>_. Inr ()), f'))"

definition slot_witness :: "string \<Rightarrow> json" where
  "slot_witness slot = JObj [(''slot'', JStr slot)]"

definition slot_arg :: "string option \<Rightarrow> json" where
  "slot_arg slot = (case slot of None \<Rightarrow> JNull | Some s \<Rightarrow> if s = [] then JNull else slot_witness s)"

definition record_status :: "hash \<Rightarrow> string \<Rightarrow> string \<Rightarrow> string option \<Rightarrow> (ledger_file, unit) act" where
  "record_status H run_id status slot =
     fl_append H ''run-status'' status (Some run_id) (slot_arg slot) (Some run_id)"

definition record_slot :: "hash \<Rightarrow> string \<Rightarrow> string \<Rightarrow> (ledger_file, unit) act" where
  "record_slot H run_id slot =
     fl_append H ''slot-assigned'' ''ok'' (Some run_id) (slot_witness slot) (Some run_id)"

definition record_start_intent :: "hash \<Rightarrow> string \<Rightarrow> string \<Rightarrow> (ledger_file, unit) act" where
  "record_start_intent H run_id slot =
     act_bind (fl_append H ''start-intent'' ''pending'' (Some run_id) (slot_witness slot) (Some run_id)) (\<lambda>_.
       fl_append H ''run-status'' ''start-intent'' (Some run_id) (slot_witness slot) (Some run_id))"

definition record_halt :: "hash \<Rightarrow> string \<Rightarrow> (ledger_file, unit) act" where
  "record_halt H reason = fl_append H ''halt'' ''halt'' (Some reason) JNull None"

definition arrow :: "string \<Rightarrow> string \<Rightarrow> string" where
  "arrow from_run to_run = from_run @ ''->'' @ to_run"

definition supersede_edge :: "hash \<Rightarrow> string \<Rightarrow> string \<Rightarrow> (ledger_file, unit) act" where
  "supersede_edge H from_run to_run =
     fl_append H ''edge-superseded'' ''ok'' (Some (arrow from_run to_run))
       (JObj [(''from_run'', JStr from_run), (''to_run'', JStr to_run)]) (Some to_run)"

definition record_malformed_edge :: "hash \<Rightarrow> nat \<Rightarrow> raw \<Rightarrow> (ledger_file, unit) act" where
  "record_malformed_edge H at w =
     fl_append H ''malformed-edge'' ''halt'' (Some ''unparseable-propagation-edge'')
       (JObj [(''at'', JInt (int at)), (''raw'', JObj w)]) None"

section \<open>Reading\<close>

definition reading :: "(entry list \<Rightarrow> 'a res) \<Rightarrow> (ledger_file, 'a) act" where
  "reading k f = (res_bind (read f) k, f)"

definition status_row :: "string \<Rightarrow> entry \<Rightarrow> bool" where
  "status_row run_id r \<longleftrightarrow> le_event r = ''run-status'' \<and> le_subject r = Some run_id"

definition latest :: "entry list \<Rightarrow> string \<Rightarrow> string option" where
  "latest rows run_id = map_option le_status (find_last (status_row run_id) rows)"

definition latest_status :: "string \<Rightarrow> (ledger_file, string option) act" where
  "latest_status run_id = reading (\<lambda>rows. Inr (latest rows run_id))"

definition slot_row :: "string \<Rightarrow> entry \<Rightarrow> bool" where
  "slot_row run_id r \<longleftrightarrow> le_subject r = Some run_id \<and>
     le_event r \<in> {''slot-assigned'', ''run-status'', ''start-intent''} \<and>
     jget (obj_or_empty (le_witness r)) ''slot'' \<noteq> JNull"

definition slot_in :: "entry list \<Rightarrow> string \<Rightarrow> json" where
  "slot_in rows run_id =
     (case find_last (slot_row run_id) rows of
        None \<Rightarrow> JNull
      | Some r \<Rightarrow> jget (obj_or_empty (le_witness r)) ''slot'')"

definition slot_of :: "string \<Rightarrow> (ledger_file, json) act" where
  "slot_of run_id = reading (\<lambda>rows. Inr (slot_in rows run_id))"

text \<open>Statuses that close an open start intent.\<close>

definition intent_closing :: "string list" where
  "intent_closing = [''running'', ''converged'', ''failed'', ''landed'', ''rejected'']"

definition closes :: "string option \<Rightarrow> entry \<Rightarrow> bool" where
  "closes run_id r \<longleftrightarrow> le_event r = ''run-status'' \<and> le_subject r = run_id \<and> le_status r \<in> set intent_closing"

fun open_intents :: "entry list \<Rightarrow> (string option \<times> json) list" where
  "open_intents [] = []"
| "open_intents (r # later) =
     (if le_event r = ''start-intent'' \<and> \<not> list_ex (closes (le_subject r)) later
      then (le_subject r, jget (obj_or_empty (le_witness r)) ''slot'') # open_intents later
      else open_intents later)"

definition intents :: "(ledger_file, (string option \<times> json) list) act" where
  "intents = reading (\<lambda>rows. Inr (open_intents rows))"

section \<open>The live edges\<close>

definition hash_key :: "json \<Rightarrow> json res" where
  "hash_key j =
     (case j of
        JList _ \<Rightarrow> Inl TypeError
      | JObj _ \<Rightarrow> Inl TypeError
      | JBool b \<Rightarrow> Inr (JInt (if b then 1 else 0))
      | _ \<Rightarrow> Inr j)"

type_synonym edge = "json \<times> json"

record scan =
  sc_record :: "(edge \<times> nat) list"
  sc_supersede :: "(edge \<times> nat) list"
  sc_artifact :: "(edge \<times> json) list"

definition empty_scan :: scan where
  "empty_scan = \<lparr>sc_record = [], sc_supersede = [], sc_artifact = []\<rparr>"

definition edge_key :: "raw \<Rightarrow> edge res" where
  "edge_key w = res_bind (hash_key (jget w ''from_run'')) (\<lambda>frm.
     res_bind (hash_key (jget w ''to_run'')) (\<lambda>to. Inr (frm, to)))"

definition named_ends :: "raw \<Rightarrow> bool" where
  "named_ends w \<longleftrightarrow> truthy (jget w ''from_run'') \<and> truthy (jget w ''to_run'')"

text \<open>The positions of the torn rows that already have a marker.\<close>

definition flagged_rows :: "entry list \<Rightarrow> json list res" where
  "flagged_rows rows =
     res_map (\<lambda>r. hash_key (jget (obj_or_empty (le_witness r)) ''at''))
       (filter (\<lambda>r. le_event r = ''malformed-edge'' \<and> is_obj (le_witness r)) rows)"

text \<open>A torn row: no end, or a witness that is not an object.\<close>

definition torn :: "entry \<Rightarrow> bool" where
  "torn r \<longleftrightarrow> le_event r = ''propagation-edge'' \<and> \<not> named_ends (obj_or_empty (le_witness r))"

text \<open>One row of the walk: a torn row is flagged once, any other row is noted in the dictionaries.\<close>

definition note_row :: "nat \<Rightarrow> entry \<Rightarrow> scan \<Rightarrow> scan res" where
  "note_row i r sc =
     (let w = obj_or_empty (le_witness r) in
      if \<not> named_ends w then Inr sc
      else if le_event r = ''propagation-edge'' then
        res_bind (edge_key w) (\<lambda>k.
          Inr (sc\<lparr>sc_record := dict_set (sc_record sc) k i,
                  sc_artifact := dict_set (sc_artifact sc) k (jget w ''artifact'')\<rparr>))
      else if le_event r = ''edge-superseded'' then
        res_bind (edge_key w) (\<lambda>k. Inr (sc\<lparr>sc_supersede := dict_set (sc_supersede sc) k i\<rparr>))
      else Inr sc)"

definition scan_row :: "hash \<Rightarrow> json list \<Rightarrow> nat \<times> entry \<Rightarrow> scan \<Rightarrow> (ledger_file, scan) act" where
  "scan_row H flagged ir sc =
     (let (i, r) = ir in
      if torn r then
        (if JInt (int i) \<in> set flagged then ret sc
         else act_bind (record_malformed_edge H i (obj_or_empty (le_witness r))) (\<lambda>_. ret sc))
      else act_res (note_row i r sc))"

definition live_of :: "scan \<Rightarrow> (json \<times> json \<times> json) list" where
  "live_of sc =
     map (\<lambda>((frm, to), _). (frm, to, lookup_default JNull (sc_artifact sc) (frm, to)))
       (filter (\<lambda>(k, ri). case map_of (sc_supersede sc) k of None \<Rightarrow> True | Some si \<Rightarrow> si < ri) (sc_record sc))"

definition propagation_edges :: "hash \<Rightarrow> (ledger_file, (json \<times> json \<times> json) list) act" where
  "propagation_edges H =
     act_bind (reading (\<lambda>rows. res_bind (flagged_rows rows) (\<lambda>fs. Inr (rows, fs)))) (\<lambda>(rows, flagged).
     act_bind (fold_act (scan_row H flagged) (List.enumerate 0 rows) empty_scan) (\<lambda>sc.
       ret (live_of sc)))"

section \<open>Recording an edge\<close>

definition edge_listed :: "string \<Rightarrow> string \<Rightarrow> (json \<times> json \<times> json) list \<Rightarrow> bool" where
  "edge_listed from_run to_run es \<longleftrightarrow> list_ex (\<lambda>(f, t, _). f = JStr from_run \<and> t = JStr to_run) es"

definition record_propagation_edge ::
  "hash \<Rightarrow> git \<Rightarrow> string \<Rightarrow> string \<Rightarrow> string \<Rightarrow> string \<Rightarrow> (ledger_file, unit) act" where
  "record_propagation_edge H g from_run to_run artifact tip_sha =
     act_bind (propagation_edges H) (\<lambda>es.
       if edge_listed from_run to_run es then ret ()
       else act_bind (act_res (resolve_author g tip_sha)) (\<lambda>author. \<lambda>f.
         (case append_attested H g f tip_sha ''propagation-edge'' ''ok'' (Some (arrow from_run to_run))
             (JObj [(''from_run'', JStr from_run), (''to_run'', JStr to_run),
                    (''artifact'', JStr artifact), (''tip'', JStr tip_sha)])
             (Some to_run) (author \<noteq> None) of
            (r, f') \<Rightarrow> (res_bind r (\<lambda>_. Inr ()), f'))))"

definition record_intra_edge :: "hash \<Rightarrow> string \<Rightarrow> string \<Rightarrow> string \<Rightarrow> (ledger_file, unit) act" where
  "record_intra_edge H from_run to_run artifact =
     act_bind (propagation_edges H) (\<lambda>es.
       if edge_listed from_run to_run es then ret ()
       else fl_append H ''propagation-edge'' ''ok'' (Some (arrow from_run to_run))
         (JObj [(''from_run'', JStr from_run), (''to_run'', JStr to_run), (''artifact'', JStr artifact),
                (''tip'', JNull), (''kind'', JStr ''intra-converged'')])
         (Some to_run))"

section \<open>Rows written by the fleet ledger\<close>

definition plain_entry :: "string \<Rightarrow> string \<Rightarrow> string option \<Rightarrow> json \<Rightarrow> string option \<Rightarrow> entry" where
  "plain_entry event status subject witness mode_run =
     make_entry event status subject witness None mode_run False"

lemma plain_entry_fields [simp]:
  "le_event (plain_entry ev st sb w m) = ev" "le_status (plain_entry ev st sb w m) = st"
  "le_subject (plain_entry ev st sb w m) = sb" "le_witness (plain_entry ev st sb w m) = w"
  by (simp_all add: plain_entry_def make_entry_def)

text \<open>Keys and events are plain text: a row is safe when its subject, witness and run are.\<close>

lemma safe_plain_entry:
  "safe_entry (plain_entry ev st sb w m) \<longleftrightarrow>
     safe_str ev \<and> safe_str st \<and> safe_json (ostr sb) \<and> safe_json w \<and> safe_json (ostr m)"
  by (auto simp: safe_entry_def plain_entry_def make_entry_def payload_def safe_json_def ascii_keys)

lemma fl_append_rows:
  assumes "sound_file H f" and "read f = Inr rows" and "safe_entry (plain_entry ev st sb w m)"
    and "fl_append H ev st sb w m f = (r, f')"
  shows "\<exists>e. r = Inr () \<and> sound_file H f' \<and> read f' = Inr (rows @ [e]) \<and> same_content (plain_entry ev st sb w m) e"
proof -
  obtain q where q: "build_and_append H f (plain_entry ev st sb w m) = (q, f')" "r = res_bind q (\<lambda>_. Inr ())"
    using assms(4) by (auto simp: fl_append_def append_def plain_entry_def split: prod.splits)
  from store.added_row [OF assms(1-3) q(1)] q(2) show ?thesis by auto
qed

lemma fl_append_returns:
  assumes "sound_file H f" and "read f = Inr rows" and "safe_entry (plain_entry ev st sb w m)"
  obtains e f' where "fl_append H ev st sb w m f = (Inr (), f')" and "sound_file H f'"
    and "read f' = Inr (rows @ [e])" and "same_content (plain_entry ev st sb w m) e"
proof (cases "fl_append H ev st sb w m f")
  case (Pair r f')
  from fl_append_rows [OF assms Pair] Pair that show ?thesis by auto
qed

text \<open>The readers on one more row.\<close>

lemma latest_snoc [row_simps]:
  "latest (rows @ [e]) rid = (if status_row rid e then Some (le_status e) else latest rows rid)"
  by (simp add: latest_def find_last_snoc)

lemma slot_in_snoc [row_simps]:
  "slot_in (rows @ [e]) rid =
     (if slot_row rid e then jget (obj_or_empty (le_witness e)) ''slot'' else slot_in rows rid)"
  by (simp add: slot_in_def find_last_snoc)

lemma open_intents_snoc [row_simps]:
  "open_intents (rows @ [e]) =
     filter (\<lambda>(rid, _). \<not> closes rid e) (open_intents rows) @
     (if le_event e = ''start-intent'' then [(le_subject e, jget (obj_or_empty (le_witness e)) ''slot'')] else [])"
  by (induction rows) auto

lemma slot_witness_get [simp]: "jget (obj_or_empty (slot_witness s)) ''slot'' = JStr s"
  by (simp add: slot_witness_def obj_or_empty_def jget_def lookup_default_def)

text \<open>A string a row can carry.\<close>

lemma safe_json_str [simp]: "safe_json (JStr s) \<longleftrightarrow> safe_str s"
  by (simp add: safe_json_def)

lemma safe_json_null [simp]: "safe_json JNull"
  by (simp add: safe_json_def)

lemma safe_json_int [simp]: "safe_json (JInt i)"
  by (simp add: safe_json_def)

lemma safe_json_obj [simp]:
  "safe_json (JObj d) \<longleftrightarrow> distinct (map fst d) \<and> (\<forall>(k, v) \<in> set d. safe_str k \<and> safe_json v)"
  by (auto simp: safe_json_def list_all_iff)

section \<open>Start intents\<close>

text \<open>The keys and fixed texts of the fleet rows are ASCII.\<close>

lemma fleet_texts:
  "safe_str ''run-status''" "safe_str ''start-intent''" "safe_str ''pending''" "safe_str ''slot''"
  "safe_str ''slot-assigned''" "safe_str ''ok''" "safe_str ''halt''" "safe_str ''running''"
  "safe_str ''converged''" "safe_str ''failed''" "safe_str ''landed''" "safe_str ''rejected''"
  "safe_str ''propagation-edge''" "safe_str ''edge-superseded''" "safe_str ''malformed-edge''"
  "safe_str ''unparseable-propagation-edge''" "safe_str ''from_run''" "safe_str ''to_run''"
  "safe_str ''artifact''" "safe_str ''tip''" "safe_str ''kind''" "safe_str ''intra-converged''"
  "safe_str ''at''" "safe_str ''raw''" "safe_str ''attest_sha''"
  by (rule ascii_safe, simp add: ascii_def byte_def)+

definition status_entry :: "string \<Rightarrow> string \<Rightarrow> json \<Rightarrow> entry" where
  "status_entry rid st w = plain_entry ''run-status'' st (Some rid) w (Some rid)"

lemma record_status_rows:
  assumes "sound_file H f" and "read f = Inr rows" and "safe_str rid" "safe_str st"
    and "\<And>s. slot = Some s \<Longrightarrow> safe_str s"
  obtains e f' where "record_status H rid st slot f = (Inr (), f')" and "sound_file H f'"
    and "read f' = Inr (rows @ [e])" and "same_content (status_entry rid st (slot_arg slot)) e"
proof -
  have "safe_entry (status_entry rid st (slot_arg slot))"
    using assms(3-5) by (auto simp: status_entry_def safe_plain_entry fleet_texts slot_witness_def slot_arg_def split: option.splits)
  from fl_append_returns [OF assms(1,2) this [unfolded status_entry_def]] that show thesis
    by (auto simp: record_status_def status_entry_def)
qed

lemma status_entry_effect:
  assumes "same_content (status_entry rid st w) e"
  shows "latest (rows @ [e]) rid' = (if rid' = rid then Some st else latest rows rid')"
    and "open_intents (rows @ [e]) =
      (if st \<in> set intent_closing then filter (\<lambda>(r, _). r \<noteq> Some rid) (open_intents rows) else open_intents rows)"
    and "slot_in (rows @ [e]) rid' =
      (if rid' = rid \<and> jget (obj_or_empty w) ''slot'' \<noteq> JNull then jget (obj_or_empty w) ''slot'' else slot_in rows rid')"
  using same_content_fields [OF assms]
  by (auto simp: row_simps status_entry_def status_row_def closes_def slot_row_def intro!: filter_cong)

lemma record_start_intent_rows:
  assumes "sound_file H f" and "read f = Inr rows" and "safe_str rid" "safe_str slot"
  obtains e1 e2 f' where "record_start_intent H rid slot f = (Inr (), f')" and "sound_file H f'"
    and "read f' = Inr (rows @ [e1, e2])"
    and "same_content (plain_entry ''start-intent'' ''pending'' (Some rid) (slot_witness slot) (Some rid)) e1"
    and "same_content (status_entry rid ''start-intent'' (slot_witness slot)) e2"
proof -
  have s: "safe_entry (plain_entry ev st (Some rid) (slot_witness slot) (Some rid))"
    if "safe_str ev" "safe_str st" for ev st
    using that assms(3,4) by (auto simp: safe_plain_entry fleet_texts slot_witness_def)
  from fl_append_returns [OF assms(1,2) s [OF fleet_texts(2,3)]] obtain e1 f1 where
    1: "fl_append H ''start-intent'' ''pending'' (Some rid) (slot_witness slot) (Some rid) f = (Inr (), f1)"
      "sound_file H f1" "read f1 = Inr (rows @ [e1])"
      "same_content (plain_entry ''start-intent'' ''pending'' (Some rid) (slot_witness slot) (Some rid)) e1" .
  from fl_append_returns [OF 1(2,3) s [OF fleet_texts(1,2)]] obtain e2 f2 where
    "fl_append H ''run-status'' ''start-intent'' (Some rid) (slot_witness slot) (Some rid) f1 = (Inr (), f2)"
    "sound_file H f2" "read f2 = Inr ((rows @ [e1]) @ [e2])"
    "same_content (plain_entry ''run-status'' ''start-intent'' (Some rid) (slot_witness slot) (Some rid)) e2" .
  with 1 that show thesis by (simp add: record_start_intent_def act_bind_step status_entry_def)
qed

text \<open>What an intent changes in the readers.\<close>

lemma start_intent_effect:
  assumes "same_content (plain_entry ''start-intent'' ''pending'' (Some rid) (slot_witness slot) (Some rid)) e1"
    and "same_content (status_entry rid ''start-intent'' (slot_witness slot)) e2"
  shows "latest (rows @ [e1, e2]) rid' = (if rid' = rid then Some ''start-intent'' else latest rows rid')"
    and "slot_in (rows @ [e1, e2]) rid' = (if rid' = rid then JStr slot else slot_in rows rid')"
    and "open_intents (rows @ [e1, e2]) = open_intents rows @ [(Some rid, JStr slot)]"
proof -
  have e: "rows @ [e1, e2] = (rows @ [e1]) @ [e2]" by simp
  note f1 = same_content_fields [OF assms(1)]
  show "latest (rows @ [e1, e2]) rid' = (if rid' = rid then Some ''start-intent'' else latest rows rid')"
    unfolding e status_entry_effect(1) [OF assms(2)] by (simp add: row_simps status_row_def f1)
  show "slot_in (rows @ [e1, e2]) rid' = (if rid' = rid then JStr slot else slot_in rows rid')"
    unfolding e status_entry_effect(3) [OF assms(2)] by (auto simp: row_simps slot_row_def f1)
  show "open_intents (rows @ [e1, e2]) = open_intents rows @ [(Some rid, JStr slot)]"
    unfolding e status_entry_effect(2) [OF assms(2)]
    by (auto simp: row_simps closes_def f1 intent_closing_def filter_id_conv)
qed

text \<open>
  a start intent is visible as soon as it is written, and stays open until the run has a real
  status: after \<open>record_start_intent\<close> the latest status of the run is \<open>start-intent\<close>, its slot is
  the intended one and the pair is among the open intents, while every other run keeps its
  status and slot; a later \<open>running\<close>, \<open>converged\<close>, \<open>failed\<close>, \<open>landed\<close> or \<open>rejected\<close> row closes
  it, and any other status leaves it open.
\<close>

theorem start_intent_visible:
  assumes "sound_file H f" and "read f = Inr rows" and "safe_str rid" and "safe_str slot" and "safe_str st"
  shows "\<exists>f1 rows1 f2 rows2. record_start_intent H rid slot f = (Inr (), f1) \<and> read f1 = Inr rows1 \<and>
    (\<forall>r. latest_status r f1 = (Inr (if r = rid then Some ''start-intent'' else latest rows r), f1) \<and>
         slot_of r f1 = (Inr (if r = rid then JStr slot else slot_in rows r), f1)) \<and>
    intents f1 = (Inr (open_intents rows @ [(Some rid, JStr slot)]), f1) \<and>
    record_status H rid st (Some slot) f1 = (Inr (), f2) \<and> read f2 = Inr rows2 \<and> sound_file H f2 \<and>
    latest_status rid f2 = (Inr (Some st), f2) \<and>
    ((Some rid, JStr slot) \<in> set (open_intents rows2) \<longleftrightarrow> st \<notin> set intent_closing)"
proof -
  from record_start_intent_rows [OF assms(1-4)] obtain e1 e2 f1 where
    1: "record_start_intent H rid slot f = (Inr (), f1)" "sound_file H f1" "read f1 = Inr (rows @ [e1, e2])"
    and c: "same_content (plain_entry ''start-intent'' ''pending'' (Some rid) (slot_witness slot) (Some rid)) e1"
      "same_content (status_entry rid ''start-intent'' (slot_witness slot)) e2" .
  note eff = start_intent_effect [OF c, of rows]
  from record_status_rows [OF 1(2,3) assms(3,5), of "Some slot"] assms(4) obtain e f2 where
    2: "record_status H rid st (Some slot) f1 = (Inr (), f2)" "sound_file H f2"
      "read f2 = Inr ((rows @ [e1, e2]) @ [e])" "same_content (status_entry rid st (slot_arg (Some slot))) e" by blast
  have "(Some rid, JStr slot) \<in> set (open_intents ((rows @ [e1, e2]) @ [e])) \<longleftrightarrow> st \<notin> set intent_closing"
    unfolding status_entry_effect(2) [OF 2(4)] eff(3) by auto
  moreover have "latest ((rows @ [e1, e2]) @ [e]) rid = Some st"
    unfolding status_entry_effect(1) [OF 2(4)] by simp
  ultimately show ?thesis using 1 2
    by (intro exI [of _ f1] exI [of _ "rows @ [e1, e2]"] exI [of _ f2] exI [of _ "(rows @ [e1, e2]) @ [e]"])
      (simp add: latest_status_def slot_of_def intents_def reading_def eff)
qed

lemma empty_sound: "sound_file zero_hash None"
  by (simp add: sound_file_def zero_digest_law empty_verifies)

lemma empty_read: "read None = Inr []"
  by (simp add: read_def read_raw_def)

lemma sample_names: "safe_str ''a''" "safe_str ''b''" "safe_str ''s1''" "safe_str ''running''"
  by (rule ascii_safe, simp add: ascii_def byte_def)+

theorem start_intent_visible_witness:
  "\<exists>f1 rows1 f2 rows2. record_start_intent zero_hash ''a'' ''s1'' None = (Inr (), f1) \<and> read f1 = Inr rows1 \<and>
    slot_of ''a'' f1 = (Inr (JStr ''s1''), f1) \<and>
    record_status zero_hash ''a'' ''running'' (Some ''s1'') f1 = (Inr (), f2) \<and> read f2 = Inr rows2 \<and>
    (Some ''a'', JStr ''s1'') \<notin> set (open_intents rows2)"
proof -
  have r: "''running'' \<in> set intent_closing" by (simp add: intent_closing_def)
  show ?thesis
    using start_intent_visible [OF empty_sound empty_read sample_names(1,3,4)] r by (auto split: if_splits)
qed

section \<open>The live edges, exactly\<close>

text \<open>What a row says about an edge: \<open>(True, k)\<close> records it, \<open>(False, k)\<close> supersedes it.\<close>

definition edge_event :: "entry \<Rightarrow> (bool \<times> edge) option" where
  "edge_event r =
     (let w = obj_or_empty (le_witness r) in
      if \<not> named_ends w then None
      else case edge_key w of
          Inl _ \<Rightarrow> None
        | Inr k \<Rightarrow> if le_event r = ''propagation-edge'' then Some (True, k)
                   else if le_event r = ''edge-superseded'' then Some (False, k) else None)"

definition last_edge_row :: "bool \<Rightarrow> entry list \<Rightarrow> edge \<Rightarrow> nat option" where
  "last_edge_row b rows k = last_index (\<lambda>r. edge_event r = Some (b, k)) rows"

text \<open>An edge is live when its last record is later than its last supersede.\<close>

definition live_edge :: "entry list \<Rightarrow> edge \<Rightarrow> bool" where
  "live_edge rows k \<longleftrightarrow>
     (case last_edge_row True rows k of
        None \<Rightarrow> False
      | Some i \<Rightarrow> (case last_edge_row False rows k of None \<Rightarrow> True | Some j \<Rightarrow> j < i))"

definition artifact_at :: "entry list \<Rightarrow> nat \<Rightarrow> json" where
  "artifact_at rows i = jget (obj_or_empty (le_witness (rows ! i))) ''artifact''"

definition edge_artifact :: "entry list \<Rightarrow> edge \<Rightarrow> json" where
  "edge_artifact rows k =
     (case last_edge_row True rows k of
        None \<Rightarrow> JNull | Some i \<Rightarrow> artifact_at rows i)"

lemma last_edge_row_snoc:
  "last_edge_row b (rows @ [r]) k = (if edge_event r = Some (b, k) then Some (length rows) else last_edge_row b rows k)"
  by (simp add: last_edge_row_def last_index_snoc)

lemma last_edge_row_less: "last_edge_row b rows k = Some i \<Longrightarrow> i < length rows"
  by (auto simp: last_edge_row_def dest: last_index_less)

lemma live_edge_snoc [row_simps]:
  "live_edge (rows @ [r]) k \<longleftrightarrow>
     (if edge_event r = Some (True, k) then True else if edge_event r = Some (False, k) then False
      else live_edge rows k)"
  by (auto simp: live_edge_def last_edge_row_snoc dest: last_edge_row_less split: option.splits)

lemma live_edge_quiet: "(\<forall>e \<in> set ms. edge_event e = None) \<Longrightarrow> live_edge (rows @ ms) = live_edge rows"
proof (induction ms rule: rev_induct)
  case (snoc e ms)
  then show ?case using live_edge_snoc [of "rows @ ms" e] by (simp add: fun_eq_iff)
qed simp

definition scan_inv :: "entry list \<Rightarrow> scan \<Rightarrow> bool" where
  "scan_inv rows sc \<longleftrightarrow>
     distinct (map fst (sc_record sc)) \<and>
     (\<forall>k. map_of (sc_record sc) k = last_edge_row True rows k \<and>
          map_of (sc_supersede sc) k = last_edge_row False rows k \<and>
          map_of (sc_artifact sc) k = map_option (artifact_at rows)
            (last_edge_row True rows k))"

lemma scan_inv_empty: "scan_inv [] empty_scan"
  by (simp add: scan_inv_def empty_scan_def last_edge_row_def)

lemma artifact_at_snoc:
  "artifact_at (rows @ [r]) (length rows) = jget (obj_or_empty (le_witness r)) ''artifact''"
  "map_option (artifact_at (rows @ [r])) (last_edge_row b rows k) = map_option (artifact_at rows) (last_edge_row b rows k)"
  by (simp add: artifact_at_def)
    (cases "last_edge_row b rows k"; auto simp: artifact_at_def nth_append dest!: last_edge_row_less)

lemma note_row_inv:
  assumes "scan_inv rows sc" and "note_row (length rows) r sc = Inr sc'"
  shows "scan_inv (rows @ [r]) sc'"
proof (cases "edge_event r")
  case None
  then have "sc' = sc" using assms(2)
    by (auto simp: note_row_def edge_event_def Let_def res_bind_Inr_iff split: if_splits sum.splits)
  then show ?thesis using assms(1) None
    by (simp add: scan_inv_def last_edge_row_snoc artifact_at_snoc)
next
  case (Some bk)
  then obtain b k where bk: "edge_event r = Some (b, k)" by (cases bk) auto
  let ?w = "obj_or_empty (le_witness r)"
  have sc': "sc' = (if b then sc\<lparr>sc_record := dict_set (sc_record sc) k (length rows),
                       sc_artifact := dict_set (sc_artifact sc) k (jget ?w ''artifact'')\<rparr>
                  else sc\<lparr>sc_supersede := dict_set (sc_supersede sc) k (length rows)\<rparr>)"
    using assms(2) bk
    by (auto simp: note_row_def edge_event_def Let_def res_bind_Inr_iff split: if_splits sum.splits)
  show ?thesis using assms(1) unfolding sc' scan_inv_def
    by (auto simp: bk last_edge_row_snoc distinct_dict_set artifact_at_snoc)
qed

text \<open>The walk without its side effect.\<close>

fun note_all :: "(nat \<times> entry) list \<Rightarrow> scan \<Rightarrow> scan res" where
  "note_all [] sc = Inr sc"
| "note_all ((i, r) # irs) sc = res_bind (note_row i r sc) (note_all irs)"

lemma torn_note: "torn r \<Longrightarrow> note_row i r sc = Inr sc"
  by (simp add: torn_def note_row_def)

lemma note_all_inv:
  "scan_inv pre sc \<Longrightarrow> note_all (List.enumerate (length pre) rows) sc = Inr sc' \<Longrightarrow> scan_inv (pre @ rows) sc'"
proof (induction rows arbitrary: pre sc)
  case (Cons r rows)
  from Cons.prems(2) obtain sc1 where 1: "note_row (length pre) r sc = Inr sc1"
    "note_all (List.enumerate (length (pre @ [r])) rows) sc1 = Inr sc'"
    by (auto simp: res_bind_Inr_iff)
  from Cons.IH [OF note_row_inv [OF Cons.prems(1) 1(1)] 1(2)] show ?case by simp
qed simp

lemma live_of_exact:
  assumes "scan_inv rows sc"
  shows "set (live_of sc) = {(f, t, a). live_edge rows (f, t) \<and> a = edge_artifact rows (f, t)}"
    and "distinct (map (\<lambda>(f, t, _). (f, t)) (live_of sc))"
proof -
  have d: "distinct (map fst (sc_record sc))"
    and r: "\<And>k. map_of (sc_record sc) k = last_edge_row True rows k"
    and s: "\<And>k. map_of (sc_supersede sc) k = last_edge_row False rows k"
    and a: "\<And>k. lookup_default JNull (sc_artifact sc) k = edge_artifact rows k"
    using assms by (auto simp: scan_inv_def lookup_default_def edge_artifact_def split: option.splits)
  have m: "(k, i) \<in> set (sc_record sc) \<longleftrightarrow> last_edge_row True rows k = Some i" for k i
    using map_of_eq_Some_iff [OF d, of k i] r by simp
  show "set (live_of sc) = {(f, t, a). live_edge rows (f, t) \<and> a = edge_artifact rows (f, t)}"
    unfolding live_of_def set_map set_filter s a
    by (force simp: m live_edge_def image_iff split: option.splits)
  have "map (\<lambda>(f, t, _). (f, t)) (live_of sc) = map fst (filter (\<lambda>(k, ri). case map_of (sc_supersede sc) k of None \<Rightarrow> True | Some si \<Rightarrow> si < ri) (sc_record sc))"
    by (auto simp: live_of_def)
  then show "distinct (map (\<lambda>(f, t, _). (f, t)) (live_of sc))" using d by (simp add: distinct_map_filter)
qed

lemma fold_scan_note:
  assumes "fold_act (scan_row H flagged) irs sc f = (Inr sc', f')"
  shows "note_all irs sc = Inr sc'"
  using assms
proof (induction irs arbitrary: sc f)
  case (Cons ir irs)
  obtain i r where ir: "ir = (i, r)" by force
  from Cons.prems obtain sc1 f1 where 1: "scan_row H flagged (i, r) sc f = (Inr sc1, f1)"
    "fold_act (scan_row H flagged) irs sc1 f1 = (Inr sc', f')" unfolding ir by (auto simp: act_bind_Inr)
  have "note_row i r sc = Inr sc1"
    using 1(1) by (auto simp: scan_row_def act_bind_Inr torn_note split: if_splits)
  with Cons.IH [OF 1(2)] show ?case by (simp add: ir)
qed simp

lemma propagation_edges_Inr:
  assumes "propagation_edges H f = (Inr es, f')" and "read f = Inr rows"
  obtains flagged sc where "flagged_rows rows = Inr flagged"
    and "fold_act (scan_row H flagged) (List.enumerate 0 rows) empty_scan f = (Inr sc, f')"
    and "scan_inv rows sc" and "es = live_of sc"
proof -
  from assms obtain flagged sc where *: "flagged_rows rows = Inr flagged"
    "fold_act (scan_row H flagged) (List.enumerate 0 rows) empty_scan f = (Inr sc, f')" "es = live_of sc"
    by (auto simp: propagation_edges_def act_bind_Inr reading_def res_bind_Inr_iff)
  from note_all_inv [of "[]", OF scan_inv_empty] fold_scan_note [OF *(2)] have "scan_inv rows sc" by simp
  with * that show thesis by blast
qed

lemma propagation_edges_live:
  assumes "propagation_edges H f = (Inr es, f')" and "read f = Inr rows"
  shows "set es = {(frm, to, a). live_edge rows (frm, to) \<and> a = edge_artifact rows (frm, to)} \<and>
    distinct (map (\<lambda>(frm, to, _). (frm, to)) es)"
  using assms by (elim propagation_edges_Inr) (auto simp: live_of_exact)

text \<open>
  the edges a reader gets are exactly the live ones: each pair of ends once, present if and
  only if its last \<open>propagation-edge\<close> row is later than its last \<open>edge-superseded\<close> row, with the
  artifact of that last row. A row without ends, or whose witness is no object, makes no edge.
\<close>

theorem propagation_edges_exact:
  assumes "propagation_edges H f = (Inr es, f')" and "read f = Inr rows"
  shows "set es = {(frm, to, a). live_edge rows (frm, to) \<and> a = edge_artifact rows (frm, to)} \<and>
    distinct (map (\<lambda>(frm, to, _). (frm, to)) es)"
  by (rule propagation_edges_live [OF assms])

section \<open>Torn rows are flagged once\<close>

definition marker :: "nat \<Rightarrow> entry \<Rightarrow> entry" where
  "marker i r = plain_entry ''malformed-edge'' ''halt'' (Some ''unparseable-propagation-edge'')
     (JObj [(''at'', JInt (int i)), (''raw'', JObj (obj_or_empty (le_witness r)))]) None"

definition unflagged :: "json list \<Rightarrow> (nat \<times> entry) list \<Rightarrow> (nat \<times> entry) list" where
  "unflagged flagged irs = filter (\<lambda>(i, r). torn r \<and> JInt (int i) \<notin> set flagged) irs"

text \<open>The rows the walk appends: a marker for every torn row without one, in file order.\<close>

definition markers :: "json list \<Rightarrow> (nat \<times> entry) list \<Rightarrow> entry list \<Rightarrow> bool" where
  "markers flagged irs ms \<longleftrightarrow> list_all2 (\<lambda>(i, r) e. same_content (marker i r) e) (unflagged flagged irs) ms"

lemma unflagged_Cons [simp]:
  "unflagged fl ((i, r) # irs) = (if torn r \<and> JInt (int i) \<notin> set fl then [(i, r)] else []) @ unflagged fl irs"
  by (simp add: unflagged_def)

lemma fold_scan_quiet:
  "unflagged flagged irs = [] \<Longrightarrow> fold_act (scan_row H flagged) irs sc f = (note_all irs sc, f)"
proof (induction irs arbitrary: sc)
  case Nil
  show ?case by simp
next
  case (Cons ir irs)
  obtain i r where ir: "ir = (i, r)" by force
  have "scan_row H flagged (i, r) sc f = (note_row i r sc, f)"
    using Cons.prems by (auto simp: ir scan_row_def torn_note ret_def act_res_def split: if_splits)
  then show ?case using Cons.IH Cons.prems
    by (cases "note_row i r sc") (auto simp: ir act_bind_step split: if_splits)
qed

lemma fold_scan_rows:
  assumes "fold_act (scan_row H flagged) irs sc f = (r, f')" and "sound_file H f" and "read f = Inr rows"
    and "\<forall>(i, r) \<in> set (unflagged flagged irs). safe_entry (marker i r)" and "r = Inr sc'"
  shows "\<exists>ms. markers flagged irs ms \<and> sound_file H f' \<and> read f' = Inr (rows @ ms)"
  using assms
proof (induction irs arbitrary: sc f rows)
  case Nil
  then show ?case by (auto simp: markers_def unflagged_def)
next
  case (Cons ir irs)
  obtain i e where ir: "ir = (i, e)" by force
  from Cons.prems(1,5) obtain sc1 f1 where 1: "scan_row H flagged (i, e) sc f = (Inr sc1, f1)"
    "fold_act (scan_row H flagged) irs sc1 f1 = (r, f')" unfolding ir by (auto simp: act_bind_Inr)
  show ?case
  proof (cases "torn e \<and> JInt (int i) \<notin> set flagged")
    case False
    with 1(1) have "f1 = f" by (auto simp: scan_row_def split: if_splits)
    with Cons.IH [OF 1(2)] Cons.prems False show ?thesis by (auto simp: ir markers_def)
  next
    case True
    with 1(1) have m: "record_malformed_edge H i (obj_or_empty (le_witness e)) f = (Inr (), f1)"
      by (auto simp: scan_row_def act_bind_Inr)
    have "safe_entry (marker i e)" using Cons.prems(4) True by (simp add: ir)
    from fl_append_rows [OF Cons.prems(2,3) this [unfolded marker_def] m [unfolded record_malformed_edge_def]]
    obtain x where x: "sound_file H f1" "read f1 = Inr (rows @ [x])" "same_content (marker i e) x"
      by (auto simp: marker_def)
    from Cons.IH [OF 1(2) x(1,2)] Cons.prems(4,5) True x(3) show ?thesis
      by (force simp: ir markers_def list_all2_Cons1)
  qed
qed

lemma markers_quiet:
  assumes "markers flagged irs ms"
  shows "\<forall>e \<in> set ms. le_event e = ''malformed-edge'' \<and> edge_event e = None \<and> \<not> torn e"
proof
  fix e
  assume "e \<in> set ms"
  with assms obtain ir where "(\<lambda>(i, r) e. same_content (marker i r) e) ir e"
    unfolding markers_def by (auto simp: list_all2_conv_all_nth in_set_conv_nth)
  then obtain i r where c: "same_content (marker i r) e" by (cases ir) auto
  show "le_event e = ''malformed-edge'' \<and> edge_event e = None \<and> \<not> torn e"
    using same_content_fields [OF c]
    by (auto simp: marker_def edge_event_def torn_def named_ends_def obj_or_empty_def jget_def lookup_default_def)
qed

lemma flagged_append:
  "flagged_rows (xs @ ys) = res_bind (flagged_rows xs) (\<lambda>a. res_bind (flagged_rows ys) (\<lambda>b. Inr (a @ b)))"
  by (simp add: flagged_rows_def res_map_append)

lemma flagged_markers:
  "list_all2 (\<lambda>(i, r) e. same_content (marker i r) e) irs ms \<Longrightarrow>
   flagged_rows ms = Inr (map (\<lambda>(i, r). JInt (int i)) irs)"
proof (induction rule: list_all2_induct)
  case Nil
  show ?case by (simp add: flagged_rows_def)
next
  case (Cons ir irs e ms)
  then obtain i r where ir: "ir = (i, r)" and c: "same_content (marker i r) e" by (cases ir) auto
  have "le_event e = ''malformed-edge''"
    "le_witness e = JObj [(''at'', JInt (int i)), (''raw'', JObj (obj_or_empty (le_witness r)))]"
    using same_content_fields [OF c] by (auto simp: marker_def)
  then have "flagged_rows (e # ms) = res_bind (flagged_rows ms) (\<lambda>b. Inr (JInt (int i) # b))"
    by (simp add: flagged_rows_def is_obj_def obj_or_empty_def jget_def lookup_default_def hash_key_def)
  with Cons.IH show ?case by (simp add: ir)
qed

lemma note_all_append:
  "note_all (xs @ ys) sc = res_bind (note_all xs sc) (note_all ys)"
proof (induction xs sc rule: note_all.induct)
  case (2 i r irs sc)
  then show ?case by (cases "note_row i r sc") simp_all
qed simp

lemma note_all_quiet:
  "\<forall>(i, e) \<in> set irs. le_event e = ''malformed-edge'' \<Longrightarrow> note_all irs sc = Inr sc"
proof (induction irs sc rule: note_all.induct)
  case (2 i r irs sc)
  then have "note_row i r sc = Inr sc" by (simp add: note_row_def Let_def)
  with 2 show ?case by simp
qed simp

text \<open>A settled ledger: it parses, and every torn row has its marker. Reading it changes nothing.\<close>

definition settled :: "entry list \<Rightarrow> bool" where
  "settled rows \<longleftrightarrow>
     (case flagged_rows rows of
        Inl _ \<Rightarrow> False | Inr flagged \<Rightarrow> unflagged flagged (List.enumerate 0 rows) = []) \<and>
     \<not> isl (note_all (List.enumerate 0 rows) empty_scan)"

definition ledger_edges :: "entry list \<Rightarrow> (json \<times> json \<times> json) list" where
  "ledger_edges rows = (case note_all (List.enumerate 0 rows) empty_scan of Inl _ \<Rightarrow> [] | Inr sc \<Rightarrow> live_of sc)"

lemma settled_edges:
  "read f = Inr rows \<Longrightarrow> settled rows \<Longrightarrow> propagation_edges H f = (Inr (ledger_edges rows), f)"
  unfolding propagation_edges_def settled_def ledger_edges_def
  by (auto simp: act_bind_def reading_def fold_scan_quiet ret_def isl_def split: sum.splits)

lemma settled_scan:
  "settled rows \<Longrightarrow> \<exists>sc. note_all (List.enumerate 0 rows) empty_scan = Inr sc \<and> scan_inv rows sc"
  using note_all_inv [of "[]" empty_scan rows] scan_inv_empty
  by (cases "note_all (List.enumerate 0 rows) empty_scan") (auto simp: settled_def)

lemma ledger_edges_live:
  "settled rows \<Longrightarrow> set (ledger_edges rows) = {(f, t, a). live_edge rows (f, t) \<and> a = edge_artifact rows (f, t)}"
  using settled_scan [of rows] by (auto simp: ledger_edges_def live_of_exact(1))

lemma edge_listed_live: "settled rows \<Longrightarrow> edge_listed a b (ledger_edges rows) \<longleftrightarrow> live_edge rows (JStr a, JStr b)"
  by (auto simp: edge_listed_def list_ex_iff ledger_edges_live)

text \<open>Every row of the fleet ledger's own operations keeps it settled.\<close>

definition clean_row :: "entry \<Rightarrow> bool" where
  "clean_row e \<longleftrightarrow> le_event e \<noteq> ''malformed-edge'' \<and> \<not> torn e \<and>
     (le_event e \<in> {''propagation-edge'', ''edge-superseded''} \<longrightarrow> \<not> isl (edge_key (obj_or_empty (le_witness e))))"

lemma settled_snoc:
  assumes "settled rows" and "clean_row e"
  shows "settled (rows @ [e])"
proof -
  have "flagged_rows [e] = Inr []" using assms(2) by (simp add: flagged_rows_def clean_row_def)
  moreover have n: "\<exists>sc'. note_row i e sc = Inr sc'" for i sc
    using assms(2) by (cases "edge_key (obj_or_empty (le_witness e))") (auto simp: note_row_def clean_row_def Let_def)
  from assms(1) obtain sc where "note_all (List.enumerate 0 rows) empty_scan = Inr sc" using settled_scan by blast
  moreover from n obtain sc' where "note_row (length rows) e sc = Inr sc'" by blast
  ultimately show ?thesis using assms
    by (cases "flagged_rows rows")
      (auto simp: settled_def flagged_append note_all_append enumerate_append_eq unflagged_def clean_row_def)
qed

lemma edges_settle:
  assumes "propagation_edges H f = (Inr es, f')" and "sound_file H f" and "read f = Inr rows"
    and "\<And>i. i < length rows \<Longrightarrow> torn (rows ! i) \<Longrightarrow> safe_entry (marker i (rows ! i))"
  shows "\<exists>flagged ms. flagged_rows rows = Inr flagged \<and> markers flagged (List.enumerate 0 rows) ms \<and>
    sound_file H f' \<and> read f' = Inr (rows @ ms) \<and> settled (rows @ ms) \<and> es = ledger_edges (rows @ ms)"
proof -
  from propagation_edges_Inr [OF assms(1,3)] obtain flagged sc where
    fl: "flagged_rows rows = Inr flagged" and es: "es = live_of sc"
    and run: "fold_act (scan_row H flagged) (List.enumerate 0 rows) empty_scan f = (Inr sc, f')" .
  have "\<forall>(i, r) \<in> set (unflagged flagged (List.enumerate 0 rows)). safe_entry (marker i r)"
    using assms(4) by (auto simp: unflagged_def in_set_enumerate_eq)
  from fold_scan_rows [OF run assms(2,3) this refl] obtain ms where
    ms: "markers flagged (List.enumerate 0 rows) ms" "sound_file H f'" "read f' = Inr (rows @ ms)" by blast
  let ?new = "map (\<lambda>(i, r). JInt (int i)) (unflagged flagged (List.enumerate 0 rows))"
  note quiet = markers_quiet [OF ms(1)]
  have fl': "flagged_rows (rows @ ms) = Inr (flagged @ ?new)"
    using flagged_markers [OF ms(1) [unfolded markers_def]] by (simp add: flagged_append fl)
  have none: "unflagged (flagged @ ?new) (List.enumerate 0 (rows @ ms)) = []"
    using quiet by (auto simp: unflagged_def filter_empty_conv enumerate_append_eq in_set_enumerate_eq image_iff)
  have "\<forall>(i, e) \<in> set (List.enumerate (length rows) ms). le_event e = ''malformed-edge''"
    using quiet by (auto simp: in_set_enumerate_eq)
  then have "note_all (List.enumerate 0 (rows @ ms)) empty_scan = Inr sc"
    using fold_scan_note [OF run] by (simp add: enumerate_append_eq note_all_append note_all_quiet)
  then have "settled (rows @ ms)" "es = ledger_edges (rows @ ms)"
    using none by (simp_all add: settled_def fl' ledger_edges_def es)
  with fl ms show ?thesis by blast
qed

text \<open>
  a torn \<open>propagation-edge\<close> row is never silently dropped and is flagged once: reading the edges
  of a verified ledger adds exactly one \<open>malformed-edge\<close> row, holding position and witness, for
  every torn row that has none, in file order; a second reading returns the same edges and
  adds nothing.
\<close>

theorem torn_rows_flagged_once:
  assumes "propagation_edges H f = (Inr es, f')" and "sound_file H f" and "read f = Inr rows"
    and "\<And>i. i < length rows \<Longrightarrow> torn (rows ! i) \<Longrightarrow> safe_entry (marker i (rows ! i))"
  shows "\<exists>flagged ms. flagged_rows rows = Inr flagged \<and> markers flagged (List.enumerate 0 rows) ms \<and>
    sound_file H f' \<and> read f' = Inr (rows @ ms) \<and> propagation_edges H f' = (Inr es, f')"
  using edges_settle [OF assms] settled_edges by blast

section \<open>Recorded edges\<close>

text \<open>A row that records or supersedes the edge between two run ids.\<close>

lemma edge_event_names:
  assumes "obj_or_empty (le_witness e) = (''from_run'', JStr a) # (''to_run'', JStr b) # d" and "a \<noteq> []" and "b \<noteq> []"
  shows "edge_event e = (if le_event e = ''propagation-edge'' then Some (True, JStr a, JStr b)
      else if le_event e = ''edge-superseded'' then Some (False, JStr a, JStr b) else None)"
    and "le_event e \<noteq> ''malformed-edge'' \<Longrightarrow> clean_row e"
  using assms by (simp_all add: edge_event_def clean_row_def torn_def named_ends_def edge_key_def jget_def
      lookup_default_def hash_key_def Let_def)

definition edge_row :: "string \<Rightarrow> string \<Rightarrow> entry \<Rightarrow> bool" where
  "edge_row a b e \<longleftrightarrow> le_event e = ''propagation-edge'' \<and> clean_row e \<and> edge_event e = Some (True, JStr a, JStr b)"

lemma edge_row_live:
  "edge_row a b e \<Longrightarrow> live_edge (rows @ [e]) = (\<lambda>k. k = (JStr a, JStr b) \<or> live_edge rows k)"
  unfolding fun_eq_iff live_edge_snoc edge_row_def by auto

lemma has_sep_append:
  assumes "y \<noteq> []" and "byte (hd y) < 128"
  shows "has_sep (x @ y) \<longleftrightarrow> has_sep x \<or> has_sep y"
proof (induction x)
  case (Cons c x)
  have "sep_at (c # x @ y) = sep_at (c # x)"
    using assms by (cases x; cases y; cases "tl x") auto
  with Cons.IH show ?case by auto
qed simp

lemma safe_arrow:
  assumes "safe_str a" and "safe_str b"
  shows "safe_str (arrow a b)"
proof -
  have "\<not> has_sep (''->'' @ b)" using assms(2) by (cases b) (auto simp: safe_str_def byte_def)
  moreover have "utf8_ok (''->'' @ b)"
    using assms(2) by (subst utf8_ok_append) (auto simp: safe_str_def ascii_utf8_ok ascii_def byte_def)
  ultimately show ?thesis
    using assms(1) has_sep_append [of "''->'' @ b" a] by (simp add: arrow_def safe_str_def utf8_ok_append byte_def)
qed

text \<open>Recording on a settled ledger: nothing for a live edge, one row otherwise.\<close>

lemma record_intra_edge_rows:
  assumes "sound_file H f" "read f = Inr rows" "settled rows"
    and "safe_str a" "safe_str b" "safe_str art" "a \<noteq> []" "b \<noteq> []"
  obtains f' es where "record_intra_edge H a b art f = (Inr (), f')" and "sound_file H f'"
    and "read f' = Inr (rows @ es)"
    and "es = [] \<and> live_edge rows (JStr a, JStr b) \<or> (\<exists>e. es = [e] \<and> edge_row a b e \<and> \<not> le_independence e)"
proof (cases "live_edge rows (JStr a, JStr b)")
  case True
  with that [of f "[]"] assms show thesis
    by (simp add: record_intra_edge_def act_bind_step settled_edges edge_listed_live)
next
  case False
  let ?w = "JObj [(''from_run'', JStr a), (''to_run'', JStr b), (''artifact'', JStr art), (''tip'', JNull),
    (''kind'', JStr ''intra-converged'')]"
  have "safe_entry (plain_entry ''propagation-edge'' ''ok'' (Some (arrow a b)) ?w (Some b))"
    using assms by (simp add: safe_plain_entry fleet_texts safe_arrow)
  from fl_append_returns [OF assms(1,2) this] obtain e f' where
    *: "fl_append H ''propagation-edge'' ''ok'' (Some (arrow a b)) ?w (Some b) f = (Inr (), f')" "sound_file H f'"
    "read f' = Inr (rows @ [e])" "same_content (plain_entry ''propagation-edge'' ''ok'' (Some (arrow a b)) ?w (Some b)) e" .
  have "le_event e = ''propagation-edge''" "obj_or_empty (le_witness e) = (''from_run'', JStr a) # (''to_run'', JStr b) #
      [(''artifact'', JStr art), (''tip'', JNull), (''kind'', JStr ''intra-converged'')]" "\<not> le_independence e"
    using same_content_fields [OF *(4)] by (auto simp: obj_or_empty_def plain_entry_def make_entry_def)
  with edge_event_names [OF this(2) assms(7,8)] have "edge_row a b e" "\<not> le_independence e" by (simp_all add: edge_row_def)
  with that [of f' "[e]"] * assms False show thesis
    by (simp add: record_intra_edge_def act_bind_step settled_edges edge_listed_live)
qed

lemma record_propagation_edge_rows:
  assumes "sound_file H f" "read f = Inr rows" "settled rows" "resolve_author g sha = Inr who"
    and "safe_str a" "safe_str b" "safe_str art" "safe_str sha" "safe_json (ostr who)" "a \<noteq> []" "b \<noteq> []"
  obtains f' es where "record_propagation_edge H g a b art sha f = (Inr (), f')" and "sound_file H f'"
    and "read f' = Inr (rows @ es)"
    and "es = [] \<and> live_edge rows (JStr a, JStr b) \<or>
      (\<exists>e. es = [e] \<and> edge_row a b e \<and> le_author e = ostr who \<and> le_independence e = (who \<noteq> None))"
proof (cases "live_edge rows (JStr a, JStr b)")
  case True
  with that [of f "[]"] assms show thesis
    by (simp add: record_propagation_edge_def act_bind_step settled_edges edge_listed_live)
next
  case False
  let ?d = "[(''from_run'', JStr a), (''to_run'', JStr b), (''artifact'', JStr art), (''tip'', JStr sha)]"
  let ?p = "make_entry ''propagation-edge'' ''ok'' (Some (arrow a b)) (attest_witness (JObj ?d) sha (who \<noteq> None))
    who (Some b) (who \<noteq> None)"
  have "safe_entry ?p"
    using assms by (auto simp: safe_entry_def payload_def make_entry_def ascii_keys fleet_texts safe_arrow
        attest_witness_def obj_or_empty_def simp del: safe_json_obj)
      (auto simp: safe_json_def ascii_keys fleet_texts safe_arrow)
  from store.added [OF assms(1,2) this] obtain e f' where
    *: "build_and_append H f ?p = (Inr e, f')" "sound_file H f'" "read f' = Inr (rows @ [e])" "same_content ?p e" by blast
  have w: "le_event e = ''propagation-edge''" "le_author e = ostr who" "le_independence e = (who \<noteq> None)"
    "\<exists>d. obj_or_empty (le_witness e) = (''from_run'', JStr a) # (''to_run'', JStr b) # d"
    using same_content_fields [OF *(4)] by (auto simp: obj_or_empty_def make_entry_def attest_witness_def)
  then have "edge_row a b e" using edge_event_names [OF _ assms(10,11), of e] by (auto simp: edge_row_def)
  with that [of f' "[e]"] * w assms False show thesis
    by (simp add: record_propagation_edge_def act_bind_def settled_edges edge_listed_live append_attested_def act_res_def)
qed

text \<open>
  an edge is recorded once and with earned authorship: after \<open>record_propagation_edge\<close> on a verified
  ledger the pair is live and no other pair changed; when the pair was live before no edge row
  was written, otherwise exactly one was, carrying the author the substrate attests for the tip
  and claiming independence only when there is one; recording the pair again writes nothing.
\<close>

theorem edge_recorded_once:
  assumes "propagation_edges H f = (Inr es, f1)" and "sound_file H f" and "read f = Inr rows"
    and "\<And>i. i < length rows \<Longrightarrow> torn (rows ! i) \<Longrightarrow> safe_entry (marker i (rows ! i))"
    and "resolve_author g sha = Inr who"
    and "safe_str a" "safe_str b" "safe_str art" "safe_str sha" "safe_json (ostr who)" "a \<noteq> []" "b \<noteq> []"
  shows "\<exists>ms new f'. record_propagation_edge H g a b art sha f = (Inr (), f') \<and> read f' = Inr (rows @ ms @ new) \<and>
    sound_file H f' \<and> list_all (\<lambda>e. le_event e = ''malformed-edge'') ms \<and>
    (if live_edge rows (JStr a, JStr b) then new = []
     else \<exists>e. new = [e] \<and> le_event e = ''propagation-edge'' \<and> le_author e = ostr who \<and>
        le_independence e = (who \<noteq> None)) \<and>
    live_edge (rows @ ms @ new) = (\<lambda>k. k = (JStr a, JStr b) \<or> live_edge rows k) \<and>
    record_propagation_edge H g a b art sha f' = (Inr (), f')"
proof -
  from edges_settle [OF assms(1-4)] obtain fl ms where
    ms: "markers fl (List.enumerate 0 rows) ms" "sound_file H f1" "read f1 = Inr (rows @ ms)" "settled (rows @ ms)"
      "es = ledger_edges (rows @ ms)" by blast
  note quiet = markers_quiet [OF ms(1)]
  have same: "live_edge (rows @ ms) = live_edge rows" using quiet by (intro live_edge_quiet) auto
  have eq: "record_propagation_edge H g a b art sha f = record_propagation_edge H g a b art sha f1"
    using assms(1) settled_edges [OF ms(3,4)] ms(5) by (simp add: record_propagation_edge_def act_bind_def)
  from record_propagation_edge_rows [OF ms(2-4) assms(5-12)] obtain f' new where
    rec: "record_propagation_edge H g a b art sha f1 = (Inr (), f')" "sound_file H f'"
      "read f' = Inr ((rows @ ms) @ new)" and
    new: "new = [] \<and> live_edge (rows @ ms) (JStr a, JStr b) \<or>
      (\<exists>e. new = [e] \<and> edge_row a b e \<and> le_author e = ostr who \<and> le_independence e = (who \<noteq> None))" .
  have live: "live_edge (rows @ ms @ new) = (\<lambda>k. k = (JStr a, JStr b) \<or> live_edge rows k)"
    using new edge_row_live [of a b _ "rows @ ms"] same by auto
  have set': "settled (rows @ ms @ new)"
    using new ms(4) settled_snoc [of "rows @ ms"] by (auto simp: edge_row_def)
  have again: "record_propagation_edge H g a b art sha f' = (Inr (), f')"
    using settled_edges [OF rec(3) [unfolded append_assoc] set'] live
    by (simp add: record_propagation_edge_def act_bind_step edge_listed_live [OF set'])
  have none: "new = []" if l: "live_edge rows (JStr a, JStr b)"
  proof -
    have "record_propagation_edge H g a b art sha f1 = (Inr (), f1)"
      using settled_edges [OF ms(3,4)] l same
      by (simp add: record_propagation_edge_def act_bind_step edge_listed_live [OF ms(4)])
    then show ?thesis using rec(1,3) ms(3) by simp
  qed
  show ?thesis using rec new live again none quiet same unfolding eq
    by (intro exI [of _ ms] exI [of _ new] exI [of _ f']) (auto simp: list_all_iff edge_row_def)
qed

text \<open>A ledger with one edge, from \<open>a\<close> to \<open>b\<close>, written by the operations.\<close>

lemma empty_edges: "propagation_edges H None = (Inr [], None)"
  by (simp add: propagation_edges_def act_bind_def reading_def empty_read flagged_rows_def live_of_def empty_scan_def ret_def)

definition peer_git :: git where
  "peer_git args = Inr (0, ''codex'' @ [nl])"

lemma peer_author: "resolve_author peer_git ''a'' = Inr (Some ''codex'')"
  by code_simp

lemma peer_safe: "safe_json (ostr (Some ''codex''))"
  by (simp add: ascii_safe ascii_def byte_def)

theorem edge_recorded_once_witness:
  "\<exists>f' rows'. record_propagation_edge zero_hash peer_git ''a'' ''b'' ''a'' ''a'' None = (Inr (), f') \<and>
    read f' = Inr rows' \<and> live_edge rows' (JStr ''a'', JStr ''b'') \<and>
    record_propagation_edge zero_hash peer_git ''a'' ''b'' ''a'' ''a'' f' = (Inr (), f')"
  using edge_recorded_once [OF empty_edges empty_sound empty_read _ peer_author sample_names(1,2,1,1) peer_safe]
  by fastforce

lemma empty_settled: "settled []"
  by (simp add: settled_def flagged_rows_def unflagged_def)

text \<open>The witnesses of the two theorems on the reader, on a ledger with an edge and on one with a torn row.\<close>

lemma one_edge_ledger:
  obtains f e where "read f = Inr [e]" and "sound_file zero_hash f" and "settled [e]"
    and "live_edge [e] = (\<lambda>k. k = (JStr ''a'', JStr ''b''))"
proof -
  from record_propagation_edge_rows [OF empty_sound empty_read empty_settled peer_author sample_names(1,2,1,1) peer_safe list.distinct(2) list.distinct(2)]
  obtain f new where f: "read f = Inr ([] @ new)" "sound_file zero_hash f"
    and new: "new = [] \<and> live_edge [] (JStr ''a'', JStr ''b'') \<or>
      (\<exists>e. new = [e] \<and> edge_row ''a'' ''b'' e \<and> le_author e = ostr (Some ''codex'') \<and> le_independence e = (Some ''codex'' \<noteq> None))" .
  have none: "live_edge [] = (\<lambda>k. False)" by (simp add: live_edge_def last_edge_row_def fun_eq_iff)
  with new obtain e where e: "new = [e]" "edge_row ''a'' ''b'' e" by auto
  then have "settled [e]" "live_edge [e] = (\<lambda>k. k = (JStr ''a'', JStr ''b''))"
    using settled_snoc [OF empty_settled, of e] edge_row_live [OF e(2), of "[]"] none by (simp_all add: edge_row_def)
  with f e(1) that show thesis by simp
qed

theorem propagation_edges_exact_witness:
  "\<exists>f es. propagation_edges zero_hash f = (Inr es, f) \<and> (\<exists>a. (JStr ''a'', JStr ''b'', a) \<in> set es)"
proof -
  obtain f e where f: "read f = Inr [e]" "settled [e]" and live: "live_edge [e] = (\<lambda>k. k = (JStr ''a'', JStr ''b''))"
    by (rule one_edge_ledger)
  note es = settled_edges [OF f, of zero_hash]
  have "(JStr ''a'', JStr ''b'', edge_artifact [e] (JStr ''a'', JStr ''b'')) \<in> set (ledger_edges [e])"
    using propagation_edges_exact [OF es f(1)] live by simp
  with es show ?thesis by blast
qed

definition torn_sample :: entry where
  "torn_sample = plain_entry ''propagation-edge'' ''ok'' None JNull None"

lemma torn_sample_read:
  "read (write_rows [torn_sample]) = Inr (zero_chain JNull [torn_sample])"
  "sound_file zero_hash (write_rows [torn_sample])"
proof -
  have "list_all safe_entry [torn_sample]"
    by (simp add: torn_sample_def safe_plain_entry fleet_texts)
  from read_write_rows [OF this] show "read (write_rows [torn_sample]) = Inr (zero_chain JNull [torn_sample])"
    "sound_file zero_hash (write_rows [torn_sample])" by (auto simp: sound_file_def zero_digest_law)
qed

theorem torn_rows_flagged_once_witness:
  "\<exists>e m f'. read (write_rows [torn_sample]) = Inr [e] \<and> torn e \<and> read f' = Inr [e, m] \<and>
    same_content (marker 0 e) m \<and> propagation_edges zero_hash f' = (Inr [], f')"
proof -
  obtain e where e: "zero_chain JNull [torn_sample] = [e]" "torn e"
    by (simp add: torn_def torn_sample_def plain_entry_def make_entry_def named_ends_def obj_or_empty_def jget_def lookup_default_def)
  have safe: "safe_entry (marker 0 e)" using e(1)
    unfolding marker_def safe_plain_entry
    by (auto simp: fleet_texts torn_sample_def plain_entry_def make_entry_def obj_or_empty_def)
  from fl_append_returns [OF torn_sample_read(2,1) safe [unfolded marker_def]] obtain f' where
    "record_malformed_edge zero_hash 0 (obj_or_empty (le_witness e)) (write_rows [torn_sample]) = (Inr (), f')"
    by (auto simp: record_malformed_edge_def)
  then have run: "propagation_edges zero_hash (write_rows [torn_sample]) = (Inr [], f')"
    using e torn_sample_read(1)
    by (simp add: propagation_edges_def act_bind_def reading_def scan_row_def ret_def flagged_rows_def torn_def
        live_of_def empty_scan_def)
  have read: "read (write_rows [torn_sample]) = Inr [e]" using e(1) torn_sample_read(1) by simp
  have "flagged_rows [e] = Inr []" using e(2) by (simp add: flagged_rows_def torn_def)
  moreover have "unflagged [] (List.enumerate 0 [e]) = [(0, e)]" using e(2) by (simp add: unflagged_def)
  ultimately obtain m where "read f'' = Inr [e, m]" "same_content (marker 0 e) m" "propagation_edges zero_hash f'' = (Inr [], f'')"
    if "f'' = f'" for f''
    using torn_rows_flagged_once [OF run torn_sample_read(2) read] safe by (auto simp: markers_def list_all2_Cons1)
  with read e(2) show ?thesis by blast
qed

end
