(* ===== verification/Scheduler.thy ===== *)
theory Scheduler
  imports FleetLedger Program
begin

text \<open>
  The pool and ceiling scheduler, \<open>peers/fleet/scheduler.py\<close>. It is pure: it reads the rows of the
  fleet ledger, and the injected \<open>dep_check\<close>, which may raise, decides each dependency. A slot
  found in a witness is a JSON value, a slot of the pool a string. The cost that cannot be
  projected (the sentinel \<open>_UNKNOWN_COST\<close>) is \<open>None\<close>.
\<close>

record pool =
  po_slots :: "string list"
  po_affinity :: "(string \<times> string) list"

record ceiling =
  ce_max_tokens :: "int option"
  ce_max_runs :: "int option"

record schedule =
  sr_startable :: "string list"
  sr_assignments :: "(string \<times> string) list"
  sr_all_blocked :: bool

section \<open>Projected cost\<close>

definition over_any_ceiling :: int where
  "over_any_ceiling = push_bit 62 1"

definition project :: "string \<Rightarrow> (string \<times> int) list option \<Rightarrow> (string \<times> spec) list \<Rightarrow> int option res" where
  "project run_id projected by_id =
     (case (case projected of None \<Rightarrow> None | Some d \<Rightarrow> map_of d run_id) of
        Some c \<Rightarrow> Inr (Some c)
      | None \<Rightarrow>
          (case map_of by_id run_id of
             None \<Rightarrow> Inr None
           | Some s \<Rightarrow> (case sp_op_config s of
               None \<Rightarrow> Inl AttributeError
             | Some oc \<Rightarrow> Inr (bu_max_tokens (oc_budget oc)))))"

definition project_or_inf ::
  "string \<Rightarrow> (string \<times> int) list option \<Rightarrow> (string \<times> spec) list \<Rightarrow> bool \<Rightarrow> int res" where
  "project_or_inf run_id projected by_id ceilinged =
     res_bind (project run_id projected by_id) (\<lambda>cost.
       Inr (case cost of None \<Rightarrow> if ceilinged then over_any_ceiling else 0 | Some c \<Rightarrow> c))"

section \<open>Slots\<close>

definition in_flight :: "string list" where
  "in_flight = [''running'', ''start-intent'']"

definition finished :: "string list" where
  "finished = [''converged'', ''failed'', ''landed'', ''rejected'']"

definition has_status :: "entry list \<Rightarrow> string \<Rightarrow> string list \<Rightarrow> bool" where
  "has_status rows rid sts \<longleftrightarrow> (case latest rows rid of None \<Rightarrow> False | Some st \<Rightarrow> st \<in> set sts)"

definition status_subjects :: "entry list \<Rightarrow> string list" where
  "status_subjects rows =
     remdups (concat (map (\<lambda>r. if le_event r = ''run-status'' then
       (case le_subject r of None \<Rightarrow> [] | Some s \<Rightarrow> if s = [] then [] else [s]) else []) rows))"

definition held_slot :: "entry list \<Rightarrow> string \<Rightarrow> json list res" where
  "held_slot rows rid =
     (if has_status rows rid in_flight \<and> truthy (slot_in rows rid)
      then res_bind (hash_key (slot_in rows rid)) (\<lambda>s. Inr [s]) else Inr [])"

definition occupied_slots :: "entry list \<Rightarrow> json list res" where
  "occupied_slots rows =
     res_bind (res_map (held_slot rows) (status_subjects rows)) (\<lambda>slots. Inr (remdups (concat slots)))"

definition pick_slot :: "spec \<Rightarrow> string list \<Rightarrow> pool \<Rightarrow> json list \<Rightarrow> string option" where
  "pick_slot s free pool used =
     (case sp_affinity s of
        Some label \<Rightarrow>
          if label \<noteq> [] then
            (case map_of (po_affinity pool) label of
               None \<Rightarrow> None
             | Some pinned \<Rightarrow> if pinned \<in> set free \<and> JStr pinned \<notin> set used then Some pinned else None)
          else find (\<lambda>slot. JStr slot \<notin> set used) free
      | None \<Rightarrow> find (\<lambda>slot. JStr slot \<notin> set used) free)"

section \<open>The schedule\<close>

text \<open>The state of the loop over the ready runs.\<close>

record sched =
  sd_startable :: "string list"
  sd_assignments :: "(string \<times> string) list"
  sd_used_slots :: "json list"
  sd_used_tokens :: int
  sd_blocked :: bool

definition over_ceiling :: "ceiling \<Rightarrow> int \<Rightarrow> int option \<Rightarrow> bool" where
  "over_ceiling ce used cost \<longleftrightarrow>
     (case ce_max_tokens ce of None \<Rightarrow> False
      | Some m \<Rightarrow> (case cost of None \<Rightarrow> True | Some c \<Rightarrow> used + c > m))"

definition over_runs :: "ceiling \<Rightarrow> json list \<Rightarrow> bool" where
  "over_runs ce used_slots \<longleftrightarrow>
     (case ce_max_runs ce of None \<Rightarrow> False | Some m \<Rightarrow> int (length used_slots) \<ge> m)"

definition consider_run ::
  "pool \<Rightarrow> ceiling \<Rightarrow> (string \<times> int) list option \<Rightarrow> (string \<times> spec) list \<Rightarrow> string list \<Rightarrow> spec \<Rightarrow> sched \<Rightarrow> sched res" where
  "consider_run pool ce projected by_id free s sd =
     res_bind (project (sp_run_id s) projected by_id) (\<lambda>cost.
       Inr (if over_ceiling ce (sd_used_tokens sd) cost \<or> over_runs ce (sd_used_slots sd)
            then sd\<lparr>sd_blocked := True\<rparr>
            else case pick_slot s free pool (sd_used_slots sd) of
                None \<Rightarrow> sd
              | Some slot \<Rightarrow> sd\<lparr>sd_startable := sd_startable sd @ [sp_run_id s],
                  sd_assignments := sd_assignments sd @ [(sp_run_id s, slot)],
                  sd_used_tokens := (case cost of None \<Rightarrow> sd_used_tokens sd | Some c \<Rightarrow> sd_used_tokens sd + c),
                  sd_used_slots := sd_used_slots sd @ [JStr slot]\<rparr>))"

fun consider_all ::
  "pool \<Rightarrow> ceiling \<Rightarrow> (string \<times> int) list option \<Rightarrow> (string \<times> spec) list \<Rightarrow> string list \<Rightarrow> spec list \<Rightarrow> sched \<Rightarrow> sched res" where
  "consider_all pool ce projected by_id free [] sd = Inr sd"
| "consider_all pool ce projected by_id free (s # ss) sd =
     res_bind (consider_run pool ce projected by_id free s sd) (consider_all pool ce projected by_id free ss)"

fun ready_runs :: "entry list \<Rightarrow> (string \<Rightarrow> string \<Rightarrow> bool res) \<Rightarrow> spec list \<Rightarrow> spec list res" where
  "ready_runs rows dep_check [] = Inr []"
| "ready_runs rows dep_check (s # ss) =
     (if has_status rows (sp_run_id s) in_flight \<or> has_status rows (sp_run_id s) finished
      then ready_runs rows dep_check ss
      else res_bind (res_all (\<lambda>dep. dep_check dep (sp_run_id s)) (sp_depends_on s)) (\<lambda>ok.
        res_bind (ready_runs rows dep_check ss) (\<lambda>rest. Inr (if ok then s # rest else rest))))"

text \<open>\<open>{s.run_id: s for s in program.runs}\<close>\<close>

definition by_run_id :: "spec list \<Rightarrow> (string \<times> spec) list" where
  "by_run_id runs = dict_of (map (\<lambda>s. (sp_run_id s, s)) runs)"

definition in_flight_runs :: "spec list \<Rightarrow> entry list \<Rightarrow> string list" where
  "in_flight_runs runs rows = filter (\<lambda>rid. has_status rows rid in_flight) (map fst (by_run_id runs))"

definition in_flight_costs ::
  "spec list \<Rightarrow> entry list \<Rightarrow> ceiling \<Rightarrow> (string \<times> int) list option \<Rightarrow> int list res" where
  "in_flight_costs runs rows ce projected =
     res_map (\<lambda>rid. project_or_inf rid projected (by_run_id runs) (ce_max_tokens ce \<noteq> None)) (in_flight_runs runs rows)"

definition startable_runs ::
  "spec list \<Rightarrow> entry list \<Rightarrow> pool \<Rightarrow> ceiling \<Rightarrow> (string \<Rightarrow> string \<Rightarrow> bool res) \<Rightarrow> (string \<times> int) list option
   \<Rightarrow> schedule res" where
  "startable_runs runs rows pool ce dep_check projected =
     (let by_id = by_run_id runs in
      res_bind (occupied_slots rows) (\<lambda>busy.
      (let free = filter (\<lambda>s. JStr s \<notin> set busy) (po_slots pool) in
      res_bind (ready_runs rows dep_check runs) (\<lambda>ready.
      res_bind (in_flight_costs runs rows ce projected) (\<lambda>costs.
      res_bind (consider_all pool ce projected by_id free ready
          \<lparr>sd_startable = [], sd_assignments = [], sd_used_slots = busy, sd_used_tokens = sum_list costs,
           sd_blocked = False\<rparr>) (\<lambda>sd.
        Inr \<lparr>sr_startable = sd_startable sd, sr_assignments = sd_assignments sd,
             sr_all_blocked = (sd_startable sd = [] \<and> sd_blocked sd \<and> ready \<noteq> [])\<rparr>))))))"

section \<open>The loop invariant\<close>

text \<open>What the loop keeps, from the busy slots and the tokens in flight it starts with.\<close>

definition costs_of :: "(string \<times> int) list option \<Rightarrow> (string \<times> spec) list \<Rightarrow> string list \<Rightarrow> int" where
  "costs_of projected by_id rids =
     sum_list (map (\<lambda>rid. case project rid projected by_id of Inr (Some c) \<Rightarrow> c | _ \<Rightarrow> 0) rids)"

definition sched_inv ::
  "pool \<Rightarrow> ceiling \<Rightarrow> (string \<times> int) list option \<Rightarrow> (string \<times> spec) list \<Rightarrow> string list \<Rightarrow> json list \<Rightarrow> int
   \<Rightarrow> spec list \<Rightarrow> sched \<Rightarrow> bool" where
  "sched_inv pool ce projected by_id free busy base done sd \<longleftrightarrow>
     map fst (sd_assignments sd) = sd_startable sd \<and>
     sd_used_slots sd = busy @ map (JStr \<circ> snd) (sd_assignments sd) \<and>
     distinct (map snd (sd_assignments sd)) \<and> set (map snd (sd_assignments sd)) \<subseteq> set free \<and>
     (\<forall>(rid, slot) \<in> set (sd_assignments sd). \<exists>s \<in> set done. sp_run_id s = rid \<and>
        (\<forall>label. sp_affinity s = Some label \<longrightarrow> label \<noteq> [] \<longrightarrow> map_of (po_affinity pool) label = Some slot)) \<and>
     sd_used_tokens sd = base + costs_of projected by_id (sd_startable sd) \<and>
     (sd_startable sd \<noteq> [] \<longrightarrow> (\<forall>m. ce_max_tokens ce = Some m \<longrightarrow> sd_used_tokens sd \<le> m \<and>
        (\<forall>rid \<in> set (sd_startable sd). \<exists>c. project rid projected by_id = Inr (Some c)))) \<and>
     (sd_startable sd \<noteq> [] \<longrightarrow> (\<forall>m. ce_max_runs ce = Some m \<longrightarrow> int (length (sd_used_slots sd)) \<le> m))"

lemma pick_slot_Some:
  assumes "pick_slot s free pool used = Some slot"
  shows "slot \<in> set free \<and> JStr slot \<notin> set used \<and>
    (\<forall>label. sp_affinity s = Some label \<longrightarrow> label \<noteq> [] \<longrightarrow> map_of (po_affinity pool) label = Some slot)"
  using assms by (auto simp: pick_slot_def find_Some_iff split: option.splits if_splits)

lemma consider_run_inv:
  assumes "sched_inv pool ce projected by_id free busy base done sd"
    and "consider_run pool ce projected by_id free s sd = Inr sd'"
  shows "sched_inv pool ce projected by_id free busy base (done @ [s]) sd'"
proof -
  from assms(2) obtain cost where cost: "project (sp_run_id s) projected by_id = Inr cost"
    by (auto simp: consider_run_def res_bind_Inr_iff)
  show ?thesis
  proof (cases "\<not> (over_ceiling ce (sd_used_tokens sd) cost \<or> over_runs ce (sd_used_slots sd)) \<and>
      pick_slot s free pool (sd_used_slots sd) \<noteq> None")
    case False
    with assms(2) cost have "sd' = sd \<or> sd' = sd\<lparr>sd_blocked := True\<rparr>"
      by (auto simp: consider_run_def split: if_splits)
    with assms(1) show ?thesis unfolding sched_inv_def by fastforce
  next
    case True
    then obtain slot where slot: "pick_slot s free pool (sd_used_slots sd) = Some slot" by auto
    have sd': "sd' = sd\<lparr>sd_startable := sd_startable sd @ [sp_run_id s],
        sd_assignments := sd_assignments sd @ [(sp_run_id s, slot)],
        sd_used_tokens := (case cost of None \<Rightarrow> sd_used_tokens sd | Some c \<Rightarrow> sd_used_tokens sd + c),
        sd_used_slots := sd_used_slots sd @ [JStr slot]\<rparr>"
      using assms(2) cost slot True by (simp add: consider_run_def)
    note pick = pick_slot_Some [OF slot]
    have "sd_used_tokens sd' \<le> m \<and> (\<exists>c. cost = Some c)" if "ce_max_tokens ce = Some m" for m
      using True that by (auto simp: sd' over_ceiling_def split: option.splits)
    moreover have "int (length (sd_used_slots sd')) \<le> m" if "ce_max_runs ce = Some m" for m
      using True that by (auto simp: sd' over_runs_def)
    moreover have "sd_used_tokens sd' = sd_used_tokens sd + costs_of projected by_id [sp_run_id s]"
      by (auto simp: sd' costs_of_def cost split: option.splits)
    moreover have "slot \<notin> snd ` set (sd_assignments sd)"
      using pick assms(1) by (auto simp: sched_inv_def)
    ultimately show ?thesis using assms(1) pick cost unfolding sched_inv_def
      by (auto simp: sd' costs_of_def)
  qed
qed

lemma sched_invD:
  assumes "sched_inv pool ce projected by_id free busy base done sd"
  shows "map fst (sd_assignments sd) = sd_startable sd"
    and "length (sd_used_slots sd) = length busy + length (sd_startable sd)"
    and "distinct (map snd (sd_assignments sd))"
    and "(rid, slot) \<in> set (sd_assignments sd) \<Longrightarrow> slot \<in> set free"
    and "(rid, slot) \<in> set (sd_assignments sd) \<Longrightarrow> \<exists>s \<in> set done. sp_run_id s = rid \<and>
        (\<forall>label. sp_affinity s = Some label \<longrightarrow> label \<noteq> [] \<longrightarrow> map_of (po_affinity pool) label = Some slot)"
    and "sd_used_tokens sd = base + costs_of projected by_id (sd_startable sd)"
    and "sd_startable sd \<noteq> [] \<Longrightarrow> ce_max_tokens ce = Some m \<Longrightarrow> sd_used_tokens sd \<le> m"
    and "sd_startable sd \<noteq> [] \<Longrightarrow> ce_max_tokens ce = Some m \<Longrightarrow> rid \<in> set (sd_startable sd) \<Longrightarrow>
        \<exists>c. project rid projected by_id = Inr (Some c)"
    and "sd_startable sd \<noteq> [] \<Longrightarrow> ce_max_runs ce = Some k \<Longrightarrow> int (length (sd_used_slots sd)) \<le> k"
proof -
  have "length (sd_startable sd) = length (sd_assignments sd)"
    using assms unfolding sched_inv_def by (metis length_map)
  with assms show "length (sd_used_slots sd) = length busy + length (sd_startable sd)"
    unfolding sched_inv_def by simp
qed (use assms in \<open>auto simp: sched_inv_def\<close>)

lemma consider_all_inv:
  "sched_inv pool ce projected by_id free busy base done sd \<Longrightarrow>
   consider_all pool ce projected by_id free ss sd = Inr sd' \<Longrightarrow>
   sched_inv pool ce projected by_id free busy base (done @ ss) sd'"
proof (induction ss arbitrary: sd "done")
  case (Cons s ss)
  then obtain sd1 where 1: "consider_run pool ce projected by_id free s sd = Inr sd1"
    "consider_all pool ce projected by_id free ss sd1 = Inr sd'" by (auto simp: res_bind_Inr_iff)
  from Cons.IH [OF consider_run_inv [OF Cons.prems(1) 1(1)] 1(2)] show ?case by simp
qed simp

text \<open>A schedule, taken apart.\<close>

lemma startable_runs_Inr:
  assumes "startable_runs runs rows pool ce dep_check projected = Inr r"
  obtains busy ready costs sd where "occupied_slots rows = Inr busy" and "ready_runs rows dep_check runs = Inr ready"
    and "in_flight_costs runs rows ce projected = Inr costs"
    and "consider_all pool ce projected (by_run_id runs) (filter (\<lambda>s. JStr s \<notin> set busy) (po_slots pool)) ready
        \<lparr>sd_startable = [], sd_assignments = [], sd_used_slots = busy, sd_used_tokens = sum_list costs,
         sd_blocked = False\<rparr> = Inr sd"
    and "sched_inv pool ce projected (by_run_id runs) (filter (\<lambda>s. JStr s \<notin> set busy) (po_slots pool)) busy
        (sum_list costs) ready sd"
    and "sr_startable r = sd_startable sd" and "sr_assignments r = sd_assignments sd"
    and "sr_all_blocked r \<longleftrightarrow> sd_startable sd = [] \<and> sd_blocked sd \<and> ready \<noteq> []"
proof -
  from assms obtain busy ready costs sd where *: "occupied_slots rows = Inr busy" "ready_runs rows dep_check runs = Inr ready"
    "in_flight_costs runs rows ce projected = Inr costs"
    "consider_all pool ce projected (by_run_id runs) (filter (\<lambda>s. JStr s \<notin> set busy) (po_slots pool)) ready
        \<lparr>sd_startable = [], sd_assignments = [], sd_used_slots = busy, sd_used_tokens = sum_list costs,
         sd_blocked = False\<rparr> = Inr sd"
    "sr_startable r = sd_startable sd" "sr_assignments r = sd_assignments sd"
    "sr_all_blocked r \<longleftrightarrow> sd_startable sd = [] \<and> sd_blocked sd \<and> ready \<noteq> []"
    by (auto simp: startable_runs_def Let_def res_bind_Inr_iff)
  have "sched_inv pool ce projected (by_run_id runs) (filter (\<lambda>s. JStr s \<notin> set busy) (po_slots pool)) busy
      (sum_list costs) [] \<lparr>sd_startable = [], sd_assignments = [], sd_used_slots = busy,
        sd_used_tokens = sum_list costs, sd_blocked = False\<rparr>"
    by (simp add: sched_inv_def costs_of_def)
  from consider_all_inv [OF this *(4)] * that show thesis by simp
qed

section \<open>What a schedule guarantees\<close>

text \<open>
  C26: no overspend: when anything is started under a token ceiling, every started run has a known
  cost, and the projected cost of what is in flight plus that of everything started is within
  the ceiling; under a run ceiling the occupied slots and the new ones together stay within it.
\<close>

theorem schedule_within_ceiling:
  assumes "startable_runs runs rows pool ce dep_check projected = Inr r" and "sr_startable r \<noteq> []"
  shows "\<exists>busy costs. occupied_slots rows = Inr busy \<and> in_flight_costs runs rows ce projected = Inr costs \<and>
    (\<forall>m. ce_max_tokens ce = Some m \<longrightarrow>
       (\<forall>rid \<in> set (sr_startable r). \<exists>c. project rid projected (by_run_id runs) = Inr (Some c)) \<and>
       sum_list costs + costs_of projected (by_run_id runs) (sr_startable r) \<le> m) \<and>
    (\<forall>m. ce_max_runs ce = Some m \<longrightarrow> int (length busy + length (sr_startable r)) \<le> m)"
  using assms(1)
proof (rule startable_runs_Inr)
  fix busy ready costs sd
  assume a: "occupied_slots rows = Inr busy" "in_flight_costs runs rows ce projected = Inr costs"
    and inv: "sched_inv pool ce projected (by_run_id runs) (filter (\<lambda>s. JStr s \<notin> set busy) (po_slots pool)) busy
        (sum_list costs) ready sd" and r: "sr_startable r = sd_startable sd"
  note d = sched_invD [OF inv]
  have ne: "sd_startable sd \<noteq> []" using r assms(2) by simp
  have "(\<forall>rid \<in> set (sd_startable sd). \<exists>c. project rid projected (by_run_id runs) = Inr (Some c)) \<and>
      sum_list costs + costs_of projected (by_run_id runs) (sd_startable sd) \<le> m" if m: "ce_max_tokens ce = Some m" for m
    using d(8) [OF ne m] d(7) [OF ne m] unfolding d(6) by blast
  moreover have "int (length busy + length (sd_startable sd)) \<le> k" if "ce_max_runs ce = Some k" for k
    using d(9) [OF ne that] unfolding d(2) .
  ultimately show ?thesis using a unfolding r by blast
qed

lemma occupied_slots_mem:
  assumes "occupied_slots rows = Inr busy" and "has_status rows rid in_flight" and "slot_in rows rid = JStr slot"
    and "slot \<noteq> []" and "rid \<noteq> []"
  shows "JStr slot \<in> set busy"
proof -
  from assms(2) obtain e where "find_last (status_row rid) rows = Some e"
    unfolding has_status_def latest_def by (cases "find_last (status_row rid) rows") simp_all
  then have "e \<in> set rows" "le_event e = ''run-status''" "le_subject e = Some rid"
    using find_last_Some [of "status_row rid" rows e] by (simp_all add: status_row_def)
  then have "rid \<in> set (status_subjects rows)"
    unfolding status_subjects_def set_remdups set_concat set_map using assms(5)
    by (intro UN_I [of "[rid]"] image_eqI [of _ _ e]) simp_all
  then obtain i where i: "i < length (status_subjects rows)" "status_subjects rows ! i = rid"
    by (auto simp: in_set_conv_nth)
  from assms(1) obtain ss where ss: "res_map (held_slot rows) (status_subjects rows) = Inr ss" "busy = remdups (concat ss)"
    unfolding occupied_slots_def res_bind_Inr_iff by auto
  from res_map_nth [OF ss(1) i(1)] assms(2-4) i(2) have "ss ! i = [JStr slot]" by (simp add: held_slot_def hash_key_def)
  moreover have "ss ! i \<in> set ss" using i(1) res_map_length [OF ss(1)] by simp
  ultimately show ?thesis unfolding ss(2) by force
qed

lemma ready_runs_mem:
  "ready_runs rows dep_check runs = Inr ready \<Longrightarrow> s \<in> set ready \<Longrightarrow>
   s \<in> set runs \<and> \<not> has_status rows (sp_run_id s) in_flight \<and> \<not> has_status rows (sp_run_id s) finished \<and>
   (\<forall>dep \<in> set (sp_depends_on s). dep_check dep (sp_run_id s) = Inr True)"
proof (induction runs arbitrary: ready)
  case (Cons x runs)
  from Cons.prems Cons.IH show ?case
    by (auto simp: res_bind_Inr_iff res_all_True split: if_splits)
qed simp

text \<open>
  an assignment is honest: its run is in the program, is neither in flight nor finished, and
  every dependency of it was checked and holds; its slot is a pool slot, the pinned one when the
  run has an affinity, no two assignments share a slot, and no run that the ledger shows in
  flight, of this program or another, holds it.
\<close>

theorem assignments_are_sound:
  assumes "startable_runs runs rows pool ce dep_check projected = Inr r"
  shows "map fst (sr_assignments r) = sr_startable r \<and> distinct (map snd (sr_assignments r)) \<and>
    (\<forall>(rid, slot) \<in> set (sr_assignments r). slot \<in> set (po_slots pool) \<and>
       (\<exists>s \<in> set runs. sp_run_id s = rid \<and> \<not> has_status rows rid in_flight \<and> \<not> has_status rows rid finished \<and>
          (\<forall>dep \<in> set (sp_depends_on s). dep_check dep rid = Inr True) \<and>
          (\<forall>label. sp_affinity s = Some label \<longrightarrow> label \<noteq> [] \<longrightarrow> map_of (po_affinity pool) label = Some slot)) \<and>
       (\<forall>other. other \<noteq> [] \<longrightarrow> slot \<noteq> [] \<longrightarrow> has_status rows other in_flight \<longrightarrow> slot_in rows other \<noteq> JStr slot))"
  using assms
proof (rule startable_runs_Inr)
  fix busy ready costs sd
  assume busy: "occupied_slots rows = Inr busy" and ready: "ready_runs rows dep_check runs = Inr ready"
    and inv: "sched_inv pool ce projected (by_run_id runs) (filter (\<lambda>s. JStr s \<notin> set busy) (po_slots pool)) busy
        (sum_list costs) ready sd" and r: "sr_startable r = sd_startable sd" "sr_assignments r = sd_assignments sd"
  note d = sched_invD [OF inv]
  have "slot \<in> set (po_slots pool) \<and>
       (\<exists>s \<in> set runs. sp_run_id s = rid \<and> \<not> has_status rows rid in_flight \<and> \<not> has_status rows rid finished \<and>
          (\<forall>dep \<in> set (sp_depends_on s). dep_check dep rid = Inr True) \<and>
          (\<forall>label. sp_affinity s = Some label \<longrightarrow> label \<noteq> [] \<longrightarrow> map_of (po_affinity pool) label = Some slot)) \<and>
       (\<forall>other. other \<noteq> [] \<longrightarrow> slot \<noteq> [] \<longrightarrow> has_status rows other in_flight \<longrightarrow> slot_in rows other \<noteq> JStr slot)"
    if as: "(rid, slot) \<in> set (sd_assignments sd)" for rid slot
  proof -
    have free: "slot \<in> set (po_slots pool)" "JStr slot \<notin> set busy" using d(4) [OF as] by auto
    obtain s where s: "s \<in> set ready" "sp_run_id s = rid"
      "\<forall>label. sp_affinity s = Some label \<longrightarrow> label \<noteq> [] \<longrightarrow> map_of (po_affinity pool) label = Some slot"
      using d(5) [OF as] by blast
    have "slot_in rows other \<noteq> JStr slot" if "other \<noteq> []" "slot \<noteq> []" "has_status rows other in_flight" for other
      using occupied_slots_mem [OF busy that(3) _ that(2,1)] free(2) by blast
    with free(1) s ready_runs_mem [OF ready s(1)] show ?thesis by blast
  qed
  with d(1,3) show ?thesis unfolding r by auto
qed

text \<open>The loop only adds: what was started stays started, a used slot stays used.\<close>

lemma consider_run_cases:
  assumes "consider_run pool ce projected by_id free s sd = Inr sd'"
  obtains (stopped) cost where "project (sp_run_id s) projected by_id = Inr cost"
      "over_ceiling ce (sd_used_tokens sd) cost \<or> over_runs ce (sd_used_slots sd)" "sd' = sd\<lparr>sd_blocked := True\<rparr>"
  | (slotless) cost where "project (sp_run_id s) projected by_id = Inr cost"
      "\<not> over_ceiling ce (sd_used_tokens sd) cost" "\<not> over_runs ce (sd_used_slots sd)"
      "pick_slot s free pool (sd_used_slots sd) = None" "sd' = sd"
  | (started) slot where "sd_startable sd' = sd_startable sd @ [sp_run_id s]"
      "sd_used_slots sd' = sd_used_slots sd @ [JStr slot]" "sd_blocked sd' = sd_blocked sd"
proof -
  from assms obtain cost where cost: "project (sp_run_id s) projected by_id = Inr cost"
    by (auto simp: consider_run_def res_bind_Inr_iff)
  show thesis
  proof (cases "over_ceiling ce (sd_used_tokens sd) cost \<or> over_runs ce (sd_used_slots sd)")
    case True
    then have "sd' = sd\<lparr>sd_blocked := True\<rparr>" using assms cost by (simp add: consider_run_def)
    with stopped [OF cost True] show thesis by blast
  next
    case False
    show thesis
    proof (cases "pick_slot s free pool (sd_used_slots sd)")
      case None
      then have "sd' = sd" using assms cost False by (simp add: consider_run_def)
      with None cost False show thesis by (intro slotless) auto
    next
      case (Some slot)
      then show thesis using assms cost False by (intro started [of slot]) (auto simp: consider_run_def)
    qed
  qed
qed

lemma consider_all_mono:
  "consider_all pool ce projected by_id free ss sd = Inr sd' \<Longrightarrow>
   set (sd_startable sd) \<subseteq> set (sd_startable sd') \<and> set (sd_used_slots sd) \<subseteq> set (sd_used_slots sd')"
proof (induction ss arbitrary: sd)
  case (Cons s ss)
  then obtain sd1 where 1: "consider_run pool ce projected by_id free s sd = Inr sd1"
    "consider_all pool ce projected by_id free ss sd1 = Inr sd'" by (auto simp: res_bind_Inr_iff)
  from 1(1) have "set (sd_startable sd) \<subseteq> set (sd_startable sd1) \<and> set (sd_used_slots sd) \<subseteq> set (sd_used_slots sd1)"
    by (cases rule: consider_run_cases) auto
  with Cons.IH [OF 1(2)] show ?case by blast
qed simp

definition stopped_by_ceiling ::
  "ceiling \<Rightarrow> (string \<times> int) list option \<Rightarrow> (string \<times> spec) list \<Rightarrow> int \<Rightarrow> json list \<Rightarrow> spec \<Rightarrow> bool" where
  "stopped_by_ceiling ce projected by_id tokens used s \<longleftrightarrow>
     (case project (sp_run_id s) projected by_id of
        Inl _ \<Rightarrow> False | Inr cost \<Rightarrow> over_ceiling ce tokens cost \<or> over_runs ce used)"

lemma consider_all_blocked:
  "consider_all pool ce projected by_id free ss sd = Inr sd' \<Longrightarrow> sd_startable sd' = [] \<Longrightarrow>
   sd_blocked sd' \<longleftrightarrow> sd_blocked sd \<or>
     (\<exists>s \<in> set ss. stopped_by_ceiling ce projected by_id (sd_used_tokens sd) (sd_used_slots sd) s)"
proof (induction ss arbitrary: sd)
  case (Cons s ss)
  then obtain sd1 where 1: "consider_run pool ce projected by_id free s sd = Inr sd1"
    "consider_all pool ce projected by_id free ss sd1 = Inr sd'" by (auto simp: res_bind_Inr_iff)
  note ih = Cons.IH [OF 1(2) Cons.prems(2)]
  from 1(1) show ?case
  proof (cases rule: consider_run_cases)
    case (stopped cost)
    with ih show ?thesis by (auto simp: stopped_by_ceiling_def)
  next
    case (slotless cost)
    with ih show ?thesis by (auto simp: stopped_by_ceiling_def)
  next
    case (started slot)
    with consider_all_mono [OF 1(2)] Cons.prems(2) show ?thesis by auto
  qed
qed simp

text \<open>
  the ceiling signal is exact: \<open>all_blocked_by_ceiling\<close> is raised if and only if nothing could be
  started and some ready run was stopped by a ceiling, a run of unknown cost under a token
  ceiling included, whether or not a slot was free for it.
\<close>

theorem ceiling_signal_exact:
  assumes "startable_runs runs rows pool ce dep_check projected = Inr r"
    and "ready_runs rows dep_check runs = Inr ready" and "occupied_slots rows = Inr busy"
    and "in_flight_costs runs rows ce projected = Inr costs"
  shows "sr_all_blocked r \<longleftrightarrow> sr_startable r = [] \<and>
    (\<exists>s \<in> set ready. stopped_by_ceiling ce projected (by_run_id runs) (sum_list costs) busy s)"
  using assms(1)
proof (rule startable_runs_Inr)
  fix busy' ready' costs' sd
  assume a: "occupied_slots rows = Inr busy'" "ready_runs rows dep_check runs = Inr ready'"
    "in_flight_costs runs rows ce projected = Inr costs'"
    and run: "consider_all pool ce projected (by_run_id runs) (filter (\<lambda>s. JStr s \<notin> set busy') (po_slots pool)) ready'
        \<lparr>sd_startable = [], sd_assignments = [], sd_used_slots = busy', sd_used_tokens = sum_list costs',
         sd_blocked = False\<rparr> = Inr sd"
    and r: "sr_startable r = sd_startable sd" "sr_all_blocked r \<longleftrightarrow> sd_startable sd = [] \<and> sd_blocked sd \<and> ready' \<noteq> []"
  have eq: "busy' = busy" "ready' = ready" "costs' = costs" using a assms(2-4) by auto
  show ?thesis using consider_all_blocked [OF run] unfolding r eq by auto
qed

lemma consider_all_busy:
  assumes "ce_max_tokens ce = None" and "ce_max_runs ce = None" and "sp_affinity s = None"
  shows "consider_all pool ce projected by_id free ss sd = Inr sd' \<Longrightarrow> s \<in> set ss \<Longrightarrow>
    sp_run_id s \<notin> set (sd_startable sd') \<Longrightarrow> \<forall>slot \<in> set free. JStr slot \<in> set (sd_used_slots sd')"
proof (induction ss arbitrary: sd)
  case (Cons x ss)
  then obtain sd1 where 1: "consider_run pool ce projected by_id free x sd = Inr sd1"
    "consider_all pool ce projected by_id free ss sd1 = Inr sd'" by (auto simp: res_bind_Inr_iff)
  note mono = consider_all_mono [OF 1(2)]
  show ?case
  proof (cases "x = s")
    case False
    with Cons 1 show ?thesis by auto
  next
    case True
    from 1(1) show ?thesis
    proof (cases rule: consider_run_cases)
      case (stopped cost)
      with assms show ?thesis by (simp add: over_ceiling_def over_runs_def)
    next
      case (slotless cost)
      with True assms(3) have "\<forall>slot \<in> set free. JStr slot \<in> set (sd_used_slots sd)"
        by (simp add: pick_slot_def find_None_iff)
      with slotless mono show ?thesis by blast
    next
      case (started slot)
      with mono True Cons.prems(3) show ?thesis by auto
    qed
  qed
qed simp

text \<open>
  no capacity is left idle: without a ceiling, when a ready run that pins no slot is not started,
  every slot of the pool is held by a run in flight or was given to another run this tick.
\<close>

theorem schedule_uses_every_slot:
  assumes "startable_runs runs rows pool ce dep_check projected = Inr r"
    and "ce_max_tokens ce = None" and "ce_max_runs ce = None"
    and "ready_runs rows dep_check runs = Inr ready" and "occupied_slots rows = Inr busy"
    and "s \<in> set ready" and "sp_affinity s = None" and "sp_run_id s \<notin> set (sr_startable r)"
    and "slot \<in> set (po_slots pool)"
  shows "JStr slot \<in> set busy \<or> slot \<in> snd ` set (sr_assignments r)"
  using assms(1)
proof (rule startable_runs_Inr)
  fix busy' ready' costs' sd
  assume a: "occupied_slots rows = Inr busy'" "ready_runs rows dep_check runs = Inr ready'"
    and run: "consider_all pool ce projected (by_run_id runs) (filter (\<lambda>s. JStr s \<notin> set busy') (po_slots pool)) ready'
        \<lparr>sd_startable = [], sd_assignments = [], sd_used_slots = busy', sd_used_tokens = sum_list costs',
         sd_blocked = False\<rparr> = Inr sd"
    and inv: "sched_inv pool ce projected (by_run_id runs) (filter (\<lambda>s. JStr s \<notin> set busy') (po_slots pool)) busy'
        (sum_list costs') ready' sd"
    and r: "sr_startable r = sd_startable sd" "sr_assignments r = sd_assignments sd"
  have eq: "busy' = busy" "ready' = ready" using a assms(4,5) by auto
  have "JStr slot \<in> set busy \<or> JStr slot \<in> set (sd_used_slots sd)"
    using consider_all_busy [OF assms(2,3,7) run] assms(6,8,9) unfolding r eq by auto
  moreover have "sd_used_slots sd = busy @ map (JStr \<circ> snd) (sd_assignments sd)"
    using inv unfolding sched_inv_def eq by simp
  ultimately show ?thesis unfolding r by force
qed

section \<open>The dependency check as an interface\<close>

lemma started_is_ready:
  assumes "startable_runs runs rows pool ce check projected = Inr r" and "rid \<in> set (sr_startable r)"
  obtains s where "s \<in> set runs" and "sp_run_id s = rid"
    and "\<And>dep. dep \<in> set (sp_depends_on s) \<Longrightarrow> check dep rid = Inr True"
  using assms(1)
proof (rule startable_runs_Inr)
  fix busy ready costs sd
  assume ready: "ready_runs rows check runs = Inr ready"
    and inv: "sched_inv pool ce projected (by_run_id runs) (filter (\<lambda>s. JStr s \<notin> set busy) (po_slots pool)) busy
        (sum_list costs) ready sd" and r: "sr_startable r = sd_startable sd"
  from assms(2) have "rid \<in> set (map fst (sd_assignments sd))" unfolding sched_invD(1) [OF inv] r .
  then obtain slot where as: "(rid, slot) \<in> set (sd_assignments sd)" by auto
  from sched_invD(5) [OF inv as] obtain s where s: "s \<in> set ready" "sp_run_id s = rid" by blast
  with ready_runs_mem [OF ready s(1)] show thesis by (intro that [of s]) auto
qed

text \<open>What a dependency check promises to the scheduler: it answers yes only for a met dependency.\<close>

locale dependency_check =
  fixes check :: "string \<Rightarrow> string \<Rightarrow> bool res"
    and met :: "string \<Rightarrow> string \<Rightarrow> bool"
  assumes check_sound: "check dep rid = Inr True \<Longrightarrow> met dep rid"
begin

lemma started_deps_met:
  assumes "startable_runs runs rows pool ce check projected = Inr r" and "rid \<in> set (sr_startable r)"
  obtains s where "s \<in> set runs" and "sp_run_id s = rid" and "\<And>dep. dep \<in> set (sp_depends_on s) \<Longrightarrow> met dep rid"
  using started_is_ready [OF assms] check_sound by metis

end

section \<open>Two runs, one of which fits\<close>

definition sample_runs :: "spec list" where
  "sample_runs = [sample_spec ''a'' [], sample_spec ''b'' [''a'']]"

definition sample_pool :: pool where
  "sample_pool = \<lparr>po_slots = [''s1'', ''s2''], po_affinity = []\<rparr>"

definition sample_ceiling :: ceiling where
  "sample_ceiling = \<lparr>ce_max_tokens = Some 10, ce_max_runs = Some 2\<rparr>"

definition no_ceiling :: ceiling where
  "no_ceiling = \<lparr>ce_max_tokens = None, ce_max_runs = None\<rparr>"

definition sample_costs :: "(string \<times> int) list option" where
  "sample_costs = Some [(''a'', 6), (''b'', 7)]"

definition always :: "string \<Rightarrow> string \<Rightarrow> bool res" where
  "always dep rid = Inr True"

lemma sample_schedule:
  "startable_runs sample_runs [] sample_pool sample_ceiling always sample_costs =
     Inr \<lparr>sr_startable = [''a''], sr_assignments = [(''a'', ''s1'')], sr_all_blocked = False\<rparr>"
  "startable_runs sample_runs [] sample_pool sample_ceiling always None =
     Inr \<lparr>sr_startable = [], sr_assignments = [], sr_all_blocked = True\<rparr>"
  "startable_runs sample_runs [] (sample_pool\<lparr>po_slots := [''s1'']\<rparr>) no_ceiling always None =
     Inr \<lparr>sr_startable = [''a''], sr_assignments = [(''a'', ''s1'')], sr_all_blocked = False\<rparr>"
  by code_simp+

lemma sample_parts:
  "ready_runs [] always sample_runs = Inr sample_runs"
  "occupied_slots [] = Inr []"
  "in_flight_costs sample_runs [] sample_ceiling None = Inr []"
  by code_simp+

theorem schedule_within_ceiling_witness:
  "\<exists>busy costs. occupied_slots [] = Inr busy \<and> in_flight_costs sample_runs [] sample_ceiling sample_costs = Inr costs \<and>
    sum_list costs + costs_of sample_costs (by_run_id sample_runs) [''a''] \<le> 10 \<and> int (length busy + 1) \<le> 2"
  using schedule_within_ceiling [OF sample_schedule(1)] by (auto simp: sample_ceiling_def)

theorem assignments_are_sound_witness:
  "\<exists>s \<in> set sample_runs. sp_run_id s = ''a'' \<and> \<not> has_status [] ''a'' in_flight \<and> \<not> has_status [] ''a'' finished"
  using assignments_are_sound [OF sample_schedule(1)] by auto

theorem ceiling_signal_exact_witness:
  "\<exists>s \<in> set sample_runs. stopped_by_ceiling sample_ceiling None (by_run_id sample_runs) 0 [] s"
  using ceiling_signal_exact [OF sample_schedule(2) sample_parts] by simp

theorem schedule_uses_every_slot_witness:
  "JStr ''s1'' \<in> set [] \<or> ''s1'' \<in> snd ` {(''a'', ''s1'')}"
proof -
  have s: "sample_spec ''b'' [''a''] \<in> set sample_runs" "sp_affinity (sample_spec ''b'' [''a'']) = None"
    "sp_run_id (sample_spec ''b'' [''a'']) = ''b''"
    by (simp_all add: sample_runs_def sample_spec_def)
  show ?thesis
    using schedule_uses_every_slot [OF sample_schedule(3) _ _ sample_parts(1,2) s(1,2), of "''s1''"]
    by (simp add: no_ceiling_def s(3))
qed

end
