(* ===== verification/Satisfy.thy ===== *)
theory Satisfy
  imports Converge Scheduler
begin

text \<open>
  Dependency satisfaction by re-verification, \<open>peers/fleet/satisfy.py\<close>. \<open>G\<close> gives \<open>git\<close> in the
  directory of a path; \<open>resolve\<close> is \<open>Path.resolve\<close>. Nothing here reads the fleet ledger.
\<close>

definition propagated_tip :: "git \<Rightarrow> string \<Rightarrow> string option res" where
  "propagated_tip g from_run =
     res_bind (g [''rev-parse'', ''--verify'', ''--quiet'', propagated_ref from_run]) (\<lambda>(rc, out).
       Inr (if rc \<noteq> 0 then None else if strip out = [] then None else Some (strip out)))"

definition own_convergence :: "hash \<Rightarrow> os_open \<Rightarrow> git \<Rightarrow> mode_run \<Rightarrow> (bool \<times> entry list) res" where
  "own_convergence H os g run =
     res_bind (read (mr_ledger run)) (\<lambda>rows.
     res_bind (is_converged H os rows (Some (mr_mode_run run)) g (head_of (mr_branch run))) (\<lambda>ok.
       Inr (ok, rows)))"

definition derived_consumer_tip :: "hash \<Rightarrow> os_open \<Rightarrow> (string \<Rightarrow> git) \<Rightarrow> mode_run \<Rightarrow> string option res" where
  "derived_consumer_tip H os G consumer =
     res_bind (own_convergence H os (G (mr_tool consumer)) consumer) (\<lambda>(ok, rows).
       Inr (if ok then converged_commit rows else None))"

text \<open>The part of \<open>dep_satisfied\<close> for two tools, once the producer has converged.\<close>

definition cross_satisfied ::
  "hash \<Rightarrow> os_open \<Rightarrow> (string \<Rightarrow> git) \<Rightarrow> mode_run \<Rightarrow> mode_run \<Rightarrow> string \<Rightarrow> string \<Rightarrow> string \<Rightarrow> string \<Rightarrow> bool res" where
  "cross_satisfied H os G producer consumer producer_repo consumer_repo ws producer_tip =
     res_bind (propagated_tip (G ws) (mr_mode_run producer)) (\<lambda>propagated.
     case propagated of
       None \<Rightarrow> Inr False
     | Some p \<Rightarrow>
         if lower p \<noteq> lower producer_tip then Inr False
         else res_bind (derived_consumer_tip H os G consumer) (\<lambda>tip.
           case tip of
             None \<Rightarrow> Inr False
           | Some consumer_tip \<Rightarrow>
               res_bind (resolve_author (G producer_repo) producer_tip) (\<lambda>producer_peer.
               res_bind (resolve_author (G consumer_repo) consumer_tip) (\<lambda>consumer_peer.
                 Inr (producer_peer \<noteq> None \<and> consumer_peer \<noteq> None \<and> producer_peer \<noteq> consumer_peer)))))"

definition dep_satisfied ::
  "hash \<Rightarrow> os_open \<Rightarrow> (string \<Rightarrow> git) \<Rightarrow> mode_run \<Rightarrow> mode_run \<Rightarrow> string \<Rightarrow> string \<Rightarrow> string \<Rightarrow> string option \<Rightarrow> bool res" where
  "dep_satisfied H os G producer consumer producer_repo consumer_repo kind ws =
     (if kind \<noteq> ''intra'' \<and> kind \<noteq> ''cross'' then Inl ValueError
      else res_bind (own_convergence H os (G producer_repo) producer) (\<lambda>(ok, rows).
        if \<not> ok then Inr False
        else if kind = ''intra'' then Inr True
        else (case ws of
            None \<Rightarrow> Inr False
          | Some w \<Rightarrow> (case converged_commit rows of
              None \<Rightarrow> Inr False
            | Some producer_tip \<Rightarrow>
                cross_satisfied H os G producer consumer producer_repo consumer_repo w producer_tip))))"

text \<open>A missing id is a \<open>KeyError\<close>.\<close>

definition key_lookup :: "(string \<times> 'v) list \<Rightarrow> string \<Rightarrow> 'v res" where
  "key_lookup d k = (case map_of d k of None \<Rightarrow> Inl KeyError | Some v \<Rightarrow> Inr v)"

definition make_dep_check ::
  "hash \<Rightarrow> os_open \<Rightarrow> (string \<Rightarrow> git) \<Rightarrow> (string \<Rightarrow> string) \<Rightarrow> (string \<times> spec) list \<Rightarrow> (string \<times> mode_run) list
   \<Rightarrow> (string \<times> string) list \<Rightarrow> string \<Rightarrow> string \<Rightarrow> bool res" where
  "make_dep_check H os G resolve specs runs repos producer_id consumer_id =
     res_bind (key_lookup specs producer_id) (\<lambda>producer_spec.
     res_bind (key_lookup specs consumer_id) (\<lambda>consumer_spec.
     res_bind (key_lookup runs producer_id) (\<lambda>producer_run.
     res_bind (key_lookup runs consumer_id) (\<lambda>consumer_run.
     res_bind (key_lookup repos producer_id) (\<lambda>producer_repo.
     res_bind (key_lookup repos consumer_id) (\<lambda>consumer_repo.
       dep_satisfied H os G producer_run consumer_run producer_repo consumer_repo
         (if resolve (sp_tool producer_spec) = resolve (sp_tool consumer_spec) then ''intra'' else ''cross'')
         (Some (mr_tool consumer_run))))))))"

section \<open>What a satisfied dependency means\<close>

definition converged_now :: "hash \<Rightarrow> os_open \<Rightarrow> git \<Rightarrow> mode_run \<Rightarrow> entry list \<Rightarrow> bool" where
  "converged_now H os g run rows \<longleftrightarrow> read (mr_ledger run) = Inr rows \<and>
     is_converged H os rows (Some (mr_mode_run run)) g (head_of (mr_branch run)) = Inr True"

lemma own_convergence_True:
  "own_convergence H os g run = Inr (True, rows) \<longleftrightarrow> converged_now H os g run rows"
  by (auto simp: own_convergence_def converged_now_def res_bind_Inr_iff)

lemma derived_consumer_tip_Some:
  "derived_consumer_tip H os G c = Inr (Some t) \<longleftrightarrow>
     (\<exists>rows. converged_now H os (G (mr_tool c)) c rows \<and> converged_commit rows = Some t)"
  by (auto simp: derived_consumer_tip_def res_bind_Inr_iff own_convergence_True [symmetric] split: if_splits)

lemma cross_satisfied_True:
  "cross_satisfied H os G p c prepo crepo w ptip = Inr True \<longleftrightarrow>
     (\<exists>crows ref ctip x y. propagated_tip (G w) (mr_mode_run p) = Inr (Some ref) \<and> lower ref = lower ptip \<and>
        converged_now H os (G (mr_tool c)) c crows \<and> converged_commit crows = Some ctip \<and>
        resolve_author (G prepo) ptip = Inr (Some x) \<and> resolve_author (G crepo) ctip = Inr (Some y) \<and> x \<noteq> y)"
  (is "?l \<longleftrightarrow> ?r")
proof
  assume ?l
  then obtain ref ctip where r: "propagated_tip (G w) (mr_mode_run p) = Inr (Some ref)" "lower ref = lower ptip"
    "derived_consumer_tip H os G c = Inr (Some ctip)"
    by (auto simp: cross_satisfied_def res_bind_Inr_iff split: option.splits if_splits)
  with \<open>?l\<close> obtain x y where "resolve_author (G prepo) ptip = Inr (Some x)" "resolve_author (G crepo) ctip = Inr (Some y)" "x \<noteq> y"
    by (auto simp: cross_satisfied_def res_bind_Inr_iff)
  with r derived_consumer_tip_Some [of H os G c ctip] show ?r by blast
next
  assume ?r
  then obtain crows ref ctip x y where r: "propagated_tip (G w) (mr_mode_run p) = Inr (Some ref)" "lower ref = lower ptip"
    "converged_now H os (G (mr_tool c)) c crows" "converged_commit crows = Some ctip"
    "resolve_author (G prepo) ptip = Inr (Some x)" "resolve_author (G crepo) ctip = Inr (Some y)" "x \<noteq> y" by blast
  then have "derived_consumer_tip H os G c = Inr (Some ctip)" unfolding derived_consumer_tip_Some by blast
  with r show ?l by (simp add: cross_satisfied_def)
qed

lemma intra_satisfied:
  "dep_satisfied H os G p c prepo crepo ''intra'' ws = Inr True \<longleftrightarrow> (\<exists>rows. converged_now H os (G prepo) p rows)"
  by (auto simp: dep_satisfied_def res_bind_Inr_iff own_convergence_True [symmetric] split: if_splits)

lemma cross_satisfied_dep:
  "dep_satisfied H os G p c prepo crepo ''cross'' (Some w) = Inr True \<longleftrightarrow>
     (\<exists>rows ptip. converged_now H os (G prepo) p rows \<and> converged_commit rows = Some ptip \<and>
        cross_satisfied H os G p c prepo crepo w ptip = Inr True)"
  (is "?l \<longleftrightarrow> ?r")
proof
  assume ?l
  then obtain rows ptip where "own_convergence H os (G prepo) p = Inr (True, rows)" "converged_commit rows = Some ptip"
    "cross_satisfied H os G p c prepo crepo w ptip = Inr True"
    by (auto simp: dep_satisfied_def res_bind_Inr_iff split: if_splits option.splits)
  then show ?r unfolding own_convergence_True by blast
next
  assume ?r
  then obtain rows ptip where "own_convergence H os (G prepo) p = Inr (True, rows)" "converged_commit rows = Some ptip"
    "cross_satisfied H os G p c prepo crepo w ptip = Inr True"
    unfolding own_convergence_True by blast
  then show ?l by (simp add: dep_satisfied_def)
qed

text \<open>
  a dependency is satisfied exactly by re-verification: within a tool if and only if the producer
  converges on its own ledger and repository; across tools if and only if, besides, the
  consumer's \<open>refs/propagated\<close> ref pins the producer's converged commit, the consumer converges
  on its own ledger, and both commits are attested, in their own repositories, to two different
  peers.
\<close>

theorem dep_satisfied_exact:
  "(dep_satisfied H os G p c prepo crepo ''intra'' ws = Inr True) = (\<exists>rows. converged_now H os (G prepo) p rows) \<and>
   (dep_satisfied H os G p c prepo crepo ''cross'' (Some w) = Inr True) =
     (\<exists>rows ptip crows ref ctip x y. converged_now H os (G prepo) p rows \<and> converged_commit rows = Some ptip \<and>
        propagated_tip (G w) (mr_mode_run p) = Inr (Some ref) \<and> lower ref = lower ptip \<and>
        converged_now H os (G (mr_tool c)) c crows \<and> converged_commit crows = Some ctip \<and>
        resolve_author (G prepo) ptip = Inr (Some x) \<and> resolve_author (G crepo) ctip = Inr (Some y) \<and> x \<noteq> y)"
  unfolding intra_satisfied cross_satisfied_dep cross_satisfied_True by blast

lemma dep_satisfied_converged:
  assumes "dep_satisfied H os G p c prepo crepo kind ws = Inr True"
  shows "\<exists>rows. converged_now H os (G prepo) p rows"
  using assms by (auto simp: dep_satisfied_def res_bind_Inr_iff own_convergence_True [symmetric] split: if_splits)

section \<open>The check the scheduler gets\<close>

text \<open>The producer, as the maps name it, converges on its own ledger.\<close>

definition producer_converged ::
  "hash \<Rightarrow> os_open \<Rightarrow> (string \<Rightarrow> git) \<Rightarrow> (string \<times> mode_run) list \<Rightarrow> (string \<times> string) list \<Rightarrow> string \<Rightarrow> string \<Rightarrow> bool" where
  "producer_converged H os G runs repos dep rid \<longleftrightarrow>
     (\<exists>p prepo rows. map_of runs dep = Some p \<and> map_of repos dep = Some prepo \<and> converged_now H os (G prepo) p rows)"

lemma key_lookup_Inr [simp]: "key_lookup d k = Inr v \<longleftrightarrow> map_of d k = Some v"
  by (auto simp: key_lookup_def split: option.splits)

interpretation reverify: dependency_check "make_dep_check H os G resolve specs runs repos"
  "producer_converged H os G runs repos" for H os G resolve specs runs repos
proof
  fix dep rid
  assume "make_dep_check H os G resolve specs runs repos dep rid = Inr True"
  then show "producer_converged H os G runs repos dep rid"
    by (auto simp: make_dep_check_def producer_converged_def res_bind_Inr_iff dest!: dep_satisfied_converged)
qed

text \<open>
  C36: with the production check, nothing starts on trust: every run the scheduler starts has each of
  its producers converged at that moment, on the producer's own ledger and repository, whatever
  the rows of the fleet ledger say.
\<close>

theorem started_on_converged_producers:
  assumes "startable_runs program rows pool ce (make_dep_check H os G resolve specs runs repos) projected = Inr r"
    and "rid \<in> set (sr_startable r)"
  shows "\<exists>s \<in> set program. sp_run_id s = rid \<and>
    (\<forall>dep \<in> set (sp_depends_on s). producer_converged H os G runs repos dep rid)"
  using reverify.started_deps_met [OF assms] by metis

text \<open>A consumer of the sample run, in the same tool and in another one.\<close>

definition sample_mode_runs :: "(string \<times> mode_run) list" where
  "sample_mode_runs = [(''a'', sample_producer), (''b'', idle_run)]"

definition sample_paths :: "(string \<times> string) list" where
  "sample_paths = [(''a'', ''/tool''), (''b'', ''/tool'')]"

definition sample_specs :: "(string \<times> spec) list" where
  "sample_specs = [(''a'', sample_spec ''a'' []), (''b'', sample_spec ''b'' [''a''])]"

lemma sample_now: "\<exists>rows. converged_now zero_hash no_files sample_repo sample_producer rows"
proof -
  have "is_converged zero_hash no_files (zero_chain JNull sample_rows) (Some ''r1'') sample_repo ''peers/run/r1'' = Inr True"
    by code_simp
  then show ?thesis
    by (simp add: converged_now_def sample_producer_def sample_rows_read head_of_def)
qed

lemma sample_check:
  "make_dep_check zero_hash no_files (\<lambda>_. sample_repo) (\<lambda>p. p) sample_specs sample_mode_runs sample_paths ''a'' ''b'' = Inr True"
proof -
  have "sp_tool (sample_spec ''a'' []) = sp_tool (sample_spec ''b'' [''a''])" by (simp add: sample_spec_def)
  then show ?thesis using sample_now
    by (simp add: make_dep_check_def key_lookup_def sample_specs_def sample_mode_runs_def sample_paths_def intra_satisfied)
qed

lemma sample_start:
  "startable_runs [sample_spec ''b'' [''a'']] [] sample_pool no_ceiling
     (make_dep_check zero_hash no_files (\<lambda>_. sample_repo) (\<lambda>p. p) sample_specs sample_mode_runs sample_paths) None =
   Inr \<lparr>sr_startable = [''b''], sr_assignments = [(''b'', ''s1'')], sr_all_blocked = False\<rparr>"
proof -
  have s: "sp_run_id (sample_spec ''b'' [''a'']) = ''b''" "sp_depends_on (sample_spec ''b'' [''a'']) = [''a'']"
    "sp_affinity (sample_spec ''b'' [''a'']) = None" "sp_op_config (sample_spec ''b'' [''a'']) = Some sample_config"
    by (simp_all add: sample_spec_def)
  have n: "has_status [] rid sts = False" for rid sts by (simp add: has_status_def latest_def)
  show ?thesis
    by (simp add: startable_runs_def by_run_id_def dict_of_def s n sample_parts(2) sample_check in_flight_costs_def
        in_flight_runs_def consider_run_def project_def no_ceiling_def over_ceiling_def over_runs_def pick_slot_def
        sample_pool_def split: option.split)
qed

theorem started_on_converged_producers_witness:
  "producer_converged zero_hash no_files (\<lambda>_. sample_repo) sample_mode_runs sample_paths ''a'' ''b''"
  using started_on_converged_producers [OF sample_start, of "''b''"] by (simp add: sample_spec_def)

section \<open>A consumer in another tool\<close>

lemma empty_not_converged: "is_converged H os [] m g h \<noteq> Inr True"
  by (auto simp: is_converged_def res_bind_Inr_iff)

text \<open>
  a dependency across tools can only be satisfied for a consumer that has already converged, so a
  consumer that has not run is never started: with a fresh ledger and a producer in another tool
  its id is in no schedule.
\<close>

theorem cross_tool_consumer_never_starts:
  assumes "startable_runs program rows pool ce (make_dep_check H os G resolve specs runs repos) projected = Inr r"
    and "\<And>s. s \<in> set program \<Longrightarrow> sp_run_id s = rid \<Longrightarrow> dep \<in> set (sp_depends_on s)"
    and "map_of specs dep = Some producer" and "map_of specs rid = Some consumer"
    and "resolve (sp_tool producer) \<noteq> resolve (sp_tool consumer)"
    and "map_of runs rid = Some run" and "mr_ledger run = None"
  shows "rid \<notin> set (sr_startable r)"
proof
  assume "rid \<in> set (sr_startable r)"
  from started_is_ready [OF assms(1) this] obtain s where "s \<in> set program" "sp_run_id s = rid"
    "\<And>d. d \<in> set (sp_depends_on s) \<Longrightarrow> make_dep_check H os G resolve specs runs repos d rid = Inr True" by metis
  with assms(2) have "make_dep_check H os G resolve specs runs repos dep rid = Inr True" by blast
  then obtain p prepo crepo where "dep_satisfied H os G p run prepo crepo ''cross'' (Some (mr_tool run)) = Inr True"
    using assms(3-6) by (auto simp: make_dep_check_def res_bind_Inr_iff)
  then obtain crows where "converged_now H os (G (mr_tool run)) run crows"
    unfolding cross_satisfied_dep cross_satisfied_True by blast
  then show False using assms(7) empty_not_converged by (auto simp: converged_now_def empty_read)
qed

definition other_spec :: spec where
  "other_spec = (sample_spec ''b'' [''a''])\<lparr>sp_tool := ''/other''\<rparr>"

theorem cross_tool_consumer_never_starts_witness:
  "\<exists>r. startable_runs [other_spec] [] sample_pool no_ceiling (make_dep_check zero_hash no_files (\<lambda>_. sample_repo) (\<lambda>p. p)
       [(''a'', sample_spec ''a'' []), (''b'', other_spec)] sample_mode_runs sample_paths) None = Inr r \<and>
     ''b'' \<notin> set (sr_startable r)"
proof -
  let ?check = "make_dep_check zero_hash no_files (\<lambda>_. sample_repo) (\<lambda>p. p)
       [(''a'', sample_spec ''a'' []), (''b'', other_spec)] sample_mode_runs sample_paths"
  have o: "sp_run_id other_spec = ''b''" "sp_depends_on other_spec = [''a'']" "sp_affinity other_spec = None"
    "sp_tool other_spec = ''/other''" "sp_tool (sample_spec ''a'' []) = ''/tool''"
    by (simp_all add: other_spec_def sample_spec_def)
  have n: "has_status [] rid sts = False" for rid sts by (simp add: has_status_def latest_def)
  have "is_converged zero_hash no_files (zero_chain JNull sample_rows) (Some ''r1'') sample_repo ''peers/run/r1'' = Inr True"
    "converged_commit (zero_chain JNull sample_rows) = Some sample_sha" "propagated_tip sample_repo ''r1'' = Inr None"
    by code_simp+
  then have c: "?check ''a'' ''b'' = Inr False"
    by (simp add: make_dep_check_def key_lookup_def sample_mode_runs_def sample_paths_def o dep_satisfied_def
        own_convergence_def sample_producer_def sample_rows_read head_of_def cross_satisfied_def)
  have run: "startable_runs [other_spec] [] sample_pool no_ceiling ?check None =
      Inr \<lparr>sr_startable = [], sr_assignments = [], sr_all_blocked = False\<rparr>"
    by (simp add: startable_runs_def by_run_id_def dict_of_def o n sample_parts(2) c in_flight_costs_def in_flight_runs_def)
  have "mr_ledger idle_run = None" by (simp add: idle_run_def)
  then have "''b'' \<notin> set (sr_startable \<lparr>sr_startable = [], sr_assignments = [], sr_all_blocked = False\<rparr>)"
    by (intro cross_tool_consumer_never_starts [OF run, of _ "''a''" "sample_spec ''a'' []" other_spec idle_run])
      (auto simp: o sample_mode_runs_def)
  with run show ?thesis by blast
qed

end
