(* ===== verification/Cascade.thy ===== *)
theory Cascade
  imports FleetLedger
begin

text \<open>
  The cascade over recorded edges, \<open>peers/fleet/invalidate.py\<close>. The sets of the code are lists
  without duplicates; the search loop empties a queue and is total: every round takes one node
  from it, and a node enters only when it is first seen.
\<close>

definition dependents_of :: "hash \<Rightarrow> string \<Rightarrow> (ledger_file, json list) act" where
  "dependents_of H run_id =
     act_bind (propagation_edges H) (\<lambda>es.
       ret (remdups (map (\<lambda>(_, t, _). t) (filter (\<lambda>(f, _, _). f = JStr run_id) es))))"

text \<open>\<open>adj.setdefault(frm, set()).add(to)\<close>\<close>

definition add_edge :: "(json \<times> json list) list \<Rightarrow> json \<Rightarrow> json \<Rightarrow> (json \<times> json list) list" where
  "add_edge adj frm to = dict_set adj frm (List.insert to (lookup_default [] adj frm))"

fun adjacency :: "(json \<times> json \<times> json) list \<Rightarrow> (json \<times> json list) list \<Rightarrow> (json \<times> json list) list" where
  "adjacency [] adj = adj"
| "adjacency ((frm, to, _) # es) adj = adjacency es (add_edge adj frm to)"

text \<open>The inner loop over the dependents of one node.\<close>

fun visit :: "json list \<Rightarrow> json list \<Rightarrow> json list \<Rightarrow> json list \<Rightarrow> json list \<times> json list \<times> json list" where
  "visit [] seen revoked queue = (seen, revoked, queue)"
| "visit (dep # deps) seen revoked queue =
     (if dep \<in> set seen then visit deps seen revoked queue
      else visit deps (dep # seen) (revoked @ [dep]) (queue @ [dep]))"

text \<open>What a visit adds, in order.\<close>

lemma visit_effect:
  "\<exists>new. visit deps seen revoked queue = (rev new @ seen, revoked @ new, queue @ new) \<and>
     distinct new \<and> set new = set deps - set seen"
proof (induction deps arbitrary: seen revoked queue)
  case (Cons dep deps)
  show ?case
  proof (cases "dep \<in> set seen")
    case True
    with Cons.IH [of seen revoked queue] show ?thesis by (simp add: insert_Diff_if)
  next
    case False
    with Cons.IH [of "dep # seen" "revoked @ [dep]" "queue @ [dep]"] obtain new where
      "visit (dep # deps) seen revoked queue = (rev (dep # new) @ seen, revoked @ dep # new, queue @ dep # new)"
      "distinct new" "set new = set deps - insert dep (set seen)" by auto
    with False show ?thesis by (intro exI [of _ "dep # new"]) auto
  qed
qed simp

definition targets :: "(json \<times> json list) list \<Rightarrow> json set" where
  "targets adj = (\<Union>(_, ts) \<in> set adj. set ts)"

lemma finite_targets [simp]: "finite (targets adj)"
  by (auto simp: targets_def)

lemma adj_targets: "set (lookup_default [] adj k) \<subseteq> targets adj"
  by (cases "map_of adj k") (auto simp: lookup_default_def targets_def dest!: map_of_SomeD)

lemma visit_measure:
  assumes "visit (lookup_default [] adj cur) seen revoked queue = (seen', revoked', queue')"
  shows "card (targets adj - set seen') + length queue' = card (targets adj - set seen) + length queue"
proof -
  from visit_effect [of "lookup_default [] adj cur" seen revoked queue] assms obtain new where
    new: "set seen' = set new \<union> set seen" "length queue' = length queue + length new" "distinct new"
      "set new = set (lookup_default [] adj cur) - set seen" by auto
  have "set new \<subseteq> targets adj - set seen" using new(4) adj_targets [of adj cur] by auto
  then have "card (targets adj - set seen) = card (targets adj - set seen - set new) + length new"
    using card_Diff_subset [of "set new" "targets adj - set seen"] card_mono [of "targets adj - set seen" "set new"] new(3)
    by (simp add: distinct_card)
  moreover have "targets adj - set seen - set new = targets adj - set seen'" using new(1) by auto
  ultimately show ?thesis using new(2) by simp
qed

function cascade_loop :: "(json \<times> json list) list \<Rightarrow> json list \<Rightarrow> json list \<Rightarrow> json list \<Rightarrow> json list" where
  "cascade_loop adj seen revoked [] = revoked"
| "cascade_loop adj seen revoked (cur # queue) =
     (case visit (lookup_default [] adj cur) seen revoked queue of
        (seen', revoked', queue') \<Rightarrow> cascade_loop adj seen' revoked' queue')"
  by pat_completeness auto

termination
  by (relation "measure (\<lambda>(adj, seen, revoked, queue). card (targets adj - set seen) + length queue)")
    (auto split: prod.splits dest: visit_measure)

definition cascade_of :: "(json \<times> json \<times> json) list \<Rightarrow> string \<Rightarrow> json list" where
  "cascade_of es rejected_run =
     cascade_loop (adjacency es []) [JStr rejected_run] [] [JStr rejected_run]"

definition cascade_invalidate :: "hash \<Rightarrow> string \<Rightarrow> (ledger_file, json list) act" where
  "cascade_invalidate H rejected_run =
     act_bind (propagation_edges H) (\<lambda>es. ret (cascade_of es rejected_run))"

section \<open>The cascade is the transitive closure\<close>

lemma lookup_default_Nil [simp]: "lookup_default v [] k = v"
  by (simp add: lookup_default_def)

definition edge_rel :: "(json \<times> json \<times> json) list \<Rightarrow> (json \<times> json) set" where
  "edge_rel es = (\<lambda>(f, t, _). (f, t)) ` set es"

lemma adjacency_effect:
  "set (lookup_default [] (adjacency es adj) k) = set (lookup_default [] adj k) \<union> {t. (k, t) \<in> edge_rel es}"
proof (induction es adj rule: adjacency.induct)
  case (2 frm to a es adj)
  then show ?case by (auto simp: add_edge_def lookup_default_def edge_rel_def)
qed (simp add: edge_rel_def)

text \<open>
  The invariant of the search: what was seen is reachable, and only the queue may have dependents
  that were not seen.
\<close>

definition search_inv :: "(json \<times> json) set \<Rightarrow> json \<Rightarrow> json list \<Rightarrow> json list \<Rightarrow> json list \<Rightarrow> bool" where
  "search_inv E root seen revoked queue \<longleftrightarrow>
     set seen = insert root (set revoked) \<and> root \<notin> set revoked \<and> distinct revoked \<and>
     set seen \<subseteq> E\<^sup>* `` {root} \<and> set queue \<subseteq> set seen \<and>
     (\<forall>x t. x \<in> set seen \<longrightarrow> (x, t) \<in> E \<longrightarrow> x \<in> set queue \<or> t \<in> set seen)"

lemma search_inv_step:
  assumes "search_inv E root seen revoked (cur # queue)" and "set deps = {t. (cur, t) \<in> E}"
    and "visit deps seen revoked queue = (seen', revoked', queue')"
  shows "search_inv E root seen' revoked' queue'"
proof -
  from visit_effect [of deps seen revoked queue] assms(3) obtain new where
    new: "seen' = rev new @ seen" "revoked' = revoked @ new" "queue' = queue @ new" "distinct new"
      "set new = set deps - set seen" by auto
  have "cur \<in> E\<^sup>* `` {root}" using assms(1) by (auto simp: search_inv_def)
  then have "set new \<subseteq> E\<^sup>* `` {root}" using new(5) assms(2) by (auto intro: rtrancl_into_rtrancl)
  moreover have "x \<in> set queue' \<or> t \<in> set seen'" if "x \<in> set seen'" "(x, t) \<in> E" for x t
  proof (cases "x \<in> set new \<or> x = cur")
    case True
    then show ?thesis using that assms(2) new by auto
  next
    case False
    with that(1) new(1) have "x \<in> set seen" "x \<noteq> cur" by auto
    moreover from assms(1) have "\<forall>x t. x \<in> set seen \<longrightarrow> (x, t) \<in> E \<longrightarrow> x \<in> set (cur # queue) \<or> t \<in> set seen"
      unfolding search_inv_def by blast
    ultimately have "x \<in> set queue \<or> t \<in> set seen" using that(2) by auto
    then show ?thesis using new by auto
  qed
  ultimately show ?thesis using assms(1) new unfolding search_inv_def by auto
qed

lemma search_inv_done:
  assumes "search_inv E root seen revoked []"
  shows "distinct revoked \<and> set revoked = E\<^sup>* `` {root} - {root}"
proof -
  have closed: "x \<in> set seen \<Longrightarrow> (x, t) \<in> E \<Longrightarrow> t \<in> set seen" for x t
    using assms unfolding search_inv_def by (metis empty_iff list.set(1))
  have "E\<^sup>* `` {root} \<subseteq> set seen"
  proof
    fix y
    assume "y \<in> E\<^sup>* `` {root}"
    then have "(root, y) \<in> E\<^sup>*" by simp
    then show "y \<in> set seen"
    proof (induction rule: rtrancl_induct)
      case base
      show ?case using assms by (simp add: search_inv_def)
    next
      case (step x y)
      from closed [OF step.IH step.hyps(2)] show ?case .
    qed
  qed
  then show ?thesis using assms by (auto simp: search_inv_def)
qed

lemma cascade_loop_reach:
  assumes "\<And>k. set (lookup_default [] adj k) = {t. (k, t) \<in> E}" and "search_inv E root seen revoked queue"
  shows "distinct (cascade_loop adj seen revoked queue) \<and>
    set (cascade_loop adj seen revoked queue) = E\<^sup>* `` {root} - {root}"
  using assms
proof (induction adj seen revoked queue rule: cascade_loop.induct)
  case (1 adj seen revoked)
  then show ?case using search_inv_done by simp
next
  case (2 adj seen revoked cur queue)
  obtain s r q where v: "visit (lookup_default [] adj cur) seen revoked queue = (s, r, q)"
    by (cases "visit (lookup_default [] adj cur) seen revoked queue") auto
  from 2(1) [OF v [symmetric] refl 2(2)] search_inv_step [OF 2(3) 2(2) v] show ?case by (simp add: v)
qed

lemma cascade_of_reach:
  "distinct (cascade_of es root) \<and> set (cascade_of es root) = (edge_rel es)\<^sup>* `` {JStr root} - {JStr root}"
  unfolding cascade_of_def
  by (rule cascade_loop_reach) (auto simp: adjacency_effect search_inv_def)

text \<open>The relation of the live edges of a ledger.\<close>

definition live_rel :: "entry list \<Rightarrow> (json \<times> json) set" where
  "live_rel rows = {k. live_edge rows k}"

text \<open>
  C25: the cascade is exact: for a ledger with these rows, whatever its edges (cycles included),
  \<open>cascade_invalidate\<close> yields each run that consumed the rejected run's artifact directly or
  through others, over the live edges, once, and never the rejected run itself.
\<close>

theorem cascade_is_closure:
  assumes "cascade_invalidate H root f = (Inr revoked, f')" and "read f = Inr rows"
  shows "distinct revoked \<and> set revoked = {r. (JStr root, r) \<in> (live_rel rows)\<^sup>* \<and> r \<noteq> JStr root}"
proof -
  from assms(1) obtain es where es: "propagation_edges H f = (Inr es, f')" "revoked = cascade_of es root"
    by (auto simp: cascade_invalidate_def act_bind_Inr)
  have "edge_rel es = live_rel rows"
    using propagation_edges_live [OF es(1) assms(2)] by (force simp: edge_rel_def live_rel_def)
  with cascade_of_reach [of es root] es(2) show ?thesis by auto
qed

text \<open>On the ledger with one edge.\<close>

theorem cascade_is_closure_witness:
  "\<exists>f revoked. cascade_invalidate zero_hash ''a'' f = (Inr revoked, f) \<and> set revoked = {JStr ''b''}"
proof -
  obtain f e where f: "read f = Inr [e]" "settled [e]" and live: "live_edge [e] = (\<lambda>k. k = (JStr ''a'', JStr ''b''))"
    by (rule one_edge_ledger)
  from settled_edges [OF f] have run: "cascade_invalidate zero_hash ''a'' f = (Inr (cascade_of (ledger_edges [e]) ''a''), f)"
    by (simp add: cascade_invalidate_def act_bind_step ret_def)
  have rel: "live_rel [e] = {(JStr ''a'', JStr ''b'')}" by (auto simp: live_rel_def live)
  have "(x, y) \<in> {(JStr ''a'', JStr ''b'')}\<^sup>* \<Longrightarrow> x = y \<or> y = JStr ''b''" for x y
    by (induction rule: rtrancl_induct) auto
  then have "{r. (JStr ''a'', r) \<in> (live_rel [e])\<^sup>* \<and> r \<noteq> JStr ''a''} = {JStr ''b''}"
    unfolding rel by blast
  with cascade_is_closure [OF run f(1)] run show ?thesis by auto
qed

end
