(* ===== verification/Conductor.thy ===== *)
theory Conductor
  imports Satisfy Cascade Landing
begin

text \<open>
  The conductor tick, \<open>peers/fleet/conductor.py\<close>. Its state is the fleet ledger file and the
  world \<open>'w\<close> of the slot runner. What the code injects (slot runner, ceiling, dependency check,
  self-hosting detector, changed paths, projected costs) is the record \<open>conductor\<close>; \<open>git\<close> in a
  directory, \<open>Path.resolve\<close> and the text of a halt reason (an f-string with \<open>repr\<close>) are in it
  too. The ledgers of the runs are the files they have during the tick.
\<close>

section \<open>State and parameters\<close>

record 'w fleet =
  fs_file :: ledger_file
  fs_world :: 'w

definition on_ledger :: "(ledger_file, 'a) act \<Rightarrow> ('w fleet, 'a) act" where
  "on_ledger m s = (case m (fs_file s) of (r, f) \<Rightarrow> (r, s\<lparr>fs_file := f\<rparr>))"

definition on_world :: "('w, 'a) act \<Rightarrow> ('w fleet, 'a) act" where
  "on_world m s = (case m (fs_world s) of (r, w) \<Rightarrow> (r, s\<lparr>fs_world := w\<rparr>))"

record 'w slot_runner =
  sl_observe :: "('w, (string \<times> string option) list) act"
  sl_liveness :: "string \<Rightarrow> ('w, string) act"
  sl_start :: "string \<Rightarrow> spec \<Rightarrow> ('w, unit) act"

datatype halt_reason =
    MalformedEdge
  | DoubleOccupancy string "string list"
  | WorldDivergence string string
  | SlotMismatch string string json

record 'w conductor =
  cd_hash :: hash
  cd_os :: os_open
  cd_git :: "string \<Rightarrow> git"
  cd_resolve :: "string \<Rightarrow> string"
  cd_text :: "halt_reason \<Rightarrow> string"
  cd_program :: "spec list"
  cd_pool :: pool
  cd_runner :: "'w slot_runner"
  cd_ceiling :: ceiling
  cd_dep_check :: "string \<Rightarrow> string \<Rightarrow> bool res"
  cd_self_hosting :: "string \<Rightarrow> string list option \<Rightarrow> bool res"
  cd_changed_paths_of :: "(string \<Rightarrow> string list option res) option"
  cd_runs :: "(string \<times> mode_run) list"
  cd_repos :: "(string \<times> string) list"
  cd_projected :: "(string \<times> int) list option"

record report =
  rp_started :: "string list"
  rp_restarted :: "string list"
  rp_converged :: "string list"
  rp_tier1 :: "string list"
  rp_tier2 :: "string list"
  rp_halted :: bool
  rp_reason :: "halt_reason option"

definition empty_report :: report where
  "empty_report = \<lparr>rp_started = [], rp_restarted = [], rp_converged = [], rp_tier1 = [], rp_tier2 = [],
     rp_halted = False, rp_reason = None\<rparr>"

definition by_id :: "'w conductor \<Rightarrow> (string \<times> spec) list" where
  "by_id c = by_run_id (cd_program c)"

text \<open>\<open>repos_by_id or {s.run_id: s.tool for s in program.runs}\<close>\<close>

definition repos_by_id :: "'w conductor \<Rightarrow> (string \<times> string) list" where
  "repos_by_id c = (if cd_repos c = [] then dict_of (map (\<lambda>s. (sp_run_id s, sp_tool s)) (cd_program c)) else cd_repos c)"

section \<open>Helpers\<close>

definition default_changed_paths :: "'w conductor \<Rightarrow> mode_run \<Rightarrow> string \<Rightarrow> string list option res" where
  "default_changed_paths c run repo =
     res_bind (read (mr_ledger run)) (\<lambda>rows.
       case (mr_base_sha run, converged_commit rows) of
         (Some base, Some converged) \<Rightarrow>
           if base = [] then Inr None else changed_paths (cd_git c repo) base converged
       | _ \<Rightarrow> Inr None)"

definition default_self_hosting :: "probes \<Rightarrow> string \<Rightarrow> string list option \<Rightarrow> bool res" where
  "default_self_hosting pb repo changed = Inr (fst (is_self_hosting pb changed (Some repo)))"

definition has_undeterminable_edge :: "hash \<Rightarrow> (ledger_file, bool) act" where
  "has_undeterminable_edge H =
     act_bind (propagation_edges H) (\<lambda>_. reading (\<lambda>rows.
       Inr (list_ex torn rows \<or> list_ex (\<lambda>r. le_event r = ''malformed-edge'') rows)))"

definition converged_tip :: "mode_run option \<Rightarrow> string option res" where
  "converged_tip run =
     (case run of None \<Rightarrow> Inr None
      | Some r \<Rightarrow> res_bind (read (mr_ledger r)) (\<lambda>rows. Inr (converged_commit rows)))"

definition artifact_for :: "spec option \<Rightarrow> string" where
  "artifact_for s = (case s of None \<Rightarrow> ''?'' | Some sp \<Rightarrow> ''peers/run/'' @ sp_run_id sp)"

record producer_edge =
  pe_from :: string
  pe_to :: string
  pe_artifact :: string
  pe_repo :: "string option"
  pe_tip :: "string option"
  pe_intra :: bool

text \<open>The loop over the producers of a consumer; the second component is \<open>unrecordable\<close>.\<close>

definition producer_edge_of :: "'w conductor \<Rightarrow> string \<Rightarrow> string \<Rightarrow> string \<Rightarrow> (producer_edge option) res" where
  "producer_edge_of c consumer_id consumer_tool dep =
     (let dep_spec = map_of (by_id c) dep;
          prod_repo = (case map_of (repos_by_id c) dep of Some r \<Rightarrow> Some r | None \<Rightarrow> map_option sp_tool dep_spec);
          is_intra = (case dep_spec of None \<Rightarrow> False | Some sp \<Rightarrow> cd_resolve c (sp_tool sp) = consumer_tool)
      in res_bind (converged_tip (map_of (cd_runs c) dep)) (\<lambda>t.
        Inr (if t = None \<and> is_intra then
               Some \<lparr>pe_from = dep, pe_to = consumer_id, pe_artifact = artifact_for dep_spec, pe_repo = None,
                     pe_tip = None, pe_intra = True\<rparr>
             else if t = None \<or> prod_repo = None then None
             else Some \<lparr>pe_from = dep, pe_to = consumer_id, pe_artifact = artifact_for dep_spec, pe_repo = prod_repo,
                        pe_tip = t, pe_intra = is_intra\<rparr>)))"

fun producer_loop ::
  "'w conductor \<Rightarrow> string \<Rightarrow> string \<Rightarrow> string list \<Rightarrow> producer_edge list \<Rightarrow> string option
   \<Rightarrow> (producer_edge list \<times> string option) res" where
  "producer_loop c consumer_id tool [] edges unrecordable = Inr (edges, unrecordable)"
| "producer_loop c consumer_id tool (dep # deps) edges unrecordable =
     res_bind (producer_edge_of c consumer_id tool dep) (\<lambda>e.
       case e of None \<Rightarrow> producer_loop c consumer_id tool deps edges (Some dep)
       | Some x \<Rightarrow> producer_loop c consumer_id tool deps (edges @ [x]) unrecordable)"

definition producer_edges :: "'w conductor \<Rightarrow> string \<Rightarrow> (producer_edge list \<times> string option) res" where
  "producer_edges c consumer_id =
     res_bind (key_lookup (by_id c) consumer_id) (\<lambda>s.
       producer_loop c consumer_id (cd_resolve c (sp_tool s)) (sp_depends_on s) [] None)"

definition record_edge :: "'w conductor \<Rightarrow> producer_edge \<Rightarrow> (ledger_file, unit) act" where
  "record_edge c e =
     (if pe_tip e = None \<and> pe_intra e then record_intra_edge (cd_hash c) (pe_from e) (pe_to e) (pe_artifact e)
      else (case (pe_repo e, pe_tip e) of
          (Some repo, Some t) \<Rightarrow> record_propagation_edge (cd_hash c) (cd_git c repo) (pe_from e) (pe_to e) (pe_artifact e) t
        | _ \<Rightarrow> raise_exc TypeError))"

section \<open>Reconcile or halt\<close>

definition run_slots :: "(string \<times> string option) list \<Rightarrow> (string \<times> string list) list" where
  "run_slots observed =
     foldl (\<lambda>d (slot, run). case run of None \<Rightarrow> d | Some r \<Rightarrow> dict_append d r slot) [] observed"

definition known_statuses :: "string list" where
  "known_statuses = [''running'', ''start-intent'', ''converged'', ''failed'', ''landed'', ''rejected'']"

definition intent_slots :: "entry list \<Rightarrow> string \<Rightarrow> json list" where
  "intent_slots rows run_id = map snd (filter (\<lambda>(rid, _). rid = Some run_id) (open_intents rows))"

text \<open>The check of one observed run: \<open>Some reason\<close> halts.\<close>

definition reconcile_run :: "'w conductor \<Rightarrow> entry list \<Rightarrow> string \<Rightarrow> string list \<Rightarrow> halt_reason option" where
  "reconcile_run c rows run_id slots =
     (if length slots > 1 then Some (DoubleOccupancy run_id (sort slots))
      else
       (let slot = hd slots;
            pending = intent_slots rows run_id;
            known = (map_of (by_id c) run_id \<noteq> None \<and> has_status rows run_id known_statuses \<or> pending \<noteq> []);
            assigned = (if truthy (slot_in rows run_id) then slot_in rows run_id
                        else if pending \<noteq> [] then hd pending else JNull)
        in if \<not> known then Some (WorldDivergence slot run_id)
           else if assigned \<noteq> JNull \<and> assigned \<noteq> JStr slot then Some (SlotMismatch run_id slot assigned)
           else None))"

fun reconcile :: "'w conductor \<Rightarrow> entry list \<Rightarrow> (string \<times> string list) list \<Rightarrow> halt_reason option" where
  "reconcile c rows [] = None"
| "reconcile c rows ((run_id, slots) # rest) =
     (case reconcile_run c rows run_id slots of Some why \<Rightarrow> Some why | None \<Rightarrow> reconcile c rows rest)"

definition halt_tick :: "'w conductor \<Rightarrow> halt_reason \<Rightarrow> ('w fleet, report) act" where
  "halt_tick c why =
     act_bind (on_ledger (record_halt (cd_hash c) (cd_text c why))) (\<lambda>_.
       ret (empty_report\<lparr>rp_halted := True, rp_reason := Some why\<rparr>))"

section \<open>Liveness\<close>

definition verify_done :: "'w conductor \<Rightarrow> string \<Rightarrow> bool res" where
  "verify_done c run_id =
     (case map_of (cd_runs c) run_id of
        None \<Rightarrow> Inr False
      | Some run \<Rightarrow>
          res_bind (read (mr_ledger run)) (\<lambda>rows.
          res_bind (key_lookup (by_id c) run_id) (\<lambda>sp.
            is_converged (cd_hash c) (cd_os c) rows (Some (mr_mode_run run))
              (cd_git c (case map_of (repos_by_id c) run_id of Some r \<Rightarrow> r | None \<Rightarrow> sp_tool sp))
              (head_of (mr_branch run)))))"

definition check_liveness :: "'w conductor \<Rightarrow> string \<times> string option \<Rightarrow> report \<Rightarrow> ('w fleet, report) act" where
  "check_liveness c so rep =
     (case so of
        (slot, None) \<Rightarrow> ret rep
      | (slot, Some run_id) \<Rightarrow>
          act_bind (on_world (sl_liveness (cd_runner c) run_id)) (\<lambda>live.
            if live = ''wedged'' then
              act_bind (act_res (key_lookup (by_id c) run_id)) (\<lambda>sp.
              act_bind (on_world (sl_start (cd_runner c) slot sp)) (\<lambda>_.
              act_bind (on_ledger (record_status (cd_hash c) run_id ''running'' (Some slot))) (\<lambda>_.
                ret (rep\<lparr>rp_restarted := rp_restarted rep @ [run_id]\<rparr>))))
            else if live = ''done'' then
              act_bind (on_ledger (latest_status run_id)) (\<lambda>st.
                if st \<noteq> Some ''running'' \<and> st \<noteq> Some ''start-intent'' then ret rep
                else
                  act_bind (act_res (verify_done c run_id)) (\<lambda>ok.
                  act_bind (on_ledger (record_status (cd_hash c) run_id (if ok then ''converged'' else ''failed'') None)) (\<lambda>_.
                    ret (if ok then rep\<lparr>rp_converged := rp_converged rep @ [run_id]\<rparr> else rep))))
            else ret rep))"

section \<open>Routing\<close>

definition changed_of :: "'w conductor \<Rightarrow> string \<Rightarrow> string list option res" where
  "changed_of c rid =
     (case cd_changed_paths_of c of
        Some f \<Rightarrow> f rid
      | None \<Rightarrow>
          (case map_of (cd_runs c) rid of
             None \<Rightarrow> Inr None
           | Some run \<Rightarrow>
               res_bind (key_lookup (by_id c) rid) (\<lambda>sp.
                 default_changed_paths c run
                   (case map_of (repos_by_id c) rid of Some r \<Rightarrow> r | None \<Rightarrow> sp_tool sp))))"

definition landing_of :: "spec \<Rightarrow> string res" where
  "landing_of sp = (case sp_op_config sp of None \<Rightarrow> Inl AttributeError | Some oc \<Rightarrow> Inr (oc_landing oc))"

definition route_run :: "'w conductor \<Rightarrow> spec \<Rightarrow> report \<Rightarrow> ('w fleet, report) act" where
  "route_run c sp rep =
     act_bind (on_ledger (latest_status (sp_run_id sp))) (\<lambda>st.
       if st \<noteq> Some ''converged'' then ret rep
       else
         act_bind (act_res (changed_of c (sp_run_id sp))) (\<lambda>changed.
         act_bind (act_res (cd_self_hosting c
             (case map_of (repos_by_id c) (sp_run_id sp) of Some r \<Rightarrow> r | None \<Rightarrow> sp_tool sp) changed)) (\<lambda>hosting.
           if hosting then ret (rep\<lparr>rp_tier2 := rp_tier2 rep @ [sp_run_id sp]\<rparr>)
           else act_bind (act_res (landing_of sp)) (\<lambda>l.
             ret (if l = auto_merge then rep\<lparr>rp_tier1 := rp_tier1 rep @ [sp_run_id sp]\<rparr> else rep)))))"

section \<open>Edges and starts\<close>

definition consumed_statuses :: "string list" where
  "consumed_statuses = [''running'', ''converged'', ''landed'']"

definition record_consumed :: "'w conductor \<Rightarrow> string list \<Rightarrow> spec \<Rightarrow> (ledger_file, unit) act" where
  "record_consumed c starting sp =
     (if sp_run_id sp \<in> set starting \<or> sp_depends_on sp = [] then ret ()
      else act_bind (latest_status (sp_run_id sp)) (\<lambda>st.
        if (case st of None \<Rightarrow> True | Some x \<Rightarrow> x \<notin> set consumed_statuses) then ret ()
        else act_bind (act_res (producer_edges c (sp_run_id sp))) (\<lambda>(edges, _).
          each_act (record_edge c) edges)))"

definition unrecordable_note :: "string \<Rightarrow> string \<Rightarrow> string" where
  "unrecordable_note dep run_id = ''unrecordable-edge '' @ arrow dep run_id"

definition start_assigned :: "'w conductor \<Rightarrow> string \<times> string \<Rightarrow> report \<Rightarrow> ('w fleet, report) act" where
  "start_assigned c as rep =
     (let (run_id, slot) = as in
      act_bind (act_res (key_lookup (by_id c) run_id)) (\<lambda>sp.
      act_bind (act_res (producer_edges c run_id)) (\<lambda>(edges, unrecordable).
        case unrecordable of
          Some dep \<Rightarrow>
            ret (rep\<lparr>rp_tier2 := rp_tier2 rep @ [unrecordable_note dep run_id]\<rparr>)
        | None \<Rightarrow>
            act_bind (on_ledger (each_act (record_edge c) edges)) (\<lambda>_.
            act_bind (on_ledger (record_start_intent (cd_hash c) run_id slot)) (\<lambda>_.
            act_bind (on_world (sl_start (cd_runner c) slot sp)) (\<lambda>_.
            act_bind (on_ledger (record_status (cd_hash c) run_id ''running'' (Some slot))) (\<lambda>_.
              ret (rep\<lparr>rp_started := rp_started rep @ [run_id]\<rparr>))))))))"

section \<open>The tick\<close>

text \<open>Steps 2 to 5, after the reconciliation.\<close>

definition schedule_and_start :: "'w conductor \<Rightarrow> report \<Rightarrow> ('w fleet, report) act" where
  "schedule_and_start c rep =
     act_bind (on_ledger (reading (\<lambda>rows. startable_runs (cd_program c) rows (cd_pool c) (cd_ceiling c)
         (cd_dep_check c) (cd_projected c)))) (\<lambda>sched.
     act_bind (on_ledger (each_act (record_consumed c (map fst (sr_assignments sched))) (cd_program c))) (\<lambda>_.
     act_bind (fold_act (start_assigned c) (sr_assignments sched) rep) (\<lambda>rep'.
       ret (if sr_all_blocked sched then rep'\<lparr>rp_tier1 := rp_tier1 rep' @ [''ceiling: raise-or-stop'']\<rparr> else rep'))))"

definition tick_body :: "'w conductor \<Rightarrow> (string \<times> string option) list \<Rightarrow> ('w fleet, report) act" where
  "tick_body c observed =
     act_bind (fold_act (check_liveness c) observed empty_report) (\<lambda>rep.
     act_bind (fold_act (route_run c) (cd_program c) rep) (\<lambda>rep'.
       schedule_and_start c rep'))"

definition conduct_tick :: "'w conductor \<Rightarrow> ('w fleet, report) act" where
  "conduct_tick c =
     act_bind (on_world (sl_observe (cd_runner c))) (\<lambda>observed.
     act_bind (on_ledger (has_undeterminable_edge (cd_hash c))) (\<lambda>bad.
       if bad then halt_tick c MalformedEdge
       else act_bind (on_ledger (reading (\<lambda>rows. Inr (reconcile c rows (run_slots observed))))) (\<lambda>why.
         case why of Some w \<Rightarrow> halt_tick c w | None \<Rightarrow> tick_body c observed)))"

section \<open>A tick halts or the world is what the ledger says\<close>

lemma on_ledger_Inr:
  "on_ledger m s = (Inr a, s') \<longleftrightarrow> (\<exists>f. m (fs_file s) = (Inr a, f) \<and> s' = s\<lparr>fs_file := f\<rparr>)"
  by (auto simp: on_ledger_def split: prod.splits)

lemma on_world_Inr:
  "on_world m s = (Inr a, s') \<longleftrightarrow> (\<exists>w. m (fs_world s) = (Inr a, w) \<and> s' = s\<lparr>fs_world := w\<rparr>)"
  by (auto simp: on_world_def split: prod.splits)

lemma reading_Inr: "reading k f = (Inr a, f') \<longleftrightarrow> f' = f \<and> (\<exists>rows. read f = Inr rows \<and> k rows = Inr a)"
  by (auto simp: reading_def res_bind_Inr_iff)

lemma run_slots_snoc:
  "run_slots (obs @ [(slot, run)]) =
     (case run of None \<Rightarrow> run_slots obs | Some r \<Rightarrow> dict_append (run_slots obs) r slot)"
  unfolding run_slots_def foldl_append by (cases run) simp_all

lemma run_slots_effect:
  "map_of (run_slots obs) r =
     (let l = map fst (filter (\<lambda>(_, run). run = Some r) obs) in if l = [] then None else Some l)"
proof (induction obs rule: rev_induct)
  case Nil
  show ?case by (simp add: run_slots_def)
next
  case (snoc so obs)
  obtain slot run where so: "so = (slot, run)" by force
  show ?case
  proof (cases run)
    case None
    with snoc.IH show ?thesis by (simp add: so run_slots_snoc Let_def)
  next
    case (Some q)
    with snoc.IH show ?thesis
      by (auto simp: so run_slots_snoc dict_append_def lookup_default_def Let_def split: if_splits)
  qed
qed

lemma reconcile_None:
  "reconcile c rows rs = None \<longleftrightarrow> (\<forall>(r, slots) \<in> set rs. reconcile_run c rows r slots = None)"
  by (induction rs) (auto split: option.splits)

text \<open>A run accounted for by the ledger, on the slot the ledger has for it.\<close>

definition accounted :: "'w conductor \<Rightarrow> entry list \<Rightarrow> string \<Rightarrow> string \<Rightarrow> bool" where
  "accounted c rows run_id slot \<longleftrightarrow>
     (map_of (by_id c) run_id \<noteq> None \<and> has_status rows run_id known_statuses \<or> intent_slots rows run_id \<noteq> []) \<and>
     (truthy (slot_in rows run_id) \<longrightarrow> slot_in rows run_id = JStr slot)"

lemma reconcile_run_accounted:
  assumes "reconcile_run c rows run_id [slot] = None"
  shows "accounted c rows run_id slot"
proof -
  have n: "(map_of (by_id c) run_id \<noteq> None \<and> has_status rows run_id known_statuses \<or> intent_slots rows run_id \<noteq> [])"
    using assms unfolding reconcile_run_def Let_def by (simp only: list.size) (metis option.distinct(1) less_not_refl One_nat_def add_0)
  show ?thesis
    unfolding accounted_def
  proof (intro conjI impI n)
    assume t: "truthy (slot_in rows run_id)"
    then have "slot_in rows run_id \<noteq> JNull" by auto
    with t n assms show "slot_in rows run_id = JStr slot"
      unfolding reconcile_run_def Let_def by (simp split: if_splits)
  qed
qed

lemma reconciled_world:
  assumes "reconcile c rows (run_slots obs) = None" and "(slot, Some run_id) \<in> set obs"
  shows "accounted c rows run_id slot \<and> (\<forall>slot'. (slot', Some run_id) \<in> set obs \<longrightarrow> slot' = slot)"
proof -
  let ?l = "map fst (filter (\<lambda>(_, run). run = Some run_id) obs)"
  have l: "set ?l = {x. (x, Some run_id) \<in> set obs}" by force
  then have ne: "?l \<noteq> []" using assms(2) by force
  then have "(run_id, ?l) \<in> set (run_slots obs)"
    by (intro map_of_SomeD) (simp add: run_slots_effect Let_def)
  with assms(1) have n: "reconcile_run c rows run_id ?l = None" unfolding reconcile_None by auto
  have "length ?l \<le> 1" using n by (auto simp: reconcile_run_def split: if_splits)
  with ne obtain x where x: "?l = [x]" by (cases ?l) auto
  from l have one: "{y. (y, Some run_id) \<in> set obs} = {x}" unfolding x by simp
  then have "\<And>y. (y, Some run_id) \<in> set obs \<longleftrightarrow> y = x" by (simp add: set_eq_iff)
  with assms(2) have slot: "x = slot" "\<forall>slot'. (slot', Some run_id) \<in> set obs \<longrightarrow> slot' = slot" by simp_all
  have "accounted c rows run_id slot"
    using n unfolding x slot(1) by (rule reconcile_run_accounted)
  with slot(2) show ?thesis by blast
qed

text \<open>The torn rows of a ledger can be flagged: their witnesses can be written back.\<close>

definition flaggable :: "entry list \<Rightarrow> bool" where
  "flaggable rows \<longleftrightarrow> (\<forall>i < length rows. torn (rows ! i) \<longrightarrow> safe_entry (marker i (rows ! i)))"

lemma determinate_edges:
  assumes "has_undeterminable_edge H f = (Inr bad, f1)" and "sound_file H f" and "read f = Inr rows" and "flaggable rows"
  shows "sound_file H f1 \<and> (bad \<longleftrightarrow> list_ex torn rows \<or> list_ex (\<lambda>r. le_event r = ''malformed-edge'') rows) \<and>
    (\<not> bad \<longrightarrow> read f1 = Inr rows \<and> settled rows)"
proof -
  from assms(1) obtain es rows1 where e: "propagation_edges H f = (Inr es, f1)" "read f1 = Inr rows1"
    and bad: "bad \<longleftrightarrow> list_ex torn rows1 \<or> list_ex (\<lambda>r. le_event r = ''malformed-edge'') rows1"
    by (auto simp: has_undeterminable_edge_def act_bind_Inr reading_Inr)
  from edges_settle [OF e(1) assms(2,3)] assms(4) obtain fl ms where
    ms: "markers fl (List.enumerate 0 rows) ms" "sound_file H f1" "read f1 = Inr (rows @ ms)" "settled (rows @ ms)"
    by (auto simp: flaggable_def)
  then have r: "rows1 = rows @ ms" using e(2) by simp
  have "list_ex torn rows" if "ms \<noteq> []"
  proof -
    have "unflagged fl (List.enumerate 0 rows) \<noteq> []" using that ms(1) by (auto simp: markers_def)
    then obtain ir where "ir \<in> set (unflagged fl (List.enumerate 0 rows))" by (cases "unflagged fl (List.enumerate 0 rows)") auto
    then show ?thesis by (force simp: unflagged_def in_set_enumerate_eq list_ex_iff)
  qed
  moreover have "list_all (\<lambda>e. le_event e = ''malformed-edge'') ms" using markers_quiet [OF ms(1)] by (simp add: list_all_iff)
  ultimately show ?thesis using ms bad unfolding r by (cases ms) (auto simp: list_ex_iff)
qed

text \<open>The steps after the reconciliation never halt.\<close>

lemma tick_body_Inr:
  assumes "tick_body c obs s = (Inr rep, s')"
  obtains rep1 s1 rep2 s2 where "fold_act (check_liveness c) obs empty_report s = (Inr rep1, s1)"
    and "fold_act (route_run c) (cd_program c) rep1 s1 = (Inr rep2, s2)"
    and "schedule_and_start c rep2 s2 = (Inr rep, s')"
  using assms unfolding tick_body_def act_bind_Inr by blast

lemma schedule_and_start_Inr:
  assumes "schedule_and_start c rep s = (Inr rep', s')"
  obtains rows sched f1 rep1 where "read (fs_file s) = Inr rows"
    and "startable_runs (cd_program c) rows (cd_pool c) (cd_ceiling c) (cd_dep_check c) (cd_projected c) = Inr sched"
    and "each_act (record_consumed c (map fst (sr_assignments sched))) (cd_program c) (fs_file s) = (Inr (), f1)"
    and "fold_act (start_assigned c) (sr_assignments sched) rep (s\<lparr>fs_file := f1\<rparr>) = (Inr rep1, s')"
    and "rep' = (if sr_all_blocked sched then rep1\<lparr>rp_tier1 := rp_tier1 rep1 @ [''ceiling: raise-or-stop'']\<rparr> else rep1)"
  using assms unfolding schedule_and_start_def act_bind_Inr on_ledger_Inr reading_Inr ret_iff
  by (elim exE conjE) simp

lemma body_not_halted:
  assumes "tick_body c obs s = (Inr rep, s')"
  shows "\<not> rp_halted rep"
proof -
  from assms obtain rep1 s1 rep2 s2 where
    1: "fold_act (check_liveness c) obs empty_report s = (Inr rep1, s1)" and
    2: "fold_act (route_run c) (cd_program c) rep1 s1 = (Inr rep2, s2)" and
    3: "schedule_and_start c rep2 s2 = (Inr rep, s')" by (rule tick_body_Inr)
  from 3 obtain sched :: schedule and f1 and rep3 :: report where
    4: "fold_act (start_assigned c) (sr_assignments sched) rep2 (s2\<lparr>fs_file := f1\<rparr>) = (Inr rep3, s')" and
    rep: "rep = (if sr_all_blocked sched then rep3\<lparr>rp_tier1 := rp_tier1 rep3 @ [''ceiling: raise-or-stop'']\<rparr> else rep3)"
    by (rule schedule_and_start_Inr)
  have "\<not> rp_halted rep1"
    by (rule fold_act_invariant [where I = "\<lambda>b s. \<not> rp_halted b", OF _ _ 1])
      (auto simp: check_liveness_def act_bind_Inr empty_report_def split: prod.splits option.splits if_splits)
  then have "\<not> rp_halted rep2"
    by (rule fold_act_invariant [where I = "\<lambda>b s. \<not> rp_halted b", OF _ _ 2, rotated])
      (auto simp: route_run_def act_bind_Inr split: if_splits)
  then have "\<not> rp_halted rep3"
    by (rule fold_act_invariant [where I = "\<lambda>b s. \<not> rp_halted b", OF _ _ 4, rotated])
      (auto simp: start_assigned_def act_bind_Inr split: prod.splits option.splits)
  then show ?thesis by (simp add: rep)
qed

lemma halt_tick_Inr:
  "halt_tick c why s = (Inr rep, s') \<longleftrightarrow>
     (\<exists>f. record_halt (cd_hash c) (cd_text c why) (fs_file s) = (Inr (), f) \<and> s' = s\<lparr>fs_file := f\<rparr>) \<and>
     rep = empty_report\<lparr>rp_halted := True, rp_reason := Some why\<rparr>"
  by (auto simp: halt_tick_def act_bind_Inr on_ledger_Inr)


section \<open>Ledger effects of the steps\<close>

text \<open>A verified, settled ledger with these rows.\<close>

definition sane :: "hash \<Rightarrow> ledger_file \<Rightarrow> entry list \<Rightarrow> bool" where
  "sane H f rows \<longleftrightarrow> sound_file H f \<and> read f = Inr rows \<and> settled rows"

text \<open>Edge rows change no status, slot or intent.\<close>

definition edge_rows :: "entry list \<Rightarrow> bool" where
  "edge_rows es \<longleftrightarrow> (\<forall>e \<in> set es. le_event e = ''propagation-edge'')"

lemma edge_rows_quiet:
  "edge_rows es \<Longrightarrow> latest (rows @ es) = latest rows \<and> slot_in (rows @ es) = slot_in rows \<and>
     open_intents (rows @ es) = open_intents rows"
proof (induction es rule: rev_induct)
  case (snoc e es)
  then have e: "le_event e = ''propagation-edge''" by (simp add: edge_rows_def)
  note simps = latest_snoc [of "rows @ es" e] slot_in_snoc [of "rows @ es" e] open_intents_snoc [of "rows @ es" e]
  from snoc e show ?case
    by (simp add: fun_eq_iff simps [unfolded append_assoc] status_row_def slot_row_def closes_def edge_rows_def case_prod_unfold)
qed simp

text \<open>A producer edge whose names a row can carry.\<close>

definition tame_edge :: "'w conductor \<Rightarrow> producer_edge \<Rightarrow> bool" where
  "tame_edge c e \<longleftrightarrow>
     safe_str (pe_from e) \<and> pe_from e \<noteq> [] \<and> safe_str (pe_to e) \<and> pe_to e \<noteq> [] \<and> safe_str (pe_artifact e) \<and>
     (\<forall>t. pe_tip e = Some t \<longrightarrow> safe_str t \<and>
        (\<forall>repo who. resolve_author (cd_git c repo) t = Inr who \<longrightarrow> safe_json (ostr who)))"

definition ends :: "producer_edge \<Rightarrow> edge" where
  "ends e = (JStr (pe_from e), JStr (pe_to e))"

lemma edge_row_snoc:
  assumes "es = [] \<and> live_edge rows (JStr a, JStr b) \<or> (\<exists>e. es = [e] \<and> edge_row a b e \<and> P e)" and "settled rows"
  shows "edge_rows es \<and> settled (rows @ es) \<and> live_edge (rows @ es) = (\<lambda>k. k = (JStr a, JStr b) \<or> live_edge rows k)"
  using assms edge_row_live [of a b _ rows] settled_snoc [OF assms(2)] by (auto simp: edge_rows_def edge_row_def)

lemma record_edge_effect:
  assumes "sane (cd_hash c) f rows" and "tame_edge c e" and "record_edge c e f = (r, f')"
  shows "\<exists>es. sane (cd_hash c) f' (rows @ es) \<and> edge_rows es \<and>
    (if r = Inr () then live_edge (rows @ es) = (\<lambda>k. k = ends e \<or> live_edge rows k) else es = [])"
proof -
  note s = assms(1) [unfolded sane_def]
  note t = assms(2) [unfolded tame_edge_def]
  show ?thesis
  proof (cases "pe_tip e = None \<and> pe_intra e")
    case True
    from record_intra_edge_rows [of "cd_hash c" f rows "pe_from e" "pe_to e" "pe_artifact e"] s t obtain f1 es where
      1: "record_intra_edge (cd_hash c) (pe_from e) (pe_to e) (pe_artifact e) f = (Inr (), f1)" "sound_file (cd_hash c) f1"
      "read f1 = Inr (rows @ es)" and es: "es = [] \<and> live_edge rows (JStr (pe_from e), JStr (pe_to e)) \<or>
        (\<exists>x. es = [x] \<and> edge_row (pe_from e) (pe_to e) x \<and> \<not> le_independence x)" by metis
    from edge_row_snoc [OF es] 1 True assms(3) s show ?thesis
      by (auto simp: record_edge_def sane_def ends_def)
  next
    case False
    show ?thesis
    proof (cases "\<exists>repo t who. pe_repo e = Some repo \<and> pe_tip e = Some t \<and> resolve_author (cd_git c repo) t = Inr who")
      case True
      then obtain repo tp who where w: "pe_repo e = Some repo" "pe_tip e = Some tp" "resolve_author (cd_git c repo) tp = Inr who"
        by blast
      from record_propagation_edge_rows [of "cd_hash c" f rows "cd_git c repo" tp who "pe_from e" "pe_to e" "pe_artifact e"] s t w
      obtain f1 es where
        1: "record_propagation_edge (cd_hash c) (cd_git c repo) (pe_from e) (pe_to e) (pe_artifact e) tp f = (Inr (), f1)"
        "sound_file (cd_hash c) f1" "read f1 = Inr (rows @ es)" and
        es: "es = [] \<and> live_edge rows (JStr (pe_from e), JStr (pe_to e)) \<or>
          (\<exists>x. es = [x] \<and> edge_row (pe_from e) (pe_to e) x \<and> le_author x = ostr who \<and> le_independence x = (who \<noteq> None))" by metis
      from edge_row_snoc [OF es] 1 w assms(3) s show ?thesis
        by (auto simp: record_edge_def sane_def ends_def)
    next
      case none: False
      have "(\<exists>x. r = Inl x) \<and> f' = f \<or> r = Inr () \<and> f' = f \<and> live_edge rows (ends e)"
      proof (cases "pe_repo e = None \<or> pe_tip e = None")
        case True
        with assms(3) False show ?thesis by (auto simp: record_edge_def split: option.splits)
      next
        case False
        then obtain repo tp where rt: "pe_repo e = Some repo" "pe_tip e = Some tp" by auto
        with none obtain x where "resolve_author (cd_git c repo) tp = Inl x" by (cases "resolve_author (cd_git c repo) tp") auto
        with rt s assms(3) show ?thesis
          by (auto simp: record_edge_def record_propagation_edge_def act_bind_def act_res_def settled_edges edge_listed_live
              ends_def split: if_splits)
      qed
      then show ?thesis using assms(1) by (intro exI [of _ "[]"]) (auto simp: edge_rows_def fun_eq_iff)
    qed
  qed
qed

lemma each_record_edge_effect:
  assumes "sane (cd_hash c) f rows" and "\<forall>e \<in> set edges. tame_edge c e" and "each_act (record_edge c) edges f = (r, f')"
  shows "\<exists>es. sane (cd_hash c) f' (rows @ es) \<and> edge_rows es \<and> (\<forall>k. live_edge rows k \<longrightarrow> live_edge (rows @ es) k) \<and>
    (r = Inr () \<longrightarrow> (\<forall>e \<in> set edges. live_edge (rows @ es) (ends e)))"
  using assms
proof (induction edges arbitrary: f rows)
  case Nil
  then show ?case by (intro exI [of _ "[]"]) (auto simp: edge_rows_def)
next
  case (Cons e edges)
  obtain q f1 where 1: "record_edge c e f = (q, f1)" by force
  from record_edge_effect [OF Cons.prems(1) _ 1] Cons.prems(2) obtain es1 where
    es1: "sane (cd_hash c) f1 (rows @ es1)" "edge_rows es1"
    "if q = Inr () then live_edge (rows @ es1) = (\<lambda>k. k = ends e \<or> live_edge rows k) else es1 = []" by auto
  show ?case
  proof (cases q)
    case (Inl x)
    with Cons.prems(3) 1 have "f' = f1" "r = Inl x" by (auto simp: act_bind_def)
    with es1 Inl show ?thesis by (intro exI [of _ es1]) auto
  next
    case (Inr u)
    with Cons.prems(3) 1 have "each_act (record_edge c) edges f1 = (r, f')" by (simp add: act_bind_def)
    from Cons.IH [OF es1(1) _ this] Cons.prems(2) obtain es2 where
      es2: "sane (cd_hash c) f' ((rows @ es1) @ es2)" "edge_rows es2" "\<forall>k. live_edge (rows @ es1) k \<longrightarrow> live_edge ((rows @ es1) @ es2) k"
      "r = Inr () \<longrightarrow> (\<forall>e \<in> set edges. live_edge ((rows @ es1) @ es2) (ends e))" by auto
    have "edge_rows (es1 @ es2)" using es1(2) es2(2) by (auto simp: edge_rows_def)
    moreover have "live_edge (rows @ es1) (ends e)" "\<forall>k. live_edge rows k \<longrightarrow> live_edge (rows @ es1) k"
      using es1(3) Inr by auto
    ultimately show ?thesis using es2 by (intro exI [of _ "es1 @ es2"]) (auto simp only: append_assoc set_simps)
  qed
qed

section \<open>Write-ahead starts\<close>

text \<open>
  A fleet whose names a ledger row can carry (no line separator, encodable) and are not empty:
  run ids, dependencies, slots, converged commits and attested peers.
\<close>

definition tame :: "'w conductor \<Rightarrow> bool" where
  "tame c \<longleftrightarrow>
     (\<forall>s \<in> set (cd_program c). safe_str (sp_run_id s) \<and> sp_run_id s \<noteq> [] \<and>
        (\<forall>d \<in> set (sp_depends_on s). safe_str d \<and> d \<noteq> [])) \<and>
     (\<forall>slot \<in> set (po_slots (cd_pool c)). safe_str slot \<and> slot \<noteq> []) \<and>
     (\<forall>dep t. converged_tip (map_of (cd_runs c) dep) = Inr (Some t) \<longrightarrow> safe_str t \<and>
        (\<forall>repo who. resolve_author (cd_git c repo) t = Inr who \<longrightarrow> safe_json (ostr who)))"

lemma tame_spec:
  "tame c \<Longrightarrow> s \<in> set (cd_program c) \<Longrightarrow> safe_str (sp_run_id s) \<and> sp_run_id s \<noteq> [] \<and>
     (\<forall>d \<in> set (sp_depends_on s). safe_str d \<and> d \<noteq> [])"
  unfolding tame_def by blast

lemma tame_slot: "tame c \<Longrightarrow> slot \<in> set (po_slots (cd_pool c)) \<Longrightarrow> safe_str slot \<and> slot \<noteq> []"
  unfolding tame_def by blast

lemma by_run_id_Some: "map_of (by_run_id runs) k = Some s \<Longrightarrow> s \<in> set runs \<and> sp_run_id s = k"
proof (induction runs rule: rev_induct)
  case (snoc x runs)
  have "by_run_id (runs @ [x]) = dict_set (by_run_id runs) (sp_run_id x) x" by (simp add: by_run_id_def dict_of_def)
  with snoc show ?case by (auto split: if_splits)
qed (simp add: by_run_id_def dict_of_def)

lemma by_run_id_distinct: "distinct (map sp_run_id runs) \<Longrightarrow> by_run_id runs = map (\<lambda>s. (sp_run_id s, s)) runs"
  unfolding by_run_id_def by (rule dict_of_distinct) (simp add: comp_def)

lemma ascii_append_safe: "ascii a \<Longrightarrow> safe_str b \<Longrightarrow> safe_str (a @ b)"
proof (induction a)
  case (Cons x a)
  have "\<not> sep_at (x # a @ b)" using Cons.prems(1) by (cases "a @ b") (auto simp: ascii_def)
  moreover have "utf8_ok (x # a @ b)"
    using Cons.prems(2) utf8_ok_append [OF ascii_utf8_ok [OF Cons.prems(1)], of b] unfolding safe_str_def append_Cons by blast
  moreover have "\<not> has_sep (a @ b)" using Cons by (simp add: safe_str_def ascii_def)
  ultimately show ?case by (simp add: safe_str_def)
qed simp

lemma artifact_safe: "tame c \<Longrightarrow> safe_str (artifact_for (map_of (by_id c) dep))"
proof (cases "map_of (by_id c) dep")
  case None
  then show ?thesis by (simp add: artifact_for_def ascii_safe ascii_def byte_def)
next
  case (Some s)
  assume "tame c"
  with by_run_id_Some [OF Some [unfolded by_id_def]] tame_spec have "safe_str (sp_run_id s)" by blast
  with Some show ?thesis unfolding artifact_for_def
    by simp (rule ascii_append_safe [of "''peers/run/''", simplified], simp_all add: ascii_def byte_def)
qed

lemma producer_edge_tame:
  assumes "tame c" and "producer_edge_of c rid tool dep = Inr (Some e)" and "safe_str rid" "rid \<noteq> []" "safe_str dep" "dep \<noteq> []"
  shows "tame_edge c e \<and> pe_from e = dep \<and> pe_to e = rid"
proof -
  from assms(2) obtain t where t: "converged_tip (map_of (cd_runs c) dep) = Inr t"
    and e: "pe_from e = dep" "pe_to e = rid" "pe_artifact e = artifact_for (map_of (by_id c) dep)" "pe_tip e = None \<or> pe_tip e = t"
    by (auto simp: producer_edge_of_def Let_def res_bind_Inr_iff split: if_splits)
  have "safe_str x \<and> (\<forall>repo who. resolve_author (cd_git c repo) x = Inr who \<longrightarrow> safe_json (ostr who))" if "pe_tip e = Some x" for x
    using assms(1) t e(4) that unfolding tame_def by auto
  with e assms(3-6) artifact_safe [OF assms(1)] show ?thesis by (simp add: tame_edge_def)
qed

lemma producer_loop_tame:
  assumes "tame c" and "safe_str rid" "rid \<noteq> []"
  shows "producer_loop c rid tool deps es u = Inr (es', u') \<Longrightarrow> (\<forall>d \<in> set deps. safe_str d \<and> d \<noteq> []) \<Longrightarrow>
    (\<forall>e \<in> set es. tame_edge c e \<and> pe_to e = rid) \<Longrightarrow>
    (\<forall>e \<in> set es'. tame_edge c e \<and> pe_to e = rid) \<and>
    (u' = None \<longrightarrow> u = None \<and> pe_from ` set es' = pe_from ` set es \<union> set deps)"
proof (induction deps arbitrary: es u)
  case (Cons d deps)
  from Cons.prems(1) obtain x where x: "producer_edge_of c rid tool d = Inr x"
    and rest: "(case x of None \<Rightarrow> producer_loop c rid tool deps es (Some d)
       | Some e \<Rightarrow> producer_loop c rid tool deps (es @ [e]) u) = Inr (es', u')"
    by (auto simp: res_bind_Inr_iff)
  show ?case
  proof (cases x)
    case None
    with rest Cons.IH [of es "Some d"] Cons.prems(2,3) show ?thesis by auto
  next
    case (Some e)
    with producer_edge_tame [OF assms(1) x [unfolded Some] assms(2,3)] Cons.prems(2)
    have e: "tame_edge c e" "pe_from e = d" "pe_to e = rid" by auto
    with rest Some Cons.IH [of "es @ [e]" u] Cons.prems(2,3) show ?thesis by auto
  qed
qed simp

lemma producer_edges_tame:
  assumes "tame c" and "producer_edges c rid = Inr (edges, u)"
  shows "\<exists>sp \<in> set (cd_program c). sp_run_id sp = rid \<and> map_of (by_id c) rid = Some sp \<and>
    (\<forall>e \<in> set edges. tame_edge c e) \<and>
    (u = None \<longrightarrow> (\<forall>d \<in> set (sp_depends_on sp). \<exists>e \<in> set edges. ends e = (JStr d, JStr rid)))"
proof -
  from assms(2) obtain sp where sp: "map_of (by_id c) rid = Some sp"
    and l: "producer_loop c rid (cd_resolve c (sp_tool sp)) (sp_depends_on sp) [] None = Inr (edges, u)"
    by (auto simp: producer_edges_def res_bind_Inr_iff)
  from by_run_id_Some [OF sp [unfolded by_id_def]] have m: "sp \<in> set (cd_program c)" "sp_run_id sp = rid" by auto
  have n: "safe_str rid" "rid \<noteq> []" "\<forall>d \<in> set (sp_depends_on sp). safe_str d \<and> d \<noteq> []"
    using tame_spec [OF assms(1) m(1)] unfolding m(2) by blast+
  from producer_loop_tame [OF assms(1) n(1,2) l n(3)] have
    e: "\<forall>e \<in> set edges. tame_edge c e \<and> pe_to e = rid" "u = None \<longrightarrow> pe_from ` set edges = set (sp_depends_on sp)" by auto
  have "\<exists>e \<in> set edges. ends e = (JStr d, JStr rid)" if "u = None" "d \<in> set (sp_depends_on sp)" for d
  proof -
    have "d \<in> pe_from ` set edges" using e(2) that by simp
    then obtain x where "x \<in> set edges" "pe_from x = d" by auto
    with e(1) show ?thesis by (auto simp: ends_def)
  qed
  with sp m e(1) show ?thesis by (intro bexI [of _ sp]) auto
qed

text \<open>What the ledger holds when a consumer is really started.\<close>

definition committed :: "'w conductor \<Rightarrow> entry list \<Rightarrow> string \<Rightarrow> string \<Rightarrow> bool" where
  "committed c rows rid slot \<longleftrightarrow> (Some rid, JStr slot) \<in> set (open_intents rows) \<and>
     latest rows rid = Some ''start-intent'' \<and> slot_in rows rid = JStr slot \<and>
     (\<forall>sp. map_of (by_id c) rid = Some sp \<longrightarrow>
        (\<forall>d \<in> set (sp_depends_on sp). live_edge rows (JStr d, JStr rid)))"

lemma clean_plain:
  "same_content (plain_entry ev st sb w m) e \<Longrightarrow> ev \<notin> {''propagation-edge'', ''edge-superseded'', ''malformed-edge''} \<Longrightarrow>
   clean_row e \<and> edge_event e = None"
  using same_content_fields [of "plain_entry ev st sb w m" e]
  by (auto simp: clean_row_def torn_def edge_event_def Let_def split: sum.splits)

lemma sane_snoc:
  assumes "sane H f rows" and "sound_file H f'" and "read f' = Inr (rows @ [e])"
    and "same_content (plain_entry ev st sb w m) e" and "ev \<notin> {''propagation-edge'', ''edge-superseded'', ''malformed-edge''}"
  shows "sane H f' (rows @ [e]) \<and> live_edge (rows @ [e]) = live_edge rows"
  using assms clean_plain [OF assms(4,5)] settled_snoc [of rows e] live_edge_snoc [of rows e]
  by (auto simp: sane_def fun_eq_iff)

lemma record_status_sane:
  assumes "sane H f rows" and "safe_str rid" "safe_str st" and "\<And>s. slot = Some s \<Longrightarrow> safe_str s"
  obtains e f' where "record_status H rid st slot f = (Inr (), f')" and "sane H f' (rows @ [e])"
    and "same_content (status_entry rid st (slot_arg slot)) e" and "live_edge (rows @ [e]) = live_edge rows"
proof -
  from assms(1) have s: "sound_file H f" "read f = Inr rows" by (auto simp: sane_def)
  from record_status_rows [OF s assms(2-4)] obtain e f' where
    1: "record_status H rid st slot f = (Inr (), f')" "sound_file H f'" "read f' = Inr (rows @ [e])"
      "same_content (status_entry rid st (slot_arg slot)) e" by metis
  from sane_snoc [OF assms(1) 1(2,3) 1(4) [unfolded status_entry_def]] 1 that show thesis by auto
qed

lemma record_status_ex:
  assumes "sane H f rows" and "safe_str rid" "safe_str st" and "\<forall>s. slot = Some s \<longrightarrow> safe_str s"
  shows "\<exists>e f'. record_status H rid st slot f = (Inr (), f') \<and> sane H f' (rows @ [e]) \<and>
    same_content (status_entry rid st (slot_arg slot)) e \<and> live_edge (rows @ [e]) = live_edge rows"
  by (rule record_status_sane [OF assms(1-3), of slot]) (use assms(4) in blast)+

lemma record_start_intent_sane:
  assumes "sane H f rows" and "safe_str rid" "safe_str slot"
  obtains e1 e2 f' where "record_start_intent H rid slot f = (Inr (), f')" and "sane H f' (rows @ [e1, e2])"
    and "same_content (plain_entry ''start-intent'' ''pending'' (Some rid) (slot_witness slot) (Some rid)) e1"
    and "same_content (status_entry rid ''start-intent'' (slot_witness slot)) e2"
    and "live_edge (rows @ [e1, e2]) = live_edge rows"
proof -
  from assms(1) have s: "sound_file H f" "read f = Inr rows" "settled rows" by (auto simp: sane_def)
  from record_start_intent_rows [OF s(1,2) assms(2,3)] obtain e1 e2 f' where
    1: "record_start_intent H rid slot f = (Inr (), f')" "sound_file H f'" "read f' = Inr (rows @ [e1, e2])"
    "same_content (plain_entry ''start-intent'' ''pending'' (Some rid) (slot_witness slot) (Some rid)) e1"
    "same_content (status_entry rid ''start-intent'' (slot_witness slot)) e2" .
  have c: "clean_row e1 \<and> edge_event e1 = None" "clean_row e2 \<and> edge_event e2 = None"
    using clean_plain [OF 1(4)] clean_plain [OF 1(5) [unfolded status_entry_def]] by auto
  then have "settled ((rows @ [e1]) @ [e2])" using s(3) by (intro settled_snoc) auto
  moreover have "live_edge ((rows @ [e1]) @ [e2]) = live_edge rows"
    using c live_edge_snoc [of "rows @ [e1]" e2] live_edge_snoc [of rows e1] by (simp add: fun_eq_iff)
  ultimately show thesis using 1 that by (simp add: sane_def)
qed

text \<open>One assigned run, all outcomes: nothing started, or everything committed before the start.\<close>

lemma start_assigned_effect:
  assumes "tame c" and "sane (cd_hash c) (fs_file s) rows" and "safe_str slot" and "start_assigned c (rid, slot) rep s = (r, s')"
  shows "(\<exists>es. sane (cd_hash c) (fs_file s') (rows @ es) \<and> edge_rows es \<and> (\<forall>k. live_edge rows k \<longrightarrow> live_edge (rows @ es) k) \<and>
      fs_world s' = fs_world s \<and>
      (isl r \<or> (\<exists>dep. r = Inr (rep\<lparr>rp_tier2 := rp_tier2 rep @ [unrecordable_note dep rid]\<rparr>)))) \<or>
    (\<exists>es e1 e2 f1 q sp. map_of (by_id c) rid = Some sp \<and> edge_rows es \<and> sane (cd_hash c) f1 (rows @ es @ [e1, e2]) \<and>
      (\<forall>k. live_edge rows k \<longrightarrow> live_edge (rows @ es @ [e1, e2]) k) \<and>
      (\<forall>d \<in> set (sp_depends_on sp). live_edge (rows @ es @ [e1, e2]) (JStr d, JStr rid)) \<and>
      same_content (plain_entry ''start-intent'' ''pending'' (Some rid) (slot_witness slot) (Some rid)) e1 \<and>
      same_content (status_entry rid ''start-intent'' (slot_witness slot)) e2 \<and>
      sl_start (cd_runner c) slot sp (fs_world s) = (q, fs_world s') \<and>
      (case q of Inl e \<Rightarrow> r = Inl e \<and> fs_file s' = f1
       | Inr _ \<Rightarrow> r = Inr (rep\<lparr>rp_started := rp_started rep @ [rid]\<rparr>) \<and>
           (\<exists>e3. sane (cd_hash c) (fs_file s') (rows @ es @ [e1, e2, e3]) \<and>
              live_edge (rows @ es @ [e1, e2, e3]) = live_edge (rows @ es @ [e1, e2]) \<and>
              same_content (status_entry rid ''running'' (slot_arg (Some slot))) e3)))"
  (is "?idle \<or> ?started")
proof (cases "\<exists>edges. map_of (by_id c) rid \<noteq> None \<and> producer_edges c rid = Inr (edges, None)")
  case False
  then have "s' = s \<and> (isl r \<or> (\<exists>dep. r = Inr (rep\<lparr>rp_tier2 := rp_tier2 rep @ [unrecordable_note dep rid]\<rparr>)))"
    using assms(4) by (cases "map_of (by_id c) rid"; cases "producer_edges c rid")
      (auto simp: start_assigned_def act_bind_def key_lookup_def ret_def act_res_def split: option.splits)
  then have ?idle using assms(2) by (intro exI [of _ "[]"]) (auto simp: edge_rows_def)
  then show ?thesis ..
next
  case True
  then obtain edges sp where sp: "map_of (by_id c) rid = Some sp" and pe: "producer_edges c rid = Inr (edges, None)" by auto
  from producer_edges_tame [OF assms(1) pe] sp have p: "sp \<in> set (cd_program c)" "sp_run_id sp = rid"
    "\<forall>e \<in> set edges. tame_edge c e" "\<forall>d \<in> set (sp_depends_on sp). \<exists>e \<in> set edges. ends e = (JStr d, JStr rid)" by auto
  have rid: "safe_str rid" using tame_spec [OF assms(1) p(1)] unfolding p(2) by blast
  obtain q0 f0 where e0: "each_act (record_edge c) edges (fs_file s) = (q0, f0)" by force
  from each_record_edge_effect [OF assms(2) p(3) e0] obtain es where
    es: "sane (cd_hash c) f0 (rows @ es)" "edge_rows es" "\<forall>k. live_edge rows k \<longrightarrow> live_edge (rows @ es) k"
    "q0 = Inr () \<longrightarrow> (\<forall>e \<in> set edges. live_edge (rows @ es) (ends e))" by blast
  show ?thesis
  proof (cases q0)
    case (Inl x)
    then have "r = Inl x \<and> s' = s\<lparr>fs_file := f0\<rparr>"
      using assms(4) sp pe e0 by (simp add: start_assigned_def act_bind_def act_res_def key_lookup_def on_ledger_def)
    with es have ?idle by (intro exI [of _ es]) auto
    then show ?thesis ..
  next
    case (Inr u)
    from record_start_intent_sane [OF es(1) rid assms(3)] obtain e1 e2 f1 where
      i: "record_start_intent (cd_hash c) rid slot f0 = (Inr (), f1)" "sane (cd_hash c) f1 ((rows @ es) @ [e1, e2])"
      "same_content (plain_entry ''start-intent'' ''pending'' (Some rid) (slot_witness slot) (Some rid)) e1"
      "same_content (status_entry rid ''start-intent'' (slot_witness slot)) e2"
      "live_edge ((rows @ es) @ [e1, e2]) = live_edge (rows @ es)" .
    obtain q w where w: "sl_start (cd_runner c) slot sp (fs_world s) = (q, w)" by force
    from record_status_sane [OF i(2) rid fleet_texts(8), of "Some slot"] assms(3) obtain e3 f2 where
      t: "record_status (cd_hash c) rid ''running'' (Some slot) f1 = (Inr (), f2)"
      "sane (cd_hash c) f2 (((rows @ es) @ [e1, e2]) @ [e3])"
      "same_content (status_entry rid ''running'' (slot_arg (Some slot))) e3"
      "live_edge (((rows @ es) @ [e1, e2]) @ [e3]) = live_edge ((rows @ es) @ [e1, e2])" by blast
    have out: "(r, s') = (case q of Inl e \<Rightarrow> (Inl e, s\<lparr>fs_file := f1, fs_world := w\<rparr>)
        | Inr _ \<Rightarrow> (Inr (rep\<lparr>rp_started := rp_started rep @ [rid]\<rparr>), s\<lparr>fs_file := f2, fs_world := w\<rparr>))"
      using assms(4) sp pe e0 Inr i(1) w t(1)
      by (auto simp: start_assigned_def act_bind_def act_res_def key_lookup_def on_ledger_def on_world_def ret_def split: sum.splits)
    have live: "\<forall>d \<in> set (sp_depends_on sp). live_edge (rows @ es @ [e1, e2]) (JStr d, JStr rid)"
      using p(4) es(4) Inr i(5) by fastforce
    have ?started
      using sp es(2,3) i live w t out
      by (intro exI [of _ es] exI [of _ e1] exI [of _ e2] exI [of _ f1] exI [of _ q] exI [of _ sp]) (auto split: sum.splits)
    then show ?thesis ..
  qed
qed

lemma start_committed:
  assumes "tame c" and "sane (cd_hash c) (fs_file s) rows" and "safe_str slot"
    and "start_assigned c (rid, slot) rep s = (r, s')"
  shows "fs_world s' = fs_world s \<and>
      (isl r \<or> (\<exists>dep. r = Inr (rep\<lparr>rp_tier2 := rp_tier2 rep @ [unrecordable_note dep rid]\<rparr>))) \<or>
    (\<exists>sp f1 rows1 q. map_of (by_id c) rid = Some sp \<and> read f1 = Inr rows1 \<and> committed c rows1 rid slot \<and>
      accounted c rows1 rid slot \<and> sl_start (cd_runner c) slot sp (fs_world s) = (q, fs_world s') \<and>
      (case q of Inl e \<Rightarrow> r = Inl e \<and> fs_file s' = f1
       | Inr _ \<Rightarrow> r = Inr (rep\<lparr>rp_started := rp_started rep @ [rid]\<rparr>) \<and>
           (\<exists>rows2. read (fs_file s') = Inr rows2 \<and> latest rows2 rid = Some ''running'' \<and> slot_in rows2 rid = JStr slot \<and>
              (Some rid, JStr slot) \<notin> set (open_intents rows2) \<and>
              (\<forall>d \<in> set (sp_depends_on sp). live_edge rows2 (JStr d, JStr rid)))))"
  using start_assigned_effect [OF assms]
proof (elim disjE exE conjE, goal_cases)
  case (3 es e1 e2 f1 q sp)
  let ?rows1 = "(rows @ es) @ [e1, e2]"
  note eff = start_intent_effect [OF 3(6,7), of "rows @ es"]
  have com: "committed c ?rows1 rid slot" "accounted c ?rows1 rid slot"
    using 3(1,5) eff by (auto simp: committed_def accounted_def intent_slots_def filter_empty_conv)
  have run: "latest (?rows1 @ [e3]) rid = Some ''running'' \<and> slot_in (?rows1 @ [e3]) rid = JStr slot \<and>
      (Some rid, JStr slot) \<notin> set (open_intents (?rows1 @ [e3]))"
    if "same_content (status_entry rid ''running'' (slot_arg (Some slot))) e3" for e3
    using status_entry_effect [OF that, of ?rows1] eff(2) slot_witness_get [of slot]
    by (auto simp: slot_arg_def intent_closing_def obj_or_empty_def [of JNull] jget_def [of "[]"])
  show ?case
  proof (rule disjI2, intro exI conjI)
    show "map_of (by_id c) rid = Some sp" "read f1 = Inr ?rows1" using 3 by (auto simp: sane_def)
    show "committed c ?rows1 rid slot" "accounted c ?rows1 rid slot" by (fact com)+
    show "sl_start (cd_runner c) slot sp (fs_world s) = (q, fs_world s')" by fact
    show "case q of Inl e \<Rightarrow> r = Inl e \<and> fs_file s' = f1
       | Inr _ \<Rightarrow> r = Inr (rep\<lparr>rp_started := rp_started rep @ [rid]\<rparr>) \<and>
           (\<exists>rows2. read (fs_file s') = Inr rows2 \<and> latest rows2 rid = Some ''running'' \<and> slot_in rows2 rid = JStr slot \<and>
              (Some rid, JStr slot) \<notin> set (open_intents rows2) \<and>
              (\<forall>d \<in> set (sp_depends_on sp). live_edge rows2 (JStr d, JStr rid)))"
      using 3(5,9) run by (cases q) (force simp: sane_def)+
  qed
qed auto

text \<open>
  C23: a start is committed before it happens. If the slot runner is asked to start a run, then at that
  moment the ledger already holds the open intent for this slot, the status \<open>start-intent\<close>, the
  slot, and a live edge from every producer, so that the run reconciles in the next tick even if
  the start raises or the process dies; if it returns, the run is \<open>running\<close> on that slot, its
  intent is closed and its edges are still live. In every other case the runner is not called.
\<close>

theorem start_is_write_ahead:
  assumes "tame c" and "sane (cd_hash c) (fs_file s) rows" and "safe_str slot"
    and "start_assigned c (rid, slot) rep s = (r, s')"
  shows "fs_world s' = fs_world s \<and>
      (isl r \<or> (\<exists>dep. r = Inr (rep\<lparr>rp_tier2 := rp_tier2 rep @ [unrecordable_note dep rid]\<rparr>))) \<or>
    (\<exists>sp f1 rows1 q. map_of (by_id c) rid = Some sp \<and> read f1 = Inr rows1 \<and> committed c rows1 rid slot \<and>
      accounted c rows1 rid slot \<and> sl_start (cd_runner c) slot sp (fs_world s) = (q, fs_world s') \<and>
      (case q of Inl e \<Rightarrow> r = Inl e \<and> fs_file s' = f1
       | Inr _ \<Rightarrow> r = Inr (rep\<lparr>rp_started := rp_started rep @ [rid]\<rparr>) \<and>
           (\<exists>rows2. read (fs_file s') = Inr rows2 \<and> latest rows2 rid = Some ''running'' \<and> slot_in rows2 rid = JStr slot \<and>
              (Some rid, JStr slot) \<notin> set (open_intents rows2) \<and>
              (\<forall>d \<in> set (sp_depends_on sp). live_edge rows2 (JStr d, JStr rid)))))"
  by (rule start_committed [OF assms])

section \<open>What a report claims\<close>

text \<open>A run whose landing may be automatic.\<close>

definition auto_landable :: "'w conductor \<Rightarrow> string \<Rightarrow> bool" where
  "auto_landable c rid \<longleftrightarrow>
     (\<exists>sp \<in> set (cd_program c). sp_run_id sp = rid \<and> landing_of sp = Inr auto_merge \<and>
        (\<exists>changed. changed_of c rid = Inr changed \<and>
           cd_self_hosting c (case map_of (repos_by_id c) rid of Some r \<Rightarrow> r | None \<Rightarrow> sp_tool sp) changed = Inr False))"

definition earned :: "'w conductor \<Rightarrow> report \<Rightarrow> bool" where
  "earned c rep \<longleftrightarrow> (\<forall>rid \<in> set (rp_converged rep). verify_done c rid = Inr True) \<and>
     (\<forall>rid \<in> set (rp_tier1 rep). rid = ''ceiling: raise-or-stop'' \<or> auto_landable c rid)"

lemma check_liveness_earned:
  "earned c rep \<Longrightarrow> check_liveness c so rep s = (Inr rep', s') \<Longrightarrow> earned c rep'"
  by (auto simp: check_liveness_def act_bind_Inr earned_def split: prod.splits option.splits if_splits)

lemma route_run_earned:
  assumes "sp \<in> set (cd_program c)" and "earned c rep" and "route_run c sp rep s = (Inr rep', s')"
  shows "earned c rep'"
proof -
  let ?repo = "case map_of (repos_by_id c) (sp_run_id sp) of Some r \<Rightarrow> r | None \<Rightarrow> sp_tool sp"
  from assms(3) have "rp_converged rep' = rp_converged rep \<and> (rp_tier1 rep' = rp_tier1 rep \<or>
      rp_tier1 rep' = rp_tier1 rep @ [sp_run_id sp] \<and> landing_of sp = Inr auto_merge \<and>
      (\<exists>ch. changed_of c (sp_run_id sp) = Inr ch \<and> cd_self_hosting c ?repo ch = Inr False))"
    unfolding route_run_def act_bind_Inr
    by (elim exE conjE) (auto simp: act_bind_Inr split: if_splits, metis)
  with assms(1,2) show ?thesis unfolding earned_def auto_landable_def by auto
qed

lemma empty_earned: "earned c empty_report"
  by (simp add: earned_def empty_report_def)

lemma start_assigned_earned:
  "earned c rep \<Longrightarrow> start_assigned c as rep s = (Inr rep', s') \<Longrightarrow> earned c rep'"
  by (auto simp: start_assigned_def act_bind_Inr earned_def split: prod.splits option.splits)

lemma conduct_tick_body:
  assumes "conduct_tick c s = (Inr rep, s')" and "\<not> rp_halted rep"
  obtains obs s0 where "tick_body c obs s0 = (Inr rep, s')"
  using assms by (auto simp: conduct_tick_def act_bind_Inr halt_tick_Inr empty_report_def split: if_splits option.splits)

lemma halted_reports_nothing:
  assumes "conduct_tick c s = (Inr rep, s')" and "rp_halted rep"
  shows "(\<forall>rid \<in> set (rp_converged rep). verify_done c rid = Inr True) \<and>
    (\<forall>rid \<in> set (rp_tier1 rep). rid = ''ceiling: raise-or-stop'' \<or> auto_landable c rid)"
  using assms body_not_halted
  by (fastforce simp: conduct_tick_def act_bind_Inr halt_tick_Inr empty_report_def split: if_splits option.splits)

text \<open>
  what a tick reports was earned in that tick: every run it reports as converged converged when
  asked again on its own ledger and repository, whatever the runner said; and every run it offers for
  automatic landing (Tier 1) is a run of the program whose settings ask for \<open>auto-merge\<close> and
  whose changed paths the detector has just found not to be self-hosting.
\<close>

theorem tick_reports_are_earned:
  assumes "conduct_tick c s = (Inr rep, s')"
  shows "(\<forall>rid \<in> set (rp_converged rep). verify_done c rid = Inr True) \<and>
    (\<forall>rid \<in> set (rp_tier1 rep). rid = ''ceiling: raise-or-stop'' \<or> auto_landable c rid)"
proof (cases "rp_halted rep")
  case True
  with assms show ?thesis by (rule halted_reports_nothing)
next
  case False
  from assms False obtain obs s0 where "tick_body c obs s0 = (Inr rep, s')" by (rule conduct_tick_body)
  then obtain rep1 s1 rep2 s2 where
    1: "fold_act (check_liveness c) obs empty_report s0 = (Inr rep1, s1)" and
    2: "fold_act (route_run c) (cd_program c) rep1 s1 = (Inr rep2, s2)" and
    3: "schedule_and_start c rep2 s2 = (Inr rep, s')" by (rule tick_body_Inr)
  from 3 obtain sched :: schedule and f1 and rep3 :: report where
    4: "fold_act (start_assigned c) (sr_assignments sched) rep2 (s2\<lparr>fs_file := f1\<rparr>) = (Inr rep3, s')" and
    rep: "rep = (if sr_all_blocked sched then rep3\<lparr>rp_tier1 := rp_tier1 rep3 @ [''ceiling: raise-or-stop'']\<rparr> else rep3)"
    by (rule schedule_and_start_Inr)
  have 1: "earned c rep1"
    by (rule fold_act_invariant [where I = "\<lambda>b s. earned c b", OF check_liveness_earned empty_earned 1])
  have 2: "earned c rep2"
    by (rule fold_act_invariant [where I = "\<lambda>b s. earned c b", OF _ 1 2]) (rule route_run_earned)
  have "earned c rep3"
    by (rule fold_act_invariant [where I = "\<lambda>b s. earned c b", OF _ 2 4]) (rule start_assigned_earned)
  then show ?thesis by (auto simp: rep earned_def)
qed

section \<open>A fleet of two runs\<close>

text \<open>The world of this runner is what it sees and the runs it was asked to start.\<close>

definition sample_runner :: "((string \<times> string option) list \<times> string list) slot_runner" where
  "sample_runner = \<lparr>sl_observe = \<lambda>w. (Inr (fst w), w), sl_liveness = \<lambda>r w. (Inr ''alive'', w),
     sl_start = \<lambda>slot sp w. (Inr (), (fst w, snd w @ [sp_run_id sp]))\<rparr>"

definition sample_fleet :: "((string \<times> string option) list \<times> string list) conductor" where
  "sample_fleet = \<lparr>cd_hash = zero_hash, cd_os = no_files, cd_git = \<lambda>_. sample_repo, cd_resolve = \<lambda>p. p,
     cd_text = \<lambda>_. ''running'', cd_program = sample_runs, cd_pool = sample_pool, cd_runner = sample_runner,
     cd_ceiling = no_ceiling, cd_dep_check = always, cd_self_hosting = \<lambda>_ _. Inr False, cd_changed_paths_of = None,
     cd_runs = [], cd_repos = [], cd_projected = None\<rparr>"

lemma sample_names_tame: "safe_str ''s2''" "safe_str ''halt''"
  by (rule ascii_safe, simp add: ascii_def byte_def)+

lemma sample_tame: "tame sample_fleet"
  by (auto simp: tame_def sample_fleet_def sample_runs_def sample_spec_def sample_pool_def sample_names sample_names_tame
      converged_tip_def)

lemma empty_sane: "sane zero_hash None []"
  by (simp add: sane_def empty_sound empty_read empty_settled)

theorem start_is_write_ahead_witness:
  "\<exists>s' rows. start_assigned sample_fleet (''a'', ''s1'') empty_report \<lparr>fs_file = None, fs_world = ([], [])\<rparr> =
      (Inr (empty_report\<lparr>rp_started := [''a'']\<rparr>), s') \<and> fs_world s' = ([], [''a'']) \<and>
    read (fs_file s') = Inr rows \<and> latest rows ''a'' = Some ''running'' \<and> slot_in rows ''a'' = JStr ''s1''"
proof -
  let ?s = "\<lparr>fs_file = None, fs_world = ([], [])\<rparr>"
  obtain r s' where run: "start_assigned sample_fleet (''a'', ''s1'') empty_report ?s = (r, s')" by force
  have by_id: "map_of (by_id sample_fleet) ''a'' = Some (sample_spec ''a'' [])"
    by (simp add: by_id_def by_run_id_def dict_of_def sample_fleet_def sample_runs_def sample_spec_def)
  have pe: "producer_edges sample_fleet ''a'' = Inr ([], None)"
    by (simp add: producer_edges_def key_lookup_def by_id) (simp add: sample_spec_def)
  have H: "cd_hash sample_fleet = zero_hash" "cd_runner sample_fleet = sample_runner" by (simp_all add: sample_fleet_def)
  from record_start_intent_sane [OF empty_sane sample_names(1,3)] obtain f1 rows1 where
    f1: "record_start_intent zero_hash ''a'' ''s1'' None = (Inr (), f1)" "sane zero_hash f1 rows1" by metis
  from record_status_ex [OF f1(2) sample_names(1) fleet_texts(8), of "Some ''s1''"] sample_names(3) obtain f2 where
    f2: "record_status zero_hash ''a'' ''running'' (Some ''s1'') f1 = (Inr (), f2)" by auto
  have *: "r = Inr (empty_report\<lparr>rp_started := [''a'']\<rparr>) \<and> fs_world s' = ([], [''a''])"
    using run by (auto simp: start_assigned_def act_bind_def act_res_def on_ledger_def on_world_def key_lookup_def by_id pe H f1 f2
        sample_runner_def sample_spec_def empty_report_def ret_def)
  moreover from start_is_write_ahead [OF sample_tame _ sample_names(3) run, of "[]"] * empty_sane
  have "\<exists>rows. read (fs_file s') = Inr rows \<and> latest rows ''a'' = Some ''running'' \<and> slot_in rows ''a'' = JStr ''s1''"
    by (simp add: H) (erule exE conjE | auto split: sum.splits)+
  ultimately show ?thesis using run by blast
qed

text \<open>A tick that sees a run the ledger knows nothing of.\<close>

lemma sample_tick:
  "\<exists>f. conduct_tick sample_fleet \<lparr>fs_file = None, fs_world = ([(''s1'', Some ''a'')], [])\<rparr> =
     (Inr (empty_report\<lparr>rp_halted := True, rp_reason := Some (WorldDivergence ''s1'' ''a'')\<rparr>),
      \<lparr>fs_file = f, fs_world = ([(''s1'', Some ''a'')], [])\<rparr>) \<and> sound_file zero_hash f"
proof -
  have H: "cd_hash sample_fleet = zero_hash" "cd_runner sample_fleet = sample_runner"
    "cd_text sample_fleet = (\<lambda>_. ''running'')" by (simp_all add: sample_fleet_def)
  have "safe_entry (plain_entry ''halt'' ''halt'' (Some ''running'') JNull None)"
    by (simp add: safe_plain_entry sample_names sample_names_tame)
  from fl_append_returns [OF empty_sound empty_read this] obtain f where
    f: "record_halt zero_hash ''running'' None = (Inr (), f)" "sound_file zero_hash f" by (auto simp: record_halt_def)
  have und: "has_undeterminable_edge zero_hash None = (Inr False, None)"
    by (simp add: has_undeterminable_edge_def act_bind_def empty_edges reading_def empty_read)
  have "reconcile sample_fleet [] (run_slots [(''s1'', Some ''a'')]) = Some (WorldDivergence ''s1'' ''a'')"
    by (simp add: run_slots_def dict_append_def lookup_default_def reconcile_run_def intent_slots_def has_status_def latest_def)
  with f show ?thesis
    by (simp add: conduct_tick_def act_bind_def on_world_def on_ledger_def H sample_runner_def und reading_def empty_read
        halt_tick_def ret_def)
qed


text \<open>
  A tick in which the run that holds the slot is done: it converges on its own ledger and is routed.
\<close>

definition landable_spec :: spec where
  "landable_spec = (sample_spec ''a'' [])\<lparr>sp_op_config := Some (sample_config\<lparr>oc_landing := auto_merge\<rparr>)\<rparr>"

definition done_fleet :: "((string \<times> string option) list \<times> string list) conductor" where
  "done_fleet = sample_fleet\<lparr>cd_program := [landable_spec], cd_runs := [(''a'', sample_producer)],
     cd_runner := sample_runner\<lparr>sl_liveness := \<lambda>r w. (Inr ''done'', w)\<rparr>,
     cd_changed_paths_of := Some (\<lambda>_. Inr (Some []))\<rparr>"

lemma done_fleet_parts:
  "cd_hash done_fleet = zero_hash" "cd_program done_fleet = [landable_spec]" "by_id done_fleet = [(''a'', landable_spec)]"
  "sl_observe (cd_runner done_fleet) = (\<lambda>w. (Inr (fst w), w))" "sl_liveness (cd_runner done_fleet) = (\<lambda>r w. (Inr ''done'', w))"
  "changed_of done_fleet ''a'' = Inr (Some [])" "cd_self_hosting done_fleet = (\<lambda>_ _. Inr False)"
  "landing_of landable_spec = Inr auto_merge" "sp_run_id landable_spec = ''a''" "sp_depends_on landable_spec = []"
  "cd_os done_fleet = no_files" "cd_git done_fleet = (\<lambda>_. sample_repo)" "cd_runs done_fleet = [(''a'', sample_producer)]"
  by (simp_all add: done_fleet_def sample_fleet_def sample_runner_def by_id_def by_run_id_def dict_of_def landable_spec_def
      sample_spec_def changed_of_def landing_of_def)

lemma done_verified: "verify_done done_fleet ''a'' = Inr True"
proof -
  have "is_converged zero_hash no_files (zero_chain JNull sample_rows) (Some ''r1'') sample_repo ''peers/run/r1'' = Inr True"
    by code_simp
  then show ?thesis
    by (simp add: verify_done_def key_lookup_def done_fleet_parts)
      (simp add: sample_producer_def sample_rows_read head_of_def)
qed

lemma nothing_startable:
  assumes "latest rows ''a'' = Some ''converged''" and "status_subjects rows = [''a'']"
  shows "startable_runs [landable_spec] rows pool ce check projected =
    Inr \<lparr>sr_startable = [], sr_assignments = [], sr_all_blocked = False\<rparr>"
  using assms
  by (simp add: startable_runs_def occupied_slots_def held_slot_def has_status_def in_flight_def finished_def done_fleet_parts
      in_flight_costs_def in_flight_runs_def by_run_id_def dict_of_def)

lemma done_tick:
  "\<exists>f0 f1 rows. conduct_tick done_fleet \<lparr>fs_file = f0, fs_world = ([(''s1'', Some ''a'')], [])\<rparr> =
     (Inr (empty_report\<lparr>rp_converged := [''a''], rp_tier1 := [''a'']\<rparr>),
      \<lparr>fs_file = f1, fs_world = ([(''s1'', Some ''a'')], [])\<rparr>) \<and> sane zero_hash f1 rows \<and> latest rows ''a'' = Some ''converged''"
proof -
  from record_status_ex [OF empty_sane sample_names(1,4), of "Some ''s1''"] sample_names(3) obtain e f0 where
    f0: "sane zero_hash f0 [e]" "same_content (status_entry ''a'' ''running'' (slot_arg (Some ''s1''))) e" by auto
  have conv: "safe_str ''converged''" by (rule ascii_safe, simp add: ascii_def byte_def)
  from record_status_ex [OF f0(1) sample_names(1) conv, of None] obtain e' f1 where
    f1: "record_status zero_hash ''a'' ''converged'' None f0 = (Inr (), f1)" "sane zero_hash f1 [e, e']"
      "same_content (status_entry ''a'' ''converged'' (slot_arg None)) e'" by auto
  note c = same_content_fields [OF f0(2)] same_content_fields [OF f1(3)]
  have st: "latest [e] ''a'' = Some ''running''" "slot_in [e] ''a'' = JStr ''s1''" "latest [e, e'] ''a'' = Some ''converged''"
    using status_entry_effect [OF f0(2), of "[]"] status_entry_effect [OF f1(3), of "[e]"] slot_witness_get [of "''s1''"]
    by (simp_all add: slot_arg_def)
  have subj: "status_subjects [e, e'] = [''a'']" using c by (simp add: status_subjects_def status_entry_def)
  have r: "read f0 = Inr [e]" "read f1 = Inr [e, e']" "settled [e]" using f0(1) f1(2) by (simp_all add: sane_def)
  have "\<not> torn e \<and> le_event e \<noteq> ''malformed-edge''" using c by (simp add: torn_def status_entry_def)
  then have und: "has_undeterminable_edge zero_hash f0 = (Inr False, f0)"
    using settled_edges [OF r(1,3)] by (simp add: has_undeterminable_edge_def act_bind_def reading_def r)
  have rec: "reconcile done_fleet [e] (run_slots [(''s1'', Some ''a'')]) = None"
    by (simp add: run_slots_def dict_append_def lookup_default_def reconcile_run_def has_status_def st known_statuses_def
        done_fleet_parts)
  have body: "tick_body done_fleet [(''s1'', Some ''a'')] \<lparr>fs_file = f0, fs_world = ([(''s1'', Some ''a'')], [])\<rparr> =
     (Inr (empty_report\<lparr>rp_converged := [''a''], rp_tier1 := [''a'']\<rparr>), \<lparr>fs_file = f1, fs_world = ([(''s1'', Some ''a'')], [])\<rparr>)"
    by (simp add: tick_body_def act_bind_def check_liveness_def on_world_def on_ledger_def done_fleet_parts latest_status_def
        reading_def r st act_res_def done_verified f1 ret_def route_run_def schedule_and_start_def nothing_startable subj
        record_consumed_def empty_report_def)
  show ?thesis
    using body f1(2) st(3) unfolding conduct_tick_def
    by (intro exI [of _ f0] exI [of _ f1] exI [of _ "[e, e']"]) (simp add: act_bind_def on_world_def on_ledger_def done_fleet_parts und reading_def r rec)
qed

theorem tick_reports_are_earned_witness:
  "verify_done done_fleet ''a'' = Inr True \<and> auto_landable done_fleet ''a''"
proof -
  from done_tick obtain f0 and s' :: "((string \<times> string option) list \<times> string list) fleet" where
    "conduct_tick done_fleet \<lparr>fs_file = f0, fs_world = ([(''s1'', Some ''a'')], [])\<rparr> =
       (Inr (empty_report\<lparr>rp_converged := [''a''], rp_tier1 := [''a'']\<rparr>), s')" by blast
  from tick_reports_are_earned [OF this] show ?thesis by simp
qed

end
