(* ===== verification/Reject.thy ===== *)
theory Reject
  imports Conductor
begin

text \<open>
  Rejecting a run, \<open>reject_run\<close> of \<open>peers/fleet/conductor.py\<close>: the run and everything that consumed
  its artifact are marked, pulled from the landing stack and, where already landed, escalated.
\<close>

section \<open>Rejection\<close>

text \<open>
  \<open>list.remove\<close> takes the first occurrence out. The cascade is a set: \<open>order\<close> is the order in
  which its elements come, and an id that is not a string, which no operation records, is passed over.
\<close>

definition run_names :: "json list \<Rightarrow> string list" where
  "run_names js = List.map_filter (\<lambda>j. case j of JStr s \<Rightarrow> Some s | _ \<Rightarrow> None) js"

definition reject_dependent :: "hash \<Rightarrow> string \<Rightarrow> report \<Rightarrow> (ledger_file, report) act" where
  "reject_dependent H r rep =
     act_bind (latest_status r) (\<lambda>was.
     act_bind (record_status H r ''rejected'' None) (\<lambda>_.
       ret (rep\<lparr>rp_tier1 := remove1 r (rp_tier1 rep),
                rp_tier2 := (if was = Some ''landed'' then rp_tier2 rep @ [r] else rp_tier2 rep)\<rparr>)))"

definition reject_run ::
  "hash \<Rightarrow> (string list \<Rightarrow> string list) \<Rightarrow> string \<Rightarrow> string list \<Rightarrow> (ledger_file, report) act" where
  "reject_run H order run_id tier1_stack =
     act_bind (latest_status run_id) (\<lambda>was_root.
     act_bind (cascade_invalidate H run_id) (\<lambda>revoked.
     act_bind (record_status H run_id ''rejected'' None) (\<lambda>_.
       fold_act (reject_dependent H) (order (run_names revoked))
         (empty_report\<lparr>rp_tier1 := remove1 run_id tier1_stack,
            rp_tier2 := (if was_root = Some ''landed'' then [run_id] else [])\<rparr>))))"

section \<open>What is marked, pulled and escalated\<close>

lemma set_run_names: "r \<in> set (run_names js) \<longleftrightarrow> JStr r \<in> set js"
  by (induction js) (auto simp: run_names_def List.map_filter_simps split: json.splits)

lemma distinct_run_names: "distinct js \<Longrightarrow> distinct (run_names js)"
proof (induction js)
  case (Cons j js)
  then show ?case using set_run_names [of _ js]
    by (cases j) (simp_all add: run_names_def List.map_filter_simps)
qed (simp add: run_names_def List.map_filter_simps)

lemma latest_status_read: "read f = Inr rows \<Longrightarrow> latest_status r f = (Inr (latest rows r), f)"
  by (simp add: latest_status_def reading_def)

definition reject_all :: "(string \<Rightarrow> string option) \<Rightarrow> string set \<Rightarrow> string \<Rightarrow> string option" where
  "reject_all was R r = (if r \<in> R then Some ''rejected'' else was r)"

lemma safe_rejected: "safe_str ''rejected''"
  by (rule ascii_safe) (simp add: ascii_def byte_def)

text \<open>One revoked run after the other, each of them once.\<close>

lemma reject_dependents:
  assumes "sane H f rows" and "distinct rs" and "\<forall>r \<in> set rs. safe_str r" and "distinct (rp_tier1 rep)"
  shows "\<exists>f' rows' rep'. fold_act (reject_dependent H) rs rep f = (Inr rep', f') \<and> sane H f' rows' \<and>
    latest rows' = reject_all (latest rows) (set rs) \<and> live_edge rows' = live_edge rows \<and>
    rp_tier1 rep' = filter (\<lambda>r. r \<notin> set rs) (rp_tier1 rep) \<and>
    rp_tier2 rep' = rp_tier2 rep @ filter (\<lambda>r. latest rows r = Some ''landed'') rs"
  using assms
proof (induction rs arbitrary: f rows rep)
  case Nil
  then show ?case by (auto simp: ret_def reject_all_def fun_eq_iff)
next
  case (Cons r rs)
  from record_status_ex [OF Cons.prems(1) _ safe_rejected, of r None] Cons.prems(3) obtain e f1 where
    f1: "record_status H r ''rejected'' None f = (Inr (), f1)" "sane H f1 (rows @ [e])"
      "same_content (status_entry r ''rejected'' (slot_arg None)) e" "live_edge (rows @ [e]) = live_edge rows" by auto
  let ?rep = "rep\<lparr>rp_tier1 := remove1 r (rp_tier1 rep),
    rp_tier2 := (if latest rows r = Some ''landed'' then rp_tier2 rep @ [r] else rp_tier2 rep)\<rparr>"
  have "read f = Inr rows" using Cons.prems(1) by (simp add: sane_def)
  then have step: "reject_dependent H r rep f = (Inr ?rep, f1)"
    by (simp add: reject_dependent_def act_bind_def latest_status_read f1(1) ret_def)
  have l: "latest (rows @ [e]) = (\<lambda>q. if q = r then Some ''rejected'' else latest rows q)"
    by (simp add: fun_eq_iff status_entry_effect(1) [OF f1(3)])
  from Cons.IH [OF f1(2), of ?rep] Cons.prems obtain f' rows' rep' where
    *: "fold_act (reject_dependent H) rs ?rep f1 = (Inr rep', f')" "sane H f' rows'"
      "latest rows' = reject_all (latest (rows @ [e])) (set rs)" "live_edge rows' = live_edge (rows @ [e])"
      "rp_tier1 rep' = filter (\<lambda>q. q \<notin> set rs) (remove1 r (rp_tier1 rep))"
      "rp_tier2 rep' = rp_tier2 ?rep @ filter (\<lambda>q. latest (rows @ [e]) q = Some ''landed'') rs" by auto
  have "fold_act (reject_dependent H) (r # rs) rep f = (Inr rep', f')" by (simp add: act_bind_def step *(1))
  moreover have "latest rows' = reject_all (latest rows) (set (r # rs))"
    unfolding *(3) l by (auto simp: reject_all_def fun_eq_iff)
  moreover have "rp_tier1 rep' = filter (\<lambda>q. q \<notin> set (r # rs)) (rp_tier1 rep)"
    using Cons.prems(4) unfolding *(5) by (simp add: distinct_remove1_removeAll removeAll_filter_not_eq) (rule filter_cong; auto)
  moreover have "filter (\<lambda>q. latest (rows @ [e]) q = Some ''landed'') rs = filter (\<lambda>q. latest rows q = Some ''landed'') rs"
    using Cons.prems(2) by (intro filter_cong) (auto simp: l)
  ultimately show ?case using *(2,4,6) f1(4) by (intro exI [of _ f'] exI [of _ rows'] exI [of _ rep']) auto
qed

text \<open>The runs that go down with a rejected one.\<close>

definition consumers :: "entry list \<Rightarrow> string \<Rightarrow> string set" where
  "consumers rows root = {r. r \<noteq> root \<and> (JStr root, JStr r) \<in> (live_rel rows)\<^sup>*}"

lemma cascade_names:
  assumes "sane H f rows"
  shows "cascade_invalidate H root f = (Inr (cascade_of (ledger_edges rows) root), f) \<and>
    set (run_names (cascade_of (ledger_edges rows) root)) = consumers rows root \<and>
    distinct (run_names (cascade_of (ledger_edges rows) root))"
proof -
  have r: "read f = Inr rows" "settled rows" using assms by (auto simp: sane_def)
  have "edge_rel (ledger_edges rows) = live_rel rows"
    using ledger_edges_live [OF r(2)] by (force simp: edge_rel_def live_rel_def)
  then show ?thesis using cascade_of_reach [of "ledger_edges rows" root] settled_edges [OF r, of H]
    by (auto simp: cascade_invalidate_def act_bind_def ret_def set_run_names consumers_def distinct_run_names)
qed

text \<open>
  rejecting a run takes everything down that consumed it, and nothing else: the run and its
  transitive consumers over the live edges end \<open>rejected\<close>, every other run keeps its status, the
  landing stack loses exactly them and keeps its order, and the runs that had already landed, the
  rejected one included, are all escalated to Tier 2, each once.
\<close>

theorem reject_takes_consumers_down:
  assumes "sane H f rows" and "safe_str root" and "\<And>r. r \<in> consumers rows root \<Longrightarrow> safe_str r"
    and "\<And>xs. mset (order xs) = mset xs" and "distinct stack"
  shows "\<exists>rep f' rows'. reject_run H order root stack f = (Inr rep, f') \<and> read f' = Inr rows' \<and>
    (\<forall>r. latest rows' r = (if r = root \<or> r \<in> consumers rows root then Some ''rejected'' else latest rows r)) \<and>
    rp_tier1 rep = filter (\<lambda>r. r \<noteq> root \<and> r \<notin> consumers rows root) stack \<and>
    set (rp_tier2 rep) = {r. (r = root \<or> r \<in> consumers rows root) \<and> latest rows r = Some ''landed''} \<and>
    distinct (rp_tier2 rep)"
proof -
  let ?names = "run_names (cascade_of (ledger_edges rows) root)"
  let ?R = "consumers rows root"
  note cas = cascade_names [OF assms(1), of root]
  have o: "set (order ?names) = ?R" "distinct (order ?names)"
    using cas mset_eq_setD [OF assms(4)] mset_eq_imp_distinct_iff [OF assms(4)] by auto
  from record_status_ex [OF assms(1,2) safe_rejected, of None] obtain e f1 where
    f1: "record_status H root ''rejected'' None f = (Inr (), f1)" "sane H f1 (rows @ [e])"
      "same_content (status_entry root ''rejected'' (slot_arg None)) e" by auto
  have l: "latest (rows @ [e]) = (\<lambda>q. if q = root then Some ''rejected'' else latest rows q)"
    by (simp add: fun_eq_iff status_entry_effect(1) [OF f1(3)])
  let ?rep = "empty_report\<lparr>rp_tier1 := remove1 root stack,
    rp_tier2 := (if latest rows root = Some ''landed'' then [root] else [])\<rparr>"
  from reject_dependents [OF f1(2) o(2), of ?rep] o(1) assms(3,5) obtain f' rows' rep where
    *: "fold_act (reject_dependent H) (order ?names) ?rep f1 = (Inr rep, f')" "sane H f' rows'"
      "latest rows' = reject_all (latest (rows @ [e])) ?R" "rp_tier1 rep = filter (\<lambda>r. r \<notin> ?R) (remove1 root stack)"
      "rp_tier2 rep = rp_tier2 ?rep @ filter (\<lambda>r. latest (rows @ [e]) r = Some ''landed'') (order ?names)" by auto
  have "read f = Inr rows" using assms(1) by (simp add: sane_def)
  then have run: "reject_run H order root stack f = (Inr rep, f')"
    using cas f1(1) *(1) by (simp add: reject_run_def act_bind_def latest_status_read)
  have nr: "root \<notin> ?R" by (simp add: consumers_def)
  have "rp_tier1 rep = filter (\<lambda>r. r \<noteq> root \<and> r \<notin> ?R) stack"
    using assms(5) unfolding *(4) by (simp add: distinct_remove1_removeAll removeAll_filter_not_eq) (rule filter_cong; auto)
  moreover have "set (rp_tier2 rep) = {r. (r = root \<or> r \<in> ?R) \<and> latest rows r = Some ''landed''} \<and> distinct (rp_tier2 rep)"
    using nr o unfolding *(5) l by auto
  moreover have "\<forall>r. latest rows' r = (if r = root \<or> r \<in> ?R then Some ''rejected'' else latest rows r)"
    unfolding *(3) l by (simp add: reject_all_def)
  ultimately show ?thesis using run *(2) by (intro exI [of _ rep] exI [of _ f'] exI [of _ rows']) (simp add: sane_def)
qed

text \<open>On the ledger where \<open>b\<close> consumed \<open>a\<close>.\<close>

theorem reject_takes_consumers_down_witness:
  "\<exists>f rep f' rows'. reject_run zero_hash (\<lambda>xs. xs) ''a'' [''b'', ''c''] f = (Inr rep, f') \<and> read f' = Inr rows' \<and>
    latest rows' ''a'' = Some ''rejected'' \<and> latest rows' ''b'' = Some ''rejected'' \<and> rp_tier1 rep = [''c'']"
proof -
  obtain f e where f: "read f = Inr [e]" "sound_file zero_hash f" "settled [e]"
    and live: "live_edge [e] = (\<lambda>k. k = (JStr ''a'', JStr ''b''))" by (rule one_edge_ledger)
  have rel: "live_rel [e] = {(JStr ''a'', JStr ''b'')}" by (auto simp: live_rel_def live)
  have "(x, y) \<in> {(JStr ''a'', JStr ''b'')}\<^sup>* \<Longrightarrow> x = y \<or> y = JStr ''b''" for x y
    by (induction rule: rtrancl_induct) auto
  then have con: "consumers [e] ''a'' = {''b''}" unfolding consumers_def rel by auto
  have sane: "sane zero_hash f [e]" using f by (simp add: sane_def)
  have d: "distinct [''b'', ''c'']" by simp
  have safe: "safe_str r" if "r \<in> consumers [e] ''a''" for r using that sample_names(2) unfolding con by simp
  from reject_takes_consumers_down [OF sane sample_names(1) safe refl d] obtain rep f' rows' where
    "reject_run zero_hash (\<lambda>xs. xs) ''a'' [''b'', ''c''] f = (Inr rep, f')" "read f' = Inr rows'"
    "\<forall>r. latest rows' r = (if r = ''a'' \<or> r \<in> {''b''} then Some ''rejected'' else latest [e] r)"
    "rp_tier1 rep = filter (\<lambda>r. r \<noteq> ''a'' \<and> r \<notin> {''b''}) [''b'', ''c'']"
    unfolding con by - (drule meta_mp, assumption, elim exE conjE, rule that)
  then show ?thesis by (intro exI [of _ f] exI [of _ rep] exI [of _ f'] exI [of _ rows']) simp
qed

end
