(* ===== verification/Daemon.thy ===== *)
theory Daemon
  imports Reject
begin

text \<open>
  The loop that drives the conductor to a terminal, \<open>peers/fleet/daemon.py\<close>. Its state is the fleet
  and the three lists it reports. The runner's \<open>runs_by_id\<close>, the lander, the reject verdict, the
  sleep and the report callback are injected, as in the code. The loop has no bound unless
  \<open>max_ticks\<close> is set, so it is a partial function: \<open>None\<close> is a loop that never ends.
\<close>

section \<open>State and parameters\<close>

datatype review = LandError pyexc | Refused string | NoRunObject

record 'w run_state =
  rs_fleet :: "'w fleet"
  rs_landed :: "string list"
  rs_review :: "(string \<times> review) list"
  rs_tier2 :: "string list"

record 'w daemon =
  dm_fleet :: "'w conductor"
  dm_runs :: "('w, (string \<times> mode_run) list) act"
  dm_dep_check :: "(string \<Rightarrow> string \<Rightarrow> bool res) option"
  dm_lander :: "mode_run \<Rightarrow> string \<Rightarrow> string \<Rightarrow> ('w, bool \<times> string) act"
  dm_should_reject :: "(string \<Rightarrow> ('w fleet, bool) act) option"
  dm_order :: "string list \<Rightarrow> string list"
  dm_target_ref :: string
  dm_max_ticks :: "int option"
  dm_sleep :: "('w, unit) act"
  dm_on_report :: "nat \<Rightarrow> report \<Rightarrow> ('w, unit) act"

record fleet_result =
  fr_cause :: string
  fr_ticks :: nat
  fr_statuses :: "(string \<times> string option) list"
  fr_landed :: "string list"
  fr_tier2 :: "string list"
  fr_review :: "(string \<times> review) list"
  fr_halt_reason :: "halt_reason option"
  fr_error :: "pyexc option"
  fr_ok :: bool

definition on_fleet :: "('w fleet, 'a) act \<Rightarrow> ('w run_state, 'a) act" where
  "on_fleet m s = (case m (rs_fleet s) of (r, f) \<Rightarrow> (r, s\<lparr>rs_fleet := f\<rparr>))"

definition modify :: "('s \<Rightarrow> 's) \<Rightarrow> ('s, unit) act" where
  "modify f s = (Inr (), f s)"

definition terminal :: "string list" where
  "terminal = [''landed'', ''failed'', ''rejected'', ''converged'']"

definition loop_in_flight :: "string list" where
  "loop_in_flight = [''running'', ''start-intent'']"

text \<open>\<open>s in _TERMINAL\<close> for a status that may be \<open>None\<close>\<close>

definition status_in :: "string option \<Rightarrow> string list \<Rightarrow> bool" where
  "status_in st sts = (case st of None \<Rightarrow> False | Some x \<Rightarrow> x \<in> set sts)"

section \<open>Results\<close>

definition default_lander :: "mode_run \<Rightarrow> string \<Rightarrow> string \<Rightarrow> ('w, bool \<times> string) act" where
  "default_lander run repo target = ret (False, ''auto-land recheck not wired (inject a lander)'')"

definition finish ::
  "string \<Rightarrow> nat \<Rightarrow> (string \<times> string option) list \<Rightarrow> halt_reason option \<Rightarrow> pyexc option \<Rightarrow> 'w run_state \<Rightarrow> fleet_result" where
  "finish cause ticks statuses why err s =
     (let failed = list_ex (\<lambda>(_, st). status_in st [''failed'', ''rejected'']) statuses in
      \<lparr>fr_cause = cause, fr_ticks = ticks, fr_statuses = statuses, fr_landed = rs_landed s, fr_tier2 = rs_tier2 s,
       fr_review = rs_review s, fr_halt_reason = why, fr_error = err,
       fr_ok = (cause = ''complete'' \<and> \<not> failed \<and> rs_tier2 s = [] \<and> rs_review s = [])\<rparr>)"

definition statuses_of :: "'w conductor \<Rightarrow> entry list \<Rightarrow> (string \<times> string option) list" where
  "statuses_of c rows = map (\<lambda>(rid, _). (rid, latest rows rid)) (by_id c)"

definition statuses :: "'w daemon \<Rightarrow> ('w run_state, (string \<times> string option) list) act" where
  "statuses d =
     (if by_id (dm_fleet d) = [] then ret []
      else on_fleet (on_ledger (reading (\<lambda>rows. Inr (statuses_of (dm_fleet d) rows)))))"

section \<open>Landing and rejecting\<close>

definition put_review :: "string \<Rightarrow> review \<Rightarrow> ('w run_state, unit) act" where
  "put_review entry why = modify (\<lambda>s. s\<lparr>rs_review := dict_set (rs_review s) entry why\<rparr>)"

definition land_entry :: "'w daemon \<Rightarrow> (string \<times> mode_run) list \<Rightarrow> string \<Rightarrow> ('w run_state, unit) act" where
  "land_entry d runs entry =
     (case map_of (by_id (dm_fleet d)) entry of
        None \<Rightarrow> ret ()
      | Some sp \<Rightarrow>
          act_bind (act_res (landing_of sp)) (\<lambda>l.
          if l \<noteq> auto_merge then ret ()
          else act_bind (on_fleet (on_ledger (latest_status entry))) (\<lambda>st.
          if st \<noteq> Some ''converged'' then ret ()
          else case map_of runs entry of
              None \<Rightarrow> put_review entry NoRunObject
            | Some run \<Rightarrow>
                act_bind (act_catch (on_fleet (on_world (dm_lander d run
                    (case map_of (cd_repos (dm_fleet d)) entry of Some r \<Rightarrow> r | None \<Rightarrow> sp_tool sp) (dm_target_ref d))))) (\<lambda>res.
                  case res of
                    Inl e \<Rightarrow> put_review entry (LandError e)
                  | Inr (landed, why) \<Rightarrow>
                      if landed then
                        act_bind (on_fleet (on_ledger (record_status (cd_hash (dm_fleet d)) entry ''landed'' None))) (\<lambda>_.
                          modify (\<lambda>s. s\<lparr>rs_landed := rs_landed s @ [entry]\<rparr>))
                      else put_review entry (Refused why)))))"

definition land_tier1 :: "'w daemon \<Rightarrow> (string \<times> mode_run) list \<Rightarrow> report \<Rightarrow> ('w run_state, unit) act" where
  "land_tier1 d runs rep = each_act (land_entry d runs) (rp_tier1 rep)"

definition note_tier2 :: "string list \<Rightarrow> ('w run_state, unit) act" where
  "note_tier2 entries = modify (\<lambda>s. s\<lparr>rs_tier2 := foldl (\<lambda>seen t. if t \<in> set seen then seen else seen @ [t]) (rs_tier2 s) entries\<rparr>)"

definition reject_if :: "'w daemon \<Rightarrow> (string \<Rightarrow> ('w fleet, bool) act) \<Rightarrow> spec \<Rightarrow> ('w run_state, unit) act" where
  "reject_if d verdict sp =
     act_bind (on_fleet (on_ledger (latest_status (sp_run_id sp)))) (\<lambda>st.
       if st \<noteq> Some ''converged'' then ret ()
       else act_bind (on_fleet (verdict (sp_run_id sp))) (\<lambda>reason.
         if reason then
           act_bind (on_fleet (on_ledger (reject_run (cd_hash (dm_fleet d)) (dm_order d) (sp_run_id sp) []))) (\<lambda>rj.
             note_tier2 (rp_tier2 rj))
         else ret ()))"

definition drive_rejections :: "'w daemon \<Rightarrow> ('w run_state, unit) act" where
  "drive_rejections d =
     (case dm_should_reject d of None \<Rightarrow> ret ()
      | Some verdict \<Rightarrow> each_act (reject_if d verdict) (cd_program (dm_fleet d)))"

section \<open>One pass of the loop\<close>

text \<open>The conductor of this pass: the runs the runner has now, and the check over them.\<close>

definition pass_conductor :: "'w daemon \<Rightarrow> (string \<times> mode_run) list \<Rightarrow> 'w conductor" where
  "pass_conductor d runs =
     (let c = dm_fleet d in
      c\<lparr>cd_runs := runs,
        cd_dep_check := (case dm_dep_check d of Some f \<Rightarrow> f
          | None \<Rightarrow> make_dep_check (cd_hash c) (cd_os c) (cd_git c) (cd_resolve c) (by_id c) runs (cd_repos c))\<rparr>)"

definition verdict_of :: "'w daemon \<Rightarrow> nat \<Rightarrow> report \<Rightarrow> (string \<times> string option) list \<Rightarrow> string option" where
  "verdict_of d ticks rep sts =
     (let live = list_ex (\<lambda>(_, st). status_in st loop_in_flight) sts;
          progressed = (rp_started rep \<noteq> [] \<or> rp_restarted rep \<noteq> [])
      in if list_all (\<lambda>(_, st). status_in st terminal) sts then Some ''complete''
         else if list_ex (contains ''ceiling'') (rp_tier1 rep) \<and> \<not> live then Some ''ceiling''
         else if \<not> live \<and> \<not> progressed then Some ''stalled''
         else if (case dm_max_ticks d of None \<Rightarrow> False | Some m \<Rightarrow> int ticks \<ge> m) then Some ''max-ticks''
         else None)"

definition finish_with :: "string \<Rightarrow> nat \<Rightarrow> (string \<times> string option) list \<Rightarrow> halt_reason option \<Rightarrow> pyexc option \<Rightarrow>
   ('w run_state, fleet_result option) act" where
  "finish_with cause ticks sts why err s = (Inr (Some (finish cause ticks sts why err s)), s)"

text \<open>What follows a tick: landing, Tier 2, rejections and the verdict.\<close>

definition after_tick :: "'w daemon \<Rightarrow> nat \<Rightarrow> (string \<times> mode_run) list \<Rightarrow> report \<Rightarrow> ('w run_state, fleet_result option) act" where
  "after_tick d ticks runs rep =
     (if rp_halted rep then
        act_bind (statuses d) (\<lambda>sts. finish_with ''halted'' ticks sts (rp_reason rep) None)
      else
        act_bind (land_tier1 d runs rep) (\<lambda>_.
        act_bind (note_tier2 (rp_tier2 rep)) (\<lambda>_.
        act_bind (drive_rejections d) (\<lambda>_.
        act_bind (statuses d) (\<lambda>sts.
          case verdict_of d ticks rep sts of
            Some cause \<Rightarrow> finish_with cause ticks sts None None
          | None \<Rightarrow> ret None)))))"

definition fleet_pass :: "'w daemon \<Rightarrow> nat \<Rightarrow> ('w run_state, fleet_result option) act" where
  "fleet_pass d ticks =
     act_bind (on_fleet (on_world (dm_runs d))) (\<lambda>runs.
     act_bind (on_fleet (conduct_tick (pass_conductor d runs))) (\<lambda>rep.
     act_bind (on_fleet (on_world (dm_on_report d ticks rep))) (\<lambda>_.
       after_tick d ticks runs rep)))"

text \<open>The \<open>try\<close> around the pass; the handler reads the statuses again.\<close>

definition guarded_pass :: "'w daemon \<Rightarrow> nat \<Rightarrow> ('w run_state, fleet_result option) act" where
  "guarded_pass d ticks =
     act_bind (act_catch (fleet_pass d ticks)) (\<lambda>out.
       case out of
         Inr r \<Rightarrow> ret r
       | Inl e \<Rightarrow> act_bind (statuses d) (\<lambda>sts. finish_with ''aborted'' ticks sts None (Some e)))"

partial_function (option) fleet_loop ::
  "'w daemon \<Rightarrow> nat \<Rightarrow> 'w run_state \<Rightarrow> (fleet_result res \<times> 'w run_state) option" where
  "fleet_loop d ticks s =
     (case guarded_pass d (Suc ticks) s of
        (Inl e, s') \<Rightarrow> Some (Inl e, s')
      | (Inr (Some r), s') \<Rightarrow> Some (Inr r, s')
      | (Inr None, s') \<Rightarrow>
          (case on_fleet (on_world (dm_sleep d)) s' of
             (Inl e, s'') \<Rightarrow> Some (Inl e, s'')
           | (Inr _, s'') \<Rightarrow> fleet_loop d (Suc ticks) s''))"

definition conduct_fleet :: "'w daemon \<Rightarrow> 'w fleet \<Rightarrow> (fleet_result res \<times> 'w run_state) option" where
  "conduct_fleet d f = fleet_loop d 0 \<lparr>rs_fleet = f, rs_landed = [], rs_review = [], rs_tier2 = []\<rparr>"

section \<open>The verdicts\<close>

lemma on_fleet_Inr:
  "on_fleet m s = (Inr a, s') \<longleftrightarrow> (\<exists>f. m (rs_fleet s) = (Inr a, f) \<and> s' = s\<lparr>rs_fleet := f\<rparr>)"
  by (auto simp: on_fleet_def split: prod.splits)

text \<open>The statuses of a result are those of the ledger it is returned with.\<close>

definition final_statuses :: "'w daemon \<Rightarrow> 'w run_state \<Rightarrow> (string \<times> string option) list \<Rightarrow> bool" where
  "final_statuses d s sts \<longleftrightarrow> (if by_id (dm_fleet d) = [] then sts = []
     else \<exists>rows. read (fs_file (rs_fleet s)) = Inr rows \<and> sts = statuses_of (dm_fleet d) rows)"

lemma statuses_final: "statuses d s = (Inr sts, s') \<Longrightarrow> s' = s \<and> final_statuses d s sts"
  by (auto simp: statuses_def final_statuses_def on_fleet_Inr on_ledger_Inr reading_Inr split: if_splits)

definition causes :: "string list" where
  "causes = [''complete'', ''halted'', ''ceiling'', ''stalled'', ''max-ticks'', ''aborted'']"

definition verdict_holds :: "'w daemon \<Rightarrow> fleet_result \<Rightarrow> bool" where
  "verdict_holds d r \<longleftrightarrow>
     (let none_live = list_all (\<lambda>(_, st). \<not> status_in st loop_in_flight) (fr_statuses r);
          all_done = list_all (\<lambda>(_, st). status_in st terminal) (fr_statuses r)
      in fr_cause r \<in> set causes \<and>
         (fr_cause r = ''complete'' \<longrightarrow> all_done) \<and>
         (fr_cause r \<in> {''ceiling'', ''stalled''} \<longrightarrow> none_live \<and> \<not> all_done) \<and>
         (fr_cause r = ''max-ticks'' \<longrightarrow> \<not> all_done \<and> dm_max_ticks d \<noteq> None) \<and>
         (fr_cause r = ''halted'' \<longleftrightarrow> fr_halt_reason r \<noteq> None) \<and>
         (fr_cause r = ''aborted'' \<longleftrightarrow> fr_error r \<noteq> None) \<and>
         (fr_ok r \<longleftrightarrow> fr_cause r = ''complete'' \<and> fr_tier2 r = [] \<and> fr_review r = [] \<and>
            list_all (\<lambda>(_, st). status_in st [''landed'', ''converged'']) (fr_statuses r)))"

definition honest :: "'w daemon \<Rightarrow> nat \<Rightarrow> fleet_result \<Rightarrow> 'w run_state \<Rightarrow> bool" where
  "honest d ticks r s \<longleftrightarrow> verdict_holds d r \<and> fr_ticks r = ticks \<and> final_statuses d s (fr_statuses r) \<and>
     fr_landed r = rs_landed s \<and> fr_tier2 r = rs_tier2 s \<and> fr_review r = rs_review s"

lemma settled_statuses:
  "list_all (\<lambda>(_, st). status_in st terminal) sts \<Longrightarrow>
   \<not> list_ex (\<lambda>(_, st). status_in st [''failed'', ''rejected'']) sts \<longleftrightarrow>
   list_all (\<lambda>(_, st). status_in st [''landed'', ''converged'']) sts"
  by (induction sts) (auto simp: status_in_def terminal_def split: option.splits)

lemma finish_honest:
  assumes "final_statuses d s sts" and "cause \<in> set causes"
    and "cause = ''complete'' \<Longrightarrow> list_all (\<lambda>(_, st). status_in st terminal) sts"
    and "cause \<in> {''ceiling'', ''stalled''} \<Longrightarrow> list_all (\<lambda>(_, st). \<not> status_in st loop_in_flight) sts \<and>
      \<not> list_all (\<lambda>(_, st). status_in st terminal) sts"
    and "cause = ''max-ticks'' \<Longrightarrow> \<not> list_all (\<lambda>(_, st). status_in st terminal) sts \<and> dm_max_ticks d \<noteq> None"
    and "cause = ''halted'' \<longleftrightarrow> why \<noteq> None" and "cause = ''aborted'' \<longleftrightarrow> err \<noteq> None"
  shows "honest d ticks (finish cause ticks sts why err s) s"
proof -
  have ok: "fr_ok (finish cause ticks sts why err s) \<longleftrightarrow> cause = ''complete'' \<and> rs_tier2 s = [] \<and> rs_review s = [] \<and>
      list_all (\<lambda>(_, st). status_in st [''landed'', ''converged'']) sts"
    using settled_statuses [OF assms(3)] by (auto simp: finish_def Let_def)
  have fields: "fr_cause (finish cause ticks sts why err s) = cause" "fr_ticks (finish cause ticks sts why err s) = ticks"
    "fr_statuses (finish cause ticks sts why err s) = sts" "fr_landed (finish cause ticks sts why err s) = rs_landed s"
    "fr_tier2 (finish cause ticks sts why err s) = rs_tier2 s" "fr_review (finish cause ticks sts why err s) = rs_review s"
    "fr_halt_reason (finish cause ticks sts why err s) = why" "fr_error (finish cause ticks sts why err s) = err"
    by (simp_all add: finish_def Let_def)
  show ?thesis unfolding honest_def verdict_holds_def Let_def fields ok using assms by blast
qed

lemma verdict_of_honest:
  assumes "verdict_of d ticks rep sts = Some cause" and "final_statuses d s sts"
  shows "honest d ticks (finish cause ticks sts None None s) s"
proof (rule finish_honest [OF assms(2)])
  note v = assms(1) [unfolded verdict_of_def Let_def]
  have live: "list_all (\<lambda>(_, st). \<not> status_in st loop_in_flight) sts \<longleftrightarrow> \<not> list_ex (\<lambda>(_, st). status_in st loop_in_flight) sts"
    by (induction sts) auto
  show "cause \<in> set causes" using v by (auto simp: causes_def split: if_splits)
  show "cause = ''complete'' \<Longrightarrow> list_all (\<lambda>(_, st). status_in st terminal) sts" using v by (auto split: if_splits)
  show "cause \<in> {''ceiling'', ''stalled''} \<Longrightarrow> list_all (\<lambda>(_, st). \<not> status_in st loop_in_flight) sts \<and>
      \<not> list_all (\<lambda>(_, st). status_in st terminal) sts" using v unfolding live by (auto split: if_splits)
  show "cause = ''max-ticks'' \<Longrightarrow> \<not> list_all (\<lambda>(_, st). status_in st terminal) sts \<and> dm_max_ticks d \<noteq> None"
    using v by (auto split: if_splits option.splits)
  show "cause = ''halted'' \<longleftrightarrow> None \<noteq> None" "cause = ''aborted'' \<longleftrightarrow> None \<noteq> None" using v by (auto split: if_splits)
qed

lemma conduct_tick_reason: "conduct_tick c s = (Inr rep, s') \<Longrightarrow> rp_halted rep \<Longrightarrow> rp_reason rep \<noteq> None"
  using body_not_halted
  by (fastforce simp: conduct_tick_def act_bind_Inr halt_tick_Inr empty_report_def split: if_splits option.splits)

lemma finish_with_Inr: "finish_with cause ticks sts why err s = (Inr r, s') \<longleftrightarrow> r = Some (finish cause ticks sts why err s) \<and> s' = s"
  by (auto simp: finish_with_def)

lemma after_tick_honest:
  assumes "after_tick d ticks runs rep s = (Inr (Some r), s')" and "rp_halted rep \<Longrightarrow> rp_reason rep \<noteq> None"
  shows "honest d ticks r s'"
proof (cases "rp_halted rep")
  case True
  with assms(1) obtain sts where "final_statuses d s sts" "r = finish ''halted'' ticks sts (rp_reason rep) None s" "s' = s"
    by (auto simp: after_tick_def act_bind_Inr finish_with_Inr dest: statuses_final)
  with assms(2) True show ?thesis by (auto intro!: finish_honest simp: causes_def)
next
  case False
  with assms(1) obtain s1 sts where s1: "statuses d s1 = (Inr sts, s1)" and
    v: "(case verdict_of d ticks rep sts of Some cause \<Rightarrow> finish_with cause ticks sts None None | None \<Rightarrow> ret None) s1 =
      (Inr (Some r), s')"
    by (auto simp: after_tick_def act_bind_Inr dest: statuses_final)
  then obtain cause where "verdict_of d ticks rep sts = Some cause" "r = finish cause ticks sts None None s1" "s' = s1"
    by (auto simp: finish_with_Inr split: option.splits)
  with verdict_of_honest statuses_final [OF s1] show ?thesis by blast
qed

lemma fleet_pass_honest: "fleet_pass d ticks s = (Inr (Some r), s') \<Longrightarrow> honest d ticks r s'"
  unfolding fleet_pass_def act_bind_Inr on_fleet_Inr by (elim exE conjE) (metis after_tick_honest conduct_tick_reason)

lemma guarded_pass_honest:
  assumes "guarded_pass d ticks s = (Inr (Some r), s')"
  shows "honest d ticks r s'"
proof -
  from assms obtain out s1 where out: "fleet_pass d ticks s = (out, s1)" and
    h: "(case out of Inr r \<Rightarrow> ret r
       | Inl e \<Rightarrow> act_bind (statuses d) (\<lambda>sts. finish_with ''aborted'' ticks sts None (Some e))) s1 = (Inr (Some r), s')"
    by (auto simp: guarded_pass_def act_bind_Inr act_catch_iff)
  show ?thesis
  proof (cases out)
    case (Inl e)
    with h obtain sts where "final_statuses d s' sts" "r = finish ''aborted'' ticks sts None (Some e) s'"
      by (auto simp: act_bind_Inr finish_with_Inr dest: statuses_final)
    then show ?thesis by (auto intro!: finish_honest simp: causes_def)
  next
    case (Inr x)
    with h out show ?thesis by (auto dest: fleet_pass_honest)
  qed
qed

lemma after_tick_continues:
  assumes "after_tick d ticks runs rep s = (Inr None, s')" and "dm_max_ticks d = Some m"
  shows "int ticks < m"
proof -
  from assms(1) obtain s1 sts where "(case verdict_of d ticks rep sts of Some cause \<Rightarrow> finish_with cause ticks sts None None
      | None \<Rightarrow> ret None) s1 = (Inr None, s')"
    by (auto simp: after_tick_def act_bind_Inr finish_with_Inr split: if_splits)
  then have "verdict_of d ticks rep sts = None" by (cases "verdict_of d ticks rep sts") (auto simp: finish_with_Inr)
  then show ?thesis using assms(2) by (auto simp: verdict_of_def Let_def split: if_splits)
qed

lemma guarded_pass_continues:
  assumes "guarded_pass d ticks s = (Inr None, s')" and "dm_max_ticks d = Some m"
  shows "int ticks < m"
proof -
  from assms(1) have "fleet_pass d ticks s = (Inr None, s')"
    by (auto simp: guarded_pass_def act_bind_Inr act_catch_iff finish_with_Inr split: sum.splits)
      (metis Inl_Inr_False finish_with_Inr option.distinct(1) sum.exhaust)
  then show ?thesis
    unfolding fleet_pass_def act_bind_Inr by (elim exE conjE) (rule after_tick_continues [OF _ assms(2)])
qed

text \<open>What the loop returns, whatever number of passes it made.\<close>

definition honest_out :: "'w daemon \<Rightarrow> nat \<Rightarrow> fleet_result res \<times> 'w run_state \<Rightarrow> bool" where
  "honest_out d ticks out \<longleftrightarrow> (\<forall>r s'. out = (Inr r, s') \<longrightarrow> (\<exists>t > ticks. honest d t r s'))"

lemma fleet_loop_honest:
  assumes "fleet_loop d ticks s = Some out"
  shows "honest_out d ticks out"
proof (rule fleet_loop.raw_induct [of "\<lambda>d ticks s. honest_out d ticks", OF _ assms])
  fix loop :: "'a daemon \<Rightarrow> nat \<Rightarrow> 'a run_state \<Rightarrow> (fleet_result res \<times> 'a run_state) option" and d ticks s out
  assume IH: "\<And>d ticks s out. loop d ticks s = Some out \<Longrightarrow> honest_out d ticks out"
    and step: "(case guarded_pass d (Suc ticks) s of
        (Inl e, s') \<Rightarrow> Some (Inl e, s')
      | (Inr (Some r), s') \<Rightarrow> Some (Inr r, s')
      | (Inr None, s') \<Rightarrow> (case on_fleet (on_world (dm_sleep d)) s' of
             (Inl e, s'') \<Rightarrow> Some (Inl e, s'') | (Inr _, s'') \<Rightarrow> loop d (Suc ticks) s'')) = Some out"
  obtain q s1 where q: "guarded_pass d (Suc ticks) s = (q, s1)" by force
  consider e where "q = Inl e" | r where "q = Inr (Some r)" | "q = Inr None" by (cases q) auto
  then show "honest_out d ticks out"
  proof cases
    case 2
    with step q guarded_pass_honest [of d "Suc ticks" s _ s1] show ?thesis by (auto simp: honest_out_def)
  next
    case 3
    obtain p s2 where p: "on_fleet (on_world (dm_sleep d)) s1 = (p, s2)" by force
    show ?thesis
    proof (cases p)
      case (Inr u)
      with step q 3 p have "loop d (Suc ticks) s2 = Some out" by simp
      have "\<exists>t > ticks. honest d t r s'" if "out = (Inr r, s')" for r s'
      proof -
        from IH [OF \<open>loop d (Suc ticks) s2 = Some out\<close>] that obtain t where "Suc ticks < t" "honest d t r s'"
          unfolding honest_out_def by blast
        then show ?thesis by (intro exI [of _ t]) simp
      qed
      then show ?thesis unfolding honest_out_def by blast
    qed (use step q 3 p in \<open>auto simp: honest_out_def\<close>)
  qed (use step q in \<open>auto simp: honest_out_def\<close>)
qed


section \<open>The loop ends\<close>

lemma fleet_loop_stops:
  assumes "dm_max_ticks d = Some m"
  shows "\<exists>out. fleet_loop d ticks s = Some out \<and> (\<forall>r s'. out = (Inr r, s') \<longrightarrow> int (fr_ticks r) \<le> max (int (Suc ticks)) m)"
proof (induction "nat (m - int ticks)" arbitrary: ticks s rule: less_induct)
  case less
  obtain q s1 where q: "guarded_pass d (Suc ticks) s = (q, s1)" by force
  consider e where "q = Inl e" | r where "q = Inr (Some r)" | "q = Inr None" by (cases q) auto
  then show ?case
  proof cases
    case 2
    with q guarded_pass_honest [of d "Suc ticks" s r s1] show ?thesis
      by (subst fleet_loop.simps) (auto simp: honest_def)
  next
    case 3
    with q guarded_pass_continues assms have t: "int (Suc ticks) < m" by blast
    obtain p s2 where p: "on_fleet (on_world (dm_sleep d)) s1 = (p, s2)" by force
    from less [of "Suc ticks" s2] t obtain out where
      "fleet_loop d (Suc ticks) s2 = Some out" "\<forall>r s'. out = (Inr r, s') \<longrightarrow> int (fr_ticks r) \<le> max (int (Suc (Suc ticks))) m"
      by auto
    with t q 3 p show ?thesis by (subst fleet_loop.simps) (cases p; auto)
  qed (subst fleet_loop.simps, simp add: q)
qed

text \<open>
  with \<open>max_ticks\<close> set the daemon returns, whatever its runner, lander and ledger do, and a
  result comes after at most that many ticks, or after the first one.
\<close>

theorem fleet_stops:
  assumes "dm_max_ticks d = Some m"
  shows "\<exists>out s'. conduct_fleet d f = Some (out, s') \<and> (\<forall>r. out = Inr r \<longrightarrow> int (fr_ticks r) \<le> max 1 m)"
  using fleet_loop_stops [OF assms, of 0] by (fastforce simp: conduct_fleet_def)

section \<open>Landing is fail-closed\<close>

text \<open>
  nothing is recorded as landed on trust. Handling one Tier-1 entry either leaves the fleet
  ledger and the list of landed runs as they were, or the entry is a run of the program with
  \<open>auto-merge\<close>, it is \<open>converged\<close> on the ledger, the lander was called for it and reported success;
  only then the row is written and the entry listed.
\<close>

theorem landing_never_on_trust:
  assumes "land_entry d runs entry s = (r, s')"
  shows "fs_file (rs_fleet s') = fs_file (rs_fleet s) \<and> rs_landed s' = rs_landed s \<or>
    (\<exists>sp run rows repo why w'. map_of (by_id (dm_fleet d)) entry = Some sp \<and> landing_of sp = Inr auto_merge \<and>
       read (fs_file (rs_fleet s)) = Inr rows \<and> latest rows entry = Some ''converged'' \<and> map_of runs entry = Some run \<and>
       dm_lander d run repo (dm_target_ref d) (fs_world (rs_fleet s)) = (Inr (True, why), w') \<and>
       (case r of Inl _ \<Rightarrow> rs_landed s' = rs_landed s | Inr _ \<Rightarrow> rs_landed s' = rs_landed s @ [entry]))"
  using assms
  by (auto simp: land_entry_def act_bind_def act_res_def ret_def on_fleet_def on_ledger_def on_world_def act_catch_def
      put_review_def modify_def latest_status_def reading_def res_bind_def
      split: option.splits if_splits prod.splits sum.splits)

section \<open>A ledger that cannot be read\<close>

lemma unreadable_statuses:
  "read (fs_file (rs_fleet s)) = Inl e \<Longrightarrow> by_id (dm_fleet d) \<noteq> [] \<Longrightarrow> \<exists>s'. statuses d s = (Inl e, s')"
  by (simp add: statuses_def on_fleet_def on_ledger_def reading_def)

lemma unreadable_pass:
  assumes "read (fs_file (rs_fleet s)) = Inl e"
  shows "\<exists>q s'. fleet_pass d ticks s = (Inl q, s') \<and> fs_file (rs_fleet s') = fs_file (rs_fleet s)"
proof -
  have "propagation_edges H (fs_file (rs_fleet s)) = (Inl e, fs_file (rs_fleet s))" for H
    using assms by (simp add: propagation_edges_def act_bind_def reading_def)
  then show ?thesis
    by (auto simp: fleet_pass_def act_bind_def on_fleet_def on_world_def on_ledger_def conduct_tick_def
        has_undeterminable_edge_def split: prod.splits sum.splits)
qed

text \<open>
  an unreadable fleet ledger is no honest terminal: the pass raises, the handler asks the same
  ledger for the statuses and raises again, so the exception leaves \<open>conduct_fleet\<close> instead of a
  result with the cause \<open>aborted\<close>.
\<close>

theorem unreadable_ledger_escapes:
  assumes "read (fs_file f) = Inl e" and "by_id (dm_fleet d) \<noteq> []"
  shows "\<exists>s'. conduct_fleet d f = Some (Inl e, s')"
proof -
  let ?s = "\<lparr>rs_fleet = f, rs_landed = [], rs_review = [], rs_tier2 = []\<rparr>"
  from unreadable_pass [of ?s e d "Suc 0"] assms(1) obtain q s1 where
    p: "fleet_pass d (Suc 0) ?s = (Inl q, s1)" "read (fs_file (rs_fleet s1)) = Inl e" by auto
  from unreadable_statuses [OF p(2) assms(2)] obtain s2 where "statuses d s1 = (Inl e, s2)" by blast
  with p have "guarded_pass d (Suc 0) ?s = (Inl e, s2)"
    by (simp add: guarded_pass_def act_bind_def act_catch_def)
  then show ?thesis unfolding conduct_fleet_def by (subst fleet_loop.simps) simp
qed

section \<open>A fleet driven to completion\<close>

definition done_daemon :: "((string \<times> string option) list \<times> string list) daemon" where
  "done_daemon = \<lparr>dm_fleet = done_fleet, dm_runs = \<lambda>w. (Inr [(''a'', sample_producer)], w), dm_dep_check = Some always,
     dm_lander = \<lambda>run repo target w. (Inr (True, ''ok''), w), dm_should_reject = None, dm_order = \<lambda>xs. xs,
     dm_target_ref = ''main'', dm_max_ticks = Some 3, dm_sleep = \<lambda>w. (Inr (), w), dm_on_report = \<lambda>t rep w. (Inr (), w)\<rparr>"

lemma done_daemon_parts:
  "dm_fleet done_daemon = done_fleet" "dm_runs done_daemon = (\<lambda>w. (Inr [(''a'', sample_producer)], w))"
  "dm_lander done_daemon = (\<lambda>run repo target w. (Inr (True, ''ok''), w))" "dm_should_reject done_daemon = None"
  "dm_on_report done_daemon = (\<lambda>t rep w. (Inr (), w))" "dm_max_ticks done_daemon = Some 3"
  "pass_conductor done_daemon [(''a'', sample_producer)] = done_fleet"
  by (simp_all add: done_daemon_def pass_conductor_def done_fleet_def sample_fleet_def)

text \<open>Landing the converged run of \<open>done_fleet\<close>.\<close>

lemma done_landing:
  assumes "sane zero_hash (fs_file (rs_fleet s)) rows" and "latest rows ''a'' = Some ''converged''"
  shows "\<exists>f rows'. land_entry done_daemon [(''a'', sample_producer)] ''a'' s =
      (Inr (), s\<lparr>rs_fleet := rs_fleet s\<lparr>fs_file := f\<rparr>, rs_landed := rs_landed s @ [''a'']\<rparr>) \<and>
    read f = Inr rows' \<and> latest rows' ''a'' = Some ''landed''"
proof -
  have t: "safe_str ''landed''" by (rule ascii_safe, simp add: ascii_def byte_def)
  from record_status_ex [OF assms(1) sample_names(1) t, of None] obtain e f where
    f: "record_status zero_hash ''a'' ''landed'' None (fs_file (rs_fleet s)) = (Inr (), f)" "sane zero_hash f (rows @ [e])"
      "same_content (status_entry ''a'' ''landed'' (slot_arg None)) e" by auto
  have "read (fs_file (rs_fleet s)) = Inr rows" using assms(1) by (simp add: sane_def)
  then have "land_entry done_daemon [(''a'', sample_producer)] ''a'' s =
      (Inr (), s\<lparr>rs_fleet := rs_fleet s\<lparr>fs_file := f\<rparr>, rs_landed := rs_landed s @ [''a'']\<rparr>)"
    by (simp add: land_entry_def done_daemon_parts done_fleet_parts act_bind_def act_res_def on_fleet_def on_ledger_def
        on_world_def latest_status_read assms(2) act_catch_def f(1) modify_def)
  moreover have "read f = Inr (rows @ [e])" "latest (rows @ [e]) ''a'' = Some ''landed''"
    using f(2) by (simp_all add: sane_def status_entry_effect(1) [OF f(3)])
  ultimately show ?thesis by blast
qed

lemma done_run:
  "\<exists>f r s'. conduct_fleet done_daemon f = Some (Inr r, s') \<and> fr_cause r = ''complete'' \<and> fr_ok r \<and>
     fr_statuses r = [(''a'', Some ''landed'')] \<and> fr_landed r = [''a'']"
proof -
  let ?w = "([(''s1'', Some ''a'')], [] :: string list)"
  from done_tick obtain f0 f1 rows where
    t: "conduct_tick done_fleet \<lparr>fs_file = f0, fs_world = ?w\<rparr> =
      (Inr (empty_report\<lparr>rp_converged := [''a''], rp_tier1 := [''a'']\<rparr>), \<lparr>fs_file = f1, fs_world = ?w\<rparr>)" and
    f1: "sane zero_hash f1 rows" "latest rows ''a'' = Some ''converged''" by blast
  let ?s1 = "\<lparr>rs_fleet = \<lparr>fs_file = f1, fs_world = ?w\<rparr>, rs_landed = [], rs_review = [], rs_tier2 = []\<rparr>"
  from done_landing [of ?s1 rows] f1 obtain f rows' where
    l: "land_entry done_daemon [(''a'', sample_producer)] ''a'' ?s1 =
      (Inr (), \<lparr>rs_fleet = \<lparr>fs_file = f, fs_world = ?w\<rparr>, rs_landed = [''a''], rs_review = [], rs_tier2 = []\<rparr>)"
    "read f = Inr rows'" "latest rows' ''a'' = Some ''landed''" by auto
  let ?r = "finish ''complete'' 1 [(''a'', Some ''landed'')] None None
      \<lparr>rs_fleet = \<lparr>fs_file = f, fs_world = ?w\<rparr>, rs_landed = [''a''], rs_review = [], rs_tier2 = []\<rparr>"
  have "fleet_loop done_daemon 0 \<lparr>rs_fleet = \<lparr>fs_file = f0, fs_world = ?w\<rparr>, rs_landed = [], rs_review = [], rs_tier2 = []\<rparr> =
    Some (Inr ?r, \<lparr>rs_fleet = \<lparr>fs_file = f, fs_world = ?w\<rparr>, rs_landed = [''a''], rs_review = [], rs_tier2 = []\<rparr>)"
    by (subst fleet_loop.simps)
      (simp add: guarded_pass_def fleet_pass_def after_tick_def act_bind_def act_catch_def on_fleet_def on_world_def on_ledger_def
        done_daemon_parts t empty_report_def land_tier1_def l note_tier2_def modify_def drive_rejections_def ret_def statuses_def
        done_fleet_parts reading_def statuses_of_def verdict_of_def status_in_def terminal_def finish_with_def)
  then show ?thesis unfolding conduct_fleet_def
    by (intro exI [of _ "\<lparr>fs_file = f0, fs_world = ?w\<rparr>"]) (simp add: finish_def status_in_def)
qed


theorem fleet_stops_witness:
  "\<exists>out s'. conduct_fleet done_daemon \<lparr>fs_file = None, fs_world = ([], [])\<rparr> = Some (out, s')"
  using fleet_stops [of done_daemon 3] done_daemon_parts by blast

theorem landing_never_on_trust_witness:
  "\<exists>s s' why w. land_entry done_daemon [(''a'', sample_producer)] ''a'' s = (Inr (), s') \<and> rs_landed s' = [''a''] \<and>
     dm_lander done_daemon sample_producer ''/tool'' ''main'' (fs_world (rs_fleet s)) = (Inr (True, why), w)"
proof -
  from done_tick obtain f1 rows where f1: "sane zero_hash f1 rows" "latest rows ''a'' = Some ''converged''" by blast
  let ?s = "\<lparr>rs_fleet = \<lparr>fs_file = f1, fs_world = ([], [])\<rparr>, rs_landed = [], rs_review = [], rs_tier2 = []\<rparr>"
  from done_landing [of ?s rows] f1 obtain s' where
    s': "land_entry done_daemon [(''a'', sample_producer)] ''a'' ?s = (Inr (), s')" "rs_landed s' = [''a'']" by auto
  from landing_never_on_trust [OF s'(1)] s'(2) have "\<exists>why w. dm_lander done_daemon sample_producer ''/tool'' ''main'' (fs_world (rs_fleet ?s)) = (Inr (True, why), w)"
    by (auto simp: done_daemon_parts)
  with s' show ?thesis by blast
qed

theorem unreadable_ledger_escapes_witness:
  "\<exists>e s'. conduct_fleet done_daemon \<lparr>fs_file = Some [CHR ''x''], fs_world = ([], [])\<rparr> = Some (Inl e, s')"
proof -
  have "\<exists>e. read (Some [CHR ''x'']) = Inl e"
  proof -
    have "isl (read (Some [CHR ''x'']))" by code_simp
    then show ?thesis by (auto simp: isl_def)
  qed
  then obtain e where e: "read (Some [CHR ''x'']) = Inl e" ..
  show ?thesis
    using unreadable_ledger_escapes [of "\<lparr>fs_file = Some [CHR ''x''], fs_world = ([], [])\<rparr>" e done_daemon] e
    by (auto simp: done_daemon_parts done_fleet_parts)
qed

end
