(* ===== verification/SlotRunner.thy ===== *)
theory SlotRunner
  imports Daemon Complex_Main
begin

text \<open>
  The slot runner over processes, \<open>peers/fleet/slot_runner.py\<close>: the one implementation of the
  runner the conductor is given. Its state is the slot table and the host; processes (type \<open>'p\<close>),
  signals, the clock, files and git are the record \<open>host\<close>. \<open>slot_contract\<close> is the interface the
  conductor relies on; the process runner is shown to keep it.
\<close>

section \<open>The host and the slot table\<close>

datatype signal = SIGTERM | SIGKILL

record ('h, 'p) host =
  ho_git_head :: "string \<Rightarrow> ('h, proc) act"
  ho_launch :: "spec \<Rightarrow> string \<Rightarrow> ('h, 'p) act"
  ho_poll :: "'p \<Rightarrow> ('h, bool) act"
  ho_killpg :: "'p \<Rightarrow> signal \<Rightarrow> ('h, unit) act"
  ho_kill :: "'p \<Rightarrow> signal \<Rightarrow> ('h, unit) act"
  ho_wait :: "'p \<Rightarrow> int \<Rightarrow> ('h, unit) act"
  ho_now :: "('h, rat) act"
  ho_mtime :: "string \<Rightarrow> ('h, rat) act"
  ho_regular :: "string \<Rightarrow> ('h, bool) act"
  ho_text :: "string \<Rightarrow> ('h, string) act"
  ho_ledger :: "string \<Rightarrow> ('h, ledger_file) act"

record 'p slot_state =
  ss_run_id :: string
  ss_proc :: 'p
  ss_base_sha :: string
  ss_op_config :: op_config
  ss_started_at :: rat
  ss_done_reported :: bool

record ('h, 'p) runner =
  rn_slots :: "(string \<times> 'p slot_state option) list"
  rn_host :: 'h

record ('h, 'p) runner_config =
  rc_host :: "('h, 'p) host"
  rc_repos :: "(string \<times> string) list"
  rc_idle_timeout :: "int option"

definition on_host :: "('h, 'a) act \<Rightarrow> (('h, 'p) runner, 'a) act" where
  "on_host m s = (case m (rn_host s) of (r, h) \<Rightarrow> (r, s\<lparr>rn_host := h\<rparr>))"

definition new_runner :: "pool \<Rightarrow> 'h \<Rightarrow> ('h, 'p) runner" where
  "new_runner pool h = \<lparr>rn_slots = dict_of (map (\<lambda>s. (s, None)) (po_slots pool)), rn_host = h\<rparr>"

definition subprocess_or_os :: "pyexc \<Rightarrow> bool" where
  "subprocess_or_os e \<longleftrightarrow> e \<in> {CalledProcessError, TimeoutExpired, OSError}"

definition git_head :: "('h, 'p) host \<Rightarrow> string \<Rightarrow> ('h, string) act" where
  "git_head ho repo =
     act_bind (ho_git_head ho repo) (\<lambda>(rc, out).
       if rc \<noteq> 0 then raise_exc CalledProcessError else ret (strip out))"

section \<open>Killing a child\<close>

fun terminate_loop :: "('h, 'p) host \<Rightarrow> 'p \<Rightarrow> signal list \<Rightarrow> ('h, unit) act" where
  "terminate_loop ho p [] = act_except (ho_wait ho p 30) (\<lambda>e. e \<in> {TimeoutExpired, OSError}) (ret ())"
| "terminate_loop ho p (sig # sigs) =
     act_bind (act_except (ho_killpg ho p sig) (\<lambda>e. e = OSError)
        (act_except (ho_kill ho p sig) (\<lambda>e. e = OSError) (ret ()))) (\<lambda>_.
     act_bind (act_except (act_bind (ho_wait ho p 5) (\<lambda>_. ret True)) (\<lambda>e. e = TimeoutExpired) (ret False)) (\<lambda>reaped.
       if reaped then ret () else terminate_loop ho p sigs))"

definition terminate :: "('h, 'p) host \<Rightarrow> 'p \<Rightarrow> ('h, unit) act" where
  "terminate ho p =
     act_bind (ho_poll ho p) (\<lambda>exited. if exited then ret () else terminate_loop ho p [SIGTERM, SIGKILL])"

section \<open>The protocol of the conductor\<close>

definition repo_of :: "('h, 'p) runner_config \<Rightarrow> string \<Rightarrow> string \<Rightarrow> string" where
  "repo_of rc rid otherwise = (case map_of (rc_repos rc) rid of Some r \<Rightarrow> r | None \<Rightarrow> otherwise)"

text \<open>Launching writes the settings of the run into the arguments of the child, so it needs them.\<close>

definition start_child :: "('h, 'p) runner_config \<Rightarrow> spec \<Rightarrow> ('h, 'p slot_state) act" where
  "start_child rc sp =
     (let ho = rc_host rc in
      act_bind (act_except (git_head ho (repo_of rc (sp_run_id sp) (sp_tool sp))) subprocess_or_os (raise_exc RuntimeError)) (\<lambda>base.
      act_bind (act_res (case sp_op_config sp of None \<Rightarrow> Inl AttributeError | Some oc \<Rightarrow> Inr oc)) (\<lambda>cfg.
      act_bind (ho_launch ho sp base) (\<lambda>p.
      act_bind (ho_now ho) (\<lambda>t.
        ret \<lparr>ss_run_id = sp_run_id sp, ss_proc = p, ss_base_sha = base, ss_op_config = cfg,
             ss_started_at = t, ss_done_reported = False\<rparr>)))))"

definition pr_start :: "('h, 'p) runner_config \<Rightarrow> string \<Rightarrow> spec \<Rightarrow> (('h, 'p) runner, unit) act" where
  "pr_start rc slot sp s =
     (case map_of (rn_slots s) slot of
        None \<Rightarrow> (Inl KeyError, s)
      | Some prev \<Rightarrow>
          act_bind (on_host (case prev of None \<Rightarrow> ret () | Some st \<Rightarrow> terminate (rc_host rc) (ss_proc st))) (\<lambda>_.
          act_bind (on_host (start_child rc sp)) (\<lambda>st.
            modify (\<lambda>s. s\<lparr>rn_slots := dict_set (rn_slots s) slot (Some st)\<rparr>))) s)"

text \<open>What \<open>observe\<close> shows of a slot; a reported run is dropped from the table.\<close>

definition shown :: "'p slot_state option \<Rightarrow> string option" where
  "shown x = (case x of None \<Rightarrow> None | Some st \<Rightarrow> if ss_done_reported st then None else Some (ss_run_id st))"

definition reaped :: "'p slot_state option \<Rightarrow> 'p slot_state option" where
  "reaped x = (case x of None \<Rightarrow> None | Some st \<Rightarrow> if ss_done_reported st then None else Some st)"

definition pr_observe :: "(('h, 'p) runner, (string \<times> string option) list) act" where
  "pr_observe s =
     (Inr (map (\<lambda>(slot, x). (slot, shown x)) (rn_slots s)),
      s\<lparr>rn_slots := map (\<lambda>(slot, x). (slot, reaped x)) (rn_slots s)\<rparr>)"

definition holds :: "string \<Rightarrow> 'p slot_state option \<Rightarrow> bool" where
  "holds rid x \<longleftrightarrow> (case x of None \<Rightarrow> False | Some st \<Rightarrow> ss_run_id st = rid)"

definition find_state :: "(string \<times> 'p slot_state option) list \<Rightarrow> string \<Rightarrow> 'p slot_state option" where
  "find_state slots rid = (case find (\<lambda>(_, x). holds rid x) slots of None \<Rightarrow> None | Some (_, x) \<Rightarrow> x)"

text \<open>\<open>st.done_reported = True\<close> on the state \<open>_find\<close> returned.\<close>

fun mark_done :: "string \<Rightarrow> (string \<times> 'p slot_state option) list \<Rightarrow> (string \<times> 'p slot_state option) list" where
  "mark_done rid [] = []"
| "mark_done rid ((slot, x) # rest) =
     (if holds rid x then (slot, map_option (\<lambda>st. st\<lparr>ss_done_reported := True\<rparr>) x) # rest
      else (slot, x) # mark_done rid rest)"

definition registry_path :: "('h, 'p) runner_config \<Rightarrow> string \<Rightarrow> string" where
  "registry_path rc rid = repo_of rc rid ''.'' @ ''/.peers/spine-runs/'' @ rid @ ''.json''"

definition fleet_run_path :: "('h, 'p) runner_config \<Rightarrow> string \<Rightarrow> string" where
  "fleet_run_path rc rid = repo_of rc rid ''.'' @ ''/.peers/fleet-runs/'' @ rid @ ''/record.json''"

text \<open>A JSON object in a regular file that is no symlink; anything else is no record.\<close>

definition read_record :: "('h, 'p) runner_config \<Rightarrow> string \<Rightarrow> ('h, raw option) act" where
  "read_record rc path =
     act_except
       (act_bind (ho_regular (rc_host rc) path) (\<lambda>there.
          if \<not> there then ret None
          else act_bind (ho_text (rc_host rc) path) (\<lambda>t.
               act_bind (act_res (loads t)) (\<lambda>j. ret (case j of JObj d \<Rightarrow> Some d | _ \<Rightarrow> None)))))
       (\<lambda>e. e = OSError \<or> is_value_error e) (ret None)"

text \<open>\<open>Path(x)\<close> and \<open>branch\<close> of a record: text, or \<open>None\<close> where the code passes it on.\<close>

definition path_field :: "json \<Rightarrow> string res" where
  "path_field j = (case j of JStr s \<Rightarrow> Inr s | _ \<Rightarrow> Inl TypeError)"

definition branch_field :: "json \<Rightarrow> string option res" where
  "branch_field j = (case j of JStr s \<Rightarrow> Inr (Some s) | JNull \<Rightarrow> Inr None | _ \<Rightarrow> Inl TypeError)"

definition activity_files :: "('h, 'p) runner_config \<Rightarrow> string \<Rightarrow> ('h, string list) act" where
  "activity_files rc rid =
     act_bind (read_record rc (registry_path rc rid)) (\<lambda>rec.
       case rec of
         Some d \<Rightarrow>
           if truthy (jget d ''ledger_path'') then
             act_bind (act_res (path_field (jget d ''ledger_path''))) (\<lambda>p. ret [registry_path rc rid, p])
           else ret [registry_path rc rid]
       | None \<Rightarrow> ret [registry_path rc rid])"

text \<open>The last sign of life, from the files whose time is not in the future.\<close>

definition last_activity :: "('h, 'p) runner_config \<Rightarrow> rat \<Rightarrow> string \<Rightarrow> rat \<Rightarrow> ('h, rat) act" where
  "last_activity rc now f seen =
     act_except
       (act_bind (ho_mtime (rc_host rc) f) (\<lambda>t. ret (if t \<le> now then max seen t else seen)))
       (\<lambda>e. e = OSError) (ret seen)"

definition idle_verdict :: "int option \<Rightarrow> rat \<Rightarrow> rat \<Rightarrow> string" where
  "idle_verdict limit now seen =
     (case limit of Some n \<Rightarrow> if now - seen > of_int n then ''wedged'' else ''live'' | None \<Rightarrow> ''live'')"

definition pr_liveness :: "('h, 'p) runner_config \<Rightarrow> string \<Rightarrow> (('h, 'p) runner, string) act" where
  "pr_liveness rc rid s =
     (case find_state (rn_slots s) rid of
        None \<Rightarrow> (Inr ''done'', s)
      | Some st \<Rightarrow>
          act_bind (on_host (ho_poll (rc_host rc) (ss_proc st))) (\<lambda>exited.
            if exited then
              act_bind (modify (\<lambda>s. s\<lparr>rn_slots := mark_done rid (rn_slots s)\<rparr>)) (\<lambda>_. ret ''done'')
            else
              act_bind (on_host (ho_now (rc_host rc))) (\<lambda>now.
              act_bind (on_host (activity_files rc rid)) (\<lambda>files.
              act_bind (on_host (fold_act (last_activity rc now) files (ss_started_at st))) (\<lambda>seen.
                ret (idle_verdict (rc_idle_timeout rc) now seen))))) s)"

definition process_runner :: "('h, 'p) runner_config \<Rightarrow> ('h, 'p) runner slot_runner" where
  "process_runner rc = \<lparr>sl_observe = pr_observe, sl_liveness = pr_liveness rc, sl_start = pr_start rc\<rparr>"

section \<open>The runs the daemon asks for\<close>

definition run_from :: "('h, 'p) runner_config \<Rightarrow> string \<Rightarrow> op_config \<Rightarrow> string \<Rightarrow> string \<Rightarrow> string option \<Rightarrow> string \<Rightarrow> ('h, mode_run option) act" where
  "run_from rc tool cfg ledger_path rid branch base =
     act_bind (ho_ledger (rc_host rc) ledger_path) (\<lambda>f.
       ret (Some \<lparr>mr_tool = tool, mr_op_config = cfg, mr_ledger = f, mr_mode_run = rid, mr_branch = branch,
                  mr_base_sha = Some base\<rparr>))"

text \<open>The run in its worktree, from the record of the lease.\<close>

definition live_run :: "('h, 'p) runner_config \<Rightarrow> string \<Rightarrow> op_config \<Rightarrow> string \<Rightarrow> raw \<Rightarrow> ('h, mode_run option) act" where
  "live_run rc rid cfg base d =
     (case map_of d ''worktree_path'' of
        None \<Rightarrow> raise_exc KeyError
      | Some w \<Rightarrow>
          act_bind (act_res (path_field w)) (\<lambda>wt.
          act_bind (act_res (path_field (jget_default d ''ledger_path'' (JStr (wt @ ''/.peers/run.jsonl''))))) (\<lambda>lp.
          act_bind (act_res (branch_field (jget d ''branch''))) (\<lambda>b.
            run_from rc wt cfg lp rid b base))))"

text \<open>The run in flight, from the registry of the tool.\<close>

definition registered_run :: "('h, 'p) runner_config \<Rightarrow> 'p slot_state \<Rightarrow> ('h, mode_run option) act" where
  "registered_run rc st =
     act_bind (read_record rc (registry_path rc (ss_run_id st))) (\<lambda>rec.
       case rec of None \<Rightarrow> ret None
       | Some d \<Rightarrow> live_run rc (ss_run_id st) (ss_op_config st) (ss_base_sha st) d)"

definition run_for :: "('h, 'p) runner_config \<Rightarrow> string \<Rightarrow> (('h, 'p) runner, mode_run option) act" where
  "run_for rc rid s =
     (case find_state (rn_slots s) rid of
        None \<Rightarrow> (Inr None, s)
      | Some st \<Rightarrow>
          on_host (act_bind (read_record rc (fleet_run_path rc rid)) (\<lambda>persisted.
            case persisted of
              Some d \<Rightarrow>
                if truthy (jget d ''ledger_path'') then
                  act_bind (act_res (path_field (jget d ''ledger_path''))) (\<lambda>lp.
                  act_bind (act_res (branch_field (jget d ''ref''))) (\<lambda>b.
                    run_from rc (repo_of rc rid ''.'') (ss_op_config st) lp rid b (ss_base_sha st)))
                else registered_run rc st
            | None \<Rightarrow> registered_run rc st)) s)"

definition add_run :: "('h, 'p) runner_config \<Rightarrow> string \<times> 'p slot_state option \<Rightarrow> (string \<times> mode_run) list \<Rightarrow>
   (('h, 'p) runner, (string \<times> mode_run) list) act" where
  "add_run rc sx out =
     (case snd sx of
        None \<Rightarrow> ret out
      | Some st \<Rightarrow> act_bind (run_for rc (ss_run_id st)) (\<lambda>r.
          ret (case r of None \<Rightarrow> out | Some run \<Rightarrow> dict_set out (ss_run_id st) run)))"

definition pr_runs_by_id :: "('h, 'p) runner_config \<Rightarrow> (('h, 'p) runner, (string \<times> mode_run) list) act" where
  "pr_runs_by_id rc s = fold_act (add_run rc) (rn_slots s) [] s"

definition shutdown :: "('h, 'p) runner_config \<Rightarrow> (('h, 'p) runner, unit) act" where
  "shutdown rc s =
     on_host (each_act (\<lambda>(_, x). case x of None \<Rightarrow> ret () | Some st \<Rightarrow> terminate (rc_host rc) (ss_proc st)) (rn_slots s)) s"

section \<open>The contract of a slot runner\<close>

text \<open>What the conductor sees of a runner: a table of slots and runs.\<close>

definition put_slot :: "(string \<times> string option) list \<Rightarrow> string \<Rightarrow> string \<Rightarrow> (string \<times> string option) list" where
  "put_slot tab slot rid = map (\<lambda>(s, x). (s, if s = slot then Some rid else x)) tab"

definition free_run :: "(string \<times> string option) list \<Rightarrow> string \<Rightarrow> (string \<times> string option) list" where
  "free_run tab rid = map (\<lambda>(s, x). (s, if x = Some rid then None else x)) tab"

locale slot_contract =
  fixes sl :: "'w slot_runner"
    and table :: "'w \<Rightarrow> (string \<times> string option) list"
    and ok :: "'w \<Rightarrow> bool"
    and elsewhere :: "'w \<Rightarrow> string \<Rightarrow> string \<Rightarrow> bool"
  assumes observe_shows: "ok w \<Longrightarrow> \<exists>w'. sl_observe sl w = (Inr (table w), w') \<and> ok w' \<and> table w' = table w"
    and start_puts: "ok w \<Longrightarrow> sl_start sl slot sp w = (Inr (), w') \<Longrightarrow>
      slot \<in> fst ` set (table w) \<and> table w' = put_slot (table w) slot (sp_run_id sp) \<and>
      (elsewhere w slot (sp_run_id sp) \<or> ok w')"
    and start_fails: "ok w \<Longrightarrow> sl_start sl slot sp w = (Inl e, w') \<Longrightarrow> ok w' \<and> table w' = table w"
    and liveness_frees: "ok w \<Longrightarrow> sl_liveness sl rid w = (r, w') \<Longrightarrow>
      ok w' \<and> table w' = (if r = Inr ''done'' then free_run (table w) rid else table w)"
    and shown_elsewhere: "(s, Some rid) \<in> set (table w) \<Longrightarrow> s \<noteq> slot \<Longrightarrow> elsewhere w slot rid"
begin

text \<open>A run just started is what the next observation shows on its slot, and on no other.\<close>

lemma started_shows:
  assumes "ok w" and "sl_start sl slot sp w = (Inr (), w')" and "\<not> elsewhere w slot (sp_run_id sp)"
  shows "\<exists>obs w''. sl_observe sl w' = (Inr obs, w'') \<and> (\<forall>s. (s, Some (sp_run_id sp)) \<in> set obs \<longleftrightarrow> s = slot)"
proof -
  from start_puts [OF assms(1,2)] assms(3) have t: "slot \<in> fst ` set (table w)"
    "table w' = put_slot (table w) slot (sp_run_id sp)" "ok w'" by auto
  from observe_shows [OF t(3)] obtain w'' where "sl_observe sl w' = (Inr (table w'), w'')" by blast
  moreover have "(s, Some (sp_run_id sp)) \<in> set (table w') \<longleftrightarrow> s = slot" for s
    using t(1) shown_elsewhere [of s "sp_run_id sp" w slot] assms(3) by (force simp: t(2) put_slot_def split: if_splits)
  ultimately show ?thesis by blast
qed

text \<open>A finished run is shown no more.\<close>

lemma done_frees:
  assumes "ok w" and "sl_liveness sl rid w = (Inr ''done'', w')"
  shows "\<exists>obs w''. sl_observe sl w' = (Inr obs, w'') \<and> (\<forall>s. (s, Some rid) \<notin> set obs)"
proof -
  from liveness_frees [OF assms] have t: "ok w'" "table w' = free_run (table w) rid" by simp_all
  from observe_shows [OF t(1)] obtain w'' where "sl_observe sl w' = (Inr (table w'), w'')" by blast
  then show ?thesis by (auto simp: t(2) free_run_def split: if_splits)
qed

end

section \<open>The process runner keeps the contract\<close>

definition runner_table :: "('h, 'p) runner \<Rightarrow> (string \<times> string option) list" where
  "runner_table s = map (\<lambda>(slot, x). (slot, shown x)) (rn_slots s)"

text \<open>Every slot once, and no run on two slots, reported or not.\<close>

definition one_slot :: "(string \<times> 'p slot_state option) list \<Rightarrow> bool" where
  "one_slot slots \<longleftrightarrow> (\<forall>a x b y rid. (a, x) \<in> set slots \<longrightarrow> (b, y) \<in> set slots \<longrightarrow> holds rid x \<longrightarrow> holds rid y \<longrightarrow> a = b)"

definition runner_ok :: "('h, 'p) runner \<Rightarrow> bool" where
  "runner_ok s \<longleftrightarrow> distinct (map fst (rn_slots s)) \<and> one_slot (rn_slots s)"

definition held_elsewhere :: "('h, 'p) runner \<Rightarrow> string \<Rightarrow> string \<Rightarrow> bool" where
  "held_elsewhere s slot rid \<longleftrightarrow> (\<exists>(a, x) \<in> set (rn_slots s). a \<noteq> slot \<and> holds rid x)"

lemma on_host_slots: "on_host m s = (r, s') \<Longrightarrow> rn_slots s' = rn_slots s"
  by (auto simp: on_host_def split: prod.splits)

lemma shown_holds: "shown x = Some rid \<Longrightarrow> holds rid x"
  by (auto simp: shown_def holds_def split: option.splits if_splits)

lemma holds_reaped: "holds rid (reaped x) \<Longrightarrow> holds rid x"
  by (auto simp: reaped_def holds_def split: option.splits if_splits)

lemma observe_law:
  assumes "runner_ok s"
  shows "\<exists>s'. pr_observe s = (Inr (runner_table s), s') \<and> runner_ok s' \<and> runner_table s' = runner_table s"
proof -
  have sh: "shown (reaped x) = shown x" for x :: "'b slot_state option"
    by (simp add: shown_def reaped_def split: option.splits)
  have "fst \<circ> (\<lambda>(slot, x). (slot, reaped x)) = (fst :: string \<times> 'b slot_state option \<Rightarrow> string)"
    by (simp add: fun_eq_iff case_prod_unfold)
  moreover have "one_slot (map (\<lambda>(slot, x). (slot, reaped x)) (rn_slots s))"
    using assms unfolding runner_ok_def one_slot_def by (fastforce dest!: holds_reaped)
  ultimately show ?thesis using assms
    by (simp add: pr_observe_def runner_table_def runner_ok_def case_prod_unfold comp_def sh)
qed

lemma put_slots:
  assumes "distinct (map fst slots)" and "slot \<in> fst ` set slots" and "\<not> ss_done_reported st"
  shows "map (\<lambda>(s, x). (s, shown x)) (dict_set slots slot (Some st)) =
    put_slot (map (\<lambda>(s, x). (s, shown x)) slots) slot (ss_run_id st)"
  using assms
proof (induction slots)
  case (Cons sx slots)
  obtain k x where sx: "sx = (k, x)" by force
  show ?case
  proof (cases "k = slot")
    case True
    with Cons.prems(1) have "(slot, y) \<notin> set slots" for y unfolding sx by force
    then have "map (\<lambda>(s, x). (s, shown x)) slots = put_slot (map (\<lambda>(s, x). (s, shown x)) slots) slot (ss_run_id st)"
      unfolding put_slot_def map_map by (intro map_cong) auto
    with True Cons.prems(3) show ?thesis by (simp add: sx put_slot_def shown_def)
  next
    case False
    with Cons show ?thesis by (simp add: sx put_slot_def image_iff)
  qed
qed simp

lemma pr_start_Inr:
  assumes "pr_start rc slot sp s = (Inr (), s')"
  obtains st where "slot \<in> fst ` set (rn_slots s)" and "rn_slots s' = dict_set (rn_slots s) slot (Some st)"
    and "ss_run_id st = sp_run_id sp" and "\<not> ss_done_reported st"
proof -
  from assms obtain prev where prev: "map_of (rn_slots s) slot = Some prev"
    by (auto simp: pr_start_def split: option.splits)
  with assms obtain s1 s2 st where "rn_slots s1 = rn_slots s" and st: "on_host (start_child rc sp) s1 = (Inr st, s2)"
    and s': "s' = s2\<lparr>rn_slots := dict_set (rn_slots s2) slot (Some st)\<rparr>"
    by (auto simp: pr_start_def act_bind_Inr modify_def dest: on_host_slots)
  then have "rn_slots s' = dict_set (rn_slots s) slot (Some st)" using on_host_slots [OF st] by simp
  moreover have "ss_run_id st = sp_run_id sp \<and> \<not> ss_done_reported st"
    using st by (auto simp: on_host_def start_child_def Let_def act_bind_Inr split: prod.splits)
  moreover have "slot \<in> fst ` set (rn_slots s)" using map_of_SomeD [OF prev] by force
  ultimately show thesis using that by blast
qed

lemma dict_set_in: "(a, x) \<in> set (dict_set d k v) \<Longrightarrow> a = k \<and> x = v \<or> (a, x) \<in> set d"
  by (induction d) (auto split: if_splits)

lemma start_law:
  assumes "runner_ok s" and "pr_start rc slot sp s = (Inr (), s')"
  shows "slot \<in> fst ` set (runner_table s) \<and> runner_table s' = put_slot (runner_table s) slot (sp_run_id sp) \<and>
    (held_elsewhere s slot (sp_run_id sp) \<or> runner_ok s')"
proof -
  from assms(2) obtain st where st: "slot \<in> fst ` set (rn_slots s)" "rn_slots s' = dict_set (rn_slots s) slot (Some st)"
    "ss_run_id st = sp_run_id sp" "\<not> ss_done_reported st" by (rule pr_start_Inr)
  have d: "distinct (map fst (rn_slots s))" using assms(1) by (simp add: runner_ok_def)
  have "fst ` set (runner_table s) = fst ` set (rn_slots s)" by (force simp: runner_table_def)
  moreover have "runner_table s' = put_slot (runner_table s) slot (sp_run_id sp)"
    using put_slots [OF d st(1,4)] by (simp add: runner_table_def st)
  moreover have "runner_ok s'" if "\<not> held_elsewhere s slot (sp_run_id sp)"
    unfolding runner_ok_def st(2)
  proof (rule conjI)
    show "distinct (map fst (dict_set (rn_slots s) slot (Some st)))" using d by (rule distinct_dict_set)
    have new: "a = slot" if "(a, x) \<in> set (rn_slots s)" "holds (sp_run_id sp) x" for a x
      using that \<open>\<not> held_elsewhere s slot (sp_run_id sp)\<close> by (auto simp: held_elsewhere_def)
    have old: "a = b" if "(a, x) \<in> set (rn_slots s)" "(b, y) \<in> set (rn_slots s)" "holds rid x" "holds rid y" for a b x y rid
      using assms(1) that unfolding runner_ok_def one_slot_def by blast
    show "one_slot (dict_set (rn_slots s) slot (Some st))"
      unfolding one_slot_def
    proof (intro allI impI)
      fix a x b y rid
      assume *: "(a, x) \<in> set (dict_set (rn_slots s) slot (Some st))" "(b, y) \<in> set (dict_set (rn_slots s) slot (Some st))"
        "holds rid x" "holds rid y"
      have "holds rid (Some st) \<longleftrightarrow> rid = sp_run_id sp" using st(3) by (auto simp: holds_def)
      with dict_set_in [OF *(1)] dict_set_in [OF *(2)] *(3,4) new old show "a = b" by metis
    qed
  qed
  ultimately show ?thesis using st(1) by blast
qed

lemma start_fail_law:
  assumes "pr_start rc slot sp s = (Inl e, s')"
  shows "rn_slots s' = rn_slots s"
  using assms by (auto simp: pr_start_def act_bind_eq modify_def split: option.splits dest!: on_host_slots)

lemma mark_done_table:
  assumes "distinct (map fst slots)" and "one_slot slots"
  shows "map (\<lambda>(s, x). (s, shown x)) (mark_done rid slots) = free_run (map (\<lambda>(s, x). (s, shown x)) slots) rid"
  using assms
proof (induction slots)
  case (Cons sx slots)
  obtain slot x where sx: "sx = (slot, x)" by force
  show ?case
  proof (cases "holds rid x")
    case True
    have no: "\<not> holds rid y" if "(b, y) \<in> set slots" for b y
    proof
      assume "holds rid y"
      with Cons.prems(2) that True have "slot = b" unfolding sx one_slot_def by (metis list.set_intros)
      with Cons.prems(1) that show False unfolding sx by force
    qed
    have "shown y \<noteq> Some rid" if "(b, y) \<in> set slots" for b y using no [OF that] shown_holds by blast
    then have "free_run (map (\<lambda>(s, x). (s, shown x)) slots) rid = map (\<lambda>(s, x). (s, shown x)) slots"
      unfolding free_run_def map_map by (intro map_cong) auto
    with True show ?thesis by (cases x) (auto simp: sx free_run_def shown_def holds_def)
  next
    case False
    have "shown x \<noteq> Some rid" using shown_holds False by blast
    moreover have "one_slot slots" using Cons.prems(2) unfolding one_slot_def by (meson list.set_intros(2))
    ultimately show ?thesis using Cons False by (simp add: sx free_run_def)
  qed
qed (simp add: free_run_def)

lemma mark_done_ok: "runner_ok s \<Longrightarrow> runner_ok (s\<lparr>rn_slots := mark_done rid (rn_slots s)\<rparr>)"
proof -
  have f: "map fst (mark_done rid slots) = map fst slots" for slots :: "(string \<times> 'b slot_state option) list"
    by (induction slots) auto
  have h: "(a, x) \<in> set (mark_done rid slots) \<Longrightarrow> \<exists>y. (a, y) \<in> set slots \<and> (\<forall>q. holds q x \<longrightarrow> holds q y)"
    for a x and slots :: "(string \<times> 'b slot_state option) list"
  proof (induction slots)
    case (Cons sx slots)
    obtain slot y where sx: "sx = (slot, y)" by force
    from Cons show ?case by (cases y) (auto simp: sx holds_def split: if_splits)
  qed simp
  assume "runner_ok s"
  then show ?thesis unfolding runner_ok_def one_slot_def by (simp add: f) (meson h)
qed

lemma find_state_None: "find_state slots rid = None \<Longrightarrow> (a, x) \<in> set slots \<Longrightarrow> \<not> holds rid x"
proof (induction slots)
  case (Cons sx slots)
  then show ?case by (cases sx) (auto simp: find_state_def holds_def split: option.splits if_splits)
qed simp

lemma idle_verdict_alive: "idle_verdict limit now seen \<noteq> ''done''"
  by (simp add: idle_verdict_def split: option.splits)

lemma liveness_law:
  assumes "runner_ok s" and "pr_liveness rc rid s = (r, s')"
  shows "runner_ok s' \<and> runner_table s' = (if r = Inr ''done'' then free_run (runner_table s) rid else runner_table s)"
proof (cases "find_state (rn_slots s) rid")
  case None
  then have "free_run (runner_table s) rid = runner_table s"
    unfolding free_run_def runner_table_def map_map
    by (intro map_cong) (auto dest!: shown_holds dest: find_state_None)
  with None assms show ?thesis by (simp add: pr_liveness_def)
next
  case (Some st)
  obtain q s1 where q: "on_host (ho_poll (rc_host rc) (ss_proc st)) s = (q, s1)" by force
  have s1: "rn_slots s1 = rn_slots s" "runner_ok s1" using on_host_slots [OF q] assms(1) by (simp_all add: runner_ok_def)
  show ?thesis
  proof (cases "q = Inr True")
    case True
    with q Some assms(2) have "r = Inr ''done''" "s' = s1\<lparr>rn_slots := mark_done rid (rn_slots s1)\<rparr>"
      by (auto simp: pr_liveness_def act_bind_def modify_def ret_def)
    with mark_done_ok [OF s1(2), of rid] mark_done_table [of "rn_slots s" rid] assms(1) s1(1) show ?thesis
      by (simp add: runner_table_def runner_ok_def)
  next
    case False
    have "r \<noteq> Inr ''done'' \<and> rn_slots s' = rn_slots s"
      using q Some assms(2) False s1(1)
      by (auto simp: pr_liveness_def act_bind_eq idle_verdict_alive split: if_splits dest!: on_host_slots)
    then show ?thesis using assms(1) by (simp add: runner_table_def runner_ok_def)
  qed
qed

interpretation processes: slot_contract "process_runner rc" runner_table runner_ok held_elsewhere
  for rc :: "('h, 'p) runner_config"
proof
  fix s s' :: "('h, 'p) runner" and slot sp e rid r
  show "runner_ok s \<Longrightarrow> \<exists>s'. sl_observe (process_runner rc) s = (Inr (runner_table s), s') \<and> runner_ok s' \<and> runner_table s' = runner_table s"
    by (simp add: process_runner_def observe_law)
  show "runner_ok s \<Longrightarrow> sl_start (process_runner rc) slot sp s = (Inr (), s') \<Longrightarrow>
      slot \<in> fst ` set (runner_table s) \<and> runner_table s' = put_slot (runner_table s) slot (sp_run_id sp) \<and>
      (held_elsewhere s slot (sp_run_id sp) \<or> runner_ok s')"
    unfolding process_runner_def by simp (rule start_law)
  show "runner_ok s \<Longrightarrow> sl_start (process_runner rc) slot sp s = (Inl e, s') \<Longrightarrow> runner_ok s' \<and> runner_table s' = runner_table s"
    by (auto simp: process_runner_def runner_ok_def runner_table_def dest!: start_fail_law)
  show "runner_ok s \<Longrightarrow> sl_liveness (process_runner rc) rid s = (r, s') \<Longrightarrow>
      runner_ok s' \<and> runner_table s' = (if r = Inr ''done'' then free_run (runner_table s) rid else runner_table s)"
    using liveness_law [of s rc rid r s'] by (simp add: process_runner_def)
  fix a
  show "(a, Some rid) \<in> set (runner_table s) \<Longrightarrow> a \<noteq> slot \<Longrightarrow> held_elsewhere s slot rid"
    by (auto simp: runner_table_def held_elsewhere_def dest!: shown_holds [OF sym])
qed

text \<open>
  C33: the process runner implements the slot table the conductor reasons with. While every run is on
  one slot: \<open>observe\<close> shows the table and changes it not; \<open>start\<close> puts the run on its slot, which
  exists, and on no other row, or raises and changes nothing; \<open>liveness\<close> changes the table only by
  freeing the run it reports \<open>done\<close>, at once and although the slot is reaped later.
\<close>

theorem process_runner_refines:
  assumes "runner_ok s"
  shows "(\<exists>s'. sl_observe (process_runner rc) s = (Inr (runner_table s), s') \<and> runner_ok s' \<and> runner_table s' = runner_table s) \<and>
    (\<forall>slot sp s'. sl_start (process_runner rc) slot sp s = (Inr (), s') \<longrightarrow> slot \<in> fst ` set (runner_table s) \<and>
       runner_table s' = put_slot (runner_table s) slot (sp_run_id sp) \<and>
       (held_elsewhere s slot (sp_run_id sp) \<or> runner_ok s')) \<and>
    (\<forall>slot sp e s'. sl_start (process_runner rc) slot sp s = (Inl e, s') \<longrightarrow> runner_ok s' \<and> runner_table s' = runner_table s) \<and>
    (\<forall>rid r s'. sl_liveness (process_runner rc) rid s = (r, s') \<longrightarrow> runner_ok s' \<and>
       runner_table s' = (if r = Inr ''done'' then free_run (runner_table s) rid else runner_table s))"
  using processes.observe_shows [OF assms] processes.start_puts [OF assms] processes.start_fails [OF assms]
    processes.liveness_frees [OF assms] by blast

section \<open>With the conductor\<close>

lemma assigned_reconciles:
  assumes "map_of (by_id c) rid = Some sp" and "latest rows rid = Some ''running''" and "slot_in rows rid = JStr slot" and "slot \<noteq> []"
  shows "reconcile_run c rows rid [slot] = None"
  using assms by (simp add: reconcile_run_def Let_def has_status_def known_statuses_def)

text \<open>
  C33: what one tick starts, the next tick recognises: over the process runner, if \<open>start_assigned\<close>
  reports a run as started, the next observation shows it on its slot and nowhere else, and with
  the ledger as it was left the reconciliation of that run finds nothing to halt on.
\<close>

theorem started_run_reconciles:
  assumes "cd_runner c = process_runner rc" and "runner_ok (fs_world s)" and "\<not> held_elsewhere (fs_world s) slot rid"
    and "tame c" and "sane (cd_hash c) (fs_file s) rows" and "safe_str slot" and "slot \<noteq> []"
    and "start_assigned c (rid, slot) rep s = (Inr rep', s')" and "rp_started rep' = rp_started rep @ [rid]"
  shows "\<exists>obs w rows2. sl_observe (cd_runner c) (fs_world s') = (Inr obs, w) \<and>
    (\<forall>x. (x, Some rid) \<in> set obs \<longleftrightarrow> x = slot) \<and> read (fs_file s') = Inr rows2 \<and> reconcile_run c rows2 rid [slot] = None"
proof -
  from start_committed [OF assms(4-6,8)] assms(9) have
    "\<exists>sp q. map_of (by_id c) rid = Some sp \<and> sl_start (cd_runner c) slot sp (fs_world s) = (q, fs_world s') \<and>
      (case q of Inl e \<Rightarrow> False | Inr _ \<Rightarrow> \<exists>rows2. read (fs_file s') = Inr rows2 \<and> latest rows2 rid = Some ''running'' \<and>
         slot_in rows2 rid = JStr slot)"
    by (elim disjE exE conjE) (auto split: sum.splits)
  then obtain sp q where sp: "map_of (by_id c) rid = Some sp" and
    q: "sl_start (cd_runner c) slot sp (fs_world s) = (q, fs_world s')" and
    "case q of Inl e \<Rightarrow> False | Inr _ \<Rightarrow> \<exists>rows2. read (fs_file s') = Inr rows2 \<and> latest rows2 rid = Some ''running'' \<and>
         slot_in rows2 rid = JStr slot" by blast
  then obtain rows2 where rows2: "read (fs_file s') = Inr rows2" "latest rows2 rid = Some ''running''" "slot_in rows2 rid = JStr slot"
    and "q = Inr ()" by (cases q) auto
  have rid: "sp_run_id sp = rid" using by_run_id_Some [OF sp [unfolded by_id_def]] by simp
  from q \<open>q = Inr ()\<close> have "sl_start (process_runner rc) slot sp (fs_world s) = (Inr (), fs_world s')"
    unfolding assms(1) by simp
  from processes.started_shows [OF assms(2) this] assms(3) obtain obs w where
    "sl_observe (cd_runner c) (fs_world s') = (Inr obs, w)" "\<forall>x. (x, Some rid) \<in> set obs \<longleftrightarrow> x = slot"
    unfolding rid assms(1) by blast
  with rows2(1) assigned_reconciles [OF sp rows2(2,3) assms(7)] show ?thesis
    by (intro exI [of _ obs] exI [of _ w] exI [of _ rows2]) simp
qed

section \<open>With the daemon\<close>

lemma new_runner_empty: "(slot, x) \<in> set (rn_slots (new_runner pool h)) \<Longrightarrow> x = None"
proof -
  have "\<forall>(s, x) \<in> set (dict_of (map (\<lambda>s. (s, None)) ss)). x = None" for ss :: "string list"
    by (induction ss rule: rev_induct) (auto simp: dict_of_def dest!: dict_set_in)
  then show "(slot, x) \<in> set (rn_slots (new_runner pool h)) \<Longrightarrow> x = None" by (auto simp: new_runner_def)
qed

lemma idle_slots:
  assumes "\<forall>(slot, x) \<in> set slots. x = None"
  shows "map (\<lambda>(slot, x). (slot, reaped x)) slots = slots" "\<forall>(slot, x) \<in> set (map (\<lambda>(slot, x). (slot, shown x)) slots). x = None"
    "fold_act (add_run rc) slots out s = (Inr out, s)"
  using assms by (induction slots) (auto simp: reaped_def shown_def add_run_def act_bind_def ret_def)

lemma idle_liveness: "\<forall>(slot, x) \<in> set obs. x = None \<Longrightarrow> fold_act (check_liveness c) obs rep s = (Inr rep, s)"
  by (induction obs) (auto simp: check_liveness_def act_bind_def ret_def)

lemma idle_routing: "read (fs_file s) = Inr [] \<Longrightarrow> fold_act (route_run c) specs rep s = (Inr rep, s)"
  by (induction specs) (auto simp: route_run_def act_bind_def ret_def on_ledger_def latest_status_read latest_def)

lemma unstarted_dependency:
  assumes "\<exists>s \<in> set specs. sp_depends_on s \<noteq> []"
  shows "ready_runs [] (make_dep_check H os G resolve by_ids [] repos) specs = Inl KeyError"
  using assms
proof (induction specs)
  case (Cons s specs)
  have n: "\<not> has_status [] rid sts" for rid sts by (simp add: has_status_def latest_def)
  show ?case
  proof (cases "sp_depends_on s")
    case Nil
    with Cons n show ?thesis by simp
  next
    case (Cons dep deps)
    have "make_dep_check H os G resolve by_ids [] repos dep rid = Inl KeyError" for rid
      by (auto simp: make_dep_check_def key_lookup_def res_bind_def split: option.splits)
    with Cons n show ?thesis by simp
  qed
qed simp

text \<open>
  as \<open>peers-ctl fleet\<close> wires it, with the process runner and no dependency check injected, the
  daemon cannot run a program with a dependency: the production check looks the producer up
  among the runs that are on a slot, nothing is on a slot yet, and the \<open>KeyError\<close> aborts the
  fleet in its first tick, before anything is started.
\<close>

theorem dependent_program_aborts:
  fixes rc :: "('h, 'p) runner_config"
  assumes "dm_runs d = pr_runs_by_id rc" and "dm_dep_check d = None" and "cd_runner (dm_fleet d) = process_runner rc"
    and "s \<in> set (cd_program (dm_fleet d))" and "sp_depends_on s \<noteq> []"
  shows "\<exists>r s'. conduct_fleet d \<lparr>fs_file = None, fs_world = new_runner pool h\<rparr> = Some (Inr r, s') \<and>
    fr_cause r = ''aborted'' \<and> fr_error r = Some KeyError \<and> fr_ticks r = 1 \<and> fs_world (rs_fleet s') = new_runner pool h"
proof -
  let ?w = "new_runner pool h :: ('h, 'p) runner" and ?c = "pass_conductor d []"
  let ?f = "\<lparr>fs_file = None, fs_world = ?w\<rparr>"
  let ?s = "\<lparr>rs_fleet = ?f, rs_landed = [], rs_review = [], rs_tier2 = []\<rparr>"
  have e: "\<forall>(slot, x) \<in> set (rn_slots ?w). x = None" by (auto dest: new_runner_empty)
  note idle = idle_slots [OF e]
  have runs: "dm_runs d ?w = (Inr [], ?w)" using idle(3) by (simp add: assms(1) pr_runs_by_id_def)
  have c: "cd_runner ?c = process_runner rc" "cd_program ?c = cd_program (dm_fleet d)"
    "cd_dep_check ?c = make_dep_check (cd_hash (dm_fleet d)) (cd_os (dm_fleet d)) (cd_git (dm_fleet d)) (cd_resolve (dm_fleet d))
       (by_id (dm_fleet d)) [] (cd_repos (dm_fleet d))"
    using assms(2,3) by (simp_all add: pass_conductor_def Let_def)
  define obs where "obs = map (\<lambda>(slot, x). (slot, shown x)) (rn_slots ?w)"
  have obs: "sl_observe (cd_runner ?c) ?w = (Inr obs, ?w)" "\<forall>(slot, x) \<in> set obs. x = None"
    using idle(1,2) by (simp_all add: c(1) process_runner_def pr_observe_def obs_def)
  have "foldl (\<lambda>d (slot, run). case run of None \<Rightarrow> d | Some r \<Rightarrow> dict_append d r slot) a obs = a" for a
    using obs(2) by (induction obs) auto
  then have rs: "run_slots obs = []" by (simp add: run_slots_def)
  have rd: "ready_runs [] (cd_dep_check ?c) (cd_program ?c) = Inl KeyError"
    unfolding c by (rule unstarted_dependency) (use assms(4,5) in blast)
  have ready: "startable_runs (cd_program ?c) [] (cd_pool ?c) (cd_ceiling ?c) (cd_dep_check ?c) (cd_projected ?c) = Inl KeyError"
    by (simp add: startable_runs_def occupied_slots_def status_subjects_def Let_def rd)
  have "tick_body ?c obs ?f = (Inl KeyError, ?f)"
    using ready by (simp add: tick_body_def act_bind_def idle_liveness [OF obs(2)] idle_routing empty_read schedule_and_start_def
        on_ledger_def reading_def)
  then have "conduct_tick ?c ?f = (Inl KeyError, ?f)"
    by (simp add: conduct_tick_def act_bind_def on_world_def on_ledger_def obs(1) has_undeterminable_edge_def empty_edges reading_def
        empty_read rs)
  then have pass: "fleet_pass d (Suc 0) ?s = (Inl KeyError, ?s)"
    by (simp add: fleet_pass_def act_bind_def on_fleet_def on_world_def runs)
  have "\<exists>sts. statuses d ?s = (Inr sts, ?s)"
    by (simp add: statuses_def ret_def on_fleet_def on_ledger_def reading_def empty_read)
  then obtain sts where "statuses d ?s = (Inr sts, ?s)" ..
  with pass have "guarded_pass d (Suc 0) ?s = (Inr (Some (finish ''aborted'' (Suc 0) sts None (Some KeyError) ?s)), ?s)"
    by (simp add: guarded_pass_def act_bind_def act_catch_def finish_with_def)
  then have "conduct_fleet d ?f = Some (Inr (finish ''aborted'' (Suc 0) sts None (Some KeyError) ?s), ?s)"
    unfolding conduct_fleet_def by (subst fleet_loop.simps) simp
  then show ?thesis by (auto simp: finish_def Let_def)
qed

section \<open>A host whose children never end\<close>

definition sample_host :: "(unit, unit) host" where
  "sample_host = \<lparr>ho_git_head = \<lambda>r h. (Inr (0, sample_sha), h), ho_launch = \<lambda>sp b h. (Inr (), h), ho_poll = \<lambda>p h. (Inr False, h),
     ho_killpg = \<lambda>p g h. (Inr (), h), ho_kill = \<lambda>p g h. (Inr (), h), ho_wait = \<lambda>p t h. (Inr (), h), ho_now = \<lambda>h. (Inr 0, h),
     ho_mtime = \<lambda>f h. (Inl OSError, h), ho_regular = \<lambda>f h. (Inr False, h), ho_text = \<lambda>f h. (Inl OSError, h),
     ho_ledger = \<lambda>f h. (Inr None, h)\<rparr>"

definition sample_rc :: "(unit, unit) runner_config" where
  "sample_rc = \<lparr>rc_host = sample_host, rc_repos = [], rc_idle_timeout = Some 900\<rparr>"

definition sample_slots :: "(unit, unit) runner" where
  "sample_slots = new_runner sample_pool ()"

lemma sample_slots_table: "rn_slots sample_slots = [(''s1'', None), (''s2'', None)]"
  by (simp add: sample_slots_def new_runner_def sample_pool_def dict_of_def)

lemma sample_slots_ok: "runner_ok sample_slots" "\<not> held_elsewhere sample_slots slot rid"
  by (auto simp: runner_ok_def one_slot_def held_elsewhere_def sample_slots_table holds_def)

lemma sample_child: "\<exists>s'. pr_start sample_rc ''s1'' (sample_spec ''a'' []) sample_slots = (Inr (), s')"
  by (simp add: pr_start_def sample_slots_table act_bind_def on_host_def ret_def start_child_def Let_def sample_rc_def sample_host_def
      act_except_def git_head_def sample_spec_def act_res_def modify_def)

theorem process_runner_refines_witness:
  "\<exists>s'. sl_start (process_runner sample_rc) ''s1'' (sample_spec ''a'' []) sample_slots = (Inr (), s') \<and>
     runner_table s' = [(''s1'', Some ''a''), (''s2'', None)] \<and> runner_ok s'"
proof -
  from sample_child obtain s' where s': "sl_start (process_runner sample_rc) ''s1'' (sample_spec ''a'' []) sample_slots = (Inr (), s')"
    by (auto simp: process_runner_def)
  have "sp_run_id (sample_spec ''a'' []) = ''a''" by (simp add: sample_spec_def)
  with process_runner_refines [OF sample_slots_ok(1), of sample_rc] s' sample_slots_ok(2) show ?thesis
    by (auto simp: runner_table_def [of sample_slots] sample_slots_table put_slot_def shown_def)
qed

definition process_fleet :: "(unit, unit) runner conductor" where
  "process_fleet = \<lparr>cd_hash = zero_hash, cd_os = no_files, cd_git = \<lambda>_. sample_repo, cd_resolve = \<lambda>p. p,
     cd_text = \<lambda>_. ''running'', cd_program = sample_runs, cd_pool = sample_pool, cd_runner = process_runner sample_rc,
     cd_ceiling = no_ceiling, cd_dep_check = always, cd_self_hosting = \<lambda>_ _. Inr False, cd_changed_paths_of = None,
     cd_runs = [], cd_repos = [], cd_projected = None\<rparr>"

lemma process_fleet_parts:
  "cd_hash process_fleet = zero_hash" "cd_runner process_fleet = process_runner sample_rc"
  "map_of (by_id process_fleet) ''a'' = Some (sample_spec ''a'' [])"
  by (simp_all add: process_fleet_def by_id_def by_run_id_def dict_of_def sample_runs_def sample_spec_def)

lemma process_fleet_tame: "tame process_fleet"
  by (auto simp: tame_def process_fleet_def sample_runs_def sample_spec_def sample_pool_def sample_names sample_names_tame
      converged_tip_def)

lemma sample_process_start:
  "\<exists>s'. start_assigned process_fleet (''a'', ''s1'') empty_report \<lparr>fs_file = None, fs_world = sample_slots\<rparr> =
     (Inr (empty_report\<lparr>rp_started := [''a'']\<rparr>), s')"
proof -
  have pe: "producer_edges process_fleet ''a'' = Inr ([], None)"
    by (simp add: producer_edges_def key_lookup_def process_fleet_parts) (simp add: sample_spec_def)
  from record_start_intent_sane [OF empty_sane sample_names(1,3)] obtain f1 rows1 where
    f1: "record_start_intent zero_hash ''a'' ''s1'' None = (Inr (), f1)" "sane zero_hash f1 rows1" by metis
  from record_status_ex [OF f1(2) sample_names(1) fleet_texts(8), of "Some ''s1''"] sample_names(3) obtain f2 where
    f2: "record_status zero_hash ''a'' ''running'' (Some ''s1'') f1 = (Inr (), f2)" by auto
  from sample_child obtain w where "pr_start sample_rc ''s1'' (sample_spec ''a'' []) sample_slots = (Inr (), w)" ..
  then show ?thesis
    by (simp add: start_assigned_def act_bind_def act_res_def on_ledger_def on_world_def key_lookup_def pe process_fleet_parts
        f1 f2 process_runner_def empty_report_def ret_def)
qed

theorem started_run_reconciles_witness:
  "\<exists>s' obs w. start_assigned process_fleet (''a'', ''s1'') empty_report \<lparr>fs_file = None, fs_world = sample_slots\<rparr> =
      (Inr (empty_report\<lparr>rp_started := [''a'']\<rparr>), s') \<and>
    sl_observe (process_runner sample_rc) (fs_world s') = (Inr obs, w) \<and> (''s1'', Some ''a'') \<in> set obs"
proof -
  let ?s = "\<lparr>fs_file = None, fs_world = sample_slots\<rparr>"
  from sample_process_start obtain s' where
    s': "start_assigned process_fleet (''a'', ''s1'') empty_report ?s = (Inr (empty_report\<lparr>rp_started := [''a'']\<rparr>), s')" by blast
  have p: "runner_ok (fs_world ?s)" "\<not> held_elsewhere (fs_world ?s) ''s1'' ''a''" "sane (cd_hash process_fleet) (fs_file ?s) []"
    "''s1'' \<noteq> []" "rp_started (empty_report\<lparr>rp_started := [''a'']\<rparr>) = rp_started empty_report @ [''a'']"
    using sample_slots_ok empty_sane by (simp_all add: process_fleet_parts empty_report_def)
  from started_run_reconciles [OF process_fleet_parts(2) p(1,2) process_fleet_tame p(3) sample_names(3) p(4) s' p(5)]
  obtain obs w where "sl_observe (process_runner sample_rc) (fs_world s') = (Inr obs, w)" "(''s1'', Some ''a'') \<in> set obs"
    unfolding process_fleet_parts(2) by (elim exE conjE) simp
  with s' show ?thesis by (intro exI [of _ s'] exI [of _ obs] exI [of _ w]) simp
qed

definition process_daemon :: "(unit, unit) runner daemon" where
  "process_daemon = \<lparr>dm_fleet = process_fleet, dm_runs = pr_runs_by_id sample_rc, dm_dep_check = None,
     dm_lander = default_lander, dm_should_reject = None, dm_order = \<lambda>xs. xs,
     dm_target_ref = ''main'', dm_max_ticks = None, dm_sleep = \<lambda>w. (Inr (), w), dm_on_report = \<lambda>t rep w. (Inr (), w)\<rparr>"

theorem dependent_program_aborts_witness:
  "\<exists>r s'. conduct_fleet process_daemon \<lparr>fs_file = None, fs_world = sample_slots\<rparr> = Some (Inr r, s') \<and>
     fr_cause r = ''aborted'' \<and> fr_error r = Some KeyError"
proof -
  have "dm_runs process_daemon = pr_runs_by_id sample_rc" "dm_dep_check process_daemon = None"
    "cd_runner (dm_fleet process_daemon) = process_runner sample_rc"
    "sample_spec ''b'' [''a''] \<in> set (cd_program (dm_fleet process_daemon))" "sp_depends_on (sample_spec ''b'' [''a'']) \<noteq> []"
    by (simp_all add: process_daemon_def process_fleet_def sample_runs_def sample_spec_def)
  from dependent_program_aborts [OF this, of sample_pool "()"] show ?thesis unfolding sample_slots_def by blast
qed

end
