(* ===== verification/Manifest.thy ===== *)
theory Manifest
  imports Scheduler SelfHosting
begin

text \<open>
  The operator's intake of a fleet, \<open>peers/fleet/manifest.py\<close>: a JSON-like mapping becomes the
  program, pool, ceiling and loop settings, or \<open>ValueError\<close>. A \<open>float\<close> is its text; whether it is
  \<open><= 0\<close> and \<open>float(i)\<close> of an integer are the parameter \<open>floats\<close>, the tool roots the parameter \<open>machine\<close>.
\<close>

section \<open>Validators\<close>

record floats =
  fo_nonpos :: "string \<Rightarrow> bool"
  fo_of_int :: "int \<Rightarrow> string res"

definition require_mapping :: "json \<Rightarrow> raw res" where
  "require_mapping j = (case j of JObj d \<Rightarrow> Inr d | _ \<Rightarrow> Inl ValueError)"

definition reject_unknown :: "raw \<Rightarrow> string list \<Rightarrow> unit res" where
  "reject_unknown d allowed = (if keys_within d allowed then Inr () else Inl ValueError)"

definition pos_int_or_none :: "json \<Rightarrow> int option res" where
  "pos_int_or_none j = (if j = JNull then Inr None else res_bind (positive_int j) (\<lambda>i. Inr (Some i)))"

definition pos_number :: "floats \<Rightarrow> json \<Rightarrow> string res" where
  "pos_number fo j =
     (case j of
        JInt i \<Rightarrow> if i \<le> 0 then Inl ValueError else fo_of_int fo i
      | JFloat x \<Rightarrow> if fo_nonpos fo x then Inl ValueError else Inr x
      | _ \<Rightarrow> Inl ValueError)"

definition str_or_none :: "json \<Rightarrow> string option res" where
  "str_or_none j = (if j = JNull then Inr None else res_bind (nonempty_str j) (\<lambda>s. Inr (Some s)))"

text \<open>A list of strings, every one of them a string.\<close>

definition str_items :: "json \<Rightarrow> string list res" where
  "str_items j =
     (case j of
        JList xs \<Rightarrow> res_map (\<lambda>x. case x of JStr s \<Rightarrow> Inr s | _ \<Rightarrow> Inl ValueError) xs
      | _ \<Rightarrow> Inl ValueError)"

text \<open>\<open>str(Path(s))\<close>: empty and \<open>.\<close> components go, two leading slashes are a root of their own.\<close>

definition path_root :: "string \<Rightarrow> string" where
  "path_root s =
     (if startswith s ''//'' \<and> \<not> startswith s ''///'' then ''//'' else if startswith s ''/'' then ''/'' else [])"

definition path_of :: "string \<Rightarrow> string" where
  "path_of s =
     (let r = path_root s; parts = posix_parts s in
      if r = [] \<and> parts = [] then ''.'' else r @ joins ''/'' parts)"

section \<open>The sections of a manifest\<close>

record loop_config =
  lc_max_ticks :: "int option"
  lc_tick_sleep :: string
  lc_idle_timeout :: "int option"
  lc_target_ref :: string

definition loop_config_from_dict :: "floats \<Rightarrow> json \<Rightarrow> loop_config res" where
  "loop_config_from_dict fo j =
     res_bind (require_mapping j) (\<lambda>d.
     res_bind (reject_unknown d [''max_ticks'', ''tick_sleep_s'', ''idle_timeout_s'', ''target_ref'']) (\<lambda>_.
     res_bind (nonempty_str (jget_default d ''target_ref'' (JStr ''main''))) (\<lambda>target.
     res_bind (pos_int_or_none (jget d ''max_ticks'')) (\<lambda>ticks.
     res_bind (pos_number fo (jget_default d ''tick_sleep_s'' (JFloat ''5.0''))) (\<lambda>slp.
     res_bind (pos_int_or_none (jget_default d ''idle_timeout_s'' (JInt 900))) (\<lambda>idle.
       Inr \<lparr>lc_max_ticks = ticks, lc_tick_sleep = slp, lc_idle_timeout = idle, lc_target_ref = target\<rparr>))))))"

record manifest =
  mf_program :: "spec list"
  mf_pool :: pool
  mf_ceiling :: ceiling
  mf_repos :: "(string \<times> string) list"
  mf_daemon :: loop_config

definition allowed_top :: "string list" where
  "allowed_top = [''pool'', ''ceiling'', ''daemon'', ''runs'']"

definition allowed_run :: "string list" where
  "allowed_run = [''run_id'', ''tool'', ''mode'', ''depends_on'', ''landing'', ''affinity'', ''writable'',
     ''requires_artifact'', ''budget'']"

text \<open>The op-config of a run: its mode, and landing and budget where the run has them.\<close>

definition run_op_config :: "raw \<Rightarrow> string \<Rightarrow> json res" where
  "run_op_config d mode =
     (let oc = [(''mode'', JStr mode)];
          oc1 = (case map_of d ''landing'' of Some l \<Rightarrow> oc @ [(''landing'', l)] | None \<Rightarrow> oc)
      in case map_of d ''budget'' of
           Some b \<Rightarrow> res_bind (require_mapping b) (\<lambda>bd. Inr (JObj (oc1 @ [(''budget'', JObj bd)])))
         | None \<Rightarrow> Inr (JObj oc1))"

definition spec_from_dict :: "json \<Rightarrow> spec res" where
  "spec_from_dict j =
     res_bind (require_mapping j) (\<lambda>d.
     res_bind (reject_unknown d allowed_run) (\<lambda>_.
     res_bind (nonempty_str (jget d ''run_id'')) (\<lambda>run_id.
     res_bind (nonempty_str (jget d ''tool'')) (\<lambda>tool.
     res_bind (nonempty_str (jget d ''mode'')) (\<lambda>mode.
     res_bind (str_items (jget_default d ''depends_on'' (JList []))) (\<lambda>deps.
     res_bind (bool_of (jget_default d ''writable'' (JBool True))) (\<lambda>writable.
     res_bind (str_or_none (jget d ''affinity'')) (\<lambda>affinity.
     res_bind (str_or_none (jget d ''requires_artifact'')) (\<lambda>artifact.
     res_bind (run_op_config d mode) (\<lambda>oc.
     res_bind (op_config_from_dict oc) (\<lambda>cfg.
       Inr \<lparr>sp_tool = path_of tool, sp_mode = mode, sp_op_config = Some cfg, sp_run_id = run_id,
            sp_depends_on = deps, sp_affinity = affinity, sp_writable = writable,
            sp_requires_artifact = artifact\<rparr>)))))))))))"

definition affinity_map :: "json \<Rightarrow> (string \<times> string) list res" where
  "affinity_map j =
     (case j of
        JObj d \<Rightarrow> res_map (\<lambda>(k, v). case v of JStr s \<Rightarrow> Inr (k, s) | _ \<Rightarrow> Inl ValueError) d
      | _ \<Rightarrow> Inl ValueError)"

definition pool_from_dict :: "json \<Rightarrow> pool res" where
  "pool_from_dict j =
     res_bind (require_mapping j) (\<lambda>d.
     res_bind (reject_unknown d [''slots'', ''affinity'']) (\<lambda>_.
     res_bind (str_items (jget d ''slots'')) (\<lambda>slots.
       if slots = [] \<or> [] \<in> set slots then Inl ValueError
       else if \<not> distinct slots then Inl ValueError
       else res_bind (affinity_map (jget_default d ''affinity'' (JObj []))) (\<lambda>aff.
         if list_ex (\<lambda>(_, slot). slot \<notin> set slots) aff then Inl ValueError
         else Inr \<lparr>po_slots = slots, po_affinity = aff\<rparr>))))"

definition ceiling_from_dict :: "json \<Rightarrow> ceiling res" where
  "ceiling_from_dict j =
     res_bind (require_mapping j) (\<lambda>d.
     res_bind (reject_unknown d [''max_tokens'', ''max_runs'']) (\<lambda>_.
     res_bind (pos_int_or_none (jget d ''max_tokens'')) (\<lambda>tokens.
     res_bind (pos_int_or_none (jget d ''max_runs'')) (\<lambda>runs.
       Inr \<lparr>ce_max_tokens = tokens, ce_max_runs = runs\<rparr>))))"

definition unknown_affinity :: "pool \<Rightarrow> spec \<Rightarrow> bool" where
  "unknown_affinity pool s = (case sp_affinity s of None \<Rightarrow> False | Some a \<Rightarrow> map_of (po_affinity pool) a = None)"

definition load_fleet_manifest :: "floats \<Rightarrow> machine \<Rightarrow> json \<Rightarrow> manifest res" where
  "load_fleet_manifest fo m raw =
     res_bind (require_mapping raw) (\<lambda>d.
     res_bind (reject_unknown d allowed_top) (\<lambda>_.
     res_bind (case jget d ''runs'' of JList (x # xs) \<Rightarrow> Inr (x # xs) | _ \<Rightarrow> Inl ValueError) (\<lambda>runs.
     res_bind (res_map spec_from_dict runs) (\<lambda>specs.
     res_bind (validate_program m specs) (\<lambda>(ok, errors).
       if \<not> ok then Inl ValueError
       else res_bind (case map_of d ''pool'' of None \<Rightarrow> Inl ValueError | Some p \<Rightarrow> Inr p) (\<lambda>p.
         res_bind (pool_from_dict p) (\<lambda>pool.
           if list_ex (unknown_affinity pool) specs then Inl ValueError
           else res_bind (ceiling_from_dict (jget_default d ''ceiling'' (JObj []))) (\<lambda>ce.
             res_bind (loop_config_from_dict fo (jget_default d ''daemon'' (JObj []))) (\<lambda>dc.
               Inr \<lparr>mf_program = specs, mf_pool = pool, mf_ceiling = ce,
                    mf_repos = dict_of (map (\<lambda>s. (sp_run_id s, path_of (sp_tool s))) specs), mf_daemon = dc\<rparr>)))))))))"

section \<open>What an accepted manifest is\<close>

lemma require_mapping_Inr [simp]: "require_mapping j = Inr d \<longleftrightarrow> j = JObj d"
  by (auto simp: require_mapping_def split: json.splits)

lemma reject_unknown_Inr [simp]: "reject_unknown d ks = Inr u \<longleftrightarrow> keys_within d ks"
  by (auto simp: reject_unknown_def)

lemma pos_int_or_none_Inr:
  "pos_int_or_none j = Inr x \<Longrightarrow> (\<forall>i. x = Some i \<longrightarrow> 1 \<le> i)"
  by (auto simp: pos_int_or_none_def res_bind_Inr_iff positive_int_Inr split: if_splits)

lemma str_or_none_Inr: "str_or_none j = Inr x \<Longrightarrow> x \<noteq> Some []"
  by (auto simp: str_or_none_def res_bind_Inr_iff nonempty_str_Inr split: if_splits)

text \<open>A pool whose affinity labels lead to its own slots.\<close>

definition good_pool :: "pool \<Rightarrow> bool" where
  "good_pool p \<longleftrightarrow> po_slots p \<noteq> [] \<and> [] \<notin> set (po_slots p) \<and> distinct (po_slots p) \<and>
     (\<forall>(_, slot) \<in> set (po_affinity p). slot \<in> set (po_slots p))"

lemma pool_from_dict_good: "pool_from_dict j = Inr p \<Longrightarrow> good_pool p"
  by (auto simp: pool_from_dict_def res_bind_Inr_iff good_pool_def list_ex_iff split: if_splits)

text \<open>A run whose settings are the closed intake and agree with its mode.\<close>

definition good_spec :: "spec \<Rightarrow> bool" where
  "good_spec s \<longleftrightarrow> sp_run_id s \<noteq> [] \<and> sp_affinity s \<noteq> Some [] \<and>
     (\<exists>cfg. sp_op_config s = Some cfg \<and> oc_mode cfg = sp_mode s \<and> oc_landing cfg \<noteq> [] \<and>
        1 \<le> bu_max_rounds (oc_budget cfg) \<and> (\<forall>t. bu_max_tokens (oc_budget cfg) = Some t \<longrightarrow> 1 \<le> t))"

lemma run_op_config_mode:
  assumes "run_op_config d mode = Inr oc" and "op_config_from_dict oc = Inr cfg"
  shows "oc_mode cfg = mode \<and> oc_landing cfg \<noteq> [] \<and> 1 \<le> bu_max_rounds (oc_budget cfg) \<and>
    (\<forall>t. bu_max_tokens (oc_budget cfg) = Some t \<longrightarrow> 1 \<le> t)"
proof -
  from assms(1) obtain kvs where oc: "oc = JObj kvs" "map_of kvs ''mode'' = Some (JStr mode)"
    by (auto simp: run_op_config_def Let_def res_bind_Inr_iff split: option.splits)
  from assms(2) show ?thesis unfolding oc(1)
    by (auto simp: op_config_from_dict_def res_bind_Inr_iff known_mode_Inr oc(2) nonempty_str_Inr
        dest!: budget_from_dict_Inr split: if_splits)
qed

lemma spec_from_dict_good: "spec_from_dict j = Inr s \<Longrightarrow> good_spec s"
  unfolding spec_from_dict_def res_bind_Inr_iff
  by (elim exE conjE) (auto simp: good_spec_def nonempty_str_Inr dest: str_or_none_Inr run_op_config_mode)

lemma res_map_all:
  "res_map f xs = Inr ys \<Longrightarrow> (\<And>x y. f x = Inr y \<Longrightarrow> P y) \<Longrightarrow> \<forall>y \<in> set ys. P y"
  by (induction xs arbitrary: ys) (auto simp: res_bind_Inr_iff)

lemma ceiling_from_dict_good:
  "ceiling_from_dict j = Inr ce \<Longrightarrow> \<forall>i \<in> set_option (ce_max_tokens ce) \<union> set_option (ce_max_runs ce). 1 \<le> i"
  by (auto simp: ceiling_from_dict_def res_bind_Inr_iff dest!: pos_int_or_none_Inr)

lemma loop_config_from_dict_good:
  "loop_config_from_dict fo j = Inr dc \<Longrightarrow>
     (\<forall>i \<in> set_option (lc_max_ticks dc) \<union> set_option (lc_idle_timeout dc). 1 \<le> i) \<and> lc_target_ref dc \<noteq> []"
  by (auto simp: loop_config_from_dict_def res_bind_Inr_iff nonempty_str_Inr dest!: pos_int_or_none_Inr)

text \<open>Every run of an accepted manifest finds a slot in an idle pool.\<close>

lemma idle_slot:
  assumes "good_pool p" and "\<not> unknown_affinity p s" and "sp_affinity s \<noteq> Some []"
  shows "\<exists>slot \<in> set (po_slots p). pick_slot s (po_slots p) p [] = Some slot"
proof (cases "sp_affinity s")
  case None
  from assms(1) obtain x xs where "po_slots p = x # xs" by (cases "po_slots p") (auto simp: good_pool_def)
  with None show ?thesis by (simp add: pick_slot_def)
next
  case (Some a)
  with assms(2,3) obtain slot where slot: "map_of (po_affinity p) a = Some slot" "a \<noteq> []"
    by (auto simp: unknown_affinity_def)
  then have "slot \<in> set (po_slots p)" using assms(1) by (auto simp: good_pool_def dest: map_of_SomeD)
  with slot Some show ?thesis by (auto simp: pick_slot_def)
qed

text \<open>
  the type of an accepted manifest: its program is one the validator accepts, every run carries
  the closed settings of its own mode, the pool has distinct non-empty slots and its labels lead
  to them, both ceilings and both loop bounds are at least one or absent, the repository of every
  run is its tool, and every run, with its label, finds a slot in the idle pool, so that none can
  starve unseen.
\<close>

theorem accepted_manifest_type:
  assumes "load_fleet_manifest fo m raw = Inr mf"
  shows "mf_program mf \<noteq> [] \<and> valid_program m (mf_program mf) \<and> good_pool (mf_pool mf) \<and>
    (\<forall>s \<in> set (mf_program mf). good_spec s \<and> map_of (mf_repos mf) (sp_run_id s) = Some (path_of (sp_tool s)) \<and>
       (\<exists>slot \<in> set (po_slots (mf_pool mf)). pick_slot s (po_slots (mf_pool mf)) (mf_pool mf) [] = Some slot)) \<and>
    (\<forall>i \<in> set_option (ce_max_tokens (mf_ceiling mf)) \<union> set_option (ce_max_runs (mf_ceiling mf)) \<union>
       set_option (lc_max_ticks (mf_daemon mf)) \<union> set_option (lc_idle_timeout (mf_daemon mf)). 1 \<le> i) \<and>
    lc_target_ref (mf_daemon mf) \<noteq> []"
proof -
  from assms obtain d x xs errors p ce dc where
    runs: "res_map spec_from_dict (x # xs) = Inr (mf_program mf)" and
    val: "validate_program m (mf_program mf) = Inr (True, errors)" and
    pool: "pool_from_dict p = Inr (mf_pool mf)" "\<not> list_ex (unknown_affinity (mf_pool mf)) (mf_program mf)" and
    ce: "ceiling_from_dict ce = Inr (mf_ceiling mf)" and dc: "loop_config_from_dict fo dc = Inr (mf_daemon mf)" and
    repos: "mf_repos mf = dict_of (map (\<lambda>s. (sp_run_id s, path_of (sp_tool s))) (mf_program mf))"
    unfolding load_fleet_manifest_def res_bind_Inr_iff
    by (elim exE conjE) (auto simp: res_bind_Inr_iff simp del: res_map.simps split: if_splits json.splits list.splits option.splits)
  have valid: "valid_program m (mf_program mf)" using validate_program_valid [OF val] by simp
  have "map_of (mf_repos mf) (sp_run_id s) = Some (path_of (sp_tool s))" if "s \<in> set (mf_program mf)" for s
  proof -
    have dist: "distinct (map sp_run_id (mf_program mf))" using valid by (simp add: valid_program_def)
    then have "mf_repos mf = map (\<lambda>s. (sp_run_id s, path_of (sp_tool s))) (mf_program mf)"
      unfolding repos by (intro dict_of_distinct) (simp add: comp_def)
    then show ?thesis using that dist by (auto simp: map_of_eq_Some_iff comp_def image_iff)
  qed
  moreover have good: "\<forall>s \<in> set (mf_program mf). good_spec s" by (rule res_map_all [OF runs spec_from_dict_good])
  moreover have "mf_program mf \<noteq> []" using res_map_length [OF runs] by auto
  moreover have "\<exists>slot \<in> set (po_slots (mf_pool mf)). pick_slot s (po_slots (mf_pool mf)) (mf_pool mf) [] = Some slot"
    if "s \<in> set (mf_program mf)" for s
    using that good pool(2) idle_slot [OF pool_from_dict_good [OF pool(1)]] by (auto simp: list_ex_iff good_spec_def)
  ultimately show ?thesis using valid pool_from_dict_good [OF pool(1)] ceiling_from_dict_good [OF ce] loop_config_from_dict_good [OF dc]
    by blast
qed

definition sample_floats :: floats where
  "sample_floats = \<lparr>fo_nonpos = \<lambda>x. startswith x ''-'' \<or> x = ''0.0'', fo_of_int = \<lambda>i. Inr ''1.0''\<rparr>"

definition sample_manifest :: json where
  "sample_manifest = JObj
     [(''runs'', JList [JObj [(''run_id'', JStr ''a''), (''tool'', JStr ''/tool''), (''mode'', JStr ''develop'')],
        JObj [(''run_id'', JStr ''b''), (''tool'', JStr ''/tool/''), (''mode'', JStr ''develop''),
          (''depends_on'', JList [JStr ''a'']), (''affinity'', JStr ''gpu''), (''budget'', JObj [(''max_tokens'', JInt 9)])]]),
      (''pool'', JObj [(''slots'', JList [JStr ''s1'', JStr ''s2'']), (''affinity'', JObj [(''gpu'', JStr ''s2'')])]),
      (''ceiling'', JObj [(''max_runs'', JInt 2)])]"

lemma sample_manifest_ok: "\<not> isl (load_fleet_manifest sample_floats sample_machine sample_manifest)"
  by code_simp

theorem accepted_manifest_type_witness:
  "\<exists>mf. load_fleet_manifest sample_floats sample_machine sample_manifest = Inr mf \<and>
     valid_program sample_machine (mf_program mf) \<and> good_pool (mf_pool mf)"
proof -
  from sample_manifest_ok obtain mf where mf: "load_fleet_manifest sample_floats sample_machine sample_manifest = Inr mf"
    by (cases "load_fleet_manifest sample_floats sample_machine sample_manifest") auto
  from accepted_manifest_type [OF mf] mf show ?thesis by blast
qed

end
