(* ===== verification/Json_Indent.thy ===== *)
theory Json_Indent
  imports Json_Roundtrip
begin

text \<open>
  \<open>json.dumps(x, indent=n)\<close>: one element or member a line, indented by its depth. The program keeps
  its state files in this form. What it writes reads back as well, by the same two lemmas on elements and members.
\<close>

definition new_line :: "nat \<Rightarrow> nat \<Rightarrow> string" where
  "new_line n d = CHR 0x0A # replicate (n * d) CHR '' ''"

fun dumps_at :: "nat \<Rightarrow> nat \<Rightarrow> json \<Rightarrow> string" where
  "dumps_at n d (JList xs) =
     (if xs = [] then ''[]''
      else ''['' @ new_line n (d + 1) @ joins (CHR '','' # new_line n (d + 1)) (map (dumps_at n (d + 1)) xs) @ new_line n d @ '']'')"
| "dumps_at n d (JObj kvs) =
     (if kvs = [] then ''{}''
      else ''{'' @ new_line n (d + 1) @
        joins (CHR '','' # new_line n (d + 1)) (map (\<lambda>(k, v). show_str k @ '': '' @ dumps_at n (d + 1) v) kvs) @ new_line n d @ ''}'')"
| "dumps_at n d JNull = ''null''"
| "dumps_at n d (JBool b) = (if b then ''true'' else ''false'')"
| "dumps_at n d (JInt i) = show_int i"
| "dumps_at n d (JFloat t) = t"
| "dumps_at n d (JStr s) = show_str s"

definition dumps_indent :: "nat \<Rightarrow> json \<Rightarrow> string" where
  "dumps_indent n j = dumps_at n 0 j"

lemma new_line_ws: "list_all is_ws (new_line n d)"
  by (auto simp: new_line_def list_all_iff is_ws_def byte_def)

lemma space_ws: "list_all is_ws '' ''"
  by (simp add: is_ws_def byte_def)

lemma dumps_at_scalar: "is_scalar j \<Longrightarrow> dumps_at n d j = dumps '','' '':'' j"
  by (cases j) (simp_all add: is_scalar_def)

lemma dumps_at_starts:
  assumes "json_ok j" shows "starts_value (dumps_at n d j)"
proof (cases "is_scalar j")
  case True
  with dumps_starts [OF assms, of "'',''" "'':''"] show ?thesis by (simp add: dumps_at_scalar)
next
  case False
  then show ?thesis by (cases j) (simp_all add: is_scalar_def starts_value_def show_str_def)
qed

lemma dumps_at_reads: "json_ok j \<Longrightarrow> reads (dumps_at n d) j"
proof (induction j arbitrary: d)
  case (JList xs)
  have "reads_well (dumps_at n (d + 1)) x" if "x \<in> set xs" for x
    using JList that dumps_at_starts by (auto simp: list_all_iff reads_well_def)
  then show ?case by (intro list_reads_text [where b = "new_line n (d + 1)" and w = "new_line n (d + 1)" and e = "new_line n d" and p = "dumps_at n (d + 1)", OF _ new_line_ws new_line_ws new_line_ws]) simp_all
next
  case (JObj kvs)
  have "reads_well (dumps_at n (d + 1)) v" if "(k, v) \<in> set kvs" for k v
    using JObj that dumps_at_starts by (force simp: list_all_iff reads_well_def)
  then show ?case using JObj.prems
    by (intro obj_reads_text [where b = "new_line n (d + 1)" and w = "new_line n (d + 1)" and e = "new_line n d" and p = "dumps_at n (d + 1)", OF _ new_line_ws space_ws new_line_ws new_line_ws]) simp_all
qed (simp_all add: scalar_reads_text [of _ _ "'',''" "'':''"] str_reads_text is_scalar_def)

theorem loads_dumps_indent:
  assumes "json_ok j"
  shows "loads (dumps_indent n j) = Inr j"
proof -
  let ?t = "dumps_indent n j"
  have "read_val (2 * length ?t + 2) ?t = Some (j, [])"
    using dumps_at_reads [OF assms, of n 0] unfolding reads_def dumps_indent_def
    by (metis append_Nil2 delim_simps(1) le_add1)
  moreover have "skip ?t = ?t"
    using dumps_at_starts [OF assms, of n 0] by (simp add: dumps_indent_def skip_start starts_value_def)
  ultimately show ?thesis
    by (simp add: loads_def skip_def del: read_val.simps)
qed

section \<open>Plain text\<close>

text \<open>Text that \<open>ensure_ascii\<close> leaves as it is.\<close>

definition plain :: "string \<Rightarrow> bool" where
  "plain s \<longleftrightarrow> list_all (\<lambda>c. byte c < 127) s"

lemma ascii_text_plain: "plain t \<Longrightarrow> ascii_text t = t"
  by (induction t) (auto simp: plain_def)

lemma plain_simps [simp]: "plain []" "plain (c # s) \<longleftrightarrow> byte c < 127 \<and> plain s" "plain (a @ b) \<longleftrightarrow> plain a \<and> plain b"
  by (auto simp: plain_def)

lemma plain_hex_digit: "d < 16 \<Longrightarrow> byte (hex_digit d) < 127"
  by (auto simp: hex_digit_def byte_char_of)

lemma plain_all_chars:
  "byte CHR 0x22 < 127" "byte CHR 0x5C < 127" "byte CHR ''n'' < 127" "byte CHR ''r'' < 127" "byte CHR ''t'' < 127"
  "byte CHR ''f'' < 127" "byte CHR ''b'' < 127" "byte CHR ''u'' < 127" "byte CHR ''0'' < 127" "byte CHR ''-'' < 127"
  by (simp_all add: byte_def)

lemma plain_esc: "byte c < 127 \<Longrightarrow> plain (esc c)"
  by (simp add: esc_def plain_all_chars plain_hex_digit del: One_nat_def)

lemma plain_show_str: "plain s \<Longrightarrow> plain (show_str s)"
proof -
  have "plain s \<Longrightarrow> plain (concat (map esc s))" by (induction s) (auto simp: plain_esc)
  then show "plain s \<Longrightarrow> plain (show_str s)" by (simp add: show_str_def plain_all_chars)
qed

lemma plain_joins: "plain sep \<Longrightarrow> \<forall>x \<in> set xs. plain x \<Longrightarrow> plain (joins sep xs)"
  by (induction sep xs rule: joins.induct) auto

lemma plain_show_nat: "plain (show_nat n)"
proof (induction n rule: show_nat.induct)
  case (1 n)
  have "byte (digit d) < 127" if "d < 10" for d using that by (simp add: digit_def byte_char_of)
  with 1 show ?case by (subst show_nat.simps) (simp add: plain_def)
qed

fun plain_json :: "json \<Rightarrow> bool" where
  "plain_json (JStr s) = plain s"
| "plain_json (JFloat t) = plain t"
| "plain_json (JList xs) = list_all plain_json xs"
| "plain_json (JObj kvs) = list_all (\<lambda>(k, v). plain k \<and> plain_json v) kvs"
| "plain_json _ = True"

lemma dumps_plain:
  assumes "plain is" and "plain ks"
  shows "plain_json j \<Longrightarrow> plain (dumps is ks j)"
proof (induction j)
  case (JInt i)
  show ?case by (simp add: show_int_def plain_show_nat plain_all_chars)
next
  case (JList xs)
  then have "\<forall>x \<in> set (map (dumps is ks) xs). plain x" by (auto simp: list_all_iff)
  with plain_joins [OF assms(1)] show ?case by (simp add: byte_def)
next
  case (JObj kvs)
  have "plain (show_str k @ ks @ dumps is ks v)" if "(k, v) \<in> set kvs" for k v
    using JObj that assms(2) by (auto simp: list_all_iff intro!: plain_show_str)
  then have "\<forall>x \<in> set (map (\<lambda>(k, v). show_str k @ ks @ dumps is ks v) kvs). plain x" by auto
  with plain_joins [OF assms(1)] show ?case by (simp add: byte_def)
qed (auto simp: plain_show_str byte_def)

lemma plain_new_line: "plain (new_line n d)"
  by (auto simp: new_line_def plain_def byte_def list_all_iff)

lemma dumps_at_plain: "plain_json j \<Longrightarrow> plain (dumps_at n d j)"
proof (induction j arbitrary: d)
  case (JInt i)
  show ?case by (simp add: show_int_def plain_show_nat plain_all_chars)
next
  case (JList xs)
  then have "\<forall>x \<in> set (map (dumps_at n (d + 1)) xs). plain x" by (auto simp: list_all_iff)
  with plain_joins [of "CHR '','' # new_line n (d + 1)"] show ?case by (simp add: plain_new_line byte_def)
next
  case (JObj kvs)
  have "plain (show_str k @ '': '' @ dumps_at n (d + 1) v)" if "(k, v) \<in> set kvs" for k v
    using JObj that by (auto simp: list_all_iff byte_def intro!: plain_show_str)
  then have "\<forall>x \<in> set (map (\<lambda>(k, v). show_str k @ '': '' @ dumps_at n (d + 1) v) kvs). plain x" by auto
  with plain_joins [of "CHR '','' # new_line n (d + 1)"] show ?case by (simp add: plain_new_line byte_def)
qed (auto simp: plain_show_str byte_def)

text \<open>With \<open>ensure_ascii\<close>, as the state files are written, plain text comes back as it was.\<close>

theorem loads_state_text:
  assumes "json_ok j" and "plain_json j"
  shows "loads (ascii_text (dumps_indent n j)) = Inr j"
  using loads_dumps_indent [OF assms(1), of n] dumps_at_plain [OF assms(2), of n 0]
  by (simp add: ascii_text_plain dumps_indent_def)

end
