(* ===== verification/FleetChild.thy ===== *)
theory FleetChild
  imports Converge Program Effects Json_Indent
begin

text \<open>
  The child process of a slot: \<open>peers/fleet/run_one.py\<close>, the builders of
  \<open>peers/fleet/builders.py\<close> it finds its frontend in, and the arguments \<open>build_run_one_argv\<close> of
  \<open>peers/fleet/slot_runner.py\<close> passes it. Git, files and the workspace provider are parameters;
  so is what the builders assemble a frontend from, once they have validated their settings.
\<close>

section \<open>The arguments of a child\<close>

definition spec_payload :: "spec \<Rightarrow> string \<Rightarrow> raw res" where
  "spec_payload sp base =
     (case sp_op_config sp of
        None \<Rightarrow> Inl AttributeError
      | Some cfg \<Rightarrow>
          res_bind (spec_branch sp) (\<lambda>b.
            Inr [(''run_id'', JStr (sp_run_id sp)), (''tool'', JStr (sp_tool sp)), (''mode'', JStr (sp_mode sp)),
                 (''op_config'', op_config_to_dict cfg), (''base_sha'', JStr base), (''branch'', ostr b)]))"

definition build_run_one_argv :: "string \<Rightarrow> spec \<Rightarrow> string \<Rightarrow> string list res" where
  "build_run_one_argv executable sp base =
     res_bind (spec_payload sp base) (\<lambda>d.
       Inr [executable, ''-m'', ''peers.fleet.run_one'', ''--spec'', ascii_text (dumps '', '' '': '' (JObj d))])"

section \<open>Reading the specification\<close>

definition required_fields :: "string list" where
  "required_fields = [''run_id'', ''tool'', ''mode'', ''op_config'', ''base_sha'']"

definition is_hex_char :: "char \<Rightarrow> bool" where
  "is_hex_char c \<longleftrightarrow> is_digit c \<or> 65 \<le> byte c \<and> byte c \<le> 70 \<or> 97 \<le> byte c \<and> byte c \<le> 102"

text \<open>\<open>^[0-9a-fA-F]{40}$\<close> with \<open>match\<close>: the \<open>$\<close> also matches before a final newline.\<close>

definition sha_re :: "string \<Rightarrow> bool" where
  "sha_re s \<longleftrightarrow> list_all is_hex_char (take 40 s) \<and> 40 \<le> length s \<and> drop 40 s \<in> {[], [nl]}"

definition safe_component :: "json \<Rightarrow> bool" where
  "safe_component j =
     (case j of JStr s \<Rightarrow> s \<noteq> [] \<and> s \<notin> {''.'', ''..''} \<and> CHR ''/'' \<notin> set s \<and> CHR 0x5C \<notin> set s \<and> CHR 0x00 \<notin> set s
      | _ \<Rightarrow> False)"

definition parse_spec :: "(string \<Rightarrow> bool) \<Rightarrow> string \<Rightarrow> raw res" where
  "parse_spec is_dir text =
     (case loads text of
        Inl e \<Rightarrow> if is_value_error e \<or> e = TypeError then Inl ValueError else Inl e
      | Inr (JObj d) \<Rightarrow>
          if list_ex (\<lambda>k. map_of d k = None) required_fields then Inl ValueError
          else if \<not> is_obj (jget d ''op_config'') then Inl ValueError
          else if \<not> safe_component (jget d ''run_id'') then Inl ValueError
          else if \<not> (case jget d ''base_sha'' of JStr s \<Rightarrow> sha_re s | _ \<Rightarrow> False) then Inl ValueError
          else if \<not> (case jget d ''tool'' of JStr t \<Rightarrow> t \<noteq> [] \<and> is_dir t | _ \<Rightarrow> False) then Inl ValueError
          else Inr d
      | Inr _ \<Rightarrow> Inl ValueError)"

section \<open>The registry of frontend builders\<close>

type_synonym 's registry = "(string \<times> (raw \<Rightarrow> ('s frontend \<times> 's) res)) list"

definition register_builder :: "string \<Rightarrow> (raw \<Rightarrow> ('s frontend \<times> 's) res) \<Rightarrow> 's registry \<Rightarrow> 's registry" where
  "register_builder mode b reg = dict_set reg mode b"

text \<open>
  \<open>PEERS_FLEET_BUILDERS\<close>: importing and installing a module is the parameter \<open>plugin\<close>; one that
  raises leaves the registry as it was before.
\<close>

definition builder_names :: "string \<Rightarrow> string list" where
  "builder_names text = filter (\<lambda>n. n \<noteq> []) (map strip (split_on (CHR '','') text))"

definition load_env_builders :: "(string \<Rightarrow> ('s registry, unit) act) \<Rightarrow> string \<Rightarrow> 's registry \<Rightarrow> 's registry" where
  "load_env_builders plugin text reg =
     foldl (\<lambda>r n. case plugin n r of (Inl _, _) \<Rightarrow> r | (Inr _, r') \<Rightarrow> r') reg (builder_names text)"

definition default_factory :: "'s registry \<Rightarrow> raw \<Rightarrow> ('s frontend \<times> 's) res" where
  "default_factory reg d =
     (case jget d ''mode'' of
        JStr m \<Rightarrow> (case map_of reg m of None \<Rightarrow> Inl UnsupportedFleetMode | Some b \<Rightarrow> b d)
      | _ \<Rightarrow> Inl UnsupportedFleetMode)"

section \<open>The builders in the tree\<close>

record develop_args =
  da_repo :: string
  da_dimensions :: "string list"
  da_argv :: "string list"
  da_peer :: string
  da_budget :: int
  da_stdin :: bool

record research_args =
  ra_repo :: string
  ra_modalities :: "string list"
  ra_argv :: "string list"
  ra_peer :: string
  ra_stdin :: bool

record find_bugs_args =
  fa_repo :: string
  fa_input :: string
  fa_fuzz_binary :: string
  fa_argv :: "json list"
  fa_ladder :: string
  fa_peer :: string
  fa_stdin :: bool
  fa_bug_id :: json
  fa_expected :: json

record 's assembly =
  as_develop :: "develop_args \<Rightarrow> 's frontend \<times> 's"
  as_research :: "research_args \<Rightarrow> 's frontend \<times> 's"
  as_find_bugs :: "find_bugs_args \<Rightarrow> 's frontend \<times> 's"

text \<open>A non-empty list of strings, a non-empty string, and an \<open>int\<close> (which a \<open>bool\<close> is).\<close>

definition str_list :: "json \<Rightarrow> string list option" where
  "str_list j =
     (case j of
        JList xs \<Rightarrow> if xs \<noteq> [] \<and> list_all is_str xs
                   then Some (map (\<lambda>x. case x of JStr s \<Rightarrow> s | _ \<Rightarrow> []) xs) else None
      | _ \<Rightarrow> None)"

definition str_or :: "string \<Rightarrow> json \<Rightarrow> string" where
  "str_or dflt j = (case j of JStr s \<Rightarrow> if s = [] then dflt else s | _ \<Rightarrow> dflt)"

definition int_or :: "int \<Rightarrow> json \<Rightarrow> int" where
  "int_or dflt j =
     (case j of JInt i \<Rightarrow> if 1 \<le> i then i else dflt | JBool b \<Rightarrow> if b then 1 else dflt | _ \<Rightarrow> dflt)"

definition tool_of :: "raw \<Rightarrow> string res" where
  "tool_of d = (case map_of d ''tool'' of None \<Rightarrow> Inl KeyError | Some j \<Rightarrow> (case j of JStr s \<Rightarrow> Inr s | _ \<Rightarrow> Inl TypeError))"

definition build_develop :: "'s assembly \<Rightarrow> raw \<Rightarrow> ('s frontend \<times> 's) res" where
  "build_develop asm d =
     (case jget d ''develop'' of
        JObj cfg \<Rightarrow>
          (case str_list (jget cfg ''dimensions'') of
             None \<Rightarrow> Inl UnsupportedFleetMode
           | Some dims \<Rightarrow>
               (case str_list (jget cfg ''argv'') of
                  None \<Rightarrow> Inl UnsupportedFleetMode
                | Some argv \<Rightarrow> res_bind (tool_of d) (\<lambda>repo.
                    Inr (as_develop asm \<lparr>da_repo = repo, da_dimensions = dims, da_argv = argv,
                      da_peer = str_or ''develop'' (jget cfg ''peer''),
                      da_budget = int_or 5 (jget_default cfg ''convergence_budget'' (JInt 5)),
                      da_stdin = (jget cfg ''prompt_mode'' = JStr ''stdin'')\<rparr>))))
      | _ \<Rightarrow> Inl UnsupportedFleetMode)"

definition build_research :: "'s assembly \<Rightarrow> raw \<Rightarrow> ('s frontend \<times> 's) res" where
  "build_research asm d =
     (case jget d ''research'' of
        JObj cfg \<Rightarrow>
          (case str_list (jget cfg ''modalities'') of
             None \<Rightarrow> Inl UnsupportedFleetMode
           | Some mods \<Rightarrow>
               (case str_list (jget cfg ''argv'') of
                  None \<Rightarrow> Inl UnsupportedFleetMode
                | Some argv \<Rightarrow> res_bind (tool_of d) (\<lambda>repo.
                    Inr (as_research asm \<lparr>ra_repo = repo, ra_modalities = mods, ra_argv = argv,
                      ra_peer = str_or ''research'' (jget cfg ''peer''),
                      ra_stdin = (jget cfg ''prompt_mode'' = JStr ''stdin'')\<rparr>))))
      | _ \<Rightarrow> Inl UnsupportedFleetMode)"

definition ladder_of :: "json \<Rightarrow> string" where
  "ladder_of j =
     (case j of JStr s \<Rightarrow> if s \<in> {''llm_assisted'', ''llm_free''} then s else ''llm_assisted'' | _ \<Rightarrow> ''llm_assisted'')"

definition given_text :: "json \<Rightarrow> string option" where
  "given_text j = (case j of JStr s \<Rightarrow> if s = [] then None else Some s | _ \<Rightarrow> None)"

text \<open>
  \<open>eff_argv\<close> is the list as given when it is a non-empty list: with the ladder \<open>llm_free\<close> the
  items are not checked.
\<close>

definition eff_argv :: "json \<Rightarrow> json list" where
  "eff_argv j = (case j of JList xs \<Rightarrow> if xs \<noteq> [] then xs else [JStr ''true''] | _ \<Rightarrow> [JStr ''true''])"

definition build_find_bugs :: "'s assembly \<Rightarrow> raw \<Rightarrow> ('s frontend \<times> 's) res" where
  "build_find_bugs asm d =
     (case jget d ''find-bugs'' of
        JObj cfg \<Rightarrow>
          (let ladder = ladder_of (jget cfg ''ladder''); argv = str_list (jget cfg ''argv'') in
           case (given_text (jget cfg ''input''), given_text (jget cfg ''fuzz_binary'')) of
             (Some seed, Some fuzz) \<Rightarrow>
               if ladder \<noteq> ''llm_free'' \<and> argv = None then Inl UnsupportedFleetMode
               else res_bind (tool_of d) (\<lambda>repo.
                 Inr (as_find_bugs asm \<lparr>fa_repo = repo, fa_input = seed, fa_fuzz_binary = fuzz,
                   fa_argv = eff_argv (jget cfg ''argv''), fa_ladder = ladder,
                   fa_peer = str_or ''find-bugs'' (jget cfg ''peer''),
                   fa_stdin = (jget cfg ''prompt_mode'' = JStr ''stdin''),
                   fa_bug_id = jget cfg ''bug_id'', fa_expected = jget cfg ''expected_function''\<rparr>))
           | _ \<Rightarrow> Inl UnsupportedFleetMode)
      | _ \<Rightarrow> Inl UnsupportedFleetMode)"

definition install :: "'s assembly \<Rightarrow> 's registry \<Rightarrow> 's registry" where
  "install asm reg =
     register_builder ''find-bugs:reproduce'' (build_find_bugs asm)
       (register_builder ''research'' (build_research asm) (register_builder ''develop'' (build_develop asm) reg))"

section \<open>What outlives the worktree\<close>

record 'w child_host =
  ch_mkdir :: "string \<Rightarrow> ('w, unit) act"
  ch_copy :: "ledger_file \<Rightarrow> string \<Rightarrow> ('w, unit) act"
  ch_git :: "string \<Rightarrow> string list \<Rightarrow> ('w, proc) act"
  ch_write :: "string \<Rightarrow> string \<Rightarrow> ('w, unit) act"

definition stable_dir :: "string \<Rightarrow> string \<Rightarrow> string" where
  "stable_dir repo rid = repo @ ''/.peers/fleet-runs/'' @ rid"

definition fleet_ref :: "string \<Rightarrow> string" where
  "fleet_ref rid = ''refs/peers/fleet/'' @ rid"

definition real_tip :: "'w child_host \<Rightarrow> string \<Rightarrow> string \<Rightarrow> ('w, string option) act" where
  "real_tip ch repo branch =
     (if branch = [] then ret None
      else act_bind (ch_git ch repo [''rev-parse'', ''--verify'', ''--quiet'', branch @ ''^{commit}'']) (\<lambda>(rc, out).
        ret (if rc = 0 \<and> py_len (strip out) = 40 then Some (strip out) else None)))"

definition pin_tip :: "'w child_host \<Rightarrow> string \<Rightarrow> string \<Rightarrow> string option \<Rightarrow> ('w, bool) act" where
  "pin_tip ch repo rid t =
     (case t of None \<Rightarrow> ret False
      | Some sha \<Rightarrow> act_bind (ch_git ch repo [''update-ref'', fleet_ref rid, sha]) (\<lambda>(rc, _). ret (rc = 0)))"

definition claimed_commit :: "ledger_file \<Rightarrow> string option res" where
  "claimed_commit f =
     (case read f of
        Inl e \<Rightarrow> if e = OSError \<or> is_value_error e then Inr None else Inl e
      | Inr rows \<Rightarrow> Inr (converged_commit rows))"

definition fleet_record :: "string \<Rightarrow> string \<Rightarrow> workspace \<Rightarrow> string option \<Rightarrow> string option \<Rightarrow> bool \<Rightarrow> raw" where
  "fleet_record repo rid ws converged t pinned =
     [(''run_id'', JStr rid), (''branch'', JStr (ws_branch ws)), (''base_sha'', JStr (ws_base_sha ws)),
      (''converged_commit'', ostr converged), (''real_tip'', ostr t),
      (''ledger_path'', JStr (stable_dir repo rid @ ''/run.jsonl'')),
      (''ref'', if pinned then JStr (fleet_ref rid) else JNull)]"

definition persist_fleet_run :: "'w child_host \<Rightarrow> string \<Rightarrow> string \<Rightarrow> ledger_file \<Rightarrow> workspace \<Rightarrow> ('w, unit) act" where
  "persist_fleet_run ch repo rid f ws =
     act_bind (ch_mkdir ch (stable_dir repo rid)) (\<lambda>_.
     act_bind (if f = None then ret () else ch_copy ch f (stable_dir repo rid @ ''/run.jsonl'')) (\<lambda>_.
     act_bind (real_tip ch repo (ws_branch ws)) (\<lambda>t.
     act_bind (pin_tip ch repo rid t) (\<lambda>pinned.
     act_bind (act_res (claimed_commit f)) (\<lambda>converged.
       ch_write ch (stable_dir repo rid @ ''/record.json'')
         (ascii_text (dumps '', '' '': '' (JObj (fleet_record repo rid ws converged t pinned)))))))))"

section \<open>Running the child\<close>

definition lease_drive_persist ::
  "hash \<Rightarrow> 'w child_host \<Rightarrow> 'w provider \<Rightarrow> string \<Rightarrow> string \<Rightarrow> string \<Rightarrow> op_config \<Rightarrow> 's frontend \<Rightarrow> 's \<Rightarrow> ('w, unit) act" where
  "lease_drive_persist H ch pv repo rid base cfg fe s w =
     (case pv_acquire pv rid (Some base) w of
        (Inl e, w1) \<Rightarrow> (Inl e, w1)
      | (Inr (ws, f), w1) \<Rightarrow>
          (case drive H fe \<lparr>mr_tool = ws_path ws, mr_op_config = cfg, mr_ledger = f, mr_mode_run = rid,
                  mr_branch = Some (ws_branch ws), mr_base_sha = Some (ws_base_sha ws)\<rparr> s of
             (Inl e, s', f') \<Rightarrow> (Inl e, pv_release pv ws f' w1)
           | (Inr _, s', f') \<Rightarrow>
               (case persist_fleet_run ch repo rid f' ws w1 of (r, w2) \<Rightarrow> (r, pv_release pv ws f' w2))))"

definition field_str :: "raw \<Rightarrow> string \<Rightarrow> string" where
  "field_str d k = (case jget d k of JStr s \<Rightarrow> s | _ \<Rightarrow> [])"

text \<open>\<open>main\<close>: the exit code. What a builder raises besides \<open>UnsupportedFleetMode\<close> leaves it.\<close>

definition child_main ::
  "hash \<Rightarrow> 'w child_host \<Rightarrow> (string \<Rightarrow> bool) \<Rightarrow> 's registry \<Rightarrow> 'w provider \<Rightarrow> string \<Rightarrow> ('w, int) act" where
  "child_main H ch is_dir reg pv text =
     (case parse_spec is_dir text of
        Inl e \<Rightarrow> if is_value_error e then ret 2 else raise_exc e
      | Inr d \<Rightarrow>
          (case default_factory reg d of
             Inl e \<Rightarrow> if e = UnsupportedFleetMode then ret 2 else raise_exc e
           | Inr (fe, s) \<Rightarrow>
               (case op_config_from_dict (jget d ''op_config'') of
                  Inl e \<Rightarrow> if is_value_error e then ret 2 else raise_exc e
                | Inr cfg \<Rightarrow>
                    act_bind (act_catch (lease_drive_persist H ch pv (field_str d ''tool'') (field_str d ''run_id'')
                        (field_str d ''base_sha'') cfg fe s)) (\<lambda>r. case r of Inl _ \<Rightarrow> ret 1 | Inr _ \<Rightarrow> ret 0))))"

section \<open>The specification survives the trip\<close>

lemma config_dict_roundtrip:
  assumes "op_config_from_dict j = Inr cfg"
  shows "op_config_from_dict (op_config_to_dict cfg) = Inr cfg"
proof -
  have c: "oc_mode cfg \<in> set allowed_modes \<and> oc_landing cfg \<noteq> [] \<and> 1 \<le> bu_max_rounds (oc_budget cfg) \<and>
      (\<forall>t. bu_max_tokens (oc_budget cfg) = Some t \<longrightarrow> 1 \<le> t) \<and> 1 \<le> oc_dry_n cfg"
    using assms
    by (auto simp: op_config_from_dict_def res_bind_Inr_iff positive_int_Inr nonempty_str_Inr known_mode_Inr
        split: json.splits if_splits dest!: budget_from_dict_Inr)
  then show ?thesis
    by (auto simp: op_config_from_dict_def op_config_to_dict_def keys_within_def deny_keys_def allowed_keys_def known_mode_def
        nonempty_str_def jget_default_def lookup_default_def bool_of_def budget_from_dict_def allowed_budget_keys_def
        positive_int_def oint_def split: option.splits)
qed

text \<open>A run whose texts are plain, launched for an existing tool at a full commit id.\<close>

definition launchable :: "(string \<Rightarrow> bool) \<Rightarrow> spec \<Rightarrow> string \<Rightarrow> bool" where
  "launchable is_dir sp base \<longleftrightarrow>
     plain (sp_run_id sp) \<and> plain (sp_tool sp) \<and> plain (sp_mode sp) \<and> plain base \<and>
     (\<forall>cfg. sp_op_config sp = Some cfg \<longrightarrow> plain (oc_mode cfg) \<and> plain (oc_landing cfg)) \<and>
     safe_component (JStr (sp_run_id sp)) \<and> sha_re base \<and> sp_tool sp \<noteq> [] \<and> is_dir (sp_tool sp)"

lemma payload_parses:
  assumes "build_run_one_argv exe sp base = Inr argv" and "launchable is_dir sp base"
  shows "\<exists>cfg b. sp_op_config sp = Some cfg \<and> parse_spec is_dir (argv ! 4) = Inr
    [(''run_id'', JStr (sp_run_id sp)), (''tool'', JStr (sp_tool sp)), (''mode'', JStr (sp_mode sp)),
     (''op_config'', op_config_to_dict cfg), (''base_sha'', JStr base), (''branch'', ostr b)]"
proof -
  from assms(1) obtain cfg b d where cfg: "sp_op_config sp = Some cfg" and b: "spec_branch sp = Inr b" and
    d: "d = [(''run_id'', JStr (sp_run_id sp)), (''tool'', JStr (sp_tool sp)), (''mode'', JStr (sp_mode sp)),
     (''op_config'', op_config_to_dict cfg), (''base_sha'', JStr base), (''branch'', ostr b)]" and
    argv: "argv ! 4 = ascii_text (dumps '', '' '': '' (JObj d))"
    by (auto simp: build_run_one_argv_def spec_payload_def res_bind_Inr_iff split: option.splits)
  have pb: "plain_json (ostr b)"
    using b assms(2) by (auto simp: spec_branch_def res_bind_Inr_iff workspace_names_Inr launchable_def run_branch_prefix_def
        split: if_splits) (simp_all add: byte_def)
  have "plain_json (JObj d)" using assms(2) cfg pb
    unfolding launchable_def d by (simp add: op_config_to_dict_def oint_def split: option.splits) (simp add: byte_def)
  then have "argv ! 4 = dumps '', '' '': '' (JObj d)"
    unfolding argv by (intro ascii_text_plain dumps_plain) (simp_all add: byte_def)
  moreover have "seps_ok '', '' '': ''" by (simp add: seps_ok_def is_ws_def byte_def)
  moreover have "json_ok (JObj d)" by (cases b) (simp_all add: d op_config_to_dict_def oint_def split: option.splits)
  ultimately have "loads (argv ! 4) = Inr (JObj d)" using loads_dumps [of "'', ''" "'': ''" "JObj d"] by simp
  then show ?thesis using assms(2) cfg
    by (auto simp: parse_spec_def d required_fields_def jget_def lookup_default_def launchable_def is_obj_def op_config_to_dict_def)
qed

text \<open>
  C34: what the parent writes on the command line is what the child reads: for a run with plain texts,
  a safe id, an existing tool and a full base commit, the serialised specification parses, with
  the same run id, tool, mode and base, and its op-config reads back as the very configuration
  the operator's intake had produced.
\<close>

theorem child_spec_roundtrip:
  assumes "build_run_one_argv exe sp base = Inr argv" and "launchable is_dir sp base"
    and "sp_op_config sp = Some cfg" and "op_config_from_dict j = Inr cfg"
  shows "\<exists>d. parse_spec is_dir (argv ! 4) = Inr d \<and> jget d ''run_id'' = JStr (sp_run_id sp) \<and> jget d ''tool'' = JStr (sp_tool sp) \<and>
    jget d ''mode'' = JStr (sp_mode sp) \<and> jget d ''base_sha'' = JStr base \<and>
    op_config_from_dict (jget d ''op_config'') = Inr cfg"
  using payload_parses [OF assms(1,2)] assms(3) config_dict_roundtrip [OF assms(4)]
  by (auto simp: jget_def lookup_default_def)

section \<open>No mode has its settings\<close>

text \<open>
  with the builders of the tree installed, no run of a fleet can execute: the arguments carry no
  block of mode settings and each builder requires its own, while \<open>bring-up\<close> has none; every child
  the process runner launches exits with code 2 before it leases anything.
\<close>

theorem fleet_child_always_refused:
  assumes "build_run_one_argv exe sp base = Inr argv" and "launchable is_dir sp base"
  shows "child_main H ch is_dir (install asm []) pv (argv ! 4) w = (Inr 2, w)"
proof -
  from payload_parses [OF assms] obtain cfg b where
    p: "parse_spec is_dir (argv ! 4) = Inr
    [(''run_id'', JStr (sp_run_id sp)), (''tool'', JStr (sp_tool sp)), (''mode'', JStr (sp_mode sp)),
     (''op_config'', op_config_to_dict cfg), (''base_sha'', JStr base), (''branch'', ostr b)]" by blast
  show ?thesis
    by (simp add: child_main_def p default_factory_def jget_def lookup_default_def install_def register_builder_def
        build_develop_def build_research_def build_find_bugs_def ret_def)
qed

section \<open>The anchor of a finished run\<close>

lemma pinned_tip:
  assumes "pin_tip ch repo rid t w = (Inr True, w')"
  shows "\<exists>sha out. t = Some sha \<and> ch_git ch repo [''update-ref'', fleet_ref rid, sha] w = (Inr (0, out), w')"
  using assms by (auto simp: pin_tip_def act_bind_Inr split: option.splits)

text \<open>
  the record a child leaves never names a phantom anchor: if it returns, the last thing written is
  the record, and its \<open>ref\<close> is the fleet ref only when \<open>update-ref\<close> has just succeeded for the tip
  that git itself resolved from the branch of the lease, 40 characters long; otherwise it is
  \<open>null\<close>.
\<close>

theorem record_ref_is_pinned:
  assumes "persist_fleet_run ch repo rid f ws w = (Inr (), w')"
  shows "\<exists>t conv pinned w1. ch_write ch (stable_dir repo rid @ ''/record.json'')
      (ascii_text (dumps '', '' '': '' (JObj (fleet_record repo rid ws conv t pinned)))) w1 = (Inr (), w') \<and>
    (jget (fleet_record repo rid ws conv t pinned) ''ref'' = (if pinned then JStr (fleet_ref rid) else JNull)) \<and>
    (pinned \<longrightarrow> (\<exists>sha w2 w3 w4 out1 out2. t = Some sha \<and> py_len sha = 40 \<and> sha = strip out1 \<and>
       ch_git ch repo [''rev-parse'', ''--verify'', ''--quiet'', ws_branch ws @ ''^{commit}''] w2 = (Inr (0, out1), w3) \<and>
       ch_git ch repo [''update-ref'', fleet_ref rid, sha] w4 = (Inr (0, out2), w1)))"
proof -
  from assms obtain t pinned conv w2 w3 w1 where
    t: "real_tip ch repo (ws_branch ws) w2 = (Inr t, w3)" and p: "pin_tip ch repo rid t w3 = (Inr pinned, w1)" and
    wr: "ch_write ch (stable_dir repo rid @ ''/record.json'')
      (ascii_text (dumps '', '' '': '' (JObj (fleet_record repo rid ws conv t pinned)))) w1 = (Inr (), w')"
    unfolding persist_fleet_run_def act_bind_Inr act_res_iff by blast
  have r: "jget (fleet_record repo rid ws conv t pinned) ''ref'' = (if pinned then JStr (fleet_ref rid) else JNull)"
    by (simp add: fleet_record_def jget_def lookup_default_def)
  have "pinned \<longrightarrow> (\<exists>sha w4 out1 out2. t = Some sha \<and> py_len sha = 40 \<and> sha = strip out1 \<and>
       ch_git ch repo [''rev-parse'', ''--verify'', ''--quiet'', ws_branch ws @ ''^{commit}''] w2 = (Inr (0, out1), w3) \<and>
       ch_git ch repo [''update-ref'', fleet_ref rid, sha] w4 = (Inr (0, out2), w1))"
    using t p by (auto simp: real_tip_def act_bind_Inr split: if_splits dest!: pinned_tip) blast
  with r wr show ?thesis by blast
qed

section \<open>One child\<close>

lemma sample_argv: "\<exists>argv. build_run_one_argv ''python3'' (sample_spec ''a'' []) sample_sha = Inr argv"
proof -
  have "\<not> isl (spec_payload (sample_spec ''a'' []) sample_sha)" by code_simp
  then show ?thesis by (cases "spec_payload (sample_spec ''a'' []) sample_sha") (auto simp: build_run_one_argv_def)
qed

lemma sample_launchable: "launchable (\<lambda>_. True) (sample_spec ''a'' []) sample_sha"
proof -
  have "sha_re sample_sha" "plain sample_sha" "safe_component (JStr ''a'')" by code_simp+
  then show ?thesis by (simp add: launchable_def sample_spec_def sample_config_def) (simp add: byte_def)
qed

theorem child_spec_roundtrip_witness:
  "\<exists>argv d. build_run_one_argv ''python3'' (sample_spec ''a'' []) sample_sha = Inr argv \<and>
     parse_spec (\<lambda>_. True) (argv ! 4) = Inr d \<and> op_config_from_dict (jget d ''op_config'') = Inr sample_config"
proof -
  from sample_argv obtain argv where argv: "build_run_one_argv ''python3'' (sample_spec ''a'' []) sample_sha = Inr argv" ..
  have "sp_op_config (sample_spec ''a'' []) = Some sample_config" by (simp add: sample_spec_def)
  from child_spec_roundtrip [OF argv sample_launchable this sample_intake_ok] argv show ?thesis by blast
qed

text \<open>A host that resolves every branch to one commit, and keeps what was written.\<close>

definition sample_child_host :: "string list child_host" where
  "sample_child_host = \<lparr>ch_mkdir = \<lambda>p w. (Inr (), w), ch_copy = \<lambda>f p w. (Inr (), w),
     ch_git = \<lambda>repo args w. (Inr (0, sample_sha), w @ [concat args]), ch_write = \<lambda>p t w. (Inr (), w @ [p])\<rparr>"

definition sample_assembly :: "unit assembly" where
  "sample_assembly = \<lparr>as_develop = \<lambda>a. (idle_mode, ()), as_research = \<lambda>a. (idle_mode, ()), as_find_bugs = \<lambda>a. (idle_mode, ())\<rparr>"

definition no_provider :: "string list provider" where
  "no_provider = \<lparr>pv_acquire = \<lambda>r b w. (Inl OSError, w), pv_release = \<lambda>ws f w. w\<rparr>"

theorem fleet_child_always_refused_witness:
  "\<exists>argv. build_run_one_argv ''python3'' (sample_spec ''a'' []) sample_sha = Inr argv \<and>
     child_main zero_hash sample_child_host (\<lambda>_. True) (install sample_assembly []) no_provider (argv ! 4) [] = (Inr 2, [])"
proof -
  from sample_argv obtain argv where argv: "build_run_one_argv ''python3'' (sample_spec ''a'' []) sample_sha = Inr argv" ..
  then show ?thesis by (intro exI conjI) (assumption, rule fleet_child_always_refused [OF _ sample_launchable])
qed

definition sample_lease :: workspace where
  "sample_lease = \<lparr>ws_path = ''/w'', ws_branch = ''peers/run/a'', ws_base_sha = sample_sha, ws_mode_run = ''a''\<rparr>"

lemma sample_persist: "\<exists>w. persist_fleet_run sample_child_host ''/tool'' ''a'' None sample_lease [] = (Inr (), w)"
proof -
  have "fst (persist_fleet_run sample_child_host ''/tool'' ''a'' None sample_lease []) = Inr ()" by code_simp
  then show ?thesis by (cases "persist_fleet_run sample_child_host ''/tool'' ''a'' None sample_lease []") auto
qed

lemma ex4_conj_drop: "\<exists>a b c d. P a b c d \<and> Q a b c d \<and> R a b c d \<Longrightarrow> \<exists>a b c d. P a b c d \<and> Q a b c d"
  by blast

lemma sample_dir: "stable_dir ''/tool'' ''a'' @ ''/record.json'' = ''/tool/.peers/fleet-runs/a/record.json''"
  by (simp add: stable_dir_def)

lemma sample_ref: "fleet_ref ''a'' = ''refs/peers/fleet/a''"
  by (simp add: fleet_ref_def)

theorem record_ref_is_pinned_witness:
  "\<exists>t conv pinned w1 w. ch_write sample_child_host ''/tool/.peers/fleet-runs/a/record.json''
      (ascii_text (dumps '', '' '': '' (JObj (fleet_record ''/tool'' ''a'' sample_lease conv t pinned)))) w1 = (Inr (), w) \<and>
     jget (fleet_record ''/tool'' ''a'' sample_lease conv t pinned) ''ref'' = (if pinned then JStr ''refs/peers/fleet/a'' else JNull)"
proof -
  from sample_persist obtain w where "persist_fleet_run sample_child_host ''/tool'' ''a'' None sample_lease [] = (Inr (), w)" ..
  from ex4_conj_drop [OF record_ref_is_pinned [OF this], unfolded sample_dir sample_ref]
  show ?thesis by (elim exE) (intro exI)
qed

end
