(* ===== verification/LoopState.thy ===== *)
theory LoopState
  imports Effects Json Complex_Main
begin

text \<open>
  The state of the two-peer loop, the dict behind \<open>.peers/state.json\<close> (\<open>peers/state_store.py\<close>,
  schema version 2), with one field per key the loop reads or writes. A key that may be absent is
  an option, or has the default the code reads it with. \<open>isinstance(x, int)\<close> tests on optional
  counters read a value that is no integer like an absent one, so \<open>None\<close> stands for both. Numbers
  that may be a Python \<open>float\<close> are rationals; an addition of two floats is a parameter where it rounds.
\<close>

text \<open>\<open>s[:n]\<close>, counted in characters.\<close>

fun py_take :: "nat \<Rightarrow> string \<Rightarrow> string" where
  "py_take n [] = []"
| "py_take n (c # cs) =
     (if cont_byte c then c # py_take n cs
      else case n of 0 \<Rightarrow> [] | Suc m \<Rightarrow> c # py_take m cs)"

text \<open>\<open>del xs[:-n]\<close> once there are more than \<open>n\<close>.\<close>

definition last_n :: "nat \<Rightarrow> 'a list \<Rightarrow> 'a list" where
  "last_n n xs = drop (length xs - n) xs"

lemma length_last_n [simp]: "length (last_n n xs) = min n (length xs)"
  by (simp add: last_n_def)

lemma set_last_n: "set (last_n n xs) \<subseteq> set xs"
  by (simp add: last_n_def set_drop_subset)

section \<open>The health of a peer\<close>

text \<open>An entry of \<open>recent_runs\<close>: \<open>True\<close>, \<open>False\<close> or a float; the loop itself writes no float but 0.5.\<close>

datatype mark = Ran | Failed | Credit rat

text \<open>Why a peer was degraded, as the text of \<open>degraded_reason\<close> says it.\<close>

datatype degrade_cause = RecentFails rat | CheatingReverts int

record last_run =
  lr_classification :: string
  lr_pattern :: string

record peer_health =
  ph_state :: "string option"
  ph_fails :: int
  ph_runs :: "mark list"
  ph_recent :: rat
  ph_reason :: "(degrade_cause \<times> string \<times> string) option"
  ph_degraded_at :: "int option"
  ph_cooldown :: "int option"
  ph_no_handoff :: bool
  ph_cheating :: int
  ph_prewarned :: bool
  ph_last_run :: "last_run option"
  ph_unavailable :: "(string \<times> int \<times> string) option"

definition default_health :: peer_health where
  "default_health =
     \<lparr>ph_state = Some ''healthy'', ph_fails = 0, ph_runs = [], ph_recent = 0, ph_reason = None,
      ph_degraded_at = None, ph_cooldown = None, ph_no_handoff = False, ph_cheating = 0,
      ph_prewarned = False, ph_last_run = None, ph_unavailable = None\<rparr>"

section \<open>The budget\<close>

text \<open>One entry of \<open>wasted_runtime_per_tick\<close>.\<close>

record waste =
  wa_iteration :: int
  wa_peer :: "string option"
  wa_duration :: int

record tick_budget =
  bu_max_iterations :: rat
  bu_max_runtime :: rat
  bu_max_failures :: rat
  bu_max_tokens :: "rat option"
  bu_max_usd :: "rat option"
  bu_usd_mode :: string
  bu_usd_warned :: "rat option"
  bu_iterations :: int
  bu_runtime :: int
  bu_failures :: int
  bu_tokens :: int
  bu_usd :: rat
  bu_wasted :: int
  bu_wasted_ticks :: "waste list"

definition default_budget :: tick_budget where
  "default_budget =
     \<lparr>bu_max_iterations = 200, bu_max_runtime = 6 * 3600, bu_max_failures = 5, bu_max_tokens = None,
      bu_max_usd = None, bu_usd_mode = ''hard'', bu_usd_warned = None, bu_iterations = 0, bu_runtime = 0,
      bu_failures = 0, bu_tokens = 0, bu_usd = 0, bu_wasted = 0, bu_wasted_ticks = []\<rparr>"

section \<open>The state\<close>

text \<open>What \<open>goals_status\<close> keeps of a gate.\<close>

record goal_status =
  gs_state :: string
  gs_diagnostic :: string
  gs_duration :: int

record loop_state =
  ls_iteration :: int
  ls_order :: "string list"
  ls_index :: nat
  ls_budget :: tick_budget
  ls_goals :: "(string \<times> goal_status) list"
  ls_stuck :: "(string \<times> int) list"
  ls_clean_ticks :: int
  ls_peers :: "(string \<times> peer_health) list"
  ls_roles :: "(string \<times> string) list"
  ls_warnings :: "string list"
  ls_config :: json
  ls_rate_streak :: int
  ls_phase :: "string option"
  ls_plan_steps :: "int option"
  ls_green_ticks :: int
  ls_phase_b_ticks :: int
  ls_convergence :: string
  ls_skeptic_at :: int
  ls_skeptic_pending :: bool

definition default_state :: "string list \<Rightarrow> loop_state" where
  "default_state order =
     \<lparr>ls_iteration = 0, ls_order = order, ls_index = 0, ls_budget = default_budget, ls_goals = [],
      ls_stuck = [], ls_clean_ticks = 0, ls_peers = dict_of (map (\<lambda>n. (n, default_health)) order),
      ls_roles = [], ls_warnings = [], ls_config = JNull, ls_rate_streak = 0, ls_phase = None,
      ls_plan_steps = None, ls_green_ticks = 0, ls_phase_b_ticks = 0, ls_convergence = ''A'',
      ls_skeptic_at = -2, ls_skeptic_pending = False\<rparr>"

text \<open>What \<open>_validate_state\<close> guarantees of the turn order: non-empty, distinct names, an index in range, and an entry for every name.\<close>

definition rotation_ok :: "loop_state \<Rightarrow> bool" where
  "rotation_ok s \<longleftrightarrow> ls_order s \<noteq> [] \<and> distinct (ls_order s) \<and> ls_index s < length (ls_order s) \<and>
     (\<forall>n \<in> set (ls_order s). map_of (ls_peers s) n \<noteq> None)"

definition current_peer_name :: "loop_state \<Rightarrow> string" where
  "current_peer_name s = ls_order s ! ls_index s"

definition other_peer_names :: "loop_state \<Rightarrow> string list" where
  "other_peer_names s = filter (\<lambda>n. n \<noteq> current_peer_name s) (ls_order s)"

text \<open>\<open>state["peers"][name][key] = v\<close>, a \<open>KeyError\<close> without the peer.\<close>

definition peer_of :: "loop_state \<Rightarrow> string \<Rightarrow> peer_health option" where
  "peer_of s n = map_of (ls_peers s) n"

definition set_peer :: "string \<Rightarrow> peer_health \<Rightarrow> loop_state \<Rightarrow> loop_state" where
  "set_peer n h s = s\<lparr>ls_peers := dict_set (ls_peers s) n h\<rparr>"

definition update_peer :: "string \<Rightarrow> (peer_health \<Rightarrow> peer_health) \<Rightarrow> (loop_state, unit) act" where
  "update_peer n f s = (case peer_of s n of None \<Rightarrow> (Inl KeyError, s) | Some h \<Rightarrow> (Inr (), set_peer n (f h) s))"

named_theorems loop_simps \<open>what an update of one part of the loop state leaves alone\<close>

lemma peer_of_set_peer [loop_simps, simp]: "peer_of (set_peer n h s) m = (if m = n then Some h else peer_of s m)"
  by (simp add: peer_of_def set_peer_def)

lemma set_peer_fields [loop_simps, simp]:
  "ls_order (set_peer n h s) = ls_order s" "ls_index (set_peer n h s) = ls_index s"
  "ls_roles (set_peer n h s) = ls_roles s" "ls_iteration (set_peer n h s) = ls_iteration s"
  "ls_budget (set_peer n h s) = ls_budget s" "ls_warnings (set_peer n h s) = ls_warnings s"
  by (simp_all add: set_peer_def)

lemma rotation_ok_set_peer: "rotation_ok s \<Longrightarrow> rotation_ok (set_peer n h s)"
  by (auto simp: rotation_ok_def set_peer_def)

lemma update_peer_iff:
  "update_peer n f s = (r, s') \<longleftrightarrow>
     (case peer_of s n of None \<Rightarrow> r = Inl KeyError \<and> s' = s | Some h \<Rightarrow> r = Inr () \<and> s' = set_peer n (f h) s)"
  by (auto simp: update_peer_def split: option.splits)

end
