(* ===== verification/Turns.thy ===== *)
theory Turns
  imports LoopState
begin

text \<open>
  Round-robin turn rotation, \<open>peers/turn_manager.py\<close>: who runs next, who is benched, and when the
  turn moves on. \<open>int()\<close> of a configuration value is a parameter whose \<open>None\<close> is the \<open>TypeError\<close> or
  \<open>ValueError\<close> the code catches.
\<close>

section \<open>The turn manager\<close>

record turn_manager =
  tm_max_retries :: int
  tm_interval :: int

definition default_max_retries :: int where
  "default_max_retries = 1"

definition default_recovery_interval :: int where
  "default_recovery_interval = 8"

definition setting :: "(json \<Rightarrow> int option) \<Rightarrow> (string \<times> json) list \<Rightarrow> string \<Rightarrow> int \<Rightarrow> int" where
  "setting to_int cfg k dflt =
     (let i = (case to_int (jget_default cfg k (JInt dflt)) of None \<Rightarrow> dflt | Some i \<Rightarrow> i) in
      if i < 0 then dflt else i)"

definition from_state :: "(json \<Rightarrow> int option) \<Rightarrow> loop_state \<Rightarrow> turn_manager" where
  "from_state to_int s =
     (let cfg = obj_or_empty (ls_config s) in
      \<lparr>tm_max_retries = setting to_int cfg ''max_retries'' default_max_retries,
       tm_interval = setting to_int cfg ''recovery_interval'' default_recovery_interval\<rparr>)"

text \<open>A degraded peer earns one turn once the interval has passed since its last failed recovery, or else since it was degraded.\<close>

definition recovery_due :: "turn_manager \<Rightarrow> loop_state \<Rightarrow> string \<Rightarrow> bool" where
  "recovery_due tm s name =
     (if tm_interval tm \<le> 0 then False
      else case peer_of s name of
        None \<Rightarrow> False
      | Some p \<Rightarrow>
          if ph_state p \<noteq> Some ''degraded'' then False
          else case (case ph_cooldown p of None \<Rightarrow> ph_degraded_at p | Some c \<Rightarrow> Some c) of
            None \<Rightarrow> False
          | Some since \<Rightarrow> tm_interval tm \<le> ls_iteration s - since)"

definition state_of :: "loop_state \<Rightarrow> string \<Rightarrow> string option" where
  "state_of s name = (case peer_of s name of None \<Rightarrow> None | Some p \<Rightarrow> ph_state p)"

definition eligible :: "turn_manager \<Rightarrow> loop_state \<Rightarrow> bool \<Rightarrow> string \<Rightarrow> bool" where
  "eligible tm s allow_recovery name =
     (if state_of s name = Some ''halted'' then False
      else if state_of s name = Some ''degraded'' \<and> \<not> recovery_due tm s name then False
      else if map_of (ls_roles s) name = Some ''recovery'' \<and> \<not> allow_recovery then False
      else True)"

text \<open>\<open>for _ in range(n)\<close>: walk forward from the index to the first eligible peer.\<close>

fun hop :: "(string \<Rightarrow> bool) \<Rightarrow> string list \<Rightarrow> nat \<Rightarrow> nat \<Rightarrow> nat option" where
  "hop ok order 0 idx = None"
| "hop ok order (Suc k) idx =
     (if ok (order ! idx) then Some idx else hop ok order k ((idx + 1) mod length order))"

definition has_default_healthy :: "turn_manager \<Rightarrow> loop_state \<Rightarrow> bool" where
  "has_default_healthy tm s = list_ex (eligible tm s False) (ls_order s)"

definition current :: "turn_manager \<Rightarrow> (loop_state, string) act" where
  "current tm s =
     (if length (ls_order s) \<le> ls_index s then (Inl IndexError, s)
      else if \<not> list_ex (eligible tm s True) (ls_order s) then (Inr (current_peer_name s), s)
      else case hop (eligible tm s (\<not> has_default_healthy tm s)) (ls_order s) (length (ls_order s)) (ls_index s) of
        Some i \<Rightarrow> (Inr (ls_order s ! i), s\<lparr>ls_index := i\<rparr>)
      | None \<Rightarrow> (Inr (current_peer_name s), s))"

definition other :: "loop_state \<Rightarrow> string res" where
  "other s = (if length (ls_order s) \<noteq> 2 then Inl ValueError else Inr (ls_order s ! ((ls_index s + 1) mod 2)))"

definition others :: "loop_state \<Rightarrow> string list" where
  "others s = map snd (filter (\<lambda>(i, n). i \<noteq> ls_index s) (enumerate 0 (ls_order s)))"

definition rotate_turn :: "loop_state \<Rightarrow> loop_state" where
  "rotate_turn s = s\<lparr>ls_index := (ls_index s + 1) mod length (ls_order s)\<rparr>"

definition advance :: "turn_manager \<Rightarrow> bool \<Rightarrow> bool \<Rightarrow> (loop_state, unit) act" where
  "advance tm success rate_limited =
     act_bind (current tm) (\<lambda>peer.
     if rate_limited \<or> success then
       act_bind (update_peer peer (\<lambda>h. h\<lparr>ph_fails := 0\<rparr>)) (\<lambda>_ s. (Inr (), rotate_turn s))
     else
       act_bind (update_peer peer (\<lambda>h. h\<lparr>ph_fails := ph_fails h + 1\<rparr>)) (\<lambda>_ s.
       case peer_of s peer of
         None \<Rightarrow> (Inl KeyError, s)
       | Some h \<Rightarrow>
           if tm_max_retries tm < ph_fails h
           then (Inr (), rotate_turn (set_peer peer (h\<lparr>ph_fails := 0\<rparr>) s))
           else (Inr (), s)))"

section \<open>Who runs next\<close>

lemma hop_Some:
  "hop ok order k idx = Some i \<Longrightarrow> idx < length order \<Longrightarrow>
     \<exists>d<k. i = (idx + d) mod length order \<and> ok (order ! i) \<and> (\<forall>e<d. \<not> ok (order ! ((idx + e) mod length order)))"
proof (induction k arbitrary: idx)
  case (Suc k)
  show ?case
  proof (cases "ok (order ! idx)")
    case True
    with Suc.prems show ?thesis by (intro exI [of _ 0]) auto
  next
    case False
    let ?n = "length order"
    from Suc.prems have n: "0 < ?n" by auto
    then have "(idx + 1) mod ?n < ?n" by simp
    from Suc.IH [OF _ this] Suc.prems False obtain d where d: "d < k" "i = ((idx + 1) mod ?n + d) mod ?n"
      "ok (order ! i)" "\<forall>e<d. \<not> ok (order ! (((idx + 1) mod ?n + e) mod ?n))" by auto
    have e: "\<not> ok (order ! ((idx + e) mod ?n))" if "e < Suc d" for e
      using that d(4) False Suc.prems(2) by (cases e) (auto simp: mod_add_left_eq)
    from d show ?thesis by (intro exI [of _ "Suc d"] conjI allI impI e) (simp_all add: mod_add_left_eq)
  qed
qed simp

lemma hop_None:
  "hop ok order k idx = None \<Longrightarrow> idx < length order \<Longrightarrow> e < k \<Longrightarrow> \<not> ok (order ! ((idx + e) mod length order))"
proof (induction k arbitrary: idx e)
  case (Suc k)
  let ?n = "length order"
  from Suc.prems have "(idx + 1) mod ?n < ?n" by (intro mod_less_divisor) auto
  from Suc.IH [OF _ this] Suc.prems show ?case
    by (cases e) (auto split: if_splits simp: mod_add_left_eq)
qed simp

lemma hop_all:
  assumes "x \<in> set order" and "ok x" and "idx < length order"
  shows "hop ok order (length order) idx \<noteq> None"
proof
  assume none: "hop ok order (length order) idx = None"
  from assms(1) obtain j where j: "j < length order" "x = order ! j" by (auto simp: in_set_conv_nth)
  let ?n = "length order"
  define e where "e = (j + ?n - idx) mod ?n"
  from j have "e < ?n" unfolding e_def by (intro mod_less_divisor) auto
  from hop_None [OF none assms(3) this] have "\<not> ok (order ! ((idx + e) mod ?n))" .
  moreover have "(idx + e) mod ?n = j"
  proof -
    have "(idx + e) mod ?n = (idx + (j + ?n - idx)) mod ?n" unfolding e_def by (rule mod_add_right_eq)
    also have "idx + (j + ?n - idx) = j + ?n" using assms(3) by simp
    finally show ?thesis using j by simp
  qed
  ultimately show False using assms(2) j by simp
qed

text \<open>The test the walk uses: a recovery peer counts only while no other peer is eligible.\<close>

definition takes_turn :: "turn_manager \<Rightarrow> loop_state \<Rightarrow> string \<Rightarrow> bool" where
  "takes_turn tm s = eligible tm s (\<not> has_default_healthy tm s)"

lemma takes_turn_exists:
  "list_ex (eligible tm s True) (ls_order s) \<Longrightarrow> list_ex (takes_turn tm s) (ls_order s)"
  by (auto simp: list_ex_iff takes_turn_def has_default_healthy_def eligible_def split: if_splits)

lemma eligible_spare: "eligible tm s a n \<Longrightarrow> eligible tm s True n"
  by (auto simp: eligible_def split: if_splits)

lemma takes_turn_eligible: "takes_turn tm s n \<Longrightarrow> eligible tm s True n"
  by (auto simp: takes_turn_def eligible_def split: if_splits)

text \<open>The turn moves to the first peer, from the index on, that may take it, and stays when there is none.\<close>

definition next_turn :: "turn_manager \<Rightarrow> loop_state \<Rightarrow> nat \<Rightarrow> bool" where
  "next_turn tm s i \<longleftrightarrow>
     (if list_ex (eligible tm s True) (ls_order s)
      then \<exists>d < length (ls_order s). i = (ls_index s + d) mod length (ls_order s) \<and> takes_turn tm s (ls_order s ! i) \<and>
             (\<forall>e<d. \<not> takes_turn tm s (ls_order s ! ((ls_index s + e) mod length (ls_order s))))
      else i = ls_index s)"

lemma current_next:
  assumes "ls_index s < length (ls_order s)"
  shows "\<exists>i < length (ls_order s). current tm s = (Inr (ls_order s ! i), s\<lparr>ls_index := i\<rparr>) \<and> next_turn tm s i"
proof (cases "list_ex (eligible tm s True) (ls_order s)")
  case False
  with assms show ?thesis by (intro exI [of _ "ls_index s"]) (simp add: current_def next_turn_def current_peer_name_def)
next
  case True
  then obtain x where x: "x \<in> set (ls_order s)" "takes_turn tm s x" using takes_turn_exists by (auto simp: list_ex_iff)
  obtain i where i: "hop (takes_turn tm s) (ls_order s) (length (ls_order s)) (ls_index s) = Some i"
    using hop_all [of x "ls_order s" "takes_turn tm s"] x assms by auto
  from hop_Some [OF i assms] obtain d where d: "d < length (ls_order s)" "i = (ls_index s + d) mod length (ls_order s)"
    "takes_turn tm s (ls_order s ! i)"
    "\<forall>e<d. \<not> takes_turn tm s (ls_order s ! ((ls_index s + e) mod length (ls_order s)))" by blast
  have "current tm s = (Inr (ls_order s ! i), s\<lparr>ls_index := i\<rparr>)"
    using True i assms by (simp add: current_def takes_turn_def)
  moreover have "i < length (ls_order s)" using assms unfolding d(2) by (intro mod_less_divisor) auto
  ultimately show ?thesis using True d by (auto simp: next_turn_def)
qed

text \<open>What the walk depends on: the turn order, the roles, the iteration and, of every peer, its state and its two markers.\<close>

definition turn_view :: "loop_state \<Rightarrow> string \<Rightarrow> (string option \<times> int \<times> int option \<times> int option) option" where
  "turn_view s n = map_option (\<lambda>h. (ph_state h, ph_fails h, ph_cooldown h, ph_degraded_at h)) (peer_of s n)"

definition same_turns :: "loop_state \<Rightarrow> loop_state \<Rightarrow> bool" where
  "same_turns s t \<longleftrightarrow> ls_order t = ls_order s \<and> ls_index t = ls_index s \<and> ls_roles t = ls_roles s \<and>
     ls_iteration t = ls_iteration s \<and> (\<forall>n. turn_view t n = turn_view s n)"

lemma same_turns_refl [simp]: "same_turns s s"
  by (simp add: same_turns_def)

lemma same_turns_trans [trans]: "same_turns s t \<Longrightarrow> same_turns t u \<Longrightarrow> same_turns s u"
  by (simp add: same_turns_def)

lemma view_eligible:
  assumes "turn_view t n = turn_view s n" and "ls_roles t = ls_roles s" and "ls_iteration t = ls_iteration s"
  shows "eligible tm t a n = eligible tm s a n"
proof -
  from assms(1) have "state_of t n = state_of s n"
    by (auto simp: state_of_def turn_view_def split: option.splits)
  moreover from assms(1,3) have "recovery_due tm t n = recovery_due tm s n"
    by (auto simp: recovery_due_def turn_view_def split: option.splits)
  ultimately show ?thesis using assms(2) by (simp add: eligible_def)
qed

lemma same_turns_takes:
  assumes "same_turns s t"
  shows "takes_turn tm t = takes_turn tm s" and "next_turn tm t = next_turn tm s"
proof -
  have e: "eligible tm t = eligible tm s"
    using assms by (intro ext view_eligible) (auto simp: same_turns_def)
  then show t: "takes_turn tm t = takes_turn tm s"
    using assms by (simp add: takes_turn_def has_default_healthy_def same_turns_def)
  show "next_turn tm t = next_turn tm s"
    using assms e t by (intro ext) (simp add: next_turn_def same_turns_def)
qed

lemma same_turns_index: "same_turns s t \<Longrightarrow> same_turns (s\<lparr>ls_index := i\<rparr>) (t\<lparr>ls_index := i\<rparr>)"
  by (simp add: same_turns_def turn_view_def peer_of_def)

lemma index_views [simp]:
  "turn_view (s\<lparr>ls_index := i\<rparr>) n = turn_view s n" "peer_of (s\<lparr>ls_index := i\<rparr>) n = peer_of s n"
  by (simp_all add: turn_view_def peer_of_def)

lemma index_takes [simp]: "takes_turn tm (s\<lparr>ls_index := i\<rparr>) = takes_turn tm s" "eligible tm (s\<lparr>ls_index := i\<rparr>) = eligible tm s"
proof -
  show e: "eligible tm (s\<lparr>ls_index := i\<rparr>) = eligible tm s" by (intro ext view_eligible) simp_all
  show "takes_turn tm (s\<lparr>ls_index := i\<rparr>) = takes_turn tm s" by (simp add: takes_turn_def has_default_healthy_def e)
qed

text \<open>Asked again, the turn manager gives the same answer, as long as nothing it looks at has changed.\<close>

lemma next_turn_stays:
  assumes "next_turn tm s i" and "i < length (ls_order s)" and "next_turn tm (s\<lparr>ls_index := i\<rparr>) j"
  shows "j = i"
proof (cases "list_ex (eligible tm s True) (ls_order s)")
  case True
  with assms(1) have "takes_turn tm s (ls_order s ! i)" by (auto simp: next_turn_def)
  moreover from True assms(3) obtain d where "j = (i + d) mod length (ls_order s)"
    "\<forall>e<d. \<not> takes_turn tm s (ls_order s ! ((i + e) mod length (ls_order s)))"
    by (auto simp: next_turn_def)
  ultimately show ?thesis using assms(2) by (cases d) auto
next
  case False
  with assms show ?thesis by (simp add: next_turn_def)
qed

lemma current_again:
  assumes "current tm s = (Inr p, s1)" and "ls_index s < length (ls_order s)" and "same_turns s1 s2"
  shows "current tm s2 = (Inr p, s2)"
proof -
  from current_next [OF assms(2), of tm] assms(1) obtain i where i: "i < length (ls_order s)" "p = ls_order s ! i"
    "s1 = s\<lparr>ls_index := i\<rparr>" "next_turn tm s i" by auto
  with assms(3) have s2: "ls_index s2 = i" "ls_order s2 = ls_order s" by (auto simp: same_turns_def)
  with i current_next [of s2 tm] obtain j where j: "current tm s2 = (Inr (ls_order s ! j), s2\<lparr>ls_index := j\<rparr>)" "next_turn tm s2 j" by auto
  from j(2) same_turns_takes(2) [OF assms(3)] i(3) have "next_turn tm (s\<lparr>ls_index := i\<rparr>) j" by simp
  from next_turn_stays [OF i(4,1) this] j(1) i(2) s2 show ?thesis by simp
qed

section \<open>When the turn moves on\<close>

lemma advance_effect:
  assumes "current tm s = (Inr p, s)" and "advance tm success rate_limited s = (Inr (), s')"
  shows "\<exists>h. peer_of s p = Some h \<and>
    (if rate_limited \<or> success then s' = rotate_turn (set_peer p (h\<lparr>ph_fails := 0\<rparr>) s)
     else if tm_max_retries tm < ph_fails h + 1 then s' = rotate_turn (set_peer p (h\<lparr>ph_fails := 0\<rparr>) (set_peer p (h\<lparr>ph_fails := ph_fails h + 1\<rparr>) s))
     else s' = set_peer p (h\<lparr>ph_fails := ph_fails h + 1\<rparr>) s)"
proof (cases "peer_of s p")
  case None
  with assms show ?thesis by (simp add: advance_def act_bind_def update_peer_def split: if_splits)
next
  case (Some h)
  with assms show ?thesis
    by (auto simp: advance_def act_bind_def update_peer_def split: if_splits)
qed

text \<open>
  benched peers wait. The turn goes to a peer of the order; to one that is not halted and not
  benched whenever there is such a peer, to a spare with the role \<open>recovery\<close> only when no other peer
  can take it, and it stays where it is when nobody can. Nothing but the turn index changes.
\<close>

theorem benched_peers_wait:
  assumes "ls_index s < length (ls_order s)" and "current tm s = (r, s')"
  shows "\<exists>p i. r = Inr p \<and> i < length (ls_order s) \<and> p = ls_order s ! i \<and> s' = s\<lparr>ls_index := i\<rparr> \<and>
     (list_ex (eligible tm s False) (ls_order s) \<longrightarrow> eligible tm s False p) \<and>
     (list_ex (eligible tm s True) (ls_order s) \<longrightarrow> eligible tm s True p) \<and>
     (\<not> list_ex (eligible tm s True) (ls_order s) \<longrightarrow> i = ls_index s)"
proof -
  from current_next [OF assms(1), of tm] assms(2) obtain i where i: "i < length (ls_order s)" "r = Inr (ls_order s ! i)"
    "s' = s\<lparr>ls_index := i\<rparr>" "next_turn tm s i" by auto
  have "list_ex (eligible tm s False) (ls_order s) \<longrightarrow> list_ex (eligible tm s True) (ls_order s)"
    by (auto simp: list_ex_iff dest: eligible_spare)
  moreover from i(4) have "list_ex (eligible tm s True) (ls_order s) \<Longrightarrow> takes_turn tm s (ls_order s ! i)"
    and "\<not> list_ex (eligible tm s True) (ls_order s) \<Longrightarrow> i = ls_index s"
    by (auto simp: next_turn_def)
  ultimately show ?thesis using i(1,2,3)
    by (intro exI [of _ "ls_order s ! i"] exI [of _ i]) (auto simp: takes_turn_def has_default_healthy_def dest: eligible_spare)
qed

definition benched_first :: loop_state where
  "benched_first = set_peer ''a'' (default_health\<lparr>ph_state := Some ''degraded'', ph_degraded_at := Some 0\<rparr>) (default_state [''a'', ''b''])"

theorem benched_peers_wait_witness:
  "\<exists>p i. current \<lparr>tm_max_retries = 1, tm_interval = 8\<rparr> benched_first = (Inr p, benched_first\<lparr>ls_index := i\<rparr>) \<and>
     eligible \<lparr>tm_max_retries = 1, tm_interval = 8\<rparr> benched_first False p"
proof -
  let ?m = "\<lparr>tm_max_retries = 1, tm_interval = 8\<rparr> :: turn_manager"
  have "ls_index benched_first < length (ls_order benched_first)" by code_simp
  moreover obtain r s' where c: "current ?m benched_first = (r, s')" by fastforce
  moreover have "list_ex (eligible ?m benched_first False) (ls_order benched_first)" by code_simp
  ultimately show ?thesis using benched_peers_wait [of benched_first ?m r s'] by auto
qed

end
