(* ===== verification/PeerHealth.thy ===== *)
theory PeerHealth
  imports Turns
begin

text \<open>
  The health of the peers, \<open>peers/driver_peer_health.py\<close>: a window of five runs, the slow way into
  \<open>degraded\<close>, the fast way out of it, and the halt once every peer is degraded. The marker file
  \<open>HALTED.md\<close> is reached through the record \<open>halt_io\<close>; its text is composed from the state.
\<close>

section \<open>The window of recent runs\<close>

fun fail_credit :: "mark \<Rightarrow> rat" where
  "fail_credit Ran = 0"
| "fail_credit Failed = 1"
| "fail_credit (Credit x) = 1 - x"

definition recent_fails :: "mark list \<Rightarrow> rat" where
  "recent_fails history = sum_list (map fail_credit history)"

definition note_run :: "mark \<Rightarrow> peer_health \<Rightarrow> peer_health" where
  "note_run m t =
     (let history = last_n 5 (ph_runs t @ [m]) in t\<lparr>ph_runs := history, ph_recent := recent_fails history\<rparr>)"

section \<open>Degrading and healing\<close>

definition record_degraded_annotations :: "int \<Rightarrow> degrade_cause \<Rightarrow> peer_health \<Rightarrow> peer_health" where
  "record_degraded_annotations it cause t =
     (let (classification, matched) =
        (case ph_last_run t of None \<Rightarrow> ([], []) | Some r \<Rightarrow> (lr_classification r, py_take 60 (lr_pattern r))) in
      t\<lparr>ph_reason := Some (cause, classification, matched), ph_degraded_at := Some it\<rparr>)"

definition heal :: "peer_health \<Rightarrow> peer_health" where
  "heal t = t\<lparr>ph_state := Some ''healthy'', ph_reason := None, ph_degraded_at := None, ph_cooldown := None\<rparr>"

definition health_after :: "int \<Rightarrow> bool \<Rightarrow> bool \<Rightarrow> peer_health \<Rightarrow> peer_health" where
  "health_after it success rate_limited t =
     (if rate_limited then note_run Ran t
      else
        let entry = (if success then Ran else if ph_no_handoff t then Credit (1 / 2) else Failed);
            t1 = note_run entry t;
            prev = ph_state t;
            t2 = (if \<not> success \<and> prev = Some ''degraded'' then t1\<lparr>ph_cooldown := Some it\<rparr> else t1) in
        if success \<and> prev = Some ''degraded'' then heal t2
        else if \<not> success \<and> 3 \<le> ph_recent t1 then
          (let t3 = t2\<lparr>ph_state := Some ''degraded''\<rparr> in
           if prev \<noteq> Some ''degraded'' then record_degraded_annotations it (RecentFails (ph_recent t1)) t3
           else t3\<lparr>ph_cooldown := Some it\<rparr>)
        else if 2 \<le> ph_cheating t then
          (let t3 = t2\<lparr>ph_state := Some ''degraded''\<rparr> in
           if prev \<noteq> Some ''degraded'' then record_degraded_annotations it (CheatingReverts (ph_cheating t)) t3
           else t3)
        else t2)"

definition update_peer_health :: "string \<Rightarrow> bool \<Rightarrow> bool \<Rightarrow> (loop_state, unit) act" where
  "update_peer_health peer success rate_limited s =
     update_peer peer (health_after (ls_iteration s) success rate_limited) s"

section \<open>The halt of the loop\<close>

record 'w halt_io =
  hi_verify :: "('w, unit) act"
  hi_exists :: "('w, bool) act"
  hi_write :: "loop_state \<Rightarrow> ('w, unit) act"

definition out_of_service :: "loop_state \<Rightarrow> string \<Rightarrow> bool res" where
  "out_of_service s p =
     (case peer_of s p of None \<Rightarrow> Inl KeyError
      | Some h \<Rightarrow> Inr (ph_state h = Some ''degraded'' \<or> ph_state h = Some ''halted''))"

definition mark_halted :: "string \<Rightarrow> loop_state \<Rightarrow> loop_state" where
  "mark_halted p s =
     (case peer_of s p of None \<Rightarrow> s | Some h \<Rightarrow> set_peer p (h\<lparr>ph_state := Some ''halted''\<rparr>) s)"

definition halt_all :: "loop_state \<Rightarrow> loop_state" where
  "halt_all s = fold mark_halted (ls_order s) s"

definition halt_reason_text :: string where
  "halt_reason_text = ''peer-unavailable:all-peers-degraded''"

text \<open>The writer's exceptions are reported and swallowed; the halt stands either way.\<close>

definition maybe_halt :: "'w halt_io \<Rightarrow> (loop_state \<times> 'w, string option) act" where
  "maybe_halt io = (\<lambda>(s, w).
     case hi_verify io w of
       (Inl e, w1) \<Rightarrow> (Inl e, (s, w1))
     | (Inr _, w1) \<Rightarrow>
         (case res_all (out_of_service s) (ls_order s) of
            Inl e \<Rightarrow> (Inl e, (s, w1))
          | Inr False \<Rightarrow> (Inr None, (s, w1))
          | Inr True \<Rightarrow>
              (let s1 = halt_all s in
               case hi_exists io w1 of
                 (Inl e, w2) \<Rightarrow> (Inl e, (s1, w2))
               | (Inr True, w2) \<Rightarrow> (Inr (Some halt_reason_text), (s1, w2))
               | (Inr False, w2) \<Rightarrow>
                   if length (ls_order s1) \<le> ls_index s1 then (Inl IndexError, (s1, w2))
                   else (Inr (Some halt_reason_text), (s1, snd (hi_write io s1 w2))))))"

section \<open>What the health can do\<close>

lemma note_run_fields [simp]:
  "ph_state (note_run m t) = ph_state t" "ph_cooldown (note_run m t) = ph_cooldown t"
  "ph_degraded_at (note_run m t) = ph_degraded_at t" "ph_fails (note_run m t) = ph_fails t"
  "ph_runs (note_run m t) = last_n 5 (ph_runs t @ [m])" "ph_recent (note_run m t) = recent_fails (ph_runs (note_run m t))"
  by (simp_all add: note_run_def Let_def)

lemma annotations_fields [simp]:
  "ph_state (record_degraded_annotations it c t) = ph_state t" "ph_cooldown (record_degraded_annotations it c t) = ph_cooldown t"
  "ph_degraded_at (record_degraded_annotations it c t) = Some it" "ph_fails (record_degraded_annotations it c t) = ph_fails t"
  "ph_runs (record_degraded_annotations it c t) = ph_runs t"
  by (simp_all add: record_degraded_annotations_def split: prod.splits)

lemma heal_fields [simp]:
  "ph_state (heal t) = Some ''healthy''" "ph_cooldown (heal t) = None" "ph_degraded_at (heal t) = None"
  "ph_reason (heal t) = None" "ph_fails (heal t) = ph_fails t" "ph_runs (heal t) = ph_runs t"
  by (simp_all add: heal_def)

text \<open>The window after a run, and the failures in it.\<close>

definition window_after :: "bool \<Rightarrow> bool \<Rightarrow> peer_health \<Rightarrow> mark list" where
  "window_after success rate_limited t =
     last_n 5 (ph_runs t @ [if rate_limited \<or> success then Ran else if ph_no_handoff t then Credit (1 / 2) else Failed])"

lemma health_window: "ph_runs (health_after it success rl t) = window_after success rl t"
  by (simp add: health_after_def window_after_def Let_def)

text \<open>
  slow to degrade, fast to heal, blind to rate limits. A rate-limited run leaves the state and both
  markers alone. A peer becomes degraded only by a run that was not rate-limited, with three failures in the
  window of five or two reverts for cheating, and the tick is noted. A success makes a degraded peer
  healthy and clears every marker; a failure keeps it degraded and restarts its cooldown.
\<close>

theorem health_transitions:
  assumes "h' = health_after it success rate_limited h"
  shows "(rate_limited \<longrightarrow> ph_state h' = ph_state h \<and> ph_cooldown h' = ph_cooldown h \<and> ph_degraded_at h' = ph_degraded_at h) \<and>
    (ph_state h' = Some ''degraded'' \<and> ph_state h \<noteq> Some ''degraded'' \<longrightarrow>
       \<not> rate_limited \<and> ph_degraded_at h' = Some it \<and>
       (\<not> success \<and> 3 \<le> recent_fails (window_after success rate_limited h) \<or> 2 \<le> ph_cheating h)) \<and>
    (ph_state h = Some ''degraded'' \<and> \<not> rate_limited \<and> success \<longrightarrow>
       ph_state h' = Some ''healthy'' \<and> ph_degraded_at h' = None \<and> ph_cooldown h' = None) \<and>
    (ph_state h = Some ''degraded'' \<and> \<not> rate_limited \<and> \<not> success \<longrightarrow>
       ph_state h' = Some ''degraded'' \<and> ph_cooldown h' = Some it) \<and>
    length (ph_runs h') \<le> 5 \<and> ph_runs h' = window_after success rate_limited h"
proof -
  have "ph_runs h' = window_after success rate_limited h" by (simp add: assms health_window)
  then show ?thesis by (auto simp: assms health_after_def window_after_def Let_def)
qed

definition failing_peer :: peer_health where
  "failing_peer = default_health\<lparr>ph_runs := [Failed, Ran, Failed]\<rparr>"

theorem health_transitions_witness:
  "ph_state (health_after 4 False False failing_peer) = Some ''degraded'' \<and>
   ph_degraded_at (health_after 4 False False failing_peer) = Some 4"
proof -
  have "ph_state (health_after 4 False False failing_peer) = Some ''degraded''" by code_simp
  moreover have "ph_state failing_peer \<noteq> Some ''degraded''" by code_simp
  ultimately show ?thesis using health_transitions [of "health_after 4 False False failing_peer" 4 False False failing_peer, OF refl] by simp
qed

end
