(* ===== verification/Budget.thy ===== *)
theory Budget
  imports LoopState
begin

text \<open>
  Budget accounting of the tick loop, \<open>peers/budget_accountant.py\<close>. The text of an amount with two
  decimals is the parameter \<open>fmt2\<close>, the rounded sum of two floats the parameter \<open>fadd\<close>.
\<close>

section \<open>The gate before a tick\<close>

definition warn_once :: "string \<Rightarrow> loop_state \<Rightarrow> loop_state" where
  "warn_once msg s =
     (if ls_warnings s \<noteq> [] \<and> last (ls_warnings s) = msg then s
      else s\<lparr>ls_warnings := ls_warnings s @ [msg]\<rparr>)"

definition usd_warning :: "(rat \<Rightarrow> string) \<Rightarrow> rat \<Rightarrow> rat \<Rightarrow> string" where
  "usd_warning fmt2 cap spent =
     ''max_usd:'' @ fmt2 cap @ '' reached (spent $'' @ fmt2 spent @ '') but mode=warn - loop continues''"

definition budget_reason :: "(rat \<Rightarrow> string) \<Rightarrow> loop_state \<Rightarrow> string option \<times> loop_state" where
  "budget_reason fmt2 s =
     (let b = ls_budget s in
      if bu_max_iterations b \<le> of_int (bu_iterations b) then (Some ''max_iterations'', s)
      else if bu_max_runtime b \<le> of_int (bu_runtime b) then (Some ''max_runtime'', s)
      else if bu_max_failures b \<le> of_int (bu_failures b) then (Some ''max_consecutive_failures'', s)
      else if (case bu_max_tokens b of None \<Rightarrow> False | Some m \<Rightarrow> m \<le> of_int (bu_tokens b)) then (Some ''max_tokens'', s)
      else case bu_max_usd b of
        None \<Rightarrow> (None, s)
      | Some m \<Rightarrow>
          if m \<le> bu_usd b then
            (if bu_usd_mode b = ''hard'' then (Some ''max_usd'', s)
             else if bu_usd_mode b = ''warn'' \<and> bu_usd_warned b \<noteq> Some m
             then (None, (warn_once (usd_warning fmt2 m (bu_usd b)) s)\<lparr>ls_budget := b\<lparr>bu_usd_warned := Some m\<rparr>\<rparr>)
             else (None, s))
          else (None, s))"

section \<open>The account of a tick\<close>

definition record_tick_accounting :: "bool \<Rightarrow> int \<Rightarrow> string option \<Rightarrow> bool \<Rightarrow> loop_state \<Rightarrow> loop_state" where
  "record_tick_accounting success dt peer rate_limited s =
     (let it = ls_iteration s + 1;
          b = ls_budget s;
          b1 = b\<lparr>bu_iterations := bu_iterations b + 1, bu_runtime := bu_runtime b + dt\<rparr>;
          b2 = (if \<not> success \<and> \<not> rate_limited
                then b1\<lparr>bu_wasted := bu_wasted b1 + dt,
                        bu_wasted_ticks := last_n 20 (bu_wasted_ticks b1 @ [\<lparr>wa_iteration = it, wa_peer = peer, wa_duration = dt\<rparr>])\<rparr>
                else b1) in
      s\<lparr>ls_iteration := it,
        ls_budget := b2\<lparr>bu_failures := (if success \<or> rate_limited then 0 else bu_failures b2 + 1)\<rparr>\<rparr>)"

text \<open>Counters that cannot be trusted count as zero.\<close>

definition nonnegative_int :: "json \<Rightarrow> int" where
  "nonnegative_int j = (case j of JInt i \<Rightarrow> if 0 \<le> i then i else 0 | _ \<Rightarrow> 0)"

definition codex_usage_line :: "string \<Rightarrow> int option" where
  "codex_usage_line raw_line =
     (let line = strip raw_line in
      if \<not> startswith line ''{'' \<or> \<not> contains ''turn.completed'' line then None
      else case loads line of
        Inr (JObj obj) \<Rightarrow>
          if jget obj ''type'' \<noteq> JStr ''turn.completed'' then None
          else (case jget obj ''usage'' of
            JObj usage \<Rightarrow> Some (nonnegative_int (jget usage ''input_tokens'') + nonnegative_int (jget usage ''output_tokens''))
          | _ \<Rightarrow> None)
      | _ \<Rightarrow> None)"

definition parse_codex_json_usage :: "string \<Rightarrow> int option" where
  "parse_codex_json_usage text =
     fold (\<lambda>line total. case codex_usage_line line of
        None \<Rightarrow> total
      | Some n \<Rightarrow> Some ((case total of None \<Rightarrow> 0 | Some t \<Rightarrow> t) + n)) (splitlines text) None"

text \<open>The parser of the tool, if it has one, applied to both streams of the run.\<close>

definition account_tokens_usd ::
    "(rat \<Rightarrow> rat \<Rightarrow> rat) \<Rightarrow> (string \<Rightarrow> (string \<Rightarrow> int \<times> rat) option) \<Rightarrow> string \<Rightarrow> string \<Rightarrow> loop_state \<Rightarrow> (int \<times> rat) \<times> loop_state" where
  "account_tokens_usd fadd parsers tool output s =
     (case parsers tool of
        None \<Rightarrow> ((0, 0), s)
      | Some parser \<Rightarrow>
          (let (t, u) = parser output; tokens = max 0 t; usd = max 0 u; b = ls_budget s in
           ((tokens, usd), s\<lparr>ls_budget := b\<lparr>bu_tokens := max 0 (bu_tokens b) + tokens, bu_usd := fadd (max 0 (bu_usd b)) usd\<rparr>\<rparr>)))"

section \<open>Caps of the operator\<close>

text \<open>A cap of \<open>state.budget\<close> set to a number, as \<open>budget[key] = value\<close> does.\<close>

definition set_cap :: "string \<Rightarrow> rat \<Rightarrow> tick_budget \<Rightarrow> tick_budget" where
  "set_cap key v b =
     (if key = ''max_iterations'' then b\<lparr>bu_max_iterations := v\<rparr>
      else if key = ''max_runtime_s'' then b\<lparr>bu_max_runtime := v\<rparr>
      else if key = ''max_consecutive_failures'' then b\<lparr>bu_max_failures := v\<rparr>
      else if key = ''max_tokens'' then b\<lparr>bu_max_tokens := Some v\<rparr>
      else if key = ''max_usd'' then b\<lparr>bu_max_usd := Some v\<rparr>
      else b)"

definition configurable_limits :: "string list" where
  "configurable_limits =
     [''max_iterations'', ''max_runtime_s'', ''max_consecutive_failures'', ''max_tokens'', ''max_usd'', ''max_usd_mode'']"

definition override_max_bytes :: nat where
  "override_max_bytes = 64 * 1024"

text \<open>A finite \<open>float\<close> is the value \<open>fval\<close> of its text; a \<open>bool\<close> is no number here.\<close>

definition override_value :: "(string \<Rightarrow> rat) \<Rightarrow> json \<Rightarrow> rat option" where
  "override_value fval j = (case j of JInt i \<Rightarrow> Some (of_int i) | JFloat t \<Rightarrow> Some (fval t) | _ \<Rightarrow> None)"

definition overrides_of :: "(string \<Rightarrow> rat) \<Rightarrow> json \<Rightarrow> (string \<times> rat) list" where
  "overrides_of fval data =
     (case data of
        JObj kvs \<Rightarrow>
          concat (map (\<lambda>(k, v).
            case override_value fval v of
              None \<Rightarrow> []
            | Some r \<Rightarrow> if k \<in> set configurable_limits \<and> k \<noteq> ''max_usd_mode'' then [(k, r)] else []) kvs)
      | _ \<Rightarrow> [])"

definition read_operator_budget_overrides :: "(string \<Rightarrow> rat) \<Rightarrow> string res \<Rightarrow> (string \<times> rat) list" where
  "read_operator_budget_overrides fval file =
     (case file of
        Inl _ \<Rightarrow> []
      | Inr bytes \<Rightarrow>
          if override_max_bytes < length bytes then []
          else case res_bind (decode bytes) loads of Inl _ \<Rightarrow> [] | Inr data \<Rightarrow> overrides_of fval data)"

definition apply_operator_budget_overrides :: "(string \<Rightarrow> rat) \<Rightarrow> string res \<Rightarrow> loop_state \<Rightarrow> (string \<times> rat) list \<times> loop_state" where
  "apply_operator_budget_overrides fval file s =
     (let ov = read_operator_budget_overrides fval file in
      (ov, s\<lparr>ls_budget := fold (\<lambda>(k, v) b. set_cap k v b) ov (ls_budget s)\<rparr>))"

end
