(* ===== verification/Rotation.thy ===== *)
theory Rotation
  imports PeerHealth Budget
begin

text \<open>
  What one tick of the loop does to the rotation, as a step relation, and what follows for a run of
  many ticks: nobody starves. The loop of \<open>peers/tick_loop.py\<close> implements these steps (theory
  \<open>TickLoop\<close>); here only the order of its calls matters: the turn manager picks the peer, the peer
  runs, the turn advances, the tick is accounted, the health of the peer is updated.
\<close>

inductive tick :: "turn_manager \<Rightarrow> loop_state \<Rightarrow> string \<Rightarrow> loop_state \<Rightarrow> bool" where
  tick: "\<lbrakk>same_turns s s0; current tm s0 = (Inr p, s1); same_turns s1 s2; advance tm success rate_limited s2 = (Inr (), s3);
    same_turns (record_tick_accounting success dt (Some p) rate_limited s3) s4;
    update_peer_health p success rate_limited s4 = (Inr (), s5); same_turns s5 t\<rbrakk> \<Longrightarrow> tick tm s p t"



text \<open>A run of ticks, with the peers that ran.\<close>

inductive ticks :: "turn_manager \<Rightarrow> loop_state \<Rightarrow> string list \<Rightarrow> loop_state \<Rightarrow> bool" where
  ticks_none: "ticks tm s [] s"
| ticks_more: "\<lbrakk>tick tm s p t; ticks tm t ps u\<rbrakk> \<Longrightarrow> ticks tm s (p # ps) u"

inductive_cases ticks_NilE [elim!]: "ticks tm s [] u"
inductive_cases ticks_ConsE [elim!]: "ticks tm s (p # ps) u"

section \<open>The effect of a tick on the rotation\<close>

definition fails_of :: "loop_state \<Rightarrow> string \<Rightarrow> int" where
  "fails_of s n = (case peer_of s n of None \<Rightarrow> 0 | Some h \<Rightarrow> ph_fails h)"

lemma view_fails: "turn_view t n = turn_view s n \<Longrightarrow> fails_of t n = fails_of s n"
  by (auto simp: fails_of_def turn_view_def split: option.splits)

lemma health_after_fails [simp]: "ph_fails (health_after it success rl h) = ph_fails h"
  by (simp add: health_after_def Let_def note_run_def heal_def record_degraded_annotations_def split: prod.splits)

lemma accounting_turns [simp]:
  "ls_order (record_tick_accounting a dt p rl s) = ls_order s" "ls_index (record_tick_accounting a dt p rl s) = ls_index s"
  "ls_roles (record_tick_accounting a dt p rl s) = ls_roles s"
  "ls_iteration (record_tick_accounting a dt p rl s) = ls_iteration s + 1"
  "peer_of (record_tick_accounting a dt p rl s) n = peer_of s n"
  by (simp_all add: record_tick_accounting_def Let_def peer_of_def)

lemma rotate_turn_fields [simp]:
  "ls_order (rotate_turn s) = ls_order s" "ls_index (rotate_turn s) = (ls_index s + 1) mod length (ls_order s)"
  "ls_roles (rotate_turn s) = ls_roles s" "ls_iteration (rotate_turn s) = ls_iteration s" "peer_of (rotate_turn s) n = peer_of s n"
  by (simp_all add: rotate_turn_def peer_of_def)

lemma view_None: "peer_of s n = None \<longleftrightarrow> turn_view s n = None"
  by (simp add: turn_view_def)

text \<open>Either the turn moved on and the peer has its retries back, or the peer failed and keeps the turn.\<close>

definition moved :: "turn_manager \<Rightarrow> loop_state \<Rightarrow> nat \<Rightarrow> loop_state \<Rightarrow> bool" where
  "moved tm s i t \<longleftrightarrow>
     (let p = ls_order s ! i in
      (ls_index t = (i + 1) mod length (ls_order s) \<and> fails_of t p = 0) \<or>
      (ls_index t = i \<and> fails_of t p = fails_of s p + 1 \<and> fails_of s p + 1 \<le> tm_max_retries tm))"

lemma advance_moved:
  assumes "current tm s = (Inr p, s)" and "advance tm success rl s = (Inr (), t)"
  shows "ls_order t = ls_order s \<and> ls_roles t = ls_roles s \<and> ls_iteration t = ls_iteration s \<and>
    (\<forall>m. m \<noteq> p \<longrightarrow> turn_view t m = turn_view s m) \<and>
    ((ls_index t = (ls_index s + 1) mod length (ls_order s) \<and> fails_of t p = 0) \<or>
     (ls_index t = ls_index s \<and> fails_of t p = fails_of s p + 1 \<and> fails_of s p + 1 \<le> tm_max_retries tm))"
proof -
  from advance_effect [OF assms] obtain h where h: "peer_of s p = Some h"
    "if rl \<or> success then t = rotate_turn (set_peer p (h\<lparr>ph_fails := 0\<rparr>) s)
     else if tm_max_retries tm < ph_fails h + 1 then t = rotate_turn (set_peer p (h\<lparr>ph_fails := 0\<rparr>) (set_peer p (h\<lparr>ph_fails := ph_fails h + 1\<rparr>) s))
     else t = set_peer p (h\<lparr>ph_fails := ph_fails h + 1\<rparr>) s" by blast
  then show ?thesis by (auto simp: turn_view_def fails_of_def split: if_splits)
qed

lemma tick_effect:
  assumes "tick tm s p t" and "ls_index s < length (ls_order s)"
  shows "\<exists>i < length (ls_order s). next_turn tm s i \<and> p = ls_order s ! i \<and> ls_order t = ls_order s \<and>
    ls_roles t = ls_roles s \<and> ls_iteration t = ls_iteration s + 1 \<and>
    (\<forall>m. m \<noteq> p \<longrightarrow> turn_view t m = turn_view s m) \<and> moved tm s i t"
  using assms(1)
proof (cases rule: tick.cases)
  case (tick s0 s1 s2 success rl s3 dt s4 s5)
  have l: "ls_index s0 < length (ls_order s0)" using assms(2) tick(1) by (simp add: same_turns_def)
  from current_next [OF l, of tm] tick(1,2) same_turns_takes(2) [OF tick(1), of tm] obtain i where
    i: "i < length (ls_order s)" "p = ls_order s ! i" "s1 = s0\<lparr>ls_index := i\<rparr>" "next_turn tm s i"
    by (auto simp: same_turns_def)
  note a = advance_moved [OF current_again [OF tick(2) l tick(3)] tick(4)]
  from tick(6) obtain h where h: "peer_of s4 p = Some h" "s5 = set_peer p (health_after (ls_iteration s4) success rl h) s4"
    by (auto simp: update_peer_health_def update_peer_iff split: option.splits)
  have v2: "turn_view s2 m = turn_view s m" for m using tick(1,3) i(3) by (simp add: same_turns_def)
  have v4: "turn_view s4 m = turn_view s3 m" for m using tick(5) by (simp add: same_turns_def turn_view_def)
  have v5: "turn_view t m = turn_view s4 m" if "m \<noteq> p" for m using tick(7) h(2) that by (simp add: same_turns_def turn_view_def)
  have f: "fails_of t p = fails_of s3 p"
  proof -
    have "fails_of t p = fails_of s5 p" using tick(7) by (intro view_fails) (simp add: same_turns_def)
    also have "\<dots> = fails_of s4 p" by (simp add: h fails_of_def)
    also have "\<dots> = fails_of s3 p" by (rule view_fails) (rule v4)
    finally show ?thesis .
  qed
  have f2: "fails_of s2 p = fails_of s p" by (rule view_fails) (rule v2)
  have "turn_view t m = turn_view s m" if "m \<noteq> p" for m using a v2 v4 v5 that by simp
  moreover have "moved tm s i t"
    using a f f2 tick(1,3,5,7) i(2,3) h(2) by (auto simp: moved_def same_turns_def)
  ultimately show ?thesis using a i tick(1,3,5,7) h(2) by (intro exI [of _ i]) (auto simp: same_turns_def)
qed

section \<open>Nobody starves\<close>

text \<open>How far the turn is from a place, walking forward, and the ticks that can still pass before it gets there.\<close>

definition ahead :: "nat \<Rightarrow> nat \<Rightarrow> nat \<Rightarrow> nat" where
  "ahead n i j = (if i \<le> j then j - i else j + n - i)"

definition rank :: "turn_manager \<Rightarrow> nat \<Rightarrow> loop_state \<Rightarrow> nat" where
  "rank tm j s =
     ahead (length (ls_order s)) (ls_index s) j * (nat (tm_max_retries tm) + 1) +
     nat (tm_max_retries tm - fails_of s (ls_order s ! ls_index s))"

lemma ahead_less: "i < n \<Longrightarrow> j < n \<Longrightarrow> ahead n i j < n"
  by (auto simp: ahead_def)

lemma ahead_reach: "i < n \<Longrightarrow> j < n \<Longrightarrow> (i + ahead n i j) mod n = j"
  by (auto simp: ahead_def)

lemma ahead_walk: "i < n \<Longrightarrow> j < n \<Longrightarrow> d \<le> ahead n i j \<Longrightarrow> ahead n ((i + d) mod n) j = ahead n i j - d"
proof (cases "i + d < n")
  case True
  then show "i < n \<Longrightarrow> j < n \<Longrightarrow> d \<le> ahead n i j \<Longrightarrow> ?thesis" by (auto simp: ahead_def split: if_splits)
next
  case False
  assume a: "i < n" "j < n" "d \<le> ahead n i j"
  with ahead_less [of i n j] False have "i + d - n < n" by linarith
  with False have "(i + d) mod n = i + d - n" by (simp add: le_mod_geq)
  with a False show ?thesis by (auto simp: ahead_def split: if_splits)
qed

lemma ahead_Suc:
  assumes "i < n" and "j < n" and "i \<noteq> j"
  shows "ahead n ((i + 1) mod n) j = ahead n i j - 1" and "0 < ahead n i j"
  using assms ahead_walk [of i n j 1] by (auto simp: ahead_def split: if_splits)

definition calm :: "loop_state \<Rightarrow> bool" where
  "calm s \<longleftrightarrow> ls_order s \<noteq> [] \<and> distinct (ls_order s) \<and> ls_index s < length (ls_order s) \<and> (\<forall>n \<in> set (ls_order s). 0 \<le> fails_of s n)"

lemma tick_calm:
  assumes "tick tm s p t" and "calm s"
  shows "calm t"
proof -
  from tick_effect [OF assms(1)] assms(2) obtain i where i: "i < length (ls_order s)" "p = ls_order s ! i"
    "ls_order t = ls_order s" "\<forall>m. m \<noteq> p \<longrightarrow> turn_view t m = turn_view s m" "moved tm s i t" by (auto simp: calm_def)
  have "0 \<le> fails_of t m" if "m \<in> set (ls_order s)" for m
  proof (cases "m = p")
    case True
    with i(1,2,5) assms(2) show ?thesis by (auto simp: moved_def Let_def calm_def)
  next
    case False
    with i(4) have "fails_of t m = fails_of s m" by (intro view_fails) simp
    with assms(2) that show ?thesis by (simp add: calm_def)
  qed
  with i assms(2) show ?thesis
    by (auto simp: calm_def moved_def Let_def)
qed

lemma rank_decreases:
  assumes "tick tm s p t" and "calm s" and "j < length (ls_order s)" and "takes_turn tm s (ls_order s ! j)" and "p \<noteq> ls_order s ! j"
  shows "rank tm j t < rank tm j s"
proof -
  let ?n = "length (ls_order s)" and ?M = "nat (tm_max_retries tm) + 1"
  from tick_effect [OF assms(1)] assms(2) obtain i where i: "i < ?n" "next_turn tm s i" "p = ls_order s ! i"
    "ls_order t = ls_order s" "moved tm s i t" by (auto simp: calm_def)
  from assms(3,4) have "list_ex (eligible tm s True) (ls_order s)"
    by (auto simp: list_ex_iff dest!: takes_turn_eligible)
  with i(2) obtain d where d: "i = (ls_index s + d) mod ?n"
    "\<forall>e<d. \<not> takes_turn tm s (ls_order s ! ((ls_index s + e) mod ?n))" by (auto simp: next_turn_def)
  have idx: "ls_index s < ?n" using assms(2) by (simp add: calm_def)
  define a where "a = ahead ?n (ls_index s) j"
  have "d \<le> a"
    using d(2) assms(4) ahead_reach [OF idx assms(3)] by (force simp: a_def not_le [symmetric])
  then have ai: "ahead ?n i j = a - d" using ahead_walk [OF idx assms(3)] d(1) by (simp add: a_def)
  have "i \<noteq> j" using assms(5) i(3) by auto
  note step = ahead_Suc [OF i(1) assms(3) this]
  have f: "0 \<le> fails_of t (ls_order s ! ls_index t)"
    using tick_calm [OF assms(1,2)] i(4) by (simp add: calm_def)
  then have r: "nat (tm_max_retries tm - fails_of t (ls_order s ! ls_index t)) < ?M" by linarith
  have s: "a * ?M \<le> rank tm j s" by (simp add: rank_def a_def)
  from i(5) consider "ls_index t = (i + 1) mod ?n"
    | "ls_index t = i" "fails_of t p = fails_of s p + 1" "fails_of s p + 1 \<le> tm_max_retries tm"
    unfolding moved_def Let_def i(3) [symmetric] by blast
  then show ?thesis
  proof cases
    case 1
    have "rank tm j t = (a - d - 1) * ?M + nat (tm_max_retries tm - fails_of t (ls_order s ! ls_index t))"
      using step(1) ai by (simp add: rank_def i(4) 1)
    also have "\<dots> < (a - d - 1) * ?M + ?M" using r by simp
    also have "\<dots> = (a - d - 1 + 1) * ?M" by (simp only: add_mult_distrib mult_1)
    also have "\<dots> \<le> a * ?M" using step(2) ai by (intro mult_le_mono1) simp
    finally show ?thesis using s by simp
  next
    case 2
    have t: "rank tm j t = (a - d) * ?M + nat (tm_max_retries tm - (fails_of s p + 1))"
      using ai 2 i(3) by (simp add: rank_def i(4))
    show ?thesis
    proof (cases d)
      case 0
      with d(1) idx i(3) have "rank tm j s = a * ?M + nat (tm_max_retries tm - fails_of s p)" by (simp add: rank_def a_def)
      with t 0 2(3) show ?thesis by simp
    next
      case (Suc d')
      have "0 \<le> fails_of s p" using assms(2) i(1,3) by (simp add: calm_def)
      with t have "rank tm j t < (a - d) * ?M + ?M" by simp
      also have "\<dots> = (a - d + 1) * ?M" by (simp only: add_mult_distrib mult_1)
      also have "\<dots> \<le> a * ?M" using Suc \<open>d \<le> a\<close> by (intro mult_le_mono1) simp
      finally show ?thesis using s by simp
    qed
  qed
qed

text \<open>Once a peer may take the turn it may do so until it runs: what the others do leaves it alone, and time only helps.\<close>

lemma recovery_due_later:
  "recovery_due tm s q \<Longrightarrow> turn_view t q = turn_view s q \<Longrightarrow> ls_iteration s \<le> ls_iteration t \<Longrightarrow> recovery_due tm t q"
  by (auto simp: recovery_due_def turn_view_def split: option.splits if_splits)

lemma eligible_later:
  assumes "eligible tm s False q" and "turn_view t q = turn_view s q" and "ls_roles t = ls_roles s" and "ls_iteration s \<le> ls_iteration t"
  shows "eligible tm t False q"
proof -
  from assms(2) have "state_of t q = state_of s q" by (auto simp: state_of_def turn_view_def split: option.splits)
  with assms recovery_due_later [OF _ assms(2,4)] show ?thesis by (auto simp: eligible_def split: if_splits)
qed

lemma default_takes_turn: "eligible tm s False q \<Longrightarrow> q \<in> set (ls_order s) \<Longrightarrow> takes_turn tm s q"
  by (cases "has_default_healthy tm s") (auto simp: takes_turn_def has_default_healthy_def list_ex_iff)

lemma ticks_keep:
  assumes "ticks tm s ps u" and "calm s" and "q \<notin> set ps"
  shows "calm u \<and> ls_order u = ls_order s \<and> ls_roles u = ls_roles s \<and>
    ls_iteration u = ls_iteration s + int (length ps) \<and> turn_view u q = turn_view s q"
  using assms
proof (induction rule: ticks.induct)
  case (ticks_more tm s p t ps u)
  from tick_effect [OF ticks_more.hyps(1)] ticks_more.prems
  have "ls_order t = ls_order s" "ls_roles t = ls_roles s" "ls_iteration t = ls_iteration s + 1" "turn_view t q = turn_view s q"
    by (auto simp: calm_def)
  with ticks_more.IH [OF tick_calm [OF ticks_more.hyps(1) ticks_more.prems(1)]] ticks_more.prems(2) show ?case by simp
qed simp

lemma ready_peer_runs:
  assumes "ticks tm s ps u" and "calm s" and "j < length (ls_order s)" and "eligible tm s False (ls_order s ! j)"
    and "ls_order s ! j \<notin> set ps"
  shows "length ps \<le> rank tm j s"
  using assms
proof (induction rule: ticks.induct)
  case (ticks_more tm s p t ps u)
  let ?q = "ls_order s ! j"
  from tick_effect [OF ticks_more.hyps(1)] ticks_more.prems
  have t: "ls_order t = ls_order s" "ls_roles t = ls_roles s" "ls_iteration t = ls_iteration s + 1" "turn_view t ?q = turn_view s ?q"
    by (auto simp: calm_def)
  have "rank tm j t < rank tm j s"
    using ticks_more.prems by (intro rank_decreases [OF ticks_more.hyps(1)] default_takes_turn) auto
  moreover have "length ps \<le> rank tm j t"
    using ticks_more.prems t eligible_later [OF ticks_more.prems(3) t(4,2)]
    by (intro ticks_more.IH tick_calm [OF ticks_more.hyps(1)]) auto
  ultimately show ?case by simp
qed simp

lemma rank_bound:
  assumes "calm s" and "j < length (ls_order s)"
  shows "rank tm j s < length (ls_order s) * (nat (tm_max_retries tm) + 1)"
proof -
  let ?n = "length (ls_order s)" and ?M = "nat (tm_max_retries tm) + 1"
  have "nat (tm_max_retries tm - fails_of s (ls_order s ! ls_index s)) < ?M"
  proof -
    have "0 \<le> fails_of s (ls_order s ! ls_index s)" using assms(1) by (simp add: calm_def)
    then show ?thesis by linarith
  qed
  then have "rank tm j s < ahead ?n (ls_index s) j * ?M + ?M" by (simp add: rank_def)
  also have "\<dots> = (ahead ?n (ls_index s) j + 1) * ?M" by (simp only: add_mult_distrib mult_1)
  also have "\<dots> \<le> ?n * ?M" using ahead_less [of "ls_index s" ?n j] assms by (intro mult_le_mono1) (simp add: calm_def)
  finally show ?thesis .
qed

lemma ticks_append: "ticks tm s (ps @ qs) u \<Longrightarrow> \<exists>t. ticks tm s ps t \<and> ticks tm t qs u"
proof (induction ps arbitrary: s)
  case Nil
  then show ?case by (auto intro: ticks_none)
next
  case (Cons p ps)
  then show ?case by (auto intro: ticks_more) (meson ticks_more)
qed

text \<open>When the bench ends: the interval after the marker the turn manager counts from.\<close>

definition benched_since :: "loop_state \<Rightarrow> string \<Rightarrow> int option" where
  "benched_since s q =
     (case peer_of s q of None \<Rightarrow> None
      | Some p \<Rightarrow> if ph_state p \<noteq> Some ''degraded'' then None
                  else (case ph_cooldown p of None \<Rightarrow> ph_degraded_at p | Some c \<Rightarrow> Some c))"

definition wait_bound :: "turn_manager \<Rightarrow> loop_state \<Rightarrow> string \<Rightarrow> nat" where
  "wait_bound tm s q =
     (if state_of s q = Some ''degraded'' then nat (tm_interval tm) else 0) +
     length (ls_order s) * (nat (tm_max_retries tm) + 1)"

lemma view_state: "turn_view t q = turn_view s q \<Longrightarrow> state_of t q = state_of s q"
  by (cases "peer_of t q"; cases "peer_of s q") (simp_all add: state_of_def turn_view_def)

lemma view_benched: "turn_view t q = turn_view s q \<Longrightarrow> benched_since t q = benched_since s q"
  by (cases "peer_of t q"; cases "peer_of s q") (auto simp: benched_since_def turn_view_def split: option.split)

lemma eligible_after_interval:
  assumes "state_of s q \<noteq> Some ''halted''" and "map_of (ls_roles s) q \<noteq> Some ''recovery''"
    and "state_of s q = Some ''degraded'' \<Longrightarrow> 0 < tm_interval tm \<and> (\<exists>c \<le> ls_iteration s. benched_since s q = Some c)"
    and "turn_view t q = turn_view s q" and "ls_roles t = ls_roles s"
    and "ls_iteration t = ls_iteration s + (if state_of s q = Some ''degraded'' then int (nat (tm_interval tm)) else 0)"
  shows "eligible tm t False q"
proof -
  have st: "state_of t q = state_of s q" using assms(4) by (rule view_state)
  have b: "benched_since t q = benched_since s q" using assms(4) by (rule view_benched)
  have "recovery_due tm t q" if d: "state_of s q = Some ''degraded''"
  proof -
    from assms(3) [OF d] obtain c where c: "0 < tm_interval tm" "c \<le> ls_iteration s" "benched_since t q = Some c" using b by auto
    with assms(6) d have "tm_interval tm \<le> ls_iteration t - c" by simp
    moreover from st d have "state_of t q = Some ''degraded''" by simp
    ultimately show ?thesis using c(1,3)
      by (auto simp: recovery_due_def benched_since_def state_of_def split: option.split_asm if_splits)
  qed
  with st assms(1,2,5) show ?thesis by (auto simp: eligible_def)
qed


text \<open>A tick as a function of its outcome: whether it succeeded, was rate-limited, and how long it took.\<close>

definition run_tick :: "turn_manager \<Rightarrow> bool \<times> bool \<times> int \<Rightarrow> loop_state \<Rightarrow> (string \<times> loop_state) option" where
  "run_tick tm oc s =
     (let (success, rate_limited, dt) = oc in
      case current tm s of
        (Inr p, s1) \<Rightarrow>
          (case advance tm success rate_limited s1 of
             (Inr _, s2) \<Rightarrow>
               (case update_peer_health p success rate_limited (record_tick_accounting success dt (Some p) rate_limited s2) of
                  (Inr _, s3) \<Rightarrow> Some (p, s3)
                | _ \<Rightarrow> None)
           | _ \<Rightarrow> None)
      | _ \<Rightarrow> None)"

fun run_ticks :: "turn_manager \<Rightarrow> (bool \<times> bool \<times> int) list \<Rightarrow> loop_state \<Rightarrow> (string list \<times> loop_state) option" where
  "run_ticks tm [] s = Some ([], s)"
| "run_ticks tm (oc # ocs) s =
     (case run_tick tm oc s of
        None \<Rightarrow> None
      | Some (p, t) \<Rightarrow> (case run_ticks tm ocs t of None \<Rightarrow> None | Some (ps, u) \<Rightarrow> Some (p # ps, u)))"

lemma run_tick_tick: "run_tick tm oc s = Some (p, t) \<Longrightarrow> tick tm s p t"
  by (auto simp: run_tick_def split: prod.splits sum.splits intro: tick.intros same_turns_refl)

lemma run_ticks_ticks: "run_ticks tm ocs s = Some (ps, u) \<Longrightarrow> ticks tm s ps u"
  by (induction tm ocs s arbitrary: ps u rule: run_ticks.induct)
     (auto split: option.splits prod.splits intro: ticks.intros run_tick_tick)

definition two_peers :: loop_state where
  "two_peers = default_state [''a'', ''b'']"

definition usual_manager :: turn_manager where
  "usual_manager = \<lparr>tm_max_retries = 1, tm_interval = 8\<rparr>"

definition bad_ticks :: "(bool \<times> bool \<times> int) list" where
  "bad_ticks = replicate 4 (False, False, 60)"


section \<open>A halt is for ever\<close>

definition all_halted :: "loop_state \<Rightarrow> bool" where
  "all_halted s \<longleftrightarrow> (\<forall>n \<in> set (ls_order s). state_of s n = Some ''halted'')"

definition out_of_order :: "loop_state \<Rightarrow> bool" where
  "out_of_order s \<longleftrightarrow> (\<forall>n \<in> set (ls_order s). state_of s n = Some ''halted'' \<or> state_of s n = Some ''degraded'')"

lemma halted_health: "ph_state h = Some ''halted'' \<Longrightarrow> ph_state (health_after it success rl h) \<in> {Some ''halted'', Some ''degraded''}"
  by (simp add: health_after_def Let_def)

lemma mark_halted_fields [simp]:
  "ls_order (mark_halted p s) = ls_order s" "ls_index (mark_halted p s) = ls_index s"
  "state_of (mark_halted p s) n = (if n = p \<and> peer_of s p \<noteq> None then Some ''halted'' else state_of s n)"
  "peer_of (mark_halted p s) n = None \<longleftrightarrow> peer_of s n = None"
  by (auto simp: mark_halted_def state_of_def split: option.splits)

lemma fold_mark_halted:
  "ls_order (fold mark_halted ps s) = ls_order s" "ls_index (fold mark_halted ps s) = ls_index s"
  "peer_of (fold mark_halted ps s) n = None \<longleftrightarrow> peer_of s n = None"
  "state_of (fold mark_halted ps s) n = (if n \<in> set ps \<and> peer_of s n \<noteq> None then Some ''halted'' else state_of s n)"
  by (induction ps arbitrary: s) (simp_all del: not_None_eq, metis)

lemma state_of_peer: "peer_of s n = Some h \<Longrightarrow> state_of s n = ph_state h"
  by (simp add: state_of_def)

lemma advance_state:
  assumes "current tm s = (Inr p, s)" and "advance tm success rl s = (Inr (), t)"
  shows "state_of t n = state_of s n"
proof -
  from advance_effect [OF assms] obtain h where "peer_of s p = Some h"
    "if rl \<or> success then t = rotate_turn (set_peer p (h\<lparr>ph_fails := 0\<rparr>) s)
     else if tm_max_retries tm < ph_fails h + 1 then t = rotate_turn (set_peer p (h\<lparr>ph_fails := 0\<rparr>) (set_peer p (h\<lparr>ph_fails := ph_fails h + 1\<rparr>) s))
     else t = set_peer p (h\<lparr>ph_fails := ph_fails h + 1\<rparr>) s" by blast
  then show ?thesis by (auto simp: state_of_def split: if_splits)
qed

text \<open>What a tick does to the states of the peers: those that did not run keep theirs, the one that ran gets a new verdict.\<close>

lemma tick_states:
  assumes "tick tm s p t" and "ls_index s < length (ls_order s)"
  shows "\<exists>h it success rl. ph_state h = state_of s p \<and> state_of t p = ph_state (health_after it success rl h) \<and>
    (\<forall>m. m \<noteq> p \<longrightarrow> state_of t m = state_of s m)"
  using assms(1)
proof (cases rule: tick.cases)
  case (tick s0 s1 s2 success rl s3 dt s4 s5)
  have l: "ls_index s0 < length (ls_order s0)" using assms(2) tick(1) by (simp add: same_turns_def)
  from current_next [OF l, of tm] tick(2) obtain i where "s1 = s0\<lparr>ls_index := i\<rparr>" by auto
  then have "turn_view s1 m = turn_view s m" for m using tick(1) by (simp add: same_turns_def)
  then have 1: "state_of s1 m = state_of s m" for m by (rule view_state)
  have 2: "state_of s2 m = state_of s1 m" for m using tick(3) by (intro view_state) (simp add: same_turns_def)
  note 3 = advance_state [OF current_again [OF tick(2) l tick(3)] tick(4)]
  have 4: "state_of s4 m = state_of s3 m" for m using tick(5) by (intro view_state) (simp add: same_turns_def turn_view_def)
  have 5: "state_of t m = state_of s5 m" for m using tick(7) by (intro view_state) (simp add: same_turns_def)
  from tick(6) obtain h where h: "peer_of s4 p = Some h" "s5 = set_peer p (health_after (ls_iteration s4) success rl h) s4"
    by (auto simp: update_peer_health_def update_peer_iff split: option.splits)
  have "ph_state h = state_of s p" using state_of_peer [OF h(1)] 1 2 3 4 by simp
  moreover have "state_of t p = ph_state (health_after (ls_iteration s4) success rl h)" using 5 h(2) by (simp add: state_of_def)
  moreover have "state_of t m = state_of s m" if "m \<noteq> p" for m
  proof -
    have "state_of s5 m = state_of s4 m" using h(2) that by (simp add: state_of_def)
    with 1 2 3 4 5 show ?thesis by simp
  qed
  ultimately show ?thesis by blast
qed

lemma tick_out_of_order:
  assumes "tick tm s p t" and "calm s" and "all_halted s"
  shows "out_of_order t"
proof -
  from tick_effect [OF assms(1)] assms(2) have o: "ls_order t = ls_order s" "p \<in> set (ls_order s)" by (auto simp: calm_def)
  from tick_states [OF assms(1)] assms(2) obtain h it success rl where
    h: "ph_state h = state_of s p" "state_of t p = ph_state (health_after it success rl h)" "\<forall>m. m \<noteq> p \<longrightarrow> state_of t m = state_of s m"
    by (auto simp: calm_def)
  with assms(3) o(2) have "ph_state h = Some ''halted''" by (simp add: all_halted_def)
  from halted_health [OF this] h(2) have "state_of t p = Some ''halted'' \<or> state_of t p = Some ''degraded''" by simp
  with h(3) assms(3) o(1) show ?thesis by (auto simp: out_of_order_def all_halted_def)
qed

lemma res_all_out_of_service:
  "\<forall>n \<in> set ps. state_of s n = Some ''halted'' \<or> state_of s n = Some ''degraded'' \<Longrightarrow> res_all (out_of_service s) ps = Inr True"
  by (induction ps) (auto simp: out_of_service_def state_of_def split: option.splits)

lemma state_known: "state_of s n = Some x \<Longrightarrow> peer_of s n \<noteq> None"
  by (auto simp: state_of_def split: option.splits)

lemma maybe_halt_out_of_order:
  assumes "out_of_order t" and "ls_index t < length (ls_order t)" and "hi_verify io w = (Inr (), w1)" and "hi_exists io w1 = (Inr b, w2)"
  shows "\<exists>w3. maybe_halt io (t, w) = (Inr (Some halt_reason_text), (halt_all t, w3))" and "all_halted (halt_all t)"
proof -
  from assms(1) have r: "res_all (out_of_service t) (ls_order t) = Inr True"
    by (intro res_all_out_of_service) (simp add: out_of_order_def)
  show "\<exists>w3. maybe_halt io (t, w) = (Inr (Some halt_reason_text), (halt_all t, w3))"
    using assms r by (cases b) (auto simp: maybe_halt_def halt_all_def fold_mark_halted Let_def)
  show "all_halted (halt_all t)"
    using assms(1) by (auto simp: all_halted_def halt_all_def fold_mark_halted out_of_order_def dest: state_known)
qed

text \<open>
  a halt is for ever. Once the loop has halted every peer, no later tick can bring one back: whatever
  its outcome, a success included, the loop halts again at the end of it and every peer is halted as
  before. Nothing in the loop turns \<open>halted\<close> into \<open>healthy\<close>, although \<open>HALTED.md\<close> promises that the loop
  picks back up once the file is deleted.
\<close>

theorem halt_is_for_ever:
  assumes "calm s" and "all_halted s" and "tick tm s p t"
    and "hi_verify io w = (Inr (), w1)" and "hi_exists io w1 = (Inr b, w2)"
  shows "\<exists>u w3. maybe_halt io (t, w) = (Inr (Some halt_reason_text), (u, w3)) \<and> all_halted u"
  using maybe_halt_out_of_order [OF tick_out_of_order [OF assms(3,1,2)] _ assms(4,5)] tick_calm [OF assms(3,1)]
  by (auto simp: calm_def)

definition halted_state :: loop_state where
  "halted_state = halt_all two_peers"

definition quiet_io :: "unit halt_io" where
  "quiet_io = \<lparr>hi_verify = \<lambda>w. (Inr (), w), hi_exists = \<lambda>w. (Inr False, w), hi_write = \<lambda>s w. (Inr (), w)\<rparr>"

theorem halt_is_for_ever_witness:
  "\<exists>p t u. run_tick usual_manager (True, False, 60) halted_state = Some (p, t) \<and>
     maybe_halt quiet_io (t, ()) = (Inr (Some halt_reason_text), (u, ())) \<and> all_halted u"
proof -
  have "run_tick usual_manager (True, False, 60) halted_state \<noteq> None" by code_simp
  then obtain p t where r: "run_tick usual_manager (True, False, 60) halted_state = Some (p, t)" by auto
  have "calm halted_state" "all_halted halted_state" by code_simp+
  from halt_is_for_ever [OF this run_tick_tick [OF r], of quiet_io "()" "()" False "()"] r show ?thesis
    by (auto simp: quiet_io_def)
qed

end
