(* ===== verification/Phases.thy ===== *)
theory Phases
  imports LoopState
begin

text \<open>
  The counters that decide when a run ends: the results of the gates and the convergence wall
  (\<open>peers/stuck_progress.py\<close>, \<open>_record_goal_results\<close> of \<open>peers/driver_helpers.py\<close>), the two phases of
  convergence (\<open>peers/skeptic_engine.py\<close>), the phase of a tick (\<open>peers/driver_helpers.py\<close>) and the
  backoff after rate limits (\<open>peers/rate_limit.py\<close>). \<open>int()\<close> and \<open>str()\<close> of configuration values are
  parameters; \<open>None\<close> is the \<open>TypeError\<close> or \<open>ValueError\<close> that the code catches.
\<close>

section \<open>Results of the gates\<close>

record goal_result =
  gr_state :: string
  gr_diagnostic :: string
  gr_duration :: int

type_synonym results = "(string \<times> goal_result) list"

definition dict_pop :: "'k \<Rightarrow> ('k \<times> 'v) list \<Rightarrow> ('k \<times> 'v) list" where
  "dict_pop k d = filter (\<lambda>(k', _). k' \<noteq> k) d"

lemma map_of_dict_pop [simp]: "map_of (dict_pop k d) = (map_of d)(k := None)"
  by (induction d) (auto simp: dict_pop_def)

definition stuck_count :: "loop_state \<Rightarrow> string \<Rightarrow> int" where
  "stuck_count s gid = lookup_default 0 (ls_stuck s) gid"

definition record_result :: "bool \<Rightarrow> string \<times> goal_result \<Rightarrow> loop_state \<Rightarrow> loop_state" where
  "record_result increment gr s =
     (let (gid, r) = gr;
          prev = map_option gs_state (map_of (ls_goals s) gid);
          s1 = s\<lparr>ls_goals := dict_set (ls_goals s) gid
                   \<lparr>gs_state = gr_state r, gs_diagnostic = gr_diagnostic r, gs_duration = gr_duration r\<rparr>\<rparr> in
      if gr_state r = ''fail'' then
        (let n = (if prev = Some ''fail''
                  then (let current = stuck_count s gid in if increment then current + 1 else max current 1)
                  else 1) in
         s1\<lparr>ls_stuck := dict_set (ls_stuck s) gid n\<rparr>)
      else s1\<lparr>ls_stuck := dict_pop gid (ls_stuck s)\<rparr>)"

definition record_goal_results :: "bool \<Rightarrow> results \<Rightarrow> loop_state \<Rightarrow> loop_state" where
  "record_goal_results increment results s = fold (record_result increment) results s"

section \<open>The convergence wall\<close>

definition default_stuck_halt_after :: int where
  "default_stuck_halt_after = 5"

definition default_stuck_halt_gates :: "string list" where
  "default_stuck_halt_gates = [''tests-pass'', ''no-prior-regression'']"

definition config_goals_map :: "loop_state \<Rightarrow> (string \<times> json) list" where
  "config_goals_map s =
     (case ls_config s of JObj config \<Rightarrow> obj_or_empty (jget_default config ''goals'' (JObj [])) | _ \<Rightarrow> [])"

text \<open>\<open>tuple(str(x) for x in v)\<close>: a string gives its characters, a mapping its keys, a scalar a \<open>TypeError\<close>.\<close>

function py_chars :: "string \<Rightarrow> string list" where
  "py_chars [] = []"
| "py_chars (c # cs) = (c # takeWhile cont_byte cs) # py_chars (dropWhile cont_byte cs)"
  by pat_completeness auto
termination by (relation "measure length") (auto simp: le_imp_less_Suc length_dropWhile_le)

definition str_tuple :: "(json \<Rightarrow> string) \<Rightarrow> json \<Rightarrow> string list res" where
  "str_tuple str_of v =
     (case v of
        JList xs \<Rightarrow> Inr (map str_of xs)
      | JStr s \<Rightarrow> Inr (py_chars s)
      | JObj kvs \<Rightarrow> Inr (map fst kvs)
      | _ \<Rightarrow> Inl TypeError)"

definition watched_gates :: "(json \<Rightarrow> string) \<Rightarrow> loop_state \<Rightarrow> string list res" where
  "watched_gates str_of s =
     (let raw_gates = jget (config_goals_map s) ''stuck_halt_gates'' in
      if truthy raw_gates then str_tuple str_of raw_gates else Inr default_stuck_halt_gates)"

definition stuck_threshold :: "(json \<Rightarrow> int option) \<Rightarrow> loop_state \<Rightarrow> int" where
  "stuck_threshold to_int s =
     (case to_int (jget_default (config_goals_map s) ''stuck_halt_after'' (JInt default_stuck_halt_after)) of
        None \<Rightarrow> default_stuck_halt_after
      | Some n \<Rightarrow> n)"

definition worse :: "int \<Rightarrow> (string \<Rightarrow> int) \<Rightarrow> string \<Rightarrow> string option \<times> int \<Rightarrow> string option \<times> int" where
  "worse threshold count gate worst =
     (if threshold \<le> count gate \<and> snd worst < count gate then (Some gate, count gate) else worst)"

definition stuck_text :: "string \<Rightarrow> string" where
  "stuck_text gate = ''stuck:'' @ gate"

definition compute_stuck_gate_halt_reason :: "(json \<Rightarrow> int option) \<Rightarrow> (json \<Rightarrow> string) \<Rightarrow> loop_state \<Rightarrow> string option res" where
  "compute_stuck_gate_halt_reason to_int str_of s =
     (let threshold = stuck_threshold to_int s in
      if threshold \<le> 0 then Inr None
      else res_bind (watched_gates str_of s) (\<lambda>watched.
        Inr (map_option stuck_text (fst (fold (worse threshold (stuck_count s)) watched (None, -1))))))"

definition implement_progress_reset_gates :: "string list" where
  "implement_progress_reset_gates = [''tests-pass'', ''no-prior-regression'']"

definition resolve_progress_reset_gates :: "(json \<Rightarrow> string) \<Rightarrow> loop_state \<Rightarrow> string \<Rightarrow> string list res" where
  "resolve_progress_reset_gates str_of s mode_name =
     (let raw_gates = jget (config_goals_map s) ''stuck_progress_reset_gates'' in
      if raw_gates \<noteq> JNull then str_tuple str_of raw_gates
      else if mode_name = ''implement'' then Inr implement_progress_reset_gates
      else Inr [])"

definition reset_stuck_on_progress :: "(json \<Rightarrow> string) \<Rightarrow> int \<Rightarrow> string \<Rightarrow> (loop_state, unit) act" where
  "reset_stuck_on_progress str_of steps mode_name s =
     (case resolve_progress_reset_gates str_of s mode_name of
        Inl e \<Rightarrow> (Inl e, s)
      | Inr gates \<Rightarrow>
          if gates = [] then (Inr (), s)
          else
            (let s1 = (case ls_plan_steps s of
                         None \<Rightarrow> s
                       | Some prev \<Rightarrow> if prev < steps then s\<lparr>ls_stuck := fold dict_pop gates (ls_stuck s)\<rparr> else s) in
             (Inr (), s1\<lparr>ls_plan_steps := Some steps\<rparr>)))"

text \<open>A line that starts with a checked box, and how many of them a text has.\<close>

definition blank_or_tab :: "char \<Rightarrow> bool" where
  "blank_or_tab c \<longleftrightarrow> c = CHR '' '' \<or> byte c = 9"

definition done_step_line :: "string \<Rightarrow> bool" where
  "done_step_line line =
     (case dropWhile blank_or_tab line of
        (c # rest) \<Rightarrow> c = CHR ''-'' \<and>
          (let box = dropWhile blank_or_tab rest in startswith box ''[x]'' \<or> startswith box ''[X]'')
      | [] \<Rightarrow> False)"

definition count_done_plan_steps :: "string res \<Rightarrow> int" where
  "count_done_plan_steps file =
     (case file of Inl _ \<Rightarrow> 0 | Inr text \<Rightarrow> int (length (filter done_step_line (split_on (char_of (10::nat)) text))))"

section \<open>The two phases of convergence\<close>

definition phase_b_skeptic_gates :: "string list" where
  "phase_b_skeptic_gates = [''blind-review'', ''honesty-audit'', ''concerns-resolved'']"

definition default_phase_a_n :: int where
  "default_phase_a_n = 5"

record skeptic =
  sk_mode :: string
  sk_gates :: "string list"
  sk_phase_a :: int
  sk_phase_b :: int

text \<open>The first plan that parses and has a threshold; \<open>None\<close> is the \<open>PlanValidationError\<close> of the parser.\<close>

definition implement_phase_a_n :: "int option list \<Rightarrow> int" where
  "implement_phase_a_n plans =
     (case find (\<lambda>p. case p of Some n \<Rightarrow> 0 \<le> n | None \<Rightarrow> False) plans of
        Some (Some n) \<Rightarrow> n
      | _ \<Rightarrow> default_phase_a_n)"

definition resolve_convergence_state :: "string \<Rightarrow> string \<Rightarrow> int \<Rightarrow> int \<Rightarrow> int \<Rightarrow> int \<Rightarrow> string" where
  "resolve_convergence_state mode_name phase clean phase_a_n phase_b_n extra =
     (if mode_name \<noteq> ''implement'' then phase
      else if phase = ''complete'' then ''complete''
      else if phase = ''A'' then (if phase_a_n \<le> clean then ''B'' else ''A'')
      else if phase = ''B'' then (if phase_b_n \<le> extra then ''complete'' else ''B'')
      else ''A'')"

definition passed :: "results \<Rightarrow> string \<Rightarrow> bool" where
  "passed results gid = (case map_of results gid of None \<Rightarrow> False | Some r \<Rightarrow> gr_state r = ''pass'')"

definition all_hard_green :: "results \<Rightarrow> bool" where
  "all_hard_green results \<longleftrightarrow> results \<noteq> [] \<and> list_all (\<lambda>(_, r). gr_state r = ''pass'') results"

definition skeptic_ok :: "skeptic \<Rightarrow> results \<Rightarrow> bool" where
  "skeptic_ok sk results = list_all (passed results) (sk_gates sk)"

definition update_two_phase_counters :: "skeptic \<Rightarrow> results \<Rightarrow> loop_state \<Rightarrow> loop_state" where
  "update_two_phase_counters sk results s =
     (if sk_mode sk \<noteq> ''implement'' then s
      else
        (let green = (if all_hard_green results then ls_green_ticks s + 1 else 0);
             phase = ls_convergence s;
             extra = (if phase = ''B'' then (if skeptic_ok sk results then ls_phase_b_ticks s + 1 else 0)
                      else ls_phase_b_ticks s) in
         s\<lparr>ls_green_ticks := green, ls_phase_b_ticks := extra,
           ls_convergence := resolve_convergence_state (sk_mode sk) phase green (sk_phase_a sk) (sk_phase_b sk) extra\<rparr>))"

section \<open>The phase of a tick\<close>

definition phase_0_ticks :: "string list" where
  "phase_0_ticks = [''recon'', ''alignment'', ''architecture'']"

definition phase_implementation :: string where
  "phase_implementation = ''implementation''"

definition resolve_phase :: "string \<Rightarrow> int \<Rightarrow> string" where
  "resolve_phase mode_name n =
     (if mode_name \<noteq> ''implement'' then phase_implementation
      else if 0 \<le> n \<and> n < int (length phase_0_ticks) then phase_0_ticks ! nat n
      else phase_implementation)"

definition resolve_peer_role :: "string \<Rightarrow> string \<Rightarrow> int \<Rightarrow> string" where
  "resolve_peer_role mode_name phase n =
     (if mode_name \<noteq> ''implement'' then ''normal''
      else if phase \<noteq> phase_implementation then ''normal''
      else if (n - 3) mod 2 = 0 then ''implementer'' else ''reviewer'')"

definition should_checkpoint :: "bool \<Rightarrow> string option \<Rightarrow> string \<Rightarrow> bool" where
  "should_checkpoint marker prev cur =
     (if prev \<noteq> Some ''architecture'' \<or> cur \<noteq> phase_implementation then False else marker)"

definition rate_limit_backoff_cap :: int where
  "rate_limit_backoff_cap = 120"

definition rate_limit_backoff :: "int \<Rightarrow> int" where
  "rate_limit_backoff streak =
     (if streak \<le> 0 then 0 else min (15 * 2 ^ nat (streak - 1)) rate_limit_backoff_cap)"

section \<open>The stuck counter is a streak\<close>

text \<open>The reference: how often in a row, up to now, a gate was evaluated as failed.\<close>

definition streak_step :: "string \<Rightarrow> results \<Rightarrow> int \<Rightarrow> int" where
  "streak_step gid r n = (case map_of r gid of None \<Rightarrow> n | Some x \<Rightarrow> if gr_state x = ''fail'' then n + 1 else 0)"

definition streak :: "string \<Rightarrow> results list \<Rightarrow> int" where
  "streak gid rs = fold (streak_step gid) rs 0"

definition last_state :: "loop_state \<Rightarrow> string \<Rightarrow> string option" where
  "last_state s gid = map_option gs_state (map_of (ls_goals s) gid)"

definition streak_inv :: "string \<Rightarrow> int \<Rightarrow> loop_state \<Rightarrow> bool" where
  "streak_inv gid n s \<longleftrightarrow> stuck_count s gid = n \<and> 0 \<le> n \<and> (last_state s gid = Some ''fail'' \<longleftrightarrow> n \<noteq> 0)"

lemma record_result_other:
  "gid' \<noteq> gid \<Longrightarrow> stuck_count (record_result b (gid', r) s) gid = stuck_count s gid \<and> last_state (record_result b (gid', r) s) gid = last_state s gid"
  by (simp add: record_result_def stuck_count_def last_state_def lookup_default_def Let_def)

lemma record_result_same:
  "streak_inv gid n s \<Longrightarrow> streak_inv gid (if gr_state r = ''fail'' then n + 1 else 0) (record_result True (gid, r) s)"
  by (auto simp: streak_inv_def record_result_def stuck_count_def last_state_def lookup_default_def Let_def)

lemma record_results_streak:
  "distinct (map fst r) \<Longrightarrow> streak_inv gid n s \<Longrightarrow> streak_inv gid (streak_step gid r n) (record_goal_results True r s)"
proof (induction r arbitrary: n s)
  case Nil
  then show ?case by (simp add: record_goal_results_def streak_step_def)
next
  case (Cons g r)
  obtain k x where g: "g = (k, x)" by (cases g)
  show ?case
  proof (cases "k = gid")
    case True
    with Cons.prems(1) g have "map_of r gid = None" by (auto simp: map_of_eq_None_iff)
    with Cons.IH [OF _ record_result_same [OF Cons.prems(2), of x]] Cons.prems(1) g True show ?thesis
      by (simp add: record_goal_results_def streak_step_def)
  next
    case False
    from record_result_other [OF False, of True x s] Cons.prems(2) have "streak_inv gid n (record_result True (k, x) s)"
      by (simp add: streak_inv_def)
    with Cons.IH [OF _ this] Cons.prems(1) g False show ?thesis
      by (simp add: record_goal_results_def streak_step_def)
  qed
qed

lemma recorded_streak:
  "list_all (\<lambda>r. distinct (map fst r)) rs \<Longrightarrow> streak_inv gid n s \<Longrightarrow>
     streak_inv gid (fold (streak_step gid) rs n) (fold (record_goal_results True) rs s)"
  by (induction rs arbitrary: n s) (auto intro: record_results_streak)

text \<open>
  the stuck counter is the streak of red evaluations. Recording the results of tick after tick, the
  counter of a gate is how often in a row it was evaluated as failed up to now, although the code
  keeps it incrementally from the previous state of the gate and drops the entry when the gate is green.
\<close>

theorem stuck_counter_is_streak:
  assumes "list_all (\<lambda>r. distinct (map fst r)) rs" and "ls_goals s = []" and "ls_stuck s = []"
  shows "stuck_count (fold (record_goal_results True) rs s) gid = streak gid rs"
proof -
  have "streak_inv gid 0 s" using assms(2,3) by (simp add: streak_inv_def stuck_count_def last_state_def lookup_default_def)
  from recorded_streak [OF assms(1) this] show ?thesis by (simp add: streak_inv_def streak_def)
qed

section \<open>The wall is exact\<close>

definition worst_inv :: "int \<Rightarrow> (string \<Rightarrow> int) \<Rightarrow> string set \<Rightarrow> string option \<times> int \<Rightarrow> bool" where
  "worst_inv t count seen w \<longleftrightarrow>
     (case fst w of
        None \<Rightarrow> snd w = -1 \<and> (\<forall>h \<in> seen. count h < t)
      | Some g \<Rightarrow> g \<in> seen \<and> snd w = count g \<and> t \<le> count g \<and> (\<forall>h \<in> seen. count h \<le> count g))"

lemma worse_inv: "0 < t \<Longrightarrow> worst_inv t count seen w \<Longrightarrow> worst_inv t count (insert g seen) (worse t count g w)"
  by (cases w; cases "fst w") (auto simp: worst_inv_def worse_def dest: order_trans less_imp_le)

lemma fold_worse: "0 < t \<Longrightarrow> worst_inv t count seen w \<Longrightarrow> worst_inv t count (seen \<union> set gs) (fold (worse t count) gs w)"
proof (induction gs arbitrary: seen w)
  case (Cons g gs)
  from Cons.IH [OF Cons.prems(1) worse_inv [OF Cons.prems, of g]] show ?case by simp
qed simp

lemma wall_exact:
  assumes "watched_gates str_of s = Inr watched" and "compute_stuck_gate_halt_reason to_int str_of s = Inr reason"
  shows "(reason = None \<longleftrightarrow> stuck_threshold to_int s \<le> 0 \<or> (\<forall>g \<in> set watched. stuck_count s g < stuck_threshold to_int s)) \<and>
    (\<forall>x. reason = Some x \<longrightarrow> (\<exists>g \<in> set watched. x = stuck_text g \<and> stuck_threshold to_int s \<le> stuck_count s g \<and>
       (\<forall>h \<in> set watched. stuck_count s h \<le> stuck_count s g)))"
proof (cases "stuck_threshold to_int s \<le> 0")
  case True
  with assms(2) show ?thesis by (simp add: compute_stuck_gate_halt_reason_def)
next
  case False
  define w where "w = fold (worse (stuck_threshold to_int s) (stuck_count s)) watched (None, -1)"
  have "worst_inv (stuck_threshold to_int s) (stuck_count s) ({} \<union> set watched) w"
    unfolding w_def using False by (intro fold_worse) (simp_all add: worst_inv_def)
  moreover from assms False have "reason = map_option stuck_text (fst w)"
    by (simp add: compute_stuck_gate_halt_reason_def w_def)
  ultimately show ?thesis using False
    by (cases "fst w") (auto simp: worst_inv_def not_less)
qed

text \<open>
  the convergence wall is exact. The run is told to stop with \<open>stuck:<gate>\<close> if and only if the wall
  is enabled and some watched gate has reached the threshold, and the gate it names is one with the
  highest count of all watched gates.
\<close>

theorem stuck_halt_exact:
  assumes "watched_gates str_of s = Inr watched" and "compute_stuck_gate_halt_reason to_int str_of s = Inr reason"
  shows "(reason = None \<longleftrightarrow> stuck_threshold to_int s \<le> 0 \<or> (\<forall>g \<in> set watched. stuck_count s g < stuck_threshold to_int s)) \<and>
    (\<forall>x. reason = Some x \<longrightarrow> (\<exists>g \<in> set watched. x = stuck_text g \<and> stuck_threshold to_int s \<le> stuck_count s g \<and>
       (\<forall>h \<in> set watched. stuck_count s h \<le> stuck_count s g)))"
  using assms by (rule wall_exact)

section \<open>Progress forgives\<close>

lemma map_of_fold_pop: "map_of (fold dict_pop gs d) k = (if k \<in> set gs then None else map_of d k)"
  by (induction gs arbitrary: d) auto

lemma stuck_count_forgiven: "stuck_count (s\<lparr>ls_stuck := fold dict_pop gs d, ls_plan_steps := p\<rparr>) g = (if g \<in> set gs then 0 else lookup_default 0 d g)"
  by (simp add: stuck_count_def lookup_default_def map_of_fold_pop)

text \<open>
  a run that completes plan steps is not killed as stuck. In implement mode with the default gates,
  once more steps are done than at the previous tick, no watched gate counts any more and the next
  check of the wall lets the run go on, whatever the counters were.
\<close>

theorem progress_forgives:
  assumes "ls_plan_steps s = Some prev" and "prev < steps"
    and "jget (config_goals_map s) ''stuck_halt_gates'' = JNull" and "jget (config_goals_map s) ''stuck_progress_reset_gates'' = JNull"
    and "reset_stuck_on_progress str_of steps ''implement'' s = (r, s')"
  shows "r = Inr () \<and> compute_stuck_gate_halt_reason to_int str_of s' = Inr None"
proof -
  have s': "s' = s\<lparr>ls_stuck := fold dict_pop default_stuck_halt_gates (ls_stuck s), ls_plan_steps := Some steps\<rparr>" "r = Inr ()"
    using assms by (simp_all add: reset_stuck_on_progress_def resolve_progress_reset_gates_def
        implement_progress_reset_gates_def default_stuck_halt_gates_def split: if_splits)
  then have c: "config_goals_map s' = config_goals_map s" by (simp add: config_goals_map_def)
  with assms(3) have w: "watched_gates str_of s' = Inr default_stuck_halt_gates" by (simp add: watched_gates_def)
  then obtain reason where reason: "compute_stuck_gate_halt_reason to_int str_of s' = Inr reason"
    by (cases "stuck_threshold to_int s' \<le> 0") (simp_all add: compute_stuck_gate_halt_reason_def)
  have "stuck_count s' g = 0" if "g \<in> set default_stuck_halt_gates" for g
    unfolding s'(1) stuck_count_forgiven using that by simp
  with wall_exact [OF w reason] reason s'(2) show ?thesis by auto
qed

text \<open>
  The comment in the code asks that the gates forgiven mirror the gates watched. They do by default; a
  gate watched by configuration alone is not forgiven, so a run that completes steps is stopped on it.
\<close>

lemma custom_wall_not_forgiven:
  assumes "jget (config_goals_map s) ''stuck_halt_gates'' = JList [JStr g]" and "str_of (JStr g) = g"
    and "jget (config_goals_map s) ''stuck_progress_reset_gates'' = JNull" and "g \<notin> set implement_progress_reset_gates"
    and "0 < stuck_threshold to_int s" and "stuck_threshold to_int s \<le> stuck_count s g"
    and "reset_stuck_on_progress str_of steps ''implement'' s = (Inr (), s')"
  shows "compute_stuck_gate_halt_reason to_int str_of s' = Inr (Some (stuck_text g))"
proof -
  from assms(3,7) have c: "config_goals_map s' = config_goals_map s" "stuck_count s' g = stuck_count s g"
    using assms(4) by (auto simp: reset_stuck_on_progress_def resolve_progress_reset_gates_def config_goals_map_def
        implement_progress_reset_gates_def stuck_count_def lookup_default_def split: option.splits if_splits)
  then have "stuck_threshold to_int s' = stuck_threshold to_int s" "watched_gates str_of s' = Inr [g]"
    using assms(1,2) by (simp_all add: stuck_threshold_def watched_gates_def str_tuple_def)
  with c(2) assms(5,6) show ?thesis by (simp add: compute_stuck_gate_halt_reason_def worse_def)
qed

section \<open>Completion is earned in two phases\<close>

definition green_run :: "results list \<Rightarrow> int \<Rightarrow> bool" where
  "green_run rs n \<longleftrightarrow> (\<exists>as gs. rs = as @ gs \<and> int (length gs) = n \<and> list_all all_hard_green gs)"

definition skeptic_run :: "skeptic \<Rightarrow> results list \<Rightarrow> int \<Rightarrow> bool" where
  "skeptic_run sk rs n \<longleftrightarrow>
     (\<exists>as gs bs ks. rs = as @ gs @ bs @ ks \<and> sk_phase_a sk \<le> int (length gs) \<and> list_all all_hard_green gs \<and>
       int (length ks) = n \<and> list_all (skeptic_ok sk) ks)"

definition earned_twice :: "skeptic \<Rightarrow> results list \<Rightarrow> bool" where
  "earned_twice sk rs \<longleftrightarrow>
     (\<exists>as gs bs ks cs. rs = as @ gs @ bs @ ks @ cs \<and> sk_phase_a sk \<le> int (length gs) \<and> list_all all_hard_green gs \<and>
       sk_phase_b sk \<le> int (length ks) \<and> list_all (skeptic_ok sk) ks)"

lemma green_run_step: "green_run rs n \<Longrightarrow> green_run (rs @ [r]) (if all_hard_green r then n + 1 else 0)"
  unfolding green_run_def
proof (elim exE conjE)
  fix as gs
  assume g: "rs = as @ gs" "int (length gs) = n" "list_all all_hard_green gs"
  show "\<exists>as gs. rs @ [r] = as @ gs \<and> int (length gs) = (if all_hard_green r then n + 1 else 0) \<and> list_all all_hard_green gs"
  proof (cases "all_hard_green r")
    case True
    with g show ?thesis by (intro exI [of _ as] exI [of _ "gs @ [r]"]) simp
  qed (simp add: exI [of _ "rs @ [r]"])
qed

lemma green_skeptic: "green_run rs n \<Longrightarrow> sk_phase_a sk \<le> n \<Longrightarrow> skeptic_run sk rs 0"
proof -
  assume a: "green_run rs n" "sk_phase_a sk \<le> n"
  then obtain as gs where "rs = as @ gs" "int (length gs) = n" "list_all all_hard_green gs" by (auto simp: green_run_def)
  with a(2) show ?thesis
    unfolding skeptic_run_def by (intro exI [of _ as] exI [of _ gs] exI [of _ "[]"]) simp
qed

lemma skeptic_run_step: "skeptic_run sk rs n \<Longrightarrow> skeptic_run sk (rs @ [r]) (if skeptic_ok sk r then n + 1 else 0)"
  unfolding skeptic_run_def
proof (elim exE conjE)
  fix as gs bs ks
  assume g: "rs = as @ gs @ bs @ ks" "sk_phase_a sk \<le> int (length gs)" "list_all all_hard_green gs" "int (length ks) = n" "list_all (skeptic_ok sk) ks"
  show "\<exists>as gs bs ks. rs @ [r] = as @ gs @ bs @ ks \<and> sk_phase_a sk \<le> int (length gs) \<and> list_all all_hard_green gs \<and>
     int (length ks) = (if skeptic_ok sk r then n + 1 else 0) \<and> list_all (skeptic_ok sk) ks"
  proof (cases "skeptic_ok sk r")
    case True
    with g show ?thesis by (intro exI [of _ as] exI [of _ gs] exI [of _ bs] exI [of _ "ks @ [r]"]) simp
  next
    case False
    with g show ?thesis by (intro exI [of _ as] exI [of _ gs] exI [of _ "bs @ ks @ [r]"] exI [of _ "[]"]) simp
  qed
qed

lemma skeptic_earned: "skeptic_run sk rs n \<Longrightarrow> sk_phase_b sk \<le> n \<Longrightarrow> earned_twice sk rs"
proof -
  assume a: "skeptic_run sk rs n" "sk_phase_b sk \<le> n"
  then obtain as gs bs ks where "rs = as @ gs @ bs @ ks" "sk_phase_a sk \<le> int (length gs)" "list_all all_hard_green gs"
    "int (length ks) = n" "list_all (skeptic_ok sk) ks" by (auto simp: skeptic_run_def)
  with a(2) show ?thesis
    unfolding earned_twice_def by (intro exI [of _ as] exI [of _ gs] exI [of _ bs] exI [of _ ks] exI [of _ "[]"]) simp
qed

lemma earned_step: "earned_twice sk rs \<Longrightarrow> earned_twice sk (rs @ [r])"
proof -
  assume "earned_twice sk rs"
  then obtain as gs bs ks cs where "rs = as @ gs @ bs @ ks @ cs" "sk_phase_a sk \<le> int (length gs)" "list_all all_hard_green gs"
    "sk_phase_b sk \<le> int (length ks)" "list_all (skeptic_ok sk) ks" by (auto simp: earned_twice_def)
  then show ?thesis
    unfolding earned_twice_def by (intro exI [of _ as] exI [of _ gs] exI [of _ bs] exI [of _ ks] exI [of _ "cs @ [r]"]) simp
qed

definition two_phase_inv :: "skeptic \<Rightarrow> results list \<Rightarrow> loop_state \<Rightarrow> bool" where
  "two_phase_inv sk rs s \<longleftrightarrow>
     (if ls_convergence s = ''A'' then ls_phase_b_ticks s = 0 \<and> green_run rs (ls_green_ticks s)
      else if ls_convergence s = ''B'' then skeptic_run sk rs (ls_phase_b_ticks s)
      else ls_convergence s = ''complete'' \<and> earned_twice sk rs)"

lemma two_phase_A:
  assumes "sk_mode sk = ''implement''" and "ls_convergence s = ''A''"
  shows "update_two_phase_counters sk r s =
    (let n = (if all_hard_green r then ls_green_ticks s + 1 else 0) in
     s\<lparr>ls_green_ticks := n, ls_convergence := (if sk_phase_a sk \<le> n then ''B'' else ''A'')\<rparr>)"
  using assms by (simp add: update_two_phase_counters_def resolve_convergence_state_def Let_def)

lemma two_phase_B:
  assumes "sk_mode sk = ''implement''" and "ls_convergence s = ''B''"
    and "k = (if skeptic_ok sk r then ls_phase_b_ticks s + 1 else 0)"
  shows "ls_phase_b_ticks (update_two_phase_counters sk r s) = k"
    and "ls_convergence (update_two_phase_counters sk r s) = (if sk_phase_b sk \<le> k then ''complete'' else ''B'')"
  using assms by (simp_all add: update_two_phase_counters_def resolve_convergence_state_def Let_def)

lemma two_phase_complete:
  assumes "sk_mode sk = ''implement''" and "ls_convergence s = ''complete''"
  shows "ls_convergence (update_two_phase_counters sk r s) = ''complete''"
  using assms by (simp add: update_two_phase_counters_def resolve_convergence_state_def Let_def)

lemma two_phase_step:
  assumes "sk_mode sk = ''implement''" and "two_phase_inv sk rs s"
  shows "two_phase_inv sk (rs @ [r]) (update_two_phase_counters sk r s)"
proof -
  consider "ls_convergence s = ''A''" "ls_phase_b_ticks s = 0" "green_run rs (ls_green_ticks s)"
    | "ls_convergence s = ''B''" "skeptic_run sk rs (ls_phase_b_ticks s)"
    | "ls_convergence s = ''complete''" "earned_twice sk rs"
    using assms(2) unfolding two_phase_inv_def by presburger
  then show ?thesis
  proof cases
    case 1
    define n where "n = (if all_hard_green r then ls_green_ticks s + 1 else 0)"
    have g: "green_run (rs @ [r]) n" unfolding n_def by (rule green_run_step) (rule 1(3))
    show ?thesis using 1(2) g green_skeptic [OF g, of sk]
      by (simp add: two_phase_A [OF assms(1) 1(1)] two_phase_inv_def flip: n_def)
  next
    case 2
    define k where "k = (if skeptic_ok sk r then ls_phase_b_ticks s + 1 else 0)"
    have g: "skeptic_run sk (rs @ [r]) k" unfolding k_def by (rule skeptic_run_step) (rule 2(2))
    from two_phase_B [OF assms(1) 2(1) k_def] g skeptic_earned [OF g] show ?thesis by (simp add: two_phase_inv_def)
  next
    case 3
    from two_phase_complete [OF assms(1) 3(1), of r] earned_step [OF 3(2), of r] show ?thesis by (simp add: two_phase_inv_def)
  qed
qed

text \<open>
  C28: completion is earned twice. Started in phase A with fresh counters, the implement-mode machine says
  \<open>complete\<close> only after \<open>phase_a_n\<close> evaluations in a row in which every hard gate was green and, after
  those, \<open>phase_b_n\<close> evaluations in a row in which every skeptic gate was green.
\<close>

theorem completion_is_earned:
  assumes "sk_mode sk = ''implement''" and "ls_convergence s = ''A''" and "ls_green_ticks s = 0" and "ls_phase_b_ticks s = 0"
    and "ls_convergence (fold (update_two_phase_counters sk) rs s) = ''complete''"
  shows "\<exists>as gs bs ks cs. rs = as @ gs @ bs @ ks @ cs \<and> sk_phase_a sk \<le> int (length gs) \<and> list_all all_hard_green gs \<and>
    sk_phase_b sk \<le> int (length ks) \<and> list_all (skeptic_ok sk) ks"
proof -
  have "two_phase_inv sk rs (fold (update_two_phase_counters sk) rs s)"
  proof (induction rs rule: rev_induct)
    case Nil
    show ?case using assms(2-4) by (simp add: two_phase_inv_def green_run_def)
  next
    case (snoc r rs)
    from two_phase_step [OF assms(1) snoc.IH] show ?case by simp
  qed
  with assms(5) show ?thesis by (simp add: two_phase_inv_def earned_twice_def)
qed

section \<open>On concrete inputs\<close>

definition red :: goal_result where
  "red = \<lparr>gr_state = ''fail'', gr_diagnostic = ''timeout'', gr_duration = 7\<rparr>"

definition green :: goal_result where
  "green = \<lparr>gr_state = ''pass'', gr_diagnostic = [], gr_duration = 7\<rparr>"

definition sample_runs :: "results list" where
  "sample_runs = [[(''tests-pass'', red)], [(''tests-pass'', green)], [(''lint'', red), (''tests-pass'', red)], [(''tests-pass'', red)]]"

definition fresh_state :: loop_state where
  "fresh_state = default_state [''a'', ''b'']"

definition plain_int :: "json \<Rightarrow> int option" where
  "plain_int j = (case j of JInt i \<Rightarrow> Some i | _ \<Rightarrow> None)"

definition plain_str :: "json \<Rightarrow> string" where
  "plain_str j = (case j of JStr t \<Rightarrow> t | _ \<Rightarrow> [])"

theorem stuck_counter_is_streak_witness:
  "stuck_count (fold (record_goal_results True) sample_runs fresh_state) ''tests-pass'' = 2"
proof -
  have "list_all (\<lambda>r. distinct (map fst r)) sample_runs" "ls_goals fresh_state = []" "ls_stuck fresh_state = []"
    "streak ''tests-pass'' sample_runs = 2" by code_simp+
  with stuck_counter_is_streak [of sample_runs fresh_state "''tests-pass''"] show ?thesis by simp
qed

definition stuck_state :: loop_state where
  "stuck_state = fresh_state\<lparr>ls_stuck := [(''tests-pass'', 5), (''no-prior-regression'', 6), (''lint'', 9)], ls_plan_steps := Some 2\<rparr>"

theorem stuck_halt_exact_witness:
  "\<exists>reason. compute_stuck_gate_halt_reason plain_int plain_str stuck_state = Inr reason \<and> reason \<noteq> None"
proof -
  have w: "watched_gates plain_str stuck_state = Inr default_stuck_halt_gates" by code_simp
  have "compute_stuck_gate_halt_reason plain_int plain_str stuck_state = Inr (Some (stuck_text ''no-prior-regression''))" by code_simp
  from stuck_halt_exact [OF w this] this show ?thesis by simp
qed

theorem progress_forgives_witness:
  "\<exists>s'. reset_stuck_on_progress plain_str 3 ''implement'' stuck_state = (Inr (), s') \<and>
     compute_stuck_gate_halt_reason plain_int plain_str s' = Inr None"
proof -
  have "ls_plan_steps stuck_state = Some 2" "jget (config_goals_map stuck_state) ''stuck_halt_gates'' = JNull"
    "jget (config_goals_map stuck_state) ''stuck_progress_reset_gates'' = JNull" by code_simp+
  note p = progress_forgives [OF this(1) _ this(2,3), of 3 plain_str _ _ plain_int]
  show ?thesis
    using p by (cases "reset_stuck_on_progress plain_str 3 ''implement'' stuck_state") simp
qed

definition implement_skeptic :: skeptic where
  "implement_skeptic = \<lparr>sk_mode = ''implement'', sk_gates = [''honesty-audit''], sk_phase_a = 1, sk_phase_b = 2\<rparr>"

definition honest_runs :: "results list" where
  "honest_runs = replicate 3 [(''honesty-audit'', green)]"

theorem completion_is_earned_witness:
  "\<exists>as gs bs ks cs. honest_runs = as @ gs @ bs @ ks @ cs \<and> sk_phase_a implement_skeptic \<le> int (length gs) \<and>
     list_all all_hard_green gs \<and> sk_phase_b implement_skeptic \<le> int (length ks) \<and> list_all (skeptic_ok implement_skeptic) ks"
proof -
  have "sk_mode implement_skeptic = ''implement''" "ls_convergence fresh_state = ''A''" "ls_green_ticks fresh_state = 0" "ls_phase_b_ticks fresh_state = 0"
    "ls_convergence (fold (update_two_phase_counters implement_skeptic) honest_runs fresh_state) = ''complete''"
    by code_simp+
  then show ?thesis by (rule completion_is_earned)
qed

end
