(* ===== verification/TickLoop.thy ===== *)
theory TickLoop
  imports Rotation Phases
begin

text \<open>
  The main loop, \<open>peers/tick_loop.py\<close> with the hooks of \<open>peers/driver_tick_hooks.py\<close> and the outcome
  policy of \<open>peers/anti_cheat_guard.py\<close>: what happens before a tick, the run of a peer, and what is
  made of it. The state of the loop is a \<open>tick_state\<close>: the state dict, \<open>_head_before_invoke\<close>, and the world.
  What only reads or writes the world (git, the engine that runs the gates, the prompt, logs, the clock,
  the store) is a field of the record \<open>hooks\<close>. Warnings are texts made from a \<open>notice\<close>.
\<close>

section \<open>The state and the hooks\<close>

record 'w tick_state =
  ts_state :: loop_state
  ts_head :: "string option"
  ts_world :: 'w

record run_result =
  rr_class :: string
  rr_pattern :: string
  rr_snippet :: string
  rr_halt :: bool
  rr_truncated :: bool
  rr_output :: string

record commit =
  co_status :: "string option"
  co_review :: "string option"

datatype notice =
    Truncated string | RescuedHandoff string | JustifiedTestOnly string | CheatPrewarned string | CheatReverted string
  | TestTampering int | DryRunResetFailed string | HuntOpenEnded | DirtyProbeFailed | PlainNotice string

record 'w hooks =
  dh_mode :: string
  dh_dry_run :: bool
  dh_auto_skeptic :: bool
  dh_to_int :: "json \<Rightarrow> int option"
  dh_str_of :: "json \<Rightarrow> string"
  dh_fmt2 :: "rat \<Rightarrow> string"
  dh_fadd :: "rat \<Rightarrow> rat \<Rightarrow> rat"
  dh_parsers :: "string \<Rightarrow> (string \<Rightarrow> int \<times> rat) option"
  dh_text :: "notice \<Rightarrow> string"
  dh_tool :: "string \<Rightarrow> string option"
  dh_verify_dir :: "('w, unit) act"
  dh_verify_symlinks :: "('w, unit) act"
  dh_head_sha :: "('w, string) act"
  dh_save :: "loop_state \<Rightarrow> ('w, unit) act"
  dh_exit_event :: "string \<Rightarrow> nat \<Rightarrow> ('w, unit) act"
  dh_goal_mutation :: "('w, string option) act"
  dh_eval_all :: "('w, results) act"
  dh_eval_tick :: "('w, results) act"
  dh_eval_ids :: "string list \<Rightarrow> ('w, results) act"
  dh_all_green :: "loop_state \<Rightarrow> ('w, bool) act"
  dh_recheck :: "results \<Rightarrow> ('w, results option) act"
  dh_plan_md :: "('w, string res) act"
  dh_plans :: "('w, int option list) act"
  dh_marker :: "('w, bool) act"
  dh_write_marker :: "loop_state \<Rightarrow> ('w, unit) act"
  dh_inbox :: "string list \<Rightarrow> string \<Rightarrow> ('w, string list) act"
  dh_prompt :: "loop_state \<Rightarrow> string \<Rightarrow> results \<Rightarrow> string list \<Rightarrow> bool \<Rightarrow> ('w, string) act"
  dh_prompt_log :: "int \<Rightarrow> string \<Rightarrow> string \<Rightarrow> ('w, unit) act"
  dh_invoke :: "string \<Rightarrow> string \<Rightarrow> ('w, run_result \<times> int) act"
  dh_output_logs :: "int \<Rightarrow> string \<Rightarrow> run_result \<Rightarrow> ('w, unit) act"
  dh_commits :: "string \<Rightarrow> string option \<Rightarrow> ('w, commit list) act"
  dh_ancestor :: "string \<Rightarrow> ('w, bool) act"
  dh_soft_reviews :: "loop_state \<Rightarrow> string \<Rightarrow> commit list \<Rightarrow> ('w, unit) act"
  dh_diff_stats :: "string option \<Rightarrow> ('w, (int \<times> int) option) act"
  dh_justification :: "string option \<Rightarrow> ('w, string option) act"
  dh_revert :: "string option \<Rightarrow> ('w, bool) act"
  dh_reset :: "string \<Rightarrow> ('w, string option) act"
  dh_sleep :: "int \<Rightarrow> ('w, unit) act"
  dh_dirty :: "('w, bool) act"
  dh_halt :: "'w halt_io"
  dh_history :: "loop_state \<Rightarrow> string list \<Rightarrow> ('w, unit) act"
  dh_attest :: "string \<Rightarrow> string option \<Rightarrow> string \<Rightarrow> ('w, unit) act"
  dh_run_log :: "loop_state \<Rightarrow> string \<Rightarrow> run_result \<Rightarrow> bool \<Rightarrow> int \<times> rat \<Rightarrow> ('w, unit) act"
  dh_emit :: "loop_state \<Rightarrow> string \<Rightarrow> run_result \<Rightarrow> bool \<Rightarrow> int \<Rightarrow> string option \<Rightarrow> ('w, unit) act"
  dh_blocking :: "string \<Rightarrow> ('w, int) act"
  dh_submit :: "string \<Rightarrow> ('w, unit) act"

definition get_state :: "('w tick_state, loop_state) act" where
  "get_state s = (Inr (ts_state s), s)"

definition put :: "(loop_state \<Rightarrow> loop_state) \<Rightarrow> ('w tick_state, unit) act" where
  "put f s = (Inr (), s\<lparr>ts_state := f (ts_state s)\<rparr>)"

definition on_loop :: "(loop_state, 'a) act \<Rightarrow> ('w tick_state, 'a) act" where
  "on_loop m s = (case m (ts_state s) of (r, l) \<Rightarrow> (r, s\<lparr>ts_state := l\<rparr>))"

definition io :: "('w, 'a) act \<Rightarrow> ('w tick_state, 'a) act" where
  "io m s = (case m (ts_world s) of (r, w) \<Rightarrow> (r, s\<lparr>ts_world := w\<rparr>))"

text \<open>\<open>try ... except Exception\<close> around a call whose result is not used, and \<open>_safe_head_sha\<close>.\<close>

definition swallow :: "('w, unit) act \<Rightarrow> ('w tick_state, unit) act" where
  "swallow m = io (\<lambda>w. (Inr (), snd (m w)))"

definition warn :: "'w hooks \<Rightarrow> notice \<Rightarrow> ('w tick_state, unit) act" where
  "warn h n = put (\<lambda>s. s\<lparr>ls_warnings := ls_warnings s @ [dh_text h n]\<rparr>)"

definition safe_head_sha :: "'w hooks \<Rightarrow> ('w tick_state, string option) act" where
  "safe_head_sha h =
     io (act_except (act_bind (dh_head_sha h) (\<lambda>x. ret (Some x))) (\<lambda>e. e = CalledProcessError) (ret None))"

section \<open>Before a tick\<close>

definition exit_with_fresh_results :: "'w hooks \<Rightarrow> string \<Rightarrow> nat \<Rightarrow> ('w tick_state, string) act" where
  "exit_with_fresh_results h reason n =
     act_bind (io (dh_eval_all h)) (\<lambda>results.
     act_bind (put (record_goal_results True results)) (\<lambda>_.
     act_bind get_state (\<lambda>s.
     act_bind (io (dh_save h s)) (\<lambda>_.
     act_bind (io (dh_exit_event h reason n)) (\<lambda>_. ret reason)))))"

definition save :: "'w hooks \<Rightarrow> ('w tick_state, unit) act" where
  "save h = act_bind get_state (\<lambda>s. io (dh_save h s))"

definition stop_with :: "'w hooks \<Rightarrow> string \<Rightarrow> nat \<Rightarrow> ('w tick_state, string) act" where
  "stop_with h reason n = act_bind (save h) (\<lambda>_. act_bind (io (dh_exit_event h reason n)) (\<lambda>_. ret reason))"

definition tick_skeptic :: "'w hooks \<Rightarrow> ('w tick_state, skeptic) act" where
  "tick_skeptic h =
     act_bind (io (dh_plans h)) (\<lambda>plans.
     ret \<lparr>sk_mode = dh_mode h, sk_gates = phase_b_skeptic_gates, sk_phase_a = implement_phase_a_n plans, sk_phase_b = 2\<rparr>)"

definition reset_on_progress :: "'w hooks \<Rightarrow> ('w tick_state, unit) act" where
  "reset_on_progress h =
     act_bind (io (dh_plan_md h)) (\<lambda>file. on_loop (reset_stuck_on_progress (dh_str_of h) (count_done_plan_steps file) (dh_mode h)))"

definition two_phase :: "'w hooks \<Rightarrow> results \<Rightarrow> ('w tick_state, unit) act" where
  "two_phase h results = act_bind (tick_skeptic h) (\<lambda>sk. put (update_two_phase_counters sk results))"

definition converged_after_fresh_recheck :: "'w hooks \<Rightarrow> results \<Rightarrow> ('w tick_state, bool) act" where
  "converged_after_fresh_recheck h results =
     act_bind get_state (\<lambda>s.
     act_bind (io (dh_all_green h s)) (\<lambda>ok.
     if \<not> ok then ret False
     else
       act_bind (io (dh_recheck h results)) (\<lambda>fresh.
       act_bind (case fresh of None \<Rightarrow> ret () | Some r \<Rightarrow> put (record_goal_results True r)) (\<lambda>_.
       act_bind get_state (\<lambda>s1. io (dh_all_green h s1))))))"

text \<open>What a convergence leads to: another round, a skeptic tick first, or the end of the run.\<close>

definition on_convergence :: "'w hooks \<Rightarrow> nat \<Rightarrow> ('w tick_state, string option) act" where
  "on_convergence h n =
     (if dh_mode h = ''hunt-open-ended'' then
        act_bind (warn h HuntOpenEnded) (\<lambda>_. act_bind (save h) (\<lambda>_. ret None))
      else
        act_bind get_state (\<lambda>s.
        if dh_auto_skeptic h \<and> 1 < ls_iteration s - ls_skeptic_at s then
          act_bind (put (\<lambda>s. s\<lparr>ls_skeptic_pending := True\<rparr>)) (\<lambda>_. act_bind (save h) (\<lambda>_. ret None))
        else if dh_mode h = ''implement'' \<and> ls_convergence s \<noteq> ''complete'' then
          act_bind (save h) (\<lambda>_. ret None)
        else act_bind (stop_with h ''complete'' n) (\<lambda>r. ret (Some r))))"

definition pre_tick_exit :: "'w hooks \<Rightarrow> nat option \<Rightarrow> nat \<Rightarrow> ('w tick_state, string option \<times> results) act" where
  "pre_tick_exit h max_ticks n =
     (if (case max_ticks of None \<Rightarrow> False | Some m \<Rightarrow> m \<le> n) then
        act_bind (exit_with_fresh_results h ''max_ticks'' n) (\<lambda>r. ret (Some r, []))
      else
        act_bind (on_loop (\<lambda>s. (Inr (fst (budget_reason (dh_fmt2 h) s)), snd (budget_reason (dh_fmt2 h) s)))) (\<lambda>b.
        case b of
          Some x \<Rightarrow> act_bind (exit_with_fresh_results h (''budget:'' @ x) n) (\<lambda>r. ret (Some r, []))
        | None \<Rightarrow>
            act_bind get_state (\<lambda>s.
            act_bind (act_res (compute_stuck_gate_halt_reason (dh_to_int h) (dh_str_of h) s)) (\<lambda>stuck.
            case stuck of
              Some x \<Rightarrow> act_bind (exit_with_fresh_results h x n) (\<lambda>r. ret (Some r, []))
            | None \<Rightarrow>
                act_bind (io (dh_goal_mutation h)) (\<lambda>mutation.
                case mutation of
                  Some x \<Rightarrow> act_bind (stop_with h (''goal-mutation:'' @ x) n) (\<lambda>r. ret (Some r, []))
                | None \<Rightarrow>
                    act_bind (io (dh_eval_tick h)) (\<lambda>results.
                    act_bind (put (record_goal_results True results)) (\<lambda>_.
                    act_bind (reset_on_progress h) (\<lambda>_.
                    act_bind (two_phase h results) (\<lambda>_.
                    act_bind (converged_after_fresh_recheck h results) (\<lambda>conv.
                    if conv then act_bind (on_convergence h n) (\<lambda>r. ret (r, results))
                    else ret (None, results)))))))))))"

definition checkpoint_reason :: string where
  "checkpoint_reason = ''checkpoint:phase-0-complete''"

definition maybe_checkpoint_exit :: "'w hooks \<Rightarrow> nat \<Rightarrow> ('w tick_state, string option) act" where
  "maybe_checkpoint_exit h n =
     act_bind get_state (\<lambda>s.
     let prev = ls_phase s; cur = resolve_phase (dh_mode h) (ls_iteration s) in
     act_bind (put (\<lambda>s. s\<lparr>ls_phase := Some cur\<rparr>)) (\<lambda>_.
     if \<not> should_checkpoint True prev cur then ret None
     else
       act_bind (io (dh_marker h)) (\<lambda>marker.
       if \<not> should_checkpoint marker prev cur then ret None
       else
         act_bind get_state (\<lambda>s1.
         act_bind (io (act_except (dh_write_marker h s1) (\<lambda>e. e = OSError) (ret ()))) (\<lambda>_.
         act_bind (exit_with_fresh_results h checkpoint_reason n) (\<lambda>r. ret (Some r)))))))"

definition prepare_next_tick :: "'w hooks \<Rightarrow> nat option \<Rightarrow> nat \<Rightarrow> ('w tick_state, string option \<times> results) act" where
  "prepare_next_tick h max_ticks n =
     act_bind (io (dh_verify_dir h)) (\<lambda>_.
     act_bind (pre_tick_exit h max_ticks n) (\<lambda>(early, results).
     case early of
       Some r \<Rightarrow> ret (Some r, results)
     | None \<Rightarrow> act_bind (maybe_checkpoint_exit h n) (\<lambda>cp. ret (cp, results))))"

section \<open>The run of the peer\<close>

definition shown_warnings :: "string list \<Rightarrow> string list" where
  "shown_warnings ws =
     (if length ws \<le> 50 then ws
      else take 5 ws @ [''... <'' @ show_int (int (length ws) - 55) @ '' warnings omitted> ...''] @ last_n 50 ws)"

definition pop_prompt_warnings :: "(loop_state, string list) act" where
  "pop_prompt_warnings s = (Inr (shown_warnings (ls_warnings s)), s\<lparr>ls_warnings := []\<rparr>)"

text \<open>The skeptic flag is taken from the state, and the tick about to run noted as the skeptic's.\<close>

definition pop_skeptic :: "(loop_state, bool) act" where
  "pop_skeptic s =
     (if ls_skeptic_pending s
      then (Inr True, s\<lparr>ls_skeptic_pending := False, ls_skeptic_at := ls_iteration s + 1\<rparr>)
      else (Inr False, s))"

definition prepare_tick_prompt :: "'w hooks \<Rightarrow> turn_manager \<Rightarrow> results \<Rightarrow> ('w tick_state, string \<times> string \<times> string) act" where
  "prepare_tick_prompt h tm results =
     act_bind (on_loop (current tm)) (\<lambda>peer.
     act_bind get_state (\<lambda>s.
     act_bind (io (dh_inbox h (others s) peer)) (\<lambda>notes.
     act_bind (put (\<lambda>s. s\<lparr>ls_warnings := ls_warnings s @ notes\<rparr>)) (\<lambda>_.
     act_bind (on_loop pop_prompt_warnings) (\<lambda>warnings.
     act_bind (on_loop pop_skeptic) (\<lambda>skeptic.
     act_bind (io (dh_prompt h s peer results warnings skeptic)) (\<lambda>prompt.
     case dh_tool h peer of
       None \<Rightarrow> raise_exc KeyError
     | Some tool \<Rightarrow> ret (peer, tool, prompt))))))))"

record invocation =
  in_peer :: string
  in_tool :: string
  in_tick :: int
  in_run :: run_result
  in_dt :: int
  in_failed :: "string list"

definition call_peer :: "'w hooks \<Rightarrow> results \<Rightarrow> string \<Rightarrow> string \<Rightarrow> string \<Rightarrow> ('w tick_state, invocation) act" where
  "call_peer h results peer tool prompt =
     (if peer = [] then raise_exc TypeError
      else
        act_bind get_state (\<lambda>s.
        let upcoming = ls_iteration s + 1 in
        act_bind (io (dh_prompt_log h upcoming peer prompt)) (\<lambda>_.
        act_bind (safe_head_sha h) (\<lambda>head.
        act_bind (\<lambda>t. (Inr (), t\<lparr>ts_head := head\<rparr>)) (\<lambda>_.
        act_bind (io (dh_invoke h peer prompt)) (\<lambda>(run, dt).
        act_bind (io (dh_verify_dir h)) (\<lambda>_.
        act_bind (io (dh_verify_symlinks h)) (\<lambda>_.
        ret \<lparr>in_peer = peer, in_tool = tool, in_tick = upcoming, in_run = run, in_dt = dt,
             in_failed = map fst (filter (\<lambda>(_, r). gr_state r = ''fail'') results)\<rparr>))))))))"

definition invoke_peer :: "'w hooks \<Rightarrow> turn_manager \<Rightarrow> results \<Rightarrow> ('w tick_state, invocation) act" where
  "invoke_peer h tm results = act_bind (prepare_tick_prompt h tm results) (\<lambda>(peer, tool, prompt). call_peer h results peer tool prompt)"

definition handle_pattern_match_and_halt :: "'w hooks \<Rightarrow> nat \<Rightarrow> invocation \<Rightarrow> ('w tick_state, string option) act" where
  "handle_pattern_match_and_halt h n iv =
     (let run = in_run iv; peer = in_peer iv in
      if \<not> rr_halt run then ret None
      else
        act_bind (io (dh_output_logs h (in_tick iv) peer run)) (\<lambda>_.
        act_bind (put (\<lambda>s.
          let p = (case peer_of s peer of None \<Rightarrow> default_health | Some p \<Rightarrow> p) in
          set_peer peer (p\<lparr>ph_state := Some ''unavailable'',
            ph_unavailable := Some (py_take 80 (rr_pattern run), ls_iteration s, py_take 200 (rr_snippet run))\<rparr>) s)) (\<lambda>_.
        act_bind (stop_with h (''peer-unavailable:'' @ peer) n) (\<lambda>r. ret (Some r)))))"

section \<open>What is made of the run\<close>

definition is_handoff :: "commit \<Rightarrow> bool" where
  "is_handoff c \<longleftrightarrow> co_status c = Some ''handoff'' \<and> co_review c = Some ''pass''"

definition post_run :: "'w hooks \<Rightarrow> string \<Rightarrow> run_result \<Rightarrow> ('w tick_state, bool) act" where
  "post_run h peer run =
     act_bind (on_loop (update_peer peer (\<lambda>p. p\<lparr>ph_last_run := Some \<lparr>lr_classification = rr_class run, lr_pattern = []\<rparr>,
       ph_no_handoff := False\<rparr>))) (\<lambda>_.
     if rr_class run \<noteq> ''success'' \<and> rr_class run \<noteq> ''idle-timeout'' then ret False
     else
       act_bind (\<lambda>t. (Inr (ts_head t), t)) (\<lambda>since.
       act_bind (io (act_catch (dh_commits h peer since))) (\<lambda>found.
       case found of
         Inl _ \<Rightarrow> ret False
       | Inr commits \<Rightarrow>
           if commits = [] then ret False
           else
             act_bind (case since of None \<Rightarrow> ret True | Some sha \<Rightarrow> io (dh_ancestor h sha)) (\<lambda>straight.
             if \<not> straight then ret False
             else
               act_bind get_state (\<lambda>s.
               act_bind (io (dh_soft_reviews h s peer commits)) (\<lambda>_.
               if list_ex is_handoff commits then
                 act_bind (if rr_class run = ''idle-timeout'' then warn h (RescuedHandoff peer) else ret ()) (\<lambda>_. ret True)
               else
                 act_bind (on_loop (update_peer peer (\<lambda>p. p\<lparr>ph_no_handoff := True\<rparr>))) (\<lambda>_. ret False)))))))"

definition classify_cheating :: "'w hooks \<Rightarrow> ('w tick_state, string option) act" where
  "classify_cheating h =
     act_bind (\<lambda>t. (Inr (ts_head t), t)) (\<lambda>since.
     act_bind (io (dh_diff_stats h since)) (\<lambda>stats.
     ret (case stats of
            None \<Rightarrow> None
          | Some (tests, src) \<Rightarrow> if 0 < tests \<and> src = 0 then Some (dh_text h (TestTampering tests)) else None)))"

definition clear_cheating :: "peer_health \<Rightarrow> peer_health" where
  "clear_cheating p = (if ph_cheating p \<noteq> 0 then p\<lparr>ph_cheating := 0\<rparr> else p)"

definition apply_anti_cheating_outcome :: "'w hooks \<Rightarrow> string \<Rightarrow> bool \<Rightarrow> ('w tick_state, bool) act" where
  "apply_anti_cheating_outcome h peer success =
     act_bind get_state (\<lambda>s0.
     case peer_of s0 peer of
       None \<Rightarrow> raise_exc KeyError
     | Some p0 \<Rightarrow>
         if \<not> success then act_bind (on_loop (update_peer peer clear_cheating)) (\<lambda>_. ret False)
         else
           act_bind (classify_cheating h) (\<lambda>cheating.
           case cheating of
             None \<Rightarrow> act_bind (on_loop (update_peer peer (\<lambda>p. (clear_cheating p)\<lparr>ph_prewarned := False\<rparr>))) (\<lambda>_. ret True)
           | Some c \<Rightarrow>
               act_bind (\<lambda>t. (Inr (ts_head t), t)) (\<lambda>since.
               act_bind (io (dh_justification h since)) (\<lambda>just.
               case just of
                 Some j \<Rightarrow>
                   act_bind (on_loop (update_peer peer (\<lambda>p. p\<lparr>ph_prewarned := False\<rparr>))) (\<lambda>_.
                   act_bind (io (dh_head_sha h)) (\<lambda>_.
                   act_bind (warn h (JustifiedTestOnly j)) (\<lambda>_. ret True)))
               | None \<Rightarrow>
                   if \<not> ph_prewarned p0 then
                     act_bind (on_loop (update_peer peer (\<lambda>p. p\<lparr>ph_prewarned := True\<rparr>))) (\<lambda>_.
                     act_bind (warn h (CheatPrewarned c)) (\<lambda>_. ret True))
                   else
                     act_bind (io (dh_revert h since)) (\<lambda>_.
                     act_bind (on_loop (update_peer peer (\<lambda>p. p\<lparr>ph_prewarned := False, ph_cheating := ph_cheating p + 1\<rparr>))) (\<lambda>_.
                     act_bind (warn h (CheatReverted c)) (\<lambda>_. ret False)))))))"

text \<open>\<open>dh_reset\<close> gives the text of the error when \<open>git reset\<close> fails.\<close>

definition apply_dry_run_reset :: "'w hooks \<Rightarrow> bool \<Rightarrow> ('w tick_state, bool) act" where
  "apply_dry_run_reset h success =
     act_bind (\<lambda>t. (Inr (ts_head t), t)) (\<lambda>since.
     case since of
       None \<Rightarrow> ret success
     | Some sha \<Rightarrow>
         if \<not> dh_dry_run h then ret success
         else
           act_bind (io (dh_reset h sha)) (\<lambda>failed.
           case failed of
             None \<Rightarrow> ret success
           | Some e \<Rightarrow> act_bind (warn h (DryRunResetFailed e)) (\<lambda>_. ret False)))"

definition apply_rate_limit_backoff :: "'w hooks \<Rightarrow> bool \<Rightarrow> ('w tick_state, unit) act" where
  "apply_rate_limit_backoff h rate_limited =
     (if \<not> rate_limited then put (\<lambda>s. s\<lparr>ls_rate_streak := 0\<rparr>)
      else
        act_bind (put (\<lambda>s. s\<lparr>ls_rate_streak := ls_rate_streak s + 1\<rparr>)) (\<lambda>_.
        act_bind get_state (\<lambda>s.
        let delay = rate_limit_backoff (ls_rate_streak s) in
        if 0 < delay then io (dh_sleep h delay) else ret ())))"

definition detect_tampering :: "'w hooks \<Rightarrow> ('w tick_state, unit) act" where
  "detect_tampering h =
     act_bind (\<lambda>t. (Inr (ts_head t), t)) (\<lambda>since.
     act_bind (io (dh_diff_stats h since)) (\<lambda>stats.
     case stats of
       None \<Rightarrow> ret ()
     | Some (tests, src) \<Rightarrow> if 0 < tests \<and> src = 0 then warn h (TestTampering tests) else ret ()))"

definition dirty_worktree :: "'w hooks \<Rightarrow> ('w tick_state, bool) act" where
  "dirty_worktree h =
     act_bind (io (act_catch (dh_dirty h))) (\<lambda>r.
     case r of
       Inr b \<Rightarrow> ret b
     | Inl CalledProcessError \<Rightarrow> act_bind (warn h DirtyProbeFailed) (\<lambda>_. ret True)
     | Inl e \<Rightarrow> raise_exc e)"

definition refresh_goals_after_tick :: "'w hooks \<Rightarrow> string list \<Rightarrow> ('w tick_state, unit) act" where
  "refresh_goals_after_tick h ids =
     (if ids = [] then ret ()
      else
        act_bind (io (dh_eval_ids h ids)) (\<lambda>results.
        act_bind (put (record_goal_results False results)) (\<lambda>_.
        act_bind (reset_on_progress h) (\<lambda>_. two_phase h results))))"

definition update_convergence_counter :: "'w hooks \<Rightarrow> bool \<Rightarrow> bool \<Rightarrow> ('w tick_state, unit) act" where
  "update_convergence_counter h success rate_limited =
     (if dh_dry_run h \<or> rate_limited then ret ()
      else if \<not> success then act_bind (put (\<lambda>s. s\<lparr>ls_clean_ticks := 0\<rparr>)) (\<lambda>_. save h)
      else
        act_bind (\<lambda>t. (Inr (ts_head t), t)) (\<lambda>since.
        case since of
          None \<Rightarrow> ret ()
        | Some sha \<Rightarrow>
            act_bind (io (act_except (dh_blocking h sha) (\<lambda>_. True) (ret 0))) (\<lambda>k.
            act_bind (put (\<lambda>s. s\<lparr>ls_clean_ticks := (if k = 0 then ls_clean_ticks s + 1 else 0)\<rparr>)) (\<lambda>_. save h))))"

text \<open>The verdict on the run, then the turn, the account, the health and the halt, in the order of the code.\<close>

definition judge_run :: "'w hooks \<Rightarrow> invocation \<Rightarrow> ('w tick_state, bool) act" where
  "judge_run h iv =
     (let peer = in_peer iv; run = in_run iv in
      act_bind (io (dh_output_logs h (in_tick iv) peer run)) (\<lambda>_.
      act_bind (if rr_truncated run then warn h (Truncated peer) else ret ()) (\<lambda>_.
      act_bind (post_run h peer run) (\<lambda>ok.
      act_bind (apply_anti_cheating_outcome h peer ok) (\<lambda>ok. apply_dry_run_reset h ok)))))"

definition is_rate_limited :: "run_result \<Rightarrow> bool" where
  "is_rate_limited run \<longleftrightarrow> rr_class run = ''rate-limited''"

definition settle_tick :: "'w hooks \<Rightarrow> turn_manager \<Rightarrow> invocation \<Rightarrow> bool \<Rightarrow> ('w tick_state, int \<times> rat) act" where
  "settle_tick h tm iv success =
     (let peer = in_peer iv; run = in_run iv; rl = is_rate_limited run in
      act_bind (on_loop (advance tm success rl)) (\<lambda>_.
      act_bind (put (record_tick_accounting success (in_dt iv) (Some peer) rl)) (\<lambda>_.
      act_bind (on_loop (\<lambda>s. let (u, s1) = account_tokens_usd (dh_fadd h) (dh_parsers h) (in_tool iv) (rr_output run) s in (Inr u, s1))) (\<lambda>used.
      act_bind (on_loop (update_peer_health peer success rl)) (\<lambda>_. ret used)))))"

definition on_halt :: "'w hooks \<Rightarrow> ('w tick_state, string option) act" where
  "on_halt h t =
     (case maybe_halt (dh_halt h) (ts_state t, ts_world t) of
        (r, (s, w)) \<Rightarrow> (r, t\<lparr>ts_state := s, ts_world := w\<rparr>))"

text \<open>The second half of \<open>_finalize_tick\<close>, after the halt: history, attestation, gates, logs, the counter.\<close>

definition wrap_up :: "'w hooks \<Rightarrow> invocation \<Rightarrow> bool \<Rightarrow> int \<times> rat \<Rightarrow> string option \<Rightarrow> ('w tick_state, string option) act" where
  "wrap_up h iv success used halt =
     (let peer = in_peer iv; run = in_run iv in
      act_bind get_state (\<lambda>s.
      act_bind (io (dh_history h s (ls_warnings s))) (\<lambda>_.
      act_bind (safe_head_sha h) (\<lambda>head.
      act_bind (\<lambda>t. (Inr (ts_head t), t)) (\<lambda>before.
      act_bind (case head of None \<Rightarrow> ret () | Some sha \<Rightarrow> swallow (dh_attest h peer before sha)) (\<lambda>_.
      act_bind (if success \<and> in_failed iv \<noteq> [] then refresh_goals_after_tick h (in_failed iv) else ret ()) (\<lambda>_.
      act_bind get_state (\<lambda>s.
      act_bind (io (dh_run_log h s peer run success used)) (\<lambda>_.
      act_bind (save h) (\<lambda>_.
      act_bind get_state (\<lambda>s.
      act_bind (io (dh_emit h s peer run success (in_dt iv) head)) (\<lambda>_.
      act_bind (update_convergence_counter h success (is_rate_limited run)) (\<lambda>_.
      act_bind (case head of None \<Rightarrow> ret () | Some sha \<Rightarrow> if halt = None then io (dh_submit h sha) else ret ()) (\<lambda>_.
      ret halt))))))))))))))"

definition finalize_tick :: "'w hooks \<Rightarrow> turn_manager \<Rightarrow> invocation \<Rightarrow> ('w tick_state, string option) act" where
  "finalize_tick h tm iv =
     act_bind (judge_run h iv) (\<lambda>success.
     act_bind (settle_tick h tm iv success) (\<lambda>used.
     act_bind (apply_rate_limit_backoff h (is_rate_limited (in_run iv))) (\<lambda>_.
     act_bind (dirty_worktree h) (\<lambda>_.
     act_bind (if success then detect_tampering h else ret ()) (\<lambda>_.
     act_bind (on_halt h) (\<lambda>halt. wrap_up h iv success used halt))))))"

section \<open>The loop\<close>

text \<open>One pass: an exit reason, or \<open>None\<close> and the loop goes on.\<close>

definition loop_pass :: "'w hooks \<Rightarrow> turn_manager \<Rightarrow> nat option \<Rightarrow> nat \<Rightarrow> ('w tick_state, string option) act" where
  "loop_pass h tm max_ticks n =
     act_bind (prepare_next_tick h max_ticks n) (\<lambda>(early, results).
     case early of
       Some r \<Rightarrow> ret (Some r)
     | None \<Rightarrow>
         act_bind (invoke_peer h tm results) (\<lambda>iv.
         act_bind (handle_pattern_match_and_halt h n iv) (\<lambda>halted.
         case halted of
           Some r \<Rightarrow> ret (Some r)
         | None \<Rightarrow> finalize_tick h tm iv)))"

partial_function (option) run_loop ::
    "'w hooks \<Rightarrow> turn_manager \<Rightarrow> nat option \<Rightarrow> nat \<Rightarrow> 'w tick_state \<Rightarrow> (string res \<times> 'w tick_state) option" where
  "run_loop h tm max_ticks n s =
     (case loop_pass h tm max_ticks n s of
        (Inl e, s1) \<Rightarrow> Some (Inl e, s1)
      | (Inr (Some r), s1) \<Rightarrow> Some (Inr r, s1)
      | (Inr None, s1) \<Rightarrow> run_loop h tm max_ticks (n + 1) s1)"

end
