(* ===== verification/LoopTheorems.thy ===== *)
theory LoopTheorems
  imports TickLoop
begin

text \<open>
  What holds of the main loop of theory \<open>TickLoop\<close>: most of its steps are \<open>quiet\<close>, they leave the rotation
  and the account alone (the rules \<open>quiet_intros\<close> and \<open>steady_intros\<close> prove it step by step); the few that
  are not make a pass of the loop one tick of the rotation, and one unit of the budget. So the loop refines
  the rotation, it returns, and it says \<open>complete\<close> only in a state whose goals are green.
\<close>

section \<open>Steps that leave the rotation and the account alone\<close>

definition steady :: "loop_state \<Rightarrow> loop_state \<Rightarrow> bool" where
  "steady s t \<longleftrightarrow> same_turns s t \<and> bu_max_iterations (ls_budget t) = bu_max_iterations (ls_budget s) \<and>
     bu_iterations (ls_budget t) = bu_iterations (ls_budget s)"

definition quiet :: "('w tick_state, 'a) act \<Rightarrow> bool" where
  "quiet m \<longleftrightarrow> (\<forall>t r t'. m t = (r, t') \<longrightarrow> steady (ts_state t) (ts_state t'))"

named_theorems quiet_intros \<open>steps that are quiet\<close>
named_theorems steady_intros \<open>updates that are steady\<close>

lemma steady_refl [simp, steady_intros]: "steady s s"
  by (simp add: steady_def)

lemma steady_trans: "steady s t \<Longrightarrow> steady t u \<Longrightarrow> steady s u"
  by (auto simp: steady_def same_turns_def)

lemma steady_fields:
  "ls_order t = ls_order s \<Longrightarrow> ls_index t = ls_index s \<Longrightarrow> ls_roles t = ls_roles s \<Longrightarrow> ls_iteration t = ls_iteration s \<Longrightarrow>
   ls_peers t = ls_peers s \<Longrightarrow> bu_max_iterations (ls_budget t) = bu_max_iterations (ls_budget s) \<Longrightarrow>
   bu_iterations (ls_budget t) = bu_iterations (ls_budget s) \<Longrightarrow> steady s t"
  by (simp add: steady_def same_turns_def turn_view_def peer_of_def)

lemma quietD: "quiet m \<Longrightarrow> m t = (r, t') \<Longrightarrow> steady (ts_state t) (ts_state t')"
  by (simp add: quiet_def)

lemma quiet_bind [quiet_intros]: "quiet m \<Longrightarrow> (\<And>a. quiet (k a)) \<Longrightarrow> quiet (act_bind m k)"
  unfolding quiet_def act_bind_eq by (meson steady_trans)

lemma quiet_basic [quiet_intros]:
  "quiet (ret a)" "quiet (raise_exc e)" "quiet (act_res r)" "quiet get_state" "quiet (io m)" "quiet (swallow m')"
  "quiet (\<lambda>t. (g t, t))" "quiet (\<lambda>t. (q, t\<lparr>ts_head := hd'\<rparr>))"
  for m :: "('w, 'a) act" and m' :: "('w, unit) act" and hd' :: "string option"
  by (auto simp: quiet_def get_state_def io_def swallow_def split: prod.splits)

lemma quiet_put [quiet_intros]: "(\<And>s. steady s (f s)) \<Longrightarrow> quiet (put f)"
  by (simp add: quiet_def put_def)

lemma quiet_on_loop [quiet_intros]: "(\<And>s. steady s (snd (m s))) \<Longrightarrow> quiet (on_loop m)"
proof -
  assume a: "\<And>s. steady s (snd (m s))"
  show ?thesis
    unfolding quiet_def on_loop_def
  proof (intro allI impI)
    fix t r t'
    assume "(case m (ts_state t) of (r, l) \<Rightarrow> (r, t\<lparr>ts_state := l\<rparr>)) = (r, t')"
    with a [of "ts_state t"] show "steady (ts_state t) (ts_state t')" by (cases "m (ts_state t)") auto
  qed
qed

lemma quiet_cases [quiet_intros]:
  "(b \<Longrightarrow> quiet m) \<Longrightarrow> (\<not> b \<Longrightarrow> quiet n) \<Longrightarrow> quiet (if b then m else n)"
  "(x = None \<Longrightarrow> quiet m) \<Longrightarrow> (\<And>y. x = Some y \<Longrightarrow> quiet (f y)) \<Longrightarrow> quiet (case x of None \<Rightarrow> m | Some y \<Rightarrow> f y)"
  "(\<And>e. quiet (g e)) \<Longrightarrow> (\<And>a. quiet (k a)) \<Longrightarrow> quiet (case z of Inl e \<Rightarrow> g e | Inr a \<Rightarrow> k a)"
  "(\<And>a b. quiet (l a b)) \<Longrightarrow> quiet (case q of (a, b) \<Rightarrow> l a b)"
  by (simp_all split: option.split sum.split prod.split)

lemma steady_set_peer [steady_intros]:
  "peer_of s n = Some p \<Longrightarrow> ph_state q = ph_state p \<Longrightarrow> ph_fails q = ph_fails p \<Longrightarrow> ph_cooldown q = ph_cooldown p \<Longrightarrow>
   ph_degraded_at q = ph_degraded_at p \<Longrightarrow> steady s (set_peer n q s)"
  by (simp add: steady_def same_turns_def turn_view_def)

lemma steady_update_peer [steady_intros]:
  assumes "\<And>p. ph_state (f p) = ph_state p \<and> ph_fails (f p) = ph_fails p \<and> ph_cooldown (f p) = ph_cooldown p \<and> ph_degraded_at (f p) = ph_degraded_at p"
  shows "steady s (snd (update_peer n f s))"
  using assms by (auto simp: update_peer_def intro: steady_set_peer split: option.split)

lemma steady_record_result: "steady s (record_result b gr s)"
  by (cases gr) (auto simp: record_result_def Let_def intro: steady_fields)

lemma steady_record_goal_results [steady_intros]: "steady s (record_goal_results b results s)"
  unfolding record_goal_results_def
  by (induction results arbitrary: s) (auto intro: steady_trans [OF steady_record_result])

lemma steady_reset_stuck [steady_intros]: "steady s (snd (reset_stuck_on_progress f k m s))"
  by (auto simp: reset_stuck_on_progress_def Let_def intro: steady_fields split: sum.split option.split)

lemma steady_two_phase [steady_intros]: "steady s (update_two_phase_counters sk results s)"
  by (auto simp: update_two_phase_counters_def Let_def intro: steady_fields)

lemma steady_budget_reason [steady_intros]: "steady s (snd (budget_reason f s))"
  by (auto simp: budget_reason_def warn_once_def Let_def intro!: steady_fields split: option.split)

lemma steady_tokens [steady_intros]: "steady s (snd (account_tokens_usd a p t out s))"
  by (auto simp: account_tokens_usd_def Let_def intro!: steady_fields split: option.split prod.split)

lemma steady_updates [steady_intros]:
  "steady s (s\<lparr>ls_warnings := a\<rparr>)" "steady s (s\<lparr>ls_phase := b\<rparr>)" "steady s (s\<lparr>ls_skeptic_pending := c\<rparr>)"
  "steady s (s\<lparr>ls_skeptic_pending := c, ls_skeptic_at := d\<rparr>)" "steady s (s\<lparr>ls_rate_streak := e\<rparr>)" "steady s (s\<lparr>ls_clean_ticks := f\<rparr>)"
  by (auto intro: steady_fields)

lemma quiet_warn [quiet_intros]: "quiet (warn h n)"
  unfolding warn_def by (intro quiet_intros steady_intros)

lemma quiet_save [quiet_intros]: "quiet (save h)"
  unfolding save_def by (intro quiet_intros)

lemma quiet_safe_head_sha [quiet_intros]: "quiet (safe_head_sha h)"
  unfolding safe_head_sha_def by (intro quiet_intros)

lemma quiet_stop_with [quiet_intros]: "quiet (stop_with h r n)"
  unfolding stop_with_def by (intro quiet_intros)

lemma quiet_exit [quiet_intros]: "quiet (exit_with_fresh_results h r n)"
  unfolding exit_with_fresh_results_def by (intro quiet_intros steady_intros)

lemma quiet_reset_on_progress [quiet_intros]: "quiet (reset_on_progress h)"
  unfolding reset_on_progress_def by (intro quiet_intros steady_intros)

lemma quiet_two_phase [quiet_intros]: "quiet (two_phase h results)"
  unfolding two_phase_def tick_skeptic_def by (intro quiet_intros steady_intros)

lemma quiet_recheck [quiet_intros]: "quiet (converged_after_fresh_recheck h results)"
  unfolding converged_after_fresh_recheck_def by (intro quiet_intros steady_intros)

lemma quiet_on_convergence [quiet_intros]: "quiet (on_convergence h n)"
  unfolding on_convergence_def by (intro quiet_intros steady_intros)

lemma quiet_pre_tick_exit [quiet_intros]: "quiet (pre_tick_exit h m n)"
  unfolding pre_tick_exit_def by (intro quiet_intros; simp add: steady_intros)

lemma quiet_maybe_checkpoint [quiet_intros]: "quiet (maybe_checkpoint_exit h n)"
  unfolding maybe_checkpoint_exit_def Let_def by (intro quiet_intros steady_intros)

lemma quiet_prepare_next_tick [quiet_intros]: "quiet (prepare_next_tick h m n)"
  unfolding prepare_next_tick_def by (intro quiet_intros)

lemma quiet_post_run [quiet_intros]: "quiet (post_run h peer run)"
  unfolding post_run_def by (intro quiet_intros steady_intros; simp)

lemma quiet_classify [quiet_intros]: "quiet (classify_cheating h)"
  unfolding classify_cheating_def by (intro quiet_intros)

lemma clear_cheating_fields [simp]:
  "ph_state (clear_cheating p) = ph_state p" "ph_fails (clear_cheating p) = ph_fails p"
  "ph_cooldown (clear_cheating p) = ph_cooldown p" "ph_degraded_at (clear_cheating p) = ph_degraded_at p"
  by (simp_all add: clear_cheating_def)

lemma quiet_anti_cheating [quiet_intros]: "quiet (apply_anti_cheating_outcome h peer ok)"
  unfolding apply_anti_cheating_outcome_def by (intro quiet_intros steady_intros; simp)

lemma quiet_dry_run [quiet_intros]: "quiet (apply_dry_run_reset h ok)"
  unfolding apply_dry_run_reset_def by (intro quiet_intros)

lemma quiet_judge_run [quiet_intros]: "quiet (judge_run h iv)"
  unfolding judge_run_def Let_def by (intro quiet_intros)

lemma quiet_backoff [quiet_intros]: "quiet (apply_rate_limit_backoff h rl)"
  unfolding apply_rate_limit_backoff_def Let_def by (intro quiet_intros steady_intros)

lemma quiet_tampering [quiet_intros]: "quiet (detect_tampering h)"
  unfolding detect_tampering_def by (intro quiet_intros)

lemma quiet_refresh [quiet_intros]: "quiet (refresh_goals_after_tick h ids)"
  unfolding refresh_goals_after_tick_def by (intro quiet_intros steady_intros)

lemma quiet_counter [quiet_intros]: "quiet (update_convergence_counter h ok rl)"
  unfolding update_convergence_counter_def by (intro quiet_intros steady_intros)

lemma quiet_dirty [quiet_intros]: "quiet (dirty_worktree h)"
proof -
  have "quiet (case r of Inl CalledProcessError \<Rightarrow> act_bind (warn h DirtyProbeFailed) (\<lambda>_. ret True)
      | Inl e \<Rightarrow> raise_exc e | Inr b \<Rightarrow> ret b)" for r
    by (auto split: sum.split pyexc.split intro!: quiet_intros)
  then show ?thesis unfolding dirty_worktree_def by (intro quiet_intros) (auto split: sum.split pyexc.split intro!: quiet_intros)
qed

section \<open>A pass of the loop is a step of the rotation\<close>

lemma bind_ok [elim!]:
  assumes "act_bind m k s = (Inr b, s')"
  obtains a s1 where "m s = (Inr a, s1)" and "k a s1 = (Inr b, s')"
  using assms by (auto simp: act_bind_Inr)

lemma quiet_same: "quiet m \<Longrightarrow> m t = (r, t') \<Longrightarrow> same_turns (ts_state t) (ts_state t')"
  by (auto simp: steady_def dest: quietD)

lemma on_loop_iff: "on_loop m t = (r, t') \<longleftrightarrow> (\<exists>l. m (ts_state t) = (r, l) \<and> t' = t\<lparr>ts_state := l\<rparr>)"
  by (auto simp: on_loop_def split: prod.splits)

lemma put_iff: "put f t = (r, t') \<longleftrightarrow> r = Inr () \<and> t' = t\<lparr>ts_state := f (ts_state t)\<rparr>"
  by (auto simp: put_def)

lemma quiet_pop [quiet_intros]: "quiet (on_loop pop_prompt_warnings)" "quiet (on_loop pop_skeptic)"
  by (intro quiet_intros; simp add: pop_prompt_warnings_def pop_skeptic_def steady_updates)+

text \<open>The prompt starts with the turn manager's answer; nothing after it touches the turn.\<close>

definition prompt_for :: "'w hooks \<Rightarrow> results \<Rightarrow> string \<Rightarrow> ('w tick_state, string \<times> string \<times> string) act" where
  "prompt_for h results peer =
     act_bind get_state (\<lambda>s.
     act_bind (io (dh_inbox h (others s) peer)) (\<lambda>notes.
     act_bind (put (\<lambda>s. s\<lparr>ls_warnings := ls_warnings s @ notes\<rparr>)) (\<lambda>_.
     act_bind (on_loop pop_prompt_warnings) (\<lambda>warnings.
     act_bind (on_loop pop_skeptic) (\<lambda>skeptic.
     act_bind (io (dh_prompt h s peer results warnings skeptic)) (\<lambda>prompt.
     case dh_tool h peer of
       None \<Rightarrow> raise_exc KeyError
     | Some tool \<Rightarrow> ret (peer, tool, prompt)))))))"

lemma prepare_tick_prompt_eq: "prepare_tick_prompt h tm results = act_bind (on_loop (current tm)) (prompt_for h results)"
  by (simp add: prepare_tick_prompt_def prompt_for_def [abs_def])

lemma quiet_prompt_for [quiet_intros]: "quiet (prompt_for h results peer)"
  unfolding prompt_for_def by (intro quiet_intros steady_intros)

lemma prompt_for_peer: "prompt_for h results peer t = (Inr (p, tool, prompt), t') \<Longrightarrow> p = peer"
  by (auto simp: prompt_for_def split: option.splits)

lemma quiet_call_peer: "quiet (call_peer h results peer tool prompt)"
  unfolding call_peer_def Let_def by (intro quiet_intros)

lemma call_peer_peer: "call_peer h results peer tool prompt t = (Inr iv, t') \<Longrightarrow> in_peer iv = peer"
  by (auto simp: call_peer_def Let_def split: if_splits)

lemma invoke_peer_turn:
  assumes "invoke_peer h tm results t = (Inr iv, t')"
  obtains s1 where "current tm (ts_state t) = (Inr (in_peer iv), s1)" and "steady s1 (ts_state t')"
proof -
  from assms obtain a t1 where p: "prepare_tick_prompt h tm results t = (Inr a, t1)"
    and r: "(case a of (peer, tool, prompt) \<Rightarrow> call_peer h results peer tool prompt) t1 = (Inr iv, t')"
    unfolding invoke_peer_def by blast
  from p obtain peer t0 where c: "on_loop (current tm) t = (Inr peer, t0)" and f: "prompt_for h results peer t0 = (Inr a, t1)"
    unfolding prepare_tick_prompt_eq by blast
  obtain tool prompt where a: "a = (peer, tool, prompt)" using prompt_for_peer f by (cases a) blast
  from r a have call: "call_peer h results peer tool prompt t1 = (Inr iv, t')" by simp
  from c obtain s1 where "current tm (ts_state t) = (Inr (in_peer iv), s1)" "ts_state t0 = s1"
    using call_peer_peer [OF call] by (auto simp: on_loop_iff)
  moreover have "steady (ts_state t0) (ts_state t')"
    using quietD [OF quiet_prompt_for f] quietD [OF quiet_call_peer call] by (rule steady_trans)
  ultimately show ?thesis using that by blast
qed

lemma quiet_wrap_up: "quiet (wrap_up h iv success used halt)"
  unfolding wrap_up_def Let_def by (intro quiet_intros)

lemma wrap_up_halt: "wrap_up h iv success used halt t = (Inr r, t') \<Longrightarrow> r = halt"
  by (auto simp: wrap_up_def Let_def)

lemma on_halt_None: "on_halt h t = (Inr None, t') \<Longrightarrow> ts_state t' = ts_state t"
  by (auto simp: on_halt_def maybe_halt_def Let_def split: prod.splits sum.splits bool.splits if_splits)

lemma settle_tick_steps:
  assumes "settle_tick h tm iv success t = (Inr used, t')"
  obtains rl s3 s4 where "advance tm success rl (ts_state t) = (Inr (), s3)"
    and "steady (record_tick_accounting success (in_dt iv) (Some (in_peer iv)) rl s3) s4"
    and "update_peer_health (in_peer iv) success rl s4 = (Inr (), ts_state t')"
proof -
  let ?rl = "is_rate_limited (in_run iv)"
  let ?acc = "record_tick_accounting success (in_dt iv) (Some (in_peer iv)) ?rl"
  from assms obtain t1 t2 t3 u where 1: "on_loop (advance tm success ?rl) t = (Inr (), t1)" and 2: "put ?acc t1 = (Inr (), t2)"
    and 3: "on_loop (\<lambda>s. let (u, s1) = account_tokens_usd (dh_fadd h) (dh_parsers h) (in_tool iv) (rr_output (in_run iv)) s in (Inr u, s1)) t2 = (Inr u, t3)"
    and 4: "on_loop (update_peer_health (in_peer iv) success ?rl) t3 = (Inr (), t')"
    unfolding settle_tick_def Let_def by (elim bind_ok) (auto simp del: split_paired_Ex)
  from 3 steady_tokens [of "ts_state t2"] have "steady (ts_state t2) (ts_state t3)"
    by (auto simp: on_loop_iff Let_def split: prod.splits) (metis snd_conv)
  with 1 2 4 that show ?thesis by (auto simp: on_loop_iff put_iff)
qed

lemma finalize_tick_steps:
  assumes "finalize_tick h tm iv t = (Inr None, t')"
  obtains success used t1 t2 where "steady (ts_state t) (ts_state t1)" and "settle_tick h tm iv success t1 = (Inr used, t2)"
    and "steady (ts_state t2) (ts_state t')"
proof -
  from assms obtain success used t1 t2 t3 t4 t5 t6 halt d u1 u2 where 1: "judge_run h iv t = (Inr success, t1)"
    and 2: "settle_tick h tm iv success t1 = (Inr used, t2)"
    and 3: "apply_rate_limit_backoff h (is_rate_limited (in_run iv)) t2 = (Inr u1, t3)" "dirty_worktree h t3 = (Inr d, t4)"
    and 4: "(if success then detect_tampering h else ret ()) t4 = (Inr u2, t5)" and 5: "on_halt h t5 = (Inr halt, t6)"
    and 6: "wrap_up h iv success used halt t6 = (Inr None, t')"
    unfolding finalize_tick_def by (elim bind_ok) blast
  have "steady (ts_state t4) (ts_state t5)" using 4 by (elim quietD [rotated]) (intro quiet_intros)
  with quietD [OF quiet_backoff 3(1)] quietD [OF quiet_dirty 3(2)] have "steady (ts_state t2) (ts_state t5)"
    by (blast intro: steady_trans)
  moreover from wrap_up_halt [OF 6] 5 have "ts_state t6 = ts_state t5" by (simp add: on_halt_None)
  ultimately have "steady (ts_state t2) (ts_state t')" using quietD [OF quiet_wrap_up 6] by (metis steady_trans)
  with that [OF quietD [OF quiet_judge_run 1] 2] show ?thesis by blast
qed

lemma handled_None: "handle_pattern_match_and_halt h n iv t = (Inr None, t') \<Longrightarrow> t' = t"
  by (auto simp: handle_pattern_match_and_halt_def Let_def split: if_splits)

text \<open>The steps of a pass that goes on.\<close>

lemma loop_pass_steps:
  assumes "loop_pass h tm mt n t = (Inr None, t')"
  obtains results t1 iv t2 where "prepare_next_tick h mt n t = (Inr (None, results), t1)"
    and "invoke_peer h tm results t1 = (Inr iv, t2)" and "finalize_tick h tm iv t2 = (Inr None, t')"
proof -
  from assms obtain early results t1 where 1: "prepare_next_tick h mt n t = (Inr (early, results), t1)"
    and 2: "(case early of Some r \<Rightarrow> ret (Some r)
     | None \<Rightarrow> act_bind (invoke_peer h tm results) (\<lambda>iv. act_bind (handle_pattern_match_and_halt h n iv) (\<lambda>halted.
         case halted of Some r \<Rightarrow> ret (Some r) | None \<Rightarrow> finalize_tick h tm iv))) t1 = (Inr None, t')"
    unfolding loop_pass_def by (elim bind_ok) (auto simp del: split_paired_Ex)
  from 2 have e: "early = None" by (cases early) auto
  with 2 obtain iv t2 halted t3 where 3: "invoke_peer h tm results t1 = (Inr iv, t2)"
    "handle_pattern_match_and_halt h n iv t2 = (Inr halted, t3)"
    "(case halted of Some r \<Rightarrow> ret (Some r) | None \<Rightarrow> finalize_tick h tm iv) t3 = (Inr None, t')"
    by (simp del: split_paired_Ex) (elim bind_ok, blast)
  from 3(3) have "halted = None" by (cases halted) auto
  with 3 handled_None [of h n iv t2 t3] that 1 e show ?thesis by auto
qed

lemma pass_is_tick:
  assumes "loop_pass h tm mt n t = (Inr None, t')"
  shows "\<exists>p. tick tm (ts_state t) p (ts_state t')"
  using assms
proof (rule loop_pass_steps)
  fix results t1 iv t2
  assume 1: "prepare_next_tick h mt n t = (Inr (None, results), t1)" and 2: "invoke_peer h tm results t1 = (Inr iv, t2)"
    and "finalize_tick h tm iv t2 = (Inr None, t')"
  from this(3) obtain success used t3 t4 where 3: "steady (ts_state t2) (ts_state t3)"
    "settle_tick h tm iv success t3 = (Inr used, t4)" "steady (ts_state t4) (ts_state t')"
    by (rule finalize_tick_steps)
  from 2 obtain s1 where i: "current tm (ts_state t1) = (Inr (in_peer iv), s1)" "steady s1 (ts_state t2)"
    by (rule invoke_peer_turn)
  from 3(2) obtain rl s3 s4 where s: "advance tm success rl (ts_state t3) = (Inr (), s3)"
    "steady (record_tick_accounting success (in_dt iv) (Some (in_peer iv)) rl s3) s4"
    "update_peer_health (in_peer iv) success rl s4 = (Inr (), ts_state t4)"
    by (rule settle_tick_steps)
  have "same_turns s1 (ts_state t3)" "same_turns (ts_state t4) (ts_state t')"
    "same_turns (record_tick_accounting success (in_dt iv) (Some (in_peer iv)) rl s3) s4"
    using i(2) 3(1,3) s(2) same_turns_trans by (auto simp: steady_def)
  from tick.intros [OF quiet_same [OF quiet_prepare_next_tick 1] i(1) this(1) s(1) this(3) s(3) this(2)]
  show ?thesis ..
qed

section \<open>The loop as a run of ticks\<close>

text \<open>\<open>k\<close> passes that all go on, from the pass number \<open>n\<close>.\<close>

fun passes :: "'w hooks \<Rightarrow> turn_manager \<Rightarrow> nat option \<Rightarrow> nat \<Rightarrow> nat \<Rightarrow> 'w tick_state \<Rightarrow> 'w tick_state option" where
  "passes h tm mt n 0 t = Some t"
| "passes h tm mt n (Suc k) t =
     (case loop_pass h tm mt n t of (Inr None, t1) \<Rightarrow> passes h tm mt (n + 1) k t1 | _ \<Rightarrow> None)"

lemma passes_ticks: "passes h tm mt n k t = Some t' \<Longrightarrow> \<exists>ps. length ps = k \<and> ticks tm (ts_state t) ps (ts_state t')"
proof (induction k arbitrary: n t)
  case 0
  then show ?case by (auto intro: ticks_none)
next
  case (Suc k)
  then obtain t1 where 1: "loop_pass h tm mt n t = (Inr None, t1)" "passes h tm mt (n + 1) k t1 = Some t'"
    by (auto split: prod.splits sum.splits option.splits)
  from Suc.IH [OF 1(2)] pass_is_tick [OF 1(1)] show ?case by (metis length_Cons ticks_more)
qed

section \<open>The budget stops the loop\<close>

definition spent :: "nat \<Rightarrow> loop_state \<Rightarrow> loop_state \<Rightarrow> bool" where
  "spent k s s' \<longleftrightarrow> bu_max_iterations (ls_budget s') = bu_max_iterations (ls_budget s) \<and>
     bu_iterations (ls_budget s') \<le> bu_iterations (ls_budget s) + int k"

definition spends :: "nat \<Rightarrow> ('w tick_state, 'a) act \<Rightarrow> bool" where
  "spends k m \<longleftrightarrow> (\<forall>t r t'. m t = (r, t') \<longrightarrow> spent k (ts_state t) (ts_state t'))"

lemma spends_bind: "spends j m \<Longrightarrow> (\<And>a. spends k (f a)) \<Longrightarrow> spends (j + k) (act_bind m f)"
  unfolding spends_def spent_def act_bind_eq by (intro allI impI) (elim disjE exE conjE; fastforce)

lemma spends_0: "spends 0 m \<Longrightarrow> spends k n \<Longrightarrow> (\<And>a. f a = n) \<Longrightarrow> spends k (act_bind m f)"
  using spends_bind [of 0 m k f] by simp

lemma quiet_spends: "quiet m \<Longrightarrow> spends k m"
  by (fastforce simp: quiet_def spends_def spent_def steady_def)

lemma spends_on_loop: "(\<And>s. spent k s (snd (m s))) \<Longrightarrow> spends k (on_loop m)"
  unfolding spends_def by (auto simp: on_loop_iff) (metis snd_conv)

lemma budget_same: "ls_budget s' = ls_budget s \<Longrightarrow> spent 0 s s'"
  by (simp add: spent_def)

lemma current_budget: "ls_budget (snd (current tm s)) = ls_budget s"
  by (auto simp: current_def split: option.split)

lemma update_peer_budget: "ls_budget (snd (update_peer n f s)) = ls_budget s"
  by (simp add: update_peer_def split: option.split)

lemma advance_budget: "ls_budget (snd (advance tm a b s)) = ls_budget s"
  using current_budget [of tm s]
  by (auto simp: advance_def act_bind_def update_peer_def rotate_turn_def split: prod.splits sum.splits option.splits if_splits)

lemma accounting_budget: "spent 1 s (record_tick_accounting a dt p rl s)"
  by (simp add: spent_def record_tick_accounting_def Let_def)

lemma halt_all_budget [simp]: "ls_budget (halt_all s) = ls_budget s"
proof -
  have "ls_budget (mark_halted p s) = ls_budget s" for p s by (simp add: mark_halted_def split: option.split)
  then have "ls_budget (fold mark_halted ps s) = ls_budget s" for ps by (induction ps arbitrary: s) simp_all
  then show ?thesis by (simp add: halt_all_def)
qed

lemma spends_on_halt: "spends 0 (on_halt h)"
  unfolding spends_def spent_def
  by (auto simp: on_halt_def maybe_halt_def Let_def split: prod.splits sum.splits bool.splits if_splits)

lemma spends_invoke: "spends 0 (invoke_peer h tm results)"
proof -
  have c: "spends 0 (on_loop (current tm))" by (intro spends_on_loop budget_same current_budget)
  have "spends 0 (prepare_tick_prompt h tm results)"
    unfolding prepare_tick_prompt_eq using spends_bind [OF c quiet_spends [OF quiet_prompt_for]] by simp
  moreover have "spends 0 (case a of (x, y, z) \<Rightarrow> call_peer h results x y z)" for a
    by (cases a) (simp add: quiet_spends [OF quiet_call_peer])
  ultimately show ?thesis unfolding invoke_peer_def by (rule spends_bind [of 0 _ 0, simplified])
qed

lemma spends_handle: "spends 0 (handle_pattern_match_and_halt h n iv)"
proof -
  let ?f = "\<lambda>s. let p = (case peer_of s (in_peer iv) of None \<Rightarrow> default_health | Some p \<Rightarrow> p) in
     set_peer (in_peer iv) (p\<lparr>ph_state := Some ''unavailable'',
       ph_unavailable := Some (py_take 80 (rr_pattern (in_run iv)), ls_iteration s, py_take 200 (rr_snippet (in_run iv)))\<rparr>) s"
  have p: "spends 0 (put ?f)" by (simp add: spends_def put_def spent_def Let_def)
  have "spends 0 (act_bind (stop_with h x n) (\<lambda>r. ret (Some r)))" for x by (intro quiet_spends quiet_intros)
  from spends_bind [OF p this] have "spends 0 (act_bind (put ?f) (\<lambda>_. act_bind (stop_with h x n) (\<lambda>r. ret (Some r))))" for x by simp
  from spends_bind [OF quiet_spends [OF quiet_basic(5)] this, of 0] show ?thesis
    unfolding handle_pattern_match_and_halt_def Let_def by (auto intro: quiet_spends quiet_basic)
qed

lemma spends_settle: "spends 1 (settle_tick h tm iv success)"
proof -
  let ?rl = "is_rate_limited (in_run iv)"
  have 1: "spends 0 (on_loop (advance tm success ?rl))" by (intro spends_on_loop budget_same advance_budget)
  have 2: "spends 1 (put (record_tick_accounting success (in_dt iv) (Some (in_peer iv)) ?rl))"
    using accounting_budget by (simp add: spends_def put_def)
  have 3: "spends 0 (on_loop (\<lambda>s. let (u, s1) = account_tokens_usd (dh_fadd h) (dh_parsers h) (in_tool iv) (rr_output (in_run iv)) s in (Inr u, s1)))"
  proof (intro spends_on_loop)
    fix s show "spent 0 s (snd (let (u, s1) = account_tokens_usd (dh_fadd h) (dh_parsers h) (in_tool iv) (rr_output (in_run iv)) s in (Inr u, s1)))"
      using steady_tokens [of s "dh_fadd h" "dh_parsers h" "in_tool iv" "rr_output (in_run iv)"]
      by (auto simp: spent_def steady_def Let_def case_prod_beta)
  qed
  have 4: "spends 0 (on_loop (update_peer_health (in_peer iv) success ?rl))"
    unfolding update_peer_health_def by (intro spends_on_loop budget_same update_peer_budget)
  have r: "spends 0 (ret used)" for used by (intro quiet_spends quiet_basic)
  note 4 [THEN spends_bind, OF r, simplified]
  note 3 [THEN spends_bind, OF this, simplified]
  note 2 [THEN spends_bind, OF this, simplified]
  note 1 [THEN spends_bind, OF this, simplified]
  then show ?thesis unfolding settle_tick_def Let_def by simp
qed

lemma spends_finalize: "spends 1 (finalize_tick h tm iv)"
proof -
  have "spends 0 (wrap_up h iv a b c)" for a b c by (rule quiet_spends [OF quiet_wrap_up])
  note spends_on_halt [THEN spends_bind, OF this, simplified]
  note spends_bind [OF _ this, of 0, simplified, OF quiet_spends [where k = 0]]
  note 1 = this
  have "spends 0 (act_bind (if success then detect_tampering h else ret ()) (\<lambda>_. act_bind (on_halt h) (wrap_up h iv success used)))" for success used
    by (intro 1 quiet_intros)
  note spends_bind [OF quiet_spends [OF quiet_dirty] this, of 0, simplified]
  note spends_bind [OF quiet_spends [OF quiet_backoff] this, of 0, simplified]
  note spends_settle [THEN spends_bind, OF this, simplified]
  note spends_bind [OF quiet_spends [OF quiet_judge_run] this, of 0, simplified]
  then show ?thesis unfolding finalize_tick_def by simp
qed

lemma spends_loop_pass: "spends 1 (loop_pass h tm mt n)"
proof -
  have f: "spends 1 (case halted of None \<Rightarrow> finalize_tick h tm iv | Some r \<Rightarrow> ret (Some r))" for halted iv
    by (cases halted) (simp_all add: spends_finalize quiet_spends quiet_basic del: One_nat_def)
  note 1 = spends_handle [THEN spends_bind, OF f, unfolded add_0]
  note 2 = spends_invoke [THEN spends_bind, OF 1, unfolded add_0]
  have "spends 1 (case a of (early, results) \<Rightarrow> (case early of Some r \<Rightarrow> ret (Some r)
     | None \<Rightarrow> act_bind (invoke_peer h tm results) (\<lambda>iv. act_bind (handle_pattern_match_and_halt h n iv) (\<lambda>halted.
         case halted of Some r \<Rightarrow> ret (Some r) | None \<Rightarrow> finalize_tick h tm iv))))" for a
    by (cases a; cases "fst a") (simp_all add: 2 quiet_spends quiet_basic del: One_nat_def)
  from spends_bind [OF quiet_spends [OF quiet_prepare_next_tick] this, of 0] show ?thesis unfolding loop_pass_def by simp
qed

lemma advance_Inr_budget: "advance tm a b s = (Inr (), s') \<Longrightarrow> ls_budget s' = ls_budget s"
  using advance_budget [of tm a b s] by simp

lemma health_Inr_budget: "update_peer_health p a b s = (r, s') \<Longrightarrow> ls_budget s' = ls_budget s"
  using update_peer_budget [of p "health_after (ls_iteration s) a b" s] by (simp add: update_peer_health_def)

lemma pass_iterations:
  assumes "loop_pass h tm mt n t = (Inr None, t')"
  shows "bu_iterations (ls_budget (ts_state t')) = bu_iterations (ls_budget (ts_state t)) + 1"
  using assms
proof (rule loop_pass_steps)
  fix results t1 iv t2
  assume 1: "prepare_next_tick h mt n t = (Inr (None, results), t1)" and 2: "invoke_peer h tm results t1 = (Inr iv, t2)"
    and "finalize_tick h tm iv t2 = (Inr None, t')"
  from this(3) obtain success used t3 t4 where 3: "steady (ts_state t2) (ts_state t3)"
    "settle_tick h tm iv success t3 = (Inr used, t4)" "steady (ts_state t4) (ts_state t')"
    by (rule finalize_tick_steps)
  from 2 obtain s1 where i: "current tm (ts_state t1) = (Inr (in_peer iv), s1)" "steady s1 (ts_state t2)"
    by (rule invoke_peer_turn)
  from 3(2) obtain rl s3 s4 where s: "advance tm success rl (ts_state t3) = (Inr (), s3)"
    "steady (record_tick_accounting success (in_dt iv) (Some (in_peer iv)) rl s3) s4"
    "update_peer_health (in_peer iv) success rl s4 = (Inr (), ts_state t4)"
    by (rule settle_tick_steps)
  have "ls_budget s1 = ls_budget (ts_state t1)" using current_budget [of tm "ts_state t1"] i(1) by simp
  moreover have "bu_iterations (ls_budget (record_tick_accounting a b c d s3)) = bu_iterations (ls_budget s3) + 1" for a b c d
    by (simp add: record_tick_accounting_def Let_def)
  ultimately show ?thesis
    using quietD [OF quiet_prepare_next_tick 1] i(2) 3(1,3) s(2) advance_Inr_budget [OF s(1)] health_Inr_budget [OF s(3)]
    by (simp add: steady_def)
qed

definition exhausted :: "loop_state \<Rightarrow> bool" where
  "exhausted s \<longleftrightarrow> bu_max_iterations (ls_budget s) \<le> of_int (bu_iterations (ls_budget s))"

lemma exhausted_reason: "exhausted s \<Longrightarrow> budget_reason f s = (Some ''max_iterations'', s)"
  by (simp add: exhausted_def budget_reason_def Let_def)

lemma exhausted_exits: "exhausted (ts_state t) \<Longrightarrow> pre_tick_exit h mt n t \<noteq> (Inr (None, results), t')"
  unfolding pre_tick_exit_def
  by (auto simp: on_loop_def exhausted_reason act_bind_def [of "on_loop m" for m] split: if_splits)

lemma exhausted_stops: "exhausted (ts_state t) \<Longrightarrow> loop_pass h tm mt n t \<noteq> (Inr None, t')"
proof
  assume e: "exhausted (ts_state t)" and "loop_pass h tm mt n t = (Inr None, t')"
  then obtain results t1 where "prepare_next_tick h mt n t = (Inr (None, results), t1)" by (metis loop_pass_steps)
  then obtain u t2 where "io (dh_verify_dir h) t = (Inr u, t2)" and p: "(\<exists>t3. pre_tick_exit h mt n t2 = (Inr (None, results), t3))"
    unfolding prepare_next_tick_def by (auto split: option.splits)
  then have "exhausted (ts_state t2)" using e quietD [OF quiet_basic(5)] by (fastforce simp: exhausted_def steady_def)
  with p exhausted_exits show False by blast
qed

lemma exhausted_pass:
  assumes "exhausted (ts_state t)" and "loop_pass h tm mt n t = (r, t')"
  shows "steady (ts_state t) (ts_state t')"
proof -
  obtain q t1 where q: "prepare_next_tick h mt n t = (q, t1)" by fastforce
  note steady = quietD [OF quiet_prepare_next_tick q]
  have "t' = t1"
  proof (cases q)
    case (Inl e)
    with q assms(2) show ?thesis by (simp add: loop_pass_def act_bind_def)
  next
    case (Inr a)
    then obtain early results where a: "q = Inr (early, results)" by (cases a) blast
    have "early \<noteq> None"
    proof
      assume "early = None"
      with q a obtain t2 where t2: "steady (ts_state t) (ts_state t2)" "\<exists>t3. pre_tick_exit h mt n t2 = (Inr (None, results), t3)"
        unfolding prepare_next_tick_def using quietD [OF quiet_basic(5)] by (auto split: option.splits) blast
      then have "exhausted (ts_state t2)" using assms(1) by (simp add: exhausted_def steady_def)
      with t2(2) exhausted_exits show False by blast
    qed
    with q a assms(2) show ?thesis by (auto simp: loop_pass_def act_bind_def)
  qed
  with steady show ?thesis by simp
qed

definition cap :: "loop_state \<Rightarrow> int" where
  "cap s = max (bu_iterations (ls_budget s)) \<lceil>bu_max_iterations (ls_budget s)\<rceil>"

lemma pass_within_cap:
  assumes "loop_pass h tm mt n t = (r, t')"
  shows "bu_iterations (ls_budget (ts_state t')) \<le> cap (ts_state t)" and "cap (ts_state t') \<le> cap (ts_state t)"
proof -
  have "bu_iterations (ls_budget (ts_state t')) \<le> cap (ts_state t) \<and>
     bu_max_iterations (ls_budget (ts_state t')) = bu_max_iterations (ls_budget (ts_state t))"
  proof (cases "exhausted (ts_state t)")
    case True
    from exhausted_pass [OF this assms] show ?thesis by (simp add: steady_def cap_def)
  next
    case False
    then have "bu_iterations (ls_budget (ts_state t)) + 1 \<le> \<lceil>bu_max_iterations (ls_budget (ts_state t))\<rceil>"
      by (simp add: exhausted_def less_ceiling_iff flip: zless_imp_add1_zle) linarith
    with spends_loop_pass [of h tm mt n] assms show ?thesis unfolding spends_def spent_def cap_def by fastforce
  qed
  then show "bu_iterations (ls_budget (ts_state t')) \<le> cap (ts_state t)" "cap (ts_state t') \<le> cap (ts_state t)"
    by (simp_all add: cap_def)
qed

text \<open>
  C9: the loop returns. Whatever the peers, the gates and git do, and whatever raises, the loop ends, by
  an exit reason or an exception, and by then it has run no more ticks than its cap of iterations
  allowed: the loop checks the cap before every tick, and every tick that goes on is counted.
\<close>

theorem loop_returns:
  "\<exists>r t'. run_loop h tm mt n t = Some (r, t') \<and> bu_iterations (ls_budget (ts_state t')) \<le> cap (ts_state t)"
proof (induction "nat (cap (ts_state t) - bu_iterations (ls_budget (ts_state t)))" arbitrary: n t rule: less_induct)
  case less
  obtain r t1 where p: "loop_pass h tm mt n t = (r, t1)" by fastforce
  note b = pass_within_cap [OF p]
  show ?case
  proof (cases "r = Inr None")
    case True
    note i = pass_iterations [OF p [unfolded True]]
    from b i have "nat (cap (ts_state t1) - bu_iterations (ls_budget (ts_state t1))) < nat (cap (ts_state t) - bu_iterations (ls_budget (ts_state t)))"
      by linarith
    from less [OF this] b(2) obtain r2 t2 where "run_loop h tm mt (n + 1) t1 = Some (r2, t2)"
      "bu_iterations (ls_budget (ts_state t2)) \<le> cap (ts_state t)" by (meson order_trans)
    with p True show ?thesis by (simp add: run_loop.simps [of h tm mt n t])
  next
    case False
    with p b(1) show ?thesis
      by (auto simp: run_loop.simps [of h tm mt n t] split: sum.split option.split)
  qed
qed

section \<open>What complete means\<close>

definition complete_text :: string where
  "complete_text = ''complete''"

definition truly_complete :: "'w hooks \<Rightarrow> loop_state \<Rightarrow> bool" where
  "truly_complete h s \<longleftrightarrow> (\<exists>w w'. dh_all_green h s w = (Inr True, w')) \<and> dh_mode h \<noteq> ''hunt-open-ended'' \<and>
     (dh_mode h = ''implement'' \<longrightarrow> ls_convergence s = ''complete'') \<and>
     (dh_auto_skeptic h \<longrightarrow> ls_iteration s - ls_skeptic_at s \<le> 1)"

lemma io_ok: "io m t = (Inr a, t') \<Longrightarrow> ts_state t' = ts_state t \<and> (\<exists>w w'. m w = (Inr a, w'))"
  by (auto simp: io_def split: prod.splits)

lemma get_state_iff: "get_state t = (r, t') \<longleftrightarrow> r = Inr (ts_state t) \<and> t' = t"
  by (auto simp: get_state_def)

lemma exit_reason: "exit_with_fresh_results h x n t = (Inr r, t') \<Longrightarrow> r = x"
  by (auto simp: exit_with_fresh_results_def)

lemma stop_reason: "stop_with h x n t = (Inr r, t') \<Longrightarrow> r = x \<and> ts_state t' = ts_state t"
  by (auto simp: stop_with_def save_def get_state_iff dest!: io_ok)

lemma converged_green:
  "converged_after_fresh_recheck h results t = (Inr True, t') \<Longrightarrow> \<exists>w w'. dh_all_green h (ts_state t') w = (Inr True, w')"
  by (auto simp: converged_after_fresh_recheck_def get_state_iff split: if_splits dest!: io_ok; blast)

lemma on_convergence_complete:
  assumes "on_convergence h n t = (Inr (Some r), t')"
  shows "ts_state t' = ts_state t \<and> dh_mode h \<noteq> ''hunt-open-ended'' \<and>
     (dh_mode h = ''implement'' \<longrightarrow> ls_convergence (ts_state t) = ''complete'') \<and>
     (dh_auto_skeptic h \<longrightarrow> ls_iteration (ts_state t) - ls_skeptic_at (ts_state t) \<le> 1)"
  using assms unfolding on_convergence_def
  by (auto simp: get_state_iff not_less split: if_splits dest!: stop_reason)

lemma stuck_not_complete: "compute_stuck_gate_halt_reason a b s = Inr (Some x) \<Longrightarrow> x \<noteq> complete_text"
  by (cases "watched_gates b s") (auto simp: compute_stuck_gate_halt_reason_def stuck_text_def complete_text_def Let_def split: if_splits)

text \<open>The gates of a pass, from the point where no limit has stopped it.\<close>

definition judge_goals :: "'w hooks \<Rightarrow> nat \<Rightarrow> ('w tick_state, string option \<times> results) act" where
  "judge_goals h n =
     act_bind (io (dh_eval_tick h)) (\<lambda>results.
     act_bind (put (record_goal_results True results)) (\<lambda>_.
     act_bind (reset_on_progress h) (\<lambda>_.
     act_bind (two_phase h results) (\<lambda>_.
     act_bind (converged_after_fresh_recheck h results) (\<lambda>conv.
     if conv then act_bind (on_convergence h n) (\<lambda>r. ret (r, results))
     else ret (None, results))))))"

lemma judge_goals_complete:
  assumes "judge_goals h n t = (Inr (Some r, results), t')"
  shows "truly_complete h (ts_state t')"
proof -
  from assms obtain t1 conv t2 q where 1: "converged_after_fresh_recheck h q t1 = (Inr conv, t2)"
    and 2: "(if conv then act_bind (on_convergence h n) (\<lambda>r. ret (r, q)) else ret (None, q)) t2 = (Inr (Some r, results), t')"
    unfolding judge_goals_def by (elim bind_ok) blast
  from 2 have c: "conv" "on_convergence h n t2 = (Inr (Some r), t')" by (auto split: if_splits)
  from on_convergence_complete [OF c(2)] converged_green 1 c(1) show ?thesis by (auto simp: truly_complete_def)
qed

lemma pre_tick_complete:
  assumes "pre_tick_exit h mt n t = (Inr (Some complete_text, results), t')"
  shows "truly_complete h (ts_state t')"
proof -
  have n: "complete_text \<noteq> CHR ''m'' # x" "complete_text \<noteq> CHR ''b'' # x" "complete_text \<noteq> CHR ''g'' # x" for x
    by (simp_all add: complete_text_def)
  from assms obtain t1 where "judge_goals h n t1 = (Inr (Some complete_text, results), t')"
    unfolding pre_tick_exit_def judge_goals_def [symmetric]
    by (auto simp: n stuck_not_complete [THEN not_sym] split: if_splits option.splits dest!: exit_reason stop_reason)
  then show ?thesis by (rule judge_goals_complete)
qed

lemma complete_is_no_other [simp]: "complete_text \<noteq> checkpoint_reason" "complete_text \<noteq> halt_reason_text" "complete_text \<noteq> CHR ''p'' # x"
  by (simp_all add: complete_text_def checkpoint_reason_def halt_reason_text_def)

lemma checkpoint_exit: "maybe_checkpoint_exit h n t = (Inr (Some r), t') \<Longrightarrow> r = checkpoint_reason"
  by (auto simp: maybe_checkpoint_exit_def Let_def split: if_splits dest!: exit_reason)

lemma prepare_complete:
  assumes "prepare_next_tick h mt n t = (Inr (Some complete_text, results), t')"
  shows "truly_complete h (ts_state t')"
  using assms unfolding prepare_next_tick_def
  by (auto split: option.splits dest!: pre_tick_complete dest!: checkpoint_exit)

lemma on_halt_Some: "on_halt h t = (Inr (Some r), t') \<Longrightarrow> r = halt_reason_text"
  by (auto simp: on_halt_def maybe_halt_def Let_def split: prod.splits sum.splits bool.splits if_splits)

lemma finalize_not_complete: "finalize_tick h tm iv t \<noteq> (Inr (Some complete_text), t')"
proof
  assume "finalize_tick h tm iv t = (Inr (Some complete_text), t')"
  then obtain t5 halt t6 success used where h: "on_halt h t5 = (Inr halt, t6)" and w: "wrap_up h iv success used halt t6 = (Inr (Some complete_text), t')"
    unfolding finalize_tick_def by (elim bind_ok) blast
  from wrap_up_halt [OF w] h have "on_halt h t5 = (Inr (Some complete_text), t6)" by simp
  from on_halt_Some [OF this] show False by simp
qed

lemma handled_not_complete: "handle_pattern_match_and_halt h n iv t \<noteq> (Inr (Some complete_text), t')"
proof
  assume "handle_pattern_match_and_halt h n iv t = (Inr (Some complete_text), t')"
  then show False
    unfolding handle_pattern_match_and_halt_def Let_def
    by (cases "rr_halt (in_run iv)") (auto dest!: stop_reason)
qed

lemma pass_complete:
  assumes "loop_pass h tm mt n t = (Inr (Some complete_text), t')"
  shows "truly_complete h (ts_state t')"
proof -
  from assms obtain early results t1 where 1: "prepare_next_tick h mt n t = (Inr (early, results), t1)"
    and 2: "(case early of Some r \<Rightarrow> ret (Some r)
     | None \<Rightarrow> act_bind (invoke_peer h tm results) (\<lambda>iv. act_bind (handle_pattern_match_and_halt h n iv) (\<lambda>halted.
         case halted of Some r \<Rightarrow> ret (Some r) | None \<Rightarrow> finalize_tick h tm iv))) t1 = (Inr (Some complete_text), t')"
    unfolding loop_pass_def by (elim bind_ok) (auto simp del: split_paired_Ex)
  have "early \<noteq> None"
  proof
    assume "early = None"
    with 2 obtain iv t2 halted t3 where 3: "handle_pattern_match_and_halt h n iv t2 = (Inr halted, t3)"
      "(case halted of Some r \<Rightarrow> ret (Some r) | None \<Rightarrow> finalize_tick h tm iv) t3 = (Inr (Some complete_text), t')"
      by (simp del: split_paired_Ex) (elim bind_ok, blast)
    then show False by (cases halted) (auto simp: finalize_not_complete handled_not_complete)
  qed
  with 2 have "early = Some complete_text" "t' = t1" by (auto split: option.splits)
  with 1 prepare_complete show ?thesis by simp
qed

text \<open>
  C10: complete means complete. When the loop returns \<open>complete\<close>, the goals were found green in the very
  state it returns with, the mode is not the open-ended one, in implement mode both convergence phases are
  through, and with the automatic skeptic on the skeptic's tick lies at most one tick back.
\<close>

theorem complete_is_green:
  assumes "run_loop h tm mt n t = Some (Inr complete_text, t')"
  shows "(\<exists>w w'. dh_all_green h (ts_state t') w = (Inr True, w')) \<and> dh_mode h \<noteq> ''hunt-open-ended'' \<and>
     (dh_mode h = ''implement'' \<longrightarrow> ls_convergence (ts_state t') = ''complete'') \<and>
     (dh_auto_skeptic h \<longrightarrow> ls_iteration (ts_state t') - ls_skeptic_at (ts_state t') \<le> 1)"
proof -
  let ?P = "\<lambda>(h :: 'a hooks) (tm :: turn_manager) (mt :: nat option) (n :: nat) (t :: 'a tick_state) (y :: string res \<times> 'a tick_state). fst y = Inr complete_text \<longrightarrow> truly_complete h (ts_state (snd y))"
  have "?P h tm mt n t (Inr complete_text, t')"
  proof (rule run_loop.raw_induct [OF _ assms, of ?P])
    fix loop h tm mt n s y
    assume hyp: "\<And>h tm mt n s y. loop h tm mt n s = Some y \<Longrightarrow> ?P h tm mt n s y"
      and eq: "(case loop_pass h tm mt n s of (Inl e, s1) \<Rightarrow> Some (Inl e, s1) | (Inr (Some r), s1) \<Rightarrow> Some (Inr r, s1)
        | (Inr None, s1) \<Rightarrow> loop h tm mt (n + 1) s1) = Some y"
    obtain r s1 where p: "loop_pass h tm mt n s = (r, s1)" by fastforce
    with eq hyp pass_complete show "?P h tm mt n s y" by (auto split: sum.splits option.splits)
  qed
  then show ?thesis by (simp add: truly_complete_def)
qed

section \<open>The loop refines the rotation\<close>

text \<open>
  C8: the loop refines the rotation. Every pass that goes on is one tick of the rotation: the peer the
  turn manager names is the one whose turn advances, whose health is updated and to whom the tick is
  charged, and nothing else the loop does in between touches the turn, the states of the other peers or the
  count. So \<open>k\<close> passes are \<open>k\<close> ticks, they raise the iteration and the account by \<open>k\<close>, and what holds of every
  run of ticks, above all that no peer starves, holds of the loop.
\<close>

theorem loop_refines_rotation:
  assumes "passes h tm mt n k t = Some t'"
  shows "\<exists>ps. length ps = k \<and> ticks tm (ts_state t) ps (ts_state t') \<and>
    bu_iterations (ls_budget (ts_state t')) = bu_iterations (ls_budget (ts_state t)) + int k"
proof -
  have "bu_iterations (ls_budget (ts_state t')) = bu_iterations (ls_budget (ts_state t)) + int k"
    using assms
  proof (induction k arbitrary: n t)
    case (Suc k)
    then obtain t1 where 1: "loop_pass h tm mt n t = (Inr None, t1)" "passes h tm mt (n + 1) k t1 = Some t'"
      by (auto split: prod.splits sum.splits option.splits)
    from Suc.IH [OF 1(2)] pass_iterations [OF 1(1)] show ?case by simp
  qed simp
  with passes_ticks [OF assms] show ?thesis by blast
qed

section \<open>On a concrete loop\<close>

definition good_run :: run_result where
  "good_run = \<lparr>rr_class = ''success'', rr_pattern = [], rr_snippet = [], rr_halt = False, rr_truncated = False, rr_output = []\<rparr>"

text \<open>A world that counts the runs, in which every run is a success and the goals turn green after two.\<close>

definition calm_hooks :: "nat hooks" where
  "calm_hooks =
     \<lparr>dh_mode = ''goals'', dh_dry_run = False, dh_auto_skeptic = False, dh_to_int = plain_int, dh_str_of = plain_str,
      dh_fmt2 = \<lambda>_. [], dh_fadd = (+), dh_parsers = \<lambda>_. None, dh_text = \<lambda>_. ''note'', dh_tool = Some,
      dh_verify_dir = ret (), dh_verify_symlinks = ret (), dh_head_sha = ret ''abc'', dh_save = \<lambda>_. ret (),
      dh_exit_event = \<lambda>_ _. ret (), dh_goal_mutation = ret None,
      dh_eval_all = ret [], dh_eval_tick = ret [(''tests-pass'', green)], dh_eval_ids = \<lambda>_. ret [],
      dh_all_green = \<lambda>_ w. (Inr (2 \<le> w), w), dh_recheck = \<lambda>_. ret None, dh_plan_md = ret (Inl OSError),
      dh_plans = ret [], dh_marker = ret True, dh_write_marker = \<lambda>_. ret (), dh_inbox = \<lambda>_ _. ret [],
      dh_prompt = \<lambda>_ _ _ _ _. ret [], dh_prompt_log = \<lambda>_ _ _. ret (), dh_invoke = \<lambda>_ _ w. (Inr (good_run, 60), w + 1),
      dh_output_logs = \<lambda>_ _ _. ret (), dh_commits = \<lambda>_ _. ret [\<lparr>co_status = Some ''handoff'', co_review = Some ''pass''\<rparr>],
      dh_ancestor = \<lambda>_. ret True, dh_soft_reviews = \<lambda>_ _ _. ret (), dh_diff_stats = \<lambda>_. ret None,
      dh_justification = \<lambda>_. ret None, dh_revert = \<lambda>_. ret True, dh_reset = \<lambda>_. ret None, dh_sleep = \<lambda>_. ret (),
      dh_dirty = ret False, dh_halt = \<lparr>hi_verify = ret (), hi_exists = ret False, hi_write = \<lambda>_. ret ()\<rparr>,
      dh_history = \<lambda>_ _. ret (), dh_attest = \<lambda>_ _ _. ret (), dh_run_log = \<lambda>_ _ _ _ _. ret (),
      dh_emit = \<lambda>_ _ _ _ _ _. ret (), dh_blocking = \<lambda>_. ret 0, dh_submit = \<lambda>_. ret ()\<rparr>"

definition start :: "nat tick_state" where
  "start = \<lparr>ts_state = two_peers, ts_head = None, ts_world = 0\<rparr>"

theorem loop_refines_rotation_witness:
  "\<exists>ps. length ps = 2 \<and> ticks usual_manager two_peers ps (ts_state (the (passes calm_hooks usual_manager None 0 2 start))) \<and>
     bu_iterations (ls_budget (ts_state (the (passes calm_hooks usual_manager None 0 2 start)))) = bu_iterations (ls_budget two_peers) + 2"
proof -
  have "passes calm_hooks usual_manager None 0 2 start \<noteq> None" by code_simp
  then obtain u where u: "passes calm_hooks usual_manager None 0 2 start = Some u" by auto
  have "ts_state start = two_peers" by code_simp
  with loop_refines_rotation [OF u] u show ?thesis by simp
qed

lemma passes_run_loop: "passes h tm mt n k t = Some t' \<Longrightarrow> run_loop h tm mt n t = run_loop h tm mt (n + k) t'"
proof (induction k arbitrary: n t)
  case (Suc k)
  then obtain t1 where 1: "loop_pass h tm mt n t = (Inr None, t1)" "passes h tm mt (n + 1) k t1 = Some t'"
    by (auto split: prod.splits sum.splits option.splits)
  with Suc.IH [OF 1(2)] show ?case by (simp add: run_loop.simps [of h tm mt n t])
qed simp

theorem complete_is_green_witness:
  "\<exists>t'. run_loop calm_hooks usual_manager None 0 start = Some (Inr complete_text, t') \<and>
     (\<exists>w w'. dh_all_green calm_hooks (ts_state t') w = (Inr True, w'))"
proof -
  have "map_option (fst \<circ> loop_pass calm_hooks usual_manager None 2) (passes calm_hooks usual_manager None 0 2 start) = Some (Inr (Some complete_text))"
    by code_simp
  then obtain u where "passes calm_hooks usual_manager None 0 2 start = Some u" "fst (loop_pass calm_hooks usual_manager None 2 u) = Inr (Some complete_text)"
    by auto
  moreover from this(2) obtain t' where "loop_pass calm_hooks usual_manager None 2 u = (Inr (Some complete_text), t')"
    by (cases "loop_pass calm_hooks usual_manager None 2 u") auto
  ultimately have "passes calm_hooks usual_manager None 0 2 start = Some u" "loop_pass calm_hooks usual_manager None 2 u = (Inr (Some complete_text), t')"
    by simp_all
  moreover from passes_run_loop [OF this(1)] have "run_loop calm_hooks usual_manager None 0 start = run_loop calm_hooks usual_manager None 2 u"
    by (simp only: add_0)
  ultimately have "run_loop calm_hooks usual_manager None 0 start = Some (Inr complete_text, t')"
    by (simp add: run_loop.simps [of calm_hooks usual_manager None 2 u])
  with complete_is_green [OF this] show ?thesis by blast
qed

text \<open>A rate-limited tick wipes out the failures counted so far: it is not neutral.\<close>

lemma rate_limit_clears_failures:
  "bu_failures (ls_budget (record_tick_accounting success dt p True s)) = 0"
  by (simp add: record_tick_accounting_def Let_def)

text \<open>
  From 51 to 54 warnings the digest of the prompt shows some of them twice: more lines than there are
  warnings, beside a negative count of those left out.
\<close>

lemma digest_repeats_warnings:
  assumes "50 < length ws" and "length ws < 55"
  shows "length ws < length (shown_warnings ws) - 1" and "int (length ws) - 55 < 0"
  using assms by (auto simp: shown_warnings_def)

end
