(* ===== verification/StateStore.thy ===== *)
theory StateStore
  imports Json_Indent Effects Json_Canonical
begin

text \<open>
  The state file, \<open>.peers/state.json\<close> (\<open>peers/state_store.py\<close>): the defaults, the migration of the first
  schema, the overlay of a loaded state on the defaults, the validation, and \<open>load\<close> and \<open>save\<close>. Here the
  state is the dict itself. \<open>feq t n\<close> says that the float of text \<open>t\<close> equals \<open>n\<close>; the file is reached
  through the record \<open>state_io\<close>. Every complaint about the contents is a \<open>RuntimeError\<close>.
\<close>

section \<open>Defaults\<close>

definition schema_version :: int where
  "schema_version = 2"

definition state_file_max_bytes :: nat where
  "state_file_max_bytes = 5 * 1024 * 1024"

definition valid_peer_states :: "string list" where
  "valid_peer_states = [''healthy'', ''degraded'', ''halted'', ''unavailable'']"

definition default_peer_order :: "string list" where
  "default_peer_order = [''claude'', ''codex'']"

definition default_peer_entry :: raw where
  "default_peer_entry =
     [(''state'', JStr ''healthy''), (''consecutive_fails'', JInt 0), (''recent_fails'', JInt 0), (''recent_runs'', JList [])]"

definition default_budget_entry :: raw where
  "default_budget_entry =
     [(''max_iterations'', JInt 200), (''max_runtime_s'', JInt (6 * 3600)), (''max_consecutive_failures'', JInt 5),
      (''spent_iterations'', JInt 0), (''spent_runtime_s'', JInt 0), (''wasted_runtime_s'', JInt 0),
      (''consecutive_failures'', JInt 0), (''spent_tokens'', JInt 0), (''spent_usd'', JFloat ''0.0''),
      (''max_tokens'', JNull), (''max_usd'', JNull)]"

definition build_default_state :: "string list \<Rightarrow> raw" where
  "build_default_state order =
     [(''schema_version'', JInt schema_version), (''iteration'', JInt 0), (''peer_order'', JList (map JStr order)),
      (''turn_index'', JInt 0), (''budget'', JObj default_budget_entry), (''goals_status'', JObj []),
      (''stuck_counter'', JObj []), (''consecutive_clean_ticks'', JInt 0),
      (''peers'', JObj (dict_of (map (\<lambda>n. (n, JObj default_peer_entry)) order)))]"

text \<open>\<open>isinstance(order, list)\<close> with non-empty strings only: the names.\<close>

fun names_of :: "json list \<Rightarrow> string list option" where
  "names_of [] = Some []"
| "names_of (x # xs) =
     (case x of JStr n \<Rightarrow> if n = [] then None else map_option ((#) n) (names_of xs) | _ \<Rightarrow> None)"

definition order_of :: "json \<Rightarrow> string list option" where
  "order_of j = (case j of JList xs \<Rightarrow> names_of xs | _ \<Rightarrow> None)"

definition cfg_order :: "string list option \<Rightarrow> string list" where
  "cfg_order cfg = (case cfg of None \<Rightarrow> default_peer_order | Some order \<Rightarrow> order)"

definition default_state_for_overlay :: "string list option \<Rightarrow> raw \<Rightarrow> raw" where
  "default_state_for_overlay cfg s =
     (case order_of (jget s ''peer_order'') of
        Some (n # ns) \<Rightarrow> build_default_state (n # ns)
      | _ \<Rightarrow> build_default_state (cfg_order cfg))"

section \<open>Migration of the first schema\<close>

definition is_version :: "(string \<Rightarrow> int \<Rightarrow> bool) \<Rightarrow> json \<Rightarrow> bool" where
  "is_version feq j = (case j of JInt i \<Rightarrow> i = schema_version | JFloat t \<Rightarrow> feq t schema_version | _ \<Rightarrow> False)"

definition has_key :: "raw \<Rightarrow> string \<Rightarrow> bool" where
  "has_key d k \<longleftrightarrow> k \<in> fst ` set d"

definition looks_like_v1 :: "(string \<Rightarrow> int \<Rightarrow> bool) \<Rightarrow> raw \<Rightarrow> bool" where
  "looks_like_v1 feq d =
     (if is_version feq (jget d ''schema_version'') then False
      else has_key d ''whose_turn'' \<or> is_obj (jget d ''tools'') \<and> \<not> has_key d ''peers'')"

definition without :: "string \<Rightarrow> raw \<Rightarrow> raw" where
  "without k d = filter (\<lambda>(x, _). x \<noteq> k) d"

definition setdefault :: "raw \<Rightarrow> string \<Rightarrow> json \<Rightarrow> raw" where
  "setdefault d k v = (if has_key d k then d else d @ [(k, v)])"

definition legacy_keys :: "string list" where
  "legacy_keys = [''state'', ''consecutive_fails'', ''recent_fails'', ''recent_runs'', ''last_run'']"

text \<open>\<open>if k in entry: merged[k] = entry[k]\<close>, for whatever the entry is.\<close>

definition copy_legacy :: "json \<Rightarrow> raw \<Rightarrow> string \<Rightarrow> raw res" where
  "copy_legacy entry merged k =
     (case entry of
        JObj d \<Rightarrow> Inr (if has_key d k then dict_set merged k (jget d k) else merged)
      | JStr t \<Rightarrow> if contains k t then Inl TypeError else Inr merged
      | JList xs \<Rightarrow> if JStr k \<in> set xs then Inl TypeError else Inr merged
      | _ \<Rightarrow> Inl TypeError)"

fun copy_all :: "json \<Rightarrow> string list \<Rightarrow> raw \<Rightarrow> raw res" where
  "copy_all entry [] merged = Inr merged"
| "copy_all entry (k # ks) merged = res_bind (copy_legacy entry merged k) (copy_all entry ks)"

definition py_or :: "json \<Rightarrow> json \<Rightarrow> json" where
  "py_or a b = (if truthy a then a else b)"

definition legacy_entry :: "json \<Rightarrow> string \<Rightarrow> json res" where
  "legacy_entry tools name =
     (case py_or tools (JObj []) of JObj d \<Rightarrow> Inr (py_or (jget d name) (JObj [])) | _ \<Rightarrow> Inl AttributeError)"

definition migrate_peer :: "json \<Rightarrow> string \<Rightarrow> (string \<times> json) res" where
  "migrate_peer tools name =
     res_bind (legacy_entry tools name) (\<lambda>entry.
     res_bind (copy_all entry legacy_keys default_peer_entry) (\<lambda>merged. Inr (name, JObj merged)))"

definition migrated_order :: "json \<Rightarrow> string list" where
  "migrated_order tools =
     (let order = (case tools of JObj d \<Rightarrow> map fst d | _ \<Rightarrow> default_peer_order) in
      filter (\<lambda>n. n \<in> set order) default_peer_order @ filter (\<lambda>n. n \<notin> set default_peer_order) order)"

fun index_of :: "'a \<Rightarrow> 'a list \<Rightarrow> nat option" where
  "index_of x [] = None"
| "index_of x (y # ys) = (if x = y then Some 0 else map_option Suc (index_of x ys))"

definition migrated_turn :: "json \<Rightarrow> string list \<Rightarrow> int" where
  "migrated_turn whose order =
     (case whose of JStr w \<Rightarrow> (case index_of w order of Some i \<Rightarrow> int i | None \<Rightarrow> 0) | _ \<Rightarrow> 0)"

definition migrate_v1 :: "raw \<Rightarrow> raw res" where
  "migrate_v1 loaded =
     (let tools = jget loaded ''tools''; whose = jget loaded ''whose_turn'';
          order = migrated_order tools;
          out = without ''whose_turn'' (without ''tools'' loaded);
          out1 = dict_set (dict_set out ''peer_order'' (JList (map JStr order))) ''turn_index'' (JInt (migrated_turn whose order)) in
      res_bind (res_map (migrate_peer tools) order) (\<lambda>peers.
        Inr (dict_set (setdefault (dict_set out1 ''peers'' (JObj (dict_of peers))) ''consecutive_clean_ticks'' (JInt 0))
          ''schema_version'' (JInt schema_version))))"

section \<open>The overlay\<close>

text \<open>\<open>_deep_merge\<close>: nested dicts are merged, anything else is replaced.\<close>

function deep_merge :: "raw \<Rightarrow> raw \<Rightarrow> raw"
and merged :: "json option \<Rightarrow> json \<Rightarrow> json" where
  "deep_merge base [] = base"
| "deep_merge base ((k, v) # over) = deep_merge (dict_set base k (merged (map_of base k) v)) over"
| "merged x v =
     (case v of JObj over \<Rightarrow> (case x of Some (JObj base) \<Rightarrow> JObj (deep_merge base over) | _ \<Rightarrow> v) | _ \<Rightarrow> v)"
  by pat_completeness auto
termination
  by (relation "measure (\<lambda>x. case x of Inl (b, over) \<Rightarrow> 2 * size (JObj over) | Inr (y, v) \<Rightarrow> 2 * size v + 1)") auto

definition fill_peers :: "raw \<Rightarrow> raw" where
  "fill_peers s =
     (case (order_of (jget s ''peer_order''), jget s ''peers'') of
        (Some names, JObj peers) \<Rightarrow>
          dict_set s ''peers'' (JObj (fold (\<lambda>n p. setdefault p n (JObj default_peer_entry)) names peers))
      | _ \<Rightarrow> s)"

definition overlaid :: "string list option \<Rightarrow> raw \<Rightarrow> raw" where
  "overlaid cfg loaded =
     (let base = default_state_for_overlay cfg loaded;
          s = deep_merge base loaded;
          s1 = (if truthy (jget s ''peer_order'') then s
                else dict_set (dict_set s ''peer_order'' (jget base ''peer_order'')) ''turn_index'' (JInt 0)) in
      fill_peers s1)"

section \<open>Validation\<close>

definition is_count :: "json \<Rightarrow> bool" where
  "is_count j = (case j of JInt i \<Rightarrow> 0 \<le> i | _ \<Rightarrow> False)"

definition peer_entry_ok :: "raw \<Rightarrow> string \<Rightarrow> bool" where
  "peer_entry_ok peers n =
     (case map_of peers n of
        Some (JObj d) \<Rightarrow> (case jget_default d ''state'' (JStr ''healthy'') of JStr t \<Rightarrow> t \<in> set valid_peer_states | _ \<Rightarrow> False)
      | _ \<Rightarrow> False)"

definition state_valid :: "(string \<Rightarrow> int \<Rightarrow> bool) \<Rightarrow> raw \<Rightarrow> bool" where
  "state_valid feq s =
     (is_version feq (jget s ''schema_version'') \<and> is_count (jget s ''iteration'') \<and> is_obj (jget s ''budget'') \<and>
      is_obj (jget s ''goals_status'') \<and> is_obj (jget s ''stuck_counter'') \<and>
      (case order_of (jget s ''peer_order'') of
         None \<Rightarrow> False
       | Some order \<Rightarrow>
           order \<noteq> [] \<and> distinct order \<and>
           (case jget s ''turn_index'' of JInt i \<Rightarrow> 0 \<le> i \<and> i < int (length order) | _ \<Rightarrow> False) \<and>
           is_count (jget_default s ''consecutive_clean_ticks'' (JInt 0)) \<and>
           (case jget_default s ''peers'' (JObj []) of JObj peers \<Rightarrow> list_all (peer_entry_ok peers) order | _ \<Rightarrow> False)))"

definition validate_state :: "(string \<Rightarrow> int \<Rightarrow> bool) \<Rightarrow> raw \<Rightarrow> unit res" where
  "validate_state feq s = (if state_valid feq s then Inr () else Inl RuntimeError)"

section \<open>Load and save\<close>

text \<open>\<open>si_lstat\<close> gives \<open>None\<close> without the file, else whether it is a symbolic link; \<open>si_read n\<close> at most \<open>n\<close> bytes.\<close>

record 'w state_io =
  si_lstat :: "('w, bool option) act"
  si_read :: "nat \<Rightarrow> ('w, string) act"
  si_backup_link :: "('w, bool) act"
  si_backup_exists :: "('w, bool) act"
  si_write_backup :: "string \<Rightarrow> ('w, unit) act"
  si_mkdir :: "('w, unit) act"
  si_write :: "string \<Rightarrow> ('w, unit) act"

definition state_text :: "raw \<Rightarrow> string" where
  "state_text s = ascii_text (dumps_indent 2 (sort_keys (JObj s)))"

definition parse_state :: "string \<Rightarrow> raw res" where
  "parse_state data =
     (if state_file_max_bytes < length data then Inl RuntimeError
      else case res_bind (decode data) loads of
        Inr (JObj d) \<Rightarrow> Inr d
      | _ \<Rightarrow> Inl RuntimeError)"

definition back_up :: "'w state_io \<Rightarrow> raw \<Rightarrow> ('w, unit) act" where
  "back_up io loaded =
     act_bind (si_backup_link io) (\<lambda>link.
     if link then raise_exc RuntimeError
     else
       act_bind (si_backup_exists io) (\<lambda>there.
       if there then ret ()
       else act_except (si_write_backup io (state_text loaded)) (\<lambda>e. e = OSError) (raise_exc RuntimeError)))"

definition load :: "(string \<Rightarrow> int \<Rightarrow> bool) \<Rightarrow> 'w state_io \<Rightarrow> string list option \<Rightarrow> ('w, raw) act" where
  "load feq io cfg =
     act_bind (si_lstat io) (\<lambda>kind.
     case kind of
       None \<Rightarrow> ret (build_default_state (cfg_order cfg))
     | Some True \<Rightarrow> raise_exc OSError
     | Some False \<Rightarrow>
         act_bind (si_read io (state_file_max_bytes + 1)) (\<lambda>data.
         act_bind (act_res (parse_state data)) (\<lambda>loaded.
         let v1 = looks_like_v1 feq loaded in
         act_bind (if v1 then act_bind (back_up io loaded) (\<lambda>_. act_res (migrate_v1 loaded)) else ret loaded) (\<lambda>loaded.
         let s = overlaid cfg loaded in
         act_bind (act_res (validate_state feq s)) (\<lambda>_.
         ret (if v1 then setdefault s ''_migrated_from_v1'' (JBool True) else s))))))"

text \<open>What is written: without the marker keys, completed by the defaults.\<close>

definition to_write :: "string list option \<Rightarrow> raw \<Rightarrow> raw" where
  "to_write cfg s =
     (let kept = setdefault (filter (\<lambda>(k, _). \<not> startswith k ''_'') s) ''schema_version'' (JInt schema_version) in
      deep_merge (default_state_for_overlay cfg kept) kept)"

definition save_state :: "(string \<Rightarrow> int \<Rightarrow> bool) \<Rightarrow> 'w state_io \<Rightarrow> string list option \<Rightarrow> raw \<Rightarrow> ('w, unit) act" where
  "save_state feq io cfg s =
     act_bind (si_mkdir io) (\<lambda>_.
     act_bind (act_res (validate_state feq (to_write cfg s))) (\<lambda>_.
     si_write io (state_text (to_write cfg s))))"

section \<open>What a loaded state looks like\<close>

lemma names_of_iff: "names_of xs = Some ns \<longleftrightarrow> xs = map JStr ns \<and> [] \<notin> set ns"
proof (induction xs arbitrary: ns)
  case (Cons x xs)
  show ?case
  proof (cases x)
    case (JStr n)
    show ?thesis
    proof (cases ns)
      case Nil
      with JStr show ?thesis by simp
    next
      case (Cons m ms)
      with JStr Cons.IH [of ms] show ?thesis by (cases "names_of xs") auto
    qed
  qed auto
qed auto

lemma order_of_iff: "order_of j = Some ns \<longleftrightarrow> j = JList (map JStr ns) \<and> [] \<notin> set ns"
  by (cases j) (auto simp: order_of_def names_of_iff)

text \<open>The shape everything else in the program relies on.\<close>

definition sound_state :: "raw \<Rightarrow> bool" where
  "sound_state s \<longleftrightarrow> (\<exists>names i n peers.
     jget s ''peer_order'' = JList (map JStr names) \<and> names \<noteq> [] \<and> distinct names \<and> [] \<notin> set names \<and>
     jget s ''turn_index'' = JInt i \<and> 0 \<le> i \<and> i < int (length names) \<and>
     jget s ''iteration'' = JInt n \<and> 0 \<le> n \<and> is_obj (jget s ''budget'') \<and>
     jget s ''peers'' = JObj peers \<and> (\<forall>p \<in> set names. \<exists>d. map_of peers p = Some (JObj d)))"

lemma peer_entry_okD: "peer_entry_ok peers n \<Longrightarrow> \<exists>d. map_of peers n = Some (JObj d)"
proof (cases "map_of peers n")
  case (Some x)
  then show "peer_entry_ok peers n \<Longrightarrow> ?thesis" by (cases x) (simp_all add: peer_entry_ok_def)
qed (simp add: peer_entry_ok_def)

lemma jget_obj: "jget_default s k (JObj []) = JObj d \<Longrightarrow> d \<noteq> [] \<Longrightarrow> jget s k = JObj d"
  by (cases "map_of s k") (simp_all add: jget_def jget_default_def lookup_default_def)

lemma is_count_JInt: "is_count j \<Longrightarrow> \<exists>n. j = JInt n \<and> 0 \<le> n"
  by (cases j) (simp_all add: is_count_def)

lemma state_valid_sound:
  assumes "state_valid feq s" shows "sound_state s"
proof -
  from assms obtain order where o: "order_of (jget s ''peer_order'') = Some order" "order \<noteq> []" "distinct order"
    "(case jget s ''turn_index'' of JInt i \<Rightarrow> 0 \<le> i \<and> i < int (length order) | _ \<Rightarrow> False)"
    "(case jget_default s ''peers'' (JObj []) of JObj peers \<Rightarrow> list_all (peer_entry_ok peers) order | _ \<Rightarrow> False)"
    by (cases "order_of (jget s ''peer_order'')") (simp_all add: state_valid_def)
  from o(4) obtain i where i: "jget s ''turn_index'' = JInt i" "0 \<le> i" "i < int (length order)"
    by (cases "jget s ''turn_index''") simp_all
  from o(5) obtain peers where p: "jget_default s ''peers'' (JObj []) = JObj peers" "list_all (peer_entry_ok peers) order"
    by (cases "jget_default s ''peers'' (JObj [])") simp_all
  from o(2) obtain n0 ns where "order = n0 # ns" by (cases order) auto
  with p(2) have "peer_entry_ok peers n0" by simp
  from peer_entry_okD [OF this] have "peers \<noteq> []" by auto
  with p(1) have "jget s ''peers'' = JObj peers" by (rule jget_obj)
  moreover from p(2) peer_entry_okD have "\<forall>n \<in> set order. \<exists>d. map_of peers n = Some (JObj d)" by (auto simp: list_all_iff)
  moreover from assms is_count_JInt obtain n where "jget s ''iteration'' = JInt n" "0 \<le> n" by (auto simp: state_valid_def)
  moreover have "is_obj (jget s ''budget'')" using assms by (simp add: state_valid_def)
  ultimately show ?thesis using o(1,2,3) i unfolding sound_state_def order_of_iff by blast
qed

lemma setdefault_lookup [simp]: "map_of (setdefault d k v) x = (if x = k \<and> \<not> has_key d k then Some v else map_of d x)"
proof (cases "has_key d k")
  case False
  then have "map_of d k = None" by (simp add: has_key_def map_of_eq_None_iff)
  with False show ?thesis by (auto simp: setdefault_def map_add_def split: option.split)
qed (simp add: setdefault_def)

lemma jget_setdefault_other: "x \<noteq> k \<Longrightarrow> jget (setdefault d k v) x = jget d x"
  by (simp add: jget_def lookup_default_def)

lemma sound_marked: "sound_state (setdefault s ''_migrated_from_v1'' v) = sound_state s"
  by (simp add: sound_state_def jget_setdefault_other)

lemma default_state_sound:
  assumes "order \<noteq> []" and "distinct order" and "[] \<notin> set order"
  shows "sound_state (build_default_state order)"
proof -
  have "map_of (map (\<lambda>n. (n, JObj default_peer_entry)) order) p = Some (JObj default_peer_entry)" if "p \<in> set order" for p
    using that by (induction order) auto
  moreover have "dict_of (map (\<lambda>n. (n, JObj default_peer_entry)) order) = map (\<lambda>n. (n, JObj default_peer_entry)) order"
    using assms(2) by (intro dict_of_distinct) (simp add: comp_def)
  ultimately show ?thesis using assms
    by (auto simp: sound_state_def build_default_state_def jget_def lookup_default_def is_obj_def)
qed

text \<open>
  a loaded state is sound. Whatever is in the file, what \<open>load\<close> returns has a turn order of distinct
  non-empty names, a turn index within it, a non-negative iteration, a budget that is a mapping, and an entry for
  every peer of the order, so that nothing that takes its turn from it runs into a missing key or index.
\<close>

theorem loaded_state_is_sound:
  assumes "load feq io cfg w = (Inr s, w')" and "cfg_order cfg \<noteq> []" and "distinct (cfg_order cfg)" and "[] \<notin> set (cfg_order cfg)"
  shows "sound_state s"
proof -
  from assms(1) obtain kind w1 where k: "si_lstat io w = (Inr kind, w1)"
    by (auto simp: load_def act_bind_Inr)
  show ?thesis
  proof (cases kind)
    case None
    with assms k default_state_sound show ?thesis by (simp add: load_def act_bind_step)
  next
    case (Some link)
    with assms(1) k have "\<not> link" by (cases link) (auto simp: load_def act_bind_step)
    with Some assms(1) k obtain b t where v: "validate_state feq t = Inr ()" and s: "s = (if b then setdefault t ''_migrated_from_v1'' (JBool True) else t)"
      by (auto simp: load_def act_bind_Inr Let_def)
    from v have "sound_state t" by (auto simp: validate_state_def intro: state_valid_sound split: if_splits)
    with s sound_marked show ?thesis by simp
  qed
qed

end
