(* ===== verification/State_Roundtrip.thy ===== *)
theory State_Roundtrip
  imports StateStore
begin

text \<open>
  What \<open>save\<close> writes, \<open>load\<close> reads back (theory \<open>StateStore\<close>). The file has its keys in order while the
  dict in memory has them in order of insertion, so two dicts are compared by \<open>sort_keys\<close>. The heart is
  \<open>_deep_merge\<close>: merging onto defaults changes nothing in a dict that \<open>covers\<close> them.
\<close>

section \<open>Dicts up to the order of their keys\<close>

lemma json_ok_distinct: "json_ok (JObj d) \<Longrightarrow> distinct (map fst d)"
  by simp

lemma json_ok_lookup: "json_ok (JObj d) \<Longrightarrow> map_of d k = Some v \<Longrightarrow> json_ok v"
  by (auto simp: list_all_iff dest: map_of_SomeD)

lemma json_ok_dict_set: "json_ok (JObj d) \<Longrightarrow> json_ok v \<Longrightarrow> json_ok (JObj (dict_set d k v))"
proof -
  assume a: "json_ok (JObj d)" "json_ok v"
  have "set (dict_set d k v) \<subseteq> insert (k, v) (set d)" by (induction d k v rule: dict_set.induct) auto
  with a show ?thesis using distinct_dict_set [of d k v] by (auto simp: list_all_iff)
qed

lemma map_of_sorted: "distinct (map fst d) \<Longrightarrow> map_of (sort_key fst d) = map_of d"
proof -
  assume d: "distinct (map fst d)"
  then have "distinct (map fst (sort_key fst d))" by (simp add: distinct_fst_sort)
  with d show ?thesis by (intro ext) (metis map_of_inject_set set_sort)
qed

lemma map_of_sort_keys_map: "map_of (map (\<lambda>(k, v). (k, sort_keys v)) d) k = map_option sort_keys (map_of d k)"
  by (induction d) auto

definition sorted_dict :: "raw \<Rightarrow> raw" where
  "sorted_dict d = sort_key fst (map (\<lambda>(k, v). (k, sort_keys v)) d)"

lemma sort_keys_obj: "sort_keys (JObj d) = JObj (sorted_dict d)"
  by (simp add: sorted_dict_def)

lemma fst_sort_map: "map fst (map (\<lambda>(k, v). (k, sort_keys v)) d) = map fst d"
  by (induction d) auto

lemma map_of_sorted_dict: "distinct (map fst d) \<Longrightarrow> map_of (sorted_dict d) k = map_option sort_keys (map_of d k)"
  unfolding sorted_dict_def by (subst map_of_sorted) (simp_all add: fst_sort_map map_of_sort_keys_map del: map_map)

lemma sorted_dict_distinct: "distinct (map fst (sorted_dict d)) = distinct (map fst d)"
  unfolding sorted_dict_def distinct_fst_sort fst_sort_map ..

text \<open>Two dicts with the same entries up to order are the same once sorted.\<close>

lemma sort_keys_cong:
  assumes "distinct (map fst a)" and "distinct (map fst b)"
    and eq: "\<And>k. map_option sort_keys (map_of a k) = map_option sort_keys (map_of b k)"
  shows "sorted_dict a = sorted_dict b"
proof -
  let ?f = "map (\<lambda>(k, v). (k, sort_keys v))"
  have d: "distinct (map fst (?f a))" "distinct (map fst (?f b))" using assms(1,2) by (simp_all add: fst_sort_map del: map_map)
  have "map_of (?f a) = map_of (?f b)" using eq by (intro ext) (simp add: map_of_sort_keys_map)
  with d have s: "set (?f a) = set (?f b)" by (metis map_of_inject_set)
  show ?thesis
    unfolding sorted_dict_def
  proof (rule map_sorted_distinct_set_unique [of fst])
    show "inj_on fst (set (sort_key fst (?f a)) \<union> set (sort_key fst (?f b)))"
      using d(1) s by (simp add: distinct_map del: map_map)
  qed (use d s in \<open>simp_all add: distinct_fst_sort del: map_map\<close>)
qed

lemma sort_keys_idem: "json_ok j \<Longrightarrow> sort_keys (sort_keys j) = sort_keys j"
proof (induction j)
  case (JObj d)
  have e: "sort_keys (sort_keys v) = sort_keys v" if "map_of d k = Some v" for k v
    using JObj.IH [of "(k, v)" v] json_ok_lookup [OF JObj.prems that] map_of_SomeD [OF that] by simp
  have "map_option sort_keys (map_of (sorted_dict d) k) = map_option sort_keys (map_of d k)" for k
    using JObj.prems e [of k] by (cases "map_of d k") (simp_all add: map_of_sorted_dict)
  then have "sorted_dict (sorted_dict d) = sorted_dict d"
    using JObj.prems by (intro sort_keys_cong) (simp_all add: sorted_dict_distinct)
  then show ?case unfolding sort_keys_obj by simp
next
  case (JList xs)
  then show ?case by (auto simp: list_all_iff)
qed simp_all

lemma jget_sorted: "distinct (map fst d) \<Longrightarrow> jget (sorted_dict d) k = sort_keys (jget d k)"
  by (simp add: jget_def lookup_default_def map_of_sorted_dict split: option.split)

lemma has_key_iff: "has_key d k \<longleftrightarrow> map_of d k \<noteq> None"
  by (simp add: has_key_def map_of_eq_None_iff)

lemma jget_default_sorted: "distinct (map fst d) \<Longrightarrow> jget_default (sorted_dict d) k v = (if has_key d k then sort_keys (jget d k) else v)"
  by (cases "map_of d k") (simp_all add: jget_default_def jget_def lookup_default_def map_of_sorted_dict has_key_iff)

section \<open>Merging\<close>

lemma map_of_deep_merge:
  "distinct (map fst over) \<Longrightarrow>
   map_of (deep_merge base over) k = (case map_of over k of None \<Rightarrow> map_of base k | Some v \<Rightarrow> Some (merged (map_of base k) v))"
proof (induction over arbitrary: base)
  case (Cons kv over)
  obtain k' v where kv: "kv = (k', v)" by (cases kv)
  with Cons.prems have "map_of over k' = None" by (auto simp: map_of_eq_None_iff)
  with Cons kv show ?case by (auto split: option.split)
qed simp

lemma distinct_deep_merge: "distinct (map fst base) \<Longrightarrow> distinct (map fst (deep_merge base over))"
  by (induction over arbitrary: base) (auto simp: distinct_dict_set)

lemma deep_merge_ok: "json_ok (JObj base) \<Longrightarrow> json_ok (JObj over) \<Longrightarrow> json_ok (JObj (deep_merge base over))"
  and merged_ok: "(\<And>b. x = Some b \<Longrightarrow> json_ok b) \<Longrightarrow> json_ok v \<Longrightarrow> json_ok (merged x v)"
proof (induction base over and x v rule: deep_merge_merged.induct)
  case (2 base k v over)
  have "json_ok v" "json_ok (JObj over)" using 2(4) by auto
  moreover have "json_ok b" if "map_of base k = Some b" for b using json_ok_lookup [OF 2(3) that] .
  ultimately have "json_ok (merged (map_of base k) v)" using 2(1) by blast
  from 2(2) [OF json_ok_dict_set [OF 2(3) this] \<open>json_ok (JObj over)\<close>] show ?case by simp
next
  case (3 x v)
  then show ?case by (auto split: json.split option.split simp del: json_ok.simps)
qed simp

text \<open>A value covers another if every key of a dict in the one is there in the other, at every depth.\<close>

lemma size_member: "(k, b) \<in> set d \<Longrightarrow> size b < Suc (size_list (size_prod (\<lambda>_. 0) size) d)"
  by (induction d) auto

function covers :: "json \<Rightarrow> json \<Rightarrow> bool" where
  "covers v b =
     (case b of
        JObj base \<Rightarrow>
          (case v of
             JObj over \<Rightarrow> (\<forall>(k, b') \<in> set base. case map_of over k of None \<Rightarrow> False | Some v' \<Rightarrow> covers v' b')
           | _ \<Rightarrow> True)
      | _ \<Rightarrow> True)"
  by pat_completeness auto
termination
  by (relation "measure (\<lambda>(v, b). size b)") (auto intro: size_member)

declare covers.simps [simp del]

lemma covers_obj: "covers (JObj over) (JObj base) \<longleftrightarrow> (\<forall>(k, b) \<in> set base. \<exists>v. map_of over k = Some v \<and> covers v b)"
  by (subst covers.simps) (auto split: option.splits)

lemma covers_other: "\<not> is_obj v \<or> \<not> is_obj b \<Longrightarrow> covers v b"
  by (subst covers.simps) (auto simp: is_obj_def split: json.splits)

lemma covers_lookup:
  assumes "covers (JObj over) (JObj base)" and "map_of base k = Some b"
  shows "\<exists>v. map_of over k = Some v \<and> covers v b"
  using assms map_of_SomeD [OF assms(2)] by (auto simp: covers_obj)

lemma merged_obj: "merged (Some (JObj base)) (JObj over) = JObj (deep_merge base over)"
  by simp

lemma merged_other: "\<not> is_obj v \<or> x = None \<or> (\<exists>b. x = Some b \<and> \<not> is_obj b) \<Longrightarrow> merged x v = v"
  by (cases v; cases x) (auto simp: is_obj_def split: json.split)

lemma is_obj_ex: "is_obj j \<longleftrightarrow> (\<exists>d. j = JObj d)"
  by (cases j) (auto simp: is_obj_def)

declare merged.simps [simp del]

lemma covers_refl: "json_ok b \<Longrightarrow> covers b b"
proof (induction b)
  case (JObj d)
  have "map_of d k = Some v \<and> covers v v" if "(k, v) \<in> set d" for k v
    using JObj that by (auto simp: list_all_iff)
  then show ?case by (auto simp: covers_obj)
qed (simp_all add: covers_other is_obj_def)

text \<open>What is merged onto the defaults covers them.\<close>

lemma merged_covers:
  "json_ok v \<Longrightarrow> json_ok b \<Longrightarrow> covers (merged (Some b) v) b"
proof (induction "size v" arbitrary: v b rule: less_induct)
  case less
  show ?case
  proof (cases "is_obj v \<and> is_obj b")
    case True
    then obtain over base where o: "v = JObj over" "b = JObj base" by (auto simp: is_obj_ex)
    have "\<exists>v'. map_of (deep_merge base over) k = Some v' \<and> covers v' b'" if "(k, b') \<in> set base" for k b'
    proof -
      have m: "map_of base k = Some b'" using that less.prems(2) o by auto
      have ok: "json_ok b'" using less.prems(2) o json_ok_lookup [OF _ m] by simp
      show ?thesis
      proof (cases "map_of over k")
        case None
        with covers_refl [OF ok] m o less.prems show ?thesis by (simp add: map_of_deep_merge)
      next
        case (Some v')
        from map_of_SomeD [OF this] have "size v' < size v" using o size_member by simp
        from less.hyps [OF this json_ok_lookup [OF _ Some] ok] less.prems(1) o Some m show ?thesis by (simp add: map_of_deep_merge)
      qed
    qed
    then show ?thesis unfolding o merged_obj by (auto simp: covers_obj)
  next
    case False
    then show ?thesis by (auto simp: merged_other covers_other)
  qed
qed

text \<open>Merging a dict onto defaults it covers changes nothing but the order.\<close>

lemma merged_covered:
  "json_ok v \<Longrightarrow> json_ok b \<Longrightarrow> covers v b \<Longrightarrow> sort_keys (merged (Some b) v) = sort_keys v"
proof (induction "size v" arbitrary: v b rule: less_induct)
  case less
  show ?case
  proof (cases "is_obj v \<and> is_obj b")
    case True
    then obtain over base where o: "v = JObj over" "b = JObj base" by (auto simp: is_obj_ex)
    have "map_option sort_keys (map_of (deep_merge base over) k) = map_option sort_keys (map_of over k)" for k
    proof (cases "map_of over k")
      case None
      with less.prems(3) o have "map_of base k = None" using covers_lookup [of over base k] by (cases "map_of base k") auto
      with None less.prems(1) o show ?thesis by (simp add: map_of_deep_merge)
    next
      case (Some v')
      show ?thesis
      proof (cases "map_of base k")
        case None
        with Some less.prems(1) o show ?thesis by (simp add: map_of_deep_merge merged_other)
      next
        case (Some b')
        from covers_lookup [OF less.prems(3) [unfolded o] Some] \<open>map_of over k = Some v'\<close> have c: "covers v' b'" by simp
        have ok: "json_ok v'" "json_ok b'" using less.prems(1,2) o json_ok_lookup Some \<open>map_of over k = Some v'\<close> by blast+
        from map_of_SomeD [OF \<open>map_of over k = Some v'\<close>] have "size v' < size v" using o size_member by simp
        from less.hyps [OF this ok c] Some \<open>map_of over k = Some v'\<close> less.prems(1) o show ?thesis by (simp add: map_of_deep_merge)
      qed
    qed
    then have "sorted_dict (deep_merge base over) = sorted_dict over"
      using less.prems(1,2) o by (intro sort_keys_cong) (simp_all add: distinct_deep_merge)
    then show ?thesis unfolding o merged_obj sort_keys_obj by simp
  next
    case False
    then show ?thesis by (auto simp: merged_other)
  qed
qed

lemma sorted_covers: "json_ok v \<Longrightarrow> covers v b \<Longrightarrow> covers (sort_keys v) b"
proof (induction "size b" arbitrary: v b rule: less_induct)
  case less
  show ?case
  proof (cases "is_obj v \<and> is_obj b")
    case True
    then obtain over base where o: "v = JObj over" "b = JObj base" by (auto simp: is_obj_ex)
    have "\<exists>v'. map_of (sorted_dict over) k = Some v' \<and> covers v' b'" if m: "(k, b') \<in> set base" for k b'
    proof -
      from m less.prems(2) o obtain v' where v': "map_of over k = Some v'" "covers v' b'" by (auto simp: covers_obj)
      from size_member [OF m] o have "size b' < size b" by simp
      from less.hyps [OF this json_ok_lookup [OF _ v'(1)] v'(2)] less.prems(1) o v'(1) show ?thesis by (simp add: map_of_sorted_dict)
    qed
    then show ?thesis unfolding o sort_keys_obj by (auto simp: covers_obj)
  next
    case False
    moreover have "is_obj (sort_keys v) = is_obj v" by (cases v) (simp_all add: is_obj_def)
    ultimately show ?thesis by (intro covers_other) simp
  qed
qed

section \<open>The defaults\<close>

lemma json_ok_dict_of: "(\<And>k v. (k, v) \<in> set kvs \<Longrightarrow> json_ok v) \<Longrightarrow> json_ok (JObj (dict_of kvs))"
proof -
  have "json_ok (JObj d) \<Longrightarrow> (\<And>k v. (k, v) \<in> set kvs \<Longrightarrow> json_ok v) \<Longrightarrow> json_ok (JObj (foldl (\<lambda>d (k, v). dict_set d k v) d kvs))" for d
  proof (induction kvs arbitrary: d)
    case (Cons kv kvs)
    obtain k v where kv: "kv = (k, v)" by (cases kv)
    with Cons.prems(2) [of k v] have "json_ok v" by simp
    moreover have "json_ok y" if "(x, y) \<in> set kvs" for x y using Cons.prems(2) [of x y] that by simp
    ultimately show ?case using Cons.IH [OF json_ok_dict_set [OF Cons.prems(1)]] kv by (simp del: json_ok.simps)
  qed simp
  from this [of "[]"] show "(\<And>k v. (k, v) \<in> set kvs \<Longrightarrow> json_ok v) \<Longrightarrow> ?thesis" by (simp add: dict_of_def)
qed

lemma default_entries_ok: "json_ok (JObj default_peer_entry)" "json_ok (JObj default_budget_entry)"
  by code_simp+

lemma default_state_ok: "json_ok (JObj (build_default_state order))"
proof -
  have "json_ok (JObj (dict_of (map (\<lambda>n. (n, JObj default_peer_entry)) order)))"
    using default_entries_ok(1) by (intro json_ok_dict_of) auto
  with default_entries_ok(2) show ?thesis by (simp add: build_default_state_def list_all_iff)
qed

lemma overlay_ok: "json_ok (JObj (default_state_for_overlay cfg s))"
  by (auto simp: default_state_for_overlay_def simp del: json_ok.simps intro!: default_state_ok split: option.split list.split)

lemma default_order: "jget (build_default_state order) ''peer_order'' = JList (map JStr order)"
  by (simp add: build_default_state_def jget_def lookup_default_def)

section \<open>Reading a sorted dict\<close>

lemma order_of_sorted: "order_of (sort_keys j) = order_of j"
proof -
  have "names_of (map sort_keys xs) = names_of xs" for xs
  proof (induction xs)
    case (Cons x xs)
    then show ?case by (cases x) simp_all
  qed simp
  then show ?thesis by (cases j) (simp_all add: order_of_def)
qed

lemma kind_sorted [simp]:
  "is_version feq (sort_keys j) = is_version feq j" "is_count (sort_keys j) = is_count j" "is_obj (sort_keys j) = is_obj j"
  "sort_keys j = JInt i \<longleftrightarrow> j = JInt i" "sort_keys j = JStr t \<longleftrightarrow> j = JStr t"
  by (cases j; simp add: is_version_def is_count_def is_obj_def)+

lemma count_default_sorted:
  "distinct (map fst d) \<Longrightarrow> is_count (jget_default (sorted_dict d) k (JInt 0)) = is_count (jget_default d k (JInt 0))"
  by (cases "map_of d k") (simp_all add: jget_default_def lookup_default_def map_of_sorted_dict)

lemma peer_entry_ok_iff:
  "peer_entry_ok peers n \<longleftrightarrow> (\<exists>d. map_of peers n = Some (JObj d) \<and>
     (map_of d ''state'' = None \<or> (\<exists>t. map_of d ''state'' = Some (JStr t) \<and> t \<in> set valid_peer_states)))"
proof (cases "map_of peers n")
  case (Some x)
  show ?thesis
  proof (cases "\<exists>d. x = JObj d")
    case True
    then obtain d where d: "x = JObj d" ..
    show ?thesis
    proof (cases "map_of d ''state''")
      case None
      with Some d show ?thesis by (simp add: peer_entry_ok_def jget_default_def lookup_default_def valid_peer_states_def)
    next
      case (Some y)
      with \<open>map_of peers n = Some x\<close> d show ?thesis
        by (cases y) (simp_all add: peer_entry_ok_def jget_default_def lookup_default_def)
    qed
  next
    case False
    with Some show ?thesis by (cases x) (simp_all add: peer_entry_ok_def)
  qed
qed (simp add: peer_entry_ok_def)

lemma peer_entry_sorted:
  assumes "json_ok (JObj peers)"
  shows "peer_entry_ok (sorted_dict peers) n = peer_entry_ok peers n"
proof (cases "map_of peers n")
  case (Some x)
  show ?thesis
  proof (cases "\<exists>d. x = JObj d")
    case True
    then obtain d where d: "x = JObj d" ..
    with json_ok_lookup [OF assms Some] have "distinct (map fst d)" by simp
    with assms Some d show ?thesis
      by (auto simp: peer_entry_ok_iff map_of_sorted_dict sort_keys_obj simp del: sort_keys.simps(2))
  next
    case False
    with assms Some show ?thesis by (cases x) (simp_all add: peer_entry_ok_iff map_of_sorted_dict)
  qed
qed (use assms in \<open>simp add: peer_entry_ok_iff map_of_sorted_dict\<close>)

lemma state_valid_sorted:
  assumes "json_ok (JObj s)"
  shows "state_valid feq (sorted_dict s) = state_valid feq s"
proof -
  have d: "distinct (map fst s)" using assms by simp
  have turn: "(case sort_keys j of JInt i \<Rightarrow> 0 \<le> i \<and> i < n | _ \<Rightarrow> False) = (case j of JInt i \<Rightarrow> 0 \<le> i \<and> i < n | _ \<Rightarrow> False)" for j n
    by (cases j) simp_all
  have peers: "(case jget_default (sorted_dict s) ''peers'' (JObj []) of JObj peers \<Rightarrow> list_all (peer_entry_ok peers) order | _ \<Rightarrow> False) =
      (case jget_default s ''peers'' (JObj []) of JObj peers \<Rightarrow> list_all (peer_entry_ok peers) order | _ \<Rightarrow> False)" for order
  proof (cases "map_of s ''peers''")
    case (Some x)
    show ?thesis
    proof (cases "\<exists>p. x = JObj p")
      case True
      then obtain p where p: "x = JObj p" ..
      with peer_entry_sorted json_ok_lookup [OF assms Some] have "peer_entry_ok (sorted_dict p) = peer_entry_ok p" by (intro ext) simp
      with Some p d show ?thesis
        by (simp add: jget_default_def lookup_default_def map_of_sorted_dict sort_keys_obj del: sort_keys.simps(2))
    next
      case False
      with Some d show ?thesis by (cases x) (simp_all add: jget_default_def lookup_default_def map_of_sorted_dict)
    qed
  qed (simp add: jget_default_def lookup_default_def map_of_sorted_dict d)
  show ?thesis
    by (simp only: state_valid_def jget_sorted [OF d] kind_sorted order_of_sorted turn peers count_default_sorted [OF d])
qed

section \<open>The text of a state\<close>

lemma plain_sorted: "plain_json j \<Longrightarrow> plain_json (sort_keys j)"
proof (induction j)
  case (JObj d)
  then have "plain k \<and> plain_json (sort_keys v)" if "(k, v) \<in> set d" for k v using that by (auto simp: list_all_iff)
  then show ?case by (auto simp: list_all_iff)
qed (auto simp: list_all_iff)

lemma plain_decode: "plain t \<Longrightarrow> decode t = Inr t"
proof -
  assume "plain t"
  then have "ascii t" by (auto simp: plain_def ascii_def list_all_iff intro: less_trans)
  then show ?thesis by (simp add: decode_def ascii_utf8_ok)
qed

lemma parse_state_text:
  assumes "json_ok (JObj s)" and "plain_json (JObj s)" and "length (state_text s) \<le> state_file_max_bytes"
  shows "parse_state (state_text s) = Inr (sorted_dict s)"
proof -
  have ok: "json_ok (sort_keys (JObj s))" "plain_json (sort_keys (JObj s))"
    using assms sort_keys_ok plain_sorted by blast+
  have "plain (state_text s)"
    using dumps_at_plain [OF ok(2), of 2 0] by (simp add: state_text_def dumps_indent_def ascii_text_plain)
  then have "res_bind (decode (state_text s)) loads = Inr (JObj (sorted_dict s))"
    using loads_state_text [OF ok, of 2] by (simp add: plain_decode state_text_def sort_keys_obj del: sort_keys.simps)
  with assms(3) show ?thesis by (simp add: parse_state_def)
qed

section \<open>The round trip\<close>

text \<open>The order of a valid state that was completed by the defaults is the order the defaults were made for.\<close>

lemma completed_order:
  assumes "json_ok (JObj kept)" and "w = deep_merge (default_state_for_overlay cfg kept) kept" and "order_of (jget w ''peer_order'') = Some (n # ns)"
  shows "default_state_for_overlay cfg kept = build_default_state (n # ns)"
proof (cases "order_of (jget kept ''peer_order'')")
  case None
  then have b: "default_state_for_overlay cfg kept = build_default_state (cfg_order cfg)" by (simp add: default_state_for_overlay_def)
  have m: "map_of (build_default_state o') ''peer_order'' = Some (JList (map JStr o'))" for o'
    by (simp add: build_default_state_def)
  show ?thesis
  proof (cases "map_of kept ''peer_order''")
    case None
    with assms(1,2) b m have "jget w ''peer_order'' = JList (map JStr (cfg_order cfg))"
      by (simp add: jget_def lookup_default_def map_of_deep_merge)
    with assms(3) have "map JStr (cfg_order cfg) = map JStr (n # ns)" by (simp add: order_of_iff)
    then have "cfg_order cfg = n # ns" by (rule map_injective [OF _ injI]) simp
    with b show ?thesis by simp
  next
    case (Some v)
    with assms(1,2) b m have "jget w ''peer_order'' = v"
      by (simp add: jget_def lookup_default_def map_of_deep_merge merged_other is_obj_def)
    with Some None assms(3) show ?thesis by (simp add: jget_def lookup_default_def)
  qed
next
  case (Some o')
  then have k: "jget kept ''peer_order'' = JList (map JStr o')" by (simp add: order_of_iff)
  then have "map_of kept ''peer_order'' = Some (JList (map JStr o'))"
    by (cases "map_of kept ''peer_order''") (simp_all add: jget_def lookup_default_def)
  with assms(1,2) have "jget w ''peer_order'' = JList (map JStr o')"
    by (simp add: jget_def lookup_default_def map_of_deep_merge merged_other is_obj_def)
  with assms(3) have "map JStr o' = map JStr (n # ns)" by (simp add: order_of_iff)
  then have "o' = n # ns" by (rule map_injective [OF _ injI]) simp
  with Some show ?thesis by (simp add: default_state_for_overlay_def)
qed

lemma dict_set_same: "map_of d k = Some v \<Longrightarrow> dict_set d k v = d"
  by (induction d k v rule: dict_set.induct) (auto split: if_splits)

lemma setdefault_there: "has_key d k \<Longrightarrow> setdefault d k v = d"
  by (simp add: setdefault_def)

lemma fill_nothing:
  assumes "order_of (jget s ''peer_order'') = Some names" and "jget s ''peers'' = JObj peers" and "\<forall>n \<in> set names. map_of peers n \<noteq> None"
  shows "fill_peers s = s"
proof -
  have "fold (\<lambda>n p. setdefault p n (JObj default_peer_entry)) names peers = peers"
    using assms(3) by (induction names) (auto simp: setdefault_there has_key_iff)
  moreover have "map_of s ''peers'' = Some (JObj peers)"
    using assms(2) by (cases "map_of s ''peers''") (simp_all add: jget_def lookup_default_def)
  ultimately show ?thesis using assms(1,2) by (simp add: fill_peers_def dict_set_same)
qed

text \<open>A dict equal to a valid state up to order, overlaid on its own defaults.\<close>

lemma overlaid_sorted:
  assumes ok: "json_ok (JObj w)" and base: "default_state_for_overlay cfg w = build_default_state order"
    and covers: "covers (JObj w) (JObj (build_default_state order))" and valid: "state_valid feq w"
  shows "sorted_dict (overlaid cfg (sorted_dict w)) = sorted_dict w \<and> state_valid feq (overlaid cfg (sorted_dict w))"
proof -
  let ?b = "build_default_state order"
  let ?s = "deep_merge ?b (sorted_dict w)"
  have d: "distinct (map fst w)" using ok by simp
  have okw: "json_ok (JObj (sorted_dict w))" using sort_keys_ok [OF ok] by (simp add: sort_keys_obj del: sort_keys.simps)
  have b: "default_state_for_overlay cfg (sorted_dict w) = ?b"
    using base by (simp add: default_state_for_overlay_def jget_sorted [OF d] order_of_sorted)
  have oks: "json_ok (JObj ?s)" by (rule deep_merge_ok [OF default_state_ok okw])
  have "sort_keys (JObj ?s) = sort_keys (JObj (sorted_dict w))"
    using merged_covered [OF okw default_state_ok] sorted_covers [OF ok covers] by (simp add: merged_obj sort_keys_obj del: sort_keys.simps)
  moreover have "sort_keys (JObj (sorted_dict w)) = JObj (sorted_dict w)"
    using sort_keys_idem [OF ok] by (simp add: sort_keys_obj del: sort_keys.simps)
  ultimately have s: "sorted_dict ?s = sorted_dict w" by (simp add: sort_keys_obj del: sort_keys.simps)
  have valids: "state_valid feq ?s"
    using state_valid_sorted [OF oks] state_valid_sorted [OF ok] valid s by simp
  from state_valid_sound [OF valids] obtain names peers where n: "jget ?s ''peer_order'' = JList (map JStr names)" "names \<noteq> []" "[] \<notin> set names"
    "jget ?s ''peers'' = JObj peers" "\<forall>p \<in> set names. \<exists>d. map_of peers p = Some (JObj d)"
    unfolding sound_state_def by blast
  then have o: "order_of (jget ?s ''peer_order'') = Some names" "truthy (jget ?s ''peer_order'')" by (simp_all add: order_of_iff)
  from n(5) have "\<forall>p \<in> set names. map_of peers p \<noteq> None" by fastforce
  from fill_nothing [OF o(1) n(4) this] have "overlaid cfg (sorted_dict w) = ?s" using o(2) by (simp add: overlaid_def b)
  with s valids show ?thesis by simp
qed

definition keeps_files :: "'w state_io \<Rightarrow> bool" where
  "keeps_files io \<longleftrightarrow> (\<forall>t w w'. si_write io t w = (Inr (), w') \<longrightarrow>
     si_lstat io w' = (Inr (Some False), w') \<and> (\<forall>n. si_read io n w' = (Inr (take n t), w')))"


section \<open>The migration\<close>

lemma index_of_mem: "x \<in> set xs \<Longrightarrow> \<exists>i. index_of x xs = Some i \<and> i < length xs \<and> xs ! i = x"
  by (induction xs) auto

lemma res_map_pairs:
  assumes "\<And>x. x \<in> set xs \<Longrightarrow> \<exists>y. f x = Inr (x, y) \<and> P x y"
  shows "\<exists>ys. res_map f xs = Inr ys \<and> map fst ys = xs \<and> (\<forall>(x, y) \<in> set ys. P x y)"
  using assms
proof (induction xs)
  case (Cons x xs)
  from Cons.prems [of x] obtain y where y: "f x = Inr (x, y)" "P x y" by auto
  from Cons.IH Cons.prems obtain ys where "res_map f xs = Inr ys" "map fst ys = xs" "\<forall>(x, y) \<in> set ys. P x y" by auto
  with y show ?case by (intro exI [of _ "(x, y) # ys"]) simp
qed simp

lemma copy_all_dict: "\<exists>m. copy_all (JObj e) ks acc = Inr m \<and>
    (\<forall>k. jget m k = (if k \<in> set ks \<and> has_key e k then jget e k else jget acc k))"
proof (induction ks arbitrary: acc)
  case (Cons k ks)
  let ?acc = "if has_key e k then dict_set acc k (jget e k) else acc"
  from Cons.IH [of ?acc] obtain m where m: "copy_all (JObj e) ks ?acc = Inr m"
    "\<forall>x. jget m x = (if x \<in> set ks \<and> has_key e x then jget e x else jget ?acc x)" by blast
  have "jget ?acc x = (if x = k \<and> has_key e k then jget e k else jget acc x)" for x
    by (simp add: jget_def lookup_default_def)
  with m show ?case by (intro exI [of _ m]) (auto simp: copy_legacy_def)
qed simp

lemma migrate_peer_dict:
  assumes "tools = JObj d" and "d \<noteq> []" and "map_of d n = Some (JObj e)" and "e \<noteq> []"
  shows "\<exists>m. migrate_peer tools n = Inr (n, JObj m) \<and> (\<forall>k. jget m k = (if k \<in> set legacy_keys \<and> has_key e k then jget e k else jget default_peer_entry k))"
proof -
  have "legacy_entry tools n = Inr (JObj e)" using assms by (simp add: legacy_entry_def py_or_def jget_def lookup_default_def)
  with copy_all_dict [of e legacy_keys default_peer_entry] show ?thesis by (auto simp: migrate_peer_def)
qed

lemma jget_without: "jget (without k d) x = (if x = k then JNull else jget d x)"
proof -
  have "map_of (without k d) x = (if x = k then None else map_of d x)" by (induction d) (auto simp: without_def)
  then show ?thesis by (simp add: jget_def lookup_default_def)
qed

lemma jget_dict_set: "jget (dict_set d k v) x = (if x = k then v else jget d x)"
  by (simp add: jget_def lookup_default_def)

lemma migrated_order_dict:
  assumes "distinct (map fst d)"
  shows "distinct (migrated_order (JObj d)) \<and> set (migrated_order (JObj d)) = fst ` set d"
proof -
  have "distinct (filter (\<lambda>n. n \<in> set ys) xs @ filter (\<lambda>n. n \<notin> set xs) ys) \<and>
     set (filter (\<lambda>n. n \<in> set ys) xs @ filter (\<lambda>n. n \<notin> set xs) ys) = set ys"
    if "distinct xs" "distinct ys" for xs ys :: "string list" using that by auto
  moreover have "distinct default_peer_order" by (simp add: default_peer_order_def)
  moreover have "migrated_order (JObj d) = filter (\<lambda>n. n \<in> set (map fst d)) default_peer_order @ filter (\<lambda>n. n \<notin> set default_peer_order) (map fst d)"
    by (simp add: migrated_order_def Let_def)
  ultimately show ?thesis using assms by (metis set_map)
qed

text \<open>
  migration keeps the turn and the health. A state of the first schema whose tools are a mapping of peers is
  migrated to an order of exactly these peers, each once, in which the peer whose turn it was is the one the turn
  index points at, and every peer keeps the state, the failures and the runs it had.
\<close>

theorem migration_keeps_turn:
  assumes "jget loaded ''tools'' = JObj d" and "distinct (map fst d)" and "jget loaded ''whose_turn'' = JStr turn" and "turn \<in> fst ` set d"
    and entries: "\<forall>n \<in> fst ` set d. \<exists>e. map_of d n = Some (JObj e) \<and> e \<noteq> []"
  shows "\<exists>out order i peers. migrate_v1 loaded = Inr out \<and> jget out ''peer_order'' = JList (map JStr order) \<and>
    distinct order \<and> set order = fst ` set d \<and> jget out ''turn_index'' = JInt (int i) \<and> i < length order \<and> order ! i = turn \<and>
    jget out ''peers'' = JObj peers \<and>
    (\<forall>n e k. map_of d n = Some (JObj e) \<and> k \<in> set legacy_keys \<and> has_key e k \<longrightarrow>
       (\<exists>m. map_of peers n = Some (JObj m) \<and> jget m k = jget e k))"
proof -
  let ?order = "migrated_order (JObj d)"
  let ?P = "\<lambda>n x. \<exists>m e. x = JObj m \<and> map_of d n = Some (JObj e) \<and>
     (\<forall>k. jget m k = (if k \<in> set legacy_keys \<and> has_key e k then jget e k else jget default_peer_entry k))"
  note o = migrated_order_dict [OF assms(2)]
  have ne: "d \<noteq> []" using assms(4) by auto
  have "\<exists>y. migrate_peer (JObj d) n = Inr (n, y) \<and> ?P n y" if n: "n \<in> set ?order" for n
  proof -
    from n o entries obtain e where e: "map_of d n = Some (JObj e)" "e \<noteq> []" by blast
    from migrate_peer_dict [OF refl ne e] e(1) show ?thesis by blast
  qed
  from res_map_pairs [where P = ?P, OF this] obtain ps where ps: "res_map (migrate_peer (JObj d)) ?order = Inr ps"
    "map fst ps = ?order" "\<forall>(n, x) \<in> set ps. ?P n x" by blast
  with o have dict: "dict_of ps = ps" by (simp add: dict_of_distinct)
  from index_of_mem [of turn ?order] assms(4) o obtain i where i: "index_of turn ?order = Some i" "i < length ?order" "?order ! i = turn" by auto
  have "\<exists>m. map_of ps n = Some (JObj m) \<and> jget m k = jget e k"
    if n: "map_of d n = Some (JObj e)" "k \<in> set legacy_keys" "has_key e k" for n e k
  proof -
    have "n \<in> fst ` set ps" using map_of_SomeD [OF n(1)] o ps(2) by (metis fst_conv image_eqI set_map)
    then obtain x where x: "map_of ps n = Some x" by (metis domD dom_map_of_conv_image_fst)
    from bspec [OF ps(3) map_of_SomeD [OF x]] have "?P n x" by (simp only: prod.case)
    with n x show ?thesis by auto
  qed
  with i o ps dict assms(1,3) show ?thesis
    by (simp add: migrate_v1_def Let_def jget_dict_set jget_setdefault_other migrated_turn_def exI [of _ ?order])
qed

section \<open>On concrete inputs\<close>

text \<open>A file in memory.\<close>

definition memory_file :: "string option state_io" where
  "memory_file =
     \<lparr>si_lstat = \<lambda>w. (Inr (map_option (\<lambda>_. False) w), w),
      si_read = \<lambda>n w. (case w of None \<Rightarrow> Inl OSError | Some t \<Rightarrow> Inr (take n t), w),
      si_backup_link = ret False, si_backup_exists = ret True, si_write_backup = \<lambda>_. ret (),
      si_mkdir = ret (), si_write = \<lambda>t w. (Inr (), Some t)\<rparr>"

lemma memory_file_keeps: "keeps_files memory_file"
  by (simp add: keeps_files_def memory_file_def)

definition no_float :: "string \<Rightarrow> int \<Rightarrow> bool" where
  "no_float t n = False"

definition small_state :: raw where
  "small_state = [(''iteration'', JInt 3), (''peer_order'', JList [JStr ''a'', JStr ''b'']), (''turn_index'', JInt 1), (''_marker'', JBool True)]"


theorem loaded_state_is_sound_witness:
  "\<exists>s. load no_float memory_file None None = (Inr s, None) \<and> sound_state s"
proof -
  have l: "load no_float memory_file None None = (Inr (build_default_state (cfg_order None)), None)"
    by (simp add: load_def memory_file_def act_bind_def ret_def)
  have "cfg_order None \<noteq> []" "distinct (cfg_order None)" "[] \<notin> set (cfg_order None)" by code_simp+
  with loaded_state_is_sound [OF l] l show ?thesis by blast
qed

definition old_peers :: raw where
  "old_peers = [(''codex'', JObj [(''state'', JStr ''degraded'')]), (''claude'', JObj [(''state'', JStr ''healthy'')])]"

theorem migration_keeps_turn_witness:
  "\<exists>out i. migrate_v1 [(''whose_turn'', JStr ''codex''), (''tools'', JObj old_peers)] = Inr out \<and> jget out ''turn_index'' = JInt (int i)"
proof -
  let ?l = "[(''whose_turn'', JStr ''codex''), (''tools'', JObj old_peers)]"
  have "jget ?l ''tools'' = JObj old_peers" "distinct (map fst old_peers)" "jget ?l ''whose_turn'' = JStr ''codex''" "''codex'' \<in> fst ` set old_peers"
    by code_simp+
  moreover have "\<forall>n \<in> fst ` set old_peers. \<exists>e. map_of old_peers n = Some (JObj e) \<and> e \<noteq> []" by (simp add: old_peers_def)
  ultimately show ?thesis using migration_keeps_turn [of ?l old_peers "''codex''"] by blast
qed

text \<open>A state of the first schema whose tools are a list leaves \<open>load\<close> with an \<open>AttributeError\<close>, not the \<open>RuntimeError\<close> callers handle.\<close>

lemma legacy_tools_escape:
  assumes "jget loaded ''tools'' = JList (x # xs)"
  shows "migrate_v1 loaded = Inl AttributeError"
proof -
  have "migrated_order (JList (x # xs)) = default_peer_order" by (simp add: migrated_order_def default_peer_order_def)
  with assms show ?thesis
    by (simp add: migrate_v1_def Let_def default_peer_order_def migrate_peer_def legacy_entry_def py_or_def)
qed

end
