(* ===== verification/GoalEngine.thy ===== *)
theory GoalEngine
  imports Phases
begin

text \<open>
  The engine that runs the hard gates, \<open>peers/goal_engine.py\<close>: the run of a gate and its retries, the
  memory of passes per working tree and commit, and the record of the last verdicts. The subprocess, the
  \<open>pass_when\<close> expressions and git are fields of the record \<open>gate_io\<close>.
\<close>

section \<open>Goals and the run of a gate\<close>

record goal =
  go_id :: string
  go_hard :: bool
  go_cmd :: string
  go_pass_when :: string
  go_timeout :: "int option"
  go_cacheable :: bool
  go_retry :: int
  go_expensive :: bool
  go_reviewer :: "string option"
  go_consensus :: int
  go_quorum :: "(int \<times> int) option"

text \<open>What a command comes to, with its output streams, and what \<open>GoalEngine\<close> uses of the world.\<close>

datatype outcome = Timed_out string string | Finished int string string

record 'w gate_io =
  gi_run :: "string \<Rightarrow> int \<Rightarrow> ('w, outcome \<times> int) act"
  gi_pass_when :: "string \<Rightarrow> int \<Rightarrow> string \<Rightarrow> string \<Rightarrow> ('w, bool) act"
  gi_tree_key :: "('w, string option) act"
  gi_head_key :: "('w, string option) act"
  gi_repr :: "string \<Rightarrow> string"
  gi_exc :: "pyexc \<Rightarrow> string"
  gi_timeout :: int

fun py_drop :: "nat \<Rightarrow> string \<Rightarrow> string" where
  "py_drop n [] = []"
| "py_drop n (c # cs) = (if cont_byte c then py_drop n cs else case n of 0 \<Rightarrow> c # cs | Suc m \<Rightarrow> py_drop m (dropWhile cont_byte cs))"

definition py_tail :: "nat \<Rightarrow> string \<Rightarrow> string" where
  "py_tail n s = py_drop (py_len s - n) s"

definition diagnostic_tail_chars :: nat where
  "diagnostic_tail_chars = 1000"

definition tail_part :: "'w gate_io \<Rightarrow> string \<Rightarrow> string \<Rightarrow> string" where
  "tail_part io label text = label @ gi_repr io (py_tail diagnostic_tail_chars text)"

definition failure_diagnostic :: "'w gate_io \<Rightarrow> string \<Rightarrow> int \<Rightarrow> string \<Rightarrow> string \<Rightarrow> string" where
  "failure_diagnostic io reason rc out err =
     joins ''; '' ([reason, ''exit_code='' @ show_int rc] @
       (if out = [] then [] else [tail_part io ''stdout-tail='' out]) @
       (if err = [] then [] else [tail_part io ''stderr-tail='' err]))"

definition timeout_diagnostic :: "'w gate_io \<Rightarrow> string \<Rightarrow> string \<Rightarrow> string" where
  "timeout_diagnostic io out err =
     (if out = [] \<and> err = [] then ''timeout''
      else joins ''; '' [''timeout'', tail_part io ''stdout-tail='' out, tail_part io ''stderr-tail='' err])"

definition run_hard :: "'w gate_io \<Rightarrow> goal \<Rightarrow> ('w, goal_result) act" where
  "run_hard io g =
     act_bind (gi_run io (go_cmd g) (case go_timeout g of None \<Rightarrow> gi_timeout io | Some t \<Rightarrow> t)) (\<lambda>(outcome, dur).
     case outcome of
       Timed_out out err \<Rightarrow> ret \<lparr>gr_state = ''fail'', gr_diagnostic = timeout_diagnostic io out err, gr_duration = dur\<rparr>
     | Finished rc out err \<Rightarrow>
         act_bind (act_catch (gi_pass_when io (go_pass_when g) rc out err)) (\<lambda>verdict.
         case verdict of
           Inl e \<Rightarrow> ret \<lparr>gr_state = ''fail'', gr_diagnostic = failure_diagnostic io (''pass_when error: '' @ gi_exc io e) rc out err, gr_duration = dur\<rparr>
         | Inr True \<Rightarrow> ret \<lparr>gr_state = ''pass'', gr_diagnostic = [], gr_duration = dur\<rparr>
         | Inr False \<Rightarrow> ret \<lparr>gr_state = ''fail'', gr_diagnostic = failure_diagnostic io ''pass_when returned False'' rc out err, gr_duration = dur\<rparr>))"

definition is_pass :: "goal_result \<Rightarrow> bool" where
  "is_pass r \<longleftrightarrow> gr_state r = ''pass''"

definition is_fail :: "goal_result \<Rightarrow> bool" where
  "is_fail r \<longleftrightarrow> gr_state r = ''fail''"

text \<open>\<open>while res.state == "fail" and attempts > 0\<close>.\<close>

fun retrying :: "'w gate_io \<Rightarrow> goal \<Rightarrow> nat \<Rightarrow> goal_result \<Rightarrow> ('w, goal_result) act" where
  "retrying io g 0 r = ret r"
| "retrying io g (Suc n) r = (if is_fail r then act_bind (run_hard io g) (retrying io g n) else ret r)"

definition run_hard_retrying :: "'w gate_io \<Rightarrow> goal \<Rightarrow> ('w, goal_result) act" where
  "run_hard_retrying io g = act_bind (run_hard io g) (retrying io g (nat (go_retry g)))"

section \<open>The engine\<close>

record 'w engine =
  en_goals :: "goal list"
  en_last :: results
  en_cache :: "(string \<times> string \<times> goal_result) list"
  en_world :: 'w

definition expensive_ids :: "goal list \<Rightarrow> string list" where
  "expensive_ids goals = map go_id (filter (\<lambda>g. go_hard g \<and> go_expensive g) goals)"

definition cheap_ids :: "goal list \<Rightarrow> string list" where
  "cheap_ids goals = map go_id (filter (\<lambda>g. go_hard g \<and> \<not> go_expensive g) goals)"

definition cache_key :: "'w gate_io \<Rightarrow> ('w, string option) act" where
  "cache_key io =
     act_bind (gi_tree_key io) (\<lambda>tree.
     case tree of
       None \<Rightarrow> ret None
     | Some t \<Rightarrow>
         act_bind (gi_head_key io) (\<lambda>head. ret (case head of None \<Rightarrow> None | Some h \<Rightarrow> Some (t @ '':'' @ h))))"

definition on_world :: "('w, 'a) act \<Rightarrow> ('w engine, 'a) act" where
  "on_world m e = (case m (en_world e) of (r, w) \<Rightarrow> (r, e\<lparr>en_world := w\<rparr>))"

text \<open>The key is computed at most once per call: \<open>None\<close> is not yet, \<open>Some None\<close> uncacheable.\<close>

type_synonym eval_state = "results \<times> string option option"

definition cached_result :: "string \<Rightarrow> goal_result \<Rightarrow> goal_result" where
  "cached_result key prev =
     \<lparr>gr_state = gr_state prev, gr_diagnostic = strip (gr_diagnostic prev @ '' [cached tree='' @ py_take 10 key @ '']''), gr_duration = 0\<rparr>"

definition hit :: "'w engine \<Rightarrow> goal \<Rightarrow> string option \<Rightarrow> goal_result option" where
  "hit e g key =
     (case (key, map_of (en_cache e) (go_id g)) of
        (Some k, Some (k', prev)) \<Rightarrow> if k' = k then Some (cached_result k prev) else None
      | _ \<Rightarrow> None)"

definition remember :: "goal \<Rightarrow> string option \<Rightarrow> goal_result \<Rightarrow> ('w engine, unit) act" where
  "remember g key r e =
     (Inr (), case key of
        Some k \<Rightarrow> if is_pass r then e\<lparr>en_cache := dict_set (en_cache e) (go_id g) (k, r)\<rparr> else e
      | None \<Rightarrow> e)"

definition evaluate_one :: "'w gate_io \<Rightarrow> goal \<Rightarrow> eval_state \<Rightarrow> ('w engine, eval_state) act" where
  "evaluate_one io g = (\<lambda>(results, key).
     if go_cacheable g then
       act_bind (case key of None \<Rightarrow> on_world (cache_key io) | Some k \<Rightarrow> ret k) (\<lambda>k.
       act_bind (\<lambda>e. (Inr (hit e g k), e)) (\<lambda>cached.
       case cached of
         Some r \<Rightarrow> ret (dict_set results (go_id g) r, Some k)
       | None \<Rightarrow>
           act_bind (on_world (run_hard_retrying io g)) (\<lambda>r.
           act_bind (remember g k r) (\<lambda>_. ret (dict_set results (go_id g) r, Some k)))))
     else act_bind (on_world (run_hard_retrying io g)) (\<lambda>r. ret (dict_set results (go_id g) r, key)))"

definition chosen :: "string list option \<Rightarrow> goal \<Rightarrow> bool" where
  "chosen ids g \<longleftrightarrow> go_hard g \<and> (case ids of None \<Rightarrow> True | Some xs \<Rightarrow> go_id g \<in> set xs)"

definition dict_update :: "('k \<times> 'v) list \<Rightarrow> ('k \<times> 'v) list \<Rightarrow> ('k \<times> 'v) list" where
  "dict_update d e = foldl (\<lambda>d (k, v). dict_set d k v) d e"

definition evaluate_hard_gates :: "'w gate_io \<Rightarrow> string list option \<Rightarrow> ('w engine, results) act" where
  "evaluate_hard_gates io ids e =
     act_bind (fold_act (evaluate_one io) (filter (chosen ids) (en_goals e)) ([], None)) (\<lambda>(results, _) e.
       (Inr results, e\<lparr>en_last := (if ids = None then results else dict_update (en_last e) results)\<rparr>)) e"

definition all_green :: "'w engine \<Rightarrow> bool" where
  "all_green e =
     (if \<not> list_ex go_hard (en_goals e) then True
      else if en_last e = [] then False
      else list_all (\<lambda>(_, r). is_pass r) (en_last e))"

section \<open>The memory changes no verdict\<close>

text \<open>
  The reference: \<open>v g w\<close> is the verdict of gate \<open>g\<close> on world \<open>w\<close>, \<open>key w\<close> the key of the tree and commit. The gates
  are pure if running one tells its verdict and changes no verdict and no key, if the key is what the engine
  computes, and if the verdict of a gate marked cacheable depends on nothing but the key: what the field
  \<open>cacheable\<close> of a goal promises.
\<close>

definition same_view :: "(goal \<Rightarrow> 'w \<Rightarrow> bool) \<Rightarrow> ('w \<Rightarrow> string option) \<Rightarrow> 'w \<Rightarrow> 'w \<Rightarrow> bool" where
  "same_view v key w w' \<longleftrightarrow> (\<forall>g. v g w' = v g w) \<and> key w' = key w"

definition pure_gates :: "'w gate_io \<Rightarrow> (goal \<Rightarrow> 'w \<Rightarrow> bool) \<Rightarrow> ('w \<Rightarrow> string option) \<Rightarrow> bool" where
  "pure_gates io v key \<longleftrightarrow>
     (\<forall>g w r w'. run_hard io g w = (r, w') \<longrightarrow> same_view v key w w' \<and> (\<forall>x. r = Inr x \<longrightarrow> is_pass x = v g w)) \<and>
     (\<forall>w r w'. cache_key io w = (r, w') \<longrightarrow> same_view v key w w' \<and> (\<forall>k. r = Inr k \<longrightarrow> k = key w)) \<and>
     (\<forall>g w w'. go_cacheable g \<longrightarrow> key w = key w' \<longrightarrow> key w \<noteq> None \<longrightarrow> v g w = v g w')"

definition cache_sound :: "(goal \<Rightarrow> 'w \<Rightarrow> bool) \<Rightarrow> ('w \<Rightarrow> string option) \<Rightarrow> 'w engine \<Rightarrow> bool" where
  "cache_sound v key e \<longleftrightarrow> (\<forall>g k r. g \<in> set (en_goals e) \<and> go_cacheable g \<and> map_of (en_cache e) (go_id g) = Some (k, r) \<longrightarrow>
     is_pass r \<and> (\<forall>w. key w = Some k \<longrightarrow> v g w))"

lemma same_view_refl [simp]: "same_view v key w w"
  by (simp add: same_view_def)

lemma same_view_trans: "same_view v key a b \<Longrightarrow> same_view v key b c \<Longrightarrow> same_view v key a c"
  by (simp add: same_view_def)

lemma pure_run:
  assumes "pure_gates io v key" and "run_hard io g w = (r, w')"
  shows "same_view v key w w'" and "r = Inr x \<Longrightarrow> is_pass x = v g w"
  using assms unfolding pure_gates_def by simp_all

lemma pure_key:
  assumes "pure_gates io v key" and "cache_key io w = (r, w')"
  shows "same_view v key w w'" and "r = Inr k \<Longrightarrow> k = key w"
  using assms unfolding pure_gates_def by simp_all

lemma pure_cacheable: "pure_gates io v key \<Longrightarrow> go_cacheable g \<Longrightarrow> key w = key w' \<Longrightarrow> key w \<noteq> None \<Longrightarrow> v g w = v g w'"
  unfolding pure_gates_def by blast

lemma retrying_pure:
  assumes "pure_gates io v key" and "is_pass r = v g w" and "retrying io g n r w = (q, w')"
  shows "same_view v key w w' \<and> (\<forall>x. q = Inr x \<longrightarrow> is_pass x = v g w)"
  using assms(2,3)
proof (induction n arbitrary: r w)
  case (Suc n)
  show ?case
  proof (cases "is_fail r")
    case False
    with Suc.prems show ?thesis by auto
  next
    case True
    with Suc.prems(2) consider e where "run_hard io g w = (Inl e, w')" "q = Inl e"
      | x w1 where "run_hard io g w = (Inr x, w1)" "retrying io g n x w1 = (q, w')"
      by (auto simp: act_bind_eq)
    then show ?thesis
    proof cases
      case 1
      with pure_run(1) [OF assms(1) 1(1)] show ?thesis by simp
    next
      case 2
      note p = pure_run(1) [OF assms(1) 2(1)] pure_run(2) [OF assms(1) 2(1) refl]
      then have "is_pass x = v g w1" by (simp add: same_view_def)
      from Suc.IH [OF this 2(2)] p show ?thesis by (auto simp: same_view_def)
    qed
  qed
qed auto

lemma run_hard_retrying_pure:
  assumes "pure_gates io v key" and "run_hard_retrying io g w = (Inr x, w')"
  shows "same_view v key w w' \<and> is_pass x = v g w"
proof -
  from assms(2) obtain r w1 where 1: "run_hard io g w = (Inr r, w1)" "retrying io g (nat (go_retry g)) r w1 = (Inr x, w')"
    by (auto simp: run_hard_retrying_def act_bind_Inr)
  note p = pure_run(1) [OF assms(1) 1(1)] pure_run(2) [OF assms(1) 1(1) refl]
  then have "is_pass r = v g w1" by (simp add: same_view_def)
  from retrying_pure [OF assms(1) this 1(2)] p show ?thesis by (auto simp: same_view_def)
qed

lemma on_world_iff: "on_world m e = (r, e') \<longleftrightarrow> (\<exists>w. m (en_world e) = (r, w) \<and> e' = e\<lparr>en_world := w\<rparr>)"
  by (auto simp: on_world_def split: prod.splits)

lemma cache_sound_world [simp]: "cache_sound v key (e\<lparr>en_world := w\<rparr>) = cache_sound v key e"
  by (simp add: cache_sound_def)

text \<open>What one gate adds to the results, cached or run.\<close>

definition one_step :: "(goal \<Rightarrow> 'w \<Rightarrow> bool) \<Rightarrow> ('w \<Rightarrow> string option) \<Rightarrow> goal \<Rightarrow> eval_state \<Rightarrow> 'w engine \<Rightarrow> eval_state \<Rightarrow> 'w engine \<Rightarrow> bool" where
  "one_step v key g acc e acc' e' \<longleftrightarrow>
     (\<exists>r. fst acc' = dict_set (fst acc) (go_id g) r \<and> is_pass r = v g (en_world e)) \<and>
     (snd acc' = None \<or> snd acc' = Some (key (en_world e'))) \<and> same_view v key (en_world e) (en_world e') \<and>
     cache_sound v key e' \<and> en_goals e' = en_goals e \<and> en_last e' = en_last e"

lemma run_step:
  assumes "pure_gates io v key" and "on_world (run_hard_retrying io g) e = (Inr r, e')" and "cache_sound v key e"
  shows "e' = e\<lparr>en_world := en_world e'\<rparr>" and "same_view v key (en_world e) (en_world e')" and "is_pass r = v g (en_world e)"
    and "cache_sound v key e'"
  using assms run_hard_retrying_pure [OF assms(1)] by (auto simp: on_world_iff)

lemma remember_sound:
  assumes "cache_sound v key e" and "distinct (map go_id (en_goals e))" and "g \<in> set (en_goals e)"
    and pure: "pure_gates io v key" and "go_cacheable g" and "is_pass r = v g w" and "k = key w"
    and "remember g k r e = (q, e')"
  shows "cache_sound v key e' \<and> en_goals e' = en_goals e \<and> en_last e' = en_last e \<and> en_world e' = en_world e"
proof (cases "\<exists>k0. k = Some k0 \<and> is_pass r")
  case False
  then have "e' = e" using assms(8) by (auto simp: remember_def split: option.splits if_splits)
  with assms(1) show ?thesis by simp
next
  case True
  then obtain k0 where k0: "k = Some k0" "is_pass r" by blast
  then have e': "e' = e\<lparr>en_cache := dict_set (en_cache e) (go_id g) (k0, r)\<rparr>" using assms(8) by (simp add: remember_def)
  have v: "v g w'" if "key w' = Some k0" for w'
  proof -
    have "key w = Some k0" using assms(7) k0(1) by simp
    with that have "v g w = v g w'" by (intro pure_cacheable [OF pure assms(5)]) simp_all
    with k0(2) assms(6) show ?thesis by simp
  qed
  have same: "h = g" if "h \<in> set (en_goals e)" "go_id h = go_id g" for h
    using assms(2,3) that by (auto simp: distinct_map dest: inj_onD)
  have "cache_sound v key e'"
    unfolding cache_sound_def
  proof (intro allI impI)
    fix h k1 r1 assume h: "h \<in> set (en_goals e') \<and> go_cacheable h \<and> map_of (en_cache e') (go_id h) = Some (k1, r1)"
    show "is_pass r1 \<and> (\<forall>w. key w = Some k1 \<longrightarrow> v h w)"
    proof (cases "go_id h = go_id g")
      case True
      with h same [of h] e' v k0(2) show ?thesis by simp
    next
      case False
      with h e' assms(1) show ?thesis by (simp add: cache_sound_def)
    qed
  qed
  with e' show ?thesis by simp
qed

lemma evaluate_one_step:
  assumes pure: "pure_gates io v key" and cache: "cache_sound v key e" and d: "distinct (map go_id (en_goals e))" "g \<in> set (en_goals e)"
    and key: "snd acc = None \<or> snd acc = Some (key (en_world e))" and run: "evaluate_one io g acc e = (Inr acc', e')"
  shows "one_step v key g acc e acc' e'"
proof (cases "go_cacheable g")
  case False
  with run obtain r where r: "on_world (run_hard_retrying io g) e = (Inr r, e')" "acc' = (dict_set (fst acc) (go_id g) r, snd acc)"
    by (cases acc) (auto simp: evaluate_one_def act_bind_Inr)
  note s = run_step [OF pure r(1) cache]
  from s(1) have "en_goals e' = en_goals e" "en_last e' = en_last e" by (metis engine.select_convs engine.surjective engine.update_convs(4))+
  with s r(2) key show ?thesis by (auto simp: one_step_def same_view_def)
next
  case True
  obtain results k0 where acc: "acc = (results, k0)" by (cases acc)
  from run True acc obtain k e1 where k: "(case k0 of None \<Rightarrow> on_world (cache_key io) | Some k \<Rightarrow> ret k) e = (Inr k, e1)"
    and rest: "(case hit e1 g k of Some r \<Rightarrow> ret (dict_set results (go_id g) r, Some k)
       | None \<Rightarrow> act_bind (on_world (run_hard_retrying io g)) (\<lambda>r.
           act_bind (remember g k r) (\<lambda>_. ret (dict_set results (go_id g) r, Some k)))) e1 = (Inr acc', e')"
    by (auto simp: evaluate_one_def act_bind_Inr)
  have e1: "same_view v key (en_world e) (en_world e1)" "k = key (en_world e1)" "cache_sound v key e1"
    "en_goals e1 = en_goals e" "en_last e1 = en_last e"
    using k key cache acc pure_key [OF pure] by (auto simp: on_world_iff same_view_def split: option.splits)
  show ?thesis
  proof (cases "hit e1 g k")
    case None
    with rest obtain r e2 where r: "on_world (run_hard_retrying io g) e1 = (Inr r, e2)" "remember g k r e2 = (Inr (), e')"
      "acc' = (dict_set results (go_id g) r, Some k)" by (auto simp: act_bind_Inr)
    note s = run_step [OF pure r(1) e1(3)]
    from s(1) have e2: "en_goals e2 = en_goals e" "en_last e2 = en_last e" using e1(4,5)
      by (metis engine.select_convs engine.surjective engine.update_convs(4))+
    have "cache_sound v key e' \<and> en_goals e' = en_goals e2 \<and> en_last e' = en_last e2 \<and> en_world e' = en_world e2"
      using d e2 s(2,3) e1(2) by (intro remember_sound [OF s(4) _ _ pure True _ _ r(2), of "en_world e1"]) auto
    with s(2,3) e1 e2 r(3) acc show ?thesis by (auto simp: one_step_def same_view_def)
  next
    case (Some r)
    then obtain k1 prev where h: "k = Some k1" "map_of (en_cache e1) (go_id g) = Some (k1, prev)" "r = cached_result k1 prev"
      by (auto simp: hit_def split: option.splits if_splits)
    from e1(3) d(2) [folded e1(4)] True h(2) have "is_pass prev \<and> (\<forall>w. key w = Some k1 \<longrightarrow> v g w)" unfolding cache_sound_def by blast
    moreover have "is_pass (cached_result k1 prev) = is_pass prev" by (simp add: is_pass_def cached_result_def)
    ultimately have "is_pass r = v g (en_world e1)" using h e1(2) by simp
    with Some rest e1 acc show ?thesis by (auto simp: one_step_def same_view_def)
  qed
qed

lemma evaluate_loop:
  assumes pure: "pure_gates io v key"
  shows "\<lbrakk>fold_act (evaluate_one io) gs acc e = (Inr acc', e'); cache_sound v key e; distinct (map go_id (en_goals e)); set gs \<subseteq> set (en_goals e);
     distinct (map go_id gs); snd acc = None \<or> snd acc = Some (key (en_world e))\<rbrakk> \<Longrightarrow>
     same_view v key (en_world e) (en_world e') \<and> cache_sound v key e' \<and> en_goals e' = en_goals e \<and> en_last e' = en_last e \<and>
     (\<forall>g \<in> set gs. \<exists>r. map_of (fst acc') (go_id g) = Some r \<and> is_pass r = v g (en_world e)) \<and>
     (\<forall>x. x \<notin> go_id ` set gs \<longrightarrow> map_of (fst acc') x = map_of (fst acc) x)"
proof (induction gs arbitrary: acc e)
  case (Cons g gs)
  from Cons.prems(1) obtain acc1 e1 where 1: "evaluate_one io g acc e = (Inr acc1, e1)" "fold_act (evaluate_one io) gs acc1 e1 = (Inr acc', e')"
    by (auto simp: act_bind_Inr)
  have "one_step v key g acc e acc1 e1"
    using Cons.prems by (intro evaluate_one_step [OF pure _ _ _ _ 1(1)]) auto
  then obtain r where r: "fst acc1 = dict_set (fst acc) (go_id g) r" "is_pass r = v g (en_world e)"
    and s: "snd acc1 = None \<or> snd acc1 = Some (key (en_world e1))" "same_view v key (en_world e) (en_world e1)" "cache_sound v key e1"
      "en_goals e1 = en_goals e" "en_last e1 = en_last e" by (auto simp: one_step_def)
  have ih: "same_view v key (en_world e1) (en_world e') \<and> cache_sound v key e' \<and> en_goals e' = en_goals e1 \<and> en_last e' = en_last e1 \<and>
     (\<forall>g \<in> set gs. \<exists>r. map_of (fst acc') (go_id g) = Some r \<and> is_pass r = v g (en_world e1)) \<and>
     (\<forall>x. x \<notin> go_id ` set gs \<longrightarrow> map_of (fst acc') x = map_of (fst acc1) x)"
    using Cons.prems s by (intro Cons.IH [OF 1(2)]) auto
  then have "map_of (fst acc') (go_id g) = Some r" using Cons.prems(5) r(1) by simp
  with ih r s show ?case by (auto simp: same_view_def)
qed (auto simp: ret_def)

lemma evaluation_facts:
  assumes "pure_gates io v key" and "cache_sound v key e" and "distinct (map go_id (en_goals e))"
    and "evaluate_hard_gates io ids e = (Inr results, e')"
  shows "\<forall>g \<in> set (en_goals e). chosen ids g \<longrightarrow> (\<exists>r. map_of results (go_id g) = Some r \<and> is_pass r = v g (en_world e))"
    and "\<forall>x. x \<notin> go_id ` {g \<in> set (en_goals e). chosen ids g} \<longrightarrow> map_of results x = None"
    and "cache_sound v key e' \<and> same_view v key (en_world e) (en_world e')"
    and "en_goals e' = en_goals e \<and> en_last e' = (if ids = None then results else dict_update (en_last e) results)"
proof -
  let ?gs = "filter (chosen ids) (en_goals e)"
  from assms(4) obtain acc' e1 where 1: "fold_act (evaluate_one io) ?gs ([], None) e = (Inr acc', e1)" "results = fst acc'"
    "e' = e1\<lparr>en_last := (if ids = None then results else dict_update (en_last e1) results)\<rparr>"
    by (auto simp: evaluate_hard_gates_def act_bind_Inr)
  have "distinct (map go_id ?gs)" using assms(3) by (simp add: distinct_map_filter)
  note x = evaluate_loop [OF assms(1) 1(1) assms(2,3) _ this]
  show "\<forall>g \<in> set (en_goals e). chosen ids g \<longrightarrow> (\<exists>r. map_of results (go_id g) = Some r \<and> is_pass r = v g (en_world e))"
    and "\<forall>x. x \<notin> go_id ` {g \<in> set (en_goals e). chosen ids g} \<longrightarrow> map_of results x = None"
    and "cache_sound v key e' \<and> same_view v key (en_world e) (en_world e')"
    and "en_goals e' = en_goals e \<and> en_last e' = (if ids = None then results else dict_update (en_last e) results)"
    using x 1(2,3) by (auto simp: cache_sound_def)
qed

text \<open>
  C29: the memory changes no verdict. With gates that are pure, an evaluation gives for every hard gate it was asked about
  the verdict the gate has on the tree at hand, whether the verdict was remembered or the gate was run, retries
  included; it gives nothing for any other gate, and what it remembers afterwards is again sound.
\<close>

theorem evaluation_exact:
  assumes "pure_gates io v key" and "cache_sound v key e" and "distinct (map go_id (en_goals e))"
    and "evaluate_hard_gates io ids e = (Inr results, e')"
  shows "(\<forall>g \<in> set (en_goals e). chosen ids g \<longrightarrow> (\<exists>r. map_of results (go_id g) = Some r \<and> is_pass r = v g (en_world e))) \<and>
    (\<forall>x. x \<notin> go_id ` {g \<in> set (en_goals e). chosen ids g} \<longrightarrow> map_of results x = None) \<and>
    cache_sound v key e' \<and> same_view v key (en_world e) (en_world e')"
  using evaluation_facts [OF assms] by blast

lemma map_of_dict_update: "map_of (dict_update d e) k = (case map_of (rev e) k of None \<Rightarrow> map_of d k | Some v \<Rightarrow> Some v)"
proof (induction e rule: rev_induct)
  case (snoc kv e)
  obtain x v where kv: "kv = (x, v)" by (cases kv)
  with snoc show ?case by (auto simp: dict_update_def)
qed (simp add: dict_update_def)

lemma evaluate_one_distinct:
  assumes "distinct (map fst (fst acc))" and "evaluate_one io g acc e = (Inr acc', e')"
  shows "distinct (map fst (fst acc'))"
proof -
  have "\<exists>r. fst acc' = dict_set (fst acc) (go_id g) r"
    using assms(2) by (cases acc) (auto simp: evaluate_one_def act_bind_Inr split: if_splits option.splits)
  with assms(1) show ?thesis by (auto simp: distinct_dict_set)
qed

lemma results_distinct:
  assumes "evaluate_hard_gates io ids e = (Inr results, e')"
  shows "distinct (map fst results)"
proof -
  from assms obtain acc' e1 where 1: "fold_act (evaluate_one io) (filter (chosen ids) (en_goals e)) ([], None) e = (Inr acc', e1)"
    and 2: "results = fst acc'"
    by (auto simp: evaluate_hard_gates_def act_bind_Inr)
  have "distinct (map fst (fst acc'))"
    by (rule fold_act_invariant [where I = "\<lambda>acc e. distinct (map fst (fst acc))", OF _ _ 1]) (erule evaluate_one_distinct, simp_all)
  with 2 show ?thesis by simp
qed

text \<open>After an evaluation of all gates, \<open>all_green\<close> is the verdict of all of them.\<close>

lemma all_green_exact:
  assumes "pure_gates io v key" and "cache_sound v key e" and "distinct (map go_id (en_goals e))"
    and "evaluate_hard_gates io None e = (Inr results, e')"
  shows "all_green e' \<longleftrightarrow> (\<forall>g \<in> set (en_goals e). go_hard g \<longrightarrow> v g (en_world e))"
proof -
  note x = evaluation_facts [OF assms(1-4)]
  from x(4) have last: "en_last e' = results" "en_goals e' = en_goals e" by auto
  show ?thesis
  proof (cases "list_ex go_hard (en_goals e)")
    case False
    then show ?thesis by (auto simp: all_green_def last list_ex_iff)
  next
    case True
    then obtain h where h: "h \<in> set (en_goals e)" "go_hard h" by (auto simp: list_ex_iff)
    with x(1) have ne: "results \<noteq> []" by (fastforce simp: chosen_def)
    have "list_all (\<lambda>(_, r). is_pass r) results \<longleftrightarrow> (\<forall>k r. map_of results k = Some r \<longrightarrow> is_pass r)"
      using results_distinct [OF assms(4)] by (auto simp: list_all_iff)
    also have "\<dots> \<longleftrightarrow> (\<forall>g \<in> set (en_goals e). go_hard g \<longrightarrow> v g (en_world e))"
    proof
      assume a: "\<forall>k r. map_of results k = Some r \<longrightarrow> is_pass r"
      show "\<forall>g \<in> set (en_goals e). go_hard g \<longrightarrow> v g (en_world e)"
      proof (intro ballI impI)
        fix g assume "g \<in> set (en_goals e)" "go_hard g"
        with x(1) obtain r where "map_of results (go_id g) = Some r" "is_pass r = v g (en_world e)" by (auto simp: chosen_def)
        with a show "v g (en_world e)" by blast
      qed
    next
      assume a: "\<forall>g \<in> set (en_goals e). go_hard g \<longrightarrow> v g (en_world e)"
      show "\<forall>k r. map_of results k = Some r \<longrightarrow> is_pass r"
      proof (intro allI impI)
        fix k r assume k: "map_of results k = Some r"
        with x(2) have "k \<in> go_id ` {g \<in> set (en_goals e). chosen None g}" by fastforce
        then obtain g where g: "g \<in> set (en_goals e)" "chosen None g" "k = go_id g" by auto
        with x(1) obtain r' where "map_of results (go_id g) = Some r'" "is_pass r' = v g (en_world e)" by blast
        with k g a show "is_pass r" by (auto simp: chosen_def)
      qed
    qed
    finally show ?thesis using True ne by (simp add: all_green_def last)
  qed
qed

section \<open>A sample gate\<close>

text \<open>A repository whose world is the commit at \<open>HEAD\<close>, and an expensive gate that is green on commit \<open>b\<close> alone.\<close>

definition sample_verdict :: "string \<Rightarrow> goal_result" where
  "sample_verdict c = \<lparr>gr_state = (if c = ''b'' then ''pass'' else ''fail''), gr_diagnostic = [], gr_duration = 0\<rparr>"

definition sample_gates :: "string gate_io" where
  "sample_gates =
     \<lparr>gi_run = (\<lambda>_ _ w. (Inr (Finished (if w = ''b'' then 0 else 1) [] [], 0), w)), gi_pass_when = (\<lambda>_ rc _ _ w. (Inr (rc = 0), w)),
      gi_tree_key = (\<lambda>w. (Inr (Some w), w)), gi_head_key = (\<lambda>w. (Inr (Some w), w)), gi_repr = (\<lambda>s. s), gi_exc = (\<lambda>_. []), gi_timeout = 60\<rparr>"

definition sample_goal :: goal where
  "sample_goal = \<lparr>go_id = ''t'', go_hard = True, go_cmd = [], go_pass_when = [], go_timeout = None, go_cacheable = False, go_retry = 0,
     go_expensive = True, go_reviewer = None, go_consensus = 1, go_quorum = None\<rparr>"

definition sample_v :: "goal \<Rightarrow> string \<Rightarrow> bool" where
  "sample_v g w \<longleftrightarrow> w = ''b''"

definition sample_clean :: "string \<Rightarrow> string" where
  "sample_clean c = c @ '':'' @ c"

definition sample_key :: "string \<Rightarrow> string option" where
  "sample_key w = Some (sample_clean w)"

lemma sample_clean_inject [simp]: "sample_clean a = sample_clean b \<longleftrightarrow> a = b"
proof
  assume e: "sample_clean a = sample_clean b"
  then have "length (sample_clean a) = length (sample_clean b)" by simp
  then have "length a = length b" by (simp add: sample_clean_def)
  with e show "a = b" by (simp add: sample_clean_def)
qed simp

lemma sample_run: "run_hard sample_gates g w = (r, w') \<Longrightarrow> w' = w \<and> (\<forall>x. r = Inr x \<longrightarrow> is_pass x = sample_v g w)"
  by (auto simp: run_hard_def sample_gates_def act_bind_def act_catch_def ret_def is_pass_def sample_v_def split: if_splits)

lemma sample_pure: "pure_gates sample_gates sample_v sample_key"
  unfolding pure_gates_def
proof (intro conjI allI impI)
  fix g w r w' assume r: "run_hard sample_gates g w = (r, w')"
  show "same_view sample_v sample_key w w'" using sample_run [OF r] by simp
  show "is_pass x = sample_v g w" if "r = Inr x" for x using sample_run [OF r] that by simp
next
  fix w r w' assume k: "cache_key sample_gates w = (r, w')"
  show "same_view sample_v sample_key w w'" using k by (auto simp: cache_key_def sample_gates_def act_bind_def ret_def)
  show "q = sample_key w" if "r = Inr q" for q
    using k that by (auto simp: cache_key_def sample_gates_def act_bind_def ret_def sample_key_def sample_clean_def)
next
  fix g :: goal and w w' assume "sample_key w = sample_key w'"
  then show "sample_v g w = sample_v g w'" by (simp add: sample_key_def)
qed

definition fixed_engine :: "string engine" where
  "fixed_engine = \<lparr>en_goals = [sample_goal], en_last = [(''t'', sample_verdict ''a'')], en_cache = [], en_world = ''b''\<rparr>"

lemma evaluation_exact_witness:
  "\<exists>r. map_of (projr (fst (evaluate_hard_gates sample_gates None fixed_engine))) ''t'' = Some r \<and> is_pass r"
proof -
  let ?x = "evaluate_hard_gates sample_gates None fixed_engine"
  have "\<not> isl (fst ?x)" by code_simp
  note r = act_returns [OF this]
  have "cache_sound sample_v sample_key fixed_engine" "distinct (map go_id (en_goals fixed_engine))"
    by (simp_all add: cache_sound_def fixed_engine_def)
  from evaluation_exact [OF sample_pure this r]
  have "\<forall>g \<in> set (en_goals fixed_engine). chosen None g \<longrightarrow> (\<exists>r. map_of (projr (fst ?x)) (go_id g) = Some r \<and> is_pass r = sample_v g (en_world fixed_engine))"
    by (rule conjunct1)
  then show ?thesis by (simp add: fixed_engine_def sample_goal_def chosen_def sample_v_def)
qed

end
