(* ===== verification/GatePipeline.thy ===== *)
theory GatePipeline
  imports GoalEngine
begin

text \<open>
  The gates that run beside the peers: \<open>peers/async_gate_runner.py\<close>, the choice between an overlapped verdict and a
  fresh one in \<open>peers/driver_gate_pipeline.py\<close>, and the reload of the goals in \<open>peers/goal_reload.py\<close>. A
  future stands for an evaluation of one commit under the goals the runner had when it was submitted;
  whether it is done and what it gives is up to the world.
\<close>

section \<open>The runner\<close>

record future =
  fu_sha :: string
  fu_goals :: "goal list"

record 'w executor =
  ex_submit :: "future \<Rightarrow> ('w, unit) act"
  ex_done :: "future \<Rightarrow> ('w, bool) act"
  ex_result :: "future \<Rightarrow> ('w, results option) act"
  ex_cancel :: "future \<Rightarrow> ('w, unit) act"

record gate_runner =
  rn_goals :: "goal list"
  rn_expensive :: "string list"
  rn_futures :: "(string \<times> future) list"
  rn_order :: "string list"
  rn_generation :: int
  rn_gen_for :: "(string \<times> int) list"

definition new_gate_runner :: "goal list \<Rightarrow> string list \<Rightarrow> gate_runner" where
  "new_gate_runner goals ids = \<lparr>rn_goals = goals, rn_expensive = ids, rn_futures = [], rn_order = [], rn_generation = 0, rn_gen_for = []\<rparr>"

text \<open>A state of runner and world.\<close>

type_synonym 'w runner_world = "gate_runner \<times> 'w"

definition in_world :: "('w, 'a) act \<Rightarrow> ('w runner_world, 'a) act" where
  "in_world m = (\<lambda>(rn, w). case m w of (r, w') \<Rightarrow> (r, (rn, w')))"

definition change :: "(gate_runner \<Rightarrow> gate_runner) \<Rightarrow> ('w runner_world, unit) act" where
  "change f = (\<lambda>(rn, w). (Inr (), (f rn, w)))"

definition submit :: "'w executor \<Rightarrow> string \<Rightarrow> ('w runner_world, unit) act" where
  "submit ex sha = (\<lambda>(rn, w).
     if rn_expensive rn = [] \<or> map_of (rn_futures rn) sha \<noteq> None then (Inr (), (rn, w))
     else
       (let f = \<lparr>fu_sha = sha, fu_goals = rn_goals rn\<rparr> in
        act_bind (in_world (ex_submit ex f)) (\<lambda>_. change (\<lambda>rn.
          rn\<lparr>rn_futures := dict_set (rn_futures rn) sha f, rn_order := rn_order rn @ [sha],
             rn_gen_for := dict_set (rn_gen_for rn) sha (rn_generation rn)\<rparr>)) (rn, w)))"

definition invalidate_in_flight :: "'w executor \<Rightarrow> ('w runner_world, unit) act" where
  "invalidate_in_flight ex = (\<lambda>(rn, w).
     act_bind (in_world (each_act (\<lambda>(_, f). ex_cancel ex f) (rn_futures rn))) (\<lambda>_. change (\<lambda>rn.
       rn\<lparr>rn_futures := [], rn_order := [], rn_gen_for := [], rn_generation := rn_generation rn + 1\<rparr>)) (rn, w))"

definition forget :: "string \<Rightarrow> gate_runner \<Rightarrow> gate_runner" where
  "forget sha rn = rn\<lparr>rn_futures := dict_pop sha (rn_futures rn), rn_gen_for := dict_pop sha (rn_gen_for rn)\<rparr>"

definition take_result :: "'w executor \<Rightarrow> string \<Rightarrow> ('w runner_world, results option option) act" where
  "take_result ex sha = (\<lambda>(rn, w).
     let rn1 = (forget sha rn)\<lparr>rn_order := remove1 sha (rn_order rn)\<rparr> in
     case map_of (rn_futures rn) sha of
       None \<Rightarrow> (Inr None, (rn1, w))
     | Some f \<Rightarrow> act_bind (in_world (ex_result ex f)) (\<lambda>r. ret (Some r)) (rn1, w))"

definition stale :: "gate_runner \<Rightarrow> string \<Rightarrow> bool" where
  "stale rn sha = (case map_of (rn_gen_for rn) sha of None \<Rightarrow> False | Some g \<Rightarrow> g \<noteq> rn_generation rn)"

text \<open>The scan of \<open>poll_latest\<close>, from the newest submission down: \<open>Suc i\<close> looks at index \<open>i\<close>.\<close>

definition drop_entry :: "nat \<Rightarrow> gate_runner \<Rightarrow> gate_runner" where
  "drop_entry i rn = (forget (rn_order rn ! i) rn)\<lparr>rn_order := take i (rn_order rn) @ drop (i + 1) (rn_order rn)\<rparr>"

definition prune :: "nat \<Rightarrow> gate_runner \<Rightarrow> gate_runner" where
  "prune i rn = (fold forget (take (i + 1) (rn_order rn)) rn)\<lparr>rn_order := drop (i + 1) (rn_order rn)\<rparr>"

fun poll_from :: "'w executor \<Rightarrow> nat \<Rightarrow> ('w runner_world, (string \<times> results option) option) act" where
  "poll_from ex 0 p = (Inr None, p)"
| "poll_from ex (Suc i) p =
     (let rn = fst p; sha = rn_order rn ! i in
      case map_of (rn_futures rn) sha of
        None \<Rightarrow> poll_from ex i p
      | Some f \<Rightarrow>
          if stale rn sha then poll_from ex i (drop_entry i rn, snd p)
          else
            act_bind (in_world (ex_done ex f)) (\<lambda>finished.
            if \<not> finished then poll_from ex i
            else
              act_bind (in_world (ex_result ex f)) (\<lambda>r.
              act_bind (change (prune i)) (\<lambda>_. ret (Some (sha, r))))) p)"

definition poll_latest :: "'w executor \<Rightarrow> ('w runner_world, (string \<times> results option) option) act" where
  "poll_latest ex p = poll_from ex (length (rn_order (fst p))) p"

section \<open>The gates of a tick\<close>

text \<open>The runner is there only if the pipeline is on and there are expensive gates.\<close>

record 'w pipeline =
  pl_engine :: "'w engine"
  pl_runner :: "gate_runner option"
  pl_on :: bool

definition init_gate_pipeline :: "'w engine \<Rightarrow> bool \<Rightarrow> 'w pipeline" where
  "init_gate_pipeline e on =
     (let ids = expensive_ids (en_goals e) in
      \<lparr>pl_engine = e, pl_runner = (if on \<and> ids \<noteq> [] then Some (new_gate_runner (en_goals e) ids) else None), pl_on = on\<rparr>)"

definition with_engine :: "('w engine, 'a) act \<Rightarrow> ('w pipeline, 'a) act" where
  "with_engine m p = (case m (pl_engine p) of (r, e) \<Rightarrow> (r, p\<lparr>pl_engine := e\<rparr>))"

definition with_runner :: "gate_runner \<Rightarrow> ('w runner_world, 'a) act \<Rightarrow> ('w pipeline, 'a) act" where
  "with_runner rn m p =
     (case m (rn, en_world (pl_engine p)) of
        (r, (rn', w)) \<Rightarrow> (r, p\<lparr>pl_runner := Some rn', pl_engine := (pl_engine p)\<lparr>en_world := w\<rparr>\<rparr>))"

definition active_runner :: "'w pipeline \<Rightarrow> gate_runner option" where
  "active_runner p = (if pl_on p then pl_runner p else None)"

text \<open>The overlapped verdict counts only for the commit that is judged now.\<close>

definition trusted :: "('w, string) act \<Rightarrow> (string \<times> results option) option \<Rightarrow> ('w pipeline, results option) act" where
  "trusted head polled =
     (case polled of
        Some (sha, Some r) \<Rightarrow> act_bind (with_engine (on_world head)) (\<lambda>h. ret (if sha = h then Some r else None))
      | _ \<Rightarrow> ret None)"

definition evaluate_gates_for_tick :: "'w gate_io \<Rightarrow> 'w executor \<Rightarrow> ('w, string) act \<Rightarrow> ('w pipeline, results) act" where
  "evaluate_gates_for_tick io ex head p =
     (case active_runner p of
        None \<Rightarrow> with_engine (evaluate_hard_gates io None) p
      | Some rn \<Rightarrow>
          act_bind (with_engine (\<lambda>e. evaluate_hard_gates io (Some (cheap_ids (en_goals e))) e)) (\<lambda>cheap.
          act_bind (with_runner rn (poll_latest ex)) (\<lambda>polled.
          act_bind (trusted head polled) (\<lambda>overlap.
          act_bind (case overlap of
              Some r \<Rightarrow> ret r
            | None \<Rightarrow> with_engine (\<lambda>e. evaluate_hard_gates io (Some (expensive_ids (en_goals e))) e)) (\<lambda>expensive.
          ret (dict_update expensive cheap))))) p)"

definition submit_gate_eval :: "'w executor \<Rightarrow> string \<Rightarrow> ('w pipeline, unit) act" where
  "submit_gate_eval ex sha p =
     (case active_runner p of
        None \<Rightarrow> (Inr (), p)
      | Some rn \<Rightarrow> if sha = [] then (Inr (), p) else with_runner rn (submit ex sha) p)"

text \<open>\<open>Some\<close> when the expensive gates were judged again and are to be recorded.\<close>

definition terminal_fresh_recheck :: "'w gate_io \<Rightarrow> results \<Rightarrow> ('w pipeline, results option) act" where
  "terminal_fresh_recheck io results p =
     (case active_runner p of
        None \<Rightarrow> (Inr None, p)
      | Some _ \<Rightarrow>
          act_bind (with_engine (\<lambda>e. evaluate_hard_gates io (Some (expensive_ids (en_goals e))) e)) (\<lambda>fresh.
          ret (Some (dict_update results fresh))) p)"

section \<open>Reloading the goals\<close>

text \<open>
  \<open>loaded\<close> is what \<open>load_goals\<close> makes of the file. A failure while the goals are published puts
  every reference back; the answer is whether the reload succeeded.
\<close>

definition reload_driver_goals :: "'w executor \<Rightarrow> (goal list) res \<Rightarrow> ('w pipeline, bool) act" where
  "reload_driver_goals ex loaded p =
     (case loaded of
        Inl _ \<Rightarrow> (Inr False, p)
      | Inr fresh \<Rightarrow>
          (let p1 = p\<lparr>pl_engine := (pl_engine p)\<lparr>en_goals := fresh, en_cache := []\<rparr>\<rparr> in
           case pl_runner p of
             None \<Rightarrow> (Inr True, p1)
           | Some rn \<Rightarrow>
               (case with_runner (rn\<lparr>rn_goals := fresh, rn_expensive := expensive_ids fresh\<rparr>) (invalidate_in_flight ex) p1 of
                  (Inr _, p2) \<Rightarrow> (Inr True, p2)
                | (Inl _, p2) \<Rightarrow> (Inr False, p\<lparr>pl_engine := (pl_engine p)\<lparr>en_world := en_world (pl_engine p2)\<rparr>\<rparr>))))"

section \<open>What is in flight\<close>

text \<open>
  A future is kept under the commit it evaluates, and one that is not stale evaluates the goals the runner has
  now: whatever \<open>poll_latest\<close> hands out can be taken for the commit it names, under the current goals.
\<close>

definition future_ok :: "gate_runner \<Rightarrow> string \<Rightarrow> future \<Rightarrow> bool" where
  "future_ok rn sha f \<longleftrightarrow> fu_sha f = sha \<and> (\<exists>g. map_of (rn_gen_for rn) sha = Some g \<and> (g = rn_generation rn \<longrightarrow> fu_goals f = rn_goals rn))"

definition runner_ok :: "gate_runner \<Rightarrow> bool" where
  "runner_ok rn \<longleftrightarrow> (\<forall>sha f. map_of (rn_futures rn) sha = Some f \<longrightarrow> future_ok rn sha f)"

definition pipe_ok :: "'w pipeline \<Rightarrow> bool" where
  "pipe_ok p \<longleftrightarrow> distinct (map go_id (en_goals (pl_engine p))) \<and>
     (\<forall>rn. pl_runner p = Some rn \<longrightarrow> runner_ok rn \<and> rn_goals rn = en_goals (pl_engine p) \<and> rn_expensive rn = expensive_ids (en_goals (pl_engine p)))"

text \<open>Whatever is only dropped leaves the rest sound.\<close>

definition fewer :: "gate_runner \<Rightarrow> gate_runner \<Rightarrow> bool" where
  "fewer rn rn' \<longleftrightarrow> rn_goals rn' = rn_goals rn \<and> rn_expensive rn' = rn_expensive rn \<and> rn_generation rn' = rn_generation rn \<and>
     (\<forall>sha f. map_of (rn_futures rn') sha = Some f \<longrightarrow>
        map_of (rn_futures rn) sha = Some f \<and> map_of (rn_gen_for rn') sha = map_of (rn_gen_for rn) sha)"

lemma fewer_refl [simp]: "fewer rn rn"
  by (simp add: fewer_def)

lemma fewer_trans: "fewer a b \<Longrightarrow> fewer b c \<Longrightarrow> fewer a c"
  by (simp add: fewer_def)

lemma fewer_ok:
  assumes "fewer rn rn'" and "runner_ok rn"
  shows "runner_ok rn'"
  unfolding runner_ok_def
proof (intro allI impI)
  fix sha f assume "map_of (rn_futures rn') sha = Some f"
  with assms(1) have f: "map_of (rn_futures rn) sha = Some f" "map_of (rn_gen_for rn') sha = map_of (rn_gen_for rn) sha"
    and rn: "rn_goals rn' = rn_goals rn" "rn_generation rn' = rn_generation rn" by (simp_all add: fewer_def)
  from assms(2) f(1) have "future_ok rn sha f" by (simp add: runner_ok_def)
  with f(2) rn show "future_ok rn' sha f" by (simp add: future_ok_def)
qed

lemma fewer_forget: "fewer rn (forget sha rn)"
  by (simp add: fewer_def forget_def)

lemma fewer_order [simp]: "fewer rn (rn'\<lparr>rn_order := xs\<rparr>) = fewer rn rn'"
  by (simp add: fewer_def)

lemma fewer_fold_forget: "fewer rn (fold forget shas rn)"
  by (induction shas arbitrary: rn) (auto intro: fewer_trans fewer_forget)

lemma fewer_drop_entry: "fewer rn (drop_entry i rn)"
  by (simp add: drop_entry_def fewer_forget)

lemma fewer_prune: "fewer rn (prune i rn)"
  by (simp add: prune_def fewer_fold_forget)

lemma in_world_iff: "in_world m p = (r, p') \<longleftrightarrow> (\<exists>w. m (snd p) = (r, w) \<and> p' = (fst p, w))"
  by (cases p) (auto simp: in_world_def split: prod.splits)

lemma change_iff: "change f p = (r, p') \<longleftrightarrow> r = Inr () \<and> p' = (f (fst p), snd p)"
  by (cases p) (auto simp: change_def)

text \<open>
  What the executor and git may do to the world: nothing that matters to a gate. \<open>clean_at c\<close> is the key of the clean tree of
  commit \<open>c\<close>; a future that succeeds gives for the expensive goals it was submitted with their verdicts on that tree.
\<close>

definition honest :: "'w executor \<Rightarrow> ('w, string) act \<Rightarrow> (goal \<Rightarrow> 'w \<Rightarrow> bool) \<Rightarrow> ('w \<Rightarrow> string option) \<Rightarrow> (string \<Rightarrow> string) \<Rightarrow> bool" where
  "honest ex head v key clean_at \<longleftrightarrow>
     (\<forall>f w r w'. ex_submit ex f w = (r, w') \<longrightarrow> same_view v key w w') \<and>
     (\<forall>f w r w'. ex_cancel ex f w = (r, w') \<longrightarrow> same_view v key w w') \<and>
     (\<forall>f w r w'. ex_done ex f w = (r, w') \<longrightarrow> same_view v key w w') \<and>
     (\<forall>f w r w'. ex_result ex f w = (r, w') \<longrightarrow> same_view v key w w' \<and>
        (\<forall>res. r = Inr (Some res) \<longrightarrow> (\<forall>u g. key u = Some (clean_at (fu_sha f)) \<and> g \<in> set (fu_goals f) \<and> go_hard g \<and> go_expensive g \<longrightarrow>
           (\<exists>x. map_of res (go_id g) = Some x \<and> is_pass x = v g u)))) \<and>
     (\<forall>w r w'. head w = (r, w') \<longrightarrow> same_view v key w w' \<and> (\<forall>h c. r = Inr h \<and> key w = Some (clean_at c) \<longrightarrow> h = c))"

text \<open>What polling hands out.\<close>

definition verdicts_of :: "(goal \<Rightarrow> 'w \<Rightarrow> bool) \<Rightarrow> ('w \<Rightarrow> string option) \<Rightarrow> (string \<Rightarrow> string) \<Rightarrow> goal list \<Rightarrow> string \<Rightarrow> results \<Rightarrow> bool" where
  "verdicts_of v key clean_at goals sha res \<longleftrightarrow> (\<forall>u g. key u = Some (clean_at sha) \<and> g \<in> set goals \<and> go_hard g \<and> go_expensive g \<longrightarrow>
     (\<exists>x. map_of res (go_id g) = Some x \<and> is_pass x = v g u))"

lemma honest_result:
  assumes "honest ex head v key clean_at" and "ex_result ex f w = (r, w')"
  shows "same_view v key w w'" and "r = Inr (Some res) \<Longrightarrow> verdicts_of v key clean_at (fu_goals f) (fu_sha f) res"
proof -
  from assms(1) have "\<forall>f w r w'. ex_result ex f w = (r, w') \<longrightarrow> same_view v key w w' \<and>
    (\<forall>res. r = Inr (Some res) \<longrightarrow> verdicts_of v key clean_at (fu_goals f) (fu_sha f) res)"
    unfolding honest_def verdicts_of_def by (elim conjE)
  from this [rule_format, OF assms(2)]
  show "same_view v key w w'" and "r = Inr (Some res) \<Longrightarrow> verdicts_of v key clean_at (fu_goals f) (fu_sha f) res" by simp_all
qed

lemma honest_view:
  assumes "honest ex head v key clean_at"
  shows "ex_submit ex f w = (r, w') \<Longrightarrow> same_view v key w w'" and "ex_cancel ex f w = (r, w') \<Longrightarrow> same_view v key w w'"
    and "ex_done ex f w = (b, w') \<Longrightarrow> same_view v key w w'" and "head w = (h, w') \<Longrightarrow> same_view v key w w'"
  using assms unfolding honest_def by simp_all

lemma honest_head: "honest ex head v key clean_at \<Longrightarrow> head w = (Inr h, w') \<Longrightarrow> key w = Some (clean_at c) \<Longrightarrow> h = c"
  unfolding honest_def by simp

lemma poll_from_facts:
  assumes hon: "honest ex head v key clean_at"
  shows "poll_from ex i p = (Inr polled, p') \<Longrightarrow> runner_ok (fst p) \<Longrightarrow>
     fewer (fst p) (fst p') \<and> same_view v key (snd p) (snd p') \<and>
     (\<forall>sha res. polled = Some (sha, Some res) \<longrightarrow> verdicts_of v key clean_at (rn_goals (fst p)) sha res)"
proof (induction i arbitrary: p)
  case (Suc i)
  obtain rn w where p: "p = (rn, w)" by (cases p)
  let ?sha = "rn_order rn ! i"
  show ?case
  proof (cases "map_of (rn_futures rn) ?sha")
    case None
    with Suc.IH [of p] Suc.prems p show ?thesis by simp
  next
    case (Some f)
    with Suc.prems(2) p have f: "future_ok rn ?sha f" by (simp add: runner_ok_def)
    show ?thesis
    proof (cases "stale rn ?sha")
      case True
      with Suc.prems(1) Some p have "poll_from ex i (drop_entry i rn, w) = (Inr polled, p')" by simp
      from Suc.IH [OF this] Suc.prems(2) p have "fewer (drop_entry i rn) (fst p') \<and> same_view v key w (snd p') \<and>
        (\<forall>sha res. polled = Some (sha, Some res) \<longrightarrow> verdicts_of v key clean_at (rn_goals (drop_entry i rn)) sha res)"
        using fewer_ok [OF fewer_drop_entry] by simp
      moreover have "rn_goals (drop_entry i rn) = rn_goals rn" using fewer_drop_entry [of rn i] by (simp add: fewer_def)
      ultimately show ?thesis using p fewer_trans [OF fewer_drop_entry, of i rn "fst p'"] by simp
    next
      case False
      with Suc.prems(1) Some p obtain finished w1 where d: "ex_done ex f w = (Inr finished, w1)"
        and rest: "(if \<not> finished then poll_from ex i else
            act_bind (in_world (ex_result ex f)) (\<lambda>r. act_bind (change (prune i)) (\<lambda>_. ret (Some (?sha, r))))) (rn, w1) = (Inr polled, p')"
        by (auto simp: act_bind_Inr in_world_iff)
      note w1 = honest_view(3) [OF hon d]
      show ?thesis
      proof (cases finished)
        case False
        with rest have "poll_from ex i (rn, w1) = (Inr polled, p')" by simp
        from Suc.IH [OF this] Suc.prems(2) p w1 show ?thesis by (auto intro: same_view_trans)
      next
        case True
        with rest obtain r w2 where r: "ex_result ex f w1 = (Inr r, w2)" "polled = Some (?sha, r)" "p' = (prune i rn, w2)"
          by (auto simp: act_bind_Inr in_world_iff change_iff)
        note res = honest_result [OF hon r(1)]
        from f \<open>\<not> stale rn ?sha\<close> have "fu_sha f = ?sha" "fu_goals f = rn_goals rn" by (auto simp: future_ok_def stale_def)
        then show ?thesis using res r w1 p fewer_prune [of rn i] by (auto intro: same_view_trans)
      qed
    qed
  qed
qed simp

lemma submit_ok:
  assumes "honest ex head v key clean_at" and "submit ex sha p = (Inr u, p')" and "runner_ok (fst p)"
  shows "runner_ok (fst p') \<and> rn_goals (fst p') = rn_goals (fst p) \<and> rn_expensive (fst p') = rn_expensive (fst p) \<and> same_view v key (snd p) (snd p')"
proof (cases "rn_expensive (fst p) = [] \<or> map_of (rn_futures (fst p)) sha \<noteq> None")
  case True
  with assms(2,3) show ?thesis by (cases p) (auto simp: submit_def)
next
  case False
  obtain rn w where p: "p = (rn, w)" by (cases p)
  let ?f = "\<lparr>fu_sha = sha, fu_goals = rn_goals rn\<rparr>"
  from False assms(2) p obtain w1 where w1: "ex_submit ex ?f w = (Inr (), w1)"
    and p': "p' = (rn\<lparr>rn_futures := dict_set (rn_futures rn) sha ?f, rn_order := rn_order rn @ [sha],
       rn_gen_for := dict_set (rn_gen_for rn) sha (rn_generation rn)\<rparr>, w1)"
    by (auto simp: submit_def Let_def act_bind_Inr in_world_iff change_iff)
  have "runner_ok (fst p')" using assms(3) p by (auto simp: p' runner_ok_def future_ok_def)
  with p' p honest_view(1) [OF assms(1) w1] show ?thesis by simp
qed

lemma invalidate_ok:
  assumes "invalidate_in_flight ex p = (Inr u, p')"
  shows "rn_futures (fst p') = [] \<and> rn_goals (fst p') = rn_goals (fst p) \<and> rn_expensive (fst p') = rn_expensive (fst p)"
  using assms by (cases p) (auto simp: invalidate_in_flight_def act_bind_Inr in_world_iff change_iff)

text \<open>A pipeline whose memory and whose futures are sound.\<close>

definition pipe_sound :: "(goal \<Rightarrow> 'w \<Rightarrow> bool) \<Rightarrow> ('w \<Rightarrow> string option) \<Rightarrow> 'w pipeline \<Rightarrow> bool" where
  "pipe_sound v key p \<longleftrightarrow> pipe_ok p \<and> cache_sound v key (pl_engine p)"

definition view_of :: "'w pipeline \<Rightarrow> 'w" where
  "view_of p = en_world (pl_engine p)"

lemma with_engine_Inr: "with_engine m p = (r, p') \<longleftrightarrow> (\<exists>e. m (pl_engine p) = (r, e) \<and> p' = p\<lparr>pl_engine := e\<rparr>)"
  by (auto simp: with_engine_def split: prod.splits)

lemma with_runner_iff: "with_runner rn m p = (r, p') \<longleftrightarrow>
    (\<exists>rn' w. m (rn, en_world (pl_engine p)) = (r, (rn', w)) \<and> p' = p\<lparr>pl_runner := Some rn', pl_engine := (pl_engine p)\<lparr>en_world := w\<rparr>\<rparr>)"
  by (auto simp: with_runner_def split: prod.splits)

lemma unchosen_id:
  assumes "distinct (map go_id goals)" and "g \<in> set goals" and "\<not> P g"
  shows "go_id g \<notin> go_id ` {h \<in> set goals. P h}"
  using inj_on_image_mem_iff [of go_id "set goals" g "{h \<in> set goals. P h}"] assms by (auto simp: distinct_map)

lemma evaluation_keeps:
  assumes "pure_gates io v key" and "pipe_sound v key p" and "with_engine (evaluate_hard_gates io ids) p = (Inr res, p')"
  shows "pipe_sound v key p'" and "same_view v key (view_of p) (view_of p')" and "en_goals (pl_engine p') = en_goals (pl_engine p)"
    and "\<forall>g \<in> set (en_goals (pl_engine p)). chosen ids g \<longrightarrow> (\<exists>r. map_of res (go_id g) = Some r \<and> is_pass r = v g (view_of p))"
    and "\<And>g. \<lbrakk>g \<in> set (en_goals (pl_engine p)); \<not> chosen ids g\<rbrakk> \<Longrightarrow> map_of res (go_id g) = None"
    and "en_last (pl_engine p') = (if ids = None then res else dict_update (en_last (pl_engine p)) res)"
    and "pl_runner p' = pl_runner p" and "pl_on p' = pl_on p" and "distinct (map fst res)"
proof -
  from assms(3) obtain e where e: "evaluate_hard_gates io ids (pl_engine p) = (Inr res, e)" "p' = p\<lparr>pl_engine := e\<rparr>" by (auto simp: with_engine_Inr)
  from assms(2) have c: "cache_sound v key (pl_engine p)" "distinct (map go_id (en_goals (pl_engine p)))" by (simp_all add: pipe_sound_def pipe_ok_def)
  note x = evaluation_facts [OF assms(1) c e(1)]
  show "pipe_sound v key p'" using assms(2) x(3,4) e(2) by (simp add: pipe_sound_def pipe_ok_def)
  show "same_view v key (view_of p) (view_of p')" using x(3) e(2) by (simp add: view_of_def)
  show "en_goals (pl_engine p') = en_goals (pl_engine p)" "en_last (pl_engine p') = (if ids = None then res else dict_update (en_last (pl_engine p)) res)"
    using x(4) e(2) by simp_all
  show "\<forall>g \<in> set (en_goals (pl_engine p)). chosen ids g \<longrightarrow> (\<exists>r. map_of res (go_id g) = Some r \<and> is_pass r = v g (view_of p))"
    using x(1) by (simp add: view_of_def)
  show "map_of res (go_id g) = None" if "g \<in> set (en_goals (pl_engine p))" "\<not> chosen ids g" for g
    using x(2) unchosen_id [where P = "chosen ids", OF c(2) that] by simp
  show "pl_runner p' = pl_runner p" "pl_on p' = pl_on p" "distinct (map fst res)" using e results_distinct [OF e(1)] by simp_all
qed

lemma chosen_expensive:
  assumes "distinct (map go_id goals)" and "g \<in> set goals"
  shows "chosen (Some (expensive_ids goals)) g \<longleftrightarrow> go_hard g \<and> go_expensive g" and "chosen (Some (cheap_ids goals)) g \<longleftrightarrow> go_hard g \<and> \<not> go_expensive g"
proof -
  have mem: "go_id g \<in> go_id ` {h \<in> set goals. P h} \<longleftrightarrow> P g" for P
    using inj_on_image_mem_iff [of go_id "set goals" g "{h \<in> set goals. P h}"] assms by (auto simp: distinct_map)
  show "chosen (Some (expensive_ids goals)) g \<longleftrightarrow> go_hard g \<and> go_expensive g" "chosen (Some (cheap_ids goals)) g \<longleftrightarrow> go_hard g \<and> \<not> go_expensive g"
    using mem [of "\<lambda>h. go_hard h \<and> go_expensive h"] mem [of "\<lambda>h. go_hard h \<and> \<not> go_expensive h"]
    by (simp_all add: chosen_def expensive_ids_def cheap_ids_def)
qed

text \<open>\<open>poll_latest\<close> inside a pipeline.\<close>

lemma polling_keeps:
  assumes "honest ex head v key clean_at" and "pipe_sound v key p" and "pl_runner p = Some rn" and "with_runner rn (poll_latest ex) p = (Inr polled, p')"
  shows "pipe_sound v key p'" and "same_view v key (view_of p) (view_of p')" and "en_goals (pl_engine p') = en_goals (pl_engine p)"
    and "polled = Some (sha, Some res) \<Longrightarrow> verdicts_of v key clean_at (en_goals (pl_engine p)) sha res"
    and "en_last (pl_engine p') = en_last (pl_engine p)" and "pl_on p' = pl_on p" and "pl_runner p' \<noteq> None"
proof -
  from assms(4) obtain rn' w where r: "poll_latest ex (rn, view_of p) = (Inr polled, (rn', w))"
    and p': "p' = p\<lparr>pl_runner := Some rn', pl_engine := (pl_engine p)\<lparr>en_world := w\<rparr>\<rparr>" by (auto simp: with_runner_iff view_of_def)
  from assms(2,3) have rn: "runner_ok rn" "rn_goals rn = en_goals (pl_engine p)" by (simp_all add: pipe_sound_def pipe_ok_def)
  note f = poll_from_facts [OF assms(1) r [unfolded poll_latest_def]]
  from f rn(1) have x: "fewer rn rn'" "same_view v key (view_of p) w" by simp_all
  show "pipe_sound v key p'" using assms(2,3) x(1) fewer_ok [OF x(1) rn(1)] by (simp add: p' pipe_sound_def pipe_ok_def fewer_def)
  show "same_view v key (view_of p) (view_of p')" using x(2) by (simp add: p' view_of_def)
  show "en_goals (pl_engine p') = en_goals (pl_engine p)" "en_last (pl_engine p') = en_last (pl_engine p)" "pl_on p' = pl_on p" "pl_runner p' \<noteq> None" by (simp_all add: p')
  assume "polled = Some (sha, Some res)"
  with f rn show "verdicts_of v key clean_at (en_goals (pl_engine p)) sha res" by simp
qed

text \<open>Trusting a verdict.\<close>

lemma trusting_keeps:
  assumes "honest ex head v key clean_at" and "pipe_sound v key p" and "trusted head polled p = (Inr overlap, p')"
  shows "pipe_sound v key p'" and "same_view v key (view_of p) (view_of p')" and "en_goals (pl_engine p') = en_goals (pl_engine p)"
    and "en_last (pl_engine p') = en_last (pl_engine p)" and "pl_on p' = pl_on p" and "pl_runner p' = pl_runner p"
    and "overlap = Some res \<Longrightarrow> \<exists>sha. polled = Some (sha, Some res) \<and> (\<forall>c. key (view_of p) = Some (clean_at c) \<longrightarrow> sha = c)"
proof -
  consider "overlap = None" "p' = p" | sha r h w where "polled = Some (sha, Some r)" "head (view_of p) = (Inr h, w)"
    "p' = p\<lparr>pl_engine := (pl_engine p)\<lparr>en_world := w\<rparr>\<rparr>" "overlap = (if sha = h then Some r else None)"
    using assms(3) by (auto simp: trusted_def act_bind_Inr with_engine_Inr on_world_iff view_of_def split: option.splits)
  then have "pipe_sound v key p' \<and> same_view v key (view_of p) (view_of p') \<and> en_goals (pl_engine p') = en_goals (pl_engine p) \<and>
    en_last (pl_engine p') = en_last (pl_engine p) \<and> pl_on p' = pl_on p \<and> pl_runner p' = pl_runner p \<and>
    (\<forall>res. overlap = Some res \<longrightarrow> (\<exists>sha. polled = Some (sha, Some res) \<and> (\<forall>c. key (view_of p) = Some (clean_at c) \<longrightarrow> sha = c)))"
  proof cases
    case 1
    with assms(2) show ?thesis by simp
  next
    case 2
    note v = honest_view(4) [OF assms(1) 2(2)]
    have "sha = c" if "sha = h" "key (view_of p) = Some (clean_at c)" for c using honest_head [OF assms(1) 2(2) that(2)] that(1) by simp
    with 2(1,3,4) v assms(2) show ?thesis by (simp add: pipe_sound_def pipe_ok_def view_of_def)
  qed
  then show "pipe_sound v key p'" and "same_view v key (view_of p) (view_of p')" and "en_goals (pl_engine p') = en_goals (pl_engine p)"
    and "en_last (pl_engine p') = en_last (pl_engine p)" and "pl_on p' = pl_on p" and "pl_runner p' = pl_runner p"
    and "overlap = Some res \<Longrightarrow> \<exists>sha. polled = Some (sha, Some res) \<and> (\<forall>c. key (view_of p) = Some (clean_at c) \<longrightarrow> sha = c)" by simp_all
qed

section \<open>A tick\<close>

text \<open>The steps of a tick with the pipeline on.\<close>

lemma tick_steps:
  assumes "active_runner p = Some rn" and "evaluate_gates_for_tick io ex head p = (Inr results, p')"
  obtains cheap p1 polled p2 overlap p3 expensive where
    "with_engine (evaluate_hard_gates io (Some (cheap_ids (en_goals (pl_engine p))))) p = (Inr cheap, p1)"
    "with_runner rn (poll_latest ex) p1 = (Inr polled, p2)" "trusted head polled p2 = (Inr overlap, p3)"
    "(case overlap of Some r \<Rightarrow> (Inr r, p3)
      | None \<Rightarrow> with_engine (evaluate_hard_gates io (Some (expensive_ids (en_goals (pl_engine p3))))) p3) = (Inr expensive, p')"
    "results = dict_update expensive cheap"
proof -
  from assms obtain cheap p1 polled p2 overlap p3 expensive where
    1: "with_engine (\<lambda>e. evaluate_hard_gates io (Some (cheap_ids (en_goals e))) e) p = (Inr cheap, p1)"
    and 2: "with_runner rn (poll_latest ex) p1 = (Inr polled, p2)" and 3: "trusted head polled p2 = (Inr overlap, p3)"
    and 4: "(case overlap of Some r \<Rightarrow> ret r
      | None \<Rightarrow> with_engine (\<lambda>e. evaluate_hard_gates io (Some (expensive_ids (en_goals e))) e)) p3 = (Inr expensive, p')"
    and 5: "results = dict_update expensive cheap"
    by (auto simp: evaluate_gates_for_tick_def act_bind_Inr)
  from 4 have "(case overlap of Some r \<Rightarrow> (Inr r, p3)
      | None \<Rightarrow> with_engine (evaluate_hard_gates io (Some (expensive_ids (en_goals (pl_engine p3))))) p3) = (Inr expensive, p')"
    by (cases overlap) (auto simp: with_engine_def)
  moreover from 1 have "with_engine (evaluate_hard_gates io (Some (cheap_ids (en_goals (pl_engine p))))) p = (Inr cheap, p1)"
    by (simp add: with_engine_def)
  ultimately show thesis using that 2 3 5 by blast
qed

lemma active_runner_cases: "active_runner p = Some rn \<Longrightarrow> pl_on p \<and> pl_runner p = Some rn"
  by (simp add: active_runner_def split: if_splits)

lemma map_of_dict_update_distinct:
  "distinct (map fst e) \<Longrightarrow> map_of (dict_update d e) k = (case map_of e k of None \<Rightarrow> map_of d k | Some x \<Rightarrow> Some x)"
proof -
  assume d: "distinct (map fst e)"
  then have "distinct (map fst (rev e))" by (simp add: rev_map [symmetric])
  with d have "map_of (rev e) = map_of e" by (simp add: map_of_inject_set)
  then show ?thesis by (simp add: map_of_dict_update)
qed

lemma tick_off:
  assumes "pure_gates io v key" and "pipe_sound v key p" and "active_runner p = None" and "evaluate_gates_for_tick io ex head p = (Inr results, p')"
  shows "pipe_sound v key p' \<and> same_view v key (view_of p) (view_of p') \<and> en_goals (pl_engine p') = en_goals (pl_engine p) \<and> active_runner p' = None \<and>
    (\<forall>g \<in> set (en_goals (pl_engine p)). go_hard g \<longrightarrow> (\<exists>r. map_of results (go_id g) = Some r \<and> is_pass r = v g (view_of p)))"
proof -
  have "with_engine (evaluate_hard_gates io None) p = (Inr results, p')" using assms(3,4) by (simp add: evaluate_gates_for_tick_def)
  note k = evaluation_keeps [OF assms(1,2) this]
  from k(1-4,7,8) assms(3) show ?thesis by (cases "pl_on p") (simp_all add: chosen_def active_runner_def)
qed

text \<open>The expensive verdict of a tick, trusted or judged now, in terms of the view at the start of the tick.\<close>

lemma expensive_step:
  assumes "pure_gates io v key" and "pipe_sound v key p" and "same_view v key w (view_of p)" and "active_runner p \<noteq> None"
    and "(case overlap of Some r \<Rightarrow> (Inr r, p)
      | None \<Rightarrow> with_engine (evaluate_hard_gates io (Some (expensive_ids (en_goals (pl_engine p))))) p) = (Inr expensive, p')"
    and "\<And>r g. \<lbrakk>overlap = Some r; C; g \<in> set (en_goals (pl_engine p)); go_hard g; go_expensive g\<rbrakk> \<Longrightarrow> \<exists>x. map_of r (go_id g) = Some x \<and> is_pass x = v g w"
  shows "pipe_sound v key p' \<and> same_view v key w (view_of p') \<and> en_goals (pl_engine p') = en_goals (pl_engine p) \<and> active_runner p' \<noteq> None"
    and "\<And>g. \<lbrakk>C; g \<in> set (en_goals (pl_engine p)); go_hard g; go_expensive g\<rbrakk> \<Longrightarrow> \<exists>x. map_of expensive (go_id g) = Some x \<and> is_pass x = v g w"
    and "\<And>g. \<lbrakk>g \<in> set (en_goals (pl_engine p)); \<not> go_expensive g\<rbrakk> \<Longrightarrow> map_of (en_last (pl_engine p')) (go_id g) = map_of (en_last (pl_engine p)) (go_id g)"
proof -
  let ?gs = "en_goals (pl_engine p)"
  have d: "distinct (map go_id ?gs)" using assms(2) by (simp add: pipe_sound_def pipe_ok_def)
  have "pipe_sound v key p' \<and> same_view v key w (view_of p') \<and> en_goals (pl_engine p') = ?gs \<and> active_runner p' \<noteq> None \<and>
    (\<forall>g \<in> set ?gs. C \<and> go_hard g \<and> go_expensive g \<longrightarrow> (\<exists>x. map_of expensive (go_id g) = Some x \<and> is_pass x = v g w)) \<and>
    (\<forall>g \<in> set ?gs. \<not> go_expensive g \<longrightarrow> map_of (en_last (pl_engine p')) (go_id g) = map_of (en_last (pl_engine p)) (go_id g))"
  proof (cases overlap)
    case (Some r)
    with assms(2-6) show ?thesis by auto
  next
    case None
    with assms(5) have 5: "with_engine (evaluate_hard_gates io (Some (expensive_ids ?gs))) p = (Inr expensive, p')" by simp
    note x = evaluation_keeps [OF assms(1,2) 5]
    have "\<exists>x. map_of expensive (go_id g) = Some x \<and> is_pass x = v g w" if "g \<in> set ?gs" "go_hard g" "go_expensive g" for g
      using x(4) that chosen_expensive(1) [OF d that(1)] assms(3) by (simp add: same_view_def)
    moreover have "map_of (en_last (pl_engine p')) (go_id g) = map_of (en_last (pl_engine p)) (go_id g)" if "g \<in> set ?gs" "\<not> go_expensive g" for g
      using x(5) [OF that(1)] chosen_expensive(1) [OF d that(1)] that(2) x(6) map_of_dict_update_distinct [OF x(9)] by simp
    ultimately show ?thesis using x(1-3,7,8) same_view_trans [OF assms(3) x(2)] assms(4)
      by (cases "pl_on p") (simp_all add: active_runner_def)
  qed
  then show "pipe_sound v key p' \<and> same_view v key w (view_of p') \<and> en_goals (pl_engine p') = ?gs \<and> active_runner p' \<noteq> None"
    and "\<And>g. \<lbrakk>C; g \<in> set ?gs; go_hard g; go_expensive g\<rbrakk> \<Longrightarrow> \<exists>x. map_of expensive (go_id g) = Some x \<and> is_pass x = v g w"
    and "\<And>g. \<lbrakk>g \<in> set ?gs; \<not> go_expensive g\<rbrakk> \<Longrightarrow> map_of (en_last (pl_engine p')) (go_id g) = map_of (en_last (pl_engine p)) (go_id g)"
    by simp_all
qed

text \<open>What a tick with the pipeline on comes to, whatever the tree.\<close>

lemma tick_on:
  assumes "pure_gates io v key" and "honest ex head v key clean_at" and "pipe_sound v key p" and "active_runner p = Some rn"
    and "evaluate_gates_for_tick io ex head p = (Inr results, p')"
  shows "pipe_sound v key p' \<and> same_view v key (view_of p) (view_of p') \<and> en_goals (pl_engine p') = en_goals (pl_engine p) \<and> active_runner p' \<noteq> None"
    and "\<And>g. \<lbrakk>g \<in> set (en_goals (pl_engine p)); go_hard g; \<not> go_expensive g \<or> key (view_of p) = Some (clean_at c)\<rbrakk> \<Longrightarrow>
           \<exists>r. map_of results (go_id g) = Some r \<and> is_pass r = v g (view_of p)"
    and "\<And>g. \<lbrakk>g \<in> set (en_goals (pl_engine p)); go_hard g; \<not> go_expensive g\<rbrakk> \<Longrightarrow>
           \<exists>r. map_of (en_last (pl_engine p')) (go_id g) = Some r \<and> is_pass r = v g (view_of p)"
proof -
  let ?gs = "en_goals (pl_engine p)"
  note on = active_runner_cases [OF assms(4)]
  have d: "distinct (map go_id ?gs)" using assms(3) by (simp add: pipe_sound_def pipe_ok_def)
  obtain cheap p1 polled p2 overlap p3 expensive where
    1: "with_engine (evaluate_hard_gates io (Some (cheap_ids ?gs))) p = (Inr cheap, p1)"
    and 2: "with_runner rn (poll_latest ex) p1 = (Inr polled, p2)" and 3: "trusted head polled p2 = (Inr overlap, p3)"
    and 4: "(case overlap of Some r \<Rightarrow> (Inr r, p3)
      | None \<Rightarrow> with_engine (evaluate_hard_gates io (Some (expensive_ids (en_goals (pl_engine p3))))) p3) = (Inr expensive, p')"
    and res: "results = dict_update expensive cheap" by (rule tick_steps [OF assms(4,5)])
  note a = evaluation_keeps [OF assms(1,3) 1]
  from a(7) on have "pl_runner p1 = Some rn" by simp
  note b = polling_keeps [OF assms(2) a(1) this 2]
  note t = trusting_keeps [OF assms(2) b(1) 3]
  have goals: "en_goals (pl_engine p3) = ?gs" using a(3) b(3) t(3) by simp
  have view: "same_view v key (view_of p) (view_of p3)" using a(2) b(2) t(2) by (blast intro: same_view_trans)
  have "active_runner p3 \<noteq> None" using a(8) b(6,7) t(5,6) on by (simp add: active_runner_def)
  note s = expensive_step [OF assms(1) t(1) view this 4, where C = "key (view_of p) = Some (clean_at c)", unfolded goals]
  have trust: "\<exists>x. map_of r (go_id g) = Some x \<and> is_pass x = v g (view_of p)"
    if "overlap = Some r" "key (view_of p) = Some (clean_at c)" "g \<in> set ?gs" "go_hard g" "go_expensive g" for r g
  proof -
    have k: "key (view_of p2) = key (view_of p)" using a(2) b(2) by (simp add: same_view_def)
    from t(7) [OF that(1)] k that(2) have "polled = Some (c, Some r)" by auto
    from b(4) [OF this] a(3) that(2-5) show ?thesis by (simp add: verdicts_of_def)
  qed
  show "pipe_sound v key p' \<and> same_view v key (view_of p) (view_of p') \<and> en_goals (pl_engine p') = ?gs \<and> active_runner p' \<noteq> None"
    by (rule s(1) [OF trust])
  note cheap = a(4) [rule_format] and chosen = chosen_expensive(2) [OF d] and m = map_of_dict_update_distinct [OF a(9)]
  show "\<exists>r. map_of results (go_id g) = Some r \<and> is_pass r = v g (view_of p)"
    if "g \<in> set ?gs" "go_hard g" "\<not> go_expensive g \<or> key (view_of p) = Some (clean_at c)" for g
    using s(2) [OF trust, of g] cheap [of g] a(5) [of g] chosen [of g] that by (cases "go_expensive g") (auto simp: res m)
  show "\<exists>r. map_of (en_last (pl_engine p')) (go_id g) = Some r \<and> is_pass r = v g (view_of p)"
    if "g \<in> set ?gs" "go_hard g" "\<not> go_expensive g" for g
    using s(3) [OF trust, of g] cheap [of g] chosen [of g] that a(6) b(5) t(4) by (auto simp: m)
qed

section \<open>A run\<close>

text \<open>What can happen to a pipeline, between the moment it is built and any later one. The peers do to the world what they like.\<close>

inductive pipe_reach :: "'w gate_io \<Rightarrow> 'w executor \<Rightarrow> ('w, string) act \<Rightarrow> 'w pipeline \<Rightarrow> bool"
  for io :: "'w gate_io" and ex :: "'w executor" and head :: "('w, string) act" where
  built: "distinct (map go_id goals) \<Longrightarrow>
    pipe_reach io ex head (init_gate_pipeline \<lparr>en_goals = goals, en_last = [], en_cache = [], en_world = w\<rparr> on)"
| ticked: "pipe_reach io ex head p \<Longrightarrow> evaluate_gates_for_tick io ex head p = (Inr results, p') \<Longrightarrow> pipe_reach io ex head p'"
| submitted: "pipe_reach io ex head p \<Longrightarrow> submit_gate_eval ex sha p = (Inr u, p') \<Longrightarrow> pipe_reach io ex head p'"
| rechecked: "pipe_reach io ex head p \<Longrightarrow> terminal_fresh_recheck io results p = (Inr fresh, p') \<Longrightarrow> pipe_reach io ex head p'"
| reloaded: "pipe_reach io ex head p \<Longrightarrow> (\<And>gs. loaded = Inr gs \<Longrightarrow> distinct (map go_id gs)) \<Longrightarrow>
    reload_driver_goals ex loaded p = (Inr ok, p') \<Longrightarrow> pipe_reach io ex head p'"
| worked: "pipe_reach io ex head p \<Longrightarrow> pipe_reach io ex head (p\<lparr>pl_engine := (pl_engine p)\<lparr>en_world := w\<rparr>\<rparr>)"

lemma new_gate_runner_ok: "runner_ok (new_gate_runner goals ids)"
  by (simp add: new_gate_runner_def runner_ok_def)

lemma submit_gate_eval_keeps:
  assumes "honest ex head v key clean_at" and "pipe_sound v key p" and "submit_gate_eval ex sha p = (Inr u, p')"
  shows "pipe_sound v key p'"
proof (cases "active_runner p = None \<or> sha = []")
  case True
  with assms(2,3) show ?thesis by (auto simp: submit_gate_eval_def split: option.splits)
next
  case False
  then obtain rn where "active_runner p = Some rn" by auto
  with active_runner_cases [OF this] have rn: "active_runner p = Some rn" "pl_runner p = Some rn" by simp_all
  with False assms(3) obtain rn' w where 1: "submit ex sha (rn, view_of p) = (Inr u, (rn', w))"
    and p': "p' = p\<lparr>pl_runner := Some rn', pl_engine := (pl_engine p)\<lparr>en_world := w\<rparr>\<rparr>"
    by (auto simp: submit_gate_eval_def with_runner_iff view_of_def)
  from assms(2) rn(2) have ok: "runner_ok rn" "rn_goals rn = en_goals (pl_engine p)" "rn_expensive rn = expensive_ids (en_goals (pl_engine p))"
    by (simp_all add: pipe_sound_def pipe_ok_def)
  from submit_ok [OF assms(1) 1] ok have "runner_ok rn' \<and> rn_goals rn' = rn_goals rn \<and> rn_expensive rn' = rn_expensive rn" by simp
  with assms(2) ok show ?thesis by (simp add: p' pipe_sound_def pipe_ok_def)
qed

lemma recheck_steps:
  assumes "terminal_fresh_recheck io results p = (Inr fresh, p')"
  obtains "active_runner p = None" "p' = p"
    | res where "active_runner p \<noteq> None" "with_engine (evaluate_hard_gates io (Some (expensive_ids (en_goals (pl_engine p))))) p = (Inr res, p')"
      "fresh = Some (dict_update results res)"
  using assms by (auto simp: terminal_fresh_recheck_def act_bind_Inr with_engine_def split: option.splits)

text \<open>A reload forgets every remembered verdict and everything in flight; one that fails changes nothing but the world.\<close>

lemma reload_keeps:
  assumes "pipe_sound v key p" and "\<And>gs. loaded = Inr gs \<Longrightarrow> distinct (map go_id gs)" and "reload_driver_goals ex loaded p = (Inr ok, p')"
  shows "pipe_sound v key p'"
proof (cases loaded)
  case (Inl e)
  with assms(1,3) show ?thesis by (simp add: reload_driver_goals_def)
next
  case (Inr fresh)
  note d = assms(2) [OF Inr]
  show ?thesis
  proof (cases "pl_runner p")
    case None
    with Inr assms(3) have "p' = p\<lparr>pl_engine := (pl_engine p)\<lparr>en_goals := fresh, en_cache := []\<rparr>\<rparr>" by (simp add: reload_driver_goals_def)
    with None d show ?thesis by (simp add: pipe_sound_def pipe_ok_def cache_sound_def)
  next
    case (Some rn)
    let ?p1 = "p\<lparr>pl_engine := (pl_engine p)\<lparr>en_goals := fresh, en_cache := []\<rparr>\<rparr>"
    let ?rn = "rn\<lparr>rn_goals := fresh, rn_expensive := expensive_ids fresh\<rparr>"
    obtain q p2 where q: "with_runner ?rn (invalidate_in_flight ex) ?p1 = (q, p2)" by (cases "with_runner ?rn (invalidate_in_flight ex) ?p1")
    show ?thesis
    proof (cases q)
      case (Inl e)
      with q Some \<open>loaded = Inr fresh\<close> assms(3) have "p' = p\<lparr>pl_engine := (pl_engine p)\<lparr>en_world := en_world (pl_engine p2)\<rparr>\<rparr>"
        by (simp add: reload_driver_goals_def Let_def)
      with assms(1) show ?thesis by (simp add: pipe_sound_def pipe_ok_def)
    next
      case (Inr u)
      with q Some \<open>loaded = Inr fresh\<close> assms(3) have "p' = p2" by (simp add: reload_driver_goals_def Let_def)
      moreover from q Inr obtain rn' w where 1: "invalidate_in_flight ex (?rn, view_of p) = (Inr u, (rn', w))"
        and "p2 = ?p1\<lparr>pl_runner := Some rn', pl_engine := (pl_engine ?p1)\<lparr>en_world := w\<rparr>\<rparr>" by (auto simp: with_runner_iff view_of_def)
      ultimately show ?thesis using invalidate_ok [OF 1] d by (simp add: pipe_sound_def pipe_ok_def cache_sound_def runner_ok_def)
    qed
  qed
qed

lemma reachable_sound:
  assumes "pure_gates io v key" and "honest ex head v key clean_at" and "pipe_reach io ex head p"
  shows "pipe_sound v key p"
  using assms(3)
proof (induction rule: pipe_reach.induct)
  case (built goals w on)
  then show ?case by (simp add: init_gate_pipeline_def pipe_sound_def pipe_ok_def cache_sound_def new_gate_runner_ok Let_def) (simp add: new_gate_runner_def)
next
  case (ticked p results p')
  show ?case
  proof (cases "active_runner p")
    case None
    with tick_off [OF assms(1) ticked.IH None ticked.hyps(2)] show ?thesis by simp
  next
    case (Some rn)
    from tick_on(1) [OF assms(1,2) ticked.IH Some ticked.hyps(2)] show ?thesis by simp
  qed
next
  case (submitted p sha u p')
  then show ?case using submit_gate_eval_keeps [OF assms(2)] by blast
next
  case (rechecked p results fresh p')
  from rechecked.hyps(2) show ?case
    by (rule recheck_steps) (use rechecked.IH evaluation_keeps(1) [OF assms(1) rechecked.IH] in simp_all)
next
  case (reloaded p loaded ok p')
  then show ?case using reload_keeps by blast
next
  case (worked p w)
  then show ?case by (simp add: pipe_sound_def pipe_ok_def)
qed

text \<open>
  C30: through any run of ticks, submissions, rechecks, reloads and work of the peers, the pipeline keeps its invariant: every
  remembered pass is the pass of its key, and every future in flight that would still be handed out evaluates
  the commit it is kept under, under the goals that are loaded now.
\<close>

theorem pipeline_stays_sound:
  assumes "pure_gates io v key" and "honest ex head v key clean_at" and "pipe_reach io ex head p"
  shows "distinct (map go_id (en_goals (pl_engine p))) \<and>
    (\<forall>g k r. g \<in> set (en_goals (pl_engine p)) \<and> go_cacheable g \<and> map_of (en_cache (pl_engine p)) (go_id g) = Some (k, r) \<longrightarrow>
       is_pass r \<and> (\<forall>w. key w = Some k \<longrightarrow> v g w)) \<and>
    (\<forall>rn sha f. pl_runner p = Some rn \<and> map_of (rn_futures rn) sha = Some f \<longrightarrow>
       fu_sha f = sha \<and> (\<not> stale rn sha \<longrightarrow> fu_goals f = en_goals (pl_engine p)))"
proof -
  note s = reachable_sound [OF assms]
  have "fu_sha f = sha \<and> (\<not> stale rn sha \<longrightarrow> fu_goals f = en_goals (pl_engine p))"
    if "pl_runner p = Some rn" "map_of (rn_futures rn) sha = Some f" for rn sha f
  proof -
    from s that(1) have "runner_ok rn" "rn_goals rn = en_goals (pl_engine p)" by (simp_all add: pipe_sound_def pipe_ok_def)
    with that(2) have "future_ok rn sha f" "rn_goals rn = en_goals (pl_engine p)" by (simp_all add: runner_ok_def)
    then show ?thesis by (auto simp: future_ok_def stale_def)
  qed
  with s show ?thesis unfolding pipe_sound_def pipe_ok_def cache_sound_def by blast
qed

section \<open>Verdicts\<close>

text \<open>
  C19: overlapping changes no verdict, only its timing. In any reachable state, a tick on the clean tree of a commit gives for every
  hard gate the verdict the gate has on that tree, with the pipeline on or off, whether the verdict was polled, remembered or
  judged now; the cheap ones are right on a dirty tree as well.
\<close>

theorem pipelined_verdicts_exact:
  assumes "pure_gates io v key" and "honest ex head v key clean_at" and "pipe_reach io ex head p"
    and "evaluate_gates_for_tick io ex head p = (Inr results, p')" and "g \<in> set (en_goals (pl_engine p))" and "go_hard g"
    and "key (view_of p) = Some (clean_at c) \<or> \<not> go_expensive g"
  shows "\<exists>r. map_of results (go_id g) = Some r \<and> is_pass r = v g (view_of p)"
proof -
  note s = reachable_sound [OF assms(1-3)]
  show ?thesis
  proof (cases "active_runner p")
    case None
    from tick_off [OF assms(1) s None assms(4)] assms(5,6) show ?thesis by simp
  next
    case (Some rn)
    from tick_on(2) [OF assms(1,2) s Some assms(4-6)] assms(7) show ?thesis by blast
  qed
qed

text \<open>
  C12: completion is never declared on a stale verdict. When after a tick and the fresh recheck the engine finds all gates green,
  every hard gate passes on the working tree as it is at that moment, clean or dirty, even if the tick itself had
  trusted the overlapped verdict of the commit.
\<close>

theorem convergence_is_fresh:
  assumes "pure_gates io v key" and "honest ex head v key clean_at" and "pipe_sound v key p" and "active_runner p = Some rn"
    and "evaluate_gates_for_tick io ex head p = (Inr results, p1)" and "terminal_fresh_recheck io results p1 = (Inr fresh, p2)"
    and "all_green (pl_engine p2)" and "g \<in> set (en_goals (pl_engine p))" and "go_hard g"
  shows "v g (view_of p2)"
proof -
  note t = tick_on [OF assms(1-5)]
  have goals: "en_goals (pl_engine p1) = en_goals (pl_engine p)" using t(1) by simp
  have s1: "pipe_sound v key p1" using t(1) by simp
  have d: "distinct (map go_id (en_goals (pl_engine p1)))" using s1 by (simp add: pipe_sound_def pipe_ok_def)
  have g: "g \<in> set (en_goals (pl_engine p1))" using assms(8) goals by simp
  from assms(6) t(1) obtain res where res: "with_engine (evaluate_hard_gates io (Some (expensive_ids (en_goals (pl_engine p1))))) p1 = (Inr res, p2)"
    by (auto elim: recheck_steps)
  note x = evaluation_keeps [OF assms(1) s1 res]
  have last: "map_of (en_last (pl_engine p2)) k = (case map_of res k of None \<Rightarrow> map_of (en_last (pl_engine p1)) k | Some r \<Rightarrow> Some r)" for k
    using x(6) map_of_dict_update_distinct [OF x(9)] by simp
  note ch = chosen_expensive(1) [OF d g]
  have "\<exists>r. map_of (en_last (pl_engine p2)) (go_id g) = Some r \<and> is_pass r = v g (view_of p)"
  proof (cases "go_expensive g")
    case True
    with x(4) [rule_format, OF g] ch assms(9) t(1) show ?thesis by (auto simp: last same_view_def)
  next
    case False
    with t(3) [OF assms(8,9)] x(5) [OF g] ch show ?thesis by (simp add: last)
  qed
  then obtain r where r: "map_of (en_last (pl_engine p2)) (go_id g) = Some r" "is_pass r = v g (view_of p)" by blast
  have "(go_id g, r) \<in> set (en_last (pl_engine p2))" by (rule map_of_SomeD [OF r(1)])
  moreover have "list_ex go_hard (en_goals (pl_engine p2))" using g assms(9) x(3) by (auto simp: list_ex_iff)
  ultimately have "is_pass r" using assms(7) by (auto simp: all_green_def list_all_iff split: if_splits)
  with r(2) t(1) x(2) show ?thesis by (simp add: same_view_def)
qed

text \<open>
  C37: a verdict that was polled is never entered among the engine's last verdicts. An expensive gate that a synchronous evaluation
  once found red therefore stays red for \<open>all_green\<close> as long as the overlapped verdicts are
  used, though every one of them is green: the loop goes on after it should have converged.
\<close>

theorem polled_green_is_not_seen:
  assumes "pure_gates io v key" and "honest ex head v key clean_at" and "pipe_sound v key p" and "active_runner p = Some rn"
    and "with_engine (evaluate_hard_gates io (Some (cheap_ids (en_goals (pl_engine p))))) p = (Inr cheap, p1)"
    and "with_runner rn (poll_latest ex) p1 = (Inr (Some (sha, Some res)), p2)" and "trusted head (Some (sha, Some res)) p2 = (Inr (Some res), p3)"
    and "g \<in> set (en_goals (pl_engine p))" and "go_hard g" and "go_expensive g"
    and "map_of (en_last (pl_engine p)) (go_id g) = Some bad" and "\<not> is_pass bad"
  shows "evaluate_gates_for_tick io ex head p = (Inr (dict_update res cheap), p3) \<and> \<not> all_green (pl_engine p3)"
proof
  from assms(5) have 1: "with_engine (\<lambda>e. evaluate_hard_gates io (Some (cheap_ids (en_goals e))) e) p = (Inr cheap, p1)" by (simp add: with_engine_def)
  show "evaluate_gates_for_tick io ex head p = (Inr (dict_update res cheap), p3)"
    using 1 assms(6,7) by (simp add: evaluate_gates_for_tick_def assms(4) act_bind_def ret_def)
  note on = active_runner_cases [OF assms(4)]
  note a = evaluation_keeps [OF assms(1,3,5)]
  from a(7) on have "pl_runner p1 = Some rn" by simp
  note b = polling_keeps [OF assms(2) a(1) this assms(6)]
  note t = trusting_keeps [OF assms(2) b(1) assms(7)]
  have d: "distinct (map go_id (en_goals (pl_engine p)))" using assms(3) by (simp add: pipe_sound_def pipe_ok_def)
  have "map_of cheap (go_id g) = None" using a(5) [OF assms(8)] chosen_expensive(2) [OF d assms(8)] assms(10) by simp
  then have "map_of (en_last (pl_engine p3)) (go_id g) = Some bad"
    using a(6) b(5) t(4) assms(11) map_of_dict_update_distinct [OF a(9)] by simp
  then have "(go_id g, bad) \<in> set (en_last (pl_engine p3))" by (rule map_of_SomeD)
  moreover have "list_ex go_hard (en_goals (pl_engine p3))" using assms(8,9) a(3) b(3) t(3) by (auto simp: list_ex_iff)
  ultimately show "\<not> all_green (pl_engine p3)" using assms(12) by (auto simp: all_green_def list_all_iff)
qed

section \<open>One gate, two commits\<close>

text \<open>The sample gate beside the peers: a future gives the verdict of its commit.\<close>

definition sample_executor :: "string executor" where
  "sample_executor =
     \<lparr>ex_submit = (\<lambda>_ w. (Inr (), w)), ex_done = (\<lambda>_ w. (Inr True, w)),
      ex_result = (\<lambda>f w. (Inr (Some (map (\<lambda>g. (go_id g, sample_verdict (fu_sha f))) (filter (\<lambda>g. go_hard g \<and> go_expensive g) (fu_goals f)))), w)),
      ex_cancel = (\<lambda>_ w. (Inr (), w))\<rparr>"

definition sample_head :: "(string, string) act" where
  "sample_head w = (Inr w, w)"

lemma sample_lookup: "g \<in> set gs \<Longrightarrow> P g \<Longrightarrow> map_of (map (\<lambda>g. (go_id g, y)) (filter P gs)) (go_id g) = Some y"
  by (induction gs) auto

lemma sample_honest: "honest sample_executor sample_head sample_v sample_key sample_clean"
  unfolding honest_def
proof (intro conjI allI impI)
  fix f w r w' res u g
  assume 1: "ex_result sample_executor f w = (r, w')" "r = Inr (Some res)"
    and g: "sample_key u = Some (sample_clean (fu_sha f)) \<and> g \<in> set (fu_goals f) \<and> go_hard g \<and> go_expensive g"
  from g have "u = fu_sha f" by (simp add: sample_key_def)
  moreover from 1 g have "map_of res (go_id g) = Some (sample_verdict (fu_sha f))"
    by (auto simp: sample_executor_def intro!: sample_lookup)
  ultimately show "\<exists>x. map_of res (go_id g) = Some x \<and> is_pass x = sample_v g u"
    by (simp add: sample_verdict_def is_pass_def sample_v_def)
qed (auto simp: sample_executor_def sample_head_def sample_key_def)

text \<open>The pipeline after a red evaluation on commit \<open>a\<close>, and after the peer's fix \<open>b\<close> was submitted.\<close>

definition sample_start :: "string pipeline" where
  "sample_start = init_gate_pipeline \<lparr>en_goals = [sample_goal], en_last = [], en_cache = [], en_world = ''a''\<rparr> True"

definition red_pipe :: "string pipeline" where
  "red_pipe = snd (evaluate_gates_for_tick sample_gates sample_executor sample_head sample_start)"

definition fixed_pipe :: "string pipeline" where
  "fixed_pipe = red_pipe\<lparr>pl_engine := (pl_engine red_pipe)\<lparr>en_world := ''b''\<rparr>\<rparr>"

definition green_pipe :: "string pipeline" where
  "green_pipe = snd (submit_gate_eval sample_executor ''b'' fixed_pipe)"

lemma green_pipe_reach: "pipe_reach sample_gates sample_executor sample_head green_pipe"
proof -
  have "pipe_reach sample_gates sample_executor sample_head sample_start"
    unfolding sample_start_def by (rule pipe_reach.built) simp
  moreover have "\<not> isl (fst (evaluate_gates_for_tick sample_gates sample_executor sample_head sample_start))" by code_simp
  ultimately have "pipe_reach sample_gates sample_executor sample_head red_pipe"
    unfolding red_pipe_def by (rule pipe_reach.ticked [OF _ act_returns])
  then have "pipe_reach sample_gates sample_executor sample_head fixed_pipe" unfolding fixed_pipe_def by (rule pipe_reach.worked)
  moreover have "\<not> isl (fst (submit_gate_eval sample_executor ''b'' fixed_pipe))" by code_simp
  ultimately show ?thesis unfolding green_pipe_def by (rule pipe_reach.submitted [OF _ act_returns])
qed

definition green_tick :: "results res \<times> string pipeline" where
  "green_tick = evaluate_gates_for_tick sample_gates sample_executor sample_head green_pipe"

definition green_recheck :: "results option res \<times> string pipeline" where
  "green_recheck = terminal_fresh_recheck sample_gates (projr (fst green_tick)) (snd green_tick)"

lemma green_tick_returns: "evaluate_gates_for_tick sample_gates sample_executor sample_head green_pipe = (Inr (projr (fst green_tick)), snd green_tick)"
  unfolding green_tick_def by (rule act_returns) code_simp

lemma green_recheck_returns: "terminal_fresh_recheck sample_gates (projr (fst green_tick)) (snd green_tick) = (Inr (projr (fst green_recheck)), snd green_recheck)"
  unfolding green_recheck_def by (rule act_returns) code_simp

lemma green_goal: "sample_goal \<in> set (en_goals (pl_engine green_pipe))" "go_hard sample_goal" "go_expensive sample_goal"
  by code_simp+

lemma pipeline_stays_sound_witness:
  "map_of (rn_futures (the (pl_runner green_pipe))) ''b'' = Some \<lparr>fu_sha = ''b'', fu_goals = en_goals (pl_engine green_pipe)\<rparr>"
proof -
  have f: "\<not> Option.is_none (map_of (rn_futures (the (pl_runner green_pipe))) ''b'')" "\<not> stale (the (pl_runner green_pipe)) ''b''"
    "pl_runner green_pipe = Some (the (pl_runner green_pipe))"
    by (code_simp, code_simp, code_simp)
  then obtain f where "map_of (rn_futures (the (pl_runner green_pipe))) ''b'' = Some f" by (auto simp: Option.is_none_def)
  with pipeline_stays_sound [OF sample_pure sample_honest green_pipe_reach, THEN conjunct2, THEN conjunct2, rule_format, OF conjI [OF f(3)]] f(2)
  have "fu_sha f = ''b'' \<and> fu_goals f = en_goals (pl_engine green_pipe)" by blast
  with \<open>_ = Some f\<close> show ?thesis by (cases f) simp
qed

lemma pipelined_verdicts_exact_witness:
  "\<exists>r. map_of (projr (fst green_tick)) ''t'' = Some r \<and> is_pass r"
proof -
  have "sample_key (view_of green_pipe) = Some (sample_clean ''b'') \<or> \<not> go_expensive sample_goal" by code_simp
  from pipelined_verdicts_exact [OF sample_pure sample_honest green_pipe_reach green_tick_returns green_goal(1,2) this]
  have "\<exists>r. map_of (projr (fst green_tick)) (go_id sample_goal) = Some r \<and> is_pass r = sample_v sample_goal (view_of green_pipe)" .
  moreover have "go_id sample_goal = ''t''" "sample_v sample_goal (view_of green_pipe)" by code_simp+
  ultimately show ?thesis by simp
qed

lemma green_pipe_sound: "pipe_sound sample_v sample_key green_pipe"
  by (rule reachable_sound [OF sample_pure sample_honest green_pipe_reach])

lemma green_runner: "active_runner green_pipe = Some (the (active_runner green_pipe))"
  by code_simp

lemma convergence_is_fresh_witness: "all_green (pl_engine (snd green_recheck)) \<and> view_of (snd green_recheck) = ''b''"
proof
  show g: "all_green (pl_engine (snd green_recheck))" by code_simp
  from convergence_is_fresh [OF sample_pure sample_honest green_pipe_sound green_runner green_tick_returns green_recheck_returns g green_goal(1,2)]
  show "view_of (snd green_recheck) = ''b''" by (simp add: sample_v_def)
qed

lemma polled_green_is_not_seen_witness:
  "\<not> all_green (pl_engine (snd green_tick)) \<and> list_all (\<lambda>(_, r). is_pass r) (projr (fst green_tick))"
proof
  let ?rn = "the (active_runner green_pipe)"
  define x1 where "x1 = with_engine (evaluate_hard_gates sample_gates (Some (cheap_ids (en_goals (pl_engine green_pipe))))) green_pipe"
  define x2 where "x2 = with_runner ?rn (poll_latest sample_executor) (snd x1)"
  define x3 where "x3 = trusted sample_head (Some (''b'', Some [(''t'', sample_verdict ''b'')])) (snd x2)"
  have 1: "with_engine (evaluate_hard_gates sample_gates (Some (cheap_ids (en_goals (pl_engine green_pipe))))) green_pipe = (Inr (projr (fst x1)), snd x1)"
    unfolding x1_def by (rule act_returns) code_simp
  have "fst x2 = Inr (Some (''b'', Some [(''t'', sample_verdict ''b'')]))" unfolding x2_def x1_def by code_simp
  then have 2: "with_runner ?rn (poll_latest sample_executor) (snd x1) = (Inr (Some (''b'', Some [(''t'', sample_verdict ''b'')])), snd x2)"
    unfolding x2_def by (metis prod.collapse)
  have "fst x3 = Inr (Some [(''t'', sample_verdict ''b'')])" unfolding x3_def x2_def x1_def by code_simp
  then have 3: "trusted sample_head (Some (''b'', Some [(''t'', sample_verdict ''b'')])) (snd x2) = (Inr (Some [(''t'', sample_verdict ''b'')]), snd x3)"
    unfolding x3_def by (metis prod.collapse)
  have red: "map_of (en_last (pl_engine green_pipe)) (go_id sample_goal) = Some (the (map_of (en_last (pl_engine green_pipe)) ''t''))"
    "\<not> is_pass (the (map_of (en_last (pl_engine green_pipe)) ''t''))" by code_simp+
  from polled_green_is_not_seen [OF sample_pure sample_honest green_pipe_sound green_runner 1 2 3 green_goal red]
  show "\<not> all_green (pl_engine (snd green_tick))" by (simp add: green_tick_def)
  show "list_all (\<lambda>(_, r). is_pass r) (projr (fst green_tick))" by code_simp
qed

end
