(* ===== verification/PassWhen.thy ===== *)
theory PassWhen
  imports GoalEngine
begin

text \<open>
  The language of \<open>pass_when\<close>, the second half of \<open>peers/goals.py\<close>: expressions are parsed by Python, checked
  node by node against white lists, and evaluated in an environment of a few names. Python itself, that is the
  parser, its operators on its own values and the methods and attributes of its own objects, is the record \<open>python\<close>; the
  checks, the environment, the views of JSON files and the order of evaluation are the code's.
\<close>

section \<open>Expressions\<close>

datatype const = CNone | CBool bool | CInt int | CFloat string | CStr string | COther

datatype cmpop = Eq | NotEq | Lt | LtE | Gt | GtE | Is | IsNot | In | NotIn

text \<open>The nodes of \<open>ast\<close> in an expression; \<open>Node\<close> is any of the kinds the code forbids, with its children.\<close>

datatype pexpr =
    Name string
  | Const const
  | Attribute pexpr string
  | Call pexpr "pexpr list" "(string option \<times> pexpr) list"
  | BoolOp bool "pexpr list"
  | UnaryOp string pexpr
  | BinOp pexpr string pexpr
  | Compare pexpr "(cmpop \<times> pexpr) list"
  | Node string "pexpr list"

section \<open>Validation\<close>

definition allowed_names :: "string list" where
  "allowed_names =
     [''exit_code'', ''stdout'', ''stderr'', ''cwd'', ''regex'', ''json'', ''int'', ''float'', ''len'', ''None'', ''True'', ''False'']"

definition method_arity :: "(string \<times> nat \<times> nat) list" where
  "method_arity =
     [(''strip'', 0, 1), (''rstrip'', 0, 1), (''lstrip'', 0, 1), (''lower'', 0, 0), (''upper'', 0, 0),
      (''split'', 0, 1), (''splitlines'', 0, 0), (''startswith'', 1, 1), (''endswith'', 1, 1)]"

definition allowed_methods :: "string list" where
  "allowed_methods =
     [''strip'', ''rstrip'', ''lstrip'', ''lower'', ''upper'', ''split'', ''splitlines'', ''startswith'', ''endswith'']"

definition function_arity :: "(string \<times> nat \<times> nat) list" where
  "function_arity = [(''regex'', 2, 2), (''json'', 1, 1), (''int'', 1, 1), (''float'', 1, 1), (''len'', 1, 1)]"

definition max_dsl_literal_bytes :: nat where
  "max_dsl_literal_bytes = 8192"

definition arity_ok :: "string \<Rightarrow> nat \<Rightarrow> nat \<Rightarrow> bool" where
  "arity_ok name n kw \<longleftrightarrow> kw = 0 \<and>
     (case (case map_of function_arity name of Some r \<Rightarrow> Some r | None \<Rightarrow> map_of method_arity name) of
        None \<Rightarrow> True
      | Some (lo, hi) \<Rightarrow> lo \<le> n \<and> n \<le> hi)"

definition const_ok :: "const \<Rightarrow> bool" where
  "const_ok c =
     (case c of
        CStr s \<Rightarrow> length s \<le> max_dsl_literal_bytes
      | CInt i \<Rightarrow> length (show_int \<bar>i\<bar>) \<le> 18
      | COther \<Rightarrow> False
      | _ \<Rightarrow> True)"

fun attribute_root :: "pexpr \<Rightarrow> pexpr" where
  "attribute_root (Attribute e a) = attribute_root e"
| "attribute_root e = e"

definition is_private :: "string \<Rightarrow> bool" where
  "is_private a \<longleftrightarrow> startswith a ''_''"

definition root_ok :: "pexpr \<Rightarrow> bool" where
  "root_ok e =
     (case attribute_root e of
        Name x \<Rightarrow> x \<in> set allowed_names
      | Call (Name f) _ _ \<Rightarrow> f \<in> set allowed_names
      | _ \<Rightarrow> False)"

definition call_ok :: "pexpr \<Rightarrow> nat \<Rightarrow> nat \<Rightarrow> bool" where
  "call_ok f n kw =
     (case f of
        Name x \<Rightarrow> x \<in> set allowed_names \<and> arity_ok x n kw
      | Attribute _ m \<Rightarrow> m \<in> set allowed_methods \<and> arity_ok m n kw
      | _ \<Rightarrow> False)"

text \<open>The loop body of \<open>_validate_ast\<close>, for one node of the walk.\<close>

definition node_ok :: "pexpr \<Rightarrow> bool" where
  "node_ok e =
     (case e of
        Name x \<Rightarrow> x \<in> set allowed_names
      | Const c \<Rightarrow> const_ok c
      | Attribute v a \<Rightarrow> \<not> is_private a \<and> root_ok v
      | Call f args kws \<Rightarrow> call_ok f (length args) (length kws)
      | BoolOp _ _ \<Rightarrow> True
      | UnaryOp op _ \<Rightarrow> op = ''Not''
      | BinOp _ op _ \<Rightarrow> op = ''Add''
      | Compare _ _ \<Rightarrow> True
      | Node _ _ \<Rightarrow> False)"

text \<open>\<open>ast.walk\<close>.\<close>

fun walk :: "pexpr \<Rightarrow> pexpr list" where
  "walk (Name x) = [Name x]"
| "walk (Const c) = [Const c]"
| "walk (Attribute v a) = Attribute v a # walk v"
| "walk (Call f args kws) = Call f args kws # walk f @ concat (map walk args) @ concat (map (\<lambda>(_, e). walk e) kws)"
| "walk (BoolOp b es) = BoolOp b es # concat (map walk es)"
| "walk (UnaryOp op e) = UnaryOp op e # walk e"
| "walk (BinOp a op b) = BinOp a op b # walk a @ walk b"
| "walk (Compare a rest) = Compare a rest # walk a @ concat (map (\<lambda>(_, e). walk e) rest)"
| "walk (Node k es) = Node k es # concat (map walk es)"

definition validate_ast :: "pexpr \<Rightarrow> unit res" where
  "validate_ast e = (if list_all node_ok (walk e) then Inr () else Inl ValueError)"

text \<open>\<open>re.sub(r"\s*\n\s*", " ", expr)\<close>: each maximal run of white space with a line feed in it becomes one space.\<close>

function ws_run :: "string \<Rightarrow> string \<times> string" where
  "ws_run s =
     (if space_len s = 0 then ([], s)
      else (case ws_run (drop (space_len s) s) of (r, rest) \<Rightarrow> (take (space_len s) s @ r, rest)))"
  by pat_completeness auto
termination
  by (relation "measure length") (auto dest: space_len_pos intro!: diff_less)

declare ws_run.simps [simp del]

lemma ws_run_step:
  "space_len s \<noteq> 0 \<Longrightarrow> ws_run s = (take (space_len s) s @ fst (ws_run (drop (space_len s) s)), snd (ws_run (drop (space_len s) s)))"
  by (simp add: ws_run.simps [of s] split: prod.splits)

lemma ws_run_split: "fst (ws_run s) @ snd (ws_run s) = s"
proof (induction s rule: ws_run.induct)
  case (1 s)
  show ?case
  proof (cases "space_len s = 0")
    case True
    then show ?thesis by (simp add: ws_run.simps [of s])
  next
    case False
    with 1 [OF False] show ?thesis by (simp add: ws_run_step)
  qed
qed

lemma ws_run_shorter:
  assumes "space_len s \<noteq> 0"
  shows "length (snd (ws_run s)) < length s"
proof -
  have "s \<noteq> []" using assms by (cases s) auto
  with assms have "fst (ws_run s) \<noteq> []" by (simp add: ws_run_step del: space_len.simps)
  with arg_cong [OF ws_run_split [of s], of length] show ?thesis by (cases "fst (ws_run s)") auto
qed

function join_lines :: "string \<Rightarrow> string" where
  "join_lines [] = []"
| "join_lines (c # cs) =
     (if space_len (c # cs) = 0 then c # join_lines cs
      else
        (let r = ws_run (c # cs) in
         (if list_ex (\<lambda>x. byte x = 10) (fst r) then '' '' else fst r) @ join_lines (snd r)))"
  by pat_completeness auto
termination
proof (relation "measure length")
  fix c cs r assume "space_len (c # cs) \<noteq> 0" and "r = ws_run (c # cs)"
  then show "(snd r, c # cs) \<in> measure length" using ws_run_shorter [of "c # cs"] by (simp del: space_len.simps)
qed simp_all

definition cleaned :: "string \<Rightarrow> string" where
  "cleaned expr = strip (join_lines expr)"

section \<open>Values and Python\<close>

text \<open>
  \<open>PView\<close> is a \<open>_JsonView\<close> of a JSON value and \<open>PData\<close> the value itself, as the view hands it to Python's
  operators; a bound method is not a value, the code only ever calls it at once.
\<close>

datatype 'o pval = PNone | PBool bool | PInt int | PFloat string | PStr string | PFun string | PView json | PData json | PObj 'o

record ('o, 'w) python =
  py_parse :: "string \<Rightarrow> pexpr res"
  py_truth :: "'o pval \<Rightarrow> bool res"
  py_add :: "'o pval \<Rightarrow> 'o pval \<Rightarrow> 'o pval res"
  py_compare :: "cmpop \<Rightarrow> 'o pval \<Rightarrow> 'o pval \<Rightarrow> 'o pval res"
  py_attr :: "'o pval \<Rightarrow> string \<Rightarrow> 'o pval res"
  py_lookup :: "'o pval \<Rightarrow> string \<Rightarrow> unit res"
  py_method :: "'o pval \<Rightarrow> string \<Rightarrow> 'o pval list \<Rightarrow> 'o pval res"
  py_builtin :: "string \<Rightarrow> 'o pval list \<Rightarrow> 'o pval res"
  py_search :: "string \<Rightarrow> string \<Rightarrow> 'o pval res"
  py_read :: "string list \<Rightarrow> ('w, string) act"
  py_cwd :: 'o

definition of_json :: "json \<Rightarrow> 'o pval" where
  "of_json j =
     (case j of
        JNull \<Rightarrow> PNone | JBool b \<Rightarrow> PBool b | JInt i \<Rightarrow> PInt i | JFloat t \<Rightarrow> PFloat t | JStr s \<Rightarrow> PStr s
      | JList _ \<Rightarrow> PView j | JObj _ \<Rightarrow> PView j)"

definition const_value :: "const \<Rightarrow> 'o pval res" where
  "const_value c =
     (case c of CNone \<Rightarrow> Inr PNone | CBool b \<Rightarrow> Inr (PBool b) | CInt i \<Rightarrow> Inr (PInt i) | CFloat t \<Rightarrow> Inr (PFloat t)
      | CStr s \<Rightarrow> Inr (PStr s) | COther \<Rightarrow> Inl ValueError)"

section \<open>The environment\<close>

definition max_dsl_input_bytes :: nat where
  "max_dsl_input_bytes = 1 * 1024 * 1024"

definition max_dsl_json_bytes :: nat where
  "max_dsl_json_bytes = 2 * 1024 * 1024"

definition max_regex_pattern_bytes :: nat where
  "max_regex_pattern_bytes = 1024"

record run_context =
  cx_exit :: int
  cx_stdout :: string
  cx_stderr :: string

text \<open>\<open>Path(p).parts\<close> of a relative path: empty components and single dots are dropped.\<close>

definition rel_parts :: "string \<Rightarrow> string list" where
  "rel_parts p = filter (\<lambda>x. x \<noteq> [] \<and> x \<noteq> ''.'') (split_on CHR ''/'' p)"

definition confined :: "string list \<Rightarrow> bool" where
  "confined parts \<longleftrightarrow> parts \<noteq> [] \<and> list_all (\<lambda>x. x \<noteq> [] \<and> x \<noteq> ''.'' \<and> x \<noteq> ''..'') parts"

definition json_fn :: "('o, 'w) python \<Rightarrow> string \<Rightarrow> ('w, 'o pval) act" where
  "json_fn py rel =
     (if startswith rel ''/'' then raise_exc ValueError
      else
        (let parts = rel_parts rel in
         if \<not> confined parts then raise_exc ValueError
         else
           act_bind (py_read py parts) (\<lambda>text.
           if max_dsl_json_bytes < length text then raise_exc ValueError
           else act_bind (act_res (loads text)) (\<lambda>j. ret (PView j)))))"

definition regex_fn :: "('o, 'w) python \<Rightarrow> string \<Rightarrow> string \<Rightarrow> 'o pval res" where
  "regex_fn py pattern text =
     (if max_regex_pattern_bytes < length pattern then Inl ValueError else py_search py pattern text)"

definition name_value :: "('o, 'w) python \<Rightarrow> run_context \<Rightarrow> string \<Rightarrow> 'o pval res" where
  "name_value py cx x =
     (if x = ''exit_code'' then Inr (PInt (cx_exit cx))
      else if x = ''stdout'' then Inr (PStr (py_take max_dsl_input_bytes (cx_stdout cx)))
      else if x = ''stderr'' then Inr (PStr (py_take max_dsl_input_bytes (cx_stderr cx)))
      else if x = ''cwd'' then Inr (PObj (py_cwd py))
      else if x \<in> fst ` set function_arity then Inr (PFun x)
      else Inl ValueError)"

section \<open>Views of JSON files\<close>

definition view_len :: "json \<Rightarrow> nat res" where
  "view_len j =
     (case j of JObj kvs \<Rightarrow> Inr (length kvs) | JList xs \<Rightarrow> Inr (length xs) | JStr s \<Rightarrow> Inr (py_len s) | _ \<Rightarrow> Inl TypeError)"

definition view_iter :: "json \<Rightarrow> json res" where
  "view_iter j =
     (case j of
        JObj kvs \<Rightarrow> Inr (JList (map (\<lambda>(k, _). JStr k) kvs))
      | JList xs \<Rightarrow> Inr (JList xs)
      | JStr s \<Rightarrow> Inr (JList (map JStr (py_chars s)))
      | _ \<Rightarrow> Inl TypeError)"

definition get_attr :: "('o, 'w) python \<Rightarrow> 'o pval \<Rightarrow> string \<Rightarrow> 'o pval res" where
  "get_attr py v a =
     (case v of
        PView j \<Rightarrow>
          (case j of JObj kvs \<Rightarrow> (case map_of kvs a of Some x \<Rightarrow> Inr (of_json x) | None \<Rightarrow> Inl AttributeError) | _ \<Rightarrow> Inl AttributeError)
      | _ \<Rightarrow> py_attr py v a)"

definition truth :: "('o, 'w) python \<Rightarrow> 'o pval \<Rightarrow> bool res" where
  "truth py v =
     (case v of
        PView j \<Rightarrow> res_bind (view_len j) (\<lambda>n. Inr (n \<noteq> 0))
      | _ \<Rightarrow> py_truth py v)"

text \<open>The comparisons of a view are those of what it views, on either side; membership goes over its iterator.\<close>

definition unview :: "'o pval \<Rightarrow> 'o pval" where
  "unview v = (case v of PView j \<Rightarrow> PData j | _ \<Rightarrow> v)"

definition compare_values :: "('o, 'w) python \<Rightarrow> cmpop \<Rightarrow> 'o pval \<Rightarrow> 'o pval \<Rightarrow> 'o pval res" where
  "compare_values py op a b =
     (if op = Is \<or> op = IsNot then py_compare py op a b
      else if op = In \<or> op = NotIn then
        (case b of
           PView j \<Rightarrow> res_bind (view_iter j) (\<lambda>items. py_compare py op (unview a) (PData items))
         | _ \<Rightarrow> py_compare py op a b)
      else py_compare py op (unview a) (unview b))"

section \<open>Evaluation\<close>

text \<open>A call of one of the names; \<open>json\<close> is the only one with an effect.\<close>

definition call_function :: "('o, 'w) python \<Rightarrow> 'o pval \<Rightarrow> 'o pval list \<Rightarrow> ('w, 'o pval) act" where
  "call_function py f args =
     (case f of
        PFun name \<Rightarrow>
          (case args of
             [PStr p] \<Rightarrow> if name = ''json'' then json_fn py p else act_res (py_builtin py name args)
           | [PView j] \<Rightarrow> if name = ''len'' then act_res (res_bind (view_len j) (\<lambda>n. Inr (PInt (int n)))) else act_res (py_builtin py name args)
           | [PStr p, PStr t] \<Rightarrow> if name = ''regex'' then act_res (regex_fn py p t) else act_res (py_builtin py name args)
           | _ \<Rightarrow> act_res (py_builtin py name args))
      | _ \<Rightarrow> raise_exc TypeError)"

definition find_method :: "('o, 'w) python \<Rightarrow> 'o pval \<Rightarrow> string \<Rightarrow> unit res" where
  "find_method py v m =
     (case v of PView _ \<Rightarrow> res_bind (get_attr py v m) (\<lambda>_. Inr ()) | _ \<Rightarrow> py_lookup py v m)"

definition call_method :: "('o, 'w) python \<Rightarrow> 'o pval \<Rightarrow> string \<Rightarrow> 'o pval list \<Rightarrow> 'o pval res" where
  "call_method py v m args = (case v of PView _ \<Rightarrow> Inl TypeError | _ \<Rightarrow> py_method py v m args)"

text \<open>What \<open>eval\<close> does with a node the validation lets through; for any other the value here is an error.\<close>

fun eval_expr :: "('o, 'w) python \<Rightarrow> run_context \<Rightarrow> pexpr \<Rightarrow> ('w, 'o pval) act"
and eval_args :: "('o, 'w) python \<Rightarrow> run_context \<Rightarrow> pexpr list \<Rightarrow> ('w, 'o pval list) act"
and eval_bool :: "('o, 'w) python \<Rightarrow> run_context \<Rightarrow> bool \<Rightarrow> pexpr list \<Rightarrow> ('w, 'o pval) act"
and eval_compare :: "('o, 'w) python \<Rightarrow> run_context \<Rightarrow> 'o pval \<Rightarrow> (cmpop \<times> pexpr) list \<Rightarrow> ('w, 'o pval) act" where
  "eval_expr py cx (Name x) = act_res (name_value py cx x)"
| "eval_expr py cx (Const c) = act_res (const_value c)"
| "eval_expr py cx (Attribute e a) = act_bind (eval_expr py cx e) (\<lambda>v. act_res (get_attr py v a))"
| "eval_expr py cx (Call f args kws) =
     (if kws \<noteq> [] then raise_exc ValueError
      else
        (case f of
           Attribute e m \<Rightarrow>
             act_bind (eval_expr py cx e) (\<lambda>v.
             act_bind (act_res (find_method py v m)) (\<lambda>_.
             act_bind (eval_args py cx args) (\<lambda>vs. act_res (call_method py v m vs))))
         | _ \<Rightarrow>
             act_bind (eval_expr py cx f) (\<lambda>v.
             act_bind (eval_args py cx args) (\<lambda>vs. call_function py v vs))))"
| "eval_expr py cx (BoolOp all es) = eval_bool py cx all es"
| "eval_expr py cx (UnaryOp op e) =
     (if op = ''Not'' then act_bind (eval_expr py cx e) (\<lambda>v. act_bind (act_res (truth py v)) (\<lambda>b. ret (PBool (\<not> b))))
      else raise_exc ValueError)"
| "eval_expr py cx (BinOp a op b) =
     (if op = ''Add'' then act_bind (eval_expr py cx a) (\<lambda>x. act_bind (eval_expr py cx b) (\<lambda>y. act_res (py_add py x y)))
      else raise_exc ValueError)"
| "eval_expr py cx (Compare a rest) = act_bind (eval_expr py cx a) (\<lambda>v. eval_compare py cx v rest)"
| "eval_expr py cx (Node k es) = raise_exc ValueError"
| "eval_args py cx [] = ret []"
| "eval_args py cx (e # es) = act_bind (eval_expr py cx e) (\<lambda>v. act_bind (eval_args py cx es) (\<lambda>vs. ret (v # vs)))"
| "eval_bool py cx all [] = raise_exc ValueError"
| "eval_bool py cx all (e # es) =
     act_bind (eval_expr py cx e) (\<lambda>v.
     if es = [] then ret v
     else act_bind (act_res (truth py v)) (\<lambda>b. if b = all then eval_bool py cx all es else ret v))"
| "eval_compare py cx v [] = raise_exc ValueError"
| "eval_compare py cx v ((op, e) # rest) =
     act_bind (eval_expr py cx e) (\<lambda>w.
     act_bind (act_res (compare_values py op v w)) (\<lambda>r.
     if rest = [] then ret r
     else act_bind (act_res (truth py r)) (\<lambda>b. if b then eval_compare py cx w rest else ret r)))"

definition parsed :: "('o, 'w) python \<Rightarrow> string \<Rightarrow> pexpr res" where
  "parsed py expr = res_bind (py_parse py (cleaned expr)) (\<lambda>e. res_bind (validate_ast e) (\<lambda>_. Inr e))"

definition validate_pass_when_at_load :: "('o, 'w) python \<Rightarrow> string \<Rightarrow> unit res" where
  "validate_pass_when_at_load py expr = res_bind (parsed py expr) (\<lambda>_. Inr ())"

definition evaluate_pass_when :: "('o, 'w) python \<Rightarrow> string \<Rightarrow> int \<Rightarrow> string \<Rightarrow> string \<Rightarrow> ('w, bool) act" where
  "evaluate_pass_when py expr rc out err =
     act_bind (act_res (parsed py expr)) (\<lambda>e.
     act_bind (eval_expr py \<lparr>cx_exit = rc, cx_stdout = out, cx_stderr = err\<rparr> e) (\<lambda>v.
     case v of PBool b \<Rightarrow> ret b | _ \<Rightarrow> raise_exc ValueError))"

section \<open>What an expression can reach\<close>

text \<open>
  Two Pythons that differ only in what the white lists keep out of reach: private attributes, other methods, calls with
  another number of arguments, and files that are not named by plain components below the root.
\<close>

definition agree :: "('o, 'w) python \<Rightarrow> ('o, 'w) python \<Rightarrow> bool" where
  "agree py py' \<longleftrightarrow>
     py_parse py' = py_parse py \<and> py_truth py' = py_truth py \<and> py_add py' = py_add py \<and> py_compare py' = py_compare py \<and>
     py_search py' = py_search py \<and> py_cwd py' = py_cwd py \<and>
     (\<forall>v a. \<not> is_private a \<longrightarrow> py_attr py' v a = py_attr py v a) \<and>
     (\<forall>v m. m \<in> set allowed_methods \<longrightarrow> py_lookup py' v m = py_lookup py v m) \<and>
     (\<forall>v m args. m \<in> set allowed_methods \<and> arity_ok m (length args) 0 \<longrightarrow> py_method py' v m args = py_method py v m args) \<and>
     (\<forall>f args. f \<in> fst ` set function_arity \<and> arity_ok f (length args) 0 \<longrightarrow> py_builtin py' f args = py_builtin py f args) \<and>
     (\<forall>parts. confined parts \<longrightarrow> py_read py' parts = py_read py parts)"

lemma agree_simps:
  assumes "agree py py'"
  shows "py_parse py' = py_parse py" "py_truth py' = py_truth py" "py_add py' = py_add py" "py_compare py' = py_compare py"
    "py_search py' = py_search py" "py_cwd py' = py_cwd py" "\<not> is_private a \<Longrightarrow> py_attr py' v a = py_attr py v a"
    "m \<in> set allowed_methods \<Longrightarrow> py_lookup py' v m = py_lookup py v m"
    "m \<in> set allowed_methods \<Longrightarrow> arity_ok m (length args) 0 \<Longrightarrow> py_method py' v m args = py_method py v m args"
    "f \<in> fst ` set function_arity \<Longrightarrow> arity_ok f (length args) 0 \<Longrightarrow> py_builtin py' f args = py_builtin py f args"
    "confined parts \<Longrightarrow> py_read py' parts = py_read py parts"
proof -
  note c = assms [unfolded agree_def]
  show "py_parse py' = py_parse py" "py_truth py' = py_truth py" "py_add py' = py_add py" "py_compare py' = py_compare py"
    "py_search py' = py_search py" "py_cwd py' = py_cwd py" by (simp_all only: c)
  from c have d1: "\<forall>v a. \<not> is_private a \<longrightarrow> py_attr py' v a = py_attr py v a" by (elim conjE)
  from c have d2: "\<forall>v m. m \<in> set allowed_methods \<longrightarrow> py_lookup py' v m = py_lookup py v m" by (elim conjE)
  from c have d3: "\<forall>v m args. m \<in> set allowed_methods \<and> arity_ok m (length args) 0 \<longrightarrow> py_method py' v m args = py_method py v m args" by (elim conjE)
  from c have d4: "\<forall>f args. f \<in> fst ` set function_arity \<and> arity_ok f (length args) 0 \<longrightarrow> py_builtin py' f args = py_builtin py f args" by (elim conjE)
  from c have d5: "\<forall>parts. confined parts \<longrightarrow> py_read py' parts = py_read py parts" by (elim conjE)
  note d = d1 [rule_format] d2 [rule_format] d3 [rule_format] d4 [rule_format] d5 [rule_format]
  show "\<not> is_private a \<Longrightarrow> py_attr py' v a = py_attr py v a" by (rule d(1))
  show "m \<in> set allowed_methods \<Longrightarrow> py_lookup py' v m = py_lookup py v m" by (rule d(2))
  show "m \<in> set allowed_methods \<Longrightarrow> arity_ok m (length args) 0 \<Longrightarrow> py_method py' v m args = py_method py v m args" by (rule d(3)) (rule conjI)
  show "f \<in> fst ` set function_arity \<Longrightarrow> arity_ok f (length args) 0 \<Longrightarrow> py_builtin py' f args = py_builtin py f args" by (rule d(4)) (rule conjI)
  show "confined parts \<Longrightarrow> py_read py' parts = py_read py parts" by (rule d(5))
qed

lemma agree_values:
  assumes "agree py py'"
  shows "truth py' = truth py" and "compare_values py' = compare_values py" and "name_value py' = name_value py"
    and "json_fn py' = json_fn py" and "regex_fn py' = regex_fn py" and "\<not> is_private a \<Longrightarrow> get_attr py' v a = get_attr py v a"
proof -
  note a = agree_simps [OF assms]
  show "truth py' = truth py" unfolding fun_eq_iff truth_def a(2) by simp
  show "compare_values py' = compare_values py" unfolding fun_eq_iff compare_values_def a(4) by simp
  show "name_value py' = name_value py" unfolding fun_eq_iff name_value_def a(6) by simp
  show "regex_fn py' = regex_fn py" unfolding fun_eq_iff regex_fn_def a(5) by simp
  show "json_fn py' = json_fn py" by (simp add: fun_eq_iff json_fn_def Let_def a)
  show "\<not> is_private a \<Longrightarrow> get_attr py' v a = get_attr py v a" by (cases v) (simp_all add: get_attr_def a(7))
qed

lemma allowed_methods_public: "m \<in> set allowed_methods \<Longrightarrow> \<not> is_private m"
  by (auto simp: allowed_methods_def is_private_def)

lemma agree_methods:
  assumes "agree py py'" and "m \<in> set allowed_methods"
  shows "find_method py' v m = find_method py v m" and "arity_ok m (length args) 0 \<Longrightarrow> call_method py' v m args = call_method py v m args"
  using agree_simps(8,9) [OF assms(1)] agree_values(6) [OF assms(1) allowed_methods_public [OF assms(2)]] assms(2)
  by (simp_all add: find_method_def call_method_def split: pval.splits)

lemma agree_call:
  assumes "agree py py'" and "name_value py cx x = Inr v" and "arity_ok x (length args) 0"
  shows "call_function py' v args = call_function py v args"
proof (cases "\<exists>f. v = PFun f")
  case False
  then show ?thesis by (cases v) (simp_all add: call_function_def)
next
  case True
  with assms(2) have v: "v = PFun x" "x \<in> fst ` set function_arity" by (auto simp: name_value_def split: if_splits)
  have b: "py_builtin py' x args = py_builtin py x args" by (rule agree_simps(10) [OF assms(1) v(2) assms(3)])
  show ?thesis
    unfolding v(1) call_function_def pval.case b agree_values(4,5) [OF assms(1)] by (rule refl)
qed

lemma act_bind_cong: "m = m' \<Longrightarrow> (\<And>s a s'. m s = (Inr a, s') \<Longrightarrow> k a = k' a) \<Longrightarrow> act_bind m k = act_bind m' k'"
  by (simp add: act_bind_def fun_eq_iff split: prod.splits sum.splits)

lemma eval_args_length: "eval_args py cx es s = (Inr vs, s') \<Longrightarrow> length vs = length es"
proof (induction es arbitrary: s vs s')
  case (Cons e es)
  from Cons.prems obtain v s1 ws where "eval_args py cx es s1 = (Inr ws, s')" "vs = v # ws" by (auto simp: act_bind_Inr)
  with Cons.IH show ?case by simp
qed simp

definition valid_expr :: "pexpr \<Rightarrow> bool" where
  "valid_expr e \<longleftrightarrow> list_all node_ok (walk e)"

lemma valid_expr_simps [simp]:
  "valid_expr (Name x) = node_ok (Name x)"
  "valid_expr (Const c) = node_ok (Const c)"
  "valid_expr (Attribute v a) \<longleftrightarrow> node_ok (Attribute v a) \<and> valid_expr v"
  "valid_expr (Call f args kws) \<longleftrightarrow> node_ok (Call f args kws) \<and> valid_expr f \<and> list_all valid_expr args \<and> list_all (\<lambda>(_, e). valid_expr e) kws"
  "valid_expr (BoolOp b es) \<longleftrightarrow> node_ok (BoolOp b es) \<and> list_all valid_expr es"
  "valid_expr (UnaryOp op e) \<longleftrightarrow> node_ok (UnaryOp op e) \<and> valid_expr e"
  "valid_expr (BinOp l op r) \<longleftrightarrow> node_ok (BinOp l op r) \<and> valid_expr l \<and> valid_expr r"
  "valid_expr (Compare l rest) \<longleftrightarrow> node_ok (Compare l rest) \<and> valid_expr l \<and> list_all (\<lambda>(_, e). valid_expr e) rest"
  unfolding valid_expr_def by (simp_all add: list_all_iff case_prod_beta ball_Un)

lemma eval_agree:
  "agree py py' \<Longrightarrow> valid_expr e \<Longrightarrow> eval_expr py' cx e = eval_expr py cx e"
  "agree py py' \<Longrightarrow> list_all valid_expr es \<Longrightarrow> eval_args py' cx es = eval_args py cx es"
  "agree py py' \<Longrightarrow> list_all valid_expr es \<Longrightarrow> eval_bool py' cx b es = eval_bool py cx b es"
  "agree py py' \<Longrightarrow> list_all (\<lambda>(_, e). valid_expr e) rest \<Longrightarrow> eval_compare py' cx v rest = eval_compare py cx v rest"
proof (induction py cx e and py cx es and py cx b es and py cx v rest rule: eval_expr_eval_args_eval_bool_eval_compare.induct)
  case (1 py cx x)
  then show ?case by (simp add: agree_values(3))
next
  case (3 py cx e a)
  then have "\<not> is_private a" by (simp add: node_ok_def)
  then have "get_attr py' v a = get_attr py v a" for v by (rule agree_values(6) [OF "3.prems"(1)])
  with 3 show ?case by simp
next
  case (4 py cx f args kws)
  from "4.prems" have call: "call_ok f (length args) (length kws)" "valid_expr f" "list_all valid_expr args" by (simp_all add: node_ok_def)
  show ?case
  proof (cases "kws = []")
    case False
    then show ?thesis by simp
  next
    case True
    have ar: "eval_args py' cx args = eval_args py cx args"
      by (cases f) (simp_all add: "4.IH" True "4.prems"(1) call(3))
    from call(1) True consider x where "f = Name x" "arity_ok x (length args) 0"
      | e m where "f = Attribute e m" "m \<in> set allowed_methods" "arity_ok m (length args) 0"
      by (auto simp: call_ok_def split: pexpr.splits)
    then show ?thesis
    proof cases
      case 1
      have "call_function py' v vs = call_function py v vs" if "name_value py cx x = Inr v" "eval_args py cx args s = (Inr vs, s')" for v vs s s'
        using agree_call [OF "4.prems"(1) that(1)] 1(2) eval_args_length [OF that(2)] by simp
      then have "act_bind (act_res (name_value py cx x)) (\<lambda>v. act_bind (eval_args py cx args) (\<lambda>vs. call_function py' v vs)) =
        act_bind (act_res (name_value py cx x)) (\<lambda>v. act_bind (eval_args py cx args) (\<lambda>vs. call_function py v vs))"
        by (intro act_bind_cong refl) (simp add: act_res_def)
      with 1(1) True ar show ?thesis by (simp add: agree_values(3) [OF "4.prems"(1)])
    next
      case 2
      have e: "eval_expr py' cx e = eval_expr py cx e" using call(2) 2(1) by (simp add: "4.IH" True "4.prems"(1))
      have "call_method py' v m vs = call_method py v m vs" if "eval_args py cx args s = (Inr vs, s')" for v vs s s'
        using agree_methods(2) [OF "4.prems"(1) 2(2)] 2(3) eval_args_length [OF that] by simp
      then have "act_bind (eval_args py cx args) (\<lambda>vs. act_res (call_method py' v m vs)) = act_bind (eval_args py cx args) (\<lambda>vs. act_res (call_method py v m vs))" for v
        by (intro act_bind_cong refl) simp
      with 2(1,2) True ar e show ?thesis by (simp add: agree_methods(1) [OF "4.prems"(1)])
    qed
  qed
next
  case (6 py cx op e)
  then show ?case by (simp add: agree_values(1) node_ok_def)
next
  case (7 py cx a op b)
  then show ?case by (simp add: agree_simps(3) node_ok_def)
next
  case (13 py cx b e es)
  then show ?case by (cases "es = []") (simp_all add: agree_values(1) cong: if_cong)
next
  case (15 py cx v op e rest)
  then show ?case by (cases "rest = []") (simp_all add: agree_values(1,2) cong: if_cong)
qed simp_all

text \<open>
  C17: a \<open>pass_when\<close> expression that passes the checks reaches nothing outside the white lists. Its verdict, and whatever it does
  on the way, is the same in any two Pythons that agree on public attributes, the allowed methods and functions at their
  arities, and the files named by plain components below the root: no private attribute, no other method and no
  other file can make a difference. An expression that does not pass the checks evaluates nothing at all.
\<close>

theorem pass_when_confined:
  assumes "agree py py'"
  shows "evaluate_pass_when py' expr rc out err = evaluate_pass_when py expr rc out err"
proof -
  have p: "parsed py' expr = parsed py expr" by (simp add: parsed_def agree_simps(1) [OF assms])
  show ?thesis
  proof (cases "parsed py expr")
    case (Inl e)
    with p show ?thesis by (simp add: evaluate_pass_when_def fun_eq_iff act_bind_def act_res_def)
  next
    case (Inr e)
    then have "valid_expr e" by (auto simp: parsed_def res_bind_Inr_iff validate_ast_def valid_expr_def split: if_splits)
    from eval_agree(1) [OF assms this] p Inr show ?thesis by (simp add: evaluate_pass_when_def act_bind_def act_res_def fun_eq_iff)
  qed
qed

text \<open>a gate passes only on an explicit \<open>True\<close>: a truthy value that is no boolean, such as a bare exit code, is an error.\<close>

theorem verdict_is_boolean:
  assumes "evaluate_pass_when py expr rc out err w = (Inr b, w')"
  shows "\<exists>e. parsed py expr = Inr e \<and> eval_expr py \<lparr>cx_exit = rc, cx_stdout = out, cx_stderr = err\<rparr> e w = (Inr (PBool b), w')"
proof -
  from assms obtain e v w1 where e: "Inr e = parsed py expr" "eval_expr py \<lparr>cx_exit = rc, cx_stdout = out, cx_stderr = err\<rparr> e w = (Inr v, w1)"
    and v: "(case v of PBool b \<Rightarrow> ret b | _ \<Rightarrow> raise_exc ValueError) w1 = (Inr b, w')"
    by (auto simp: evaluate_pass_when_def act_bind_Inr)
  from v have "v = PBool b \<and> w' = w1" by (cases v) auto
  with e show ?thesis by (intro exI [of _ e]) simp
qed

section \<open>A gate on a report\<close>

text \<open>A Python that leaks a secret wherever the white lists do not look, and the gate \<open>json('a.json').n == 3\<close>.\<close>

definition sample_expr :: pexpr where
  "sample_expr = Compare (Attribute (Call (Name ''json'') [Const (CStr ''a.json'')] []) ''n'') [(Eq, Const (CInt 3))]"

definition sample_report :: string where
  "sample_report = ''{'' @ show_str ''n'' @ '': 3}''"

definition sample_python :: "int \<Rightarrow> (unit, unit) python" where
  "sample_python secret =
     \<lparr>py_parse = (\<lambda>_. Inr sample_expr), py_truth = (\<lambda>v. Inr (v = PBool True)), py_add = (\<lambda>a b. Inl TypeError),
      py_compare = (\<lambda>op a b. Inr (PBool (a = b))), py_attr = (\<lambda>v a. if is_private a then Inr (PInt secret) else Inl AttributeError),
      py_lookup = (\<lambda>v m. if m \<in> set allowed_methods then Inl AttributeError else Inr ()),
      py_method = (\<lambda>v m args. if m \<in> set allowed_methods then Inl TypeError else Inr (PInt secret)),
      py_builtin = (\<lambda>f args. if f \<in> set allowed_names then Inl TypeError else Inr (PInt secret)), py_search = (\<lambda>p t. Inr PNone),
      py_read = (\<lambda>parts. if confined parts then ret sample_report else ret (show_int secret)), py_cwd = ()\<rparr>"

lemma sample_agree: "agree (sample_python 0) (sample_python s)"
  unfolding agree_def
proof (intro conjI allI impI)
  fix f :: string and args :: "unit pval list"
  assume "f \<in> fst ` set function_arity \<and> arity_ok f (length args) 0"
  moreover have "list_all (\<lambda>(f, _). List.member allowed_names f) function_arity" by code_simp
  ultimately have "f \<in> set allowed_names" by (auto simp: list_all_iff)
  then show "py_builtin (sample_python s) f args = py_builtin (sample_python 0) f args" by (simp add: sample_python_def)
qed (simp_all add: sample_python_def)

lemma sample_expression_valid: "validate_ast sample_expr = Inr ()"
proof -
  have "List.member allowed_names ''json''" "arity_ok ''json'' 1 0" "\<not> is_private ''n''" by code_simp+
  then show ?thesis
    by (simp add: validate_ast_def sample_expr_def node_ok_def root_ok_def call_ok_def const_ok_def max_dsl_literal_bytes_def show_int_def show_nat.simps)
qed

lemma sample_passes: "evaluate_pass_when (sample_python 0) ''x'' 0 [] [] () = (Inr True, ())"
proof -
  have l: "loads sample_report = Inr (JObj [(''n'', JInt 3)])" "length sample_report = 8" by code_simp+
  have parts: "rel_parts ''a.json'' = [''a.json'']" "confined [''a.json'']" "name_value (sample_python 0) cx ''json'' = Inr (PFun ''json'')"
    "\<not> startswith ''a.json'' ''/''" for cx
    by (code_simp, code_simp, simp add: name_value_def function_arity_def, code_simp)
  have "json_fn (sample_python 0) ''a.json'' () = (Inr (PView (JObj [(''n'', JInt 3)])), ())"
    by (simp add: json_fn_def parts Let_def act_bind_def) (simp add: sample_python_def parts ret_def act_res_def act_bind_def max_dsl_json_bytes_def l)
  then have "eval_expr (sample_python 0) cx (Call (Name ''json'') [Const (CStr ''a.json'')] []) () = (Inr (PView (JObj [(''n'', JInt 3)])), ())" for cx
    by (simp add: act_bind_def act_res_def const_value_def parts(3) call_function_def ret_def)
  then have "eval_expr (sample_python 0) cx sample_expr () = (Inr (PBool True), ())" for cx
    by (simp add: sample_expr_def act_bind_def act_res_def get_attr_def of_json_def const_value_def compare_values_def unview_def ret_def del: eval_expr.simps(4))
      (simp add: sample_python_def)
  moreover have "parsed (sample_python 0) ''x'' = Inr sample_expr" by (simp add: parsed_def sample_expression_valid) (simp add: sample_python_def sample_expression_valid)
  ultimately show ?thesis by (simp add: evaluate_pass_when_def act_bind_def act_res_def ret_def)
qed

lemma pass_when_confined_witness: "evaluate_pass_when (sample_python 42) ''x'' 0 [] [] () = (Inr True, ())"
  by (rule trans [OF fun_cong [OF pass_when_confined [OF sample_agree]] sample_passes])

lemma verdict_is_boolean_witness: "\<exists>e. eval_expr (sample_python 0) \<lparr>cx_exit = 0, cx_stdout = [], cx_stderr = []\<rparr> e () = (Inr (PBool True), ())"
  using verdict_is_boolean [OF sample_passes] by blast

end
