(* ===== verification/GoalFile.thy ===== *)
theory GoalFile
  imports PassWhen
begin

text \<open>
  The loader of \<open>goals.yaml\<close>, the first half of \<open>peers/goals.py\<close>. YAML is the parameter \<open>yaml\<close>, the value it gives is taken
  as JSON; the fields \<open>cmd\<close> and \<open>pass_when\<close> of a soft goal, which nothing reads, are empty here. The digits of
  a quorum are the ASCII ones.
\<close>

section \<open>Fields\<close>

definition valid_reviewer_modes :: "string list" where
  "valid_reviewer_modes = [''other'', ''both'', ''alternating'', ''quorum'']"

definition goals_yaml_max_bytes :: nat where
  "goals_yaml_max_bytes = 2 * 1024 * 1024"

text \<open>What \<open>Goal\<close> holds beyond what the engine reads.\<close>

record loaded_goal = goal +
  go_description :: json
  go_prompt :: json
  go_interval :: int

definition max_str_digits :: nat where
  "max_str_digits = 4300"

text \<open>\<open>\s*(\d+)\s*\<close> at the front: the number and what is left.\<close>

definition read_number :: "string \<Rightarrow> (int \<times> string) option" where
  "read_number s =
     (let t = lstrip s; ds = takeWhile is_digit t in
      if ds = [] \<or> max_str_digits < length ds then None
      else Some (int (read_nat ds), lstrip (dropWhile is_digit t)))"

definition parse_quorum :: "json \<Rightarrow> (int \<times> int) option res" where
  "parse_quorum j =
     (case j of
        JNull \<Rightarrow> Inr None
      | JStr s \<Rightarrow>
          (case read_number s of
             Some (num, c # rest) \<Rightarrow>
               (if c \<noteq> CHR ''/'' then Inl ValueError
                else (case read_number rest of
                   Some (den, []) \<Rightarrow> if den \<le> 0 \<or> num \<le> 0 \<or> den < num then Inl ValueError else Inr (Some (num, den))
                 | _ \<Rightarrow> Inl ValueError))
           | _ \<Rightarrow> Inl ValueError)
      | _ \<Rightarrow> Inl ValueError)"

definition positive_field :: "json \<Rightarrow> int res" where
  "positive_field j = (case j of JInt i \<Rightarrow> if i \<le> 0 then Inl ValueError else Inr i | _ \<Rightarrow> Inl ValueError)"

definition nonneg_int :: "int \<Rightarrow> json \<Rightarrow> int res" where
  "nonneg_int cap j =
     (case j of JNull \<Rightarrow> Inr 0 | JInt i \<Rightarrow> if i < 0 then Inl ValueError else Inr (min i cap) | _ \<Rightarrow> Inl ValueError)"

definition bool_flag :: "json \<Rightarrow> bool res" where
  "bool_flag j = (case j of JNull \<Rightarrow> Inr False | JBool b \<Rightarrow> Inr b | _ \<Rightarrow> Inl ValueError)"

definition optional_positive :: "json \<Rightarrow> int option res" where
  "optional_positive j = (if j = JNull then Inr None else res_bind (positive_field j) (\<lambda>i. Inr (Some i)))"

definition reviewer_mode :: "json \<Rightarrow> string option res" where
  "reviewer_mode j =
     (case j of
        JNull \<Rightarrow> Inr None
      | JStr m \<Rightarrow> if m \<in> set valid_reviewer_modes then Inr (Some m) else Inl ValueError
      | _ \<Rightarrow> Inl ValueError)"

definition nonempty_name :: "json \<Rightarrow> string res" where
  "nonempty_name j = (case j of JStr s \<Rightarrow> if s = [] then Inl ValueError else Inr s | _ \<Rightarrow> Inl ValueError)"

text \<open>\<open>isinstance(x, str) and x.strip()\<close>.\<close>

definition nonblank :: "json \<Rightarrow> bool" where
  "nonblank j = (case j of JStr s \<Rightarrow> strip s \<noteq> [] | _ \<Rightarrow> False)"

definition text_of :: "json \<Rightarrow> string" where
  "text_of j = (case j of JStr s \<Rightarrow> s | _ \<Rightarrow> [])"

section \<open>One entry\<close>

definition goal_of :: "string \<Rightarrow> string \<Rightarrow> raw \<Rightarrow> loaded_goal res" where
  "goal_of gid gtype e =
     res_bind (positive_field (jget_default e ''consensus_needed'' (JInt 2))) (\<lambda>consensus.
     res_bind (positive_field (jget_default e ''review_interval'' (JInt 5))) (\<lambda>interval.
     res_bind (parse_quorum (jget e ''quorum'')) (\<lambda>quorum.
     res_bind (optional_positive (jget e ''timeout_s'')) (\<lambda>timeout.
     res_bind (reviewer_mode (jget e ''reviewer'')) (\<lambda>reviewer.
     if reviewer = Some ''quorum'' \<and> quorum = None then Inl ValueError
     else
       res_bind (bool_flag (jget e ''cacheable'')) (\<lambda>cacheable.
       res_bind (bool_flag (jget e ''expensive'')) (\<lambda>expensive.
       res_bind (nonneg_int 5 (jget_default e ''retry_on_fail'' (JInt 0))) (\<lambda>retry.
         Inr \<lparr>go_id = gid, go_hard = (gtype = ''hard''), go_cmd = text_of (jget e ''cmd''), go_pass_when = text_of (jget e ''pass_when''),
              go_timeout = timeout, go_cacheable = cacheable, go_retry = retry, go_expensive = expensive, go_reviewer = reviewer,
              go_consensus = consensus, go_quorum = quorum, go_description = jget e ''description'', go_prompt = jget e ''prompt'',
              go_interval = interval\<rparr>))))))))"

definition check_kind :: "('o, 'w) python \<Rightarrow> string \<Rightarrow> raw \<Rightarrow> loaded_goal \<Rightarrow> unit res" where
  "check_kind py gtype e g =
     (if gtype = ''hard'' then
        (if \<not> nonblank (jget e ''cmd'') \<or> \<not> nonblank (jget e ''pass_when'') then Inl ValueError
         else validate_pass_when_at_load py (go_pass_when g))
      else if gtype = ''soft'' then
        (if \<not> nonblank (jget e ''prompt'') \<or> go_reviewer g = None then Inl ValueError else Inr ())
      else Inl ValueError)"

definition load_entry :: "('o, 'w) python \<Rightarrow> string list \<Rightarrow> json \<Rightarrow> loaded_goal res" where
  "load_entry py seen entry =
     (case entry of
        JObj e \<Rightarrow>
          res_bind (nonempty_name (jget e ''id'')) (\<lambda>gid.
          if gid \<in> set seen then Inl ValueError
          else
            res_bind (nonempty_name (jget e ''type'')) (\<lambda>gtype.
            res_bind (goal_of gid gtype e) (\<lambda>g.
            res_bind (check_kind py gtype e g) (\<lambda>_. Inr g))))
      | _ \<Rightarrow> Inl ValueError)"

fun load_entries :: "('o, 'w) python \<Rightarrow> string list \<Rightarrow> json list \<Rightarrow> loaded_goal list res" where
  "load_entries py seen [] = Inr []"
| "load_entries py seen (x # xs) =
     res_bind (load_entry py seen x) (\<lambda>g.
     res_bind (load_entries py (go_id g # seen) xs) (\<lambda>gs. Inr (g # gs)))"

definition goals_of_yaml :: "('o, 'w) python \<Rightarrow> json \<Rightarrow> loaded_goal list res" where
  "goals_of_yaml py j =
     (case j of
        JNull \<Rightarrow> Inr []
      | JObj d \<Rightarrow>
          (case jget_default d ''goals'' (JList []) of
             JNull \<Rightarrow> Inr []
           | JList xs \<Rightarrow> load_entries py [] xs
           | _ \<Rightarrow> Inl ValueError)
      | _ \<Rightarrow> Inl ValueError)"

text \<open>A YAML error is raised again as a \<open>ValueError\<close>, as is text that is not UTF-8.\<close>

definition parse_goals_yaml_bytes :: "('o, 'w) python \<Rightarrow> (string \<Rightarrow> json option) \<Rightarrow> string \<Rightarrow> loaded_goal list res" where
  "parse_goals_yaml_bytes py yaml data =
     (if goals_yaml_max_bytes < length data then Inl ValueError
      else case decode data of
        Inl _ \<Rightarrow> Inl ValueError
      | Inr text \<Rightarrow> (case yaml text of None \<Rightarrow> Inl ValueError | Some j \<Rightarrow> goals_of_yaml py j))"

definition load_goals :: "('o, 'w) python \<Rightarrow> (string \<Rightarrow> json option) \<Rightarrow> (nat \<Rightarrow> ('w, string) act) \<Rightarrow> ('w, loaded_goal list) act" where
  "load_goals py yaml read =
     act_bind (read (goals_yaml_max_bytes + 1)) (\<lambda>data. act_res (parse_goals_yaml_bytes py yaml data))"

section \<open>What is loaded\<close>

text \<open>What every use of a goal relies on.\<close>

definition good_goal :: "('o, 'w) python \<Rightarrow> loaded_goal \<Rightarrow> bool" where
  "good_goal py g \<longleftrightarrow>
     go_id g \<noteq> [] \<and> 0 < go_consensus g \<and> 0 < go_interval g \<and> 0 \<le> go_retry g \<and> go_retry g \<le> 5 \<and>
     (\<forall>t. go_timeout g = Some t \<longrightarrow> 0 < t) \<and>
     (\<forall>n m. go_quorum g = Some (n, m) \<longrightarrow> 0 < n \<and> n \<le> m) \<and>
     (go_reviewer g = Some ''quorum'' \<longrightarrow> go_quorum g \<noteq> None) \<and>
     (\<forall>m. go_reviewer g = Some m \<longrightarrow> m \<in> set valid_reviewer_modes) \<and>
     (if go_hard g then strip (go_cmd g) \<noteq> [] \<and> (\<exists>e. parsed py (go_pass_when g) = Inr e)
      else go_reviewer g \<noteq> None \<and> nonblank (go_prompt g))"

lemma positive_field_Inr: "positive_field j = Inr i \<longleftrightarrow> j = JInt i \<and> 0 < i"
  by (cases j) (auto simp: positive_field_def)

lemma optional_positive_Inr: "optional_positive j = Inr (Some i) \<Longrightarrow> 0 < i"
  by (auto simp: optional_positive_def res_bind_Inr_iff positive_field_Inr split: if_splits)

lemma nonneg_int_Inr: "nonneg_int 5 j = Inr i \<Longrightarrow> 0 \<le> i \<and> i \<le> 5"
  by (cases j) (auto simp: nonneg_int_def split: if_splits)

lemma reviewer_mode_Inr: "reviewer_mode j = Inr (Some m) \<Longrightarrow> m \<in> set valid_reviewer_modes"
  by (cases j) (auto simp: reviewer_mode_def split: if_splits)

lemma parse_quorum_Inr: "parse_quorum j = Inr (Some (n, m)) \<Longrightarrow> 0 < n \<and> n \<le> m"
  by (cases j) (auto simp: parse_quorum_def split: option.splits prod.splits list.splits if_splits)

lemma nonblank_iff: "nonblank j \<longleftrightarrow> (\<exists>s. j = JStr s \<and> strip s \<noteq> [])"
  by (cases j) (auto simp: nonblank_def)

lemma goal_of_Inr:
  assumes "goal_of gid gtype e = Inr g"
  shows "go_id g = gid \<and> go_hard g = (gtype = ''hard'') \<and> go_cmd g = text_of (jget e ''cmd'') \<and> go_pass_when g = text_of (jget e ''pass_when'') \<and>
     go_prompt g = jget e ''prompt''"
    and "0 < go_consensus g \<and> 0 < go_interval g \<and> 0 \<le> go_retry g \<and> go_retry g \<le> 5 \<and> (\<forall>t. go_timeout g = Some t \<longrightarrow> 0 < t) \<and>
     (\<forall>n m. go_quorum g = Some (n, m) \<longrightarrow> 0 < n \<and> n \<le> m) \<and> (go_reviewer g = Some ''quorum'' \<longrightarrow> go_quorum g \<noteq> None) \<and>
     (\<forall>m. go_reviewer g = Some m \<longrightarrow> m \<in> set valid_reviewer_modes)"
proof -
  from assms obtain consensus interval quorum timeout reviewer cacheable expensive retry where
    1: "positive_field (jget_default e ''consensus_needed'' (JInt 2)) = Inr consensus"
      "positive_field (jget_default e ''review_interval'' (JInt 5)) = Inr interval"
      "parse_quorum (jget e ''quorum'') = Inr quorum" "optional_positive (jget e ''timeout_s'') = Inr timeout"
      "reviewer_mode (jget e ''reviewer'') = Inr reviewer" "\<not> (reviewer = Some ''quorum'' \<and> quorum = None)"
      "nonneg_int 5 (jget_default e ''retry_on_fail'' (JInt 0)) = Inr retry"
    and g: "g = \<lparr>go_id = gid, go_hard = (gtype = ''hard''), go_cmd = text_of (jget e ''cmd''), go_pass_when = text_of (jget e ''pass_when''),
              go_timeout = timeout, go_cacheable = cacheable, go_retry = retry, go_expensive = expensive, go_reviewer = reviewer,
              go_consensus = consensus, go_quorum = quorum, go_description = jget e ''description'', go_prompt = jget e ''prompt'',
              go_interval = interval\<rparr>"
    unfolding goal_of_def res_bind_Inr_iff by (auto simp: res_bind_Inr_iff split: if_splits)
  show "go_id g = gid \<and> go_hard g = (gtype = ''hard'') \<and> go_cmd g = text_of (jget e ''cmd'') \<and> go_pass_when g = text_of (jget e ''pass_when'') \<and>
     go_prompt g = jget e ''prompt''" by (simp add: g)
  show "0 < go_consensus g \<and> 0 < go_interval g \<and> 0 \<le> go_retry g \<and> go_retry g \<le> 5 \<and> (\<forall>t. go_timeout g = Some t \<longrightarrow> 0 < t) \<and>
     (\<forall>n m. go_quorum g = Some (n, m) \<longrightarrow> 0 < n \<and> n \<le> m) \<and> (go_reviewer g = Some ''quorum'' \<longrightarrow> go_quorum g \<noteq> None) \<and>
     (\<forall>m. go_reviewer g = Some m \<longrightarrow> m \<in> set valid_reviewer_modes)"
    using 1 by (auto simp: g positive_field_Inr dest: optional_positive_Inr nonneg_int_Inr reviewer_mode_Inr parse_quorum_Inr)
qed

lemma load_entry_Inr:
  assumes "load_entry py seen x = Inr g"
  shows "good_goal py g" and "go_id g \<notin> set seen"
proof -
  from assms obtain e gid gtype where x: "x = JObj e" and 1: "nonempty_name (jget e ''id'') = Inr gid" "gid \<notin> set seen"
      "goal_of gid gtype e = Inr g" "check_kind py gtype e g = Inr ()"
    by (cases x) (auto simp: load_entry_def res_bind_Inr_iff split: if_splits)
  have gid: "gid \<noteq> []" using 1(1) by (cases "jget e ''id''") (auto simp: nonempty_name_def split: if_splits)
  note a = goal_of_Inr [OF 1(3)]
  with 1(2) show "go_id g \<notin> set seen" by simp
  have "if go_hard g then strip (go_cmd g) \<noteq> [] \<and> (\<exists>e. parsed py (go_pass_when g) = Inr e) else go_reviewer g \<noteq> None \<and> nonblank (go_prompt g)"
  proof (cases "gtype = ''hard''")
    case True
    with 1(4) have "nonblank (jget e ''cmd'')" "validate_pass_when_at_load py (go_pass_when g) = Inr ()"
      by (auto simp: check_kind_def split: if_splits)
    with True a(1) show ?thesis by (auto simp: nonblank_iff text_of_def validate_pass_when_at_load_def res_bind_Inr_iff)
  next
    case False
    with 1(4) have "nonblank (jget e ''prompt'')" "go_reviewer g \<noteq> None" by (auto simp: check_kind_def split: if_splits)
    with False a(1) show ?thesis by simp
  qed
  with a gid show "good_goal py g" by (simp add: good_goal_def)
qed

lemma load_entries_Inr:
  "load_entries py seen xs = Inr gs \<Longrightarrow> (\<forall>g \<in> set gs. good_goal py g) \<and> distinct (map go_id gs) \<and> set (map go_id gs) \<inter> set seen = {}"
proof (induction xs arbitrary: seen gs)
  case (Cons x xs)
  from Cons.prems obtain g hs where 1: "load_entry py seen x = Inr g" "load_entries py (go_id g # seen) xs = Inr hs" "gs = g # hs"
    by (auto simp: res_bind_Inr_iff)
  from Cons.IH [OF 1(2)] load_entry_Inr [OF 1(1)] 1(3) show ?case by auto
qed simp

text \<open>
  C31: what the loader accepts is what the rest of the program takes for granted. The ids are distinct and not empty, a hard goal has
  a command and an expression that parses and passes the checks of the language, a soft goal a prompt and one of the four
  reviewer modes, a quorum goal \<open>0 < N \<le> M\<close>, and every count is in its range.
\<close>

theorem loaded_goals_are_good:
  assumes "load_goals py yaml read w = (Inr gs, w')"
  shows "distinct (map go_id gs) \<and> (\<forall>g \<in> set gs. good_goal py g)"
proof -
  from assms obtain data where "Inr gs = parse_goals_yaml_bytes py yaml data" by (auto simp: load_goals_def act_bind_Inr)
  then obtain j where "goals_of_yaml py j = Inr gs"
    by (auto simp: parse_goals_yaml_bytes_def split: if_splits sum.splits option.splits)
  then have "gs = [] \<or> (\<exists>xs. load_entries py [] xs = Inr gs)"
    by (cases j) (auto simp: goals_of_yaml_def split: json.splits)
  then show ?thesis using load_entries_Inr by fastforce
qed

section \<open>A file with two goals\<close>

definition hard_entry :: raw where
  "hard_entry = [(''id'', JStr ''t''), (''type'', JStr ''hard''), (''cmd'', JStr ''make''), (''pass_when'', JStr ''x'')]"

definition soft_entry :: raw where
  "soft_entry = [(''id'', JStr ''r''), (''type'', JStr ''soft''), (''prompt'', JStr ''p''), (''reviewer'', JStr ''quorum''), (''quorum'', JStr '' 2 / 3'')]"

definition sample_yaml :: json where
  "sample_yaml = JObj [(''goals'', JList [JObj hard_entry, JObj soft_entry])]"

lemma hard_entry_loads: "\<exists>g. load_entry (sample_python 0) [] (JObj hard_entry) = Inr g \<and> go_id g = ''t''"
proof -
  have "nonempty_name (jget hard_entry ''id'') = Inr ''t''" "nonempty_name (jget hard_entry ''type'') = Inr ''hard''"
    "nonblank (jget hard_entry ''cmd'')" "nonblank (jget hard_entry ''pass_when'')" "\<not> isl (goal_of ''t'' ''hard'' hard_entry)" by code_simp+
  moreover from this(5) obtain g where "goal_of ''t'' ''hard'' hard_entry = Inr g" by (cases "goal_of ''t'' ''hard'' hard_entry") auto
  moreover have "validate_pass_when_at_load (sample_python 0) x = Inr ()" for x
    by (simp add: validate_pass_when_at_load_def parsed_def) (simp add: sample_python_def sample_expression_valid)
  ultimately have "load_entry (sample_python 0) [] (JObj hard_entry) = Inr g" by (simp add: load_entry_def check_kind_def)
  with goal_of_Inr(1) [OF \<open>goal_of ''t'' ''hard'' hard_entry = Inr g\<close>] show ?thesis by blast
qed

lemma soft_entry_loads: "\<exists>g. load_entry (sample_python 0) [''t''] (JObj soft_entry) = Inr g \<and> go_id g = ''r''"
proof -
  have "nonempty_name (jget soft_entry ''id'') = Inr ''r''" "nonempty_name (jget soft_entry ''type'') = Inr ''soft''"
    "nonblank (jget soft_entry ''prompt'')" "res_bind (goal_of ''r'' ''soft'' soft_entry) (\<lambda>g. Inr (go_reviewer g)) = Inr (Some ''quorum'')" by code_simp+
  moreover from this(4) obtain g where "goal_of ''r'' ''soft'' soft_entry = Inr g" "go_reviewer g = Some ''quorum''"
    by (auto simp: res_bind_Inr_iff)
  ultimately have "load_entry (sample_python 0) [''t''] (JObj soft_entry) = Inr g" by (simp add: load_entry_def check_kind_def)
  with goal_of_Inr(1) [OF \<open>goal_of ''r'' ''soft'' soft_entry = Inr g\<close>] show ?thesis by blast
qed

theorem loaded_goals_are_good_witness:
  "\<exists>gs. load_goals (sample_python 0) (\<lambda>_. Some sample_yaml) (\<lambda>_. ret ''y'') () = (Inr gs, ()) \<and> map go_id gs = [''t'', ''r''] \<and> distinct (map go_id gs)"
proof -
  obtain g h where g: "load_entry (sample_python 0) [] (JObj hard_entry) = Inr g" "go_id g = ''t''"
    and h: "load_entry (sample_python 0) [''t''] (JObj soft_entry) = Inr h" "go_id h = ''r''"
    using hard_entry_loads soft_entry_loads by blast
  have "decode ''y'' = Inr ''y''" by code_simp
  then have "load_goals (sample_python 0) (\<lambda>_. Some sample_yaml) (\<lambda>_. ret ''y'') () = (Inr [g, h], ())"
    by (simp add: load_goals_def act_bind_def ret_def act_res_def parse_goals_yaml_bytes_def goals_yaml_max_bytes_def goals_of_yaml_def
      sample_yaml_def jget_default_def lookup_default_def g h)
  with loaded_goals_are_good [OF this] g(2) h(2) show ?thesis by (intro exI [of _ "[g, h]"]) simp
qed

end
