(* ===== verification/SoftReviews.thy ===== *)
theory SoftReviews
  imports GoalFile StateStore
begin

text \<open>
  The reviews of soft goals, \<open>peers/driver_soft_reviews.py\<close>, and the digests of the baselines they are weighed with at
  convergence, \<open>peers/regression_baseline.py\<close>. The state is the JSON dict the code holds, read as defensively
  as the code reads it; the wording of warnings is the argument \<open>text\<close>.
\<close>

section \<open>Reading a review\<close>

definition is_hex :: "char \<Rightarrow> bool" where
  "is_hex c \<longleftrightarrow> is_digit c \<or> 65 \<le> byte c \<and> byte c \<le> 70 \<or> 97 \<le> byte c \<and> byte c \<le> 102"

definition looks_like_git_sha :: "string \<Rightarrow> bool" where
  "looks_like_git_sha v \<longleftrightarrow> (let s = strip v in list_all is_hex s \<and> 7 \<le> length s \<and> length s \<le> 64)"

definition tab_or_space :: "char \<Rightarrow> bool" where
  "tab_or_space c \<longleftrightarrow> byte c = 9 \<or> byte c = 32"

text \<open>\<open>Review\<close> in any case; Python also folds the dotted capital and the dotless small \<open>i\<close> to \<open>i\<close>.\<close>

fun drop_letter :: "char \<Rightarrow> string \<Rightarrow> string option" where
  "drop_letter l [] = None"
| "drop_letter l (c # cs) =
     (if lower_char c = l then Some cs
      else if l = CHR ''i'' \<and> byte c = 196 then
        (case cs of d # r \<Rightarrow> if byte d = 176 \<or> byte d = 177 then Some r else None | [] \<Rightarrow> None)
      else None)"

fun drop_word :: "string \<Rightarrow> string \<Rightarrow> string option" where
  "drop_word [] s = Some s"
| "drop_word (l # ls) s = (case drop_letter l s of None \<Rightarrow> None | Some r \<Rightarrow> drop_word ls r)"

text \<open>The line \<open>^##[ \t]+Review[ \t]*\r?$\<close>.\<close>

definition review_heading :: "string \<Rightarrow> bool" where
  "review_heading line \<longleftrightarrow>
     startswith line ''##'' \<and> drop 2 line \<noteq> [] \<and> tab_or_space (hd (drop 2 line)) \<and>
     (case drop_word ''review'' (dropWhile tab_or_space (drop 2 line)) of
        None \<Rightarrow> False
      | Some r \<Rightarrow> dropWhile tab_or_space r \<in> {[], [char_of (13::nat)]})"

definition line_feed :: "char \<Rightarrow> bool" where
  "line_feed c \<longleftrightarrow> byte c = 10"

text \<open>The text after the first heading, from the end of its line on.\<close>

function review_section_body :: "string \<Rightarrow> string option" where
  "review_section_body s =
     (let line = takeWhile (\<lambda>c. \<not> line_feed c) s; rest = dropWhile (\<lambda>c. \<not> line_feed c) s in
      if review_heading line then Some rest
      else (case rest of [] \<Rightarrow> None | _ # r \<Rightarrow> review_section_body r))"
  by pat_completeness auto
termination
proof (relation "measure length")
  fix s line rest :: string and c r assume "rest = dropWhile (\<lambda>c. \<not> line_feed c) s" "rest = c # r"
  then have "length (c # r) \<le> length s" using length_dropWhile_le [of "\<lambda>c. \<not> line_feed c" s] by simp
  then show "(r, s) \<in> measure length" by simp
qed simp

declare review_section_body.simps [simp del]

text \<open>
  \<open>_extract_first_json_object\<close>: whether the scan is in a string, whether the character is escaped, the depth, the text
  of the block so far (backwards), and the rest.
\<close>

fun first_object :: "bool \<Rightarrow> bool \<Rightarrow> nat \<Rightarrow> string \<Rightarrow> string \<Rightarrow> raw option" where
  "first_object instr escaped depth acc [] = None"
| "first_object instr escaped depth acc (c # cs) =
     (let acc' = (if depth = 0 then [] else c # acc) in
      if escaped then first_object instr False depth acc' cs
      else if c = CHR 0x5C \<and> instr then first_object instr True depth acc' cs
      else if c = CHR 0x22 then first_object (\<not> instr) False depth acc' cs
      else if instr then first_object instr False depth acc' cs
      else if c = CHR ''{'' then first_object False False (depth + 1) (c # acc) cs
      else if c = CHR ''}'' \<and> depth > 0 then
        (if depth = 1 then
           (case loads (rev acc') of
              Inr (JObj d) \<Rightarrow> Some d
            | _ \<Rightarrow> first_object False False 0 [] cs)
         else first_object False False (depth - 1) acc' cs)
      else first_object False False depth acc' cs)"

definition extract_first_json_object :: "string \<Rightarrow> raw option" where
  "extract_first_json_object body = first_object False False 0 [] body"

section \<open>The soft status\<close>

definition default_soft_status :: raw where
  "default_soft_status = [(''consensus_count'', JInt 0), (''last_pass'', JNull), (''history'', JList []), (''alt_cursor'', JInt 0), (''per_peer'', JObj [])]"

definition soft_status_map :: "raw \<Rightarrow> raw" where
  "soft_status_map s = obj_or_empty (jget_default s ''soft_status'' (JObj []))"

definition soft_goal_status :: "raw \<Rightarrow> string \<Rightarrow> raw" where
  "soft_goal_status ss gid = obj_or_empty (jget_default ss gid (JObj []))"

definition mutable_soft_goal_status :: "raw \<Rightarrow> string \<Rightarrow> raw" where
  "mutable_soft_goal_status ss gid = (case jget ss gid of JObj d \<Rightarrow> d | _ \<Rightarrow> default_soft_status)"

definition state_goals_config :: "raw \<Rightarrow> raw" where
  "state_goals_config s = (case jget_default s ''config'' (JObj []) of JObj c \<Rightarrow> obj_or_empty (jget_default c ''goals'' (JObj [])) | _ \<Rightarrow> [])"

definition int_or :: "int \<Rightarrow> json \<Rightarrow> int" where
  "int_or d j = (case j of JInt i \<Rightarrow> i | _ \<Rightarrow> d)"

definition valid_consensus_count :: "int \<Rightarrow> json \<Rightarrow> bool" where
  "valid_consensus_count need j =
     (case j of JObj d \<Rightarrow> (case jget_default d ''consensus_count'' (JInt 0) of JInt i \<Rightarrow> need \<le> i | _ \<Rightarrow> False) | _ \<Rightarrow> False)"

definition next_consensus_count :: "raw \<Rightarrow> int" where
  "next_consensus_count d = int_or 0 (jget_default d ''consensus_count'' (JInt 0)) + 1"

definition soft_consensus_falsy :: "string list" where
  "soft_consensus_falsy = [''false'', ''0'', ''no'', ''off'', []]"

definition soft_consensus_required :: "raw \<Rightarrow> bool" where
  "soft_consensus_required s =
     (case jget_default (state_goals_config s) ''soft_consensus_required'' (JBool True) of
        JBool b \<Rightarrow> b
      | JStr t \<Rightarrow> lower (strip t) \<notin> set soft_consensus_falsy
      | j \<Rightarrow> truthy j)"

section \<open>Consensus\<close>

definition mode_of :: "'a goal_scheme \<Rightarrow> string" where
  "mode_of g = (case go_reviewer g of Some m \<Rightarrow> if m = [] then ''other'' else m | None \<Rightarrow> ''other'')"

text \<open>The reviewers who pass in a stretch of the history.\<close>

definition passer :: "json \<Rightarrow> json option" where
  "passer j =
     (case j of
        JObj d \<Rightarrow> if jget d ''pass'' = JBool True \<and> jget d ''reviewer'' \<noteq> JNull then Some (jget d ''reviewer'') else None
      | _ \<Rightarrow> None)"

definition distinct_passers :: "json list \<Rightarrow> json list" where
  "distinct_passers recent = remdups (List.map_filter passer recent)"

definition list_or_empty :: "json \<Rightarrow> json list" where
  "list_or_empty j = (case j of JList xs \<Rightarrow> xs | _ \<Rightarrow> [])"

text \<open>A quorum goal has its two numbers: \<open>loaded_goals_are_good\<close>.\<close>

definition soft_goal_passed :: "'a goal_scheme \<Rightarrow> raw \<Rightarrow> nat \<Rightarrow> bool" where
  "soft_goal_passed g sg n_peers =
     (if mode_of g = ''quorum'' then
        (case go_quorum g of
           None \<Rightarrow> False
         | Some (num, den) \<Rightarrow>
             (let recent = last_n (nat den) (list_or_empty (jget_default sg ''history'' (JList []))) in
              int (length recent) \<ge> den \<and> int (length (distinct_passers recent)) \<ge> num))
      else if mode_of g = ''both'' then
        length (filter (\<lambda>(_, v). valid_consensus_count (go_consensus g) v) (obj_or_empty (jget_default sg ''per_peer'' (JObj [])))) \<ge> max n_peers 1
      else valid_consensus_count (go_consensus g) (JObj sg))"

definition alternating_reviewer_index :: "nat \<Rightarrow> raw \<Rightarrow> string \<Rightarrow> nat option" where
  "alternating_reviewer_index n ss gid =
     (if n = 0 then None else Some (nat (int_or 0 (jget_default (mutable_soft_goal_status ss gid) ''alt_cursor'' (JInt 0)) mod int n)))"

definition review_due :: "string list \<Rightarrow> raw \<Rightarrow> string \<Rightarrow> 'a goal_scheme \<Rightarrow> bool" where
  "review_due order ss peer g =
     (\<not> go_hard g \<and> \<not> soft_goal_passed g (soft_goal_status ss (go_id g)) (length order) \<and>
      (if mode_of g \<in> {''other'', ''both'', ''quorum''} then True
       else mode_of g = ''alternating'' \<and>
         (case alternating_reviewer_index (length order) ss (go_id g) of Some i \<Rightarrow> order ! i = peer | None \<Rightarrow> False)))"

definition soft_reviews_pending :: "string list \<Rightarrow> raw \<Rightarrow> string \<Rightarrow> 'a goal_scheme list \<Rightarrow> 'a goal_scheme list" where
  "soft_reviews_pending order s peer goals = filter (review_due order (soft_status_map s) peer) goals"

text \<open>\<open>forged\<close> is the answer of \<open>verify_baseline_digests\<close> below.\<close>

definition all_green_including_soft :: "bool \<Rightarrow> string list \<Rightarrow> string list \<Rightarrow> raw \<Rightarrow> 'a goal_scheme list \<Rightarrow> bool" where
  "all_green_including_soft hard_green forged order s goals =
     (hard_green \<and> forged = [] \<and>
      (soft_consensus_required s \<longrightarrow>
        list_all (\<lambda>g. go_hard g \<or> soft_goal_passed g (soft_goal_status (soft_status_map s) (go_id g)) (length order)) goals))"

section \<open>Recording a review\<close>

record review_commit =
  rc_sha :: string
  rc_body :: string
  rc_target :: "string option"

record review =
  rv_reviewer :: string
  rv_pass :: bool
  rv_sha :: string
  rv_notes :: json

datatype soft_warning = NoSuchGoal string string | NoSection string string | NoJson string string | BadPass string string json

definition rolls :: "'a goal_scheme \<Rightarrow> bool" where
  "rolls g \<longleftrightarrow> mode_of g \<in> {''other'', ''alternating''}"

definition roll :: "review \<Rightarrow> raw \<Rightarrow> raw" where
  "roll r soft =
     (let counted =
        (if rv_pass r then
           dict_set (dict_set soft ''consensus_count''
             (JInt (if jget soft ''last_pass'' = JBool True \<and> jget soft ''last_reviewer'' \<noteq> JStr (rv_reviewer r)
                    then next_consensus_count soft else 1))) ''last_pass'' (JBool True)
         else dict_set (dict_set soft ''consensus_count'' (JInt 0)) ''last_pass'' (JBool False)) in
      dict_set counted ''last_reviewer'' (JStr (rv_reviewer r)))"

definition peer_tally :: "bool \<Rightarrow> raw \<Rightarrow> raw" where
  "peer_tally ok pp =
     (if ok then
        dict_set (dict_set pp ''consensus_count'' (JInt (if jget pp ''last_pass'' = JBool True then next_consensus_count pp else 1)))
          ''last_pass'' (JBool True)
      else dict_set (dict_set pp ''consensus_count'' (JInt 0)) ''last_pass'' (JBool False))"

definition default_peer_tally :: raw where
  "default_peer_tally = [(''consensus_count'', JInt 0), (''last_pass'', JNull)]"

text \<open>The dict that \<open>soft.get("per_peer", {})\<close> makes up for a missing key is never stored.\<close>

definition tally_per_peer :: "review \<Rightarrow> raw \<Rightarrow> raw" where
  "tally_per_peer r soft =
     (if has_key soft ''per_peer'' then
        (let per = obj_or_empty (jget soft ''per_peer'');
             pp = (case jget per (rv_reviewer r) of JObj d \<Rightarrow> d | _ \<Rightarrow> default_peer_tally) in
         dict_set soft ''per_peer'' (JObj (dict_set per (rv_reviewer r) (JObj (peer_tally (rv_pass r) pp)))))
      else soft)"

definition advance_cursor :: "nat \<Rightarrow> raw \<Rightarrow> raw" where
  "advance_cursor n soft =
     (if n = 0 then soft
      else dict_set soft ''alt_cursor'' (JInt ((int_or 0 (jget_default soft ''alt_cursor'' (JInt 0)) + 1) mod int n)))"

definition history_entry :: "review \<Rightarrow> json" where
  "history_entry r = JObj [(''pass'', JBool (rv_pass r)), (''reviewer'', JStr (rv_reviewer r)), (''sha'', JStr (rv_sha r)), (''notes'', rv_notes r)]"

definition history_cap :: nat where
  "history_cap = 20"

definition add_history :: "review \<Rightarrow> raw \<Rightarrow> raw" where
  "add_history r soft =
     dict_set soft ''history'' (JList (last_n history_cap (list_or_empty (jget_default soft ''history'' (JList [])) @ [history_entry r])))"

definition tally :: "'a goal_scheme \<Rightarrow> nat \<Rightarrow> review \<Rightarrow> raw \<Rightarrow> raw" where
  "tally g n r soft =
     (let soft1 = (if rolls g then roll r soft else soft);
          soft2 = tally_per_peer r soft1;
          soft3 = (if mode_of g = ''alternating'' then advance_cursor n soft2 else soft2) in
      add_history r soft3)"

definition order_length :: "raw \<Rightarrow> nat res" where
  "order_length s =
     (case py_or (jget s ''peer_order'') (JList []) of
        JList xs \<Rightarrow> Inr (length xs) | JObj kvs \<Rightarrow> Inr (length kvs) | JStr t \<Rightarrow> Inr (py_len t) | _ \<Rightarrow> Inl TypeError)"

definition warn_state :: "(soft_warning \<Rightarrow> string) \<Rightarrow> soft_warning \<Rightarrow> raw \<Rightarrow> (bool \<times> raw) res" where
  "warn_state text w s =
     (case jget_default s ''warnings'' (JList []) of
        JList ws \<Rightarrow> Inr (False, dict_set s ''warnings'' (JList (ws @ [JStr (text w)])))
      | _ \<Rightarrow> Inl AttributeError)"

definition find_soft_goal :: "'a goal_scheme list \<Rightarrow> string \<Rightarrow> 'a goal_scheme option" where
  "find_soft_goal goals gid = find (\<lambda>g. go_id g = gid \<and> \<not> go_hard g) goals"

definition trailer_is_soft_goal :: "'a goal_scheme list \<Rightarrow> string option \<Rightarrow> bool" where
  "trailer_is_soft_goal goals target =
     (case target of
        None \<Rightarrow> False
      | Some gid \<Rightarrow> gid \<noteq> [] \<and> (find_soft_goal goals gid \<noteq> None \<or> \<not> looks_like_git_sha gid))"

text \<open>What the body of a review commit says: a verdict with its notes, or why it says nothing.\<close>

definition read_verdict :: "review_commit \<Rightarrow> string \<Rightarrow> soft_warning + (bool \<times> json)" where
  "read_verdict c gid =
     (case review_section_body (rc_body c) of
        None \<Rightarrow> Inl (NoSection (rc_sha c) gid)
      | Some body \<Rightarrow>
          (case extract_first_json_object body of
             None \<Rightarrow> Inl (NoJson (rc_sha c) gid)
           | Some payload \<Rightarrow>
               (case jget payload ''pass'' of
                  JBool b \<Rightarrow> Inr (b, jget_default payload ''notes'' (JStr []))
                | v \<Rightarrow> Inl (BadPass (rc_sha c) gid v))))"

definition record_soft_review_from_commit :: "(soft_warning \<Rightarrow> string) \<Rightarrow> 'a goal_scheme list \<Rightarrow> raw \<Rightarrow> review_commit \<Rightarrow> string \<Rightarrow> (bool \<times> raw) res" where
  "record_soft_review_from_commit text goals s c reviewer =
     (case rc_target c of
        None \<Rightarrow> Inr (False, s)
      | Some gid \<Rightarrow>
          if gid = [] then Inr (False, s)
          else
            (case find_soft_goal goals gid of
               None \<Rightarrow> if looks_like_git_sha gid then Inr (False, s) else warn_state text (NoSuchGoal (rc_sha c) gid) s
             | Some g \<Rightarrow>
                 (case read_verdict c gid of
                    Inl w \<Rightarrow> warn_state text w s
                  | Inr (b, notes) \<Rightarrow>
                      (let ss = soft_status_map s;
                           r = \<lparr>rv_reviewer = reviewer, rv_pass = b, rv_sha = rc_sha c, rv_notes = notes\<rparr> in
                       res_bind (if mode_of g = ''alternating'' then order_length s else Inr 0) (\<lambda>n.
                       Inr (True, dict_set s ''soft_status'' (JObj (dict_set ss gid (JObj (tally g n r (mutable_soft_goal_status ss gid)))))))))))"

section \<open>The baselines\<close>

text \<open>The digests are anchored when the run starts; \<open>read\<close> is \<open>read_bytes_no_symlink\<close> on a name below the directory of the run.\<close>

definition digest_files :: "(string \<times> string) list" where
  "digest_files = [(''no-prior-regression'', ''passing-baseline.txt''), (''no-skipped-tests'', ''skip-baseline.txt'')]"

definition baseline_digest :: "(string \<Rightarrow> string) \<Rightarrow> (string \<Rightarrow> ('w, string) act) \<Rightarrow> string \<Rightarrow> ('w, string option) act" where
  "baseline_digest hash read name = act_except (act_bind (read name) (\<lambda>data. ret (Some (hash data)))) (\<lambda>e. e = OSError) (ret None)"

definition snapshot_baseline_digests :: "(string \<Rightarrow> string) \<Rightarrow> (string \<Rightarrow> ('w, string) act) \<Rightarrow> ('w, (string \<times> string) list) act" where
  "snapshot_baseline_digests hash read =
     fold_act (\<lambda>(gate, name) out. act_bind (baseline_digest hash read name) (\<lambda>d.
       ret (case d of Some x \<Rightarrow> dict_set out gate x | None \<Rightarrow> out))) digest_files []"

definition verify_baseline_digests :: "(string \<Rightarrow> string) \<Rightarrow> (string \<Rightarrow> ('w, string) act) \<Rightarrow> (string \<times> string) list \<Rightarrow> ('w, string list) act" where
  "verify_baseline_digests hash read anchored =
     act_bind
       (fold_act (\<lambda>(gate, expected) forged.
          case map_of digest_files gate of
            None \<Rightarrow> ret forged
          | Some name \<Rightarrow> act_bind (baseline_digest hash read name) (\<lambda>d. ret (if d = Some expected then forged else forged @ [gate])))
        anchored [])
       (\<lambda>forged. ret (sort forged))"

definition needs_snapshot :: "(string \<Rightarrow> ('w, bool) act) \<Rightarrow> string \<Rightarrow> string \<Rightarrow> string list \<Rightarrow> ('w, bool) act" where
  "needs_snapshot is_file gate name goal_ids =
     (if gate \<notin> set goal_ids then ret False else act_bind (is_file name) (\<lambda>there. ret (\<not> there)))"

text \<open>\<open>Some ok\<close> when a snapshot was attempted: \<open>ensure_baseline_snapshot\<close> and \<open>ensure_skip_baseline\<close>.\<close>

definition ensure_snapshot :: "(string \<Rightarrow> ('w, bool) act) \<Rightarrow> ('w, int) act \<Rightarrow> string \<Rightarrow> string \<Rightarrow> string list \<Rightarrow> ('w, bool option) act" where
  "ensure_snapshot is_file run_check gate name goal_ids =
     act_bind (needs_snapshot is_file gate name goal_ids) (\<lambda>needed.
     if \<not> needed then ret None else act_bind run_check (\<lambda>rc. ret (Some (rc = 0))))"

section \<open>What consensus means\<close>

lemma jget_set [simp]: "jget (dict_set d k v) x = (if x = k then v else jget d x)"
  by (simp add: jget_def lookup_default_def)

lemma jget_default_set [simp]: "jget_default (dict_set d k v) x y = (if x = k then v else jget_default d x y)"
  by (simp add: jget_default_def lookup_default_def)

lemma has_key_set [simp]: "has_key (dict_set d k v) x \<longleftrightarrow> x = k \<or> has_key d x"
  by (simp add: has_key_def)

text \<open>
  The references, over the reviews of a goal with the newest first: how many of the newest pass in a row with a different reviewer
  each time, and how many of one peer's own newest pass in a row.
\<close>

fun alternating_run :: "review list \<Rightarrow> nat" where
  "alternating_run [] = 0"
| "alternating_run (r # rs) =
     (if \<not> rv_pass r then 0
      else (case rs of
              [] \<Rightarrow> 1
            | q # _ \<Rightarrow> if rv_pass q \<and> rv_reviewer q \<noteq> rv_reviewer r then Suc (alternating_run rs) else 1))"

fun pass_run :: "bool list \<Rightarrow> nat" where
  "pass_run [] = 0"
| "pass_run (b # bs) = (if b then Suc (pass_run bs) else 0)"

definition own :: "string \<Rightarrow> review list \<Rightarrow> bool list" where
  "own p rs = map rv_pass (filter (\<lambda>r. rv_reviewer r = p) rs)"

text \<open>What the status of a goal records after the reviews \<open>rs\<close>.\<close>

definition rolled :: "review list \<Rightarrow> raw \<Rightarrow> bool" where
  "rolled rs soft \<longleftrightarrow>
     jget_default soft ''consensus_count'' (JInt 0) = JInt (int (alternating_run rs)) \<and>
     (case rs of
        [] \<Rightarrow> jget soft ''last_pass'' = JNull
      | r # _ \<Rightarrow> jget soft ''last_pass'' = JBool (rv_pass r) \<and> jget soft ''last_reviewer'' = JStr (rv_reviewer r))"

definition tallied :: "review list \<Rightarrow> raw \<Rightarrow> bool" where
  "tallied rs soft \<longleftrightarrow>
     has_key soft ''per_peer'' \<and>
     (\<exists>per. jget soft ''per_peer'' = JObj per \<and> distinct (map fst per) \<and>
       (\<forall>p. case map_of per p of
          None \<Rightarrow> own p rs = []
        | Some e \<Rightarrow> (\<exists>pp. e = JObj pp \<and> own p rs \<noteq> [] \<and> jget_default pp ''consensus_count'' (JInt 0) = JInt (int (pass_run (own p rs))) \<and>
            jget pp ''last_pass'' = JBool (hd (own p rs)))))"

definition logged :: "review list \<Rightarrow> raw \<Rightarrow> bool" where
  "logged rs soft \<longleftrightarrow> jget_default soft ''history'' (JList []) = JList (map history_entry (rev (take history_cap rs)))"

lemma roll_values:
  "jget (roll r soft) ''last_reviewer'' = JStr (rv_reviewer r)"
  "jget (roll r soft) ''last_pass'' = JBool (rv_pass r)"
  "jget_default (roll r soft) ''consensus_count'' d =
     JInt (if rv_pass r then (if jget soft ''last_pass'' = JBool True \<and> jget soft ''last_reviewer'' \<noteq> JStr (rv_reviewer r) then next_consensus_count soft else 1) else 0)"
  by (simp_all add: roll_def Let_def)

lemma rolled_roll:
  assumes "rolled rs soft"
  shows "rolled (r # rs) (roll r soft)"
proof (cases rs)
  case Nil
  with assms have "jget soft ''last_pass'' \<noteq> JBool True" by (simp add: rolled_def)
  with Nil show ?thesis by (simp only: rolled_def roll_values) simp
next
  case (Cons q qs)
  with assms have "jget soft ''last_pass'' = JBool (rv_pass q)" "jget soft ''last_reviewer'' = JStr (rv_reviewer q)"
    "next_consensus_count soft = int (alternating_run rs) + 1"
    by (simp_all only: rolled_def next_consensus_count_def int_or_def list.case json.case)
  then have "(if rv_pass r then (if jget soft ''last_pass'' = JBool True \<and> jget soft ''last_reviewer'' \<noteq> JStr (rv_reviewer r) then next_consensus_count soft else 1) else 0)
      = int (alternating_run (r # rs))"
    by (cases "rv_pass r"; cases "rv_pass q"; cases "rv_reviewer q = rv_reviewer r") (simp_all add: Cons)
  then show ?thesis by (simp only: rolled_def roll_values list.case refl simp_thms)
qed

lemma rolled_other [simp]:
  "rolled rs (dict_set soft ''per_peer'' v) = rolled rs soft"
  "rolled rs (dict_set soft ''alt_cursor'' v) = rolled rs soft"
  "rolled rs (dict_set soft ''history'' v) = rolled rs soft"
  by (cases rs; simp add: rolled_def)+

lemma tallied_other [simp]:
  "tallied rs (dict_set soft ''consensus_count'' v) = tallied rs soft"
  "tallied rs (dict_set soft ''last_pass'' v) = tallied rs soft"
  "tallied rs (dict_set soft ''last_reviewer'' v) = tallied rs soft"
  "tallied rs (dict_set soft ''alt_cursor'' v) = tallied rs soft"
  "tallied rs (dict_set soft ''history'' v) = tallied rs soft"
  by (simp_all add: tallied_def)

lemma logged_other [simp]:
  "logged rs (dict_set soft ''consensus_count'' v) = logged rs soft"
  "logged rs (dict_set soft ''last_pass'' v) = logged rs soft"
  "logged rs (dict_set soft ''last_reviewer'' v) = logged rs soft"
  "logged rs (dict_set soft ''alt_cursor'' v) = logged rs soft"
  "logged rs (dict_set soft ''per_peer'' v) = logged rs soft"
  by (simp_all add: logged_def)

lemma roll_other [simp]: "tallied rs (roll r soft) = tallied rs soft" "logged rs (roll r soft) = logged rs soft"
  by (simp_all add: roll_def Let_def)

lemma tally_per_peer_other [simp]: "rolled rs (tally_per_peer r soft) = rolled rs soft" "logged rs (tally_per_peer r soft) = logged rs soft"
  by (simp_all add: tally_per_peer_def Let_def)

lemma advance_cursor_other [simp]:
  "rolled rs (advance_cursor n soft) = rolled rs soft" "tallied rs (advance_cursor n soft) = tallied rs soft" "logged rs (advance_cursor n soft) = logged rs soft"
  by (simp_all add: advance_cursor_def)

lemma add_history_other [simp]: "rolled rs (add_history r soft) = rolled rs soft" "tallied rs (add_history r soft) = tallied rs soft"
  by (simp_all add: add_history_def)

lemma tallied_tally:
  assumes "tallied rs soft"
  shows "tallied (r # rs) (tally_per_peer r soft)"
proof -
  from assms obtain per where k: "has_key soft ''per_peer''" "jget soft ''per_peer'' = JObj per" "distinct (map fst per)"
    and per: "\<And>p. case map_of per p of
          None \<Rightarrow> own p rs = []
        | Some e \<Rightarrow> (\<exists>pp. e = JObj pp \<and> own p rs \<noteq> [] \<and> jget_default pp ''consensus_count'' (JInt 0) = JInt (int (pass_run (own p rs))) \<and>
            jget pp ''last_pass'' = JBool (hd (own p rs)))"
    unfolding tallied_def by blast
  let ?p = "rv_reviewer r"
  let ?pp = "case jget per ?p of JObj d \<Rightarrow> d | _ \<Rightarrow> default_peer_tally"
  have own: "own ?p (r # rs) = rv_pass r # own ?p rs" "p \<noteq> ?p \<Longrightarrow> own p (r # rs) = own p rs" for p by (simp_all add: own_def)
  have pp: "jget_default ?pp ''consensus_count'' (JInt 0) = JInt (int (pass_run (own ?p rs)))"
    "jget ?pp ''last_pass'' = JBool True \<longleftrightarrow> own ?p rs \<noteq> [] \<and> hd (own ?p rs)"
  proof -
    have "jget per ?p = (case map_of per ?p of None \<Rightarrow> JNull | Some e \<Rightarrow> e)" by (simp add: jget_def lookup_default_def)
    with per [of ?p] show "jget_default ?pp ''consensus_count'' (JInt 0) = JInt (int (pass_run (own ?p rs)))"
      "jget ?pp ''last_pass'' = JBool True \<longleftrightarrow> own ?p rs \<noteq> [] \<and> hd (own ?p rs)"
      by (auto simp: default_peer_tally_def jget_default_def jget_def lookup_default_def split: option.splits)
  qed
  have next1: "jget_default (peer_tally (rv_pass r) ?pp) ''consensus_count'' (JInt 0) = JInt (int (pass_run (rv_pass r # own ?p rs)))"
    using pp by (cases "own ?p rs") (auto simp: peer_tally_def next_consensus_count_def int_or_def)
  have next2: "jget (peer_tally (rv_pass r) ?pp) ''last_pass'' = JBool (rv_pass r)" by (simp add: peer_tally_def)
  have t: "tally_per_peer r soft = dict_set soft ''per_peer'' (JObj (dict_set per ?p (JObj (peer_tally (rv_pass r) ?pp))))"
    using k(1,2) by (simp add: tally_per_peer_def obj_or_empty_def Let_def)
  show ?thesis
    unfolding tallied_def
  proof (intro conjI exI allI)
    show "has_key (tally_per_peer r soft) ''per_peer''" by (simp add: t)
    show "jget (tally_per_peer r soft) ''per_peer'' = JObj (dict_set per ?p (JObj (peer_tally (rv_pass r) ?pp)))" by (simp add: t)
    show "distinct (map fst (dict_set per ?p (JObj (peer_tally (rv_pass r) ?pp))))" by (rule distinct_dict_set [OF k(3)])
    fix p
    show "case map_of (dict_set per ?p (JObj (peer_tally (rv_pass r) ?pp))) p of
          None \<Rightarrow> own p (r # rs) = []
        | Some e \<Rightarrow> (\<exists>pp. e = JObj pp \<and> own p (r # rs) \<noteq> [] \<and> jget_default pp ''consensus_count'' (JInt 0) = JInt (int (pass_run (own p (r # rs)))) \<and>
            jget pp ''last_pass'' = JBool (hd (own p (r # rs))))"
    proof (cases "p = ?p")
      case True
      then show ?thesis using own(1) next1 next2 by simp
    next
      case False
      with per [of p] show ?thesis unfolding own(2) [OF False] by simp
    qed
  qed
qed

lemma last_n_rev: "last_n n xs = rev (take n (rev xs))"
  by (simp add: last_n_def rev_take)

lemma last_n_snoc_take: "last_n n (map f (rev (take n rs)) @ [f r]) = map f (rev (take n (r # rs)))"
  by (cases n) (simp_all add: last_n_rev rev_map take_map)

lemma logged_add: "logged rs soft \<Longrightarrow> logged (r # rs) (add_history r soft)"
  using last_n_snoc_take [of history_cap history_entry rs r] by (simp add: logged_def add_history_def list_or_empty_def)

text \<open>The status of a goal after the reviews \<open>rs\<close>, newest first, from the default one; \<open>n\<close> peers.\<close>

definition status_after :: "'a goal_scheme \<Rightarrow> nat \<Rightarrow> review list \<Rightarrow> raw" where
  "status_after g n rs = foldr (tally g n) rs default_soft_status"

lemma default_status: "rolled [] default_soft_status" "tallied [] default_soft_status" "logged [] default_soft_status"
  by (simp_all add: rolled_def tallied_def logged_def default_soft_status_def jget_def jget_default_def lookup_default_def has_key_def own_def)

lemma status_after_facts:
  "logged rs (status_after g n rs) \<and> tallied rs (status_after g n rs) \<and> (rolls g \<longrightarrow> rolled rs (status_after g n rs))"
proof (induction rs)
  case Nil
  then show ?case by (simp add: status_after_def default_status)
next
  case (Cons r rs)
  let ?s = "status_after g n rs" and ?t = "tally g n r (status_after g n rs)"
  have "logged (r # rs) ?t" unfolding tally_def Let_def by (rule logged_add) (use Cons in simp)
  moreover have "tallied (r # rs) ?t" using Cons by (simp add: tally_def Let_def tallied_tally)
  moreover have "rolled (r # rs) ?t" if "rolls g" using Cons that by (simp add: tally_def Let_def rolled_roll)
  ultimately show ?case by (simp add: status_after_def)
qed

lemma alternating_run_facts:
  "k \<le> alternating_run rs \<Longrightarrow> k \<le> length rs \<and> list_all rv_pass (take k rs) \<and> (\<forall>i. Suc i < k \<longrightarrow> rv_reviewer (rs ! i) \<noteq> rv_reviewer (rs ! Suc i))"
proof (induction rs arbitrary: k)
  case (Cons r rs)
  show ?case
  proof (cases k)
    case (Suc m)
    with Cons.prems have r: "rv_pass r" by (cases "rv_pass r") simp_all
    show ?thesis
    proof (cases m)
      case 0
      with Suc r show ?thesis by simp
    next
      case (Suc j)
      with Cons.prems r \<open>k = Suc m\<close> obtain q qs where rs: "rs = q # qs" "rv_reviewer q \<noteq> rv_reviewer r" "m \<le> alternating_run rs"
        by (cases rs) (auto split: if_splits)
      from Cons.IH [OF rs(3)] rs(1,2) r \<open>k = Suc m\<close> show ?thesis by (auto simp: nth_Cons split: nat.splits)
    qed
  qed simp
qed simp

lemma pass_run_facts: "k \<le> pass_run bs \<Longrightarrow> k \<le> length bs \<and> list_all (\<lambda>b. b) (take k bs)"
proof (induction bs arbitrary: k)
  case (Cons b bs)
  then show ?case by (cases k; cases b) auto
qed simp

lemma passer_entry: "passer (history_entry r) = (if rv_pass r then Some (JStr (rv_reviewer r)) else None)"
  by (simp add: passer_def history_entry_def jget_def lookup_default_def)

definition passers :: "review list \<Rightarrow> string set" where
  "passers rs = rv_reviewer ` {r \<in> set rs. rv_pass r}"

lemma set_passing: "set (List.map_filter passer (map history_entry xs)) = JStr ` passers xs"
  by (induction xs) (auto simp: List.map_filter_simps passer_entry passers_def)

lemma distinct_passers_card: "length (distinct_passers (map history_entry (rev xs))) = card (passers xs)"
proof -
  have "set (List.map_filter passer (map history_entry (rev xs))) = JStr ` passers xs"
    by (simp only: set_passing) (simp add: passers_def)
  then have "length (distinct_passers (map history_entry (rev xs))) = card (JStr ` passers xs)"
    by (simp add: distinct_passers_def length_remdups_card_conv)
  also have "\<dots> = card (passers xs)" by (rule card_image) (simp add: inj_on_def)
  finally show ?thesis .
qed

lemma recent_history:
  assumes "logged rs soft"
  shows "last_n k (list_or_empty (jget_default soft ''history'' (JList []))) = map history_entry (rev (take (min k history_cap) rs))"
  using assms by (simp add: logged_def list_or_empty_def last_n_rev rev_map take_map min.commute)

lemma quorum_needs:
  assumes "soft_goal_passed g (status_after g n rs) m" and "mode_of g = ''quorum''"
  shows "\<exists>num den. go_quorum g = Some (num, den) \<and> den \<le> int history_cap \<and> den \<le> int (length rs) \<and> num \<le> int (card (passers (take (nat den) rs)))"
proof -
  from assms obtain num den where q: "go_quorum g = Some (num, den)" by (auto simp: soft_goal_passed_def split: option.splits)
  have l: "logged rs (status_after g n rs)" using status_after_facts by blast
  from assms q have 1: "den \<le> int (min (length rs) (min (nat den) history_cap))"
    and 2: "num \<le> int (card (passers (take (min (nat den) history_cap) rs)))"
    by (simp_all add: soft_goal_passed_def Let_def recent_history [OF l] distinct_passers_card min.assoc)
  from 1 have "den \<le> int history_cap" "den \<le> int (length rs)" by simp_all
  moreover from this have "min (nat den) history_cap = nat den" by simp
  ultimately show ?thesis using q 2 by simp
qed

lemma both_needs:
  assumes "soft_goal_passed g (status_after g n rs) m" and "mode_of g = ''both''"
  shows "\<exists>P. max m 1 \<le> card P \<and> (\<forall>p \<in> P. go_consensus g \<le> int (length (own p rs)) \<and> list_all (\<lambda>b. b) (take (nat (go_consensus g)) (own p rs)))"
proof -
  let ?soft = "status_after g n rs"
  have "tallied rs ?soft" using status_after_facts by blast
  then obtain per where k: "has_key ?soft ''per_peer''" "jget ?soft ''per_peer'' = JObj per" "distinct (map fst per)"
    and per: "\<And>p. case map_of per p of
          None \<Rightarrow> own p rs = []
        | Some e \<Rightarrow> (\<exists>pp. e = JObj pp \<and> own p rs \<noteq> [] \<and> jget_default pp ''consensus_count'' (JInt 0) = JInt (int (pass_run (own p rs))) \<and>
            jget pp ''last_pass'' = JBool (hd (own p rs)))"
    unfolding tallied_def by blast
  let ?ok = "filter (\<lambda>(_, v). valid_consensus_count (go_consensus g) v) per"
  have "jget_default ?soft ''per_peer'' (JObj []) = JObj per"
    using k(1,2) by (auto simp: jget_default_def jget_def lookup_default_def has_key_def map_of_eq_None_iff split: option.splits)
  with assms have len: "max m 1 \<le> length ?ok" by (simp add: soft_goal_passed_def obj_or_empty_def)
  have d: "distinct (map fst ?ok)" using k(3) by (rule distinct_map_filter)
  have "go_consensus g \<le> int (pass_run (own p rs))" if "p \<in> fst ` set ?ok" for p
  proof -
    from that obtain e where e: "(p, e) \<in> set per" "valid_consensus_count (go_consensus g) e" by auto
    with k(3) have "map_of per p = Some e" by simp
    with per [of p] e(2) show ?thesis by (auto simp: valid_consensus_count_def)
  qed
  then have "\<forall>p \<in> fst ` set ?ok. go_consensus g \<le> int (length (own p rs)) \<and> list_all (\<lambda>b. b) (take (nat (go_consensus g)) (own p rs))"
    using pass_run_facts by (metis nat_le_iff)
  moreover have "card (fst ` set ?ok) = length ?ok" using distinct_card [OF d] by simp
  ultimately show ?thesis using len by (intro exI [of _ "fst ` set ?ok"]) simp
qed

lemma rolling_needs:
  assumes "soft_goal_passed g (status_after g n rs) m" and "mode_of g \<noteq> ''quorum''" and "mode_of g \<noteq> ''both''" and "rolls g"
  shows "go_consensus g \<le> int (length rs) \<and> list_all rv_pass (take (nat (go_consensus g)) rs) \<and>
    (\<forall>i. Suc i < nat (go_consensus g) \<longrightarrow> rv_reviewer (rs ! i) \<noteq> rv_reviewer (rs ! Suc i))"
proof -
  have "rolled rs (status_after g n rs)" using status_after_facts assms(4) by blast
  then have "jget_default (status_after g n rs) ''consensus_count'' (JInt 0) = JInt (int (alternating_run rs))" by (simp add: rolled_def)
  with assms(1-3) have "go_consensus g \<le> int (alternating_run rs)" by (simp add: soft_goal_passed_def valid_consensus_count_def)
  then have "nat (go_consensus g) \<le> alternating_run rs" by simp
  from alternating_run_facts [OF this] show ?thesis by (simp add: nat_le_iff)
qed

text \<open>
  C18: consensus on a soft goal is earned. From a fresh status, after any reviews (\<open>rs\<close>, newest first), a goal counts as passed only
  if, by its mode, the newest reviews it needs all pass with a different reviewer each time; or its quorum of distinct
  reviewers passes among the newest \<open>M\<close>; or at least as many reviewers as there are peers each passed it in as
  many of their own newest reviews as it needs.
\<close>

theorem consensus_is_earned:
  assumes "soft_goal_passed g (status_after g n rs) n" and "mode_of g \<in> set valid_reviewer_modes"
  shows "(mode_of g = ''quorum'' \<longrightarrow> (\<exists>num den. go_quorum g = Some (num, den) \<and> den \<le> int (length rs) \<and> num \<le> int (card (passers (take (nat den) rs))))) \<and>
    (mode_of g = ''both'' \<longrightarrow> (\<exists>P. max n 1 \<le> card P \<and>
       (\<forall>p \<in> P. go_consensus g \<le> int (length (own p rs)) \<and> list_all (\<lambda>b. b) (take (nat (go_consensus g)) (own p rs))))) \<and>
    (rolls g \<longrightarrow> go_consensus g \<le> int (length rs) \<and> list_all rv_pass (take (nat (go_consensus g)) rs) \<and>
       (\<forall>i. Suc i < nat (go_consensus g) \<longrightarrow> rv_reviewer (rs ! i) \<noteq> rv_reviewer (rs ! Suc i)))"
proof (intro conjI impI)
  show "\<exists>num den. go_quorum g = Some (num, den) \<and> den \<le> int (length rs) \<and> num \<le> int (card (passers (take (nat den) rs)))"
    if "mode_of g = ''quorum''" using quorum_needs [OF assms(1) that] by blast
  show "\<exists>P. max n 1 \<le> card P \<and> (\<forall>p \<in> P. go_consensus g \<le> int (length (own p rs)) \<and> list_all (\<lambda>b. b) (take (nat (go_consensus g)) (own p rs)))"
    if "mode_of g = ''both''" by (rule both_needs [OF assms(1) that])
  assume "rolls g"
  then have "mode_of g \<noteq> ''quorum''" "mode_of g \<noteq> ''both''" by (auto simp: rolls_def)
  note r = rolling_needs [OF assms(1) this \<open>rolls g\<close>]
  show "go_consensus g \<le> int (length rs)" "list_all rv_pass (take (nat (go_consensus g)) rs)" using r by simp_all
  show "\<forall>i. Suc i < nat (go_consensus g) \<longrightarrow> rv_reviewer (rs ! i) \<noteq> rv_reviewer (rs ! Suc i)" using r by simp
qed

text \<open>
  C38: a quorum over more than the twenty reviews the history keeps is never reached, whoever reviews and however often,
  though the loader accepts it.
\<close>

theorem long_quorum_never_passes:
  assumes "mode_of g = ''quorum''" and "go_quorum g = Some (num, den)" and "20 < den"
  shows "\<not> soft_goal_passed g (status_after g n rs) m"
  using quorum_needs [OF _ assms(1)] assms(2,3) by (auto simp: history_cap_def)

section \<open>Examples\<close>

definition review_by :: "string \<Rightarrow> review" where
  "review_by p = \<lparr>rv_reviewer = p, rv_pass = True, rv_sha = [], rv_notes = JNull\<rparr>"

definition soft_goal :: "string \<Rightarrow> (int \<times> int) option \<Rightarrow> goal" where
  "soft_goal mode quorum = \<lparr>go_id = ''s'', go_hard = False, go_cmd = [], go_pass_when = [], go_timeout = None, go_cacheable = False, go_retry = 0,
     go_expensive = False, go_reviewer = Some mode, go_consensus = 2, go_quorum = quorum\<rparr>"

lemma consensus_is_earned_witness:
  "list_all rv_pass (take 2 [review_by ''a'', review_by ''b'']) \<and> rv_reviewer ([review_by ''a'', review_by ''b''] ! 0) \<noteq> rv_reviewer ([review_by ''a'', review_by ''b''] ! Suc 0)"
proof -
  have 1: "soft_goal_passed (soft_goal ''other'' None) (status_after (soft_goal ''other'' None) 2 [review_by ''a'', review_by ''b'']) 2"
    "List.member valid_reviewer_modes (mode_of (soft_goal ''other'' None))" "rolls (soft_goal ''other'' None)" "go_consensus (soft_goal ''other'' None) = 2"
    by code_simp+
  then have 2: "mode_of (soft_goal ''other'' None) \<in> set valid_reviewer_modes" by simp
  from consensus_is_earned [OF 1(1) 2, THEN conjunct2, THEN conjunct2] 1(3,4) show ?thesis by simp
qed

lemma long_quorum_never_passes_witness:
  "\<not> soft_goal_passed (soft_goal ''quorum'' (Some (2, 21))) (status_after (soft_goal ''quorum'' (Some (2, 21))) 2 (replicate 30 (review_by ''a''))) 2"
  by (rule long_quorum_never_passes [of _ 2 21]) (simp_all add: soft_goal_def mode_of_def)

text \<open>The reviewers counted by the mode \<open>both\<close> need not be peers of the run any more.\<close>

lemma departed_reviewers_count:
  "soft_goal_passed (soft_goal ''both'' None)
     (status_after (soft_goal ''both'' None) 1 [review_by ''x'', review_by ''x'']) (length [''a''])"
  by code_simp

text \<open>One double quote in the prose hides the verdict that follows it.\<close>

lemma quote_hides_verdict:
  "extract_first_json_object (''a 5'' @ [CHR 0x22] @ '' disk {'' @ show_str ''pass'' @ '': true}'') = None \<and>
   extract_first_json_object (''a 5 disk {'' @ show_str ''pass'' @ '': true}'') = Some [(''pass'', JBool True)]"
  by code_simp

text \<open>A status without the key \<open>per_peer\<close> never gets one, so its goal never passes in the mode \<open>both\<close>.\<close>

lemma missing_tally_stays_missing: "\<not> has_key soft ''per_peer'' \<Longrightarrow> \<not> has_key (tally g n r soft) ''per_peer''"
  by (simp add: tally_def Let_def tally_per_peer_def roll_def advance_cursor_def add_history_def)


lemma unanchored_is_not_checked: "verify_baseline_digests hash read [] = ret []"
  by (simp add: verify_baseline_digests_def act_bind_def ret_def fun_eq_iff)


end
