(* ===== verification/PlanParser.thy ===== *)
theory PlanParser
  imports Kahn Gates
begin

text \<open>
  The parser and validator of \<open>PLAN.md\<close>, \<open>peers_ctl/plan_parser.py\<close>. The regular expressions of
  the source are written out as scanners: \<open>\s\<close> is the white space of the prelude, a lazy group
  followed by \<open>\s*$\<close> is the text without its trailing white space. The decimal digits outside
  ASCII that \<open>\d\<close> and \<open>int\<close> accept come from Python's character database, which is the parameter
  \<open>wide\<close>: the number of bytes and the value of such a digit at the head of a text.
  Every \<open>raise PlanValidationError\<close> is the value \<open>Inl PlanValidationError\<close>.
\<close>

section \<open>Plans\<close>

record plan_step =
  st_id :: string
  st_text :: string
  st_touches :: "string list"
  st_depends :: "string list"
  st_rationale :: string
  st_state :: string
  st_trivial :: bool
  st_pure_refactor :: bool
  st_pure_documentation :: bool
  st_commit_sha :: "string option"

record plan =
  pn_name :: string
  pn_surfaces :: "string list"
  pn_acceptance :: string
  pn_e2e :: "string option"
  pn_mutation_testing :: bool
  pn_convergence_n :: int
  pn_honesty_audit_peer :: "string option"
  pn_architecture :: "string list"
  pn_input_domains :: "string list"
  pn_steps :: "plan_step list"

definition state_by_mark :: "(string \<times> string) list" where
  "state_by_mark =
     [('' '', ''open''), (''x'', ''done''), (''X'', ''done''), (''PARTIAL'', ''partial''),
      (''BLOCKED'', ''blocked''), (''BLOCKED-ACK'', ''blocked-ack'')]"

definition valid_surfaces :: "string list" where
  "valid_surfaces = [''cli'', ''web'', ''lib'', ''gui'']"

definition plan_max_bytes :: int where
  "plan_max_bytes = 2 * 1024 * 1024"

definition invalid :: "'a res" where
  "invalid = Inl PlanValidationError"

section \<open>Scanners\<close>

function last_space :: "string \<Rightarrow> string" where
  "last_space s = (if space_len s = 0 \<or> drop (space_len s) s = [] then s else last_space (drop (space_len s) s))"
  by pat_completeness auto
termination
  by (relation "measure length") auto

declare last_space.simps [simp del]

text \<open>
  \<open>\s+(.+?)\s*$\<close>: the group never keeps trailing white space, except that of a text of white
  space alone, which is its last character.
\<close>

definition after_marker :: "string \<Rightarrow> string option" where
  "after_marker r =
     (if space_len r = 0 then None
      else if lstrip r \<noteq> [] then Some (rstrip (lstrip r))
      else if drop (space_len r) r = [] then None
      else Some (last_space (drop (space_len r) r)))"

definition heading :: "string \<Rightarrow> string option" where
  "heading line = (if startswith line ''##'' then after_marker (drop 2 line) else None)"

definition title :: "string \<Rightarrow> string option" where
  "title line = (if startswith line ''#'' then after_marker (drop 1 line) else None)"

definition bullet :: "string \<Rightarrow> string option" where
  "bullet line = (if startswith line ''-'' then after_marker (drop 1 line) else None)"

definition name_start :: "char \<Rightarrow> bool" where
  "name_start c \<longleftrightarrow> 97 \<le> byte c \<and> byte c \<le> 122 \<or> c = CHR ''_''"

definition name_char :: "char \<Rightarrow> bool" where
  "name_char c \<longleftrightarrow> name_start c \<or> is_digit c"

text \<open>\<open>(?P<key>[a-z_][a-z0-9_]*)\s*:\s*(?P<val>.*?)\s*$\<close>.\<close>

definition key_value :: "string \<Rightarrow> (string \<times> string) option" where
  "key_value s =
     (if s = [] \<or> \<not> name_start (hd s) then None
      else (case lstrip (dropWhile name_char s) of
          c # v \<Rightarrow> if c = CHR '':'' then Some (takeWhile name_char s, strip v) else None
        | [] \<Rightarrow> None))"

definition sub_key :: "string \<Rightarrow> (string \<times> string) option" where
  "sub_key line =
     (if space_len line = 0 then None
      else (case lstrip line of c # r \<Rightarrow> if c = CHR ''-'' then key_value (lstrip r) else None | [] \<Rightarrow> None))"

type_synonym wide = "string \<Rightarrow> (nat \<times> nat) option"

definition decimal :: "wide \<Rightarrow> string \<Rightarrow> (nat \<times> nat) option" where
  "decimal wd s =
     (if s = [] then None
      else if is_digit (hd s) then Some (1, digit_val (hd s))
      else if byte (hd s) < 128 then None else wd s)"

text \<open>The digits at the head of a text and what follows; the number is the bytes of the current digit left.\<close>

fun digit_run :: "wide \<Rightarrow> nat \<Rightarrow> string \<Rightarrow> nat list \<times> string" where
  "digit_run wd k [] = ([], [])"
| "digit_run wd (Suc k) (c # cs) = digit_run wd k cs"
| "digit_run wd 0 (c # cs) =
     (case decimal wd (c # cs) of
        None \<Rightarrow> ([], c # cs)
      | Some (n, v) \<Rightarrow> (case digit_run wd (n - 1) cs of (vs, r) \<Rightarrow> (v # vs, r)))"

text \<open>\<open>int(s)\<close> on a stripped text: a sign, digits, single underscores between digits.\<close>

definition py_int :: "wide \<Rightarrow> string \<Rightarrow> int option" where
  "py_int wd s =
     (let neg = startswith s ''-'';
          body = (if neg \<or> startswith s ''+'' then tl s else s);
          parts = map (digit_run wd 0) (split_on CHR ''_'' body);
          ds = concat (map fst parts)
      in if list_all (\<lambda>(vs, r). vs \<noteq> [] \<and> r = []) parts \<and> length ds \<le> 4300
         then Some ((if neg then - 1 else 1) * int (foldl (\<lambda>n d. 10 * n + d) 0 ds)) else None)"

section \<open>Values\<close>

fun strip_comment :: "nat \<Rightarrow> string \<Rightarrow> string" where
  "strip_comment depth [] = []"
| "strip_comment depth (ch # cs) =
     (if ch = CHR ''['' then ch # strip_comment (depth + 1) cs
      else if ch = CHR '']'' then ch # strip_comment (depth - 1) cs
      else if ch = CHR ''#'' \<and> depth = 0 then []
      else ch # strip_comment depth cs)"

definition brackets :: "string \<Rightarrow> string option" where
  "brackets s =
     (if startswith s ''['' \<and> 2 \<le> length s \<and> last s = CHR '']'' then Some (butlast (tl s)) else None)"

definition comma_items :: "string \<Rightarrow> string list" where
  "comma_items s = filter (\<lambda>x. x \<noteq> []) (map strip (split_on CHR '','' s))"

definition parse_inline_list :: "string \<Rightarrow> string list res" where
  "parse_inline_list val =
     (case brackets (strip val) of
        None \<Rightarrow> invalid
      | Some inner \<Rightarrow> if strip inner = [] then Inr [] else Inr (comma_items (strip inner)))"

definition parse_csv_or_list :: "string \<Rightarrow> string list" where
  "parse_csv_or_list val =
     (if strip val = [] then []
      else (case brackets (strip val) of
          Some inner \<Rightarrow> if strip inner = [] then [] else comma_items (strip inner)
        | None \<Rightarrow> comma_items (strip val)))"

definition parse_bool :: "string \<Rightarrow> bool res" where
  "parse_bool val =
     (let low = lower (strip val) in
      if low \<in> set [''true'', ''yes'', ''on'', ''1''] then Inr True
      else if low \<in> set [''false'', ''no'', ''off'', ''0'', []] then Inr False
      else invalid)"

definition parse_int :: "wide \<Rightarrow> string \<Rightarrow> int res" where
  "parse_int wd val = (case py_int wd (strip val) of None \<Rightarrow> invalid | Some n \<Rightarrow> Inr n)"

section \<open>Title and sections\<close>

fun extract_title :: "string list \<Rightarrow> string res" where
  "extract_title [] = invalid"
| "extract_title (line # ls) =
     (if blank line then extract_title ls
      else (case title line of None \<Rightarrow> invalid | Some t \<Rightarrow> Inr t))"

fun split_sections :: "(string \<times> string list) list \<Rightarrow> string option \<Rightarrow> string list \<Rightarrow> (string \<times> string list) list res" where
  "split_sections sections cur [] = Inr sections"
| "split_sections sections cur (line # ls) =
     (if startswith line ''#'' \<and> \<not> startswith line ''##'' then split_sections sections None ls
      else (case heading line of
          Some h \<Rightarrow>
            (let name = strip h in
             if name \<in> fst ` set sections then invalid
             else split_sections (dict_set sections name []) (Some name) ls)
        | None \<Rightarrow>
            (case cur of
               Some name \<Rightarrow> split_sections (dict_append sections name line) cur ls
             | None \<Rightarrow> split_sections sections cur ls)))"

section \<open>Meta\<close>

datatype meta_value = MList "string list" | MBool bool | MInt int | MStr string

definition meta_entry :: "wide \<Rightarrow> string \<Rightarrow> string \<Rightarrow> meta_value res" where
  "meta_entry wd key val =
     (if key = ''surfaces'' then res_bind (parse_inline_list val) (\<lambda>x. Inr (MList x))
      else if key = ''mutation_testing'' then res_bind (parse_bool val) (\<lambda>x. Inr (MBool x))
      else if key = ''convergence_n'' then res_bind (parse_int wd val) (\<lambda>x. Inr (MInt x))
      else Inr (MStr val))"

fun meta_entries :: "wide \<Rightarrow> (string \<times> meta_value) list \<Rightarrow> string list \<Rightarrow> (string \<times> meta_value) list res" where
  "meta_entries wd out [] = Inr out"
| "meta_entries wd out (raw # ls) =
     (let stripped = strip (strip_comment 0 (rstrip raw)) in
      if stripped = [] then meta_entries wd out ls
      else (case key_value stripped of
          None \<Rightarrow> meta_entries wd out ls
        | Some (key, val) \<Rightarrow>
            res_bind (meta_entry wd key val) (\<lambda>v. meta_entries wd (dict_set out key v) ls)))"

definition check_meta :: "(string \<times> meta_value) list \<Rightarrow> unit res" where
  "check_meta out =
     (case map_of out ''surfaces'' of
        Some (MList surfaces) \<Rightarrow>
          if surfaces = [] \<or> \<not> set surfaces \<subseteq> set valid_surfaces then invalid
          else (case map_of out ''acceptance'' of
              Some (MStr a) \<Rightarrow> if strip a = [] then invalid else Inr ()
            | _ \<Rightarrow> invalid)
      | _ \<Rightarrow> invalid)"

definition parse_meta :: "wide \<Rightarrow> string list \<Rightarrow> (string \<times> meta_value) list res" where
  "parse_meta wd body =
     res_bind (meta_entries wd [] body) (\<lambda>out. res_bind (check_meta out) (\<lambda>_. Inr out))"

definition meta_str :: "(string \<times> meta_value) list \<Rightarrow> string \<Rightarrow> string option" where
  "meta_str meta key = (case map_of meta key of Some (MStr s) \<Rightarrow> Some s | _ \<Rightarrow> None)"

section \<open>Bullets and steps\<close>

definition parse_bullet_list :: "string list \<Rightarrow> string list" where
  "parse_bullet_list body =
     concat (map (\<lambda>raw. if blank (rstrip raw) then []
                        else (case bullet (rstrip raw) of Some t \<Rightarrow> [strip t] | None \<Rightarrow> [])) body)"

text \<open>The marker, the id and the text of a step line (which has no trailing white space).\<close>

definition step_head :: "wide \<Rightarrow> string \<Rightarrow> (string \<times> string) option" where
  "step_head wd r2 =
     (if \<not> startswith r2 ''STEP-'' then None
      else (let ds = drop 5 r2; rest = snd (digit_run wd 0 ds) in
            if fst (digit_run wd 0 ds) = [] \<or> \<not> startswith rest '']'' then None
            else Some (take (length r2 - length rest) r2, lstrip (tl rest))))"

definition step_line :: "wide \<Rightarrow> string \<Rightarrow> (string \<times> string \<times> string) option" where
  "step_line wd line =
     (if \<not> startswith line ''-'' \<or> \<not> startswith (lstrip (tl line)) ''['' then None
      else
        (let r1 = tl (lstrip (tl line));
             mark = takeWhile (\<lambda>c. c \<noteq> CHR '']'') r1;
             r2 = lstrip (tl (dropWhile (\<lambda>c. c \<noteq> CHR '']'') r1))
         in case map_of state_by_mark mark of
              None \<Rightarrow> None
            | Some state \<Rightarrow>
                if CHR '']'' \<notin> set r1 \<or> \<not> startswith r2 ''['' then None
                else (case step_head wd (tl r2) of
                    None \<Rightarrow> None
                  | Some (sid, txt) \<Rightarrow> if txt = [] then None else Some (state, sid, rstrip txt))))"

definition hex_lower :: "char \<Rightarrow> bool" where
  "hex_lower c \<longleftrightarrow> is_digit c \<or> 97 \<le> byte c \<and> byte c \<le> 102"

text \<open>The trailing \<open>(SHA)\<close>: the text before it and the digest.\<close>

definition split_sha :: "string \<Rightarrow> string \<times> string option" where
  "split_sha raw =
     (let body = rev (butlast raw);
          sha = rev (takeWhile (\<lambda>c. c \<noteq> CHR ''('') body);
          before = dropWhile (\<lambda>c. c \<noteq> CHR ''('') body
      in if raw \<noteq> [] \<and> last raw = CHR '')'' \<and> 2 \<le> length before \<and> list_all hex_lower sha \<and>
            7 \<le> length sha \<and> length sha \<le> 40
         then (strip (rev (tl before)), Some sha) else (raw, None))"

definition new_step :: "string \<Rightarrow> string \<Rightarrow> string \<Rightarrow> plan_step" where
  "new_step state sid txt =
     \<lparr>st_id = sid, st_text = fst (split_sha (strip txt)), st_touches = [], st_depends = [], st_rationale = [],
      st_state = state, st_trivial = False, st_pure_refactor = False, st_pure_documentation = False,
      st_commit_sha = snd (split_sha (strip txt))\<rparr>"

definition set_key :: "string \<Rightarrow> string \<Rightarrow> plan_step \<Rightarrow> plan_step res" where
  "set_key key val s =
     (if key = ''touches'' then Inr (s\<lparr>st_touches := parse_csv_or_list val\<rparr>)
      else if key = ''depends'' then Inr (s\<lparr>st_depends := parse_csv_or_list val\<rparr>)
      else if key = ''rationale'' then Inr (s\<lparr>st_rationale := val\<rparr>)
      else if key = ''trivial'' \<or> key = ''trivial_step'' then
        res_bind (parse_bool val) (\<lambda>b. Inr (s\<lparr>st_trivial := b\<rparr>))
      else if key = ''pure_refactor'' then res_bind (parse_bool val) (\<lambda>b. Inr (s\<lparr>st_pure_refactor := b\<rparr>))
      else if key = ''pure_documentation'' then
        res_bind (parse_bool val) (\<lambda>b. Inr (s\<lparr>st_pure_documentation := b\<rparr>))
      else Inr s)"

text \<open>\<open>current\<close> is the last step of the list, \<open>None\<close> as long as there is none.\<close>

fun parse_steps :: "wide \<Rightarrow> plan_step list \<Rightarrow> string list \<Rightarrow> plan_step list res" where
  "parse_steps wd steps [] = Inr steps"
| "parse_steps wd steps (raw # ls) =
     (let line = rstrip raw in
      if blank line then parse_steps wd steps ls
      else (case step_line wd line of
          Some (state, sid, txt) \<Rightarrow> parse_steps wd (steps @ [new_step state sid txt]) ls
        | None \<Rightarrow>
            (case sub_key line of
               None \<Rightarrow> parse_steps wd steps ls
             | Some (key, val) \<Rightarrow>
                 if steps = [] then parse_steps wd steps ls
                 else res_bind (set_key key val (last steps)) (\<lambda>s. parse_steps wd (butlast steps @ [s]) ls))))"

section \<open>Validation\<close>

definition validate_e2e :: "plan \<Rightarrow> unit res" where
  "validate_e2e p =
     (if (''web'' \<in> set (pn_surfaces p) \<or> ''gui'' \<in> set (pn_surfaces p)) \<and>
         (pn_e2e p = None \<or> pn_e2e p = Some []) then invalid else Inr ())"

fun check_ids :: "nat \<Rightarrow> string list \<Rightarrow> plan_step list \<Rightarrow> unit res" where
  "check_ids idx seen [] = Inr ()"
| "check_ids idx seen (s # ss) =
     (if st_id s \<in> set seen then invalid
      else if st_id s \<noteq> ''STEP-'' @ show_nat idx then invalid
      else check_ids (idx + 1) (st_id s # seen) ss)"

definition validate_step_ids :: "plan_step list \<Rightarrow> unit res" where
  "validate_step_ids steps = (if steps = [] then invalid else check_ids 1 [] steps)"

definition undeclared :: "plan_step list \<Rightarrow> string list" where
  "undeclared steps =
     map st_id (filter (\<lambda>s. st_touches s = [] \<and> \<not> (st_trivial s \<or> st_pure_documentation s)) steps)"

definition validate_touches_declared :: "plan_step list \<Rightarrow> unit res" where
  "validate_touches_declared steps = (if undeclared steps \<noteq> [] then invalid else Inr ())"

definition known_depends :: "plan_step list \<Rightarrow> bool" where
  "known_depends steps \<longleftrightarrow>
     list_all (\<lambda>s. list_all (\<lambda>d. d \<in> set (map st_id steps) \<and> d \<noteq> st_id s) (st_depends s)) steps"

definition plan_indegree :: "plan_step list \<Rightarrow> (string \<times> int) list" where
  "plan_indegree steps = dict_of (map (\<lambda>s. (st_id s, int (length (st_depends s)))) steps)"

definition plan_dependents :: "plan_step list \<Rightarrow> (string \<times> string list) list" where
  "plan_dependents steps =
     foldl (\<lambda>d (dep, sid). dict_append d dep sid) []
       (concat (map (\<lambda>s. map (\<lambda>dep. (dep, st_id s)) (st_depends s)) steps))"

definition validate_depends :: "plan_step list \<Rightarrow> unit res" where
  "validate_depends steps =
     (if \<not> known_depends steps then invalid
      else
        (let indegree = plan_indegree steps;
             queue = map fst (filter (\<lambda>(sid, n). n = 0) indegree);
             visited = snd (drain (lookup_default [] (plan_dependents steps)) indegree queue 0)
         in if visited \<noteq> length steps then invalid else Inr ()))"

section \<open>The parser\<close>

definition plan_of_parts ::
  "string \<Rightarrow> (string \<times> string list) list \<Rightarrow> (string \<times> meta_value) list \<Rightarrow> plan_step list \<Rightarrow> plan" where
  "plan_of_parts name sections meta steps =
     \<lparr>pn_name = name,
      pn_surfaces = (case map_of meta ''surfaces'' of Some (MList xs) \<Rightarrow> xs | _ \<Rightarrow> []),
      pn_acceptance = (case meta_str meta ''acceptance'' of Some a \<Rightarrow> a | None \<Rightarrow> []),
      pn_e2e = meta_str meta ''e2e'',
      pn_mutation_testing = (case map_of meta ''mutation_testing'' of Some (MBool b) \<Rightarrow> b | _ \<Rightarrow> False),
      pn_convergence_n = (case map_of meta ''convergence_n'' of Some (MInt n) \<Rightarrow> n | _ \<Rightarrow> 5),
      pn_honesty_audit_peer = meta_str meta ''honesty_audit_peer'',
      pn_architecture = parse_bullet_list (lookup_default [] sections ''Architecture''),
      pn_input_domains = parse_bullet_list (lookup_default [] sections ''Input Domains''),
      pn_steps = steps\<rparr>"

definition validate_plan :: "plan \<Rightarrow> unit res" where
  "validate_plan p =
     res_bind (validate_e2e p) (\<lambda>_.
     res_bind (validate_step_ids (pn_steps p)) (\<lambda>_.
     res_bind (validate_depends (pn_steps p)) (\<lambda>_. validate_touches_declared (pn_steps p))))"

definition plan_of_lines :: "wide \<Rightarrow> string list \<Rightarrow> plan res" where
  "plan_of_lines wd ls =
     res_bind (extract_title ls) (\<lambda>name.
     res_bind (split_sections [] None ls) (\<lambda>sections.
     case (map_of sections ''Meta'', map_of sections ''Steps'') of
       (Some meta_body, Some step_body) \<Rightarrow>
         res_bind (parse_meta wd meta_body) (\<lambda>meta.
         res_bind (parse_steps wd [] step_body) (\<lambda>steps.
           let p = plan_of_parts name sections meta steps in res_bind (validate_plan p) (\<lambda>_. Inr p)))
     | _ \<Rightarrow> invalid))"

definition parse_plan :: "wide \<Rightarrow> os_open \<Rightarrow> string \<Rightarrow> plan res" where
  "parse_plan wd os path =
     (case read_bytes_no_symlink os path (Some (plan_max_bytes + 1)) of
        Inl e \<Rightarrow> if e = OSError then invalid else Inl e
      | Inr raw \<Rightarrow>
          if int (length raw) > plan_max_bytes then invalid
          else (case decode raw of Inl _ \<Rightarrow> invalid | Inr txt \<Rightarrow> plan_of_lines wd (splitlines txt)))"

section \<open>What an accepted plan is\<close>

definition plan_edges :: "plan_step list \<Rightarrow> (string \<times> string) set" where
  "plan_edges steps = {(dep, st_id s) |dep s. s \<in> set steps \<and> dep \<in> set (st_depends s)}"

definition sound_plan :: "plan \<Rightarrow> bool" where
  "sound_plan p \<longleftrightarrow>
     pn_surfaces p \<noteq> [] \<and> set (pn_surfaces p) \<subseteq> set valid_surfaces \<and> strip (pn_acceptance p) \<noteq> [] \<and>
     (set (pn_surfaces p) \<inter> {''web'', ''gui''} \<noteq> {} \<longrightarrow> (\<exists>c cs. pn_e2e p = Some (c # cs))) \<and>
     pn_steps p \<noteq> [] \<and>
     map st_id (pn_steps p) = map (\<lambda>i. ''STEP-'' @ show_nat i) [1..<length (pn_steps p) + 1] \<and>
     distinct (map st_id (pn_steps p)) \<and>
     (\<forall>s \<in> set (pn_steps p). set (st_depends s) \<subseteq> set (map st_id (pn_steps p))) \<and>
     acyclic (plan_edges (pn_steps p)) \<and>
     (\<forall>s \<in> set (pn_steps p). st_touches s \<noteq> [] \<or> st_trivial s \<or> st_pure_documentation s)"

lemma invalid_iff [simp]: "invalid \<noteq> Inr x" "invalid = Inl e \<longleftrightarrow> e = PlanValidationError"
  by (auto simp: invalid_def)

lemma check_ids_Inr:
  "check_ids idx seen ss = Inr () \<Longrightarrow>
     map st_id ss = map (\<lambda>i. ''STEP-'' @ show_nat i) [idx..<length ss + idx] \<and>
     distinct (map st_id ss) \<and> set (map st_id ss) \<inter> set seen = {}"
proof (induction ss arbitrary: idx seen)
  case (Cons s ss)
  then have s: "st_id s \<notin> set seen" "st_id s = ''STEP-'' @ show_nat idx" "check_ids (idx + 1) (st_id s # seen) ss = Inr ()"
    by (simp_all split: if_splits)
  note ih = Cons.IH [OF s(3), THEN conjunct1] Cons.IH [OF s(3), THEN conjunct2, THEN conjunct1]
    Cons.IH [OF s(3), THEN conjunct2, THEN conjunct2]
  have upt: "[idx..<length (s # ss) + idx] = idx # [idx + 1..<length ss + (idx + 1)]" by (simp add: upt_rec)
  have "map st_id (s # ss) = map (\<lambda>i. ''STEP-'' @ show_nat i) [idx..<length (s # ss) + idx]"
    unfolding upt list.map ih(1) [symmetric] s(2) by (rule refl)
  moreover have "distinct (map st_id (s # ss))" using ih(2,3) by (auto simp del: list.set_map)
  moreover have "set (map st_id (s # ss)) \<inter> set seen = {}" using ih(3) s(1) by (auto simp del: list.set_map)
  ultimately show ?case by (intro conjI)
qed simp

section \<open>The dependency graph\<close>

lemma dependents_count:
  "count_list (lookup_default [] (foldl (\<lambda>d (dep, sid). dict_append d dep sid) d0 es) u) v =
     count_list (lookup_default [] d0 u) v + length (filter (\<lambda>e. e = (u, v)) es)"
proof (induction es arbitrary: d0)
  case (Cons e es)
  obtain a b where e: "e = (a, b)" by fastforce
  have "count_list (lookup_default [] (dict_append d0 a b) u) v =
      count_list (lookup_default [] d0 u) v + (if (a, b) = (u, v) then 1 else 0)"
    by (simp add: dict_append_def lookup_default_def)
  then show ?case unfolding e by (simp add: Cons.IH)
qed simp

lemma edge_count:
  "length (filter (\<lambda>e. e = (u, v)) (concat (map (\<lambda>s. map (\<lambda>dep. (dep, st_id s)) (st_depends s)) steps))) =
     (\<Sum>s \<leftarrow> filter (\<lambda>s. st_id s = v) steps. count_list (st_depends s) u)"
proof (induction steps)
  case (Cons s ss)
  have "length (filter (\<lambda>e. e = (u, v)) (map (\<lambda>dep. (dep, st_id s)) ds)) =
      (if st_id s = v then count_list ds u else 0)" for ds
    by (induction ds) auto
  with Cons show ?case by simp
qed simp

lemma sum_counts: "finite V \<Longrightarrow> set xs \<subseteq> V \<Longrightarrow> (\<Sum>u \<in> V. count_list xs u) = length xs"
proof (induction xs)
  case (Cons x xs)
  then have "(\<Sum>u \<in> V. count_list (x # xs) u) = (\<Sum>u \<in> V. (if u = x then 1 else 0) + count_list xs u)"
    by (intro sum.cong) auto
  with Cons show ?case by (simp add: sum.distrib)
qed simp

lemma only_one: "s \<in> set xs \<Longrightarrow> f s = v \<Longrightarrow> distinct (map f xs) \<Longrightarrow> filter (\<lambda>s. f s = v) xs = [s]"
proof (induction xs)
  case (Cons x xs)
  show ?case
  proof (cases "f x = v")
    case True
    with Cons.prems(3) have "v \<notin> f ` set xs" by simp
    then have "\<forall>y \<in> set xs. f y \<noteq> v" by (metis imageI)
    with True Cons.prems(1,2) show ?thesis by (auto simp: filter_empty_conv)
  qed (use Cons in auto)
qed simp

lemma sum_list_pos: "(\<Sum>x \<leftarrow> xs. f x) \<noteq> (0 :: nat) \<longleftrightarrow> (\<exists>x \<in> set xs. f x \<noteq> 0)"
  by (induction xs) auto

lemma indegree_counts_edges:
  assumes "distinct (map st_id steps)" and "known_depends steps"
  shows "lookup_default 0 (plan_indegree steps) v =
    (\<Sum>u \<in> set (map st_id steps). int (count_list (lookup_default [] (plan_dependents steps) u) v))"
proof -
  let ?V = "set (map st_id steps)"
  have look: "map_of (plan_indegree steps) v = map_of (map (\<lambda>s. (st_id s, int (length (st_depends s)))) steps) v"
    using assms(1) by (simp add: plan_indegree_def dict_of_distinct o_def)
  have cnt: "count_list (lookup_default [] (plan_dependents steps) u) v =
      (\<Sum>s \<leftarrow> filter (\<lambda>s. st_id s = v) steps. count_list (st_depends s) u)" for u
    unfolding plan_dependents_def dependents_count edge_count by (simp add: lookup_default_def)
  show ?thesis
  proof (cases "v \<in> ?V")
    case False
    then have "filter (\<lambda>s. st_id s = v) steps = []" by (auto simp: filter_empty_conv)
    with False cnt look show ?thesis
      by (simp add: lookup_default_def map_of_eq_None_iff [THEN iffD2] image_image)
  next
    case True
    then obtain s where s: "s \<in> set steps" "st_id s = v" by auto
    then have f: "filter (\<lambda>s. st_id s = v) steps = [s]" using assms(1) by (rule only_one)
    have "map_of (map (\<lambda>s. (st_id s, int (length (st_depends s)))) steps) v = Some (int (length (st_depends s)))"
      using assms(1) s by (intro map_of_is_SomeI) (auto simp: o_def)
    moreover have "set (st_depends s) \<subseteq> ?V" using assms(2) s(1) by (auto simp: known_depends_def list_all_iff)
    ultimately show ?thesis
      using look cnt f sum_counts [of ?V "st_depends s"]
      by (simp add: lookup_default_def flip: of_nat_sum)
  qed
qed

lemma dependents_edges:
  "v \<in> set (lookup_default [] (plan_dependents steps) u) \<longleftrightarrow> (u, v) \<in> plan_edges steps"
proof -
  have "count_list (lookup_default [] (plan_dependents steps) u) v =
      (\<Sum>s \<leftarrow> filter (\<lambda>s. st_id s = v) steps. count_list (st_depends s) u)"
    unfolding plan_dependents_def dependents_count edge_count by (simp add: lookup_default_def)
  moreover have "v \<in> set xs \<longleftrightarrow> count_list xs v \<noteq> 0" for xs by (simp add: count_list_0_iff)
  ultimately have "v \<in> set (lookup_default [] (plan_dependents steps) u) \<longleftrightarrow>
      (\<exists>s \<in> set (filter (\<lambda>s. st_id s = v) steps). count_list (st_depends s) u \<noteq> 0)"
    by (simp only: sum_list_pos)
  then show ?thesis by (auto simp: plan_edges_def count_list_0_iff)
qed

lemma zero_keys:
  "distinct (map fst d) \<Longrightarrow> set (map fst (filter (\<lambda>(k, n). n = (0 :: int)) d)) = {v \<in> fst ` set d. lookup_default 0 d v = 0}"
proof (induction d)
  case (Cons x d)
  obtain k n where x: "x = (k, n)" by fastforce
  have k: "k \<notin> fst ` set d" using Cons.prems x by simp
  have "lookup_default 0 (x # d) v = (if v = k then n else lookup_default 0 d v)" for v
    by (simp add: x lookup_default_def)
  with Cons k show ?case by (auto simp: x)
qed simp

theorem validate_depends_exact:
  assumes "distinct (map st_id steps)"
  shows "validate_depends steps = Inr () \<longleftrightarrow> known_depends steps \<and> acyclic (plan_edges steps)"
proof (cases "known_depends steps")
  case True
  let ?V = "set (map st_id steps)" and ?adj = "lookup_default [] (plan_dependents steps)" and ?d = "plan_indegree steps"
  let ?q = "map fst (filter (\<lambda>(sid, n). n = 0) ?d)"
  obtain d' n where run: "drain ?adj ?d ?q 0 = (d', n)" by fastforce
  have d: "?d = map (\<lambda>s. (st_id s, int (length (st_depends s)))) steps"
    using assms by (simp add: plan_indegree_def dict_of_distinct o_def)
  have keys: "distinct (map fst ?d)" "fst ` set ?d = ?V" using assms by (simp_all add: d o_def image_image)
  have "edges_of ?V ?adj = plan_edges steps"
    using True by (fastforce simp: edges_of_def dependents_edges plan_edges_def known_depends_def list_all_iff)
  moreover have "n = card ?V \<longleftrightarrow> acyclic (edges_of ?V ?adj)"
  proof (rule drain_correct [OF _ _ _ _ _ run])
    show "set (?adj u) \<subseteq> ?V" for u by (auto simp: dependents_edges plan_edges_def)
    show "lookup_default 0 ?d v = (\<Sum>u \<in> ?V. int (count_list (?adj u) v))" for v
      by (rule indegree_counts_edges [OF assms True])
    show "distinct ?q" using keys(1) by (rule distinct_map_filter)
    show "set ?q = {v \<in> ?V. lookup_default 0 ?d v = 0}"
      unfolding keys(2) [symmetric] by (rule zero_keys [OF keys(1)])
  qed simp
  moreover have "card ?V = length steps" using assms distinct_card by fastforce
  ultimately show ?thesis using True run by (simp add: validate_depends_def Let_def)
qed (simp add: validate_depends_def)

section \<open>Accepted plans are sound, rejected ones raise one exception\<close>

lemma plan_of_lines_Inr:
  assumes "plan_of_lines wd ls = Inr p"
  shows "\<exists>name sections meta steps. p = plan_of_parts name sections meta steps \<and> check_meta meta = Inr () \<and>
    validate_plan p = Inr ()"
  using assms by (fastforce simp: plan_of_lines_def res_bind_Inr_iff parse_meta_def Let_def split: option.splits)

lemma check_meta_Inr:
  assumes "check_meta meta = Inr ()"
  obtains xs a where "map_of meta ''surfaces'' = Some (MList xs)" "xs \<noteq> []" "set xs \<subseteq> set valid_surfaces"
    "map_of meta ''acceptance'' = Some (MStr a)" "strip a \<noteq> []"
  using assms by (auto simp: check_meta_def split: option.splits meta_value.splits if_splits)

lemma parse_plan_sound:
  assumes "parse_plan wd os path = Inr p"
  shows "sound_plan p"
proof -
  from assms obtain ls where "plan_of_lines wd ls = Inr p"
    by (auto simp: parse_plan_def split: sum.splits if_splits)
  from plan_of_lines_Inr [OF this] obtain meta name sections steps where
    p: "p = plan_of_parts name sections meta steps" and m: "check_meta meta = Inr ()" "validate_plan p = Inr ()" by blast
  from m(1) obtain xs a where xs: "pn_surfaces p = xs" "xs \<noteq> []" "set xs \<subseteq> set valid_surfaces"
    and a: "pn_acceptance p = a" "strip a \<noteq> []"
    by (rule check_meta_Inr) (simp add: p plan_of_parts_def meta_str_def)
  from m(2) have v: "validate_e2e p = Inr ()" "validate_step_ids (pn_steps p) = Inr ()"
    "validate_depends (pn_steps p) = Inr ()" "validate_touches_declared (pn_steps p) = Inr ()"
    by (auto simp: validate_plan_def res_bind_Inr_iff)
  have e2e: "set (pn_surfaces p) \<inter> {''web'', ''gui''} \<noteq> {} \<longrightarrow> (\<exists>c cs. pn_e2e p = Some (c # cs))"
    using v(1) by (cases "pn_e2e p"; cases "the (pn_e2e p)") (auto simp: validate_e2e_def split: if_splits)
  have ids: "pn_steps p \<noteq> []" "check_ids 1 [] (pn_steps p) = Inr ()"
    using v(2) by (auto simp: validate_step_ids_def split: if_splits)
  note seq = check_ids_Inr [OF ids(2)]
  have dep: "known_depends (pn_steps p)" "acyclic (plan_edges (pn_steps p))"
    using v(3) validate_depends_exact [OF seq [THEN conjunct2, THEN conjunct1]] by blast+
  have t: "undeclared (pn_steps p) = []"
    using v(4) by (auto simp: validate_touches_declared_def split: if_splits)
  show ?thesis
    unfolding sound_plan_def
  proof (intro conjI)
    show "\<forall>s \<in> set (pn_steps p). set (st_depends s) \<subseteq> set (map st_id (pn_steps p))"
      using dep(1) by (auto simp: known_depends_def list_all_iff)
    show "\<forall>s \<in> set (pn_steps p). st_touches s \<noteq> [] \<or> st_trivial s \<or> st_pure_documentation s"
      using t by (auto simp: undeclared_def filter_empty_conv)
  qed (use xs a e2e ids seq dep in \<open>blast+\<close>)
qed

text \<open>
  C16: what the parser accepts is a plan one can work from: its surfaces are known and not empty,
  the acceptance command is not blank, web and gui plans have an end-to-end command, the steps are
  STEP-1 to STEP-n in this order, every dependency is a step of the plan, the dependencies have no
  cycle, and every step names the files it touches or declares why it touches none.
\<close>

theorem accepted_plan_is_sound:
  assumes "parse_plan wd os path = Inr p"
  shows "sound_plan p"
  using assms by (rule parse_plan_sound)

lemma raises_only:
  "parse_bool v = Inl e \<Longrightarrow> e = PlanValidationError"
  "parse_int wd v = Inl e \<Longrightarrow> e = PlanValidationError"
  "parse_inline_list v = Inl e \<Longrightarrow> e = PlanValidationError"
  "meta_entry wd k v = Inl e \<Longrightarrow> e = PlanValidationError"
  "check_meta m = Inl e \<Longrightarrow> e = PlanValidationError"
  "set_key k v s = Inl e \<Longrightarrow> e = PlanValidationError"
proof -
  show 1: "parse_bool v = Inl e \<Longrightarrow> e = PlanValidationError" for v e
    by (auto simp: parse_bool_def Let_def split: if_splits)
  show 2: "parse_int wd v = Inl e \<Longrightarrow> e = PlanValidationError" for v e
    by (auto simp: parse_int_def split: option.splits)
  show 3: "parse_inline_list v = Inl e \<Longrightarrow> e = PlanValidationError" for v e
    by (auto simp: parse_inline_list_def split: option.splits if_splits)
  show "meta_entry wd k v = Inl e \<Longrightarrow> e = PlanValidationError"
    unfolding meta_entry_def res_bind_def by (simp split: if_splits sum.splits add: 1 2 3)
  show "check_meta m = Inl e \<Longrightarrow> e = PlanValidationError"
    by (auto simp: check_meta_def split: option.splits meta_value.splits if_splits)
  show "set_key k v s = Inl e \<Longrightarrow> e = PlanValidationError"
    unfolding set_key_def res_bind_def by (simp split: if_splits sum.splits add: 1)
qed

lemma loops_raise_only:
  "extract_title ls = Inl e \<Longrightarrow> e = PlanValidationError"
  "split_sections secs cur ls = Inl e \<Longrightarrow> e = PlanValidationError"
  "meta_entries wd out ls = Inl e \<Longrightarrow> e = PlanValidationError"
  "parse_steps wd steps ls = Inl e \<Longrightarrow> e = PlanValidationError"
  "check_ids i seen ss = Inl e \<Longrightarrow> e = PlanValidationError"
proof -
  show "extract_title ls = Inl e \<Longrightarrow> e = PlanValidationError"
    by (induction ls) (auto split: if_splits option.splits)
  show "split_sections secs cur ls = Inl e \<Longrightarrow> e = PlanValidationError"
    by (induction secs cur ls rule: split_sections.induct) (auto simp: Let_def split: if_splits option.splits)
  show "meta_entries wd out ls = Inl e \<Longrightarrow> e = PlanValidationError"
    by (induction wd out ls rule: meta_entries.induct)
      (auto simp: Let_def res_bind_def raises_only(4) split: if_splits option.splits sum.splits)
  show "parse_steps wd steps ls = Inl e \<Longrightarrow> e = PlanValidationError"
    by (induction wd steps ls rule: parse_steps.induct)
      (auto simp: Let_def res_bind_def raises_only(6) split: if_splits option.splits sum.splits)
  show "check_ids i seen ss = Inl e \<Longrightarrow> e = PlanValidationError"
    by (induction i seen ss rule: check_ids.induct) (auto split: if_splits)
qed

lemma validators_raise_only:
  "validate_e2e p = Inl e \<Longrightarrow> e = PlanValidationError"
  "validate_step_ids ss = Inl e \<Longrightarrow> e = PlanValidationError"
  "validate_depends ss = Inl e \<Longrightarrow> e = PlanValidationError"
  "validate_touches_declared ss = Inl e \<Longrightarrow> e = PlanValidationError"
  "parse_meta wd ls = Inl e \<Longrightarrow> e = PlanValidationError"
  by (auto simp: validate_e2e_def validate_step_ids_def validate_depends_def validate_touches_declared_def
      parse_meta_def Let_def res_bind_def loops_raise_only raises_only split: if_splits sum.splits)

lemma validate_plan_raises_only: "validate_plan p = Inl e \<Longrightarrow> e = PlanValidationError"
  by (auto simp: validate_plan_def res_bind_def validators_raise_only split: sum.splits)

text \<open>The only exception that leaves the parser, whatever the file holds.\<close>

lemma plan_errors:
  assumes "parse_plan wd os path = Inl e" and "\<And>x. os path = Inl x \<Longrightarrow> x = OSError"
  shows "e = PlanValidationError"
proof -
  have lines: "x = PlanValidationError" if "plan_of_lines wd ls = Inl x" for ls x
    using that unfolding plan_of_lines_def Let_def res_bind_def
    by (auto simp: loops_raise_only validators_raise_only validate_plan_raises_only split: sum.splits option.splits)
  show ?thesis
    using assms lines
    by (auto simp: parse_plan_def read_bytes_no_symlink_def res_bind_def plan_max_bytes_def split: sum.splits if_splits)
qed

section \<open>A plan\<close>

definition sample_plan_lines :: "string list" where
  "sample_plan_lines =
     [''# Auth'', ''## Meta'', ''surfaces: [cli]  # one'', ''acceptance: pytest'', ''## Steps'',
      ''- [ ] [STEP-1] Store'', ''  - touches: a.py, b.py'', ''- [X] [STEP-2] Login (0123abc)'',
      ''  - touches: [c.py]'', ''  - depends: [STEP-1]'']"

definition sample_plan_text :: string where
  "sample_plan_text = concat (map (\<lambda>l. l @ [nl]) sample_plan_lines)"

definition no_wide :: wide where
  "no_wide s = None"

definition plan_files :: os_open where
  "plan_files p = (if p = ''PLAN.md'' then Inr \<lparr>fn_regular = True, fn_nlink = 1, fn_data = sample_plan_text\<rparr> else Inl OSError)"

lemma sample_plan_parses:
  "(case parse_plan no_wide plan_files ''PLAN.md'' of
      Inl e \<Rightarrow> False
    | Inr p \<Rightarrow> pn_name p = ''Auth'' \<and> pn_surfaces p = [''cli''] \<and> map st_id (pn_steps p) = [''STEP-1'', ''STEP-2''] \<and>
        map st_depends (pn_steps p) = [[], [''STEP-1'']] \<and> map st_commit_sha (pn_steps p) = [None, Some ''0123abc''])"
  by code_simp

theorem accepted_plan_is_sound_witness:
  "\<exists>p. parse_plan no_wide plan_files ''PLAN.md'' = Inr p \<and> sound_plan p \<and> pn_name p = ''Auth''"
proof -
  from sample_plan_parses obtain p where p: "parse_plan no_wide plan_files ''PLAN.md'' = Inr p" "pn_name p = ''Auth''"
    by (auto split: sum.splits)
  with accepted_plan_is_sound [OF p(1)] show ?thesis by blast
qed

end
