(* ===== verification/TextLines.thy ===== *)
theory TextLines
  imports Prelude
begin

text \<open>
  Reading a text file as Python does it: \<open>decode("utf-8", errors="replace")\<close>, universal newlines
  and the lines of a file object, and \<open>str.rpartition\<close>.
\<close>

section \<open>Lossy decoding\<close>

definition replacement :: string where
  "replacement = [CHR 0xEF, CHR 0xBF, CHR 0xBD]"

text \<open>Whether \<open>d\<close> may follow the lead byte \<open>c\<close> of a character of three or four bytes.\<close>

definition second_ok :: "char \<Rightarrow> char \<Rightarrow> bool" where
  "second_ok c d \<longleftrightarrow>
     cont_byte d \<and> (byte c = 224 \<longrightarrow> 160 \<le> byte d) \<and> (byte c = 237 \<longrightarrow> byte d \<le> 159) \<and>
     (byte c = 240 \<longrightarrow> 144 \<le> byte d) \<and> (byte c = 244 \<longrightarrow> byte d \<le> 143)"

text \<open>Every maximal ill-formed piece becomes \<open>rep\<close>: the replacement character, or nothing with \<open>errors="ignore"\<close>.\<close>

fun utf8_lossy :: "string \<Rightarrow> string \<Rightarrow> string" where
  "utf8_lossy rep [] = []"
| "utf8_lossy rep (c # cs) =
     (if byte c < 128 then c # utf8_lossy rep cs
      else if 194 \<le> byte c \<and> byte c \<le> 223 then
        (case cs of
           [] \<Rightarrow> rep
         | d # r \<Rightarrow> if cont_byte d then c # d # utf8_lossy rep r else rep @ utf8_lossy rep (d # r))
      else if 224 \<le> byte c \<and> byte c \<le> 239 then
        (case cs of
           [] \<Rightarrow> rep
         | d # r \<Rightarrow>
             if \<not> second_ok c d then rep @ utf8_lossy rep (d # r)
             else (case r of
                 [] \<Rightarrow> rep
               | e # r2 \<Rightarrow> if cont_byte e then c # d # e # utf8_lossy rep r2 else rep @ utf8_lossy rep (e # r2)))
      else if 240 \<le> byte c \<and> byte c \<le> 244 then
        (case cs of
           [] \<Rightarrow> rep
         | d # r \<Rightarrow>
             if \<not> second_ok c d then rep @ utf8_lossy rep (d # r)
             else (case r of
                 [] \<Rightarrow> rep
               | e # r2 \<Rightarrow>
                   if \<not> cont_byte e then rep @ utf8_lossy rep (e # r2)
                   else (case r2 of
                       [] \<Rightarrow> rep
                     | f # r3 \<Rightarrow> if cont_byte f then c # d # e # f # utf8_lossy rep r3
                                else rep @ utf8_lossy rep (f # r3))))
      else rep @ utf8_lossy rep cs)"

abbreviation utf8_replace :: "string \<Rightarrow> string" where
  "utf8_replace \<equiv> utf8_lossy replacement"

abbreviation utf8_ignore :: "string \<Rightarrow> string" where
  "utf8_ignore \<equiv> utf8_lossy []"

lemma utf8_replace_ascii: "ascii s \<Longrightarrow> utf8_lossy rep s = s"
  by (induction s) (auto simp: ascii_def)

lemma utf8_replace_ok: "utf8_ok s \<Longrightarrow> utf8_lossy rep s = s"
proof (induction s rule: utf8_ok.induct)
  case 1
  show ?case by simp
next
  case (2 c cs)
  consider "byte c < 128" | "194 \<le> byte c \<and> byte c \<le> 223"
    | "224 \<le> byte c \<and> byte c \<le> 239" | "240 \<le> byte c \<and> byte c \<le> 244"
    using "2.prems" by (auto split: if_splits)
  then show ?case
  proof cases
    case 1
    with 2 show ?thesis by simp
  next
    case 2
    with "2.prems" "2.IH"(2) show ?thesis by (cases cs) auto
  next
    case 3
    with "2.prems" "2.IH"(3) show ?thesis by (cases cs; cases "tl cs") (auto simp: second_ok_def)
  next
    case 4
    with "2.prems" "2.IH"(4) show ?thesis
      by (cases cs; cases "tl cs"; cases "tl (tl cs)") (auto simp: second_ok_def)
  qed
qed

section \<open>Lines\<close>

fun universal :: "string \<Rightarrow> string" where
  "universal [] = []"
| "universal (c # cs) =
     (if byte c = 13 then CHR 0x0A # universal (if cs \<noteq> [] \<and> byte (hd cs) = 10 then tl cs else cs)
      else c # universal cs)"

text \<open>\<open>for line in f\<close>, each line without its newline.\<close>

definition lines_of :: "string \<Rightarrow> string list" where
  "lines_of t = (let xs = split_on CHR 0x0A t in if last xs = [] then butlast xs else xs)"

definition file_lines :: "string \<Rightarrow> string list" where
  "file_lines data = lines_of (universal (utf8_replace data))"

text \<open>A text in which no line ends.\<close>

definition one_line :: "string \<Rightarrow> bool" where
  "one_line s \<longleftrightarrow> list_all (\<lambda>c. byte c \<noteq> 10 \<and> byte c \<noteq> 13) s"

lemma one_line_simps [simp]:
  "one_line []" "one_line (c # s) \<longleftrightarrow> byte c \<noteq> 10 \<and> byte c \<noteq> 13 \<and> one_line s" "one_line (a @ b) \<longleftrightarrow> one_line a \<and> one_line b"
  by (auto simp: one_line_def)

lemma newline_char: "byte c = 10 \<longleftrightarrow> c = CHR 0x0A"
  by (rule byte_eq_code)

lemma universal_lines:
  "one_line s \<Longrightarrow> universal (s @ CHR 0x0A # t) = s @ CHR 0x0A # universal t"
  by (induction s) (auto simp: byte_def)

lemma split_on_lines:
  "one_line s \<Longrightarrow> split_on CHR 0x0A (s @ CHR 0x0A # t) = s # split_on CHR 0x0A t"
  by (induction s) (auto simp: newline_char)

lemma lines_of_Cons: "one_line s \<Longrightarrow> lines_of (s @ CHR 0x0A # t) = s # lines_of t"
  by (simp add: lines_of_def split_on_lines Let_def)

text \<open>A file whose lines are complete reads back line by line.\<close>

lemma file_lines_concat:
  assumes "\<And>l. l \<in> set ls \<Longrightarrow> one_line l \<and> utf8_ok (l @ [CHR 0x0A])"
  shows "file_lines (concat (map (\<lambda>l. l @ [CHR 0x0A]) ls)) = ls"
proof -
  let ?t = "concat (map (\<lambda>l. l @ [CHR 0x0A]) ls)"
  have "utf8_ok ?t" using assms by (intro utf8_ok_concat) auto
  moreover have "universal ?t = ?t" using assms by (induction ls) (auto simp: universal_lines)
  moreover have "lines_of ?t = ls" using assms
  proof (induction ls)
    case Nil
    show ?case by (simp add: lines_of_def)
  next
    case (Cons l ls)
    then have "lines_of (l @ CHR 0x0A # concat (map (\<lambda>l. l @ [CHR 0x0A]) ls)) = l # ls"
      by (subst lines_of_Cons) auto
    then show ?case by simp
  qed
  ultimately show ?thesis by (simp add: file_lines_def utf8_replace_ok)
qed

section \<open>Splitting at the last occurrence\<close>

text \<open>\<open>s.rpartition(sep)\<close> without its middle; \<open>None\<close> when \<open>sep\<close> does not occur.\<close>

fun rpartition :: "string \<Rightarrow> string \<Rightarrow> (string \<times> string) option" where
  "rpartition sep [] = (if sep = [] then Some ([], []) else None)"
| "rpartition sep (c # s) =
     (case rpartition sep s of
        Some (a, b) \<Rightarrow> Some (c # a, b)
      | None \<Rightarrow> if startswith (c # s) sep then Some ([], drop (length sep) (c # s)) else None)"

lemma rpartition_parts: "rpartition sep s = Some (a, b) \<Longrightarrow> s = a @ sep @ b"
  by (induction s arbitrary: a b) (auto simp: startswith_iff split: option.splits if_splits)

lemma rpartition_None: "rpartition sep s = None \<longleftrightarrow> \<not> contains sep s"
  by (induction s) (auto split: option.splits)

lemma rpartition_last:
  assumes "sep \<noteq> []" and "\<not> contains sep (tl sep @ b)"
  shows "rpartition sep (a @ sep @ b) = Some (a, b)"
proof (induction a)
  case Nil
  obtain c r where sep: "sep = c # r" using assms(1) by (cases sep) auto
  have "rpartition sep (r @ b) = None" using assms(2) sep by (simp add: rpartition_None)
  moreover have "startswith (sep @ b) sep" by (auto simp: startswith_iff)
  ultimately show ?case using sep by simp
qed simp

lemma contains_chars: "contains pat s \<Longrightarrow> set pat \<subseteq> set s"
proof (induction s)
  case (Cons c s)
  have "set pat \<subseteq> set (c # s)" if "startswith (c # s) pat"
    using that by (metis startswith_iff set_append Un_upper1)
  with Cons show ?case by auto
qed simp

end
