(* ===== verification/Contracts.thy ===== *)
theory Contracts
  imports Effects TextLines Json_Indent Json_Canonical Attest
begin

text \<open>
  The frozen contracts, \<open>peers_ctl/contracts.py\<close>: the acceptance scripts and the snapshot of the
  plan, their pinned digests in \<open>contracts.sha\<close> and the hash-chained audit log
  \<open>contracts.log\<close>. The state is the project directory, a map from the names relative to it to
  nodes: a regular file has a link count, a mode and its bytes. \<open>sha256\<close> is the parameter \<open>H\<close>,
  the time stamp of an entry an argument. \<open>FileNotFoundError\<close> is the absence of the name, every
  other \<open>OSError\<close> the value \<open>OSError\<close>.
\<close>

section \<open>The directory\<close>

datatype node = File nat nat string | Symlink | Special

type_synonym contract_dir = "(string \<times> node) list"

definition private_mode :: "nat \<Rightarrow> nat" where
  "private_mode m = m - m mod 64"

text \<open>\<open>write_text_no_symlink\<close> and \<open>append_text_no_symlink\<close>: the checks before the file is opened, then the write.\<close>

definition write_target :: "string \<Rightarrow> contract_dir \<Rightarrow> (nat \<times> string) res" where
  "write_target path fs =
     (case map_of fs path of
        None \<Rightarrow> Inr (384, [])
      | Some (File n m d) \<Rightarrow> if n \<noteq> 1 then Inl OSError else Inr (private_mode m, d)
      | Some _ \<Rightarrow> Inl OSError)"

definition write_text :: "string \<Rightarrow> string \<Rightarrow> (contract_dir, unit) act" where
  "write_text path txt fs =
     (case write_target path fs of
        Inl e \<Rightarrow> (Inl e, fs)
      | Inr (m, _) \<Rightarrow>
          (case encode txt of
             Inl e \<Rightarrow> (Inl e, dict_set fs path (File 1 m []))
           | Inr b \<Rightarrow> (Inr (), dict_set fs path (File 1 m b))))"

definition append_line :: "string \<Rightarrow> string \<Rightarrow> (contract_dir, unit) act" where
  "append_line path txt fs =
     (case write_target path fs of
        Inl e \<Rightarrow> (Inl e, fs)
      | Inr (m, d) \<Rightarrow>
          (case encode txt of
             Inl e \<Rightarrow> (Inl e, dict_set fs path (File 1 m d))
           | Inr b \<Rightarrow> (Inr (), dict_set fs path (File 1 m (d @ b)))))"

definition read_node :: "string \<Rightarrow> contract_dir \<Rightarrow> string res" where
  "read_node path fs =
     (case map_of fs path of
        Some (File n m d) \<Rightarrow> if n \<noteq> 1 then Inl OSError else Inr d
      | _ \<Rightarrow> Inl OSError)"

section \<open>Names, scripts and pins\<close>

definition acceptance_sh :: string where
  "acceptance_sh = ''acceptance.sh''"

definition e2e_sh :: string where
  "e2e_sh = ''e2e.sh''"

definition plan_original :: string where
  "plan_original = ''PLAN.original.md''"

definition contracts_sha :: string where
  "contracts_sha = ''contracts.sha''"

definition contracts_log :: string where
  "contracts_log = ''contracts.log''"

definition valid_keys :: "string list" where
  "valid_keys = [acceptance_sh, e2e_sh, plan_original]"

definition script_body :: "string \<Rightarrow> string" where
  "script_body command = ''#!/bin/sh'' @ [nl] @ ''set -e'' @ [nl] @ command @ [nl]"

definition contract_path :: "string \<Rightarrow> string res" where
  "contract_path fname =
     (if fname = acceptance_sh \<or> fname = e2e_sh then Inr (''contracts/'' @ fname)
      else if fname = plan_original then Inr plan_original
      else Inl ValueError)"

text \<open>
  \<open>_write_read_only\<close>: an existing file is made writable before its link count is looked at, and
  truncated before the text is encoded.
\<close>

definition write_read_only :: "string \<Rightarrow> string \<Rightarrow> (contract_dir, unit) act" where
  "write_read_only path content fs =
     (let fill = (case encode content of
            Inl e \<Rightarrow> (Inl e, dict_set fs path (File 1 420 []))
          | Inr b \<Rightarrow> (Inr (), dict_set fs path (File 1 292 b)))
      in case map_of fs path of
           None \<Rightarrow> fill
         | Some (File n m d) \<Rightarrow> if n \<noteq> 1 then (Inl OSError, dict_set fs path (File n 420 d)) else fill
         | Some _ \<Rightarrow> (Inl OSError, fs))"

type_synonym pins = "(string \<times> string) list"

definition pins_json :: "pins \<Rightarrow> json" where
  "pins_json pins = JObj (map (\<lambda>(k, v). (k, JStr v)) pins)"

fun pins_of :: "raw \<Rightarrow> pins option" where
  "pins_of [] = Some []"
| "pins_of ((k, JStr v) # d) = (case pins_of d of None \<Rightarrow> None | Some ps \<Rightarrow> Some ((k, v) # ps))"
| "pins_of _ = None"

definition read_pins :: "string \<Rightarrow> pins res" where
  "read_pins txt =
     (case loads txt of
        Inr (JObj d) \<Rightarrow>
          (case pins_of d of
             None \<Rightarrow> Inl ContractsMismatch
           | Some pins \<Rightarrow> if fst ` set pins \<subseteq> set valid_keys then Inr pins else Inl ContractsMismatch)
      | _ \<Rightarrow> Inl ContractsMismatch)"

definition load_pins :: "contract_dir \<Rightarrow> pins res" where
  "load_pins fs =
     (case map_of fs contracts_sha of
        None \<Rightarrow> Inl ContractsMismatch
      | Some (File n m d) \<Rightarrow> if n \<noteq> 1 then Inl OSError else read_pins (utf8_replace d)
      | Some _ \<Rightarrow> Inl OSError)"

definition pins_text :: "pins \<Rightarrow> string" where
  "pins_text pins = ascii_text (dumps_indent 2 (sort_keys (pins_json pins))) @ [nl]"

definition save_pins :: "pins \<Rightarrow> (contract_dir, unit) act" where
  "save_pins pins = write_text contracts_sha (pins_text pins)"

section \<open>The audit log\<close>

type_synonym digest = "string \<Rightarrow> string"

definition pin_state_hash :: "digest \<Rightarrow> pins \<Rightarrow> string" where
  "pin_state_hash H pins = H (ascii_text (canonical_json (pins_json pins)))"

definition chain_seed :: string where
  "chain_seed = ''genesis''"

definition state_sep :: string where
  "state_sep = '' | state: ''"

definition chain_prefix_len :: nat where
  "chain_prefix_len = 16"

definition chain_prefix :: "digest \<Rightarrow> string \<Rightarrow> string \<Rightarrow> string" where
  "chain_prefix H prev entry_text = take chain_prefix_len (H (prev @ entry_text))"

definition entry_prefix :: "string \<Rightarrow> string" where
  "entry_prefix line = fst (partition_at CHR '' '' line)"

definition previous_chain_value :: "contract_dir \<Rightarrow> string res" where
  "previous_chain_value fs =
     (case map_of fs contracts_log of
        Some Symlink \<Rightarrow> Inl OSError
      | Some (File n m d) \<Rightarrow>
          if n \<noteq> 1 then Inl OSError
          else (case find_last (\<lambda>line. line \<noteq> []) (file_lines d) of
              Some line \<Rightarrow> Inr (entry_prefix line)
            | None \<Rightarrow> Inr chain_seed)
      | _ \<Rightarrow> Inr chain_seed)"

definition entry_body :: "string \<Rightarrow> string \<Rightarrow> string" where
  "entry_body event payload = (if payload = [] then event else event @ '': '' @ payload)"

definition append_chain_entry ::
  "digest \<Rightarrow> string \<Rightarrow> string \<Rightarrow> string \<Rightarrow> string \<Rightarrow> (contract_dir, unit) act" where
  "append_chain_entry H stamp event payload state_hash fs =
     (let entry_text = stamp @ '' '' @ entry_body event payload @ state_sep @ state_hash @ [nl] in
      case previous_chain_value fs of
        Inl e \<Rightarrow> (Inl e, fs)
      | Inr prev \<Rightarrow>
          (case encode (prev @ entry_text) of
             Inl e \<Rightarrow> (Inl e, fs)
           | Inr b \<Rightarrow> append_line contracts_log (chain_prefix H prev entry_text @ '' '' @ entry_text) fs))"

definition parse_chain_entry :: "string \<Rightarrow> (string \<times> string \<times> string) option" where
  "parse_chain_entry line =
     (let (prefix, rest) = partition_at CHR '' '' line in
      if line = [] \<or> py_len prefix \<noteq> chain_prefix_len \<or> rest = [] then None
      else (case rpartition state_sep rest of
          None \<Rightarrow> None
        | Some (body, state) \<Rightarrow> if body = [] \<or> state = [] then None else Some (prefix, body, state)))"

text \<open>The walk over the lines; the last entry seen is the result.\<close>

fun walk_lines :: "digest \<Rightarrow> string \<Rightarrow> (string \<times> string) option \<Rightarrow> string list \<Rightarrow> (string \<times> string) res" where
  "walk_lines H prev seen [] = (case seen of None \<Rightarrow> Inl ContractsMismatch | Some x \<Rightarrow> Inr x)"
| "walk_lines H prev seen (raw # ls) =
     (case parse_chain_entry raw of
        None \<Rightarrow> if blank raw then walk_lines H prev seen ls else Inl ContractsMismatch
      | Some (prefix, body, state) \<Rightarrow>
          if chain_prefix H prev (body @ state_sep @ state @ [nl]) \<noteq> prefix then Inl ContractsMismatch
          else walk_lines H prefix (Some (prefix, state)) ls)"

definition walk_chain :: "digest \<Rightarrow> contract_dir \<Rightarrow> (string \<times> string) res" where
  "walk_chain H fs =
     (case map_of fs contracts_log of
        Some Symlink \<Rightarrow> Inl OSError
      | Some (File n m d) \<Rightarrow> if n \<noteq> 1 then Inl OSError else walk_lines H chain_seed None (file_lines d)
      | _ \<Rightarrow> Inl ContractsMismatch)"

section \<open>The operations\<close>

definition write_frozen_contracts ::
  "digest \<Rightarrow> string \<Rightarrow> string \<Rightarrow> string option \<Rightarrow> string \<Rightarrow> (contract_dir, unit) act" where
  "write_frozen_contracts H stamp acceptance e2e plan_md =
     (let acc = script_body acceptance;
          pins1 = [(acceptance_sh, H acc)];
          pins2 = (case e2e of Some (c # cs) \<Rightarrow> pins1 @ [(e2e_sh, H (script_body (c # cs)))] | _ \<Rightarrow> pins1);
          pins = pins2 @ [(plan_original, H plan_md)]
      in act_bind (write_read_only (''contracts/'' @ acceptance_sh) acc) (\<lambda>_.
         act_bind (case e2e of
             Some (c # cs) \<Rightarrow> write_read_only (''contracts/'' @ e2e_sh) (script_body (c # cs))
           | _ \<Rightarrow> ret ()) (\<lambda>_.
         act_bind (write_read_only plan_original plan_md) (\<lambda>_.
         act_bind (save_pins pins) (\<lambda>_.
           append_chain_entry H stamp ''init'' [] (pin_state_hash H pins))))))"

definition verify_pin :: "digest \<Rightarrow> contract_dir \<Rightarrow> string \<times> string \<Rightarrow> unit res" where
  "verify_pin H fs pin =
     res_bind (contract_path (fst pin)) (\<lambda>path.
       case read_node path fs of
         Inl e \<Rightarrow> Inl ContractsMismatch
       | Inr data \<Rightarrow> if H data \<noteq> snd pin then Inl ContractsMismatch else Inr ())"

definition verify_contracts :: "digest \<Rightarrow> contract_dir \<Rightarrow> unit res" where
  "verify_contracts H fs =
     res_bind (load_pins fs) (\<lambda>pins.
     res_bind (res_map (verify_pin H fs) pins) (\<lambda>_.
     res_bind (walk_chain H fs) (\<lambda>(_, state).
       if state \<noteq> pin_state_hash H pins then Inl ContractsMismatch else Inr ())))"

definition amend_acceptance :: "digest \<Rightarrow> string \<Rightarrow> string \<Rightarrow> string \<Rightarrow> (contract_dir, unit) act" where
  "amend_acceptance H stamp new_command reason fs =
     (case load_pins fs of
        Inl e \<Rightarrow> (Inl e, fs)
      | Inr pins0 \<Rightarrow>
          (let acc = script_body new_command; pins = dict_set pins0 acceptance_sh (H acc) in
           act_bind (write_read_only (''contracts/'' @ acceptance_sh) acc) (\<lambda>_.
           act_bind (save_pins pins) (\<lambda>_.
             append_chain_entry H stamp ''amend acceptance'' (new_command @ '' | reason: '' @ reason)
               (pin_state_hash H pins))) fs))"

section \<open>Digests and lines\<close>

definition hexd :: "char \<Rightarrow> bool" where
  "hexd c \<longleftrightarrow> is_digit c \<or> 97 \<le> byte c \<and> byte c \<le> 102"

definition hex64 :: "string \<Rightarrow> bool" where
  "hex64 s \<longleftrightarrow> length s = 64 \<and> list_all hexd s"

text \<open>What \<open>hashlib.sha256(...).hexdigest()\<close> returns.\<close>

definition hex_digests :: "digest \<Rightarrow> bool" where
  "hex_digests H \<longleftrightarrow> (\<forall>t. hex64 (H t))"

lemma hexd_facts:
  assumes "hexd c"
  shows "byte c < 127" and "c \<noteq> CHR '' ''" and "c \<noteq> CHR ''|''" and "byte c \<noteq> 10" and "byte c \<noteq> 13" and "32 \<le> byte c"
  using assms by (auto simp: hexd_def is_digit_def byte_def)

lemma hex_list:
  assumes "list_all hexd s"
  shows "plain s" and "ascii s" and "one_line s" and "CHR '' '' \<notin> set s" and "CHR ''|'' \<notin> set s" and "py_len s = length s"
proof -
  show "plain s" "ascii s" "one_line s" "CHR '' '' \<notin> set s" "CHR ''|'' \<notin> set s"
    using assms by (induction s) (auto simp: plain_def ascii_def dest: hexd_facts)
  from assms have "filter (\<lambda>c. \<not> (128 \<le> byte c \<and> byte c \<le> 191)) s = s"
    by (induction s) (auto dest: hexd_facts)
  then show "py_len s = length s" by (simp add: py_len_def)
qed

lemma chain_prefix_hex:
  assumes "hex_digests H"
  shows "list_all hexd (chain_prefix H prev t) \<and> length (chain_prefix H prev t) = chain_prefix_len"
  using assms
  by (auto simp: hex_digests_def hex64_def chain_prefix_def chain_prefix_len_def list_all_iff dest: in_set_takeD)

lemma partition_space: "CHR '' '' \<notin> set p \<Longrightarrow> partition_at CHR '' '' (p @ CHR '' '' # r) = (p, r)"
  by (induction p) (auto simp: partition_at_def)

lemma state_suffix:
  assumes "hex64 h"
  shows "rpartition state_sep (body @ state_sep @ h) = Some (body, h)"
proof (rule rpartition_last)
  obtain c cs where h: "h = c # cs" using assms by (cases h) (auto simp: hex64_def)
  have no: "CHR '' '' \<notin> set h" "CHR ''|'' \<notin> set h" using assms hex_list by (auto simp: hex64_def)
  then have "\<not> contains state_sep h" using contains_chars [of state_sep h] by (auto simp: state_sep_def)
  then show "\<not> contains state_sep (tl state_sep @ h)"
    using no by (simp add: state_sep_def h del: contains.simps(2)) (auto simp: h)
qed (simp add: state_sep_def)

section \<open>A chain of entries\<close>

fun last_prefix :: "digest \<Rightarrow> string \<Rightarrow> (string \<times> string) list \<Rightarrow> string" where
  "last_prefix H prev [] = prev"
| "last_prefix H prev ((body, state) # es) =
     last_prefix H (chain_prefix H prev (body @ state_sep @ state @ [nl])) es"

fun chain_lines :: "digest \<Rightarrow> string \<Rightarrow> (string \<times> string) list \<Rightarrow> string list" where
  "chain_lines H prev [] = []"
| "chain_lines H prev ((body, state) # es) =
     (let p = chain_prefix H prev (body @ state_sep @ state @ [nl]) in
      (p @ '' '' @ body @ state_sep @ state) # chain_lines H p es)"

definition good_entry :: "string \<times> string \<Rightarrow> bool" where
  "good_entry e \<longleftrightarrow>
     fst e \<noteq> [] \<and> one_line (fst e) \<and> utf8_ok (fst e @ state_sep @ snd e @ [nl]) \<and> hex64 (snd e)"

definition log_text :: "digest \<Rightarrow> (string \<times> string) list \<Rightarrow> string" where
  "log_text H es = concat (map (\<lambda>l. l @ [CHR 0x0A]) (chain_lines H chain_seed es))"

lemma chain_lines_append:
  "chain_lines H prev (es @ es') = chain_lines H prev es @ chain_lines H (last_prefix H prev es) es'"
  "last_prefix H prev (es @ es') = last_prefix H (last_prefix H prev es) es'"
  by (induction H prev es rule: last_prefix.induct) (auto simp: Let_def)

lemma nl_char: "nl = CHR 0x0A"
  using byte_nl newline_char by blast

lemma one_line_sep: "one_line state_sep" "one_line '' ''"
  by (simp_all add: state_sep_def byte_def)

lemma chain_line_ok:
  assumes "hex_digests H" and "good_entry (body, state)" and "l = chain_prefix H prev t @ '' '' @ body @ state_sep @ state"
  shows "one_line l \<and> utf8_ok (l @ [CHR 0x0A])"
proof
  note p = chain_prefix_hex [OF assms(1), of prev t]
  have "one_line state" using assms(2) hex_list(3) by (auto simp: good_entry_def hex64_def)
  then show "one_line l" using assms(2,3) p hex_list(3) one_line_sep by (simp add: good_entry_def)
  have "ascii (chain_prefix H prev t @ '' '')" using p hex_list(2) by (simp add: ascii_def byte_def)
  then have "utf8_ok ((chain_prefix H prev t @ '' '') @ body @ state_sep @ state @ [CHR 0x0A])"
    using assms(2) by (subst utf8_ok_append) (auto simp: good_entry_def nl_char intro: ascii_utf8_ok)
  then show "utf8_ok (l @ [CHR 0x0A])" using assms(3) by simp
qed

lemma parse_chain_line:
  assumes "hex_digests H" and "good_entry (body, state)"
  shows "parse_chain_entry (chain_prefix H prev t @ '' '' @ body @ state_sep @ state) = Some (chain_prefix H prev t, body, state)"
proof -
  note p = chain_prefix_hex [OF assms(1), of prev t]
  have "partition_at CHR '' '' (chain_prefix H prev t @ CHR '' '' # body @ state_sep @ state) =
      (chain_prefix H prev t, body @ state_sep @ state)"
    by (rule partition_space) (use p hex_list(4) in blast)
  moreover have "py_len (chain_prefix H prev t) = chain_prefix_len" using p hex_list(6) by simp
  moreover have "rpartition state_sep (body @ state_sep @ state) = Some (body, state)" "state \<noteq> []"
    using assms(2) state_suffix by (auto simp: good_entry_def hex64_def)
  ultimately show ?thesis using assms(2) by (simp add: parse_chain_entry_def good_entry_def)
qed

lemma walk_chain_lines:
  assumes "hex_digests H" and "\<forall>e \<in> set es. good_entry e"
  shows "walk_lines H prev seen (chain_lines H prev es) =
    (if es = [] then (case seen of None \<Rightarrow> Inl ContractsMismatch | Some x \<Rightarrow> Inr x)
     else Inr (last_prefix H prev es, snd (last es)))"
  using assms(2)
proof (induction es arbitrary: prev seen)
  case (Cons e es)
  obtain body state where e: "e = (body, state)" by fastforce
  let ?p = "chain_prefix H prev (body @ state_sep @ state @ [nl])"
  have "parse_chain_entry (?p @ '' '' @ body @ state_sep @ state) = Some (?p, body, state)"
    using Cons.prems e by (intro parse_chain_line assms(1)) simp
  then have "walk_lines H prev seen (chain_lines H prev (e # es)) = walk_lines H ?p (Some (?p, state)) (chain_lines H ?p es)"
    by (simp add: e Let_def)
  also have "\<dots> = (if es = [] then Inr (?p, state) else Inr (last_prefix H ?p es, snd (last es)))"
    using Cons by simp
  finally show ?case by (simp add: e)
qed simp

lemma lines_of_log:
  assumes "hex_digests H" and "\<forall>e \<in> set es. good_entry e"
  shows "file_lines (log_text H es) = chain_lines H chain_seed es"
proof -
  have "one_line l \<and> utf8_ok (l @ [CHR 0x0A])" if "l \<in> set (chain_lines H prev es)" for l prev
    using assms(2) that
  proof (induction es arbitrary: prev)
    case (Cons e es)
    obtain body state where e: "e = (body, state)" by fastforce
    with Cons.prems(2) consider "l = chain_prefix H prev (body @ state_sep @ state @ [nl]) @ '' '' @ body @ state_sep @ state"
      | p where "l \<in> set (chain_lines H p es)" by (auto simp: Let_def)
    then show ?case
    proof cases
      case 1
      with Cons.prems(1) e show ?thesis by (intro chain_line_ok [OF assms(1)]) auto
    qed (use Cons in auto)
  qed simp
  then show ?thesis unfolding log_text_def by (intro file_lines_concat) blast
qed

section \<open>Appending to the chain\<close>

lemma last_chain_line:
  assumes "hex_digests H" and "es \<noteq> []"
  shows "\<exists>line. find_last (\<lambda>l. l \<noteq> []) (chain_lines H prev es) = Some line \<and> entry_prefix line = last_prefix H prev es"
proof -
  obtain es0 body state where es: "es = es0 @ [(body, state)]" using assms(2) by (cases es rule: rev_cases) auto
  let ?p = "chain_prefix H (last_prefix H prev es0) (body @ state_sep @ state @ [nl])"
  have "CHR '' '' \<notin> set ?p" using chain_prefix_hex [OF assms(1)] hex_list(4) by blast
  from partition_space [OF this] have "entry_prefix (?p @ '' '' @ body @ state_sep @ state) = ?p"
    by (simp add: entry_prefix_def)
  then show ?thesis by (simp add: es chain_lines_append Let_def find_last_snoc)
qed

text \<open>The log as \<open>append_chain_entry\<close> finds it: absent, or a well-formed chain.\<close>

definition log_is :: "digest \<Rightarrow> contract_dir \<Rightarrow> (string \<times> string) list \<Rightarrow> bool" where
  "log_is H fs es \<longleftrightarrow>
     (\<forall>e \<in> set es. good_entry e) \<and>
     (if es = [] then map_of fs contracts_log = None
      else (\<exists>m. map_of fs contracts_log = Some (File 1 m (log_text H es))))"

lemma append_chain_entry_log:
  assumes "hex_digests H" and "log_is H fs es" and "append_chain_entry H stamp event payload state fs = (Inr (), fs')"
    and "stamp \<noteq> []" and "one_line stamp" and "one_line (entry_body event payload)" and "hex64 state"
  shows "\<exists>m. fs' = dict_set fs contracts_log (File 1 m (log_text H (es @ [(stamp @ '' '' @ entry_body event payload, state)]))) \<and>
     good_entry (stamp @ '' '' @ entry_body event payload, state)"
proof -
  let ?b = "stamp @ '' '' @ entry_body event payload" and ?prev = "last_prefix H chain_seed es"
  let ?t = "?b @ state_sep @ state @ [nl]"
  have prev: "previous_chain_value fs = Inr ?prev"
  proof (cases "es = []")
    case False
    with assms(2) obtain m where "map_of fs contracts_log = Some (File 1 m (log_text H es))" by (auto simp: log_is_def)
    with last_chain_line [OF assms(1) False, of chain_seed] lines_of_log [OF assms(1), of es] assms(2) show ?thesis
      by (auto simp: previous_chain_value_def log_is_def)
  qed (use assms(2) in \<open>simp add: previous_chain_value_def log_is_def\<close>)
  have target: "\<exists>m. write_target contracts_log fs = Inr (m, log_text H es)"
    using assms(2) by (auto simp: write_target_def log_is_def log_text_def split: if_splits)
  have enc: "utf8_ok (?prev @ ?t)"
    using assms(3) prev by (auto simp: append_chain_entry_def encode_def Let_def split: if_splits)
  have "ascii ?prev"
  proof (cases "es = []")
    case False
    then obtain es0 e where es: "es = es0 @ [e]" by (cases es rule: rev_cases) auto
    with chain_prefix_hex [OF assms(1)] hex_list(2) show ?thesis by (cases e) (simp add: chain_lines_append)
  qed (simp add: chain_seed_def ascii_def byte_def)
  then have "utf8_ok ?t" using enc utf8_ok_append ascii_utf8_ok by metis
  then have good: "good_entry (?b, state)"
    using assms(4-7) one_line_sep(2) by (simp add: good_entry_def byte_def)
  let ?line = "chain_prefix H ?prev ?t @ '' '' @ ?b @ state_sep @ state"
  have "utf8_ok (?line @ [nl])"
    using chain_line_ok [OF assms(1) good refl] by (simp add: nl_char)
  moreover from target obtain m where "write_target contracts_log fs = Inr (m, log_text H es)" by blast
  ultimately have "fs' = dict_set fs contracts_log (File 1 m (log_text H es @ ?line @ [nl]))"
    using assms(3) prev enc by (simp add: append_chain_entry_def append_line_def encode_def Let_def)
  moreover have "log_text H (es @ [(?b, state)]) = log_text H es @ ?line @ [nl]"
    by (simp add: log_text_def chain_lines_append Let_def nl_char)
  ultimately show ?thesis using good by auto
qed

section \<open>Pins as text\<close>

definition sorted_pins :: "pins \<Rightarrow> pins" where
  "sorted_pins pins = sort_key fst pins"

lemma insort_pin: "insort_key fst (k, JStr v) (map (\<lambda>(k, v). (k, JStr v)) ps) = map (\<lambda>(k, v). (k, JStr v)) (insort_key fst (k, v) ps)"
  by (induction ps) auto

lemma sort_pins_json: "sort_keys (pins_json pins) = pins_json (sorted_pins pins)"
proof -
  have "map (\<lambda>(k, v). (k, sort_keys v)) (map (\<lambda>(k, v). (k, JStr v)) ps) = map (\<lambda>(k, v). (k, JStr v)) ps" for ps :: pins
    by (induction ps) auto
  moreover have "sort_key fst (map (\<lambda>(k, v). (k, JStr v)) ps) = map (\<lambda>(k, v). (k, JStr v)) (sort_key fst ps)" for ps :: pins
    by (induction ps) (auto simp: insort_pin)
  ultimately show ?thesis by (simp add: pins_json_def sorted_pins_def del: map_map)
qed

lemma sorted_pins_idem: "sorted_pins (sorted_pins ps) = sorted_pins ps"
proof -
  have "sorted (map fst xs) \<Longrightarrow> sort_key fst xs = xs" for xs :: pins
    by (induction xs) (simp_all add: insort_is_Cons)
  then show ?thesis by (simp add: sorted_pins_def)
qed

lemma sorted_pins_facts [simp]:
  "set (sorted_pins ps) = set ps" "distinct (map fst (sorted_pins ps)) = distinct (map fst ps)"
  by (simp_all add: sorted_pins_def distinct_fst_sort)

lemma map_of_sorted_pins:
  assumes "distinct (map fst ps)"
  shows "map_of (sorted_pins ps) = map_of ps"
proof
  fix k
  have "map_of (sorted_pins ps) k = Some v \<longleftrightarrow> map_of ps k = Some v" for v
    using assms by (simp add: map_of_eq_Some_iff)
  then show "map_of (sorted_pins ps) k = map_of ps k"
    by (cases "map_of ps k"; cases "map_of (sorted_pins ps) k") auto
qed

lemma pin_state_sorted: "pin_state_hash H (sorted_pins ps) = pin_state_hash H ps"
  by (simp add: pin_state_hash_def canonical_json_def sort_pins_json sorted_pins_idem)

lemma pins_of_json: "pins_of (map (\<lambda>(k, v). (k, JStr v)) ps) = Some ps"
  by (induction ps) auto

definition pins_wf :: "pins \<Rightarrow> bool" where
  "pins_wf ps \<longleftrightarrow> distinct (map fst ps) \<and> fst ` set ps \<subseteq> set valid_keys \<and> list_all (\<lambda>(k, v). hex64 v) ps"

lemma pins_wf_sorted: "pins_wf (sorted_pins ps) = pins_wf ps"
  by (simp add: pins_wf_def list_all_iff)

lemma valid_key_plain: "k \<in> set valid_keys \<Longrightarrow> plain k"
  by (auto simp: valid_keys_def acceptance_sh_def e2e_sh_def plan_original_def plain_def byte_def)

lemma pins_json_ok:
  assumes "pins_wf ps"
  shows "json_ok (pins_json ps)" and "plain_json (pins_json ps)"
proof -
  have "distinct (map fst (map (\<lambda>(k, v). (k, JStr v)) ps))"
    using assms by (simp add: pins_wf_def o_def case_prod_beta)
  then show "json_ok (pins_json ps)" by (auto simp: pins_json_def list_all_iff)
  show "plain_json (pins_json ps)"
    using assms valid_key_plain hex_list(1)
    by (fastforce simp: pins_json_def pins_wf_def list_all_iff hex64_def image_subset_iff)
qed

text \<open>The text of a dict with white space after it.\<close>

lemma loads_text_ws:
  assumes "json_ok j" and "list_all is_ws e"
  shows "loads (dumps_indent n j @ e) = Inr j"
proof -
  let ?t = "dumps_indent n j @ e"
  have R: "delim r \<Longrightarrow> 2 * length (dumps_at n 0 j) \<le> m \<Longrightarrow> read_val m (dumps_at n 0 j @ r) = Some (j, r)" for r m
    using dumps_at_reads [OF assms(1), of n 0] unfolding reads_def by blast
  have "delim e" using ws_delim [OF assms(2), of "[]"] by simp
  then have "read_val (2 * length ?t + 2) ?t = Some (j, e)"
    unfolding dumps_indent_def by (rule R) simp
  moreover have "skip ?t = ?t"
    using starts_value_append [OF dumps_at_starts [OF assms(1), of n 0]]
    by (simp add: dumps_indent_def skip_start starts_value_def)
  moreover have "skip e = []" using skip_ws [OF assms(2), of "[]"] by (simp add: skip_def)
  ultimately show ?thesis by (simp add: loads_def del: read_val.simps)
qed

lemma read_pins_text:
  assumes "pins_wf ps"
  shows "read_pins (utf8_replace (pins_text ps)) = Inr (sorted_pins ps)"
proof -
  let ?j = "pins_json (sorted_pins ps)"
  have ok: "json_ok ?j" "plain_json ?j" using pins_json_ok [of "sorted_pins ps"] assms pins_wf_sorted by simp_all
  have plain: "plain (dumps_indent 2 ?j)" using dumps_at_plain [OF ok(2), of 2 0] by (simp add: dumps_indent_def)
  then have pt: "pins_text ps = dumps_indent 2 ?j @ [nl]"
    by (simp add: pins_text_def sort_pins_json ascii_text_plain)
  have "list_all is_ws [nl]" by (simp add: is_ws_def)
  then have "loads (pins_text ps) = Inr ?j" unfolding pt by (rule loads_text_ws [OF ok(1)])
  moreover have "utf8_replace (pins_text ps) = pins_text ps"
    using plain by (intro utf8_replace_ascii) (auto simp: pt plain_def ascii_def list_all_iff)
  moreover have "fst ` set (sorted_pins ps) \<subseteq> set valid_keys" using assms by (simp add: pins_wf_def)
  ultimately show ?thesis by (simp add: read_pins_def pins_json_def pins_of_json)
qed

section \<open>A sealed project verifies\<close>

definition sealed :: "digest \<Rightarrow> contract_dir \<Rightarrow> bool" where
  "sealed H fs \<longleftrightarrow>
     (\<exists>ps es m. map_of fs contracts_sha = Some (File 1 m (pins_text ps)) \<and> pins_wf ps \<and>
        (\<forall>pin \<in> set ps. verify_pin H fs pin = Inr ()) \<and>
        es \<noteq> [] \<and> log_is H fs es \<and> snd (last es) = pin_state_hash H ps)"

lemma res_map_units: "(\<forall>x \<in> set xs. f x = Inr ()) \<Longrightarrow> \<exists>us. res_map f xs = Inr us"
  by (induction xs) auto

lemma sealed_verifies:
  assumes "hex_digests H" and "sealed H fs"
  shows "verify_contracts H fs = Inr ()"
proof -
  from assms(2) obtain ps es m m2 where
    s: "map_of fs contracts_sha = Some (File 1 m (pins_text ps))" "pins_wf ps" "\<forall>pin \<in> set ps. verify_pin H fs pin = Inr ()"
      "es \<noteq> []" "snd (last es) = pin_state_hash H ps" "\<forall>e \<in> set es. good_entry e"
      "map_of fs contracts_log = Some (File 1 m2 (log_text H es))"
    by (auto simp: sealed_def log_is_def)
  have "load_pins fs = Inr (sorted_pins ps)" using s(1) read_pins_text [OF s(2)] by (simp add: load_pins_def)
  moreover obtain us where "res_map (verify_pin H fs) (sorted_pins ps) = Inr us"
    using res_map_units [of "sorted_pins ps" "verify_pin H fs"] s(3) by auto
  moreover have "walk_chain H fs = Inr (last_prefix H chain_seed es, pin_state_hash H ps)"
    using s(4,5,7) walk_chain_lines [OF assms(1) s(6)] lines_of_log [OF assms(1) s(6)] by (simp add: walk_chain_def)
  ultimately show ?thesis by (simp add: verify_contracts_def pin_state_sorted)
qed

section \<open>The operations keep the seal\<close>

lemmas contract_names = acceptance_sh_def e2e_sh_def plan_original_def contracts_sha_def contracts_log_def

lemma write_read_only_Inr:
  "write_read_only path content fs = (Inr (), fs') \<Longrightarrow> fs' = dict_set fs path (File 1 292 content)"
  by (auto simp: write_read_only_def encode_def Let_def split: option.splits node.splits if_splits)

lemma save_pins_Inr: "save_pins ps fs = (Inr (), fs') \<Longrightarrow> \<exists>m. fs' = dict_set fs contracts_sha (File 1 m (pins_text ps))"
  by (auto simp: save_pins_def write_text_def encode_def split: sum.splits if_splits)

lemma contract_path_cases:
  "contract_path k = Inr path \<Longrightarrow> path \<noteq> contracts_sha \<and> path \<noteq> contracts_log \<and>
     (path = ''contracts/'' @ acceptance_sh \<longleftrightarrow> k = acceptance_sh)"
  by (auto simp: contract_path_def contract_names split: if_splits)

lemma verify_pin_cong:
  assumes "\<And>path. contract_path (fst pin) = Inr path \<Longrightarrow> map_of fs path = map_of fs' path"
  shows "verify_pin H fs pin = verify_pin H fs' pin"
  using assms by (cases "contract_path (fst pin)") (simp_all add: verify_pin_def read_node_def)

lemma verify_pin_file:
  "contract_path k = Inr path \<Longrightarrow> map_of fs path = Some (File 1 m d) \<Longrightarrow> verify_pin H fs (k, H d) = Inr ()"
  by (simp add: verify_pin_def read_node_def)

text \<open>Sealing: the pins are written, then the entry that names them is chained.\<close>

lemma seal:
  assumes H: "hex_digests H" and "save_pins ps fs = (Inr (), fs1)"
    and "append_chain_entry H stamp event payload (pin_state_hash H ps) fs1 = (Inr (), fs')"
    and "pins_wf ps" and "\<forall>pin \<in> set ps. verify_pin H fs pin = Inr ()" and "log_is H fs es"
    and "stamp \<noteq> []" and "one_line stamp" and "one_line (entry_body event payload)"
  shows "sealed H fs'"
proof -
  let ?e = "(stamp @ '' '' @ entry_body event payload, pin_state_hash H ps)"
  from save_pins_Inr [OF assms(2)] obtain m where fs1: "fs1 = dict_set fs contracts_sha (File 1 m (pins_text ps))" by blast
  have ne: "contracts_log \<noteq> contracts_sha" by (simp add: contract_names)
  then have "log_is H fs1 es" using assms(6) by (auto simp: fs1 log_is_def split: if_splits)
  from append_chain_entry_log [OF H this assms(3,7-9)] H obtain m2 where
    fs': "fs' = dict_set fs1 contracts_log (File 1 m2 (log_text H (es @ [?e])))" and good: "good_entry ?e"
    by (auto simp: hex_digests_def pin_state_hash_def)
  have "verify_pin H fs' pin = Inr ()" if "pin \<in> set ps" for pin
    using assms(5) that contract_path_cases by (subst verify_pin_cong [of pin fs' fs]) (auto simp: fs' fs1)
  moreover have "log_is H fs' (es @ [?e])" using assms(6) good by (simp add: fs' log_is_def)
  moreover have "map_of fs' contracts_sha = Some (File 1 m (pins_text ps))" using ne by (simp add: fs' fs1)
  ultimately show ?thesis
    unfolding sealed_def using assms(4) by (intro exI [of _ ps] exI [of _ "es @ [?e]"] exI [of _ m]) simp
qed

lemma one_line_body: "one_line event \<Longrightarrow> one_line payload \<Longrightarrow> one_line (entry_body event payload)"
  by (simp add: entry_body_def byte_def)

lemma write_frozen_seals:
  assumes H: "hex_digests H" and w: "write_frozen_contracts H stamp acceptance e2e plan_md fs = (Inr (), fs')"
    and "map_of fs contracts_log = None" and "stamp \<noteq> []" and "one_line stamp"
  shows "sealed H fs'"
proof -
  define e where "e = (case e2e of Some (c # cs) \<Rightarrow> Some (c # cs) | _ \<Rightarrow> None)"
  let ?acc = "script_body acceptance"
  let ?mid = "case e of Some c \<Rightarrow> [(e2e_sh, H (script_body c))] | None \<Rightarrow> []"
  let ?ps = "(acceptance_sh, H ?acc) # ?mid @ [(plan_original, H plan_md)]"
  from w obtain fs1 fs2 fs3 fs4 where
    1: "write_read_only (''contracts/'' @ acceptance_sh) ?acc fs = (Inr (), fs1)"
    and 2: "(case e of Some c \<Rightarrow> write_read_only (''contracts/'' @ e2e_sh) (script_body c) | None \<Rightarrow> ret ()) fs1 = (Inr (), fs2)"
    and 3: "write_read_only plan_original plan_md fs2 = (Inr (), fs3)"
    and 4: "save_pins ?ps fs3 = (Inr (), fs4)"
    and 5: "append_chain_entry H stamp ''init'' [] (pin_state_hash H ?ps) fs4 = (Inr (), fs')"
    by (auto simp: write_frozen_contracts_def act_bind_Inr Let_def e_def split: option.splits list.splits)
  note fs1 = write_read_only_Inr [OF 1] and fs3 = write_read_only_Inr [OF 3]
  have fs2: "fs2 = (case e of Some c \<Rightarrow> dict_set fs1 (''contracts/'' @ e2e_sh) (File 1 292 (script_body c)) | None \<Rightarrow> fs1)"
    using 2 by (auto dest: write_read_only_Inr split: option.splits)
  have hex: "hex64 (H t)" for t using H by (simp add: hex_digests_def)
  show ?thesis
  proof (rule seal [OF H 4 5])
    show "pins_wf ?ps" using hex
      by (cases e) (auto simp: pins_wf_def valid_keys_def contract_names)
    show "\<forall>pin \<in> set ?ps. verify_pin H fs3 pin = Inr ()"
      by (cases e) (auto intro!: verify_pin_file simp: fs1 fs2 fs3 contract_path_def contract_names)
    show "log_is H fs3 []" using assms(3) by (cases e) (simp_all add: log_is_def fs1 fs2 fs3 contract_names)
    show "one_line (entry_body ''init'' [])" by (simp add: entry_body_def byte_def)
  qed (use assms in simp_all)
qed

lemma in_dict_set:
  assumes "distinct (map fst d)"
  shows "(k', v') \<in> set (dict_set d k v) \<longleftrightarrow> (if k' = k then v' = v else (k', v') \<in> set d)"
  using map_of_eq_Some_iff [OF distinct_dict_set [OF assms, of k v], of k' v'] map_of_eq_Some_iff [OF assms, of k' v']
  by auto

lemma amend_seals:
  assumes H: "hex_digests H" and "sealed H fs" and w: "amend_acceptance H stamp cmd reason fs = (Inr (), fs')"
    and "stamp \<noteq> []" and "one_line stamp" and "one_line cmd" and "one_line reason"
  shows "sealed H fs' \<and> map_of fs' (''contracts/'' @ acceptance_sh) = Some (File 1 292 (script_body cmd))"
proof
  from assms(2) obtain ps es m where
    s: "map_of fs contracts_sha = Some (File 1 m (pins_text ps))" "pins_wf ps" "\<forall>pin \<in> set ps. verify_pin H fs pin = Inr ()"
      "log_is H fs es" by (auto simp: sealed_def)
  let ?acc = "script_body cmd" and ?q = "sorted_pins ps"
  let ?ps = "dict_set ?q acceptance_sh (H ?acc)"
  have "load_pins fs = Inr ?q" using s(1) read_pins_text [OF s(2)] by (simp add: load_pins_def)
  with w obtain fs1 fs2 where
    1: "write_read_only (''contracts/'' @ acceptance_sh) ?acc fs = (Inr (), fs1)"
    and 2: "save_pins ?ps fs1 = (Inr (), fs2)"
    and 3: "append_chain_entry H stamp ''amend acceptance'' (cmd @ '' | reason: '' @ reason) (pin_state_hash H ?ps) fs2 = (Inr (), fs')"
    by (auto simp: amend_acceptance_def act_bind_Inr Let_def)
  note fs1 = write_read_only_Inr [OF 1]
  have q: "pins_wf ?q" using s(2) by (simp add: pins_wf_sorted)
  have d: "distinct (map fst ?q)" using q unfolding pins_wf_def by blast
  have hex: "hex64 (H ?acc)" using H by (simp add: hex_digests_def)
  show "sealed H fs'"
  proof (rule seal [OF H 2 3])
    have "hex64 v" if "(k, v) \<in> set ?ps" for k v
      using that in_dict_set [OF d] q hex by (auto simp: pins_wf_def list_all_iff split: if_splits)
    moreover have "fst ` set ?ps \<subseteq> set valid_keys" using q by (auto simp: pins_wf_def valid_keys_def)
    moreover have "distinct (map fst ?ps)" using d by (rule distinct_dict_set)
    ultimately show "pins_wf ?ps" by (auto simp: pins_wf_def list_all_iff)
    show "\<forall>pin \<in> set ?ps. verify_pin H fs1 pin = Inr ()"
    proof
      fix pin assume p: "pin \<in> set ?ps"
      obtain k v where kv: "pin = (k, v)" by fastforce
      have pin: "pin = (k, v)" "if k = acceptance_sh then v = H ?acc else (k, v) \<in> set ps"
        using p kv in_dict_set [OF d, of k v] by (auto split: if_splits)
      show "verify_pin H fs1 pin = Inr ()"
      proof (cases "k = acceptance_sh")
        case True
        with pin show ?thesis by (auto intro!: verify_pin_file simp: fs1 contract_path_def)
      next
        case False
        with pin s(3) contract_path_cases show ?thesis
          by (subst verify_pin_cong [of pin fs1 fs]) (auto simp: fs1)
      qed
    qed
    have "contracts_log \<noteq> ''contracts/'' @ acceptance_sh" by (simp add: contract_names)
    then show "log_is H fs1 es" using s(4) by (auto simp: log_is_def fs1 split: if_splits)
    show "one_line (entry_body ''amend acceptance'' (cmd @ '' | reason: '' @ reason))"
      using assms(6,7) by (intro one_line_body) (simp_all add: byte_def)
  qed (use assms in simp_all)
  from save_pins_Inr [OF 2] show "map_of fs' (''contracts/'' @ acceptance_sh) = Some (File 1 292 ?acc)"
    using 3 by (auto simp: fs1 append_chain_entry_def append_line_def contract_names Let_def split: sum.splits)
qed

section \<open>Reachable projects verify\<close>

text \<open>
  What happens to a project: it is initialised once, amended by the operator with one-line
  commands and reasons, and other files of it change.
\<close>

inductive contract_reach :: "digest \<Rightarrow> contract_dir \<Rightarrow> bool" for H where
  init: "\<lbrakk>map_of fs contracts_log = None; stamp \<noteq> []; one_line stamp;
     write_frozen_contracts H stamp acceptance e2e plan_md fs = (Inr (), fs')\<rbrakk> \<Longrightarrow> contract_reach H fs'"
| amend: "\<lbrakk>contract_reach H fs; stamp \<noteq> []; one_line stamp; one_line cmd; one_line reason;
     amend_acceptance H stamp cmd reason fs = (Inr (), fs')\<rbrakk> \<Longrightarrow> contract_reach H fs'"
| other: "\<lbrakk>contract_reach H fs; path \<noteq> contracts_sha; path \<noteq> contracts_log; \<forall>k. contract_path k \<noteq> Inr path\<rbrakk>
     \<Longrightarrow> contract_reach H (dict_set fs path node)"

lemma sealed_other:
  assumes "sealed H fs" and "path \<noteq> contracts_sha" and "path \<noteq> contracts_log" and "\<forall>k. contract_path k \<noteq> Inr path"
  shows "sealed H (dict_set fs path node)"
proof -
  have "verify_pin H (dict_set fs path node) pin = verify_pin H fs pin" for pin
    using assms(4) by (intro verify_pin_cong) auto
  with assms(1-3) show ?thesis by (fastforce simp: sealed_def log_is_def)
qed

lemma reach_sealed: "contract_reach H fs \<Longrightarrow> hex_digests H \<Longrightarrow> sealed H fs"
  by (induction rule: contract_reach.induct)
    (auto intro: write_frozen_seals sealed_other dest: amend_seals)

text \<open>
  C6: the seal is an invariant: a project that was initialised, amended any number of times with
  one-line commands and reasons, and whose other files changed at will verifies, so the
  integrity gate of every tick passes.
\<close>

theorem reachable_contracts_verify:
  assumes "hex_digests H" and "contract_reach H fs"
  shows "verify_contracts H fs = Inr ()"
  using assms reach_sealed sealed_verifies by blast

section \<open>The audit log binds the files\<close>

definition frozen :: "contract_dir \<Rightarrow> string \<Rightarrow> string res" where
  "frozen fs k = res_bind (contract_path k) (\<lambda>path. read_node path fs)"

definition frozen_texts :: "pins \<Rightarrow> contract_dir \<Rightarrow> string list" where
  "frozen_texts pins fs =
     ascii_text (canonical_json (pins_json pins)) #
     concat (map (\<lambda>(k, v). case frozen fs k of Inr d \<Rightarrow> [d] | Inl _ \<Rightarrow> []) pins)"

lemma frozen_in_texts: "(k, v) \<in> set pins \<Longrightarrow> frozen fs k = Inr d \<Longrightarrow> d \<in> set (frozen_texts pins fs)"
  by (force simp: frozen_texts_def)

lemma verify_Inr:
  assumes "verify_contracts H fs = Inr ()"
  shows "\<exists>pins p. load_pins fs = Inr pins \<and> walk_chain H fs = Inr (p, pin_state_hash H pins) \<and>
    (\<forall>(k, v) \<in> set pins. \<exists>d. frozen fs k = Inr d \<and> v = H d)"
proof -
  have all: "res_map f xs = Inr us \<Longrightarrow> x \<in> set xs \<Longrightarrow> \<exists>u. f x = Inr u" for f :: "'a \<Rightarrow> 'b res" and xs us x
    by (induction xs arbitrary: us) (auto simp: res_bind_Inr_iff)
  from assms obtain pins us p where v: "load_pins fs = Inr pins" "res_map (verify_pin H fs) pins = Inr us"
    "walk_chain H fs = Inr (p, pin_state_hash H pins)"
    by (auto simp: verify_contracts_def res_bind_Inr_iff split: if_splits)
  have "\<exists>d. frozen fs k = Inr d \<and> v = H d" if "(k, v) \<in> set pins" for k v
  proof -
    from all [OF v(2) that] have "verify_pin H fs (k, v) = Inr ()" by simp
    then obtain path where "contract_path k = Inr path" "(case read_node path fs of Inl e \<Rightarrow> Inl ContractsMismatch
        | Inr data \<Rightarrow> if H data \<noteq> v then Inl ContractsMismatch else Inr ()) = Inr ()"
      unfolding verify_pin_def res_bind_Inr_iff fst_conv snd_conv by blast
    then show ?thesis by (auto simp: frozen_def split: sum.splits if_splits)
  qed
  with v show ?thesis by blast
qed

lemma pins_of_Some: "pins_of d = Some ps \<Longrightarrow> d = map (\<lambda>(k, v). (k, JStr v)) ps"
  by (induction d arbitrary: ps rule: pins_of.induct) (auto split: option.splits)

lemma load_pins_wf:
  assumes "load_pins fs = Inr pins"
  shows "distinct (map fst pins) \<and> fst ` set pins \<subseteq> set valid_keys"
proof -
  from assms obtain t d where d: "loads t = Inr (JObj d)" "pins_of d = Some pins" "fst ` set pins \<subseteq> set valid_keys"
    by (auto simp: load_pins_def read_pins_def split: option.splits node.splits if_splits sum.splits json.splits)
  from loads_json_ok [OF d(1)] have "distinct (map fst d)" by simp
  then show ?thesis using d(3) pins_of_Some [OF d(2)] by (simp add: o_def case_prod_beta)
qed

lemma same_state_same_pins:
  assumes "pins_wf ps" and "pins_wf ps'"
    and "ascii_text (canonical_json (pins_json ps)) = ascii_text (canonical_json (pins_json ps'))"
  shows "map_of ps = map_of ps'"
proof -
  have plain: "plain (canonical_json (pins_json q))" if "pins_wf q" for q
    using pins_json_ok(2) [of "sorted_pins q"] that
    by (auto simp: canonical_json_def sort_pins_json pins_wf_sorted byte_def intro!: dumps_plain)
  have "canonical_json (pins_json ps) = canonical_json (pins_json ps')"
    using assms(3) plain [OF assms(1)] plain [OF assms(2)] by (simp add: ascii_text_plain)
  then have "pins_json (sorted_pins ps) = pins_json (sorted_pins ps')"
    using canonical_inject pins_json_ok(1) assms(1,2) unfolding sort_pins_json [symmetric] by blast
  then have "sorted_pins ps = sorted_pins ps'" using pins_of_json by (metis json.inject(6) option.inject pins_json_def)
  then show ?thesis using map_of_sorted_pins assms(1,2) unfolding pins_wf_def by metis
qed

text \<open>
  C7: the audit log binds the frozen files: two projects that verify and have the same
  \<open>contracts.log\<close> pin the same files and the files hold the same bytes, or two of the texts hashed
  in them differ and have the same digest. Rewriting a script together with its pin is noticed.
\<close>

theorem audit_log_binds_contracts:
  assumes "hex_digests H" and "verify_contracts H fs = Inr ()" and "verify_contracts H fs' = Inr ()"
    and "map_of fs contracts_log = map_of fs' contracts_log"
    and "load_pins fs = Inr pins" and "load_pins fs' = Inr pins'"
  shows "(map_of pins = map_of pins' \<and> (\<forall>k \<in> fst ` set pins. frozen fs k = frozen fs' k)) \<or>
    (\<exists>a \<in> set (frozen_texts pins fs). \<exists>b \<in> set (frozen_texts pins' fs'). a \<noteq> b \<and> H a = H b)"
proof (rule disjCI)
  assume "\<not> (\<exists>a \<in> set (frozen_texts pins fs). \<exists>b \<in> set (frozen_texts pins' fs'). a \<noteq> b \<and> H a = H b)"
  then have nocol: "a \<in> set (frozen_texts pins fs) \<Longrightarrow> b \<in> set (frozen_texts pins' fs') \<Longrightarrow> H a = H b \<Longrightarrow> a = b" for a b
    by blast
  obtain p p' where w: "walk_chain H fs = Inr (p, pin_state_hash H pins)" "walk_chain H fs' = Inr (p', pin_state_hash H pins')"
    and f: "\<forall>(k, v) \<in> set pins. \<exists>d. frozen fs k = Inr d \<and> v = H d" "\<forall>(k, v) \<in> set pins'. \<exists>d. frozen fs' k = Inr d \<and> v = H d"
    using verify_Inr [OF assms(2)] verify_Inr [OF assms(3)] assms(5,6) by auto
  have "walk_chain H fs = walk_chain H fs'" using assms(4) by (simp add: walk_chain_def)
  then have st: "pin_state_hash H pins = pin_state_hash H pins'" using w by simp
  have eq: "ascii_text (canonical_json (pins_json pins)) = ascii_text (canonical_json (pins_json pins'))"
  proof (rule nocol)
    show "H (ascii_text (canonical_json (pins_json pins))) = H (ascii_text (canonical_json (pins_json pins')))"
      using st unfolding pin_state_hash_def .
  qed (simp_all only: frozen_texts_def list.set insertI1)
  have wf: "pins_wf pins" "pins_wf pins'"
    using load_pins_wf [OF assms(5)] load_pins_wf [OF assms(6)] f assms(1)
    by (fastforce simp: pins_wf_def list_all_iff hex_digests_def)+
  from same_state_same_pins [OF wf eq] have same: "map_of pins = map_of pins'" .
  have "frozen fs k = frozen fs' k" if "(k, v) \<in> set pins" for k v
  proof -
    have "(k, v) \<in> set pins'" using that same wf by (metis map_of_SomeD map_of_eq_Some_iff pins_wf_def)
    with that f obtain d d' where d: "frozen fs k = Inr d" "frozen fs' k = Inr d'" "H d = H d'" by fastforce
    have "d = d'"
      by (rule nocol [OF frozen_in_texts [OF that d(1)] frozen_in_texts [OF \<open>(k, v) \<in> set pins'\<close> d(2)] d(3)])
    with d show ?thesis by simp
  qed
  with same show "map_of pins = map_of pins' \<and> (\<forall>k \<in> fst ` set pins. frozen fs k = frozen fs' k)" by auto
qed

section \<open>A project\<close>

definition sample_digest :: digest where
  "sample_digest t = show_nat (length t mod 10) @ replicate 63 CHR ''0''"

definition sample_project :: contract_dir where
  "sample_project = snd (write_frozen_contracts sample_digest ''t0'' ''make'' (Some ''e2e'') ''p'' [])"

lemma sample_hex_digests: "hex_digests sample_digest"
proof -
  have "length (show_nat n) = 1" "list_all hexd (show_nat n)" if "n < 10" for n
    using that by (auto simp: show_nat.simps digit_def hexd_def is_digit_def byte_char_of)
  moreover have "list_all hexd (replicate 63 CHR ''0'')" unfolding list_all_iff set_replicate_conv_if by (simp add: hexd_def is_digit_def byte_def)
  ultimately have "hex64 (sample_digest t)" for t
    by (simp add: hex64_def sample_digest_def)
  then show ?thesis by (simp add: hex_digests_def)
qed

lemma sample_writes: "\<not> isl (fst (write_frozen_contracts sample_digest ''t0'' ''make'' (Some ''e2e'') ''p'' []))"
  by code_simp

lemma sample_project_reached: "contract_reach sample_digest sample_project"
proof (rule contract_reach.init)
  have "write_frozen_contracts sample_digest ''t0'' ''make'' (Some ''e2e'') ''p'' [] = (Inr (), sample_project)"
    using act_returns [OF sample_writes] by (simp add: sample_project_def)
  then show "write_frozen_contracts sample_digest ''t0'' ''make'' (Some ''e2e'') ''p'' [] = (Inr (), sample_project)" .
qed (simp_all add: byte_def)

theorem reachable_contracts_verify_witness:
  "verify_contracts sample_digest sample_project = Inr () \<and> map_of sample_project contracts_sha \<noteq> None"
proof
  show "verify_contracts sample_digest sample_project = Inr ()"
    by (rule reachable_contracts_verify [OF sample_hex_digests sample_project_reached])
  show "map_of sample_project contracts_sha \<noteq> None" by code_simp
qed

definition changed_project :: contract_dir where
  "changed_project = dict_set sample_project ''notes'' Symlink"

lemma sample_pins: "case load_pins sample_project of Inr pins \<Rightarrow> acceptance_sh \<in> fst ` set pins | Inl _ \<Rightarrow> False"
  by code_simp

theorem audit_log_binds_contracts_witness:
  "\<exists>pins. load_pins sample_project = Inr pins \<and>
     (frozen sample_project acceptance_sh = frozen changed_project acceptance_sh \<or>
      (\<exists>a \<in> set (frozen_texts pins sample_project). \<exists>b \<in> set (frozen_texts pins changed_project).
         a \<noteq> b \<and> sample_digest a = sample_digest b))"
proof -
  have names: "''notes'' \<noteq> contracts_sha" "''notes'' \<noteq> contracts_log" "\<forall>k. contract_path k \<noteq> Inr ''notes''"
    by (auto simp: contract_path_def contract_names)
  have r: "contract_reach sample_digest changed_project"
    unfolding changed_project_def by (rule contract_reach.other [OF sample_project_reached names])
  have v: "verify_contracts sample_digest sample_project = Inr ()" "verify_contracts sample_digest changed_project = Inr ()"
    using sealed_verifies reach_sealed sample_hex_digests sample_project_reached r by blast+
  from sample_pins obtain pins where p: "load_pins sample_project = Inr pins" "acceptance_sh \<in> fst ` set pins"
    by (auto split: sum.splits)
  moreover have "load_pins changed_project = Inr pins" "map_of sample_project contracts_log = map_of changed_project contracts_log"
    using p(1) names by (simp_all add: changed_project_def load_pins_def)
  ultimately show ?thesis using audit_log_binds_contracts [OF sample_hex_digests v _ p(1)] by blast
qed

text \<open>
  An amendment whose command or reason holds a line break writes an entry that takes two lines:
  the call returns, and from then on the project does not verify any more.
\<close>

lemma amendment_with_newline_breaks:
  "fst (amend_acceptance sample_digest ''t1'' (''a'' @ [nl] @ ''b'') ''r'' sample_project) = Inr ()"
  "verify_contracts sample_digest (snd (amend_acceptance sample_digest ''t1'' (''a'' @ [nl] @ ''b'') ''r'' sample_project))
     = Inl ContractsMismatch"
  by code_simp+

end
