(* ===== verification/Bars.thy ===== *)
theory Bars
  imports Drive Effects Landing
begin

text \<open>
  The quality bar of a run and the adversarial verification of a claim:
  \<open>peers/spine/adversarial_verify.py\<close>, \<open>peers/spine/direction.py\<close>, \<open>peers/spine/baseline.py\<close> and
  \<open>peers/spine/baseline_adapter.py\<close>. The ledger of the run and the world around it (the
  repository, the agents) are the two parts of a \<open>scene\<close>; the injected ports change the world
  and may raise, the record \<open>checkout\<close> says how git and the files are read in a world. What a
  runner returns is \<open>None\<close>, a sequence of values or something else.
\<close>

section \<open>Scenes\<close>

record 'w scene =
  sc_ledger :: ledger_file
  sc_world :: 'w

record 'w checkout =
  co_git :: "'w gitw"
  co_open :: "'w \<Rightarrow> os_open"
  co_is_file :: "'w \<Rightarrow> string \<Rightarrow> bool"
  co_text :: "'w \<Rightarrow> string \<Rightarrow> string res"
  co_write :: "string \<Rightarrow> string \<Rightarrow> ('w, unit) act"
  co_probes :: "'w \<Rightarrow> probes"

definition on_ledger :: "(ledger_file \<Rightarrow> 'a res \<times> ledger_file) \<Rightarrow> ('w scene, 'a) act" where
  "on_ledger f s = (case f (sc_ledger s) of (r, l) \<Rightarrow> (r, s\<lparr>sc_ledger := l\<rparr>))"

definition in_world :: "('w, 'a) act \<Rightarrow> ('w scene, 'a) act" where
  "in_world m s = (case m (sc_world s) of (r, w) \<Rightarrow> (r, s\<lparr>sc_world := w\<rparr>))"

definition look :: "('w \<Rightarrow> 'a res) \<Rightarrow> ('w scene, 'a) act" where
  "look f s = (f (sc_world s), s)"

definition log_row ::
  "hash \<Rightarrow> string \<Rightarrow> string \<Rightarrow> string option \<Rightarrow> json \<Rightarrow> string option \<Rightarrow> ('w scene, unit) act" where
  "log_row H event status subject witness mode_run =
     act_bind (on_ledger (\<lambda>f. append H f event status subject witness None mode_run False)) (\<lambda>_. ret ())"

definition log_attested ::
  "hash \<Rightarrow> 'w checkout \<Rightarrow> string \<Rightarrow> string \<Rightarrow> string \<Rightarrow> string option \<Rightarrow> json \<Rightarrow> string option \<Rightarrow> bool \<Rightarrow> ('w scene, unit) act" where
  "log_attested H co sha event status subject witness mode_run independence s =
     (case append_attested H (git_at (co_git co) (sc_world s)) (sc_ledger s) sha event status subject witness mode_run independence of
        (r, l) \<Rightarrow> (res_bind r (\<lambda>_. Inr ()), s\<lparr>sc_ledger := l\<rparr>))"

section \<open>Adversarial verification\<close>

definition majority_threshold :: "int \<Rightarrow> int" where
  "majority_threshold k = (k + 1) div 2"

text \<open>One vote: only an explicit \<open>False\<close> clears the claim, an exception refutes it.\<close>

definition refutes :: "(nat \<Rightarrow> ('w, json) act) \<Rightarrow> nat \<Rightarrow> ('w scene, bool) act" where
  "refutes refuter i = act_bind (act_catch (in_world (refuter i))) (\<lambda>r. ret (r \<noteq> Inr (JBool False)))"

definition count_refuted :: "(nat \<Rightarrow> ('w, json) act) \<Rightarrow> nat list \<Rightarrow> ('w scene, nat) act" where
  "count_refuted refuter is =
     fold_act (\<lambda>i n. act_bind (refutes refuter i) (\<lambda>b. ret (if b then n + 1 else n))) is 0"

definition gate_witness :: "int \<Rightarrow> int \<Rightarrow> json" where
  "gate_witness k refuted =
     JObj [(''kind'', JStr ''adversarial-verify''), (''k'', JInt k), (''refuted'', JInt refuted),
           (''threshold'', JInt (majority_threshold k))]"

definition verify_claim ::
  "hash \<Rightarrow> string \<Rightarrow> (nat \<Rightarrow> ('w, json) act) \<Rightarrow> int \<Rightarrow> bool \<Rightarrow> string option \<Rightarrow> ('w scene, bool) act" where
  "verify_claim H subject refuter k logged mode_run =
     (if k < 1 then raise_exc ValueError
      else act_bind (count_refuted refuter [0..<nat k]) (\<lambda>refuted.
        let survived = int refuted < majority_threshold k in
        act_bind
          (if logged then log_row H ''gate'' (if survived then ''pass'' else ''fail'') (Some subject) (gate_witness k (int refuted)) mode_run
           else ret ())
          (\<lambda>_. ret survived)))"

section \<open>The bar\<close>

record bar =
  ba_kind :: string
  ba_command :: "string option"
  ba_exit_code :: "int option"
  ba_output :: "string option"
  ba_provenance :: string

definition bar_of :: "string \<Rightarrow> string option \<Rightarrow> bar" where
  "bar_of kind command =
     \<lparr>ba_kind = kind, ba_command = command, ba_exit_code = None, ba_output = None, ba_provenance = ''detected''\<rparr>"

datatype run_result = NoResult | Items "json list" | OtherResult

type_synonym 'w run_tests = "string \<Rightarrow> ('w, run_result) act"

text \<open>\<open>package.json\<close> counts when it has a test script; a file that is not JSON does not.\<close>

definition has_test_script :: "string res \<Rightarrow> bool res" where
  "has_test_script r =
     (case res_bind r loads of
        Inl e \<Rightarrow> if e = OSError \<or> is_value_error e then Inr False else Inl e
      | Inr (JObj data) \<Rightarrow>
          Inr (case jget data ''scripts'' of JObj scripts \<Rightarrow> truthy (jget scripts ''test'') | _ \<Rightarrow> False)
      | Inr _ \<Rightarrow> Inr False)"

definition detect_runner :: "'w checkout \<Rightarrow> 'w \<Rightarrow> string option res" where
  "detect_runner co w =
     (if co_is_file co w ''pyproject.toml'' \<or> co_is_file co w ''pytest.ini'' then Inr (Some ''python3 -m pytest'')
      else res_bind (if co_is_file co w ''package.json'' then has_test_script (co_text co w ''package.json'') else Inr False)
        (\<lambda>npm. Inr (if npm then Some ''npm test''
                    else if co_is_file co w ''go.mod'' then Some ''go test ./...'' else None)))"

text \<open>\<open>to_str\<close> is \<open>str\<close> on the output, whatever it is.\<close>

definition classify :: "(json \<Rightarrow> string) \<Rightarrow> string \<Rightarrow> run_result \<Rightarrow> bar" where
  "classify to_str command result =
     (case result of
        Items (JInt code # rest) \<Rightarrow>
          (bar_of (if code = 0 then ''present'' else ''weak'') (Some command))
            \<lparr>ba_exit_code := Some code, ba_output := Some (case rest of [] \<Rightarrow> [] | out # _ \<Rightarrow> to_str out)\<rparr>
      | _ \<Rightarrow> bar_of ''absent'' (Some command))"

definition bar_witness :: "bar \<Rightarrow> json" where
  "bar_witness b = JObj [(''kind'', JStr ''bar''), (''command'', ostr (ba_command b)), (''bar'', JStr (ba_kind b))]"

definition infer_bar ::
  "hash \<Rightarrow> 'w checkout \<Rightarrow> (json \<Rightarrow> string) \<Rightarrow> 'w run_tests \<Rightarrow> bool \<Rightarrow> string option \<Rightarrow> ('w scene, bar) act" where
  "infer_bar H co to_str run_tests logged mode_run =
     act_bind (look (detect_runner co)) (\<lambda>command.
     act_bind (case command of
         None \<Rightarrow> ret (bar_of ''absent'' None)
       | Some c \<Rightarrow> act_bind (in_world (run_tests c)) (\<lambda>r. ret (classify to_str c r))) (\<lambda>b.
     act_bind (if logged then log_row H ''bar-inferred'' (if ba_kind b = ''present'' then ''pass'' else ba_kind b) None (bar_witness b) mode_run
               else ret ()) (\<lambda>_. ret b)))"

section \<open>Building a baseline\<close>

record candidate =
  cb_path :: string
  cb_command :: string

record baseline_result =
  bl_outcome :: string
  bl_bar :: bar
  bl_witness :: json
  bl_artifact_path :: "string option"

type_synonym 'w baseline_author = "bar \<Rightarrow> ('w, candidate option) act"

definition baseline_file :: string where
  "baseline_file = ''.peers/passing-baseline.txt''"

definition default_snapshot :: "'w checkout \<Rightarrow> 'w \<Rightarrow> bool res" where
  "default_snapshot co w =
     (if co_is_file co w baseline_file then
        (case co_text co w baseline_file of
           Inl e \<Rightarrow> if e = OSError then Inr False else Inl e
         | Inr t \<Rightarrow> Inr (strip t \<noteq> []))
      else Inr False)"

definition log_baseline_row :: "hash \<Rightarrow> 'w checkout \<Rightarrow> baseline_result \<Rightarrow> string option \<Rightarrow> ('w scene, unit) act" where
  "log_baseline_row H co result mode_run =
     (if bl_outcome result = ''built'' then
        act_bind (look (\<lambda>w. git_resolve_commit (git_at (co_git co) w) ''HEAD'')) (\<lambda>head.
          case head of
            Some sha \<Rightarrow> log_attested H co sha ''baseline-built'' ''built'' None (bl_witness result) mode_run False
          | None \<Rightarrow> log_row H ''baseline-built'' ''built'' None (bl_witness result) mode_run)
      else if bl_outcome result = ''reused'' then log_row H ''baseline-built'' ''reused'' None JNull mode_run
      else log_row H ''baseline-built'' ''uncharacterizable'' None JNull mode_run)"

definition uncharacterizable :: "string option \<Rightarrow> baseline_result" where
  "uncharacterizable command =
     \<lparr>bl_outcome = ''uncharacterizable'', bl_bar = bar_of ''absent'' command, bl_witness = JNull, bl_artifact_path = None\<rparr>"

definition file_witness :: "string \<Rightarrow> string \<Rightarrow> json" where
  "file_witness path digest = JObj [(''kind'', JStr ''file''), (''uri'', JStr path), (''sha256'', JStr digest)]"

definition built :: "candidate \<Rightarrow> bar \<Rightarrow> string \<Rightarrow> baseline_result" where
  "built c classified digest =
     \<lparr>bl_outcome = ''built'',
      bl_bar = (bar_of ''present'' (Some (cb_command c)))
        \<lparr>ba_exit_code := Some 0, ba_output := ba_output classified, ba_provenance := ''built''\<rparr>,
      bl_witness = file_witness (cb_path c) digest, bl_artifact_path = Some (cb_path c)\<rparr>"

text \<open>The built path: author, run, and hash what was written.\<close>

definition author_baseline ::
  "hash \<Rightarrow> 'w checkout \<Rightarrow> (json \<Rightarrow> string) \<Rightarrow> 'w run_tests \<Rightarrow> 'w baseline_author \<Rightarrow> bar \<Rightarrow> ('w scene, baseline_result) act" where
  "author_baseline H co to_str run_tests author b =
     act_bind (in_world (author b)) (\<lambda>cand.
       case cand of
         None \<Rightarrow> ret (uncharacterizable (ba_command b))
       | Some c \<Rightarrow>
           act_bind (in_world (run_tests (cb_command c))) (\<lambda>r.
             let classified = classify to_str (cb_command c) r in
             if ba_kind classified \<noteq> ''present'' then ret (uncharacterizable (Some (cb_command c)))
             else act_bind (act_catch (look (\<lambda>w. read_bytes_no_symlink (co_open co w) (cb_path c) None))) (\<lambda>data.
               case data of
                 Inl e \<Rightarrow> if e = OSError then ret (uncharacterizable (Some (cb_command c))) else raise_exc e
               | Inr bytes \<Rightarrow> ret (built c classified (H bytes)))))"

text \<open>The reused path first, for a weak bar whose runner is green this time.\<close>

definition command_of :: "bar \<Rightarrow> string" where
  "command_of b = (case ba_command b of None \<Rightarrow> [] | Some c \<Rightarrow> c)"

definition reuse_baseline ::
  "'w checkout \<Rightarrow> (json \<Rightarrow> string) \<Rightarrow> 'w run_tests \<Rightarrow> bar \<Rightarrow> ('w scene, baseline_result option) act" where
  "reuse_baseline co to_str run_tests b =
     (if ba_kind b = ''weak'' then
        act_bind (in_world (run_tests (command_of b))) (\<lambda>r.
          if ba_kind (classify to_str (command_of b) r) = ''present'' then
            act_bind (look (default_snapshot co)) (\<lambda>pinned.
              ret (if pinned then
                     Some \<lparr>bl_outcome = ''reused'',
                           bl_bar = (bar_of ''present'' (ba_command b))\<lparr>ba_exit_code := Some 0, ba_provenance := ''reused''\<rparr>,
                           bl_witness = JNull, bl_artifact_path = None\<rparr>
                   else None))
          else ret None)
      else ret None)"

definition build_baseline ::
  "hash \<Rightarrow> 'w checkout \<Rightarrow> (json \<Rightarrow> string) \<Rightarrow> 'w run_tests \<Rightarrow> 'w baseline_author \<Rightarrow> bar \<Rightarrow> bool \<Rightarrow> string option
   \<Rightarrow> ('w scene, baseline_result) act" where
  "build_baseline H co to_str run_tests author b logged mode_run =
     act_bind (reuse_baseline co to_str run_tests b) (\<lambda>reused.
     act_bind (case reused of
         Some result \<Rightarrow> ret result
       | None \<Rightarrow> author_baseline H co to_str run_tests author b) (\<lambda>result.
     act_bind (if logged then log_baseline_row H co result mode_run else ret ()) (\<lambda>_. ret result)))"

definition ensure_bar ::
  "hash \<Rightarrow> 'w checkout \<Rightarrow> (json \<Rightarrow> string) \<Rightarrow> 'w run_tests \<Rightarrow> 'w baseline_author \<Rightarrow> bool \<Rightarrow> string option
   \<Rightarrow> ('w scene, bar) act" where
  "ensure_bar H co to_str run_tests author logged mode_run =
     act_bind (infer_bar H co to_str run_tests logged mode_run) (\<lambda>b.
       if ba_kind b \<in> set [''weak'', ''absent''] then
         act_bind (build_baseline H co to_str run_tests author b logged mode_run) (\<lambda>res. ret (bl_bar res))
       else ret b)"

text \<open>The adapter that writes the candidate file: \<open>render\<close> is the injected generator.\<close>

definition characterization_author ::
  "'w checkout \<Rightarrow> string \<Rightarrow> (bar \<Rightarrow> ('w, string option) act) \<Rightarrow> 'w baseline_author" where
  "characterization_author co repo render b =
     act_bind (render b) (\<lambda>body.
       case body of
         None \<Rightarrow> ret None
       | Some t \<Rightarrow>
           (let path = repo @ ''/test_characterization.py'' in
            act_bind (co_write co path t) (\<lambda>_.
              ret (Some \<lparr>cb_path = path, cb_command = ''python3 -m pytest test_characterization.py''\<rparr>))))"

section \<open>Rules\<close>

named_theorems scene_simps \<open>what the operations on a scene return\<close>

lemma on_ledger_iff [scene_simps]:
  "on_ledger f s = (r, s') \<longleftrightarrow> f (sc_ledger s) = (r, sc_ledger s') \<and> sc_world s' = sc_world s"
  by (cases s; cases s') (auto simp: on_ledger_def split: prod.splits)

lemma scene_world_iff [scene_simps]:
  "in_world m s = (r, s') \<longleftrightarrow> m (sc_world s) = (r, sc_world s') \<and> sc_ledger s' = sc_ledger s"
  by (cases s; cases s') (auto simp: in_world_def split: prod.splits)

lemma look_iff [scene_simps]: "look f s = (r, s') \<longleftrightarrow> r = f (sc_world s) \<and> s' = s"
  by (auto simp: look_def)

lemma log_row_Inr [scene_simps]:
  "log_row H event status subject witness m s = (Inr u, s') \<longleftrightarrow>
     (\<exists>e. append H (sc_ledger s) event status subject witness None m False = (Inr e, sc_ledger s')) \<and> sc_world s' = sc_world s"
  by (auto simp: log_row_def act_bind_Inr on_ledger_iff)

lemma log_attested_Inr [scene_simps]:
  "log_attested H co sha event status subject witness m ind s = (Inr u, s') \<longleftrightarrow>
     (\<exists>e. append_attested H (git_at (co_git co) (sc_world s)) (sc_ledger s) sha event status subject witness m ind
        = (Inr e, sc_ledger s')) \<and> sc_world s' = sc_world s"
  by (cases s; cases s') (auto simp: log_attested_def res_bind_Inr_iff split: prod.splits)

section \<open>A claim survives a majority of explicit votes\<close>

text \<open>The refuters consulted one after the other: what each returned or raised, and the world after them.\<close>

fun consult :: "(nat \<Rightarrow> ('w, json) act) \<Rightarrow> nat list \<Rightarrow> 'w \<Rightarrow> json res list \<times> 'w" where
  "consult refuter [] w = ([], w)"
| "consult refuter (i # is) w =
     (case refuter i w of (v, w1) \<Rightarrow> (case consult refuter is w1 of (vs, w2) \<Rightarrow> (v # vs, w2)))"

definition cleared :: "json res list \<Rightarrow> nat" where
  "cleared votes = length (filter (\<lambda>v. v = Inr (JBool False)) votes)"

lemma consult_length: "length (fst (consult refuter is w)) = length is"
  by (induction "is" arbitrary: w) (simp_all add: case_prod_beta)

lemma count_refuted_votes:
  "fold_act (\<lambda>i n. act_bind (refutes refuter i) (\<lambda>b. ret (if b then n + 1 else n))) is n s =
     (Inr (n + (length is - cleared (fst (consult refuter is (sc_world s))))),
      s\<lparr>sc_world := snd (consult refuter is (sc_world s))\<rparr>)"
proof (induction "is" arbitrary: n s)
  case Nil
  show ?case by (simp add: cleared_def ret_def)
next
  case (Cons i "is")
  obtain v w1 where v: "refuter i (sc_world s) = (v, w1)" by fastforce
  have le: "cleared (fst (consult refuter is w1)) \<le> length is"
    using consult_length [of refuter "is" w1] by (metis cleared_def length_filter_le)
  have "refutes refuter i s = (Inr (v \<noteq> Inr (JBool False)), s\<lparr>sc_world := w1\<rparr>)"
    by (simp add: refutes_def act_bind_def act_catch_def in_world_def v ret_def)
  then have "act_bind (refutes refuter i) (\<lambda>b. ret (if b then n + 1 else n)) s =
      (Inr (if v = Inr (JBool False) then n else n + 1), s\<lparr>sc_world := w1\<rparr>)"
    by (simp add: act_bind_def ret_def)
  then show ?case
    using le by (simp add: act_bind_step(1) Cons.IH v cleared_def case_prod_beta)
qed

lemma survival: "1 \<le> k \<Longrightarrow> c \<le> k \<Longrightarrow> k - c < majority_threshold k \<longleftrightarrow> k < 2 * c"
  by (auto simp: majority_threshold_def)

lemma verify_claim_Inr:
  assumes "verify_claim H subject refuter k logged m s = (Inr survived, s')"
  shows "1 \<le> k \<and> (\<exists>votes w. consult refuter [0..<nat k] (sc_world s) = (votes, w) \<and> sc_world s' = w \<and>
    length votes = nat k \<and> (survived \<longleftrightarrow> k < 2 * int (cleared votes)) \<and>
    (if logged then \<exists>e. append H (sc_ledger s) ''gate'' (if survived then ''pass'' else ''fail'') (Some subject)
         (gate_witness k (k - int (cleared votes))) None m False = (Inr e, sc_ledger s')
     else sc_ledger s' = sc_ledger s))"
proof -
  from assms have k: "1 \<le> k" by (simp add: verify_claim_def split: if_splits)
  obtain votes w where c: "consult refuter [0..<nat k] (sc_world s) = (votes, w)" by fastforce
  have len: "length votes = nat k" using consult_length [of refuter "[0..<nat k]" "sc_world s"] c by simp
  then have le: "cleared votes \<le> nat k" by (metis cleared_def length_filter_le)
  let ?n = "nat k - cleared votes" and ?s1 = "s\<lparr>sc_world := w\<rparr>"
  have n: "int ?n = k - int (cleared votes)" using k le by simp
  have cnt: "count_refuted refuter [0..<nat k] s = (Inr ?n, ?s1)"
    by (simp add: count_refuted_def count_refuted_votes c)
  have surv: "int ?n < majority_threshold k \<longleftrightarrow> k < 2 * int (cleared votes)"
    unfolding n using k le by (intro survival) auto
  from assms k have run: "act_bind (if logged then log_row H ''gate'' (if int ?n < majority_threshold k then ''pass'' else ''fail'') (Some subject)
      (gate_witness k (int ?n)) m else ret ()) (\<lambda>_. ret (int ?n < majority_threshold k)) ?s1 = (Inr survived, s')"
    by (simp add: verify_claim_def act_bind_step(1) [where m = "count_refuted refuter [0..<nat k]", OF cnt] Let_def)
  then have sv: "survived = (k < 2 * int (cleared votes))" unfolding act_bind_Inr surv by auto
  from run have "if logged then \<exists>e. append H (sc_ledger s) ''gate'' (if survived then ''pass'' else ''fail'') (Some subject)
      (gate_witness k (k - int (cleared votes))) None m False = (Inr e, sc_ledger s') else sc_ledger s' = sc_ledger s"
    unfolding surv n sv [symmetric] by (cases logged) (auto simp: act_bind_Inr scene_simps)
  moreover have "sc_world s' = w" using run by (cases logged) (auto simp: act_bind_Inr scene_simps)
  ultimately show ?thesis using k c len sv by blast
qed

text \<open>
  C13: a claim survives only a strict majority of explicit \<open>False\<close> votes: exactly \<open>k\<close> refuters are
  consulted, in order and without a short cut, whatever they return or raise, the claim survives
  if and only if more than half of them returned \<open>False\<close>, and the ledger gets one gate row with
  the verdict and the tally.
\<close>

theorem survivors_have_majority:
  assumes "verify_claim H subject refuter k logged m s = (Inr survived, s')"
  shows "1 \<le> k \<and> (\<exists>votes w. consult refuter [0..<nat k] (sc_world s) = (votes, w) \<and> sc_world s' = w \<and>
    length votes = nat k \<and> (survived \<longleftrightarrow> k < 2 * int (cleared votes)) \<and>
    (if logged then \<exists>e. append H (sc_ledger s) ''gate'' (if survived then ''pass'' else ''fail'') (Some subject)
         (gate_witness k (k - int (cleared votes))) None m False = (Inr e, sc_ledger s')
     else sc_ledger s' = sc_ledger s))"
  using assms by (rule verify_claim_Inr)

text \<open>Two refuters, one of which clears the claim, do not let it survive; three with one against do.\<close>

definition sample_votes :: "nat \<Rightarrow> (unit, json) act" where
  "sample_votes i = ret (JBool (i = 0))"

lemma three_votes: "\<exists>s'. verify_claim zero_hash ''c'' sample_votes 3 False None \<lparr>sc_ledger = None, sc_world = ()\<rparr> = (Inr True, s')"
proof -
  have "fst (verify_claim zero_hash ''c'' sample_votes 3 False None \<lparr>sc_ledger = None, sc_world = ()\<rparr>) = Inr True"
    by code_simp
  then show ?thesis by (metis prod.collapse)
qed

theorem survivors_have_majority_witness:
  "\<exists>votes w. consult sample_votes [0..<3] () = (votes, w) \<and> length votes = 3 \<and> 3 < 2 * int (cleared votes)"
proof -
  from three_votes obtain s' where
    "verify_claim zero_hash ''c'' sample_votes 3 False None \<lparr>sc_ledger = None, sc_world = ()\<rparr> = (Inr True, s')" by blast
  from survivors_have_majority [OF this] show ?thesis by auto
qed

section \<open>A present bar was green\<close>

lemma classify_present:
  "ba_kind (classify to_str c r) = ''present'' \<longleftrightarrow> (\<exists>rest. r = Items (JInt 0 # rest))"
  by (auto simp: classify_def bar_of_def split: run_result.splits list.splits json.splits)

lemma classify_command: "ba_command (classify to_str c r) = Some c" "ba_provenance (classify to_str c r) = ''detected''"
  by (auto simp: classify_def bar_of_def split: run_result.splits list.splits json.splits)

lemma classify_exit: "ba_kind (classify to_str c r) = ''present'' \<Longrightarrow> ba_exit_code (classify to_str c r) = Some 0"
  by (auto simp: classify_present) (simp add: classify_def)

lemma infer_bar_Inr:
  assumes "infer_bar H co to_str run_tests logged m s = (Inr b, s')"
  shows "b = bar_of ''absent'' None \<or> (\<exists>c r w w1. run_tests c w = (Inr r, w1) \<and> b = classify to_str c r)"
proof -
  have two: "b = bar_of ''absent'' None \<or> (\<exists>c r w w1. run_tests c w = (Inr r, w1) \<and> b = classify to_str c r)"
    if "(case d of None \<Rightarrow> ret (bar_of ''absent'' None)
         | Some c \<Rightarrow> act_bind (in_world (run_tests c)) (\<lambda>r. ret (classify to_str c r))) s0 = (Inr b, s1)" for d s0 s1
  proof (cases d)
    case (Some c)
    with that obtain r where "run_tests c (sc_world s0) = (Inr r, sc_world s1)" "b = classify to_str c r"
      by (auto simp: act_bind_Inr scene_world_iff)
    then show ?thesis by blast
  qed (use that in simp)
  from assms show ?thesis unfolding infer_bar_def act_bind_Inr by (auto dest!: two)
qed

definition green_run :: "'w run_tests \<Rightarrow> string \<Rightarrow> bool" where
  "green_run run_tests c \<longleftrightarrow> (\<exists>w rest w1. run_tests c w = (Inr (Items (JInt 0 # rest)), w1))"

lemma author_baseline_present:
  assumes "author_baseline H co to_str run_tests author b s = (Inr res, s')" and "ba_kind (bl_bar res) = ''present''"
  shows "\<exists>c classified w w1 bytes. author b w = (Inr (Some c), w1) \<and> green_run run_tests (cb_command c) \<and>
    (\<exists>w2. read_bytes_no_symlink (co_open co w2) (cb_path c) None = Inr bytes) \<and> res = built c classified (H bytes)"
proof -
  from assms(1) obtain cand s1 where a: "author b (sc_world s) = (Inr cand, sc_world s1)" and
    rest: "(case cand of None \<Rightarrow> ret (uncharacterizable (ba_command b)) | Some c \<Rightarrow>
           act_bind (in_world (run_tests (cb_command c))) (\<lambda>r.
             let classified = classify to_str (cb_command c) r in
             if ba_kind classified \<noteq> ''present'' then ret (uncharacterizable (Some (cb_command c)))
             else act_bind (act_catch (look (\<lambda>w. read_bytes_no_symlink (co_open co w) (cb_path c) None))) (\<lambda>data.
               case data of
                 Inl e \<Rightarrow> if e = OSError then ret (uncharacterizable (Some (cb_command c))) else raise_exc e
               | Inr bytes \<Rightarrow> ret (built c classified (H bytes))))) s1 = (Inr res, s')"
    unfolding author_baseline_def act_bind_Inr scene_world_iff by blast
  have absent: "res \<noteq> uncharacterizable x" for x using assms(2) by (auto simp: uncharacterizable_def bar_of_def)
  then obtain c where c: "cand = Some c" using rest by (cases cand) auto
  from rest [unfolded c] obtain r s2 where r: "run_tests (cb_command c) (sc_world s1) = (Inr r, sc_world s2)" and
    rest2: "(if ba_kind (classify to_str (cb_command c) r) \<noteq> ''present'' then ret (uncharacterizable (Some (cb_command c)))
             else act_bind (act_catch (look (\<lambda>w. read_bytes_no_symlink (co_open co w) (cb_path c) None))) (\<lambda>data.
               case data of
                 Inl e \<Rightarrow> if e = OSError then ret (uncharacterizable (Some (cb_command c))) else raise_exc e
               | Inr bytes \<Rightarrow> ret (built c (classify to_str (cb_command c) r) (H bytes)))) s2 = (Inr res, s')"
    by (auto simp: act_bind_Inr scene_world_iff Let_def)
  have green: "ba_kind (classify to_str (cb_command c) r) = ''present''" using rest2 absent by (auto split: if_splits)
  with rest2 absent obtain bytes where "read_bytes_no_symlink (co_open co (sc_world s2)) (cb_path c) None = Inr bytes"
    "res = built c (classify to_str (cb_command c) r) (H bytes)"
    by (auto simp: act_bind_Inr act_catch_iff look_iff split: sum.splits if_splits)
  moreover have "green_run run_tests (cb_command c)" using green r by (auto simp: classify_present green_run_def)
  ultimately show ?thesis using a c by blast
qed

lemma reuse_baseline_Some:
  assumes "reuse_baseline co to_str run_tests b s = (Inr (Some res), s')"
  shows "ba_kind b = ''weak'' \<and> green_run run_tests (command_of b) \<and> ba_command (bl_bar res) = ba_command b \<and>
    ba_exit_code (bl_bar res) = Some 0 \<and> ba_provenance (bl_bar res) = ''reused''"
  using assms
  by (auto simp: reuse_baseline_def act_bind_Inr scene_simps classify_present green_run_def bar_of_def split: if_splits)

lemma build_baseline_Inr:
  assumes "build_baseline H co to_str run_tests author b logged m s = (Inr res, s')"
  shows "(\<exists>s1. reuse_baseline co to_str run_tests b s = (Inr (Some res), s1)) \<or>
    (\<exists>s1 s2. author_baseline H co to_str run_tests author b s1 = (Inr res, s2))"
  using assms by (auto simp: build_baseline_def act_bind_Inr split: option.splits)

text \<open>
  C40: a bar called present was green: whenever \<open>ensure_bar\<close> returns a present bar, its command was
  run by the runner and exited with 0, and a bar it calls built is the command of a candidate that
  the author wrote in this call and whose file could be read and hashed afterwards. A weak or
  absent tool is never given a bar without such a run.
\<close>

theorem present_bar_was_green:
  assumes "ensure_bar H co to_str run_tests author logged m s = (Inr b, s')" and "ba_kind b = ''present''"
  shows "\<exists>c. ba_command b = Some c \<and> ba_exit_code b = Some 0 \<and> green_run run_tests c \<and>
    ba_provenance b \<in> {''detected'', ''reused'', ''built''} \<and>
    (ba_provenance b = ''built'' \<longrightarrow> (\<exists>b0 cand w w1 w2 bytes. author b0 w = (Inr (Some cand), w1) \<and> cb_command cand = c \<and>
       read_bytes_no_symlink (co_open co w2) (cb_path cand) None = Inr bytes))"
proof -
  from assms(1) obtain b0 s1 where i: "infer_bar H co to_str run_tests logged m s = (Inr b0, s1)"
    and rest: "(if ba_kind b0 \<in> set [''weak'', ''absent''] then
         act_bind (build_baseline H co to_str run_tests author b0 logged m) (\<lambda>res. ret (bl_bar res)) else ret b0) s1 = (Inr b, s')"
    unfolding ensure_bar_def act_bind_Inr by blast
  note inf = infer_bar_Inr [OF i]
  show ?thesis
  proof (cases "ba_kind b0 \<in> set [''weak'', ''absent'']")
    case False
    with rest have b: "b = b0" by simp
    with assms(2) inf obtain c r w w1 where r: "run_tests c w = (Inr r, w1)" "b = classify to_str c r"
      by (auto simp: bar_of_def)
    then have "green_run run_tests c" using assms(2) by (auto simp: classify_present green_run_def)
    with r classify_command [of to_str c r] classify_exit [of to_str c r] assms(2) show ?thesis by simp
  next
    case True
    with rest obtain res where b: "bl_bar res = b" and
      "\<exists>s2. build_baseline H co to_str run_tests author b0 logged m s1 = (Inr res, s2)"
      by (auto simp: act_bind_Inr)
    then consider s2 where "reuse_baseline co to_str run_tests b0 s1 = (Inr (Some res), s2)"
      | s2 s3 where "author_baseline H co to_str run_tests author b0 s2 = (Inr res, s3)"
      using build_baseline_Inr by blast
    then show ?thesis
    proof cases
      case 1
      from reuse_baseline_Some [OF this] b inf show ?thesis
        by (auto simp: bar_of_def classify_command command_of_def)
    next
      case 2
      with assms(2) b obtain c classified w w1 bytes w2 where "author b0 w = (Inr (Some c), w1)" "green_run run_tests (cb_command c)"
        "read_bytes_no_symlink (co_open co w2) (cb_path c) None = Inr bytes" "res = built c classified (H bytes)"
        using author_baseline_present [OF 2] by auto
      moreover from this b have "ba_command b = Some (cb_command c)" "ba_exit_code b = Some 0" "ba_provenance b = ''built''"
        by (auto simp: built_def bar_of_def)
      ultimately show ?thesis by auto
    qed
  qed
qed

text \<open>A project with a green runner and a ledger that is not written.\<close>

definition green_checkout :: "unit checkout" where
  "green_checkout =
     \<lparr>co_git = (\<lambda>_ _. (Inr (1, []), ())), co_open = (\<lambda>_ _. Inl OSError), co_is_file = (\<lambda>_ p. p = ''pytest.ini''),
      co_text = (\<lambda>_ _. Inl OSError), co_write = (\<lambda>_ _. ret ()), co_probes = undefined\<rparr>"

definition green_tests :: "unit run_tests" where
  "green_tests _ = ret (Items [JInt 0, JStr ''ok''])"

lemma sample_bar:
  "ensure_bar zero_hash green_checkout (\<lambda>_. ''ok'') green_tests (\<lambda>_. ret None) False None \<lparr>sc_ledger = None, sc_world = ()\<rparr>
   = (Inr (classify (\<lambda>_. ''ok'') ''python3 -m pytest'' (Items [JInt 0, JStr ''ok''])), \<lparr>sc_ledger = None, sc_world = ()\<rparr>)"
  by (simp add: ensure_bar_def infer_bar_def act_bind_def look_def in_world_def detect_runner_def green_checkout_def
      green_tests_def ret_def classify_def bar_of_def)

theorem present_bar_was_green_witness:
  "green_run green_tests ''python3 -m pytest''"
proof -
  have "ba_kind (classify (\<lambda>_. ''ok'') ''python3 -m pytest'' (Items [JInt 0, JStr ''ok''])) = ''present''"
    by (simp add: classify_present)
  from present_bar_was_green [OF sample_bar this] show ?thesis by (auto simp: classify_command)
qed

end
