(* ===== verification/Replies.thy ===== *)
theory Replies
  imports Json Effects
begin

text \<open>
  What an agent answers: \<open>peers/agent_invoke.py\<close>. A peer of the run is a command line that gets a
  prompt; its output is a transcript of JSON events or plain text, from which the adapters of the
  modes take a JSON array or object. The regular expression \<open>```(?:json)?\s*(\[.*?\])\s*```\<close> of
  the source is the scanner \<open>fenced\<close>; \<open>re.search\<close> tries the positions from the left, the lazy
  group ends at the first closing bracket that white space and a fence follow.
\<close>

section \<open>The command line\<close>

fun replace_all :: "string \<Rightarrow> string \<Rightarrow> nat \<Rightarrow> string \<Rightarrow> string" where
  "replace_all old new n [] = []"
| "replace_all old new (Suc n) (c # cs) = replace_all old new n cs"
| "replace_all old new 0 (c # cs) =
     (if startswith (c # cs) old then new @ replace_all old new (length old - 1) cs
      else c # replace_all old new 0 cs)"

definition prompt_mark :: string where
  "prompt_mark = ''{PROMPT}''"

definition invocation :: "bool \<Rightarrow> string list \<Rightarrow> string \<Rightarrow> string list \<times> string option" where
  "invocation stdin argv prompt =
     (if stdin then (argv, Some prompt) else (map (replace_all prompt_mark prompt 0) argv, None))"

type_synonym 'w process = "string list \<times> string option \<Rightarrow> ('w, string \<times> string) act"

definition run_agent_once :: "'w process \<Rightarrow> bool \<Rightarrow> string list \<Rightarrow> string \<Rightarrow> ('w, string) act" where
  "run_agent_once run stdin argv prompt =
     (if argv = [] then raise_exc ValueError
      else act_bind (run (invocation stdin argv prompt)) (\<lambda>(out, err). ret (out @ err)))"

section \<open>The final text of a transcript\<close>

definition text_block :: "json \<Rightarrow> string list" where
  "text_block b =
     (case b of
        JObj d \<Rightarrow> if jget d ''type'' = JStr ''text'' then (case jget d ''text'' of JStr t \<Rightarrow> [t] | _ \<Rightarrow> []) else []
      | _ \<Rightarrow> [])"

definition assistant_text :: "raw \<Rightarrow> string list" where
  "assistant_text ev =
     (case jget ev ''message'' of
        JObj msg \<Rightarrow> (case jget msg ''content'' of JList bs \<Rightarrow> concat (map text_block bs) | _ \<Rightarrow> [])
      | _ \<Rightarrow> [])"

definition add_event :: "string option \<times> string list \<Rightarrow> raw \<Rightarrow> string option \<times> string list" where
  "add_event acc ev =
     (case jget ev ''type'' of
        JStr kind \<Rightarrow>
          if kind = ''result'' then (case jget ev ''result'' of JStr t \<Rightarrow> (Some t, snd acc) | _ \<Rightarrow> acc)
          else if kind = ''assistant'' then (fst acc, snd acc @ assistant_text ev)
          else acc
      | _ \<Rightarrow> acc)"

definition event_of_line :: "string \<Rightarrow> raw option" where
  "event_of_line line =
     (if \<not> startswith (strip line) ''{'' then None
      else (case loads (strip line) of Inr (JObj d) \<Rightarrow> Some d | _ \<Rightarrow> None))"

fun fold_events :: "string option \<times> string list \<Rightarrow> string list \<Rightarrow> string option \<times> string list" where
  "fold_events acc [] = acc"
| "fold_events acc (l # ls) =
     (case event_of_line l of None \<Rightarrow> fold_events acc ls | Some ev \<Rightarrow> fold_events (add_event acc ev) ls)"

definition joined :: "string \<Rightarrow> string list \<Rightarrow> string" where
  "joined sep xs = (case xs of [] \<Rightarrow> [] | x # ys \<Rightarrow> x @ concat (map (\<lambda>y. sep @ y) ys))"

definition newline :: string where
  "newline = [CHR 0x0A]"

definition final_agent_text :: "string \<Rightarrow> string" where
  "final_agent_text t =
     (if CHR ''{'' \<notin> set t then t
      else (case fold_events (None, []) (splitlines t) of
          (Some final, _) \<Rightarrow> final
        | (None, []) \<Rightarrow> t
        | (None, chunks) \<Rightarrow> joined newline chunks))"

text \<open>The runner the adapters get: \<open>agent_runner_from_spec\<close>.\<close>

definition agent_runner :: "'w process \<Rightarrow> bool \<Rightarrow> string list \<Rightarrow> string \<Rightarrow> ('w, string) act" where
  "agent_runner run stdin argv prompt =
     act_bind (run_agent_once run stdin argv prompt) (\<lambda>t. ret (final_agent_text t))"

section \<open>JSON in a chatty answer\<close>

definition fence_mark :: string where
  "fence_mark = ''```''"

fun lazy_group :: "char \<Rightarrow> string \<Rightarrow> string option" where
  "lazy_group c [] = None"
| "lazy_group c (x # xs) =
     (if x = c \<and> startswith (lstrip xs) fence_mark then Some [x]
      else map_option (Cons x) (lazy_group c xs))"

definition fence_here :: "char \<Rightarrow> char \<Rightarrow> string \<Rightarrow> string option" where
  "fence_here opening closing t =
     (if \<not> startswith t fence_mark then None
      else (let body = drop 3 t; rest = lstrip (if startswith body ''json'' then drop 4 body else body)
            in case rest of
                 [] \<Rightarrow> None
               | c # cs \<Rightarrow> if c = opening then map_option (Cons c) (lazy_group closing cs) else None))"

fun fenced :: "char \<Rightarrow> char \<Rightarrow> string \<Rightarrow> string option" where
  "fenced opening closing [] = None"
| "fenced opening closing (c # cs) =
     (case fence_here opening closing (c # cs) of Some g \<Rightarrow> Some g | None \<Rightarrow> fenced opening closing cs)"

text \<open>\<open>text[text.find(o):text.rfind(c) + 1]\<close>, when both are there and in this order.\<close>

definition bare_span :: "char \<Rightarrow> char \<Rightarrow> string \<Rightarrow> string option" where
  "bare_span opening closing t =
     (if opening \<notin> set t \<or> closing \<notin> set t then None
      else (let a = length (takeWhile (\<lambda>c. c \<noteq> opening) t);
                b = length t - length (takeWhile (\<lambda>c. c \<noteq> closing) (List.rev t))
            in if a + 1 < b then Some (take (b - a) (drop a t)) else None))"

definition candidates :: "char \<Rightarrow> char \<Rightarrow> string \<Rightarrow> string list" where
  "candidates opening closing t =
     (case fenced opening closing t of None \<Rightarrow> [] | Some g \<Rightarrow> [g]) @
     (case bare_span opening closing t of None \<Rightarrow> [] | Some g \<Rightarrow> [g])"

fun first_parsed :: "(json \<Rightarrow> 'a option) \<Rightarrow> string list \<Rightarrow> 'a option" where
  "first_parsed sel [] = None"
| "first_parsed sel (blob # blobs) =
     (case loads blob of
        Inl _ \<Rightarrow> first_parsed sel blobs
      | Inr j \<Rightarrow> (case sel j of Some a \<Rightarrow> Some a | None \<Rightarrow> first_parsed sel blobs))"

definition as_array :: "json \<Rightarrow> json list option" where
  "as_array j = (case j of JList js \<Rightarrow> Some js | _ \<Rightarrow> None)"

definition as_object :: "json \<Rightarrow> raw option" where
  "as_object j = (case j of JObj d \<Rightarrow> Some d | _ \<Rightarrow> None)"

definition extract_json_array :: "string \<Rightarrow> json list option" where
  "extract_json_array t = first_parsed as_array (candidates CHR ''['' CHR '']'' t)"

definition extract_json_object :: "string \<Rightarrow> raw option" where
  "extract_json_object t = first_parsed as_object (candidates CHR ''{'' CHR ''}'' t)"

section \<open>What comes back was in the answer\<close>

definition infix_of :: "string \<Rightarrow> string \<Rightarrow> bool" where
  "infix_of s t \<longleftrightarrow> (\<exists>pre post. t = pre @ s @ post)"

lemma infix_of_refl: "infix_of s s"
  unfolding infix_of_def by (rule exI [of _ "[]"], rule exI [of _ "[]"]) simp

lemma infix_of_suffix: "infix_of s t \<Longrightarrow> infix_of s (p @ t)"
  unfolding infix_of_def by (metis append.assoc)

lemma infix_of_drop: "infix_of s (drop n t) \<Longrightarrow> infix_of s t"
  by (metis append_take_drop_id infix_of_suffix)

lemma lstrip_suffix: "\<exists>p. t = p @ lstrip t"
proof (induction t rule: lstrip.induct)
  case (1 t)
  show ?case
  proof (cases "space_len t = 0")
    case False
    then have "lstrip t = lstrip (drop (space_len t) t)" by (simp add: lstrip.simps)
    with 1 False show ?thesis by (metis append.assoc append_take_drop_id)
  qed (simp add: lstrip.simps)
qed

lemma lazy_group_prefix: "lazy_group c t = Some g \<Longrightarrow> \<exists>post. t = g @ post"
  by (induction t arbitrary: g) (auto split: if_splits)

lemma fence_here_infix:
  assumes "fence_here o1 c1 t = Some g"
  shows "infix_of g t"
proof -
  let ?body = "drop 3 t"
  let ?after = "if startswith ?body ''json'' then drop 4 ?body else ?body"
  from assms obtain x xs h where l: "lstrip ?after = x # xs" "lazy_group c1 xs = Some h" "g = x # h"
    by (auto simp: fence_here_def Let_def split: if_splits list.splits)
  from lazy_group_prefix [OF l(2)] l(1,3) obtain post where "lstrip ?after = g @ post" by auto
  moreover obtain p where "?after = p @ lstrip ?after" using lstrip_suffix by blast
  ultimately have "infix_of g ?after" unfolding infix_of_def by metis
  then have "infix_of g ?body" by (metis infix_of_drop)
  then show ?thesis by (rule infix_of_drop)
qed

lemma fenced_infix: "fenced o1 c1 t = Some g \<Longrightarrow> infix_of g t"
proof (induction t)
  case (Cons c cs)
  show ?case
  proof (cases "fence_here o1 c1 (c # cs)")
    case None
    with Cons have "infix_of g cs" by simp
    then show ?thesis using infix_of_suffix [of g cs "[c]"] by simp
  next
    case (Some h)
    with Cons.prems fence_here_infix show ?thesis by auto
  qed
qed simp

lemma bare_span_infix: "bare_span o1 c1 t = Some g \<Longrightarrow> infix_of g t"
proof -
  assume "bare_span o1 c1 t = Some g"
  then obtain a n where "g = take n (drop a t)" by (auto simp: bare_span_def Let_def split: if_splits)
  then have "t = take a t @ g @ drop n (drop a t)" by (metis append_take_drop_id)
  then show ?thesis unfolding infix_of_def by blast
qed

lemma first_parsed_Some:
  "first_parsed sel blobs = Some a \<Longrightarrow> \<exists>blob \<in> set blobs. \<exists>j. loads blob = Inr j \<and> sel j = Some a"
  by (induction blobs) (auto split: sum.splits option.splits)

lemma candidates_infix: "blob \<in> set (candidates o1 c1 t) \<Longrightarrow> infix_of blob t"
  by (auto simp: candidates_def fenced_infix bare_span_infix split: option.splits)

lemma extract_json_array_grounded:
  "extract_json_array t = Some js \<Longrightarrow> \<exists>blob. infix_of blob t \<and> loads blob = Inr (JList js)"
  by (auto simp: extract_json_array_def as_array_def split: json.splits dest!: first_parsed_Some candidates_infix)

lemma extract_json_object_grounded:
  "extract_json_object t = Some d \<Longrightarrow> \<exists>blob. infix_of blob t \<and> loads blob = Inr (JObj d)"
  by (auto simp: extract_json_object_def as_object_def split: json.splits dest!: first_parsed_Some candidates_infix)

lemma final_text_plain: "(\<forall>l \<in> set (splitlines t). event_of_line l = None) \<Longrightarrow> final_agent_text t = t"
proof -
  have "(\<forall>l \<in> set ls. event_of_line l = None) \<Longrightarrow> fold_events acc ls = acc" for ls acc
    by (induction ls) auto
  then show "(\<forall>l \<in> set (splitlines t). event_of_line l = None) \<Longrightarrow> final_agent_text t = t"
    by (simp add: final_agent_text_def)
qed

end
