(* ===== verification/DevelopPorts.thy ===== *)
theory DevelopPorts
  imports Replies PlanParser Contracts Drive
begin

text \<open>
  The adapters of develop mode, \<open>peers/develop/ports.py\<close>, \<open>peers/develop/adapters.py\<close> and
  \<open>peers/develop/convergence.py\<close>: the auditor, the author and the refuter that ask an agent, the
  implementer that validates and freezes a contract before anything is run, and the runner that
  lets an agent work until the acceptance passes on a real diff. The agent, git and the acceptance
  command act on a world \<open>'w\<close>; the scratch directory of an implementer is a \<open>contract_dir\<close>.
\<close>

section \<open>The values that are passed around\<close>

record finding =
  fi_id :: string
  fi_dimension :: string
  fi_severity :: string
  fi_location :: string
  fi_summary :: string
  fi_fix :: string
  fi_fail_first :: string

record authored_contract =
  ac_plan_md :: string
  ac_acceptance :: string
  ac_findings :: "string list"
  ac_e2e :: "string option"

datatype impl_reason =
    Implemented | RepoMissing | NoScratchDir | InvalidContract | RunnerFailed pyexc | NotConverged

record implement_result =
  ir_ok :: bool
  ir_head_sha :: "string option"
  ir_branch :: "string option"
  ir_reason :: impl_reason

type_synonym 'w run_agent = "string \<Rightarrow> ('w, string) act"

section \<open>The auditor\<close>

definition finding_fields :: "string list" where
  "finding_fields = [''id'', ''dimension'', ''severity'', ''location'', ''summary'', ''fix'', ''fail_first'']"

definition audit_prompt :: "string \<Rightarrow> string list \<Rightarrow> string" where
  "audit_prompt repo dimensions =
     ''Audit the repository at '' @ repo @ '' for these dimensions: '' @ joined '', '' dimensions @ ''.'' @ newline @
     ''Return ONLY a JSON array of findings (no prose). Each finding object '' @
     ''must have exactly these string fields: '' @ joined '', '' finding_fields @ ''.'' @ newline @
     ''- id: a short stable handle (e.g. AUD-1)'' @ newline @
     ''- dimension: one of the requested dimensions'' @ newline @
     ''- severity: critical|high|medium|low'' @ newline @
     ''- location: file:line'' @ newline @
     ''- summary: the concrete defect'' @ newline @
     ''- fix: the concrete change'' @ newline @
     ''- fail_first: a test name that would fail today and pass once fixed'' @ newline @
     ''Only report findings you can ground in the actual code. If you find '' @
     ''nothing actionable, return [].''"

definition text_field :: "raw \<Rightarrow> string \<Rightarrow> string option" where
  "text_field d k = (case jget d k of JStr v \<Rightarrow> if strip v = [] then None else Some v | _ \<Rightarrow> None)"

definition finding_of :: "json \<Rightarrow> finding option" where
  "finding_of entry =
     (case entry of
        JObj d \<Rightarrow>
          (case map (text_field d) finding_fields of
             [Some a, Some b, Some c, Some e, Some f, Some g, Some h] \<Rightarrow>
               Some \<lparr>fi_id = a, fi_dimension = b, fi_severity = c, fi_location = e, fi_summary = f, fi_fix = g, fi_fail_first = h\<rparr>
           | _ \<Rightarrow> None)
      | _ \<Rightarrow> None)"

fun collect_findings :: "int \<Rightarrow> string list \<Rightarrow> finding list \<Rightarrow> json list \<Rightarrow> finding list" where
  "collect_findings max_findings wanted out [] = out"
| "collect_findings max_findings wanted out (entry # entries) =
     (if int (length out) \<ge> max_findings then out
      else (case finding_of entry of
          None \<Rightarrow> collect_findings max_findings wanted out entries
        | Some f \<Rightarrow>
            if fi_dimension f \<notin> set wanted then collect_findings max_findings wanted out entries
            else collect_findings max_findings wanted (out @ [f]) entries))"

definition extract_array :: "string \<Rightarrow> json list option" where
  "extract_array t = first_parsed as_array (candidates CHR ''['' CHR '']'' t)"

definition llm_audit :: "'w run_agent \<Rightarrow> int \<Rightarrow> string \<Rightarrow> string list \<Rightarrow> ('w, finding list) act" where
  "llm_audit agent max_findings repo dimensions =
     (if max_findings < 1 then raise_exc ValueError
      else act_bind (act_catch (agent (audit_prompt repo dimensions))) (\<lambda>r.
        case r of
          Inl _ \<Rightarrow> ret []
        | Inr t \<Rightarrow>
            ret (case extract_array t of
                   None \<Rightarrow> []
                 | Some entries \<Rightarrow> collect_findings max_findings dimensions [] entries)))"

section \<open>The author\<close>

definition finding_line :: "finding \<Rightarrow> string" where
  "finding_line f =
     ''- ['' @ fi_id f @ ''] ('' @ fi_dimension f @ ''/'' @ fi_severity f @ '') '' @ fi_location f @ '': '' @
     fi_summary f @ '' -> fix: '' @ fi_fix f @ ''; fail-first test: '' @ fi_fail_first f"

definition author_prompt :: "finding list \<Rightarrow> string \<Rightarrow> string" where
  "author_prompt findings repo =
     joined newline
       ([''You are authoring an implement contract for the repo at '' @ repo @ ''.'',
         ''Turn these confirmed findings into ONE parser-valid PLAN.md:''] @
        map finding_line findings @
        [[],
         ''Return ONLY a JSON object with keys: plan_md (string), acceptance '' @
         ''(string: the acceptance test command), e2e (string or null).'',
         ''plan_md MUST be a valid PLAN.md with this shape:'',
         ''  # <title>'',
         ''  ## Meta'',
         ''  surfaces: [cli]'',
         ''  acceptance: <command>'',
         ''  ## Steps'',
         ''  - [ ] [STEP-1] <step>'',
         ''    - touches: <path>'',
         ''Every step needs a [STEP-N] id and a `touches:` declaration. Do not '' @
         ''invent files that do not exist in the repo.''])"

definition extract_object :: "string \<Rightarrow> raw option" where
  "extract_object t = first_parsed as_object (candidates CHR ''{'' CHR ''}'' t)"

text \<open>The plan is parsed from a file of its own in a temporary directory; \<open>tmp\<close> says whether there is one.\<close>

definition own_file :: "string \<Rightarrow> os_open" where
  "own_file data path = Inr \<lparr>fn_regular = True, fn_nlink = 1, fn_data = data\<rparr>"

definition plan_of_text :: "wide \<Rightarrow> string \<Rightarrow> plan res" where
  "plan_of_text wd plan_md =
     res_bind (encode plan_md) (\<lambda>data. parse_plan wd (own_file data) ''PLAN.md'')"

definition contract_of :: "wide \<Rightarrow> unit res \<Rightarrow> string list \<Rightarrow> raw \<Rightarrow> authored_contract option res" where
  "contract_of wd tmp ids obj =
     (case text_field obj ''plan_md'' of
        None \<Rightarrow> Inr None
      | Some plan_md \<Rightarrow>
          (case res_bind tmp (\<lambda>_. plan_of_text wd plan_md) of
             Inl e \<Rightarrow> if e = PlanValidationError \<or> e = OSError then Inr None else Inl e
           | Inr p \<Rightarrow>
               Inr (Some \<lparr>ac_plan_md = plan_md,
                          ac_acceptance = (case text_field obj ''acceptance'' of Some a \<Rightarrow> a | None \<Rightarrow> pn_acceptance p),
                          ac_findings = ids, ac_e2e = text_field obj ''e2e''\<rparr>)))"

definition llm_author ::
  "'w run_agent \<Rightarrow> wide \<Rightarrow> unit res \<Rightarrow> string \<Rightarrow> finding list \<Rightarrow> ('w, authored_contract option) act" where
  "llm_author agent wd tmp repo findings =
     (if findings = [] then ret None
      else act_bind (act_catch (agent (author_prompt findings repo))) (\<lambda>r.
        case r of
          Inl _ \<Rightarrow> ret None
        | Inr t \<Rightarrow>
            (case extract_object t of
               None \<Rightarrow> ret None
             | Some obj \<Rightarrow> act_res (contract_of wd tmp (map fi_id findings) obj))))"

section \<open>The refuter\<close>

definition refute_prompt :: "finding \<Rightarrow> string" where
  "refute_prompt f =
     ''Try to REFUTE this claimed finding by checking it against the '' @
     ''actual code. Is it a real, reproducible defect, or is it wrong / '' @
     ''not applicable / already handled?'' @ newline @
     ''- id: '' @ fi_id f @ newline @ ''- dimension: '' @ fi_dimension f @ newline @ ''- location: '' @ fi_location f @ newline @
     ''- summary: '' @ fi_summary f @ newline @ ''- proposed fix: '' @ fi_fix f @ newline @ newline @
     ''Respond with ONLY a JSON object {\"refuted\": true|false} where '' @
     ''refuted=true means it is NOT a real defect. If you are unsure, '' @
     ''refuted=true.''"

definition llm_refuter :: "'w run_agent \<Rightarrow> finding \<Rightarrow> nat \<Rightarrow> ('w, json) act" where
  "llm_refuter agent f vote =
     act_bind (act_catch (agent (refute_prompt f))) (\<lambda>r.
       ret (case r of
              Inl _ \<Rightarrow> JBool True
            | Inr t \<Rightarrow>
                (case extract_object t of
                   None \<Rightarrow> JBool True
                 | Some obj \<Rightarrow> (case jget obj ''refuted'' of JBool b \<Rightarrow> JBool b | _ \<Rightarrow> JBool True))))"

section \<open>The implementer\<close>

definition plan_md_name :: string where
  "plan_md_name = ''PLAN.md''"

definition dir_open :: "contract_dir \<Rightarrow> os_open" where
  "dir_open fs path =
     (case map_of fs path of
        Some (File n m d) \<Rightarrow> Inr \<lparr>fn_regular = True, fn_nlink = n, fn_data = d\<rparr>
      | Some Special \<Rightarrow> Inr \<lparr>fn_regular = False, fn_nlink = 1, fn_data = []\<rparr>
      | _ \<Rightarrow> Inl OSError)"

text \<open>Write the plan, validate it, freeze the contract; \<open>False\<close> is a plan the parser rejects.\<close>

definition freeze_contract :: "digest \<Rightarrow> wide \<Rightarrow> string \<Rightarrow> authored_contract \<Rightarrow> (contract_dir, bool) act" where
  "freeze_contract H wd stamp c fs =
     (case encode (ac_plan_md c) of
        Inl e \<Rightarrow> (Inl e, dict_set fs plan_md_name (File 1 420 []))
      | Inr data \<Rightarrow>
          (let fs1 = dict_set fs plan_md_name (File 1 420 data) in
           case parse_plan wd (dir_open fs1) plan_md_name of
             Inl e \<Rightarrow> (if e = PlanValidationError then Inr False else Inl e, fs1)
           | Inr _ \<Rightarrow>
               act_bind (write_frozen_contracts H stamp (ac_acceptance c) (ac_e2e c) (ac_plan_md c)) (\<lambda>_. ret True) fs1))"

text \<open>The converging runner gets the scratch directory: its path and what is in it.\<close>

type_synonym convergence = "bool \<times> string option \<times> string option"

record 'w site =
  si_is_dir :: "'w \<Rightarrow> bool"
  si_mkdtemp :: "('w, string) act"
  si_rmtree :: "string \<Rightarrow> 'w \<Rightarrow> 'w"
  si_converge :: "string \<Rightarrow> contract_dir \<Rightarrow> ('w, convergence) act"

definition not_implemented :: "impl_reason \<Rightarrow> implement_result" where
  "not_implemented why = \<lparr>ir_ok = False, ir_head_sha = None, ir_branch = None, ir_reason = why\<rparr>"

definition result_of :: "convergence res \<Rightarrow> implement_result" where
  "result_of r =
     (case r of
        Inl e \<Rightarrow> not_implemented (RunnerFailed e)
      | Inr (ok, head_sha, branch) \<Rightarrow>
          \<lparr>ir_ok = ok, ir_head_sha = head_sha, ir_branch = branch, ir_reason = (if ok then Implemented else NotConverged)\<rparr>)"

definition contract_implement ::
  "digest \<Rightarrow> wide \<Rightarrow> string \<Rightarrow> 'w site \<Rightarrow> authored_contract \<Rightarrow> ('w, implement_result) act" where
  "contract_implement H wd stamp si c w =
     (if \<not> si_is_dir si w then (Inr (not_implemented RepoMissing), w)
      else (case si_mkdtemp si w of
          (Inl e, w1) \<Rightarrow> (if e = OSError then Inr (not_implemented NoScratchDir) else Inl e, w1)
        | (Inr dir, w1) \<Rightarrow>
            (case freeze_contract H wd stamp c [] of
               (Inl e, fs) \<Rightarrow> (Inl e, si_rmtree si dir w1)
             | (Inr False, fs) \<Rightarrow> (Inr (not_implemented InvalidContract), si_rmtree si dir w1)
             | (Inr True, fs) \<Rightarrow>
                 (case si_converge si dir fs w1 of (r, w2) \<Rightarrow> (Inr (result_of r), si_rmtree si dir w2)))))"

definition base_name :: "string \<Rightarrow> string" where
  "base_name path = last (split_on CHR ''/'' path)"

text \<open>The inner runner inside a leased worktree; the lease is released in every case.\<close>

definition worktree_convergence :: "'w provider \<Rightarrow> (string \<Rightarrow> ('w, convergence) act) \<Rightarrow> string \<Rightarrow> ('w, convergence) act" where
  "worktree_convergence pv inner project_dir w =
     (case pv_acquire pv (base_name project_dir) None w of
        (Inl e, w1) \<Rightarrow> (Inl e, w1)
      | (Inr (ws, f), w1) \<Rightarrow> (case inner (ws_path ws) w1 of (r, w2) \<Rightarrow> (r, pv_release pv ws f w2)))"

section \<open>The converging runner\<close>

record 'w runner =
  cr_git :: "'w gitw"
  cr_agent :: "string \<Rightarrow> ('w, unit) act"
  cr_acceptance :: "('w, bool \<times> string) act"
  cr_plan_file :: "'w \<Rightarrow> string option res"
  cr_budget :: int
  cr_message :: string
  cr_exclude :: "string list"
  cr_contract :: "string option"
  cr_attest :: "string option"

text \<open>\<open>_git\<close> with and without \<open>check\<close>.\<close>

definition git_plain :: "'w gitw \<Rightarrow> string list \<Rightarrow> ('w, proc) act" where
  "git_plain g args w = g w args"

definition git_checked :: "'w gitw \<Rightarrow> string list \<Rightarrow> ('w, string) act" where
  "git_checked g args = act_bind (git_plain g args) (\<lambda>(rc, out). if rc \<noteq> 0 then raise_exc CalledProcessError else ret out)"

definition current_branch :: "'w gitw \<Rightarrow> ('w, string option) act" where
  "current_branch g =
     act_except (act_bind (git_checked g [''rev-parse'', ''--abbrev-ref'', ''HEAD'']) (\<lambda>out. ret (Some (strip out))))
       (\<lambda>e. e = CalledProcessError) (ret None)"

definition convergence_prompt :: "string \<Rightarrow> string \<Rightarrow> string" where
  "convergence_prompt plan_body last_failure =
     joined newline
       ([''Implement the frozen contract in this repository so its acceptance '' @
         ''test passes. Edit only what the contract requires.''] @
        (if plan_body = [] then [] else [[], ''CONTRACT (PLAN.md):'', plan_body]) @
        (if last_failure = [] then [] else [[], ''The acceptance test is still failing:'', last_failure]))"

definition plan_body :: "'w runner \<Rightarrow> 'w \<Rightarrow> string res" where
  "plan_body cr w =
     (case cr_contract cr of
        Some md \<Rightarrow> Inr md
      | None \<Rightarrow> res_bind (cr_plan_file cr w) (\<lambda>p. Inr (case p of None \<Rightarrow> [] | Some md \<Rightarrow> md)))"

definition agent_turn :: "'w runner \<Rightarrow> string \<Rightarrow> ('w, unit) act" where
  "agent_turn cr last_failure w =
     (case plan_body cr w of
        Inl e \<Rightarrow> (Inl e, w)
      | Inr body \<Rightarrow> cr_agent cr (convergence_prompt body last_failure) w)"

definition path_spec :: "'w runner \<Rightarrow> string list" where
  "path_spec cr = [''--'', ''.''] @ map (\<lambda>e. '':(exclude)'' @ e) (cr_exclude cr)"

definition attest_range :: "'w runner \<Rightarrow> string option \<Rightarrow> string \<Rightarrow> ('w, unit) act" where
  "attest_range cr base sha w =
     (case cr_attest cr of
        Some (p # ps) \<Rightarrow> (case attest_commits (cr_git cr) (p # ps) base (Some sha) w of (r, w') \<Rightarrow> (res_bind r (\<lambda>_. Inr ()), w'))
      | _ \<Rightarrow> (Inr (), w))"

text \<open>After a passing acceptance: stage, look for a real diff, commit and attest.\<close>

definition commit_diff :: "'w runner \<Rightarrow> string option \<Rightarrow> string option \<Rightarrow> ('w, convergence) act" where
  "commit_diff cr branch base =
     act_bind (git_checked (cr_git cr) ([''add'', ''-A''] @ path_spec cr)) (\<lambda>_.
     act_bind (git_plain (cr_git cr) ([''diff'', ''--cached'', ''--quiet''] @ path_spec cr)) (\<lambda>(rc, _).
     if rc = 0 then ret (False, None, branch)
     else
     act_bind (git_checked (cr_git cr) [''commit'', ''-q'', ''-m'', cr_message cr]) (\<lambda>_.
     act_bind (git_checked (cr_git cr) [''rev-parse'', ''HEAD'']) (\<lambda>out.
     act_bind (attest_range cr base (strip out)) (\<lambda>_.
       ret (True, Some (strip out), branch))))))"

text \<open>One turn of the loop: the next failure text, or the result.\<close>

definition attempt :: "'w runner \<Rightarrow> string option \<Rightarrow> string option \<Rightarrow> string \<Rightarrow> ('w, string + convergence) act" where
  "attempt cr branch base last_failure =
     act_bind (act_catch (agent_turn cr last_failure)) (\<lambda>turn.
       case turn of
         Inl _ \<Rightarrow> ret (Inl ''agent turn raised; retrying'')
       | Inr _ \<Rightarrow>
           act_bind (cr_acceptance cr) (\<lambda>(ok, out).
             if \<not> ok then ret (Inl out)
             else act_bind (commit_diff cr branch base) (\<lambda>res. ret (Inr res))))"

primrec attempts :: "nat \<Rightarrow> 'w runner \<Rightarrow> string option \<Rightarrow> string option \<Rightarrow> string \<Rightarrow> ('w, convergence) act" where
  "attempts 0 cr branch base last_failure = ret (False, None, branch)"
| "attempts (Suc n) cr branch base last_failure =
     act_bind (attempt cr branch base last_failure) (\<lambda>r.
       case r of Inl failure \<Rightarrow> attempts n cr branch base failure | Inr res \<Rightarrow> ret res)"

text \<open>\<open>__call__\<close>; the test of the budget is the one of the constructor.\<close>

definition converge_agent :: "'w runner \<Rightarrow> ('w, convergence) act" where
  "converge_agent cr =
     (if cr_budget cr < 1 then raise_exc ValueError
      else
      act_bind (current_branch (cr_git cr)) (\<lambda>branch.
      act_bind (git_plain (cr_git cr) [''rev-parse'', ''HEAD'']) (\<lambda>(rc, out).
        attempts (nat (cr_budget cr)) cr branch (if rc = 0 then Some (strip out) else None) [])))"

section \<open>A convergence was tested and has a diff\<close>

text \<open>What must have happened between a passing acceptance and the final world.\<close>

definition committed :: "'w runner \<Rightarrow> string option \<Rightarrow> 'w \<Rightarrow> string \<Rightarrow> 'w \<Rightarrow> bool" where
  "committed cr base w2 sha w' \<longleftrightarrow>
     (\<exists>o1 w3 rc o2 w4 o3 w5 o4 w6.
        cr_git cr w2 ([''add'', ''-A''] @ path_spec cr) = (Inr (0, o1), w3) \<and>
        cr_git cr w3 ([''diff'', ''--cached'', ''--quiet''] @ path_spec cr) = (Inr (rc, o2), w4) \<and> rc \<noteq> 0 \<and>
        cr_git cr w4 [''commit'', ''-q'', ''-m'', cr_message cr] = (Inr (0, o3), w5) \<and>
        cr_git cr w5 [''rev-parse'', ''HEAD''] = (Inr (0, o4), w6) \<and> sha = strip o4 \<and>
        attest_range cr base sha w6 = (Inr (), w'))"

definition tested_commit :: "'w runner \<Rightarrow> string option \<Rightarrow> 'w \<Rightarrow> string \<Rightarrow> 'w \<Rightarrow> bool" where
  "tested_commit cr base w1 sha w' \<longleftrightarrow>
     (\<exists>out w2. cr_acceptance cr w1 = (Inr (True, out), w2) \<and> committed cr base w2 sha w')"

lemma git_checked_Inr: "git_checked g args w = (Inr out, w') \<longleftrightarrow> g w args = (Inr (0, out), w')"
  by (auto simp: git_checked_def git_plain_def act_bind_Inr split: if_splits)

lemma commit_diff_Inr:
  assumes "commit_diff cr branch base w2 = (Inr (ok, sha, br), w')"
  shows "br = branch \<and> (if ok then \<exists>s. sha = Some s \<and> committed cr base w2 s w'
      else sha = None \<and> (\<exists>o1 w3 o2. cr_git cr w2 ([''add'', ''-A''] @ path_spec cr) = (Inr (0, o1), w3) \<and>
        cr_git cr w3 ([''diff'', ''--cached'', ''--quiet''] @ path_spec cr) = (Inr (0, o2), w')))"
proof -
  from assms obtain o1 w3 rc o2 w4 where 1: "cr_git cr w2 ([''add'', ''-A''] @ path_spec cr) = (Inr (0, o1), w3)"
    "cr_git cr w3 ([''diff'', ''--cached'', ''--quiet''] @ path_spec cr) = (Inr (rc, o2), w4)"
    and rest: "(if rc = 0 then ret (False, None, branch)
     else act_bind (git_checked (cr_git cr) [''commit'', ''-q'', ''-m'', cr_message cr]) (\<lambda>_.
     act_bind (git_checked (cr_git cr) [''rev-parse'', ''HEAD'']) (\<lambda>out.
     act_bind (attest_range cr base (strip out)) (\<lambda>_. ret (True, Some (strip out), branch))))) w4 = (Inr (ok, sha, br), w')"
    unfolding commit_diff_def act_bind_Inr git_checked_Inr git_plain_def by auto
  show ?thesis
  proof (cases "rc = 0")
    case True
    with rest 1 show ?thesis by auto
  next
    case False
    with rest obtain o3 w5 o4 w6 where "cr_git cr w4 [''commit'', ''-q'', ''-m'', cr_message cr] = (Inr (0, o3), w5)"
      "cr_git cr w5 [''rev-parse'', ''HEAD''] = (Inr (0, o4), w6)" "attest_range cr base (strip o4) w6 = (Inr (), w')"
      "ok" "sha = Some (strip o4)" "br = branch"
      by (auto simp: act_bind_Inr git_checked_Inr)
    moreover from this 1 False have "committed cr base w2 (strip o4) w'" unfolding committed_def by blast
    ultimately show ?thesis by simp
  qed
qed

lemma attempt_cases:
  assumes "attempt cr branch base failure w = (Inr r, w')"
  obtains (raised) e where "agent_turn cr failure w = (Inl e, w')" "r = Inl ''agent turn raised; retrying''"
    | (red) w1 out where "agent_turn cr failure w = (Inr (), w1)" "cr_acceptance cr w1 = (Inr (False, out), w')" "r = Inl out"
    | (green) w1 out w2 res where "agent_turn cr failure w = (Inr (), w1)" "cr_acceptance cr w1 = (Inr (True, out), w2)"
        "commit_diff cr branch base w2 = (Inr res, w')" "r = Inr res"
proof -
  from assms obtain turn w1 where t: "agent_turn cr failure w = (turn, w1)" and
    rest: "(case turn of Inl _ \<Rightarrow> ret (Inl ''agent turn raised; retrying'')
       | Inr _ \<Rightarrow> act_bind (cr_acceptance cr) (\<lambda>(ok, out).
             if \<not> ok then ret (Inl out) else act_bind (commit_diff cr branch base) (\<lambda>res. ret (Inr res)))) w1 = (Inr r, w')"
    by (auto simp: attempt_def act_bind_Inr act_catch_iff)
  show thesis
  proof (cases turn)
    case (Inl e)
    with t rest raised show thesis by auto
  next
    case (Inr u)
    with rest obtain ok out w2 where acc: "cr_acceptance cr w1 = (Inr (ok, out), w2)" and
      c: "(if \<not> ok then ret (Inl out) else act_bind (commit_diff cr branch base) (\<lambda>res. ret (Inr res))) w2 = (Inr r, w')"
      by (auto simp: act_bind_Inr)
    show thesis
    proof (cases ok)
      case False
      with t Inr acc c red show thesis by auto
    next
      case True
      with t Inr acc c green show thesis by (auto simp: act_bind_Inr)
    qed
  qed
qed

lemma attempt_Inr:
  assumes "attempt cr branch base failure w = (Inr (Inr (True, sha, br)), w')"
  shows "br = branch \<and> (\<exists>w1 s. sha = Some s \<and> tested_commit cr base w1 s w')"
  using assms
proof (cases rule: attempt_cases)
  case (green w1 out w2 res)
  then have "commit_diff cr branch base w2 = (Inr (True, sha, br), w')" by simp
  from commit_diff_Inr [OF this] obtain s where s: "br = branch" "sha = Some s" "committed cr base w2 s w'" by auto
  moreover have "tested_commit cr base w1 s w'" unfolding tested_commit_def using green(2) s(3) by blast
  ultimately show ?thesis by blast
qed simp_all

lemma attempts_converged:
  "attempts n cr branch base failure w = (Inr (True, sha, br), w') \<Longrightarrow>
     br = branch \<and> (\<exists>w1 s. sha = Some s \<and> tested_commit cr base w1 s w')"
proof (induction n arbitrary: failure w)
  case (Suc n)
  then obtain r w1 where r: "attempt cr branch base failure w = (Inr r, w1)"
    "(case r of Inl failure \<Rightarrow> attempts n cr branch base failure | Inr res \<Rightarrow> ret res) w1 = (Inr (True, sha, br), w')"
    by (auto simp: act_bind_Inr)
  show ?case
  proof (cases r)
    case (Inl f)
    with r(2) Suc.IH show ?thesis by simp
  next
    case (Inr res)
    with r have "attempt cr branch base failure w = (Inr (Inr (True, sha, br)), w')" by simp
    then show ?thesis by (rule attempt_Inr)
  qed
qed simp

text \<open>Everything but \<open>git commit\<close> leaves \<open>head\<close> alone.\<close>

definition only_commit_moves :: "'w runner \<Rightarrow> ('w \<Rightarrow> 'h) \<Rightarrow> bool" where
  "only_commit_moves cr head \<longleftrightarrow>
     (\<forall>prompt w r w'. cr_agent cr prompt w = (r, w') \<longrightarrow> head w' = head w) \<and>
     (\<forall>w r w'. cr_acceptance cr w = (r, w') \<longrightarrow> head w' = head w) \<and>
     (\<forall>w args r w'. cr_git cr w args = (r, w') \<longrightarrow> take 1 args \<noteq> [''commit''] \<longrightarrow> head w' = head w)"

lemma only_commit_moves_git:
  "only_commit_moves cr head \<Longrightarrow> cr_git cr w (c # args) = (r, w') \<Longrightarrow> c \<noteq> ''commit'' \<Longrightarrow> head w' = head w"
  unfolding only_commit_moves_def by (metis list.inject take0 take_Suc_Cons One_nat_def)

lemma agent_turn_keeps: "only_commit_moves cr head \<Longrightarrow> agent_turn cr failure w = (r, w') \<Longrightarrow> head w' = head w"
  by (auto simp: agent_turn_def only_commit_moves_def split: sum.splits)

lemma attempt_keeps:
  assumes law: "only_commit_moves cr head" and run: "attempt cr branch base failure w = (Inr r, w')"
    and no: "\<And>sha br. r \<noteq> Inr (True, sha, br)"
  shows "head w' = head w \<and> (\<forall>ok sha br. r = Inr (ok, sha, br) \<longrightarrow> sha = None)"
  using run
proof (cases rule: attempt_cases)
  case (raised e)
  with agent_turn_keeps [OF law raised(1)] show ?thesis by simp
next
  case (red w1 out)
  then have "head w' = head w1" using law unfolding only_commit_moves_def by blast
  with red agent_turn_keeps [OF law red(1)] show ?thesis by simp
next
  case (green w1 out w2 res)
  obtain ok sha br where res: "res = (ok, sha, br)" by (cases res) auto
  have "head w2 = head w1" using law green(2) unfolding only_commit_moves_def by blast
  moreover from no green(4) res have "\<not> ok" by auto
  with commit_diff_Inr [OF green(3) [unfolded res]] obtain o1 w3 o2 where "sha = None"
    and add: "cr_git cr w2 (''add'' # ''-A'' # path_spec cr) = (Inr (0, o1), w3)"
    and diff: "cr_git cr w3 (''diff'' # ''--cached'' # ''--quiet'' # path_spec cr) = (Inr (0, o2), w')" by auto
  moreover have "head w3 = head w2" by (rule only_commit_moves_git [OF law add]) simp
  moreover have "head w' = head w3" by (rule only_commit_moves_git [OF law diff]) simp
  ultimately show ?thesis using green(4) res agent_turn_keeps [OF law green(1)] by simp
qed

lemma attempts_keep:
  "only_commit_moves cr head \<Longrightarrow> attempts n cr branch base failure w = (Inr (False, sha, br), w') \<Longrightarrow> head w' = head w \<and> sha = None"
proof (induction n arbitrary: failure w)
  case (Suc n)
  then obtain r w1 where r: "attempt cr branch base failure w = (Inr r, w1)"
    "(case r of Inl failure \<Rightarrow> attempts n cr branch base failure | Inr res \<Rightarrow> ret res) w1 = (Inr (False, sha, br), w')"
    by (auto simp: act_bind_Inr)
  then have "head w1 = head w \<and> (\<forall>ok sha br. r = Inr (ok, sha, br) \<longrightarrow> sha = None)"
    by (intro attempt_keeps [OF Suc.prems(1) r(1)]) (auto split: sum.splits)
  with r(2) Suc.IH [OF Suc.prems(1)] show ?case by (cases r) auto
qed simp

lemma current_branch_keeps: "only_commit_moves cr head \<Longrightarrow> current_branch (cr_git cr) w = (r, w') \<Longrightarrow> head w' = head w"
proof -
  assume law: "only_commit_moves cr head" and c: "current_branch (cr_git cr) w = (r, w')"
  obtain q w1 where q: "cr_git cr w [''rev-parse'', ''--abbrev-ref'', ''HEAD''] = (q, w1)" by fastforce
  have "head w1 = head w" by (rule only_commit_moves_git [OF law q]) simp
  moreover have "w' = w1" using c q
    by (auto simp: current_branch_def act_except_def act_bind_def git_checked_def git_plain_def ret_def raise_exc_def
        split: prod.splits sum.splits if_splits)
  ultimately show ?thesis by simp
qed

text \<open>
  C14: the runner cannot invent work: when it reports convergence, the acceptance command had returned
  true, after that the staged diff without the excluded paths was not empty, it was committed, and
  the commit reported is the head after the commit, attested for the configured peer; when it
  reports that it did not converge, no commit was made and it names none.
\<close>

theorem convergence_is_tested:
  assumes "only_commit_moves cr head" and "converge_agent cr w = (Inr (ok, sha, br), w')"
  shows "if ok then \<exists>base w1 s. sha = Some s \<and> tested_commit cr base w1 s w' else sha = None \<and> head w' = head w"
proof -
  from assms(2) obtain branch w1 rc out w2 where b: "current_branch (cr_git cr) w = (Inr branch, w1)"
    and r: "cr_git cr w1 [''rev-parse'', ''HEAD''] = (Inr (rc, out), w2)"
    and a: "attempts (nat (cr_budget cr)) cr branch (if rc = 0 then Some (strip out) else None) [] w2 = (Inr (ok, sha, br), w')"
    by (auto simp: converge_agent_def act_bind_Inr git_plain_def split: if_splits)
  have h: "head w2 = head w" using only_commit_moves_git [OF assms(1) r] current_branch_keeps [OF assms(1) b] by simp
  show ?thesis
  proof (cases ok)
    case True
    from a True have "attempts (nat (cr_budget cr)) cr branch (if rc = 0 then Some (strip out) else None) [] w2 = (Inr (True, sha, br), w')" by simp
    from attempts_converged [OF this] show ?thesis using True by auto
  next
    case False
    with a attempts_keep [OF assms(1)] h show ?thesis by auto
  qed
qed

section \<open>What the adapters promise\<close>

definition full_finding :: "string list \<Rightarrow> finding \<Rightarrow> bool" where
  "full_finding wanted f \<longleftrightarrow>
     fi_dimension f \<in> set wanted \<and>
     list_all (\<lambda>t. strip t \<noteq> []) [fi_id f, fi_dimension f, fi_severity f, fi_location f, fi_summary f, fi_fix f, fi_fail_first f]"

lemma text_field_Some: "text_field d k = Some v \<longleftrightarrow> jget d k = JStr v \<and> strip v \<noteq> []"
  by (auto simp: text_field_def split: json.splits)

lemma text_field_strip: "text_field d k = Some v \<Longrightarrow> strip v \<noteq> []"
  by (simp add: text_field_Some)

lemma finding_of_Some:
  "finding_of entry = Some f \<Longrightarrow> fi_dimension f \<in> set wanted \<Longrightarrow> full_finding wanted f"
  by (auto simp: finding_of_def finding_fields_def text_field_Some full_finding_def split: json.splits option.splits)

lemma collect_findings_ok:
  "list_all (full_finding wanted) out \<Longrightarrow> list_all (full_finding wanted) (collect_findings m wanted out entries) \<and>
   (int (length out) \<le> m \<longrightarrow> int (length (collect_findings m wanted out entries)) \<le> m)"
proof (induction m wanted out entries rule: collect_findings.induct)
  case (2 m wanted out entry entries)
  then show ?case by (cases "finding_of entry") (auto simp: finding_of_Some)
qed simp

lemma llm_audit_ok:
  assumes "llm_audit agent m repo dims w = (r, w')" and "1 \<le> m"
  shows "\<exists>fs. r = Inr fs \<and> int (length fs) \<le> m \<and> list_all (full_finding dims) fs"
proof -
  obtain a w1 where a: "agent (audit_prompt repo dims) w = (a, w1)" by fastforce
  from assms have "r = Inr (case a of Inl _ \<Rightarrow> [] | Inr t \<Rightarrow> (case extract_array t of None \<Rightarrow> [] | Some entries \<Rightarrow> collect_findings m dims [] entries))"
    by (cases a) (auto simp: llm_audit_def act_bind_def act_catch_def a)
  with collect_findings_ok [of dims "[]" m] assms(2) show ?thesis by (auto split: sum.splits option.splits)
qed

text \<open>The refuter clears a finding only on an explicit \<open>false\<close> of the agent, and it never raises.\<close>

lemma llm_refuter_clears:
  assumes "llm_refuter agent f vote w = (r, w')"
  shows "(\<exists>b. r = Inr (JBool b)) \<and>
    (r = Inr (JBool False) \<longrightarrow>
      (\<exists>t obj. agent (refute_prompt f) w = (Inr t, w') \<and> extract_object t = Some obj \<and> jget obj ''refuted'' = JBool False))"
proof -
  obtain a w1 where a: "agent (refute_prompt f) w = (a, w1)" by fastforce
  show ?thesis using assms
    by (cases a) (auto simp: llm_refuter_def act_bind_def act_catch_def a split: option.splits json.splits)
qed

text \<open>A contract the author returns has a plan the parser accepts, and an acceptance command.\<close>

lemma llm_author_valid:
  assumes "llm_author agent wd tmp repo fs w = (Inr (Some c), w')"
  shows "fs \<noteq> [] \<and> ac_findings c = map fi_id fs \<and> strip (ac_acceptance c) \<noteq> [] \<and>
    (\<exists>p. plan_of_text wd (ac_plan_md c) = Inr p \<and> sound_plan p)"
proof -
  from assms obtain obj where fs: "fs \<noteq> []" and "contract_of wd tmp (map fi_id fs) obj = Inr (Some c)"
  proof -
    obtain a w1 where a: "agent (author_prompt fs repo) w = (a, w1)" by fastforce
    show thesis using assms that
      by (cases a) (auto simp: llm_author_def act_bind_def act_catch_def a split: option.splits if_splits)
  qed
  then obtain md p where md: "plan_of_text wd md = Inr p"
    "c = \<lparr>ac_plan_md = md, ac_acceptance = (case text_field obj ''acceptance'' of Some a \<Rightarrow> a | None \<Rightarrow> pn_acceptance p),
          ac_findings = map fi_id fs, ac_e2e = text_field obj ''e2e''\<rparr>"
    by (auto simp: contract_of_def res_bind_Inr_iff split: option.splits sum.splits if_splits)
  from md(1) have "sound_plan p" by (auto simp: plan_of_text_def res_bind_Inr_iff dest: parse_plan_sound)
  moreover from this have "strip (ac_acceptance c) \<noteq> []"
    by (cases "text_field obj ''acceptance''") (simp_all add: md(2) sound_plan_def text_field_strip)
  ultimately show ?thesis using fs md by simp
qed

text \<open>Only a plan that parses is frozen, and what is frozen verifies.\<close>

lemma freeze_contract_True:
  assumes "hex_digests H" and "freeze_contract H wd stamp c [] = (Inr True, fs)" and "stamp \<noteq> []" and "one_line stamp"
  shows "verify_contracts H fs = Inr () \<and> (\<exists>p. plan_of_text wd (ac_plan_md c) = Inr p \<and> sound_plan p)"
proof -
  from assms(2) obtain data p where data: "encode (ac_plan_md c) = Inr data"
    and p: "parse_plan wd (dir_open (dict_set [] plan_md_name (File 1 420 data))) plan_md_name = Inr p"
    and w: "write_frozen_contracts H stamp (ac_acceptance c) (ac_e2e c) (ac_plan_md c)
      (dict_set [] plan_md_name (File 1 420 data)) = (Inr (), fs)"
    by (auto simp: freeze_contract_def Let_def act_bind_Inr split: sum.splits if_splits)
  have "sealed H fs"
    by (rule write_frozen_seals [OF assms(1) w _ assms(3,4)]) (simp add: plan_md_name_def contracts_log_def)
  then have "verify_contracts H fs = Inr ()" by (rule sealed_verifies [OF assms(1)])
  moreover have "read_bytes_no_symlink (dir_open (dict_set [] plan_md_name (File 1 420 data))) plan_md_name m =
      read_bytes_no_symlink (own_file data) ''PLAN.md'' m" for m
    by (simp add: read_bytes_no_symlink_def dir_open_def own_file_def)
  then have "plan_of_text wd (ac_plan_md c) = Inr p"
    using data p by (simp add: plan_of_text_def parse_plan_def)
  ultimately show ?thesis using parse_plan_sound [OF p] by blast
qed

text \<open>
  C15: develop never edits freehand: when the implementer reports success, the plan of the contract is
  one the parser accepts, the converging runner was called on a fresh directory in which the frozen
  contract verifies, it was called exactly once and said that it converged, and the scratch
  directory is removed in the end.
\<close>

theorem implementer_runs_frozen_contract:
  assumes "hex_digests H" and "stamp \<noteq> []" and "one_line stamp"
    and "contract_implement H wd stamp si c w = (Inr r, w')" and "ir_ok r"
  shows "\<exists>dir fs w1 w2 p. si_mkdtemp si w = (Inr dir, w1) \<and> plan_of_text wd (ac_plan_md c) = Inr p \<and> sound_plan p \<and>
    verify_contracts H fs = Inr () \<and> si_converge si dir fs w1 = (Inr (True, ir_head_sha r, ir_branch r), w2) \<and>
    w' = si_rmtree si dir w2"
proof -
  from assms(4,5) obtain dir w1 where m: "si_mkdtemp si w = (Inr dir, w1)" and
    rest: "(case freeze_contract H wd stamp c [] of
               (Inl e, fs) \<Rightarrow> (Inl e, si_rmtree si dir w1)
             | (Inr False, fs) \<Rightarrow> (Inr (not_implemented InvalidContract), si_rmtree si dir w1)
             | (Inr True, fs) \<Rightarrow>
                 (case si_converge si dir fs w1 of (r, w2) \<Rightarrow> (Inr (result_of r), si_rmtree si dir w2))) = (Inr r, w')"
    by (auto simp: contract_implement_def not_implemented_def split: prod.splits sum.splits if_splits)
  obtain q fs where f: "freeze_contract H wd stamp c [] = (q, fs)" by fastforce
  from rest f assms(5) have q: "q = Inr True" by (auto simp: not_implemented_def split: sum.splits bool.splits)
  obtain cv w2 where cv: "si_converge si dir fs w1 = (cv, w2)" by fastforce
  from rest f q cv have r: "r = result_of cv" "w' = si_rmtree si dir w2" by simp_all
  with assms(5) have "cv = Inr (True, ir_head_sha r, ir_branch r)"
    by (cases cv) (auto simp: result_of_def not_implemented_def)
  moreover from freeze_contract_True [OF assms(1) f [unfolded q] assms(2,3)] obtain p where
    "verify_contracts H fs = Inr ()" "plan_of_text wd (ac_plan_md c) = Inr p" "sound_plan p" by blast
  ultimately show ?thesis using m cv r(2) by blast
qed

section \<open>A contract and a repository\<close>

definition sample_contract :: authored_contract where
  "sample_contract = \<lparr>ac_plan_md = sample_plan_text, ac_acceptance = ''pytest'', ac_findings = [''AUD-1''], ac_e2e = None\<rparr>"

definition sample_site :: "unit site" where
  "sample_site = \<lparr>si_is_dir = (\<lambda>_. True), si_mkdtemp = ret ''/r/tmp'', si_rmtree = (\<lambda>_ w. w),
     si_converge = (\<lambda>_ _. ret (True, Some ''c'', Some ''b''))\<rparr>"

definition sample_implement :: "implement_result res \<times> unit" where
  "sample_implement = contract_implement sample_digest no_wide ''t0'' sample_site sample_contract ()"

lemma sample_implements: "case fst sample_implement of Inr r \<Rightarrow> ir_ok r | Inl _ \<Rightarrow> False"
  by code_simp

theorem implementer_runs_frozen_contract_witness:
  "\<exists>fs p. plan_of_text no_wide (ac_plan_md sample_contract) = Inr p \<and> sound_plan p \<and> verify_contracts sample_digest fs = Inr ()"
proof -
  obtain q w where q: "sample_implement = (q, w)" by (rule prod.exhaust)
  from sample_implements have "case q of Inr r \<Rightarrow> ir_ok r | Inl _ \<Rightarrow> False" unfolding q by simp
  with q obtain r where r: "sample_implement = (Inr r, w)" "ir_ok r" by (cases q) auto
  have "''t0'' \<noteq> []" "one_line ''t0''" by (simp_all add: byte_def)
  from implementer_runs_frozen_contract [OF sample_hex_digests this r(1) [unfolded sample_implement_def] r(2)]
  show ?thesis by blast
qed

text \<open>A repository whose state is the number of its commits; the index always differs from the head.\<close>

definition counting_git :: "nat gitw" where
  "counting_git n args =
     (if take 1 args = [''commit''] then (Inr (0, []), n + 1)
      else if take 1 args = [''diff''] then (Inr (1, []), n)
      else (Inr (0, show_nat n), n))"

definition sample_runner :: "nat runner" where
  "sample_runner = \<lparr>cr_git = counting_git, cr_agent = (\<lambda>_. ret ()), cr_acceptance = ret (True, []),
     cr_plan_file = (\<lambda>_. Inr None), cr_budget = 1, cr_message = ''m'', cr_exclude = [], cr_contract = None, cr_attest = None\<rparr>"

lemma sample_runner_law: "only_commit_moves sample_runner (\<lambda>n. n)"
  by (auto simp: only_commit_moves_def sample_runner_def counting_git_def split: if_splits)

lemma sample_converges: "converge_agent sample_runner 4 = (Inr (True, Some ''5'', Some ''4''), 5)"
  by code_simp

theorem convergence_is_tested_witness:
  "\<exists>base w1. tested_commit sample_runner base w1 ''5'' 5"
  using convergence_is_tested [OF sample_runner_law sample_converges] by auto

text \<open>
  The author is documented never to raise: a plan with a lone surrogate, which JSON can spell,
  makes \<open>write_text\<close> raise \<open>UnicodeEncodeError\<close>, and its handler does not catch that.
\<close>

definition surrogate_answer :: string where
  "surrogate_answer = ''{'' @ [CHR 0x22] @ ''plan_md'' @ [CHR 0x22] @ '': '' @ [CHR 0x22] @ [CHR 0x5C] @ ''ud800'' @ [CHR 0x22] @ ''}''"

lemma author_raises_on_surrogate:
  "fst (llm_author (\<lambda>_. ret surrogate_answer) no_wide (Inr ()) ''r''
     [\<lparr>fi_id = ''A'', fi_dimension = ''d'', fi_severity = ''s'', fi_location = ''l'', fi_summary = ''s'', fi_fix = ''f'', fi_fail_first = ''t''\<rparr>] ())
   = Inl UnicodeEncodeError"
  by code_simp

end
