(* ===== verification/Spec2Isabelle.thy ===== *)
theory Spec2Isabelle
  imports Json_Roundtrip Landing Program Reject SlotRunner Manifest FleetChild LoopTheorems State_Roundtrip GatePipeline SoftReviews PlanParser Contracts Bars Replies DevelopPorts
begin

text \<open>
  The verification development of \<open>peers\<close>, a substrate that runs coding agents in ticks and
  keeps its decisions on a hash-chained ledger.
\<close>

end
